(* ===== verification/Prelude.thy ===== *)
theory Prelude
  imports
    Main
    "HOL-Library.Word"
    "HOL-Library.Char_ord"
    "HOL-Library.List_Lexorder"
    "HOL-Library.AList"
    "HOL-Library.Multiset"
    "HOL-Library.Code_Target_Numeral"
begin

text \<open>
  The shared vocabulary of the development: the machine types of the Rust sources, results
  with errors as values, the parts of the Rust standard library that the modelled code uses
  (UTF-8, \<^verbatim>\<open>str::split\<close>, little-endian integers, checked arithmetic, hash maps and ordered
  maps), the code outside the repository as a record of parameters, and the general lemmas
  the component theories rest on.

  A Rust \<^verbatim>\<open>str\<close> or \<^verbatim>\<open>String\<close> is the list of its UTF-8 bytes, and a HOL \<open>char\<close> is one byte:
  \<open>length\<close> is \<^verbatim>\<open>str::len\<close> and the lexicographic order on lists is \<^verbatim>\<open>Ord for str\<close>. A Rust
  \<^verbatim>\<open>String\<close> is well-formed UTF-8 by its type; \<open>utf8_ok\<close> states that here where it matters.
\<close>

section \<open>Machine types and results\<close>

type_synonym byte = char
type_synonym bytes = "char list"
type_synonym u32 = "32 word"
type_synonym u64 = "64 word"

text \<open>An \<^verbatim>\<open>i64\<close> is kept at its width; \<open>sint\<close> reads it as two's complement.\<close>

type_synonym i64 = "64 word"

abbreviation i64_less :: "i64 \<Rightarrow> i64 \<Rightarrow> bool" where
  "i64_less a b \<equiv> sint a < sint b"

definition rbind :: "'e + 'a \<Rightarrow> ('a \<Rightarrow> 'e + 'b) \<Rightarrow> 'e + 'b" where
  "rbind r f = (case r of Inl e \<Rightarrow> Inl e | Inr x \<Rightarrow> f x)"

definition ensure :: "bool \<Rightarrow> 'e \<Rightarrow> 'e + unit" where
  "ensure b e = (if b then Inr () else Inl e)"

definition map_err :: "('e \<Rightarrow> 'f) \<Rightarrow> 'e + 'a \<Rightarrow> 'f + 'a" where
  "map_err g r = (case r of Inl e \<Rightarrow> Inl (g e) | Inr x \<Rightarrow> Inr x)"

definition is_ok :: "'e + 'a \<Rightarrow> bool" where
  "is_ok r = (case r of Inl _ \<Rightarrow> False | Inr _ \<Rightarrow> True)"

text \<open>A \<^verbatim>\<open>for\<close> loop whose body may return early with \<^verbatim>\<open>?\<close>.\<close>

fun fold_result :: "('a \<Rightarrow> 's \<Rightarrow> 'e + 's) \<Rightarrow> 'a list \<Rightarrow> 's \<Rightarrow> 'e + 's" where
  "fold_result f [] s = Inr s"
| "fold_result f (x # xs) s = rbind (f x s) (fold_result f xs)"

definition for_each :: "('a \<Rightarrow> 'e + unit) \<Rightarrow> 'a list \<Rightarrow> 'e + unit" where
  "for_each f xs = fold_result (\<lambda>x _. f x) xs ()"

text \<open>
  Evaluation unfolds the sequencing of results to a case distinction, so that the kernel only
  simplifies the continuation once the result is known.
\<close>

declare rbind_def [code_unfold]

named_theorems result_simps \<open>rewriting of results\<close>

lemma rbind_simps [simp, result_simps]:
  "rbind (Inl e) f = Inl e"
  "rbind (Inr x) f = f x"
  by (simp_all add: rbind_def)

lemma rbind_eq_Inr [result_simps]:
  "rbind r f = Inr y \<longleftrightarrow> (\<exists>x. r = Inr x \<and> f x = Inr y)"
  by (cases r) auto

lemma rbind_eq_Inl [result_simps]:
  "rbind r f = Inl e \<longleftrightarrow> r = Inl e \<or> (\<exists>x. r = Inr x \<and> f x = Inl e)"
  by (cases r) auto

lemma rbind_assoc: "rbind (rbind r f) g = rbind r (\<lambda>x. rbind (f x) g)"
  by (cases r) auto

lemma rbind_cong [fundef_cong]:
  "r = r' \<Longrightarrow> (\<And>x. r' = Inr x \<Longrightarrow> f x = f' x) \<Longrightarrow> rbind r f = rbind r' f'"
  by (cases r') auto

lemma ensure_eq_Inr [simp, result_simps]: "ensure b e = Inr u \<longleftrightarrow> b"
  by (simp add: ensure_def)

lemma ensure_eq_Inl [simp, result_simps]: "ensure b e = Inl e' \<longleftrightarrow> \<not> b \<and> e = e'"
  by (simp add: ensure_def)

lemma ensure_simps [simp]: "ensure True e = Inr ()" "ensure False e = Inl e"
  by (simp_all add: ensure_def)

lemma map_err_eq_Inr [simp, result_simps]: "map_err g r = Inr x \<longleftrightarrow> r = Inr x"
  by (cases r) (auto simp: map_err_def)

lemma map_err_simps [simp]: "map_err g (Inr x) = Inr x" "map_err g (Inl e) = Inl (g e)"
  by (simp_all add: map_err_def)

lemma is_ok_simps [simp]: "is_ok (Inl e) = False" "is_ok (Inr x) = True"
  by (simp_all add: is_ok_def)

lemma is_ok_iff: "is_ok r \<longleftrightarrow> (\<exists>x. r = Inr x)"
  by (cases r) auto

lemma unit_result_ok [simp]: "(\<exists>u. r = Inr (u::unit)) \<longleftrightarrow> r = Inr ()"
  by auto

lemma for_each_simps [simp]:
  "for_each f [] = Inr ()"
  "for_each f (x # xs) = rbind (f x) (\<lambda>_. for_each f xs)"
  by (simp_all add: for_each_def)

lemma for_each_eq_Inr [result_simps]:
  "for_each f xs = Inr u \<longleftrightarrow> (\<forall>x\<in>set xs. f x = Inr ())"
  by (induction xs) (auto simp: rbind_eq_Inr)

lemma fold_result_append:
  "fold_result f (xs @ ys) s = rbind (fold_result f xs s) (fold_result f ys)"
proof (induction xs arbitrary: s)
  case (Cons a xs)
  then show ?case by (cases "f a s") simp_all
qed simp

text \<open>An invariant of a fallible loop: what every successful iteration keeps, the loop keeps.\<close>

lemma fold_result_invariant:
  assumes "fold_result f xs s = Inr s'" and "Q s"
    and "\<And>x t t'. x \<in> set xs \<Longrightarrow> Q t \<Longrightarrow> f x t = Inr t' \<Longrightarrow> Q t'"
  shows "Q s'"
  using assms
proof (induction xs arbitrary: s)
  case Nil
  then show ?case by simp
next
  case (Cons x xs)
  from Cons.prems(1) obtain t where "f x s = Inr t" and rest: "fold_result f xs t = Inr s'"
    by (auto simp: rbind_eq_Inr)
  with Cons.prems(2,3) have "Q t" by (metis list.set_intros(1))
  show ?case by (rule Cons.IH [OF rest \<open>Q t\<close>]) (metis Cons.prems(3) list.set_intros(2))
qed

section \<open>Code outside the repository\<close>

text \<open>
  The code under \<^verbatim>\<open>src/\<close> calls libraries whose code is not there. They are parameters of the
  model: \<open>nfc\<close> is \<^verbatim>\<open>unicode_normalization\<close>'s normal form C, \<open>to_lowercase\<close> the Unicode case
  table behind \<^verbatim>\<open>str::to_lowercase\<close>, and \<open>blake3_hex\<close> the hexadecimal Blake3 digest.
\<close>

record prims =
  nfc :: "string \<Rightarrow> string"
  to_lowercase :: "string \<Rightarrow> string"
  blake3_hex :: "bytes \<Rightarrow> string"

section \<open>UTF-8\<close>

abbreviation between :: "nat \<Rightarrow> nat \<Rightarrow> char \<Rightarrow> bool" where
  "between lo hi c \<equiv> lo \<le> (of_char c :: nat) \<and> (of_char c :: nat) \<le> hi"

definition cont_bits :: "char \<Rightarrow> nat" where
  "cont_bits c = (of_char c :: nat) mod 64"

text \<open>The first scalar value of a byte string, with the strictness of \<^verbatim>\<open>str::from_utf8\<close>.\<close>

definition utf8_next :: "bytes \<Rightarrow> (nat \<times> bytes) option" where
  "utf8_next s =
    (case s of
       [] \<Rightarrow> None
     | a # r \<Rightarrow>
        if (of_char a :: nat) < 128 then Some (of_char a, r)
        else (case r of
           [] \<Rightarrow> None
         | b # r1 \<Rightarrow>
            if between 194 223 a then
              (if between 128 191 b
               then Some ((of_char a - 192) * 64 + cont_bits b, r1) else None)
            else (case r1 of
               [] \<Rightarrow> None
             | c # r2 \<Rightarrow>
                if between 224 239 a then
                  (if between 128 191 c \<and> between (if of_char a = (224::nat) then 160 else 128)
                        (if of_char a = (237::nat) then 159 else 191) b
                   then Some ((of_char a - 224) * 4096 + cont_bits b * 64 + cont_bits c, r2)
                   else None)
                else (case r2 of
                   [] \<Rightarrow> None
                 | d # r3 \<Rightarrow>
                    if between 240 244 a \<and> between 128 191 c \<and> between 128 191 d \<and>
                       between (if of_char a = (240::nat) then 144 else 128)
                         (if of_char a = (244::nat) then 143 else 191) b
                    then Some ((of_char a - 240) * 262144 + cont_bits b * 4096
                               + cont_bits c * 64 + cont_bits d, r3)
                    else None))))"

lemma utf8_next_shorter: "utf8_next s = Some (v, r) \<Longrightarrow> length r < length s"
  by (auto simp: utf8_next_def split: list.splits if_splits)

function utf8_chars :: "bytes \<Rightarrow> nat list option" where
  "utf8_chars s =
    (if s = [] then Some []
     else case utf8_next s of
            None \<Rightarrow> None
          | Some (v, r) \<Rightarrow> map_option ((#) v) (utf8_chars r))"
  by pat_completeness auto
termination
  by (relation "measure length") (auto dest: utf8_next_shorter)

declare utf8_chars.simps [simp del]

definition utf8_ok :: "bytes \<Rightarrow> bool" where
  "utf8_ok s = (utf8_chars s \<noteq> None)"

text \<open>\<^verbatim>\<open>str::chars\<close>; every Rust string decodes.\<close>

definition chars :: "string \<Rightarrow> nat list" where
  "chars s = (case utf8_chars s of Some vs \<Rightarrow> vs | None \<Rightarrow> map of_char s)"

definition is_control :: "nat \<Rightarrow> bool" where
  "is_control v = (v < 32 \<or> (127 \<le> v \<and> v < 160))"

definition is_ascii :: "char \<Rightarrow> bool" where
  "is_ascii c = ((of_char c :: nat) < 128)"

lemma utf8_chars_ascii: "list_all is_ascii s \<Longrightarrow> utf8_chars s = Some (map of_char s)"
proof (induction s)
  case Nil
  then show ?case by (simp add: utf8_chars.simps)
next
  case (Cons a s)
  then show ?case
    by (subst utf8_chars.simps) (simp add: utf8_next_def is_ascii_def)
qed

lemma utf8_ok_ascii [intro]: "list_all is_ascii s \<Longrightarrow> utf8_ok s"
  by (simp add: utf8_ok_def utf8_chars_ascii)

section \<open>Splitting and joining\<close>

text \<open>\<^verbatim>\<open>str::split(c)\<close> yields one more piece than there are separators, so never no piece.\<close>

fun split_on :: "char \<Rightarrow> string \<Rightarrow> string list" where
  "split_on c [] = [[]]"
| "split_on c (x # xs) =
     (if x = c then [] # split_on c xs
      else case split_on c xs of [] \<Rightarrow> [[x]] | y # ys \<Rightarrow> (x # y) # ys)"

fun join_on :: "char \<Rightarrow> string list \<Rightarrow> string" where
  "join_on c [] = []"
| "join_on c [x] = x"
| "join_on c (x # y # ys) = x @ c # join_on c (y # ys)"

lemma split_on_nonempty [simp]: "split_on c s \<noteq> []"
  by (induction s) (auto split: list.splits)

lemma join_split [simp]: "join_on c (split_on c s) = s"
proof (induction s)
  case (Cons x s)
  then show ?case
    by (cases "split_on c s" rule: remdups_adj.cases) auto
qed simp

lemma split_on_single: "c \<notin> set x \<Longrightarrow> split_on c x = [x]"
  by (induction x) auto

lemma split_on_append_sep: "c \<notin> set x \<Longrightarrow> split_on c (x @ c # s) = x # split_on c s"
  by (induction x) auto

lemma split_join:
  "xs \<noteq> [] \<Longrightarrow> \<forall>x\<in>set xs. c \<notin> set x \<Longrightarrow> split_on c (join_on c xs) = xs"
  by (induction c xs rule: join_on.induct) (auto simp: split_on_single split_on_append_sep)

lemma split_on_no_sep: "x \<in> set (split_on c s) \<Longrightarrow> c \<notin> set x"
  by (induction s arbitrary: x) (auto split: if_splits list.splits)

lemma join_on_inj:
  assumes "join_on c xs = join_on c ys" and "xs \<noteq> []" and "ys \<noteq> []"
    and "\<forall>x\<in>set xs. c \<notin> set x" and "\<forall>y\<in>set ys. c \<notin> set y"
  shows "xs = ys"
  using assms by (metis split_join)

lemma join_on_Cons: "xs \<noteq> [] \<Longrightarrow> join_on c (x # xs) = x @ c # join_on c xs"
  by (cases xs) auto

lemma join_on_snoc: "xs \<noteq> [] \<Longrightarrow> join_on c (xs @ [x]) = join_on c xs @ c # x"
  by (induction c xs rule: join_on.induct) auto

section \<open>Integers of the wire format\<close>

text \<open>\<^verbatim>\<open>to_le_bytes\<close> and \<^verbatim>\<open>from_le_bytes\<close> over the unsigned value of a word.\<close>

primrec le_bytes :: "nat \<Rightarrow> nat \<Rightarrow> bytes" where
  "le_bytes 0 k = []"
| "le_bytes (Suc n) k = char_of (k mod 256) # le_bytes n (k div 256)"

fun le_value :: "bytes \<Rightarrow> nat" where
  "le_value [] = 0"
| "le_value (b # bs) = of_char b + 256 * le_value bs"

lemma length_le_bytes [simp]: "length (le_bytes n k) = n"
  by (induction n arbitrary: k) auto

lemma le_value_le_bytes: "le_value (le_bytes n k) = k mod 256 ^ n"
proof (induction n arbitrary: k)
  case (Suc n)
  have "k mod 256 + 256 * (k div 256 mod 256 ^ n) = k mod (256 * 256 ^ n)"
    by (simp add: mod_mult2_eq)
  with Suc show ?case by (simp add: take_bit_eq_mod)
qed simp

lemma le_value_bound: "le_value bs < 256 ^ length bs"
proof (induction bs)
  case (Cons b bs)
  have "of_char b + 256 * le_value bs < 256 * Suc (le_value bs)" by simp
  also have "\<dots> \<le> 256 * 256 ^ length bs"
    using Cons by (intro mult_le_mono2) simp
  finally show ?case by simp
qed simp

lemma le_bytes_le_value: "le_bytes (length bs) (le_value bs) = bs"
proof (induction bs)
  case (Cons b bs)
  then show ?case by simp
qed simp

lemma unat_bound: "unat (w :: 'a::len word) < 2 ^ LENGTH('a)"
  by (rule unsigned_less)

lemma unat_word_of_nat: "n < 2 ^ LENGTH('a) \<Longrightarrow> unat (word_of_nat n :: 'a::len word) = n"
  by (simp add: unsigned_of_nat take_bit_nat_eq_self)

text \<open>Checked arithmetic of a 64-bit \<^verbatim>\<open>usize\<close>, whose values are naturals here.\<close>

definition usize_bound :: nat where
  "usize_bound = 2 ^ 64"

definition checked_add :: "nat \<Rightarrow> nat \<Rightarrow> nat option" where
  "checked_add a b = (if a + b < usize_bound then Some (a + b) else None)"

definition checked_sub :: "nat \<Rightarrow> nat \<Rightarrow> nat option" where
  "checked_sub a b = (if b \<le> a then Some (a - b) else None)"

definition saturating_add :: "nat \<Rightarrow> nat \<Rightarrow> nat" where
  "saturating_add a b = min (a + b) (usize_bound - 1)"

definition ok_or :: "'a option \<Rightarrow> 'e \<Rightarrow> 'e + 'a" where
  "ok_or x e = (case x of Some v \<Rightarrow> Inr v | None \<Rightarrow> Inl e)"

lemma ok_or_simps [simp]: "ok_or (Some v) e = Inr v" "ok_or None e = Inl e"
  by (simp_all add: ok_or_def)

lemma ok_or_eq_Inr [simp, result_simps]: "ok_or x e = Inr v \<longleftrightarrow> x = Some v"
  by (cases x) auto

lemma checked_add_eq_Some [simp]:
  "checked_add a b = Some c \<longleftrightarrow> c = a + b \<and> a + b < usize_bound"
  by (auto simp: checked_add_def)

lemma checked_sub_eq_Some [simp]: "checked_sub a b = Some c \<longleftrightarrow> b \<le> a \<and> c = a - b"
  by (auto simp: checked_sub_def)

end
