(* ===== verification/Portable.thy ===== *)
theory Portable
  imports Prelude
begin

text \<open>
  The contract layer of \<^verbatim>\<open>common/src/lib.rs\<close>: file states and sync messages, portable
  workspace-relative paths, object identifiers, reachability manifests and the checked
  conversion of persisted sizes.
\<close>

section \<open>Shared models\<close>

record file_state =
  fs_path :: string
  fs_hash :: string
  fs_size :: u64
  fs_mtime :: i64
  fs_deleted :: bool
  fs_mode :: u32

datatype conflict_kind = EditEdit | EditDelete | DeleteEdit

record sync_response =
  upload_required :: "string list"
  download_required :: "file_state list"
  delete_local :: "string list"

text \<open>
  A concurrent edit: the fields the engine computes with. The presentation fields
  (artifact file names, hints, proposals) are set to their defaults by \<^verbatim>\<open>ConcurrentEdit::new\<close>
  and filled in by the conflict surface only.
\<close>

record concurrent_edit =
  ce_path :: string
  ce_base :: "file_state option"
  ce_ours :: "file_state option"
  ce_theirs :: "file_state option"
  ce_local_available :: bool
  ce_cloud_available :: bool

definition is_some_and :: "'a option \<Rightarrow> ('a \<Rightarrow> bool) \<Rightarrow> bool" where
  "is_some_and x p = (case x of Some v \<Rightarrow> p v | None \<Rightarrow> False)"

lemma is_some_and_simps [simp]: "is_some_and (Some v) p = p v" "is_some_and None p = False"
  by (simp_all add: is_some_and_def)

definition concurrent_edit_new ::
  "string \<Rightarrow> file_state option \<Rightarrow> file_state option \<Rightarrow> file_state option \<Rightarrow> concurrent_edit"
where
  "concurrent_edit_new path base ours theirs =
     \<lparr>ce_path = path, ce_base = base, ce_ours = ours, ce_theirs = theirs,
      ce_local_available = is_some_and ours (\<lambda>o'. \<not> fs_deleted o'),
      ce_cloud_available = is_some_and theirs (\<lambda>t. \<not> fs_deleted t)\<rparr>"

fun conflict_kind_as_db_str :: "conflict_kind \<Rightarrow> string" where
  "conflict_kind_as_db_str EditEdit = ''edit_edit''"
| "conflict_kind_as_db_str EditDelete = ''edit_delete''"
| "conflict_kind_as_db_str DeleteEdit = ''delete_edit''"

definition conflict_kind_from_db_str :: "string \<Rightarrow> string + conflict_kind" where
  "conflict_kind_from_db_str s =
     (if s = ''edit_edit'' then Inr EditEdit
      else if s = ''edit_delete'' then Inr EditDelete
      else if s = ''delete_edit'' then Inr DeleteEdit
      else Inl s)"

lemma conflict_kind_db_roundtrip:
  "conflict_kind_from_db_str (conflict_kind_as_db_str k) = Inr k"
  by (cases k) (simp_all add: conflict_kind_from_db_str_def)

section \<open>Persisted sizes\<close>

datatype size_conversion_error = CorruptMetadata i64 | UnsupportedSize u64

text \<open>\<^verbatim>\<open>u64::try_from(i64)\<close> and \<^verbatim>\<open>i64::try_from(u64)\<close> keep the bits when the value fits.\<close>

definition file_size_from_db :: "i64 \<Rightarrow> size_conversion_error + u64" where
  "file_size_from_db n = (if 0 \<le> sint n then Inr n else Inl (CorruptMetadata n))"

definition file_size_to_db :: "u64 \<Rightarrow> size_conversion_error + i64" where
  "file_size_to_db n = (if unat n < 2 ^ 63 then Inr n else Inl (UnsupportedSize n))"

lemma sint_nonneg_iff: "0 \<le> sint (w :: 64 word) \<longleftrightarrow> unat w < 2 ^ 63"
proof -
  have "0 \<le> sint w \<longleftrightarrow> \<not> bit w 63"
    using bit_last_iff [of w] by (simp add: not_less)
  also have "bit w 63 \<longleftrightarrow> odd (uint w div 2 ^ 63)"
    using bit_uint_iff [of w 63] by (simp add: bit_iff_odd)
  also have "odd (uint w div 2 ^ 63) \<longleftrightarrow> 2 ^ 63 \<le> uint w"
    using uint_lt2p [of w]
    by (cases "2 ^ 63 \<le> uint w") (simp_all add: div_pos_geq div_pos_pos_trivial)
  finally have "0 \<le> sint w \<longleftrightarrow> uint w < 2 ^ 63"
    by (simp only: not_le)
  also have "\<dots> \<longleftrightarrow> int (unat w) < int (2 ^ 63)" by simp
  finally show ?thesis by (simp only: of_nat_less_iff)
qed

section \<open>Portable paths\<close>

definition max_portable_component_bytes :: nat where
  "max_portable_component_bytes = 255"

definition max_portable_path_bytes :: nat where
  "max_portable_path_bytes = 4096"

definition normalize_path :: "string \<Rightarrow> string" where
  "normalize_path path = map (\<lambda>c. if c = CHR 0x5C then CHR ''/'' else c) path"

definition ascii_lower :: "char \<Rightarrow> char" where
  "ascii_lower c = (if between 65 90 c then char_of ((of_char c :: nat) + 32) else c)"

definition ascii_upper :: "char \<Rightarrow> char" where
  "ascii_upper c = (if between 97 122 c then char_of ((of_char c :: nat) - 32) else c)"

definition eq_ignore_ascii_case :: "string \<Rightarrow> string \<Rightarrow> bool" where
  "eq_ignore_ascii_case a b = (map ascii_lower a = map ascii_lower b)"

definition superscripts :: "string list" where
  "superscripts = [[CHR 0xC2, CHR 0xB9], [CHR 0xC2, CHR 0xB2], [CHR 0xC2, CHR 0xB3]]"

definition windows_reserved_stems :: "string list" where
  "windows_reserved_stems =
     [''CON'', ''PRN'', ''AUX'', ''NUL'']
     @ map (\<lambda>d. ''COM'' @ d)
         ([''1'', ''2'', ''3'', ''4'', ''5'', ''6'', ''7'', ''8'', ''9''] @ superscripts)
     @ map (\<lambda>d. ''LPT'' @ d)
         ([''1'', ''2'', ''3'', ''4'', ''5'', ''6'', ''7'', ''8'', ''9''] @ superscripts)
     @ [''CONIN$'', ''CONOUT$'']"

definition is_windows_reserved_component :: "string \<Rightarrow> bool" where
  "is_windows_reserved_component component =
     (map ascii_upper (hd (split_on (CHR ''.'') component)) \<in> set windows_reserved_stems)"

text \<open>The characters of the Rust literal \<^verbatim>\<open>r#"<>:"|?*"#\<close>, as scalar values.\<close>

definition forbidden_characters :: "nat list" where
  "forbidden_characters = [60, 62, 58, 34, 124, 63, 42]"

definition is_safe_component :: "string \<Rightarrow> bool" where
  "is_safe_component component =
     (component \<noteq> []
      \<and> length component \<le> max_portable_component_bytes
      \<and> component \<noteq> ''.''
      \<and> component \<noteq> ''..''
      \<and> \<not> eq_ignore_ascii_case component ''.feanorfs''
      \<and> \<not> eq_ignore_ascii_case component ''.git''
      \<and> \<not> eq_ignore_ascii_case component ''.jj''
      \<and> last component \<notin> {CHR '' '', CHR ''.''}
      \<and> \<not> (\<exists>v\<in>set (chars component). is_control v \<or> v \<in> set forbidden_characters)
      \<and> \<not> is_windows_reserved_component component)"

definition is_safe_rel_path :: "prims \<Rightarrow> string \<Rightarrow> bool" where
  "is_safe_rel_path P path =
     (\<not> (path = []
         \<or> length path > max_portable_path_bytes
         \<or> hd path = CHR ''/''
         \<or> CHR 0x5C \<in> set path
         \<or> nfc P path \<noteq> path)
      \<and> list_all is_safe_component (split_on (CHR ''/'') path))"

lemma safe_component_no_slash:
  "is_safe_rel_path P path \<Longrightarrow> c \<in> set (split_on (CHR ''/'') path) \<Longrightarrow>
     is_safe_component c \<and> CHR ''/'' \<notin> set c"
  by (auto simp: is_safe_rel_path_def list_all_iff split_on_no_sep)

lemma is_safe_rel_path_single:
  assumes "is_safe_rel_path P name" and "CHR ''/'' \<notin> set name"
  shows "is_safe_component name"
  using assms by (simp add: is_safe_rel_path_def split_on_single)

section \<open>Object identifiers and reachability manifests\<close>

definition is_hash_char :: "char \<Rightarrow> bool" where
  "is_hash_char c = (between 48 57 c \<or> between 97 102 c)"

definition is_valid_hash :: "string \<Rightarrow> bool" where
  "is_valid_hash h = (length h = 64 \<and> list_all is_hash_char h)"

definition manifest_max_entries :: nat where
  "manifest_max_entries = 250000"

datatype manifest_error =
    InvalidSnapshotId
  | ManifestTooManyEntries
  | ManifestInvalidObjectId
  | ManifestRootless
  | ManifestEmpty
  | ManifestNotCanonical

text \<open>\<^verbatim>\<open>Vec::sort_unstable\<close> then \<^verbatim>\<open>Vec::dedup\<close> on strings, whose equal elements are identical.\<close>

definition sort_dedup :: "string list \<Rightarrow> string list" where
  "sort_dedup xs = remdups_adj (sort xs)"

definition canonical_manifest_hash_list ::
  "string \<Rightarrow> string list \<Rightarrow> manifest_error + string list" where
  "canonical_manifest_hash_list snapshot_id hashes =
     rbind (ensure (is_valid_hash snapshot_id) InvalidSnapshotId) (\<lambda>_.
     rbind (ensure (length hashes \<le> manifest_max_entries) ManifestTooManyEntries) (\<lambda>_.
     rbind (ensure (list_all is_valid_hash hashes) ManifestInvalidObjectId) (\<lambda>_.
     rbind (ensure (snapshot_id \<in> set hashes) ManifestRootless) (\<lambda>_.
     Inr (sort_dedup hashes)))))"

text \<open>
  \<^verbatim>\<open>str::lines\<close>: a line feed ends a line and takes a carriage return before it along; text
  after the last line feed is a line only when there is some, and keeps its carriage return.
\<close>

definition strip_cr :: "string \<Rightarrow> string" where
  "strip_cr s = (if s \<noteq> [] \<and> last s = CHR 0x0D then butlast s else s)"

definition str_lines :: "string \<Rightarrow> string list" where
  "str_lines s =
     (let ps = split_on (CHR 0x0A) s
      in map strip_cr (butlast ps) @ (if last ps = [] then [] else [last ps]))"

text \<open>\<open>binary_search\<close> on the sorted, deduplicated list is membership.\<close>

definition canonical_manifest_hashes ::
  "string \<Rightarrow> string \<Rightarrow> manifest_error + string list" where
  "canonical_manifest_hashes snapshot_id manifest =
     rbind (ensure (is_valid_hash snapshot_id) InvalidSnapshotId) (\<lambda>_.
     rbind (fold_result
              (\<lambda>hash hashes.
                 rbind (ensure (length hashes < manifest_max_entries) ManifestTooManyEntries) (\<lambda>_.
                 rbind (ensure (is_valid_hash hash) ManifestInvalidObjectId) (\<lambda>_.
                 Inr (hashes @ [hash]))))
              (str_lines manifest) []) (\<lambda>hashes.
     rbind (ensure (snapshot_id \<in> set (sort_dedup hashes)) ManifestRootless) (\<lambda>_.
     Inr (sort_dedup hashes))))"

text \<open>\<^verbatim>\<open>hub_contract::validate_manifest_hashes\<close>; \<^verbatim>\<open>windows(2)\<close> strictly increasing is \<open>sorted_wrt (<)\<close>.\<close>

definition validate_manifest_hashes :: "string \<Rightarrow> string list \<Rightarrow> manifest_error + unit" where
  "validate_manifest_hashes snapshot_id hashes =
     rbind (ensure (is_valid_hash snapshot_id) InvalidSnapshotId) (\<lambda>_.
     rbind (ensure (hashes \<noteq> []) ManifestEmpty) (\<lambda>_.
     rbind (ensure (length hashes \<le> manifest_max_entries) ManifestTooManyEntries) (\<lambda>_.
     rbind (ensure (list_all is_valid_hash hashes \<and> sorted_wrt (<) hashes)
              ManifestNotCanonical) (\<lambda>_.
     ensure (snapshot_id \<in> set hashes) ManifestRootless))))"

text \<open>The stored form of a canonical manifest: one identifier per line, a final line feed.\<close>

definition encode_manifest :: "string list \<Rightarrow> bytes" where
  "encode_manifest hashes = join_on (CHR 0x0A) hashes @ [CHR 0x0A]"

section \<open>What the contract layer guarantees\<close>

lemma is_hash_char_ascii: "is_hash_char c \<Longrightarrow> is_ascii c"
  by (auto simp: is_hash_char_def is_ascii_def)

lemma valid_hash_ascii: "is_valid_hash h \<Longrightarrow> list_all is_ascii h"
  by (auto simp: is_valid_hash_def list_all_iff is_hash_char_ascii)

lemma valid_hash_utf8: "is_valid_hash h \<Longrightarrow> utf8_ok h"
  by (intro utf8_ok_ascii valid_hash_ascii)

lemma valid_hash_length: "is_valid_hash h \<Longrightarrow> length h = 64"
  by (simp add: is_valid_hash_def)

lemma valid_hash_nonempty: "is_valid_hash h \<Longrightarrow> h \<noteq> []"
  by (auto simp: is_valid_hash_def)

lemma valid_hash_excludes:
  assumes "is_valid_hash h" and "\<not> is_hash_char c"
  shows "c \<notin> set h"
  using assms by (auto simp: is_valid_hash_def list_all_iff)

lemma valid_hash_no_newline: "is_valid_hash h \<Longrightarrow> CHR 0x0A \<notin> set h \<and> CHR 0x0D \<notin> set h"
  by (auto simp: is_valid_hash_def list_all_iff is_hash_char_def dest: bspec)

lemma sorted_distinct_remdups_adj:
  "sorted (xs :: 'a::linorder list) \<Longrightarrow> distinct (remdups_adj xs)"
  by (induction xs rule: remdups_adj.induct) (auto simp: order_antisym)

lemma sort_dedup_strict: "sorted_wrt (<) (sort_dedup xs)"
  by (simp add: sort_dedup_def strict_sorted_iff sorted_distinct_remdups_adj)

lemma set_sort_dedup [simp]: "set (sort_dedup xs) = set xs"
  by (simp add: sort_dedup_def)

lemma length_sort_dedup: "length (sort_dedup xs) \<le> length xs"
  unfolding sort_dedup_def by (metis length_sort remdups_adj_length)

lemma sort_dedup_id: "sorted_wrt (<) xs \<Longrightarrow> sort_dedup xs = xs"
  by (simp add: sort_dedup_def strict_sorted_iff sorted_sort_id remdups_adj_distinct)

lemma sort_dedup_eqI: "set xs = set ys \<Longrightarrow> sort_dedup xs = sort_dedup ys"
  by (metis set_sort_dedup sort_dedup_strict strict_sorted_equal)

text \<open>The loop that collects the lines of a manifest.\<close>

lemma manifest_loop:
  "fold_result
     (\<lambda>hash hashes.
        rbind (ensure (length hashes < manifest_max_entries) ManifestTooManyEntries) (\<lambda>_.
        rbind (ensure (is_valid_hash hash) ManifestInvalidObjectId) (\<lambda>_.
        Inr (hashes @ [hash])))) ls acc = Inr out \<longleftrightarrow>
   out = acc @ ls \<and> list_all is_valid_hash ls
     \<and> (ls \<noteq> [] \<longrightarrow> length (acc @ ls) \<le> manifest_max_entries)"
proof (induction ls arbitrary: acc)
  case (Cons l ls)
  show ?case
  proof (cases "length acc < manifest_max_entries \<and> is_valid_hash l")
    case True
    then show ?thesis
      using Cons.IH [of "acc @ [l]"] by (cases "ls = []") (auto simp del: fold_result.simps(1))
  next
    case False
    then show ?thesis by (auto simp: ensure_def)
  qed
qed auto

lemma canonical_manifest_hashes_iff:
  "canonical_manifest_hashes sid m = Inr hs \<longleftrightarrow>
     is_valid_hash sid \<and> list_all is_valid_hash (str_lines m)
     \<and> length (str_lines m) \<le> manifest_max_entries
     \<and> sid \<in> set (str_lines m) \<and> hs = sort_dedup (str_lines m)"
proof -
  have "canonical_manifest_hashes sid m = Inr hs \<longleftrightarrow>
      is_valid_hash sid
      \<and> (\<exists>out. (out = str_lines m \<and> list_all is_valid_hash (str_lines m)
            \<and> (str_lines m \<noteq> [] \<longrightarrow> length (str_lines m) \<le> manifest_max_entries))
          \<and> sid \<in> set out \<and> sort_dedup out = hs)"
    unfolding canonical_manifest_hashes_def rbind_eq_Inr manifest_loop
    by (simp only: ensure_eq_Inr ex_simps simp_thms append_Nil sum.inject set_sort_dedup)
  then show ?thesis by auto
qed

definition manifest_ok :: "string \<Rightarrow> string list \<Rightarrow> bool" where
  "manifest_ok sid hs \<longleftrightarrow>
     is_valid_hash sid \<and> list_all is_valid_hash hs \<and> sorted_wrt (<) hs
     \<and> length hs \<le> manifest_max_entries \<and> sid \<in> set hs"

lemma canonical_manifest_ok:
  assumes "canonical_manifest_hashes sid m = Inr hs"
  shows "manifest_ok sid hs"
  using assms length_sort_dedup [of "str_lines m"]
  by (auto simp: canonical_manifest_hashes_iff manifest_ok_def sort_dedup_strict list_all_iff)

lemma split_on_append_last:
  "c \<notin> set x \<Longrightarrow> s \<noteq> [] \<Longrightarrow> split_on c (join_on c (x # s)) = x # split_on c (join_on c s)"
  by (cases s) (simp_all add: split_on_append_sep)

lemma str_lines_encode:
  assumes "hs \<noteq> []" and "list_all is_valid_hash hs"
  shows "str_lines (encode_manifest hs) = hs"
proof -
  from assms have nl: "\<forall>h\<in>set (hs @ [[]]). CHR 0x0A \<notin> set h"
    and cr: "\<forall>h\<in>set hs. strip_cr h = h"
    by (auto simp: list_all_iff strip_cr_def dest!: valid_hash_no_newline last_in_set)
  have "encode_manifest hs = join_on (CHR 0x0A) (hs @ [[]])"
    using assms(1) by (simp add: encode_manifest_def join_on_snoc)
  then have "split_on (CHR 0x0A) (encode_manifest hs) = hs @ [[]]"
    using nl by (simp add: split_join)
  then show ?thesis using cr by (simp add: str_lines_def map_idI)
qed

lemma canonical_manifest_encode:
  assumes "manifest_ok sid hs"
  shows "canonical_manifest_hashes sid (encode_manifest hs) = Inr hs"
proof -
  from assms have "hs \<noteq> []" by (auto simp: manifest_ok_def)
  with assms show ?thesis
    by (simp add: canonical_manifest_hashes_iff str_lines_encode manifest_ok_def sort_dedup_id)
qed

lemma validate_manifest_hashes_iff:
  "validate_manifest_hashes sid hs = Inr u \<longleftrightarrow> manifest_ok sid hs"
  by (auto simp: validate_manifest_hashes_def rbind_eq_Inr manifest_ok_def ensure_def
      split: if_splits)

section \<open>A concrete instance of the parameters\<close>

text \<open>
  For worked examples only: the identity as normal form, ASCII lower case, and the hexadecimal
  form of a window of the input in the place of Blake3. No property of the code rests on it.
\<close>

definition hex_digit :: "nat \<Rightarrow> char" where
  "hex_digit k = char_of (if k < 10 then 48 + k else 87 + k)"

definition sample_digest :: "bytes \<Rightarrow> string" where
  "sample_digest bs = take 64 (concat (map (\<lambda>b. [hex_digit (of_char b div 16), hex_digit (of_char b mod 16)])
     (take 32 (drop 12 bs))) @ replicate 64 (CHR ''0''))"

definition sample_prims :: prims where
  "sample_prims = \<lparr>nfc = (\<lambda>s. s), to_lowercase = map ascii_lower, blake3_hex = sample_digest\<rparr>"

end
