(* ===== verification/Tree_Codec.thy ===== *)
theory Tree_Codec
  imports Portable
begin

text \<open>
  Canonical trees and snapshots (\<^verbatim>\<open>common/src/tree.rs\<close>) and their binary format
  (\<^verbatim>\<open>common/src/tree_codec.rs\<close>): encoder, validating decoder, and the invariants the format
  enforces. The interface locale \<open>wire\<close> states what a writer and a reader of one field promise
  each other; every field of the format is an interpretation of it.
\<close>

section \<open>Trees and snapshots\<close>

definition executable_mode :: u32 where "executable_mode = 1"
definition max_canonical_object_bytes :: nat where "max_canonical_object_bytes = 16 * 1024 * 1024"
definition max_tree_entries :: nat where
  "max_tree_entries = (max_canonical_object_bytes - 12) div 94"
definition max_snapshot_parents :: nat where "max_snapshot_parents = 2"
definition max_snapshot_author_bytes :: nat where "max_snapshot_author_bytes = 512"
definition max_snapshot_message_bytes :: nat where "max_snapshot_message_bytes = 64 * 1024"
definition max_tree_depth :: nat where "max_tree_depth = 256"
definition max_tree_objects :: nat where "max_tree_objects = manifest_max_entries"
definition max_tree_output_paths :: nat where "max_tree_output_paths = manifest_max_entries"
definition max_tree_work_items :: nat where "max_tree_work_items = 8 * manifest_max_entries"
definition max_tree_path_bytes_total :: nat where "max_tree_path_bytes_total = 64 * 1024 * 1024"

lemmas limit_defs = max_canonical_object_bytes_def max_tree_entries_def max_snapshot_parents_def
  max_snapshot_author_bytes_def max_snapshot_message_bytes_def max_tree_depth_def
  max_tree_objects_def max_tree_output_paths_def max_tree_work_items_def
  max_tree_path_bytes_total_def manifest_max_entries_def

record conflict_modes =
  cm_base :: u32
  cm_ours :: u32
  cm_theirs :: u32

definition conflict_modes_is_zero :: "conflict_modes \<Rightarrow> bool" where
  "conflict_modes_is_zero m = (cm_base m = 0 \<and> cm_ours m = 0 \<and> cm_theirs m = 0)"

definition conflict_modes_default :: conflict_modes where
  "conflict_modes_default = \<lparr>cm_base = 0, cm_ours = 0, cm_theirs = 0\<rparr>"

datatype tree_entry_kind =
    File
  | Dir
  | Conflict "string option" "string option" "string option" conflict_modes

record tree_entry =
  te_name :: string
  te_kind :: tree_entry_kind
  te_hash :: string
  te_size :: u64
  te_mode :: u32

definition is_dir :: "tree_entry \<Rightarrow> bool" where
  "is_dir e = (te_kind e = Dir)"

record tree =
  entries :: "tree_entry list"

record snapshot =
  sn_root :: string
  sn_parents :: "string list"
  sn_author :: string
  sn_created_at_ms :: i64
  sn_message :: "string option"

datatype codec_error =
    ExceedsObjectByteLimit
  | UnsupportedFormat
  | ImpossibleEntryCount
  | UnknownEntryKind byte
  | NonCanonicalV2
  | TooManyParents
  | TooManyEntries
  | EntriesNotUnique
  | PortableCollision
  | InvalidObjectId
  | AuthorTooLong
  | MessageTooLong
  | DuplicateParents
  | LengthOverflow
  | InvalidMode u32
  | InvalidEntryName string
  | ExecutableDirectory
  | SizedDirectory
  | InvalidLegId
  | AbsentLegMode
  | VisibleLegMismatch
  | NotSorted
  | Truncated
  | NotUtf8
  | InvalidOptionTag byte
  | TrailingBytes

section \<open>Encoding\<close>

definition tree_magic_v1 :: bytes where "tree_magic_v1 = ''FTR1''"
definition tree_magic_v2 :: bytes where "tree_magic_v2 = ''FTR2''"
definition snapshot_magic :: bytes where "snapshot_magic = ''FSN1''"

definition push_u32 :: "u32 \<Rightarrow> bytes" where
  "push_u32 w = le_bytes 4 (unat w)"

definition push_u64 :: "u64 \<Rightarrow> bytes" where
  "push_u64 w = le_bytes 8 (unat w)"

definition push_len :: "nat \<Rightarrow> bytes" where
  "push_len n = le_bytes 8 (if n < 2 ^ 64 then n else 2 ^ 64 - 1)"

definition push_string :: "string \<Rightarrow> bytes" where
  "push_string s = push_len (length s) @ s"

definition push_option_string :: "string option \<Rightarrow> bytes" where
  "push_option_string v =
     (case v of Some s \<Rightarrow> char_of (1::nat) # push_string s | None \<Rightarrow> [char_of (0::nat)])"

definition tree_uses_v2 :: "tree \<Rightarrow> bool" where
  "tree_uses_v2 t =
     list_ex (\<lambda>e. case te_kind e of
                    Conflict _ _ _ modes \<Rightarrow> \<not> conflict_modes_is_zero modes
                  | _ \<Rightarrow> False) (entries t)"

definition push_kind :: "bool \<Rightarrow> tree_entry_kind \<Rightarrow> bytes" where
  "push_kind uses_v2 kind =
     (case kind of
        File \<Rightarrow> [char_of (0::nat)]
      | Dir \<Rightarrow> [char_of (1::nat)]
      | Conflict base ours theirs modes \<Rightarrow>
          char_of (2::nat) # push_option_string base @ push_option_string ours
            @ push_option_string theirs
            @ (if uses_v2
               then push_u32 (cm_base modes) @ push_u32 (cm_ours modes) @ push_u32 (cm_theirs modes)
               else []))"

definition push_entry :: "bool \<Rightarrow> tree_entry \<Rightarrow> bytes" where
  "push_entry uses_v2 e =
     push_string (te_name e) @ push_kind uses_v2 (te_kind e) @ push_string (te_hash e)
     @ push_u64 (te_size e) @ push_u32 (te_mode e)"

definition encode_tree :: "tree \<Rightarrow> bytes" where
  "encode_tree t =
     (let es = sort_key te_name (entries t); uses_v2 = tree_uses_v2 t
      in (if uses_v2 then tree_magic_v2 else tree_magic_v1) @ push_len (length es)
         @ concat (map (push_entry uses_v2) es))"

definition encode_snapshot :: "snapshot \<Rightarrow> bytes" where
  "encode_snapshot s =
     snapshot_magic @ push_string (sn_root s) @ push_len (length (sn_parents s))
     @ concat (map push_string (sn_parents s)) @ push_string (sn_author s)
     @ push_u64 (sn_created_at_ms s) @ push_option_string (sn_message s)"

section \<open>Validation\<close>

definition checked_len :: "nat \<Rightarrow> nat \<Rightarrow> codec_error + nat" where
  "checked_len acc amount = ok_or (checked_add acc amount) LengthOverflow"

definition option_string_len :: "string option \<Rightarrow> codec_error + nat" where
  "option_string_len v =
     (case v of Some s \<Rightarrow> ok_or (Option.bind (checked_add 1 8) (\<lambda>n. checked_add n (length s)))
                            LengthOverflow
              | None \<Rightarrow> Inr 1)"

definition add_entry_len :: "bool \<Rightarrow> tree_entry \<Rightarrow> nat \<Rightarrow> codec_error + nat" where
  "add_entry_len uses_v2 e n =
     rbind (checked_len n (8 + length (te_name e) + 1)) (\<lambda>n.
     rbind (case te_kind e of
              Conflict base ours theirs _ \<Rightarrow>
                rbind (option_string_len base) (\<lambda>a. rbind (checked_len n a) (\<lambda>n.
                rbind (option_string_len ours) (\<lambda>a. rbind (checked_len n a) (\<lambda>n.
                rbind (option_string_len theirs) (\<lambda>a. rbind (checked_len n a) (\<lambda>n.
                if uses_v2 then checked_len n 12 else Inr n))))))
            | _ \<Rightarrow> Inr n) (\<lambda>n.
     checked_len n (8 + length (te_hash e) + 8 + 4)))"

definition canonical_tree_len :: "tree \<Rightarrow> codec_error + nat" where
  "canonical_tree_len t = fold_result (add_entry_len (tree_uses_v2 t)) (entries t) (4 + 8)"

definition canonical_snapshot_len :: "snapshot \<Rightarrow> codec_error + nat" where
  "canonical_snapshot_len s =
     rbind (checked_len 4 (8 + length (sn_root s) + 8)) (\<lambda>n.
     rbind (fold_result (\<lambda>parent n. checked_len n (8 + length parent)) (sn_parents s) n) (\<lambda>n.
     rbind (checked_len n (8 + length (sn_author s) + 8)) (\<lambda>n.
     rbind (option_string_len (sn_message s)) (\<lambda>a. checked_len n a))))"

definition validate_mode :: "u32 \<Rightarrow> codec_error + unit" where
  "validate_mode mode = ensure (mode = 0 \<or> mode = executable_mode) (InvalidMode mode)"

definition or_else :: "'a option \<Rightarrow> 'a option \<Rightarrow> 'a option" where
  "or_else a b = (case a of Some x \<Rightarrow> Some x | None \<Rightarrow> b)"

definition option_list :: "'a option \<Rightarrow> 'a list" where
  "option_list x = (case x of Some v \<Rightarrow> [v] | None \<Rightarrow> [])"

definition validate_entry ::
  "prims \<Rightarrow> string \<Rightarrow> tree_entry_kind \<Rightarrow> string \<Rightarrow> u64 \<Rightarrow> u32 \<Rightarrow> codec_error + unit" where
  "validate_entry P name kind hash sz mode =
     rbind (ensure (is_safe_rel_path P name \<and> CHR ''/'' \<notin> set name) (InvalidEntryName name)) (\<lambda>_.
     rbind (validate_mode mode) (\<lambda>_.
     rbind (ensure (is_valid_hash hash) InvalidObjectId) (\<lambda>_.
     (case kind of
        File \<Rightarrow> Inr ()
      | Dir \<Rightarrow>
          rbind (ensure (mode = 0) ExecutableDirectory) (\<lambda>_. ensure (sz = 0) SizedDirectory)
      | Conflict base ours theirs modes \<Rightarrow>
          rbind (for_each (\<lambda>leg. ensure (is_valid_hash leg) InvalidLegId)
                   (option_list base @ option_list ours @ option_list theirs)) (\<lambda>_.
          rbind (for_each validate_mode [cm_base modes, cm_ours modes, cm_theirs modes]) (\<lambda>_.
          rbind (ensure (\<not> (base = None \<and> cm_base modes \<noteq> 0
                          \<or> ours = None \<and> cm_ours modes \<noteq> 0
                          \<or> theirs = None \<and> cm_theirs modes \<noteq> 0)) AbsentLegMode) (\<lambda>_.
          ensure (or_else (map_option (\<lambda>h. (h, cm_theirs modes)) theirs)
                   (or_else (map_option (\<lambda>h. (h, cm_ours modes)) ours)
                     (map_option (\<lambda>h. (h, cm_base modes)) base)) = Some (hash, mode))
            VisibleLegMismatch)))))))"

definition validate_tree :: "prims \<Rightarrow> tree \<Rightarrow> codec_error + unit" where
  "validate_tree P t =
     rbind (ensure (length (entries t) \<le> max_tree_entries) TooManyEntries) (\<lambda>_.
     rbind (canonical_tree_len t) (\<lambda>n.
     rbind (ensure (n \<le> max_canonical_object_bytes) ExceedsObjectByteLimit) (\<lambda>_.
     rbind (fold_result
              (\<lambda>e (exact, portable).
                 rbind (validate_entry P (te_name e) (te_kind e) (te_hash e) (te_size e) (te_mode e)) (\<lambda>_.
                 rbind (ensure (te_name e \<notin> set exact) EntriesNotUnique) (\<lambda>_.
                 rbind (ensure (to_lowercase P (te_name e) \<notin> set portable) PortableCollision) (\<lambda>_.
                 Inr (te_name e # exact, to_lowercase P (te_name e) # portable)))))
              (entries t) ([], [])) (\<lambda>_.
     Inr ()))))"

definition validate_snapshot :: "snapshot \<Rightarrow> codec_error + unit" where
  "validate_snapshot s =
     rbind (ensure (length (sn_parents s) \<le> max_snapshot_parents) TooManyParents) (\<lambda>_.
     rbind (canonical_snapshot_len s) (\<lambda>n.
     rbind (ensure (n \<le> max_canonical_object_bytes) ExceedsObjectByteLimit) (\<lambda>_.
     rbind (ensure (is_valid_hash (sn_root s) \<and> list_all is_valid_hash (sn_parents s))
              InvalidObjectId) (\<lambda>_.
     rbind (ensure (length (sn_author s) \<le> max_snapshot_author_bytes) AuthorTooLong) (\<lambda>_.
     rbind (ensure (\<not> is_some_and (sn_message s) (\<lambda>m. length m > max_snapshot_message_bytes))
              MessageTooLong) (\<lambda>_.
     ensure (distinct (sn_parents s)) DuplicateParents))))))"

definition ensure_sorted_unique :: "tree_entry list \<Rightarrow> codec_error + unit" where
  "ensure_sorted_unique es = ensure (successively (\<lambda>a b. te_name a < te_name b) es) NotSorted"

section \<open>Decoding\<close>

text \<open>The decoder is the bytes that remain; a read returns the value and the rest.\<close>

type_synonym 'a reader = "bytes \<Rightarrow> codec_error + ('a \<times> bytes)"

definition decoder_take :: "nat \<Rightarrow> bytes reader" where
  "decoder_take n r = (if n > length r then Inl Truncated else Inr (take n r, drop n r))"

definition expect_magic :: "bytes \<Rightarrow> unit reader" where
  "expect_magic expected r =
     rbind (decoder_take (length expected) r) (\<lambda>(b, r).
     if b \<noteq> expected then Inl UnsupportedFormat else Inr ((), r))"

definition read_u8 :: "byte reader" where
  "read_u8 r = rbind (decoder_take 1 r) (\<lambda>(b, r). Inr (b ! 0, r))"

definition read_u32 :: "u32 reader" where
  "read_u32 r = rbind (decoder_take 4 r) (\<lambda>(b, r). Inr (word_of_nat (le_value b), r))"

definition read_u64 :: "u64 reader" where
  "read_u64 r = rbind (decoder_take 8 r) (\<lambda>(b, r). Inr (word_of_nat (le_value b), r))"

definition read_len :: "nat reader" where
  "read_len r = rbind (read_u64 r) (\<lambda>(w, r). Inr (unat w, r))"

definition read_string :: "string reader" where
  "read_string r =
     rbind (read_len r) (\<lambda>(n, r).
     rbind (decoder_take n r) (\<lambda>(b, r).
     if utf8_ok b then Inr (b, r) else Inl NotUtf8))"

definition read_option_string :: "string option reader" where
  "read_option_string r =
     rbind (read_u8 r) (\<lambda>(tag, r).
     if tag = char_of (0::nat) then Inr (None, r)
     else if tag = char_of (1::nat) then rbind (read_string r) (\<lambda>(s, r). Inr (Some s, r))
     else Inl (InvalidOptionTag tag))"

definition finish :: "bytes \<Rightarrow> codec_error + unit" where
  "finish r = ensure (r = []) TrailingBytes"

text \<open>\<^verbatim>\<open>for _ in 0..count { items.push(read()?) }\<close>.\<close>

fun read_list :: "'a reader \<Rightarrow> nat \<Rightarrow> 'a list reader" where
  "read_list rd 0 r = Inr ([], r)"
| "read_list rd (Suc n) r =
     rbind (rd r) (\<lambda>(x, r). rbind (read_list rd n r) (\<lambda>(xs, r). Inr (x # xs, r)))"

definition read_kind :: "bool \<Rightarrow> tree_entry_kind reader" where
  "read_kind uses_v2 r =
     rbind (read_u8 r) (\<lambda>(tag, r).
     if tag = char_of (0::nat) then Inr (File, r)
     else if tag = char_of (1::nat) then Inr (Dir, r)
     else if tag = char_of (2::nat) then
       rbind (read_option_string r) (\<lambda>(base, r).
       rbind (read_option_string r) (\<lambda>(ours, r).
       rbind (read_option_string r) (\<lambda>(theirs, r).
       rbind (if uses_v2
              then rbind (read_u32 r) (\<lambda>(b, r). rbind (read_u32 r) (\<lambda>(o', r).
                   rbind (read_u32 r) (\<lambda>(t, r).
                   Inr (\<lparr>cm_base = b, cm_ours = o', cm_theirs = t\<rparr>, r))))
              else Inr (conflict_modes_default, r)) (\<lambda>(modes, r).
       Inr (Conflict base ours theirs modes, r)))))
     else Inl (UnknownEntryKind tag))"

definition read_entry :: "prims \<Rightarrow> bool \<Rightarrow> tree_entry reader" where
  "read_entry P uses_v2 r =
     rbind (read_string r) (\<lambda>(name, r).
     rbind (read_kind uses_v2 r) (\<lambda>(kind, r).
     rbind (read_string r) (\<lambda>(hash, r).
     rbind (read_u64 r) (\<lambda>(sz, r).
     rbind (read_u32 r) (\<lambda>(mode, r).
     rbind (validate_entry P name kind hash sz mode) (\<lambda>_.
     Inr (\<lparr>te_name = name, te_kind = kind, te_hash = hash, te_size = sz, te_mode = mode\<rparr>, r)))))))"

definition starts_with :: "bytes \<Rightarrow> bytes \<Rightarrow> bool" where
  "starts_with bs p = (take (length p) bs = p)"

definition decode_magic :: "bool reader" where
  "decode_magic bs =
     (if starts_with bs tree_magic_v1
      then rbind (expect_magic tree_magic_v1 bs) (\<lambda>(_, r). Inr (False, r))
      else if starts_with bs tree_magic_v2
      then rbind (expect_magic tree_magic_v2 bs) (\<lambda>(_, r). Inr (True, r))
      else Inl UnsupportedFormat)"

definition decode_tree :: "prims \<Rightarrow> bytes \<Rightarrow> codec_error + tree" where
  "decode_tree P bs =
     (if length bs > max_canonical_object_bytes then Inl ExceedsObjectByteLimit else
     rbind (decode_magic bs) (\<lambda>(uses_v2, r).
     rbind (read_len r) (\<lambda>(count, r).
     if count > max_tree_entries \<or> count > length r div 94 then Inl ImpossibleEntryCount else
     rbind (read_list (read_entry P uses_v2) count r) (\<lambda>(es, r).
     rbind (finish r) (\<lambda>_.
     rbind (ensure_sorted_unique es) (\<lambda>_.
     let t = \<lparr>entries = es\<rparr> in
     rbind (validate_tree P t) (\<lambda>_.
     if uses_v2 \<and> \<not> tree_uses_v2 t then Inl NonCanonicalV2 else Inr t)))))))"

definition decode_snapshot :: "bytes \<Rightarrow> codec_error + snapshot" where
  "decode_snapshot bs =
     (if length bs > max_canonical_object_bytes then Inl ExceedsObjectByteLimit else
     rbind (expect_magic snapshot_magic bs) (\<lambda>(_, r).
     rbind (read_string r) (\<lambda>(root, r).
     rbind (read_len r) (\<lambda>(parent_count, r).
     if parent_count > max_snapshot_parents then Inl TooManyParents else
     rbind (read_list read_string parent_count r) (\<lambda>(parents, r).
     rbind (read_string r) (\<lambda>(author, r).
     rbind (read_u64 r) (\<lambda>(created_at_ms, r).
     rbind (read_option_string r) (\<lambda>(message, r).
     rbind (finish r) (\<lambda>_.
     let s = \<lparr>sn_root = root, sn_parents = parents, sn_author = author,
              sn_created_at_ms = created_at_ms, sn_message = message\<rparr> in
     rbind (validate_snapshot s) (\<lambda>_. Inr s))))))))))"

text \<open>Object identifiers: \<^verbatim>\<open>Tree::id\<close> and \<^verbatim>\<open>Snapshot::id\<close>.\<close>

definition tree_id :: "prims \<Rightarrow> tree \<Rightarrow> string" where
  "tree_id P t = blake3_hex P (encode_tree t)"

definition snapshot_id :: "prims \<Rightarrow> snapshot \<Rightarrow> string" where
  "snapshot_id P s = blake3_hex P (encode_snapshot s)"

section \<open>Fields of the format as writer/reader pairs\<close>

text \<open>
  What the writer and the reader of a field promise each other: reading what was written gives
  the value and the rest back, and whatever the reader accepts is what the writer produces.
\<close>

locale wire =
  fixes put :: "'a \<Rightarrow> bytes" and rd :: "'a reader" and wf :: "'a \<Rightarrow> bool"
  assumes rd_put: "wf x \<Longrightarrow> rd (put x @ r) = Inr (x, r)"
    and rd_sound: "rd s = Inr (x, r) \<Longrightarrow> s = put x @ r \<and> wf x"
begin

lemma put_prefix_inj:
  assumes "wf x" and "wf y" and "put x @ r = put y @ r'"
  shows "x = y \<and> r = r'"
  using rd_put [OF assms(1), of r] rd_put [OF assms(2), of r'] assms(3)
  by (metis Pair_inject sum.inject(2))

lemma read_list_put:
  "list_all wf xs \<Longrightarrow> read_list rd (length xs) (concat (map put xs) @ r) = Inr (xs, r)"
  by (induction xs) (simp_all add: rd_put)

lemma read_list_sound:
  "read_list rd n s = Inr (xs, r) \<Longrightarrow>
     s = concat (map put xs) @ r \<and> length xs = n \<and> list_all wf xs"
proof (induction n arbitrary: s xs)
  case (Suc n)
  from Suc.prems obtain x s' ys where "rd s = Inr (x, s')"
    and "read_list rd n s' = Inr (ys, r)" and "xs = x # ys"
    by (auto simp: rbind_eq_Inr)
  with Suc.IH [of s' ys] rd_sound [of s x s'] show ?case by simp
qed simp

end

lemma decoder_take_append: "decoder_take (length b) (b @ r) = Inr (b, r)"
  by (simp add: decoder_take_def)

lemma decoder_take_eq_Inr:
  "decoder_take n s = Inr (b, r) \<longleftrightarrow> s = b @ r \<and> length b = n"
  by (auto simp: decoder_take_def)

interpretation u8_wire: wire "\<lambda>b. [b]" read_u8 "\<lambda>_. True"
  by unfold_locales
    (auto simp: read_u8_def rbind_eq_Inr decoder_take_def neq_Nil_conv split: if_splits)

lemma word_of_le_value_32: "word_of_nat (le_value (le_bytes 4 (unat w))) = (w :: 32 word)"
  using unat_bound [of w] by (simp add: le_value_le_bytes)

lemma word_of_le_value_64: "word_of_nat (le_value (le_bytes 8 (unat w))) = (w :: 64 word)"
  using unat_bound [of w] by (simp add: le_value_le_bytes)

lemma le_bytes_word:
  assumes "length b = n" and "256 ^ n = (2::nat) ^ LENGTH('a)"
  shows "le_bytes n (unat (word_of_nat (le_value b) :: 'a::len word)) = b"
proof -
  have "le_value b < 2 ^ LENGTH('a)" using le_value_bound [of b] assms by simp
  then have "unat (word_of_nat (le_value b) :: 'a word) = le_value b"
    by (rule unat_word_of_nat)
  then show ?thesis using le_bytes_le_value [of b] assms(1) by simp
qed

interpretation u32_wire: wire push_u32 read_u32 "\<lambda>_. True"
proof
  show "read_u32 (push_u32 x @ r) = Inr (x, r)" for x r
    by (simp add: read_u32_def push_u32_def decoder_take_def word_of_le_value_32)
  show "s = push_u32 x @ r \<and> True" if "read_u32 s = Inr (x, r)" for s x r
    using that le_bytes_word [of _ 4, where 'a = 32]
    by (auto simp: read_u32_def push_u32_def rbind_eq_Inr decoder_take_eq_Inr)
qed

interpretation u64_wire: wire push_u64 read_u64 "\<lambda>_. True"
proof
  show "read_u64 (push_u64 x @ r) = Inr (x, r)" for x r
    by (simp add: read_u64_def push_u64_def decoder_take_def word_of_le_value_64)
  show "s = push_u64 x @ r \<and> True" if "read_u64 s = Inr (x, r)" for s x r
    using that le_bytes_word [of _ 8, where 'a = 64]
    by (auto simp: read_u64_def push_u64_def rbind_eq_Inr decoder_take_eq_Inr)
qed

lemma push_len_u64: "n < 2 ^ 64 \<Longrightarrow> push_len n = push_u64 (word_of_nat n)"
  by (simp add: push_len_def push_u64_def unat_word_of_nat)

interpretation len_wire: wire push_len read_len "\<lambda>n. n < 2 ^ 64"
proof
  show "read_len (push_len x @ r) = Inr (x, r)" if "x < 2 ^ 64" for x r
    using that by (simp add: push_len_u64 read_len_def u64_wire.rd_put unat_word_of_nat)
  show "s = push_len x @ r \<and> x < 2 ^ 64" if "read_len s = Inr (x, r)" for s x r
  proof -
    from that obtain w where w: "read_u64 s = Inr (w, r)" and x: "x = unat w"
      by (auto simp: read_len_def rbind_eq_Inr)
    have "x < 2 ^ 64" using x unat_bound [of w] by simp
    with u64_wire.rd_sound [OF w] x show ?thesis by (simp add: push_len_u64)
  qed
qed

abbreviation str_ok :: "string \<Rightarrow> bool" where
  "str_ok s \<equiv> utf8_ok s \<and> length s < 2 ^ 64"

interpretation str_wire: wire push_string read_string "\<lambda>s. str_ok s"
proof
  show "read_string (push_string x @ r) = Inr (x, r)" if "str_ok x" for x r
    using that
    by (simp add: read_string_def push_string_def len_wire.rd_put decoder_take_append)
  show "s = push_string x @ r \<and> str_ok x" if "read_string s = Inr (x, r)" for s x r
    using that
    by (auto simp: read_string_def push_string_def rbind_eq_Inr decoder_take_eq_Inr
        dest!: len_wire.rd_sound split: if_splits)
qed

abbreviation opt_ok :: "string option \<Rightarrow> bool" where
  "opt_ok v \<equiv> (\<forall>s. v = Some s \<longrightarrow> str_ok s)"

lemma read_u8_Cons [simp]: "read_u8 (b # r) = Inr (b, r)"
  using u8_wire.rd_put [of b r] by simp

lemma read_u8_eq_Inr: "read_u8 s = Inr (b, r) \<longleftrightarrow> s = b # r"
  using u8_wire.rd_sound [of s b r] by auto

lemma tag_distinct [simp]:
  "char_of (0::nat) \<noteq> char_of (1::nat)" "char_of (1::nat) \<noteq> char_of (0::nat)"
  "char_of (2::nat) \<noteq> char_of (0::nat)" "char_of (2::nat) \<noteq> char_of (1::nat)"
  by (simp_all add: char_of_eq_iff)

interpretation opt_wire: wire push_option_string read_option_string "\<lambda>v. opt_ok v"
proof
  show "read_option_string (push_option_string x @ r) = Inr (x, r)" if "opt_ok x" for x r
    using that
    by (cases x) (simp_all add: read_option_string_def push_option_string_def str_wire.rd_put)
  show "s = push_option_string x @ r \<and> opt_ok x" if "read_option_string s = Inr (x, r)" for s x r
    using that
    by (auto simp: read_option_string_def push_option_string_def rbind_eq_Inr read_u8_eq_Inr
        dest!: str_wire.rd_sound split: if_splits)
qed

definition kind_ok :: "bool \<Rightarrow> tree_entry_kind \<Rightarrow> bool" where
  "kind_ok v2 k =
     (case k of
        Conflict base ours theirs modes \<Rightarrow>
          opt_ok base \<and> opt_ok ours \<and> opt_ok theirs \<and> (v2 \<or> modes = conflict_modes_default)
      | _ \<Rightarrow> True)"

interpretation kind_wire: wire "push_kind v2" "read_kind v2" "kind_ok v2" for v2
proof
  show "read_kind v2 (push_kind v2 x @ r) = Inr (x, r)" if "kind_ok v2 x" for x r
    using that
    by (cases x)
      (auto simp: kind_ok_def push_kind_def read_kind_def opt_wire.rd_put u32_wire.rd_put)
  show "s = push_kind v2 x @ r \<and> kind_ok v2 x" if "read_kind v2 s = Inr (x, r)" for s x r
    using that
    by (cases v2)
      (auto simp: kind_ok_def push_kind_def read_kind_def rbind_eq_Inr read_u8_eq_Inr
        dest!: opt_wire.rd_sound u32_wire.rd_sound split: if_splits)
qed

abbreviation entry_valid :: "prims \<Rightarrow> tree_entry \<Rightarrow> bool" where
  "entry_valid P e \<equiv>
     validate_entry P (te_name e) (te_kind e) (te_hash e) (te_size e) (te_mode e) = Inr ()"

definition entry_ok :: "prims \<Rightarrow> bool \<Rightarrow> tree_entry \<Rightarrow> bool" where
  "entry_ok P v2 e =
     (str_ok (te_name e) \<and> kind_ok v2 (te_kind e) \<and> str_ok (te_hash e) \<and> entry_valid P e)"

interpretation entry_wire: wire "push_entry v2" "read_entry P v2" "entry_ok P v2" for P v2
proof
  show "read_entry P v2 (push_entry v2 x @ r) = Inr (x, r)" if "entry_ok P v2 x" for x r
    using that
    by (simp add: entry_ok_def push_entry_def read_entry_def str_wire.rd_put kind_wire.rd_put
        u64_wire.rd_put u32_wire.rd_put)
  show "s = push_entry v2 x @ r \<and> entry_ok P v2 x" if "read_entry P v2 s = Inr (x, r)" for s x r
    using that
    by (auto simp: entry_ok_def push_entry_def read_entry_def rbind_eq_Inr
        dest!: str_wire.rd_sound kind_wire.rd_sound u64_wire.rd_sound u32_wire.rd_sound)
qed

section \<open>Characterisation of validation\<close>

lemma entry_validD:
  assumes "entry_valid P e"
  shows "is_safe_rel_path P (te_name e)" "CHR ''/'' \<notin> set (te_name e)"
    "is_valid_hash (te_hash e)" "te_mode e = 0 \<or> te_mode e = executable_mode"
  using assms by (auto simp: validate_entry_def validate_mode_def rbind_eq_Inr)

lemma entry_valid_name_length:
  assumes "entry_valid P e"
  shows "0 < length (te_name e) \<and> length (te_name e) \<le> 4096"
  using entry_validD(1) [OF assms] by (simp add: is_safe_rel_path_def max_portable_path_bytes_def)

lemma valid_leg_ok: "is_valid_hash h \<Longrightarrow> str_ok h"
  by (simp add: valid_hash_utf8 valid_hash_length)

lemma entry_valid_ok:
  assumes "entry_valid P e" and "utf8_ok (te_name e)"
    and "\<And>b o' t m. te_kind e = Conflict b o' t m \<Longrightarrow> v2 \<or> conflict_modes_is_zero m"
  shows "entry_ok P v2 e"
proof -
  have "kind_ok v2 (te_kind e)"
  proof (cases "te_kind e")
    case (Conflict b o' t m)
    with assms(1) have "for_each (\<lambda>leg. ensure (is_valid_hash leg) InvalidLegId)
        (option_list b @ option_list o' @ option_list t) = Inr ()"
      by (simp add: validate_entry_def rbind_eq_Inr)
    then have "\<forall>leg\<in>set (option_list b @ option_list o' @ option_list t). is_valid_hash leg"
      by (simp add: for_each_eq_Inr)
    then have "opt_ok b" "opt_ok o'" "opt_ok t"
      using valid_leg_ok by (simp_all add: option_list_def split: option.splits)
    moreover have "v2 \<or> m = conflict_modes_default"
      using assms(3) [OF Conflict]
      by (cases m) (simp add: conflict_modes_is_zero_def conflict_modes_default_def)
    ultimately show ?thesis by (simp add: kind_ok_def Conflict)
  qed (simp_all add: kind_ok_def)
  moreover have "str_ok (te_hash e)" using entry_validD(3) [OF assms(1)] by (rule valid_leg_ok)
  moreover have "str_ok (te_name e)"
    using entry_valid_name_length [OF assms(1)] assms(2) by simp
  ultimately show ?thesis using assms(1) by (simp add: entry_ok_def)
qed

lemma length_push_simps [simp]:
  "length (push_u32 w) = 4" "length (push_u64 v) = 8" "length (push_len n) = 8"
  "length (push_string s) = 8 + length s"
  by (simp_all add: push_u32_def push_u64_def push_len_def push_string_def)

lemma checked_len_iff [simp]: "checked_len a b = Inr c \<longleftrightarrow> c = a + b \<and> c < usize_bound"
  by (auto simp: checked_len_def)

lemma option_string_len_iff:
  "option_string_len v = Inr n \<longleftrightarrow>
     n = length (push_option_string v) \<and> length (push_option_string v) < usize_bound"
  by (cases v)
    (auto simp: option_string_len_def push_option_string_def bind_eq_Some_conv usize_bound_def)

lemma add_entry_len_iff:
  assumes "n < usize_bound"
  shows "add_entry_len v2 e n = Inr m \<longleftrightarrow>
     m = n + length (push_entry v2 e) \<and> m < usize_bound"
  using assms
  by (cases "te_kind e")
    (auto simp: add_entry_len_def push_entry_def push_kind_def rbind_eq_Inr
      option_string_len_iff)

lemma fold_entry_len:
  "n < usize_bound \<Longrightarrow> fold_result (add_entry_len v2) es n = Inr m \<longleftrightarrow>
     m = n + length (concat (map (push_entry v2) es)) \<and> m < usize_bound"
proof (induction es arbitrary: n)
  case (Cons e es)
  then show ?case by (auto simp: rbind_eq_Inr add_entry_len_iff)
qed auto

lemma length_concat_sort_key:
  "length (concat (map f (sort_key k xs))) = length (concat (map f xs))"
proof -
  have "mset (map (length \<circ> f) (sort_key k xs)) = mset (map (length \<circ> f) xs)" by simp
  then have "sum_list (map (length \<circ> f) (sort_key k xs)) = sum_list (map (length \<circ> f) xs)"
    by (metis sum_mset_sum_list)
  then show ?thesis by (simp add: length_concat comp_def)
qed

lemma canonical_tree_len_iff:
  "canonical_tree_len t = Inr n \<longleftrightarrow> n = length (encode_tree t) \<and> n < usize_bound"
proof -
  have "length (encode_tree t) = 12 + length (concat (map (push_entry (tree_uses_v2 t)) (entries t)))"
    by (simp add: encode_tree_def Let_def length_concat_sort_key tree_magic_v1_def tree_magic_v2_def)
  moreover have "(12::nat) < usize_bound" by (simp add: usize_bound_def)
  ultimately show ?thesis by (simp add: canonical_tree_len_def fold_entry_len)
qed

lemma validate_entries_fold:
  "is_ok (fold_result
     (\<lambda>e (exact, portable).
        rbind (validate_entry P (te_name e) (te_kind e) (te_hash e) (te_size e) (te_mode e)) (\<lambda>_.
        rbind (ensure (te_name e \<notin> set exact) EntriesNotUnique) (\<lambda>_.
        rbind (ensure (to_lowercase P (te_name e) \<notin> set portable) PortableCollision) (\<lambda>_.
        Inr (te_name e # exact, to_lowercase P (te_name e) # portable)))))
     es (xs, ys)) \<longleftrightarrow>
   (\<forall>e\<in>set es. entry_valid P e) \<and> distinct (map te_name es) \<and> set (map te_name es) \<inter> set xs = {}
   \<and> distinct (map (to_lowercase P \<circ> te_name) es)
   \<and> set (map (to_lowercase P \<circ> te_name) es) \<inter> set ys = {}"
proof (induction es arbitrary: xs ys)
  case (Cons e es)
  show ?case
  proof (cases "entry_valid P e \<and> te_name e \<notin> set xs \<and> to_lowercase P (te_name e) \<notin> set ys")
    case True
    then show ?thesis by (simp add: Cons.IH) blast
  next
    case False
    then show ?thesis
      by (cases "validate_entry P (te_name e) (te_kind e) (te_hash e) (te_size e) (te_mode e)")
        (auto simp: ensure_def)
  qed
qed simp

lemma validate_tree_iff:
  "validate_tree P t = Inr () \<longleftrightarrow>
     length (entries t) \<le> max_tree_entries
     \<and> length (encode_tree t) \<le> max_canonical_object_bytes
     \<and> (\<forall>e\<in>set (entries t). entry_valid P e) \<and> distinct (map te_name (entries t))
     \<and> distinct (map (to_lowercase P \<circ> te_name) (entries t))"
proof -
  have bound: "n \<le> max_canonical_object_bytes \<Longrightarrow> n < usize_bound" for n
    by (simp add: usize_bound_def limit_defs)
  show ?thesis
    using validate_entries_fold [of P "entries t" "[]" "[]"]
    by (auto simp: validate_tree_def rbind_eq_Inr canonical_tree_len_iff is_ok_iff dest: bound)
qed

section \<open>Correctness of the tree format\<close>

lemma entry_min_length:
  assumes "entry_ok P v2 e"
  shows "94 \<le> length (push_entry v2 e)"
proof -
  from assms have v: "entry_valid P e" by (simp add: entry_ok_def)
  have "1 \<le> length (push_kind v2 (te_kind e))"
    by (simp add: push_kind_def split: tree_entry_kind.split)
  moreover have "1 \<le> length (te_name e)" using entry_valid_name_length [OF v] by linarith
  ultimately show ?thesis
    using valid_hash_length [OF entry_validD(3) [OF v]] by (simp add: push_entry_def)
qed

lemma entries_min_length:
  "list_all (entry_ok P v2) es \<Longrightarrow> 94 * length es \<le> length (concat (map (push_entry v2) es))"
proof (induction es)
  case (Cons e es)
  then show ?case using entry_min_length [of P v2 e] by simp
qed simp

abbreviation canonical_order :: "tree \<Rightarrow> tree" where
  "canonical_order t \<equiv> t\<lparr>entries := sort_key te_name (entries t)\<rparr>"

lemma tree_uses_v2_sort [simp]: "tree_uses_v2 (canonical_order t) = tree_uses_v2 t"
  by (simp add: tree_uses_v2_def list_ex_iff)

lemma encode_tree_sort [simp]: "encode_tree (canonical_order t) = encode_tree t"
  by (simp add: encode_tree_def sort_key_id_if_sorted)

lemma distinct_map_sort_key: "distinct (map f (sort_key k xs)) = distinct (map f xs)"
  by (metis mset_map mset_sort mset_eq_imp_distinct_iff)

lemma validate_tree_sort: "validate_tree P t = Inr () \<Longrightarrow> validate_tree P (canonical_order t) = Inr ()"
  unfolding validate_tree_iff by (simp add: distinct_map_sort_key)

lemma strictly_sorted_iff:
  "successively (\<lambda>a b. f a < (f b :: 'b::linorder)) xs \<longleftrightarrow> sorted (map f xs) \<and> distinct (map f xs)"
proof -
  have "successively (\<lambda>a b. f a < f b) xs \<longleftrightarrow> successively (<) (map f xs)"
    by (simp add: successively_map)
  also have "\<dots> \<longleftrightarrow> sorted_wrt (<) (map f xs)"
    by (rule successively_iff_sorted_wrt_strong) auto
  finally show ?thesis by (simp add: strict_sorted_iff)
qed

lemma entries_ok:
  assumes "validate_tree P t = Inr ()" and "\<forall>e\<in>set (entries t). utf8_ok (te_name e)"
  shows "list_all (entry_ok P (tree_uses_v2 t)) (entries t)"
  unfolding list_all_iff
proof
  fix e assume e: "e \<in> set (entries t)"
  with assms(1) have v: "entry_valid P e" by (simp add: validate_tree_iff)
  show "entry_ok P (tree_uses_v2 t) e"
  proof (rule entry_valid_ok [OF v])
    show "utf8_ok (te_name e)" using assms(2) e by simp
    show "tree_uses_v2 t \<or> conflict_modes_is_zero m" if "te_kind e = Conflict b o' th m" for b o' th m
      using that e by (auto simp: tree_uses_v2_def list_ex_iff intro!: bexI [of _ e])
  qed
qed

lemma magic_simps [simp]:
  "starts_with (tree_magic_v1 @ r) tree_magic_v1" "\<not> starts_with (tree_magic_v2 @ r) tree_magic_v1"
  "starts_with (tree_magic_v2 @ r) tree_magic_v2"
  by (simp_all add: starts_with_def tree_magic_v1_def tree_magic_v2_def)

lemma expect_magic_append [simp]: "expect_magic m (m @ r) = Inr ((), r)"
  by (simp add: expect_magic_def decoder_take_append)

lemma expect_magic_eq_Inr: "expect_magic m s = Inr ((), r) \<longleftrightarrow> s = m @ r"
  by (auto simp: expect_magic_def rbind_eq_Inr decoder_take_eq_Inr split: if_splits)

abbreviation tree_magic :: "bool \<Rightarrow> bytes" where
  "tree_magic v2 \<equiv> (if v2 then tree_magic_v2 else tree_magic_v1)"

lemma decode_magic_append: "decode_magic (tree_magic v2 @ r) = Inr (v2, r)"
  by (cases v2) (simp_all add: decode_magic_def)

lemma decode_magic_eq_Inr: "decode_magic bs = Inr (v2, r) \<longleftrightarrow> bs = tree_magic v2 @ r"
  using decode_magic_append [of v2 r]
  by (auto simp: decode_magic_def rbind_eq_Inr expect_magic_eq_Inr split: if_splits)

lemma decode_encode_canonical:
  assumes v: "validate_tree P t = Inr ()" and u: "\<forall>e\<in>set (entries t). utf8_ok (te_name e)"
    and ord: "sort_key te_name (entries t) = entries t"
  shows "decode_tree P (encode_tree t) = Inr t"
proof -
  let ?v2 = "tree_uses_v2 t" and ?es = "entries t"
  let ?body = "concat (map (push_entry ?v2) ?es)"
  have enc: "encode_tree t = tree_magic ?v2 @ push_len (length ?es) @ ?body"
    unfolding encode_tree_def ord Let_def by (rule refl)
  have ok: "list_all (entry_ok P ?v2) ?es" by (rule entries_ok [OF v u])
  have cnt: "length ?es \<le> max_tree_entries" "length ?es \<le> length ?body div 94"
    using v entries_min_length [OF ok] by (auto simp: validate_tree_iff)
  have len: "length ?es < 2 ^ 64" using cnt(1) by (simp add: limit_defs)
  have rd: "read_list (read_entry P ?v2) (length ?es) ?body = Inr (?es, [])"
    using entry_wire.read_list_put [OF ok, of "[]"] by simp
  have srt: "ensure_sorted_unique ?es = Inr ()"
    using v sorted_sort_key [of te_name ?es] ord
    by (simp add: ensure_sorted_unique_def strictly_sorted_iff validate_tree_iff)
  have sz: "\<not> length (encode_tree t) > max_canonical_object_bytes"
    using v by (simp add: validate_tree_iff)
  have t: "\<lparr>entries = ?es\<rparr> = t" by simp
  show ?thesis
    using sz rd cnt unfolding decode_tree_def enc decode_magic_append
    by (simp add: len_wire.rd_put [OF len] srt finish_def v t Let_def)
qed

text \<open>
  C1: Encoding a valid tree and decoding the bytes gives the tree back, with its entries in
  canonical order, whichever order they had in memory.
\<close>

theorem decode_encode_tree:
  assumes "validate_tree P t = Inr ()" and "\<forall>e\<in>set (entries t). utf8_ok (te_name e)"
  shows "decode_tree P (encode_tree t) = Inr (t\<lparr>entries := sort_key te_name (entries t)\<rparr>)"
proof -
  have "decode_tree P (encode_tree (canonical_order t)) = Inr (canonical_order t)"
    by (rule decode_encode_canonical [OF validate_tree_sort [OF assms(1)]])
      (use assms(2) in \<open>simp_all add: sort_key_id_if_sorted\<close>)
  then show ?thesis by simp
qed

lemma read_entries_v1:
  assumes "list_all (entry_ok P False) es"
  shows "\<not> tree_uses_v2 \<lparr>entries = es\<rparr>"
  using assms
  by (auto simp: tree_uses_v2_def list_ex_iff list_all_iff entry_ok_def kind_ok_def
      conflict_modes_is_zero_def conflict_modes_default_def split: tree_entry_kind.splits)

lemma decode_tree_cases:
  assumes "decode_tree P bs = Inr t"
  obtains v2 where
    "bs = tree_magic v2 @ push_len (length (entries t)) @ concat (map (push_entry v2) (entries t))"
    "list_all (entry_ok P v2) (entries t)" "ensure_sorted_unique (entries t) = Inr ()"
    "validate_tree P t = Inr ()" "v2 \<longrightarrow> tree_uses_v2 t"
proof -
  from assms obtain v2 r count r1 where
      m: "decode_magic bs = Inr (v2, r)"
    and cnt: "read_len r = Inr (count, r1)"
    and es: "read_list (read_entry P v2) count r1 = Inr (entries t, [])"
    and rest: "ensure_sorted_unique (entries t) = Inr ()" "validate_tree P t = Inr ()"
      "v2 \<longrightarrow> tree_uses_v2 t"
    by (auto simp: decode_tree_def rbind_eq_Inr finish_def Let_def split: if_splits)
  from m have magic: "bs = tree_magic v2 @ r" by (simp only: decode_magic_eq_Inr)
  from len_wire.rd_sound [OF cnt] entry_wire.read_list_sound [OF es] magic
  have "bs = tree_magic v2 @ push_len (length (entries t)) @ concat (map (push_entry v2) (entries t))"
    and "list_all (entry_ok P v2) (entries t)" by auto
  with rest show thesis using that by blast
qed

text \<open>
  C2: The format is canonical: the decoder accepts a byte string only if it is exactly the
  encoding of the tree it returns, and that tree is valid. Two different byte strings never
  decode to the same tree, so a tree has one object identifier.
\<close>

theorem encode_decode_tree:
  assumes "decode_tree P bs = Inr t"
  shows "encode_tree t = bs \<and> validate_tree P t = Inr ()"
  using assms
proof (rule decode_tree_cases)
  fix v2
  assume bs: "bs = tree_magic v2 @ push_len (length (entries t))
      @ concat (map (push_entry v2) (entries t))"
    and ok: "list_all (entry_ok P v2) (entries t)"
    and srt: "ensure_sorted_unique (entries t) = Inr ()"
    and v: "validate_tree P t = Inr ()" and use: "v2 \<longrightarrow> tree_uses_v2 t"
  have "tree_uses_v2 t = v2"
    using use read_entries_v1 [of P "entries t"] ok by (cases v2) (simp_all add: tree_uses_v2_def)
  moreover have "sort_key te_name (entries t) = entries t"
    using srt by (simp add: ensure_sorted_unique_def strictly_sorted_iff sort_key_id_if_sorted)
  ultimately show "encode_tree t = bs \<and> validate_tree P t = Inr ()"
    using v unfolding encode_tree_def bs Let_def by simp
qed

section \<open>Correctness of the snapshot format\<close>

lemma fold_parent_len:
  "n < usize_bound \<Longrightarrow>
   fold_result (\<lambda>parent n. checked_len n (8 + length parent)) ps n = Inr m \<longleftrightarrow>
     m = n + length (concat (map push_string ps)) \<and> m < usize_bound"
proof (induction ps arbitrary: n)
  case (Cons p ps)
  then show ?case by (auto simp: rbind_eq_Inr)
qed auto

lemma canonical_snapshot_len_iff:
  "canonical_snapshot_len s = Inr n \<longleftrightarrow> n = length (encode_snapshot s) \<and> n < usize_bound"
  by (auto simp: canonical_snapshot_len_def encode_snapshot_def snapshot_magic_def rbind_eq_Inr
      fold_parent_len option_string_len_iff)

definition snapshot_strings_ok :: "snapshot \<Rightarrow> bool" where
  "snapshot_strings_ok s =
     (utf8_ok (sn_author s) \<and> (\<forall>m. sn_message s = Some m \<longrightarrow> utf8_ok m))"

lemma decode_encode_snapshot_ok:
  assumes v: "validate_snapshot s = Inr ()" and u: "snapshot_strings_ok s"
  shows "decode_snapshot (encode_snapshot s) = Inr s"
proof -
  from v have sz: "length (encode_snapshot s) \<le> max_canonical_object_bytes"
    and np: "length (sn_parents s) \<le> max_snapshot_parents"
    and root: "str_ok (sn_root s)" and par: "list_all (\<lambda>p. str_ok p) (sn_parents s)"
    and auth: "length (sn_author s) \<le> 512"
    and msg: "\<forall>m. sn_message s = Some m \<longrightarrow> length m \<le> 65536"
    by (auto simp: validate_snapshot_def rbind_eq_Inr canonical_snapshot_len_iff list_all_iff
        valid_hash_utf8 valid_hash_length max_snapshot_author_bytes_def max_snapshot_message_bytes_def)
  have len: "length (sn_parents s) < 2 ^ 64" using np by (simp add: max_snapshot_parents_def)
  have a: "str_ok (sn_author s)" and m: "opt_ok (sn_message s)"
    using u auth msg by (auto simp: snapshot_strings_ok_def)
  have pr: "read_list read_string (length (sn_parents s))
      (concat (map push_string (sn_parents s)) @ r) = Inr (sn_parents s, r)" for r
    by (rule str_wire.read_list_put [OF par])
  have mr: "read_option_string (push_option_string (sn_message s)) = Inr (sn_message s, [])"
    using opt_wire.rd_put [OF m, of "[]"] by simp
  have s: "\<lparr>sn_root = sn_root s, sn_parents = sn_parents s, sn_author = sn_author s,
      sn_created_at_ms = sn_created_at_ms s, sn_message = sn_message s\<rparr> = s" by (cases s) simp
  show ?thesis
    using sz np unfolding decode_snapshot_def encode_snapshot_def expect_magic_append
    by (simp add: str_wire.rd_put [OF root] len_wire.rd_put [OF len] pr str_wire.rd_put [OF a]
        u64_wire.rd_put mr finish_def s v Let_def)
qed

text \<open>
  A snapshot that validates survives encoding and decoding unchanged, and conversely the
  snapshot decoder accepts only the exact encoding of the snapshot it returns.
\<close>

theorem snapshot_codec:
  "(validate_snapshot s = Inr () \<and> snapshot_strings_ok s
      \<longrightarrow> decode_snapshot (encode_snapshot s) = Inr s)
   \<and> (decode_snapshot bs = Inr s \<longrightarrow> encode_snapshot s = bs \<and> validate_snapshot s = Inr ())"
proof (intro conjI impI)
  show "decode_snapshot (encode_snapshot s) = Inr s"
    if "validate_snapshot s = Inr () \<and> snapshot_strings_ok s"
    using that by (simp add: decode_encode_snapshot_ok)
  assume "decode_snapshot bs = Inr s"
  then show "encode_snapshot s = bs" "validate_snapshot s = Inr ()"
    by (auto simp: decode_snapshot_def encode_snapshot_def rbind_eq_Inr expect_magic_eq_Inr
        finish_def Let_def dest!: str_wire.rd_sound len_wire.rd_sound str_wire.read_list_sound
        u64_wire.rd_sound opt_wire.rd_sound split: if_splits)
qed

section \<open>Worked examples\<close>

definition sample_hash :: "char \<Rightarrow> string" where
  "sample_hash c = replicate 64 c"

text \<open>An executable file, a directory and a conflict that carries executable intent.\<close>

definition sample_tree :: tree where
  "sample_tree = \<lparr>entries =
     [\<lparr>te_name = ''run.sh'', te_kind = File, te_hash = sample_hash (CHR ''a''),
       te_size = 7, te_mode = 1\<rparr>,
      \<lparr>te_name = ''docs'', te_kind = Dir, te_hash = sample_hash (CHR ''b''),
       te_size = 0, te_mode = 0\<rparr>,
      \<lparr>te_name = ''main.rs'', te_kind = Conflict (Some (sample_hash (CHR ''c''))) None
         (Some (sample_hash (CHR ''d''))) \<lparr>cm_base = 0, cm_ours = 0, cm_theirs = 1\<rparr>,
       te_hash = sample_hash (CHR ''d''), te_size = 9, te_mode = 1\<rparr>]\<rparr>"

definition sample_snapshot :: snapshot where
  "sample_snapshot = \<lparr>sn_root = sample_hash (CHR ''a''), sn_parents = [sample_hash (CHR ''b'')],
     sn_author = ''laptop'', sn_created_at_ms = 1700000000000, sn_message = Some ''wip''\<rparr>"

theorem decode_encode_tree_witness:
  "decode_tree sample_prims (encode_tree sample_tree)
     = Inr (sample_tree\<lparr>entries := sort_key te_name (entries sample_tree)\<rparr>)
   \<and> map te_name (sort_key te_name (entries sample_tree)) = [''docs'', ''main.rs'', ''run.sh'']"
proof
  show "decode_tree sample_prims (encode_tree sample_tree)
      = Inr (sample_tree\<lparr>entries := sort_key te_name (entries sample_tree)\<rparr>)"
  proof (rule decode_encode_tree)
    show "validate_tree sample_prims sample_tree = Inr ()" by code_simp
    show "\<forall>e\<in>set (entries sample_tree). utf8_ok (te_name e)" by code_simp
  qed
  show "map te_name (sort_key te_name (entries sample_tree)) = [''docs'', ''main.rs'', ''run.sh'']"
    by code_simp
qed

theorem encode_decode_tree_witness:
  "encode_tree \<lparr>entries = []\<rparr> = ''FTR1'' @ replicate 8 (char_of (0::nat))
   \<and> validate_tree sample_prims \<lparr>entries = []\<rparr> = Inr ()"
proof (rule encode_decode_tree)
  show "decode_tree sample_prims (''FTR1'' @ replicate 8 (char_of (0::nat)))
      = Inr \<lparr>entries = []\<rparr>" by code_simp
qed

theorem snapshot_codec_witness:
  "validate_snapshot sample_snapshot = Inr () \<and> snapshot_strings_ok sample_snapshot
   \<and> decode_snapshot (encode_snapshot sample_snapshot) = Inr sample_snapshot"
proof -
  have v: "validate_snapshot sample_snapshot = Inr ()" by code_simp
  have u: "snapshot_strings_ok sample_snapshot"
    unfolding snapshot_strings_ok_def sample_snapshot_def by simp code_simp
  show ?thesis using v u snapshot_codec [of sample_snapshot "[]"] by simp
qed

end
