(* ===== verification/Traversal.thy ===== *)
theory Traversal
  imports Tree_Codec
begin

text \<open>
  What the two traversals of canonical trees share: the bounded counters, path construction,
  fetching a validated tree object, the meaning of a tree as the set of its leaves, and the
  interface locale \<open>worklist\<close> of an explicit-stack loop, whose induction and invariant rules
  are proved once for \<^verbatim>\<open>tree_to_flat\<close> and \<^verbatim>\<open>diff_trees\<close>.

  A \<^verbatim>\<open>FnMut(&str) -> Result<Tree>\<close> argument is a function \<open>string \<Rightarrow> tree option\<close>: the objects of a
  content-addressed store do not change while a traversal runs.
\<close>

section \<open>Errors and bounded counters\<close>

datatype tree_error =
    CounterOverflow
  | TooManyWorkItems
  | TooManyObjects
  | TooManyOutputPaths
  | PathBytesExceeded
  | PendingBytesExceeded
  | PendingUnderflow
  | KeyMismatch string string
  | PathTooDeep
  | InvalidPath string
  | InvalidTree codec_error
  | FetchFailed string
  | CycleAt string
  | LostActive string
  | EmptyDirectory
  | InvalidPortableMode u32 string
  | PathCollision string
  | TraversesFile string
  | LegPathMismatch string string
  | NoContentLeg
  | NodeDisappeared
  | ChildNotBuilt
  | RootNotBuilt

text \<open>\<^verbatim>\<open>counter.checked_add(amount)\<close> followed by the test against the limit.\<close>

definition charge :: "nat \<Rightarrow> tree_error \<Rightarrow> nat \<Rightarrow> nat \<Rightarrow> tree_error + nat" where
  "charge limit e amount counter =
     rbind (ok_or (checked_add counter amount) CounterOverflow) (\<lambda>n.
     if n > limit then Inl e else Inr n)"

lemma charge_eq_Inr:
  "charge limit e amount counter = Inr n \<longleftrightarrow>
     n = counter + amount \<and> n \<le> limit \<and> n < usize_bound"
  by (auto simp: charge_def rbind_eq_Inr not_less)

lemma limits_small [simp]:
  "max_tree_work_items < usize_bound" "max_tree_path_bytes_total < usize_bound"
  "max_tree_objects < usize_bound" "max_tree_output_paths < usize_bound"
  by (simp_all add: limit_defs usize_bound_def)

lemma charge_ok:
  assumes "limit < usize_bound"
  shows "charge limit e amount counter = Inr n \<longleftrightarrow> n = counter + amount \<and> counter + amount \<le> limit"
  using assms by (auto simp: charge_eq_Inr)

lemma charge_eq_Inl:
  "charge limit e amount counter = Inl e' \<Longrightarrow> e' = CounterOverflow \<or> e' = e"
  by (auto simp: charge_def rbind_eq_Inl ok_or_def split: option.splits if_splits)

lemma saturating_add_pos: "0 < b \<Longrightarrow> 0 < saturating_add a b"
  by (simp add: saturating_add_def usize_bound_def)

section \<open>Paths\<close>

definition join_path :: "string \<Rightarrow> string \<Rightarrow> string" where
  "join_path prefix name = (if prefix = [] then name else prefix @ CHR ''/'' # name)"

definition validate_path :: "prims \<Rightarrow> string \<Rightarrow> tree_error + unit" where
  "validate_path P path =
     rbind (ensure (length (split_on (CHR ''/'') path) \<le> max_tree_depth) PathTooDeep) (\<lambda>_.
     ensure (\<not> (\<not> is_safe_rel_path P path \<or> CHR 0x5C \<in> set path
               \<or> list_ex (\<lambda>part. part = [] \<or> part = ''.'') (split_on (CHR ''/'') path)))
       (InvalidPath path))"

abbreviation join_all :: "string list \<Rightarrow> string" where
  "join_all cs \<equiv> join_on (CHR ''/'') cs"

lemma validate_path_iff:
  "validate_path P path = Inr u \<longleftrightarrow>
     length (split_on (CHR ''/'') path) \<le> max_tree_depth \<and> is_safe_rel_path P path"
  by (auto simp: validate_path_def rbind_eq_Inr list_ex_iff is_safe_rel_path_def list_all_iff
      is_safe_component_def)

lemma join_on_nonempty: "x \<noteq> [] \<Longrightarrow> join_on c (x # xs) \<noteq> []"
  by (cases xs) auto

lemma join_path_join:
  assumes "list_all (\<lambda>c. c \<noteq> []) pre"
  shows "join_path (join_all pre) name = join_all (pre @ [name])"
proof (cases "pre = []")
  case False
  with assms have "join_all pre \<noteq> []" by (cases pre) (simp_all add: join_on_nonempty)
  with False show ?thesis by (simp add: join_path_def join_on_snoc)
qed (simp add: join_path_def)

section \<open>Tree objects\<close>

definition record_object :: "string \<Rightarrow> string set \<Rightarrow> tree_error + string set" where
  "record_object hash objects =
     (if hash \<notin> objects \<and> card (insert hash objects) > max_tree_objects
      then Inl TooManyObjects else Inr (insert hash objects))"

definition fetch_valid :: "prims \<Rightarrow> (string \<Rightarrow> tree option) \<Rightarrow> string \<Rightarrow> nat \<Rightarrow> tree_error + tree" where
  "fetch_valid P fetch hash depth =
     rbind (ok_or (fetch hash) (FetchFailed hash)) (\<lambda>t.
     rbind (map_err InvalidTree (validate_tree P t)) (\<lambda>_.
     if depth > 0 \<and> entries t = [] then Inl EmptyDirectory else Inr t))"

lemma fetch_valid_eq_Inr:
  "fetch_valid P fetch h d = Inr t \<longleftrightarrow>
     fetch h = Some t \<and> validate_tree P t = Inr () \<and> (d > 0 \<longrightarrow> entries t \<noteq> [])"
  by (auto simp: fetch_valid_def rbind_eq_Inr)

lemma record_object_eq_Inr:
  "record_object h objs = Inr objs' \<longleftrightarrow>
     objs' = insert h objs \<and> (h \<in> objs \<or> card (insert h objs) \<le> max_tree_objects)"
  by (auto simp: record_object_def)

section \<open>The meaning of a tree\<close>

text \<open>
  \<open>tree_leaf fetch h cs e\<close>: following the components \<open>cs\<close> from the tree object \<open>h\<close> through directory
  entries ends in the entry \<open>e\<close>, which is a file or a conflict. \<open>reach fetch n h h'\<close>: \<open>h'\<close> is a
  directory \<open>n\<close> levels below \<open>h\<close>.
\<close>

inductive tree_leaf :: "(string \<Rightarrow> tree option) \<Rightarrow> string \<Rightarrow> string list \<Rightarrow> tree_entry \<Rightarrow> bool"
  for fetch where
  here: "fetch h = Some t \<Longrightarrow> e \<in> set (entries t) \<Longrightarrow> \<not> is_dir e \<Longrightarrow> tree_leaf fetch h [te_name e] e"
| below: "fetch h = Some t \<Longrightarrow> d \<in> set (entries t) \<Longrightarrow> is_dir d \<Longrightarrow> tree_leaf fetch (te_hash d) cs e
    \<Longrightarrow> tree_leaf fetch h (te_name d # cs) e"

inductive reach :: "(string \<Rightarrow> tree option) \<Rightarrow> nat \<Rightarrow> string \<Rightarrow> string \<Rightarrow> bool" for fetch where
  self: "reach fetch 0 h h"
| down: "fetch h = Some t \<Longrightarrow> d \<in> set (entries t) \<Longrightarrow> is_dir d \<Longrightarrow> reach fetch n (te_hash d) h'
    \<Longrightarrow> reach fetch (Suc n) h h'"

inductive_cases tree_leaf_cases: "tree_leaf fetch h cs e"
inductive_simps tree_leaf_Nil [simp]: "tree_leaf fetch h [] e"
inductive_simps tree_leaf_Cons: "tree_leaf fetch h (c # cs) e"
inductive_simps reach_0 [simp]: "reach fetch 0 h h'"
inductive_simps reach_Suc: "reach fetch (Suc n) h h'"

lemma tree_leaf_nonempty: "tree_leaf fetch h cs e \<Longrightarrow> cs \<noteq> []"
  by (auto elim: tree_leaf.cases)

lemma tree_leaf_not_dir: "tree_leaf fetch h cs e \<Longrightarrow> \<not> is_dir e"
  by (induction rule: tree_leaf.induct)

lemma reach_trans: "reach fetch m a b \<Longrightarrow> reach fetch n b c \<Longrightarrow> reach fetch (m + n) a c"
  by (induction rule: reach.induct) (auto intro: reach.down)

text \<open>All the trees below a root are present, valid and, below the root, not empty.\<close>

definition sound_below :: "prims \<Rightarrow> (string \<Rightarrow> tree option) \<Rightarrow> string \<Rightarrow> bool" where
  "sound_below P fetch root \<longleftrightarrow>
     (\<forall>n h. reach fetch n root h \<longrightarrow>
        (\<exists>t. fetch h = Some t \<and> validate_tree P t = Inr () \<and> (n > 0 \<longrightarrow> entries t \<noteq> [])))"

lemma sound_below_here:
  "sound_below P fetch h \<Longrightarrow> \<exists>t. fetch h = Some t \<and> validate_tree P t = Inr ()"
  unfolding sound_below_def using reach.self by blast

lemma sound_below_child:
  assumes "sound_below P fetch h" "fetch h = Some t" "d \<in> set (entries t)" "is_dir d"
  shows "sound_below P fetch (te_hash d)"
  unfolding sound_below_def
proof (intro allI impI)
  fix n h' assume "reach fetch n (te_hash d) h'"
  then have "reach fetch (Suc n) h h'" using assms(2-) by (auto intro: reach.down)
  then show "\<exists>t. fetch h' = Some t \<and> validate_tree P t = Inr () \<and> (n > 0 \<longrightarrow> entries t \<noteq> [])"
    using assms(1) by (auto simp: sound_below_def)
qed

definition name_ok :: "prims \<Rightarrow> string \<Rightarrow> bool" where
  "name_ok P c = (is_safe_rel_path P c \<and> CHR ''/'' \<notin> set c)"

lemma name_ok_nonempty: "name_ok P c \<Longrightarrow> c \<noteq> []"
  by (auto simp: name_ok_def is_safe_rel_path_def)

lemma valid_tree_name:
  "validate_tree P t = Inr () \<Longrightarrow> e \<in> set (entries t) \<Longrightarrow> name_ok P (te_name e)"
  by (auto simp: validate_tree_iff name_ok_def dest: bspec entry_validD)

lemma valid_tree_inj:
  "validate_tree P t = Inr () \<Longrightarrow> e \<in> set (entries t) \<Longrightarrow> e' \<in> set (entries t)
     \<Longrightarrow> te_name e = te_name e' \<Longrightarrow> e = e'"
  by (auto simp: validate_tree_iff distinct_map dest: inj_onD)

lemma leaf_names_ok:
  "tree_leaf fetch h cs e \<Longrightarrow> sound_below P fetch h \<Longrightarrow> list_all (name_ok P) cs"
proof (induction rule: tree_leaf.induct)
  case (here h t e)
  then show ?case by (auto dest!: sound_below_here intro: valid_tree_name)
next
  case (below h t d cs e)
  have "validate_tree P t = Inr ()"
    using sound_below_here [OF below.prems] below.hyps by simp
  then show ?case
    using below sound_below_child [OF below.prems] by (auto intro: valid_tree_name)
qed

text \<open>A path names at most one leaf.\<close>

lemma leaf_unique:
  assumes "tree_leaf fetch h cs e" "tree_leaf fetch h cs e'" "sound_below P fetch h"
  shows "e = e'"
  using assms
proof (induction arbitrary: e' rule: tree_leaf.induct)
  case (here h t e)
  have v: "validate_tree P t = Inr ()" using sound_below_here [OF here.prems(2)] here.hyps by simp
  from here.prems(1) here.hyps(1) obtain x where "x \<in> set (entries t)" "te_name x = te_name e" "x = e'"
    by (auto simp: tree_leaf_Cons)
  then show ?case using valid_tree_inj [OF v] here.hyps by blast
next
  case (below h t d cs e)
  have v: "validate_tree P t = Inr ()" using sound_below_here [OF below.prems(2)] below.hyps by simp
  from below.prems(1) below.hyps(1) tree_leaf_nonempty [OF below.hyps(4)] obtain d' where
    d': "d' \<in> set (entries t)" "te_name d' = te_name d" "tree_leaf fetch (te_hash d') cs e'"
    by (auto simp: tree_leaf_Cons)
  then have "d' = d" using valid_tree_inj [OF v] below.hyps by blast
  with d' below.IH sound_below_child [OF below.prems(2)] below.hyps show ?case by blast
qed

lemma join_names_inj:
  assumes "join_all cs = join_all ds" "cs \<noteq> []" "ds \<noteq> []"
    "list_all (name_ok P) cs" "list_all (name_ok P) ds"
  shows "cs = ds"
  using assms by (intro join_on_inj [of "CHR ''/''"]) (auto simp: list_all_iff name_ok_def)

section \<open>Explicit-stack loops\<close>

locale worklist =
  fixes step :: "'w \<Rightarrow> 's \<Rightarrow> 'e + ('s \<times> 'w list)"
    and run :: "'w list \<Rightarrow> 's \<Rightarrow> 'e + 's"
    and work :: "'s \<Rightarrow> nat"
    and limit :: nat
  assumes run_Nil: "run [] s = Inr s"
    and run_Cons: "run (w # ws) s = rbind (step w s) (\<lambda>(s', new). run (new @ ws) s')"
    and progress: "step w s = Inr (s', new) \<Longrightarrow>
      new = [] \<and> work s' = work s \<or> work s < work s' \<and> work s' \<le> limit"
begin

text \<open>Induction along the loop: it ends because only a bounded amount of work can be pushed.\<close>

lemma run_induct [case_names Nil Cons]:
  assumes "\<And>s. Q [] s"
    and "\<And>w ws s. (\<And>s' new. step w s = Inr (s', new) \<Longrightarrow> Q (new @ ws) s') \<Longrightarrow> Q (w # ws) s"
  shows "Q ws s"
proof (induction "(ws, s)" arbitrary: ws s
    rule: wf_induct_rule [OF wf_measures [of "[\<lambda>(ws, s). Suc limit - work s, \<lambda>(ws, s). length ws]"]])
  case (1 ws s)
  show ?case
  proof (cases ws)
    case (Cons w rest)
    have "Q (new @ rest) s'" if "step w s = Inr (s', new)" for s' new
      using progress [OF that] by (intro 1) (auto simp: Cons)
    then show ?thesis unfolding Cons by (rule assms(2))
  qed (simp add: assms(1))
qed

lemma run_invariant:
  assumes "run ws s = Inr s'" and "I ws s"
    and "\<And>w ws s s' new. I (w # ws) s \<Longrightarrow> step w s = Inr (s', new) \<Longrightarrow> I (new @ ws) s'"
  shows "I [] s'"
  using assms(1,2)
proof (induction ws s rule: run_induct)
  case (Nil s)
  then show ?case by (simp add: run_Nil)
next
  case (Cons w ws s)
  then obtain t new where "step w s = Inr (t, new)" "run (new @ ws) t = Inr s'"
    by (auto simp: run_Cons rbind_eq_Inr)
  with Cons assms(3) show ?case by blast
qed

lemma run_error:
  assumes "run ws s = Inl e" and "I ws s"
    and "\<And>w ws s s' new. I (w # ws) s \<Longrightarrow> step w s = Inr (s', new) \<Longrightarrow> I (new @ ws) s'"
  shows "\<exists>w ws s. I (w # ws) s \<and> step w s = Inl e"
  using assms(1,2)
proof (induction ws s rule: run_induct)
  case (Nil s)
  then show ?case by (simp add: run_Nil)
next
  case (Cons w ws s)
  then consider "step w s = Inl e"
    | t new where "step w s = Inr (t, new)" "run (new @ ws) t = Inl e"
    by (auto simp: run_Cons rbind_eq_Inl)
  then show ?case using Cons assms(3) by cases blast+
qed

end

end
