(* ===== verification/Tree_Flatten.thy ===== *)
theory Tree_Flatten
  imports Traversal
begin

text \<open>
  \<^verbatim>\<open>tree_to_flat\<close> of \<^verbatim>\<open>common/src/tree_convert.rs\<close>: the depth-first expansion of a canonical root
  into a flat map of file states, with its cycle guard and its resource budgets. The theorems
  show that a successful expansion is exactly the set of leaves of the tree, that the loop ends
  on every input (cyclic object graphs included), that a reported cycle is a real one, and that
  the two internal consistency errors of the traversal are unreachable.
\<close>

section \<open>The traversal\<close>

datatype flatten_work = FEnter string string nat | FExit string

fun pending_path_len :: "flatten_work \<Rightarrow> nat" where
  "pending_path_len (FEnter _ prefix _) = length prefix"
| "pending_path_len (FExit _) = 0"

text \<open>A \<^verbatim>\<open>HashSet\<close> is a set, a \<^verbatim>\<open>HashMap\<close> that is filled and returned an association list.\<close>

record flatten_traversal =
  ft_active :: "string set"
  ft_files :: "(string \<times> file_state) list"
  ft_work_items :: nat
  ft_objects :: "string set"
  ft_constructed_path_bytes :: nat
  ft_pending_path_bytes :: nat

definition ft_add_work :: "nat \<Rightarrow> flatten_traversal \<Rightarrow> tree_error + flatten_traversal" where
  "ft_add_work amount st =
     rbind (charge max_tree_work_items TooManyWorkItems amount (ft_work_items st)) (\<lambda>n.
     Inr (st\<lparr>ft_work_items := n\<rparr>))"

definition record_constructed_path ::
  "string \<Rightarrow> flatten_traversal \<Rightarrow> tree_error + flatten_traversal" where
  "record_constructed_path path st =
     rbind (charge max_tree_path_bytes_total PathBytesExceeded (length path)
              (ft_constructed_path_bytes st)) (\<lambda>n.
     Inr (st\<lparr>ft_constructed_path_bytes := n\<rparr>))"

definition reserve_pending_path ::
  "nat \<Rightarrow> flatten_traversal \<Rightarrow> tree_error + flatten_traversal" where
  "reserve_pending_path amount st =
     rbind (charge max_tree_path_bytes_total PendingBytesExceeded amount
              (ft_pending_path_bytes st)) (\<lambda>n.
     Inr (st\<lparr>ft_pending_path_bytes := n\<rparr>))"

definition release_pending_path ::
  "nat \<Rightarrow> flatten_traversal \<Rightarrow> tree_error + flatten_traversal" where
  "release_pending_path amount st =
     rbind (ok_or (checked_sub (ft_pending_path_bytes st) amount) PendingUnderflow) (\<lambda>n.
     Inr (st\<lparr>ft_pending_path_bytes := n\<rparr>))"

definition leaf_state :: "string \<Rightarrow> tree_entry \<Rightarrow> file_state" where
  "leaf_state path e =
     \<lparr>fs_path = path, fs_hash = te_hash e, fs_size = te_size e, fs_mtime = 0,
      fs_deleted = False, fs_mode = te_mode e\<rparr>"

text \<open>The body of the loop over the entries of one tree object.\<close>

definition flatten_entry ::
  "prims \<Rightarrow> string \<Rightarrow> nat \<Rightarrow> tree_entry \<Rightarrow> flatten_traversal \<times> flatten_work list
     \<Rightarrow> tree_error + (flatten_traversal \<times> flatten_work list)" where
  "flatten_entry P prefix depth e acc =
     (let (st, directories) = acc; path = join_path prefix (te_name e) in
      rbind (validate_path P path) (\<lambda>_.
      rbind (record_constructed_path path st) (\<lambda>st.
      if is_dir e then
        rbind (reserve_pending_path (length path) st) (\<lambda>st.
        Inr (st, directories @ [FEnter (te_hash e) path (depth + 1)]))
      else if length (ft_files st) \<ge> max_tree_output_paths then Inl TooManyOutputPaths
      else Inr (st\<lparr>ft_files := AList.update path (leaf_state path e) (ft_files st)\<rparr>, directories))))"

text \<open>
  One iteration: the stack is a list whose head is the top, the result the new state and what
  is pushed, from the top down.
\<close>

definition flatten_enter ::
  "prims \<Rightarrow> (string \<Rightarrow> tree option) \<Rightarrow> string \<Rightarrow> string \<Rightarrow> nat \<Rightarrow> flatten_traversal
     \<Rightarrow> tree_error + (flatten_traversal \<times> flatten_work list)" where
  "flatten_enter P fetch hash prefix depth st =
     (if depth > max_tree_depth then Inl PathTooDeep
      else if hash \<in> ft_active st then Inl (CycleAt hash)
      else
        rbind (record_object hash (ft_objects st)) (\<lambda>objects.
        rbind (fetch_valid P fetch hash depth) (\<lambda>t.
        rbind (ft_add_work (saturating_add (length (entries t)) 1)
                 (st\<lparr>ft_active := insert hash (ft_active st), ft_objects := objects\<rparr>)) (\<lambda>st.
        rbind (fold_result (flatten_entry P prefix depth) (entries t) (st, [])) (\<lambda>(st, directories).
        Inr (st, directories @ [FExit hash]))))))"

definition flatten_step ::
  "prims \<Rightarrow> (string \<Rightarrow> tree option) \<Rightarrow> flatten_work \<Rightarrow> flatten_traversal
     \<Rightarrow> tree_error + (flatten_traversal \<times> flatten_work list)" where
  "flatten_step P fetch work st =
     rbind (release_pending_path (pending_path_len work) st) (\<lambda>st.
     (case work of
        FExit hash \<Rightarrow>
          if hash \<in> ft_active st then Inr (st\<lparr>ft_active := ft_active st - {hash}\<rparr>, [])
          else Inl (LostActive hash)
      | FEnter hash prefix depth \<Rightarrow> flatten_enter P fetch hash prefix depth st))"

lemma release_pending_path_eq_Inr:
  "release_pending_path n st = Inr st' \<longleftrightarrow>
     n \<le> ft_pending_path_bytes st
     \<and> st' = st\<lparr>ft_pending_path_bytes := ft_pending_path_bytes st - n\<rparr>"
  by (auto simp: release_pending_path_def rbind_eq_Inr)

lemma ft_add_work_eq_Inr:
  "ft_add_work n st = Inr st' \<longleftrightarrow>
     ft_work_items st + n \<le> max_tree_work_items \<and> st' = st\<lparr>ft_work_items := ft_work_items st + n\<rparr>"
  by (auto simp: ft_add_work_def rbind_eq_Inr charge_ok)

lemma flatten_entry_dir:
  assumes "is_dir e"
  shows "flatten_entry P prefix depth e (st, ds) = Inr (st', ds') \<longleftrightarrow>
    (let path = join_path prefix (te_name e) in
       validate_path P path = Inr ()
       \<and> ft_constructed_path_bytes st + length path \<le> max_tree_path_bytes_total
       \<and> ft_pending_path_bytes st + length path \<le> max_tree_path_bytes_total
       \<and> st' = st\<lparr>ft_constructed_path_bytes := ft_constructed_path_bytes st + length path,
                   ft_pending_path_bytes := ft_pending_path_bytes st + length path\<rparr>
       \<and> ds' = ds @ [FEnter (te_hash e) path (depth + 1)])"
  using assms
  by (auto simp: flatten_entry_def Let_def rbind_eq_Inr record_constructed_path_def
      reserve_pending_path_def charge_ok)

lemma flatten_entry_leaf:
  assumes "\<not> is_dir e"
  shows "flatten_entry P prefix depth e (st, ds) = Inr (st', ds') \<longleftrightarrow>
    (let path = join_path prefix (te_name e) in
       validate_path P path = Inr ()
       \<and> ft_constructed_path_bytes st + length path \<le> max_tree_path_bytes_total
       \<and> length (ft_files st) < max_tree_output_paths
       \<and> st' = st\<lparr>ft_constructed_path_bytes := ft_constructed_path_bytes st + length path,
                   ft_files := AList.update path (leaf_state path e) (ft_files st)\<rparr>
       \<and> ds' = ds)"
  using assms
  by (auto simp: flatten_entry_def Let_def rbind_eq_Inr record_constructed_path_def charge_ok)

lemma flatten_entry_keeps:
  assumes "fold_result (flatten_entry P prefix depth) es acc = Inr acc'"
  shows "ft_work_items (fst acc') = ft_work_items (fst acc)
    \<and> ft_active (fst acc') = ft_active (fst acc)"
proof (rule fold_result_invariant [OF assms])
  fix e a a'
  assume "ft_work_items (fst a) = ft_work_items (fst acc) \<and> ft_active (fst a) = ft_active (fst acc)"
    and "flatten_entry P prefix depth e a = Inr a'"
  then show "ft_work_items (fst a') = ft_work_items (fst acc) \<and> ft_active (fst a') = ft_active (fst acc)"
    by (cases "is_dir e"; cases a; cases a') (auto simp: flatten_entry_dir flatten_entry_leaf Let_def)
qed simp

text \<open>A successful visit of a tree object, taken apart.\<close>

lemma flatten_enter_eq_Inr:
  "flatten_enter P fetch hash prefix depth st = Inr (st', new) \<longleftrightarrow>
     depth \<le> max_tree_depth \<and> hash \<notin> ft_active st
     \<and> (\<exists>t objs ds. record_object hash (ft_objects st) = Inr objs
         \<and> fetch_valid P fetch hash depth = Inr t
         \<and> ft_work_items st + saturating_add (length (entries t)) 1 \<le> max_tree_work_items
         \<and> fold_result (flatten_entry P prefix depth) (entries t)
             (st\<lparr>ft_active := insert hash (ft_active st), ft_objects := objs,
                 ft_work_items := ft_work_items st + saturating_add (length (entries t)) 1\<rparr>, [])
           = Inr (st', ds)
         \<and> new = ds @ [FExit hash])"
  by (auto simp: flatten_enter_def rbind_eq_Inr ft_add_work_eq_Inr not_less)

lemma flatten_step_cases:
  assumes "flatten_step P fetch w st = Inr (st', new)"
  obtains (Exit) h where "w = FExit h" "h \<in> ft_active st" "new = []"
      "st' = st\<lparr>ft_active := ft_active st - {h}\<rparr>"
  | (Enter) h prefix depth where "w = FEnter h prefix depth"
      "length prefix \<le> ft_pending_path_bytes st"
      "flatten_enter P fetch h prefix depth
        (st\<lparr>ft_pending_path_bytes := ft_pending_path_bytes st - length prefix\<rparr>) = Inr (st', new)"
  using assms
  by (cases w)
    (auto simp: flatten_step_def rbind_eq_Inr release_pending_path_eq_Inr split: if_splits)

lemma flatten_progress:
  assumes "flatten_step P fetch w st = Inr (st', new)"
  shows "new = [] \<and> ft_work_items st' = ft_work_items st
    \<or> ft_work_items st < ft_work_items st' \<and> ft_work_items st' \<le> max_tree_work_items"
  using assms
proof (cases rule: flatten_step_cases)
  case (Enter h prefix depth)
  then show ?thesis
    by (auto simp: flatten_enter_eq_Inr saturating_add_pos dest!: flatten_entry_keeps)
qed simp

function flatten_run ::
  "prims \<Rightarrow> (string \<Rightarrow> tree option) \<Rightarrow> flatten_work list \<Rightarrow> flatten_traversal
     \<Rightarrow> tree_error + flatten_traversal" where
  "flatten_run P fetch [] st = Inr st"
| "flatten_run P fetch (w # pending) st =
     rbind (flatten_step P fetch w st) (\<lambda>r. flatten_run P fetch (snd r @ pending) (fst r))"
  by pat_completeness auto
termination
proof (relation "measures [\<lambda>(_, _, _, st). Suc max_tree_work_items - ft_work_items st,
    \<lambda>(_, _, ws, _). length ws]", goal_cases)
  case (2 P fetch w pending st r)
  then show ?case
    using flatten_progress [of P fetch w st "fst r" "snd r"] by auto
qed simp

definition tree_to_flat ::
  "prims \<Rightarrow> string \<Rightarrow> (string \<Rightarrow> tree option) \<Rightarrow> tree_error + (string \<times> file_state) list" where
  "tree_to_flat P root fetch =
     rbind (flatten_run P fetch [FEnter root [] 0]
        \<lparr>ft_active = {}, ft_files = [], ft_work_items = 0, ft_objects = {},
         ft_constructed_path_bytes = 0, ft_pending_path_bytes = 0\<rparr>) (\<lambda>traversal.
     Inr (ft_files traversal))"

interpretation flatten: worklist "flatten_step P fetch" "flatten_run P fetch" ft_work_items
  max_tree_work_items
  by unfold_locales (auto simp: case_prod_unfold dest: flatten_progress)

section \<open>What one visit does\<close>

definition dir_work :: "string \<Rightarrow> nat \<Rightarrow> tree_entry \<Rightarrow> flatten_work" where
  "dir_work prefix depth e = FEnter (te_hash e) (join_path prefix (te_name e)) (depth + 1)"

abbreviation put_leaf ::
  "string \<Rightarrow> tree_entry \<Rightarrow> (string \<times> file_state) list \<Rightarrow> (string \<times> file_state) list" where
  "put_leaf prefix e fs \<equiv>
     AList.update (join_path prefix (te_name e)) (leaf_state (join_path prefix (te_name e)) e) fs"

lemma flatten_entries:
  assumes "fold_result (flatten_entry P prefix depth) es (st, ds) = Inr (st', ds')"
  shows "ds' = ds @ map (dir_work prefix depth) (filter is_dir es)"
    and "ft_files st' = fold (put_leaf prefix) (filter (\<lambda>e. \<not> is_dir e) es) (ft_files st)"
    and "ft_pending_path_bytes st' = ft_pending_path_bytes st
       + sum_list (map pending_path_len (map (dir_work prefix depth) (filter is_dir es)))"
  using assms
proof (induction es arbitrary: st ds)
  case (Cons e es)
  case 1 then show ?case using Cons.IH(1)
    by (cases "is_dir e") (force simp: dir_work_def rbind_eq_Inr flatten_entry_dir flatten_entry_leaf Let_def)+
  case 2 then show ?case using Cons.IH(2)
    by (cases "is_dir e") (force simp: dir_work_def rbind_eq_Inr flatten_entry_dir flatten_entry_leaf Let_def)+
  case 3 then show ?case using Cons.IH(3)
    by (cases "is_dir e") (force simp: dir_work_def rbind_eq_Inr flatten_entry_dir flatten_entry_leaf Let_def)+
qed auto

lemma flatten_visit:
  assumes "flatten_enter P fetch h prefix depth st = Inr (st', new)"
  obtains t where "fetch h = Some t" "validate_tree P t = Inr ()" "depth > 0 \<longrightarrow> entries t \<noteq> []"
    "depth \<le> max_tree_depth" "h \<notin> ft_active st" "ft_active st' = insert h (ft_active st)"
    "new = map (dir_work prefix depth) (filter is_dir (entries t)) @ [FExit h]"
    "ft_files st' = fold (put_leaf prefix) (filter (\<lambda>e. \<not> is_dir e) (entries t)) (ft_files st)"
    "ft_pending_path_bytes st' = ft_pending_path_bytes st + sum_list (map pending_path_len new)"
proof -
  from assms obtain t objs ds where t: "fetch_valid P fetch h depth = Inr t"
    and d: "depth \<le> max_tree_depth" "h \<notin> ft_active st" and n: "new = ds @ [FExit h]"
    and f: "fold_result (flatten_entry P prefix depth) (entries t)
      (st\<lparr>ft_active := insert h (ft_active st), ft_objects := objs,
          ft_work_items := ft_work_items st + saturating_add (length (entries t)) 1\<rparr>, []) = Inr (st', ds)"
    by (auto simp: flatten_enter_eq_Inr)
  show thesis
    by (rule that [of t])
      (use t d n flatten_entries [OF f] flatten_entry_keeps [OF f] in \<open>simp_all add: fetch_valid_eq_Inr\<close>)
qed

section \<open>Internal consistency\<close>

definition exits :: "flatten_work list \<Rightarrow> string list" where
  "exits ws = [h. FExit h \<leftarrow> ws]"

lemma exits_simps [simp]:
  "exits [] = []" "exits (FExit h # ws) = h # exits ws" "exits (FEnter h p d # ws) = exits ws"
  "exits (ws @ vs) = exits ws @ exits vs" "exits (map (dir_work prefix depth) es) = []"
  by (simp_all add: exits_def dir_work_def)

text \<open>The active set is the set of open exits; the pending counter is the sum over the stack.\<close>

definition stack_inv :: "flatten_work list \<Rightarrow> flatten_traversal \<Rightarrow> bool" where
  "stack_inv ws st \<longleftrightarrow> distinct (exits ws) \<and> ft_active st = set (exits ws)
     \<and> ft_pending_path_bytes st = sum_list (map pending_path_len ws)"

lemma stack_inv_step:
  assumes "stack_inv (w # ws) st" and "flatten_step P fetch w st = Inr (st', new)"
  shows "stack_inv (new @ ws) st'"
  using assms(2)
proof (cases rule: flatten_step_cases)
  case (Exit h)
  with assms(1) show ?thesis by (auto simp: stack_inv_def)
next
  case (Enter h prefix depth)
  from Enter(3) show ?thesis
    by (rule flatten_visit) (use assms(1) Enter in \<open>auto simp: stack_inv_def\<close>)
qed

abbreviation flatten_start :: flatten_traversal where
  "flatten_start \<equiv> \<lparr>ft_active = {}, ft_files = [], ft_work_items = 0, ft_objects = {},
     ft_constructed_path_bytes = 0, ft_pending_path_bytes = 0\<rparr>"

lemma stack_inv_start: "stack_inv [FEnter root [] 0] flatten_start"
  by (simp add: stack_inv_def)

lemma flatten_entry_errors:
  assumes "flatten_entry P prefix depth e acc = Inl err"
  shows "err \<noteq> PendingUnderflow \<and> err \<noteq> LostActive h \<and> err \<noteq> CycleAt h"
  using assms
  by (cases acc) (auto simp: flatten_entry_def Let_def rbind_eq_Inl record_constructed_path_def
      reserve_pending_path_def validate_path_def split: if_splits dest!: charge_eq_Inl)

lemma flatten_entries_errors:
  "fold_result (flatten_entry P prefix depth) es acc = Inl err \<Longrightarrow>
     err \<noteq> PendingUnderflow \<and> err \<noteq> LostActive h \<and> err \<noteq> CycleAt h"
  by (induction es arbitrary: acc) (auto simp: rbind_eq_Inl dest: flatten_entry_errors)

lemma flatten_enter_errors:
  assumes "flatten_enter P fetch h0 prefix depth st = Inl err"
  shows "err \<noteq> PendingUnderflow \<and> err \<noteq> LostActive h \<and> (err = CycleAt h \<longrightarrow> h = h0 \<and> h0 \<in> ft_active st)"
  using assms
  by (auto simp: flatten_enter_def rbind_eq_Inl record_object_def fetch_valid_def ft_add_work_def
      ok_or_def map_err_def split: if_splits option.splits sum.splits
      dest: flatten_entries_errors dest!: charge_eq_Inl)

lemma flatten_step_errors:
  assumes "stack_inv (w # ws) st" and "flatten_step P fetch w st = Inl err"
  shows "err \<noteq> PendingUnderflow \<and> err \<noteq> LostActive h
    \<and> (err = CycleAt h \<longrightarrow> (\<exists>p d. w = FEnter h p d) \<and> h \<in> set (exits ws))"
proof (cases w)
  case (FEnter h0 p d)
  let ?st = "st\<lparr>ft_pending_path_bytes := ft_pending_path_bytes st - length p\<rparr>"
  have "flatten_enter P fetch h0 p d ?st = Inl err"
    using assms FEnter by (auto simp: flatten_step_def rbind_eq_Inl release_pending_path_def
        stack_inv_def ok_or_def checked_sub_def)
  from flatten_enter_errors [OF this, of h] show ?thesis
    using assms(1) FEnter by (auto simp: stack_inv_def)
next
  case (FExit h0)
  then show ?thesis
    using assms by (auto simp: flatten_step_def rbind_eq_Inl release_pending_path_def stack_inv_def
        checked_sub_def)
qed

text \<open>
  C4: The internal errors of the expansion (a released path counter below zero, an exit from a
  directory that is not being visited) never occur, and when it ends without error no
  directory is left open and no pending path bytes remain, which the code only asserts in
  debug builds.
\<close>

theorem flatten_consistent:
  "tree_to_flat P root fetch \<noteq> Inl PendingUnderflow
   \<and> tree_to_flat P root fetch \<noteq> Inl (LostActive h)
   \<and> (flatten_run P fetch [FEnter root [] 0] flatten_start = Inr st
       \<longrightarrow> ft_active st = {} \<and> ft_pending_path_bytes st = 0)"
proof -
  have "tree_to_flat P root fetch \<noteq> Inl err" if "err = PendingUnderflow \<or> err = LostActive h" for err
  proof
    assume "tree_to_flat P root fetch = Inl err"
    then have "flatten_run P fetch [FEnter root [] 0] flatten_start = Inl err"
      by (auto simp: tree_to_flat_def rbind_eq_Inl)
    then have "\<exists>w ws s. stack_inv (w # ws) s \<and> flatten_step P fetch w s = Inl err"
      by (rule flatten.run_error [where I = stack_inv])
        (rule stack_inv_start, erule (1) stack_inv_step)
    with flatten_step_errors that show False by metis
  qed
  moreover have "stack_inv [] st" if "flatten_run P fetch [FEnter root [] 0] flatten_start = Inr st"
    by (rule flatten.run_invariant [where I = stack_inv, OF that stack_inv_start])
      (erule (1) stack_inv_step)
  ultimately show ?thesis by (auto simp: stack_inv_def)
qed

section \<open>The result is the set of leaves\<close>

text \<open>The paths and states a stack item still has to deliver.\<close>

definition item_leaves :: "(string \<Rightarrow> tree option) \<Rightarrow> flatten_work \<Rightarrow> (string \<times> file_state) set" where
  "item_leaves fetch w =
     {(p, leaf_state p e) | p e. \<exists>h pre d cs. w = FEnter h pre d \<and> tree_leaf fetch h cs e
        \<and> p = foldl join_path pre cs}"

lemma item_leaves_Exit [simp]: "item_leaves fetch (FExit h) = {}"
  by (simp add: item_leaves_def)

lemma item_leaves_Enter:
  assumes "fetch h = Some t"
  shows "item_leaves fetch (FEnter h pre d) =
    (\<lambda>e. (join_path pre (te_name e), leaf_state (join_path pre (te_name e)) e)) `
       {e \<in> set (entries t). \<not> is_dir e}
    \<union> (\<Union>e\<in>{e \<in> set (entries t). is_dir e}. item_leaves fetch (dir_work pre d e))"
    (is "?l = ?r1 \<union> ?r2")
proof
  show "?l \<subseteq> ?r1 \<union> ?r2"
  proof
    fix x assume "x \<in> ?l"
    then obtain cs e where l: "tree_leaf fetch h cs e"
      and x: "x = (foldl join_path pre cs, leaf_state (foldl join_path pre cs) e)"
      by (auto simp: item_leaves_def)
    from l show "x \<in> ?r1 \<union> ?r2"
      by (cases rule: tree_leaf.cases)
        (use assms x in \<open>force simp: item_leaves_def dir_work_def\<close>)+
  qed
  have "?r1 \<subseteq> ?l" using assms
    by (force simp: item_leaves_def intro: tree_leaf.here intro!: exI [of _ "[_]"])
  moreover have "?r2 \<subseteq> ?l"
  proof
    fix x assume "x \<in> ?r2"
    then obtain e cs e' where e: "e \<in> set (entries t)" "is_dir e" "tree_leaf fetch (te_hash e) cs e'"
      and x: "x = (foldl join_path pre (te_name e # cs),
        leaf_state (foldl join_path pre (te_name e # cs)) e')"
      by (auto simp: item_leaves_def dir_work_def)
    from tree_leaf.below [OF assms e] x show "x \<in> ?l" unfolding item_leaves_def by blast
  qed
  ultimately show "?r1 \<union> ?r2 \<subseteq> ?l" by simp
qed

lemma fold_put_leaf:
  "map_of (fold (put_leaf pre) es fs) p = Some s \<Longrightarrow>
     map_of fs p = Some s
     \<or> (p, s) \<in> (\<lambda>e. (join_path pre (te_name e), leaf_state (join_path pre (te_name e)) e)) ` set es"
  by (induction es arbitrary: fs) (force simp: update_conv split: if_splits)+

lemma fold_put_leaf_dom:
  "dom (map_of (fold (put_leaf pre) es fs)) =
     dom (map_of fs) \<union> (\<lambda>e. join_path pre (te_name e)) ` set es"
  by (induction es arbitrary: fs) (auto simp: update_conv)

lemma fold_put_leaf_distinct:
  "distinct (map fst fs) \<Longrightarrow> distinct (map fst (fold (put_leaf pre) es fs))"
  by (induction es arbitrary: fs) (auto simp: distinct_update)

definition leaves_inv ::
  "(string \<Rightarrow> tree option) \<Rightarrow> (string \<times> file_state) set \<Rightarrow> flatten_work list \<Rightarrow> flatten_traversal \<Rightarrow> bool" where
  "leaves_inv fetch goal ws st \<longleftrightarrow>
     distinct (map fst (ft_files st))
     \<and> (\<forall>p s. map_of (ft_files st) p = Some s \<longrightarrow> (p, s) \<in> goal)
     \<and> (\<forall>w\<in>set ws. item_leaves fetch w \<subseteq> goal)
     \<and> fst ` goal \<subseteq> dom (map_of (ft_files st)) \<union> (\<Union>w\<in>set ws. fst ` item_leaves fetch w)"

lemma leaves_inv_step:
  assumes inv: "leaves_inv fetch goal (w # ws) st"
    and step: "flatten_step P fetch w st = Inr (st', new)"
  shows "leaves_inv fetch goal (new @ ws) st'"
  using step
proof (cases rule: flatten_step_cases)
  case (Exit h)
  with inv show ?thesis by (auto simp: leaves_inv_def)
next
  case (Enter h pre d)
  from Enter(3) show ?thesis
  proof (rule flatten_visit)
    fix t
    assume t: "fetch h = Some t"
      and new: "new = map (dir_work pre d) (filter is_dir (entries t)) @ [FExit h]"
      and "ft_files st' = fold (put_leaf pre) (filter (\<lambda>e. \<not> is_dir e) (entries t))
        (ft_files (st\<lparr>ft_pending_path_bytes := ft_pending_path_bytes st - length pre\<rparr>))"
    then have files: "ft_files st' =
        fold (put_leaf pre) (filter (\<lambda>e. \<not> is_dir e) (entries t)) (ft_files st)" by simp
    note leaves = item_leaves_Enter [of fetch h t pre d, OF t]
    show "leaves_inv fetch goal (new @ ws) st'"
      unfolding leaves_inv_def
    proof (intro conjI allI impI)
      show "distinct (map fst (ft_files st'))"
        using inv unfolding files leaves_inv_def by (simp add: fold_put_leaf_distinct)
      show "(p, s) \<in> goal" if "map_of (ft_files st') p = Some s" for p s
        using fold_put_leaf [OF that [unfolded files]] inv unfolding Enter(1) leaves_inv_def
        by (auto simp: leaves)
      show "\<forall>w\<in>set (new @ ws). item_leaves fetch w \<subseteq> goal"
        using inv unfolding Enter(1) leaves_inv_def new by (auto simp: leaves)
      show "fst ` goal \<subseteq> dom (map_of (ft_files st')) \<union> (\<Union>w\<in>set (new @ ws). fst ` item_leaves fetch w)"
        using inv unfolding Enter(1) leaves_inv_def new files fold_put_leaf_dom
        by (simp add: leaves image_Un image_UN image_image Un_ac)
    qed
  qed
qed

text \<open>A run that ends well has visited everything below its stack.\<close>

lemma flatten_run_visits:
  assumes "flatten_run P fetch ws st = Inr st'" and "FEnter h pre d \<in> set ws"
    and "reach fetch n h h'"
  shows "d + n \<le> max_tree_depth \<and> (\<exists>t. fetch h' = Some t \<and> validate_tree P t = Inr ()
    \<and> (d + n > 0 \<longrightarrow> entries t \<noteq> []))"
  using assms
proof (induction ws st arbitrary: h pre d n rule: flatten.run_induct [of _ P fetch])
  case (Cons w ws st)
  from Cons.prems(1) obtain s1 new where st: "flatten_step P fetch w st = Inr (s1, new)"
    and run: "flatten_run P fetch (new @ ws) s1 = Inr st'"
    by (auto simp: rbind_eq_Inr)
  note IH = Cons.IH [OF st run]
  show ?case
  proof (cases "w = FEnter h pre d")
    case False
    with Cons.prems(2) have "FEnter h pre d \<in> set (new @ ws)" by auto
    from IH [OF this Cons.prems(3)] show ?thesis .
  next
    case True
    from st show ?thesis
    proof (cases rule: flatten_step_cases)
      case (Enter h0 pre0 d0)
      from Enter(3) show ?thesis
      proof (rule flatten_visit)
        fix t
        assume t: "fetch h0 = Some t" "validate_tree P t = Inr ()" "d0 > 0 \<longrightarrow> entries t \<noteq> []"
            "d0 \<le> max_tree_depth"
          and new: "new = map (dir_work pre0 d0) (filter is_dir (entries t)) @ [FExit h0]"
        from Cons.prems(3) show ?thesis
        proof (cases rule: reach.cases)
          case self
          then show ?thesis using t True Enter by auto
        next
          case (down t' c m)
          then have "dir_work pre0 d0 c \<in> set (new @ ws)" using t True Enter new by auto
          from IH [OF this [unfolded dir_work_def] down(5)] down show ?thesis
            using True Enter by auto
        qed
      qed
    qed (use True in simp)
  qed
qed simp

lemma tree_to_flat_sound_below:
  assumes "tree_to_flat P root fetch = Inr files"
  shows "sound_below P fetch root" and "reach fetch n root h \<Longrightarrow> n \<le> max_tree_depth"
  using assms flatten_run_visits [of P fetch "[FEnter root [] 0]" _ _ root "[]" 0]
  unfolding tree_to_flat_def sound_below_def rbind_eq_Inr by fastforce+

lemma foldl_join_path:
  "list_all (\<lambda>c. c \<noteq> []) (pre @ cs) \<Longrightarrow> foldl join_path (join_all pre) cs = join_all (pre @ cs)"
proof (induction cs arbitrary: pre)
  case (Cons c cs)
  then show ?case using Cons.IH [of "pre @ [c]"] by (simp add: join_path_join)
qed simp

lemma root_leaves:
  assumes "sound_below P fetch root"
  shows "(p, s) \<in> item_leaves fetch (FEnter root [] 0) \<longleftrightarrow>
    (\<exists>cs e. tree_leaf fetch root cs e \<and> p = join_all cs \<and> s = leaf_state p e)"
proof -
  have "foldl join_path [] cs = join_all cs" if "tree_leaf fetch root cs e" for cs e
    using foldl_join_path [of "[]" cs] leaf_names_ok [OF that assms] name_ok_nonempty
    by (force simp: list_all_iff)
  then show ?thesis by (simp add: item_leaves_def) metis
qed

text \<open>
  C5: A successful expansion of a root is exactly the tree: the returned map has one entry for
  each leaf reachable through directory entries, under the path made of the names on the way,
  with the leaf's content hash, size and mode, and nothing else.
\<close>

theorem tree_to_flat_correct:
  assumes "tree_to_flat P root fetch = Inr files"
  shows "distinct (map fst files)
    \<and> (\<forall>p s. map_of files p = Some s \<longleftrightarrow>
        (\<exists>cs e. tree_leaf fetch root cs e \<and> p = join_all cs \<and> s = leaf_state p e))"
proof -
  let ?goal = "item_leaves fetch (FEnter root [] 0)"
  from assms obtain st where run: "flatten_run P fetch [FEnter root [] 0] flatten_start = Inr st"
    and files: "files = ft_files st"
    by (auto simp: tree_to_flat_def rbind_eq_Inr)
  have "leaves_inv fetch ?goal [] st"
    by (rule flatten.run_invariant [where I = "leaves_inv fetch ?goal", OF run])
      (simp add: leaves_inv_def, erule (1) leaves_inv_step)
  then have d: "distinct (map fst files)" and sub: "\<And>p s. map_of files p = Some s \<Longrightarrow> (p, s) \<in> ?goal"
    and sup: "fst ` ?goal \<subseteq> dom (map_of files)"
    by (auto simp: leaves_inv_def files)
  note sound = tree_to_flat_sound_below(1) [OF assms]
  note goal = root_leaves [OF sound]
  have "map_of files p = Some s \<longleftrightarrow>
      (\<exists>cs e. tree_leaf fetch root cs e \<and> p = join_all cs \<and> s = leaf_state p e)" for p s
  proof
    assume "\<exists>cs e. tree_leaf fetch root cs e \<and> p = join_all cs \<and> s = leaf_state p e"
    then obtain cs e where l: "tree_leaf fetch root cs e" "p = join_all cs" "s = leaf_state p e" by blast
    with goal [of p s] have "p \<in> fst ` ?goal" by force
    then obtain s' where s': "map_of files p = Some s'" using sup by blast
    then obtain ds e' where l': "tree_leaf fetch root ds e'" "p = join_all ds" "s' = leaf_state p e'"
      using sub goal by blast
    have "cs = ds"
      using l l' leaf_names_ok [OF _ sound] tree_leaf_nonempty by (intro join_names_inj [of cs ds P]) auto
    then have "e = e'" using leaf_unique l(1) l'(1) sound by blast
    with l l' s' show "map_of files p = Some s" by simp
  qed (use sub goal in blast)
  with d show ?thesis by blast
qed

section \<open>Cycles\<close>

fun work_hash :: "flatten_work \<Rightarrow> string" where
  "work_hash (FEnter h _ _) = h"
| "work_hash (FExit h) = h"

text \<open>Everything above an open exit lies strictly below that directory.\<close>

definition under :: "(string \<Rightarrow> tree option) \<Rightarrow> flatten_work \<Rightarrow> flatten_work \<Rightarrow> bool" where
  "under fetch w w' = (case w' of FExit h \<Rightarrow> \<exists>n>0. reach fetch n h (work_hash w) | _ \<Rightarrow> True)"

definition path_inv :: "(string \<Rightarrow> tree option) \<Rightarrow> string \<Rightarrow> flatten_work list \<Rightarrow> flatten_traversal \<Rightarrow> bool" where
  "path_inv fetch root ws st \<longleftrightarrow> stack_inv ws st \<and> sorted_wrt (under fetch) ws
     \<and> (\<forall>w\<in>set ws. \<exists>n. reach fetch n root (work_hash w))"

lemma reach_child:
  assumes "fetch h = Some t" "e \<in> set (entries t)" "is_dir e"
  shows "reach fetch 1 h (te_hash e)"
  using reach.down [of fetch h t e 0 "te_hash e"] assms reach.self by simp

lemma under_trans:
  assumes "under fetch (FEnter h p d) w" "reach fetch 1 h h'" "work_hash v = h'"
  shows "under fetch v w"
  using assms by (auto simp: under_def split: flatten_work.splits dest: reach_trans)

lemma path_inv_step:
  assumes inv: "path_inv fetch root (w # ws) st"
    and step: "flatten_step P fetch w st = Inr (st', new)"
  shows "path_inv fetch root (new @ ws) st'"
proof -
  from inv step have stk: "stack_inv (new @ ws) st'"
    by (auto simp: path_inv_def intro: stack_inv_step)
  from step show ?thesis
  proof (cases rule: flatten_step_cases)
    case Exit
    with inv stk show ?thesis by (auto simp: path_inv_def)
  next
    case (Enter h pre d)
    from Enter(3) show ?thesis
    proof (rule flatten_visit)
      fix t
      assume t: "fetch h = Some t"
        and new: "new = map (dir_work pre d) (filter is_dir (entries t)) @ [FExit h]"
      have child: "reach fetch 1 h (te_hash e)" if "e \<in> set (entries t)" "is_dir e" for e
        using reach_child t that by blast
      have srt: "sorted_wrt (under fetch) new"
        unfolding new sorted_wrt_append sorted_wrt_map
        using child by (force simp: under_def dir_work_def intro: sorted_wrt_mono_rel [of _ "\<lambda>_ _. True"]
            sorted_wrt_true exI [of _ 1])
      have "under fetch v w'" if "v \<in> set new" "w' \<in> set ws" for v w'
        using that inv child under_trans [of fetch h pre d w' _ v] unfolding new Enter(1) path_inv_def
        by (auto simp: dir_work_def under_def split: flatten_work.splits)
      moreover have "\<exists>n. reach fetch n root (work_hash v)" if "v \<in> set new" for v
        using that inv child reach_trans unfolding new Enter(1) path_inv_def
        by (fastforce simp: dir_work_def)
      ultimately show ?thesis
        using stk srt inv unfolding path_inv_def by (auto simp: sorted_wrt_append)
    qed
  qed
qed

text \<open>
  C6: The cycle guard is exact. If the expansion reports a cycle at an object, that object is
  reachable from the root and from itself; and if the objects below the root contain a cycle,
  the expansion returns an error, it does not loop and does not succeed.
\<close>

theorem flatten_cycle_exact:
  "(tree_to_flat P root fetch = Inl (CycleAt h) \<longrightarrow>
      (\<exists>m n. reach fetch m root h \<and> n > 0 \<and> reach fetch n h h))
   \<and> (reach fetch m root h \<and> n > 0 \<and> reach fetch n h h \<longrightarrow> \<not> is_ok (tree_to_flat P root fetch))"
proof (intro conjI impI)
  assume "tree_to_flat P root fetch = Inl (CycleAt h)"
  then have "flatten_run P fetch [FEnter root [] 0] flatten_start = Inl (CycleAt h)"
    by (auto simp: tree_to_flat_def rbind_eq_Inl)
  then have "\<exists>w ws s. path_inv fetch root (w # ws) s \<and> flatten_step P fetch w s = Inl (CycleAt h)"
    by (rule flatten.run_error [where I = "path_inv fetch root"])
      (simp add: path_inv_def stack_inv_start, blast intro: reach.self, erule (1) path_inv_step)
  then obtain w ws s where inv: "path_inv fetch root (w # ws) s"
    and err: "flatten_step P fetch w s = Inl (CycleAt h)" by blast
  with flatten_step_errors [of w ws s P fetch "CycleAt h" h]
  obtain p d where w: "w = FEnter h p d" and "h \<in> set (exits ws)" by (auto simp: path_inv_def)
  then have "FExit h \<in> set ws" by (auto simp: exits_def split: flatten_work.splits)
  with inv w have "\<exists>n>0. reach fetch n h h" by (force simp: path_inv_def under_def)
  moreover have "\<exists>m. reach fetch m root h" using inv w by (auto simp: path_inv_def)
  ultimately show "\<exists>m n. reach fetch m root h \<and> n > 0 \<and> reach fetch n h h" by blast
next
  assume c: "reach fetch m root h \<and> n > 0 \<and> reach fetch n h h"
  have loop: "reach fetch (k * n) h h" for k
  proof (induction k)
    case (Suc k)
    with c show ?case using reach_trans [of fetch n h h "k * n" h] by (simp add: add.commute)
  qed (simp add: reach.self)
  show "\<not> is_ok (tree_to_flat P root fetch)"
  proof
    assume "is_ok (tree_to_flat P root fetch)"
    then obtain files where "tree_to_flat P root fetch = Inr files" by (auto simp: is_ok_iff)
    from tree_to_flat_sound_below(2) [OF this reach_trans [OF conjunct1 [OF c] loop]]
    have "Suc max_tree_depth * n \<le> max_tree_depth" by (rule add_leD2)
    moreover have "Suc max_tree_depth * 1 \<le> Suc max_tree_depth * n"
      using c by (intro mult_le_mono2) simp
    ultimately have "Suc max_tree_depth * 1 \<le> max_tree_depth" by (rule le_trans [rotated])
    then show False by simp
  qed
qed

section \<open>Worked examples\<close>

text \<open>A root with a file and a directory that holds one file, and a directory that holds itself.\<close>

definition sample_store :: "string \<Rightarrow> tree option" where
  "sample_store = map_of
     [(sample_hash (CHR ''0''),
        \<lparr>entries = [\<lparr>te_name = ''a.txt'', te_kind = File, te_hash = sample_hash (CHR ''a''),
            te_size = 7, te_mode = 1\<rparr>,
          \<lparr>te_name = ''src'', te_kind = Dir, te_hash = sample_hash (CHR ''1''),
            te_size = 0, te_mode = 0\<rparr>]\<rparr>),
      (sample_hash (CHR ''1''),
        \<lparr>entries = [\<lparr>te_name = ''b.rs'', te_kind = File, te_hash = sample_hash (CHR ''b''),
            te_size = 9, te_mode = 0\<rparr>]\<rparr>),
      (sample_hash (CHR ''2''),
        \<lparr>entries = [\<lparr>te_name = ''loop'', te_kind = Dir, te_hash = sample_hash (CHR ''2''),
            te_size = 0, te_mode = 0\<rparr>]\<rparr>)]"

definition sample_flat :: "(string \<times> file_state) list" where
  "sample_flat =
     [(''a.txt'', \<lparr>fs_path = ''a.txt'', fs_hash = sample_hash (CHR ''a''), fs_size = 7, fs_mtime = 0,
        fs_deleted = False, fs_mode = 1\<rparr>),
      (''src/b.rs'', \<lparr>fs_path = ''src/b.rs'', fs_hash = sample_hash (CHR ''b''), fs_size = 9,
        fs_mtime = 0, fs_deleted = False, fs_mode = 0\<rparr>)]"

lemma sample_flattens: "tree_to_flat sample_prims (sample_hash (CHR ''0'')) sample_store = Inr sample_flat"
  by code_simp

theorem flatten_consistent_witness:
  "\<exists>st. flatten_run sample_prims sample_store [FEnter (sample_hash (CHR ''0'')) [] 0] flatten_start = Inr st
     \<and> ft_active st = {} \<and> ft_pending_path_bytes st = 0"
proof -
  obtain st where "flatten_run sample_prims sample_store [FEnter (sample_hash (CHR ''0'')) [] 0]
      flatten_start = Inr st"
    using sample_flattens by (auto simp: tree_to_flat_def rbind_eq_Inr)
  then show ?thesis
    using flatten_consistent [of sample_prims "sample_hash (CHR ''0'')" sample_store "[]" st] by blast
qed

theorem tree_to_flat_correct_witness:
  "distinct (map fst sample_flat)
   \<and> (\<exists>e. tree_leaf sample_store (sample_hash (CHR ''0'')) [''src'', ''b.rs''] e
         \<and> te_hash e = sample_hash (CHR ''b''))"
proof -
  note c = tree_to_flat_correct [OF sample_flattens]
  obtain cs e where l: "tree_leaf sample_store (sample_hash (CHR ''0'')) cs e"
    "''src/b.rs'' = join_all cs" "te_hash e = sample_hash (CHR ''b'')"
    using c [THEN conjunct2, rule_format, of "''src/b.rs''"
        "\<lparr>fs_path = ''src/b.rs'', fs_hash = sample_hash (CHR ''b''), fs_size = 9, fs_mtime = 0,
          fs_deleted = False, fs_mode = 0\<rparr>"]
    by (auto simp: sample_flat_def leaf_state_def)
  have "list_all (name_ok sample_prims) cs"
    by (rule leaf_names_ok [OF l(1) tree_to_flat_sound_below(1) [OF sample_flattens]])
  then have "split_on (CHR ''/'') (join_all cs) = cs"
    using tree_leaf_nonempty [OF l(1)] by (intro split_join) (auto simp: list_all_iff name_ok_def)
  then have "cs = [''src'', ''b.rs'']" unfolding l(2) [symmetric] by simp
  then show ?thesis using c l by blast
qed

theorem flatten_cycle_exact_witness:
  "tree_to_flat sample_prims (sample_hash (CHR ''2'')) sample_store
     = Inl (CycleAt (sample_hash (CHR ''2'')))
   \<and> (\<exists>m n. reach sample_store m (sample_hash (CHR ''2'')) (sample_hash (CHR ''2'')) \<and> n > 0
         \<and> reach sample_store n (sample_hash (CHR ''2'')) (sample_hash (CHR ''2'')))"
proof -
  have e: "tree_to_flat sample_prims (sample_hash (CHR ''2'')) sample_store
     = Inl (CycleAt (sample_hash (CHR ''2'')))" by code_simp
  show ?thesis
    using e flatten_cycle_exact [THEN conjunct1, rule_format, OF e] by blast
qed

end
