(* ===== verification/Ordered_Map.thy ===== *)
theory Ordered_Map
  imports Prelude
begin

text \<open>
  The \<^verbatim>\<open>BTreeMap\<close> of the Rust standard library, as an association list sorted by its keys:
  insertion, removal, update in place, and what they mean for lookup, for the order and for the
  set of entries.
\<close>

fun btree_insert :: "'k::linorder \<Rightarrow> 'v \<Rightarrow> ('k \<times> 'v) list \<Rightarrow> ('k \<times> 'v) list" where
  "btree_insert k v [] = [(k, v)]"
| "btree_insert k v ((k', v') # m) =
     (if k < k' then (k, v) # (k', v') # m
      else if k = k' then (k, v) # m
      else (k', v') # btree_insert k v m)"

definition btree_remove :: "'k \<Rightarrow> ('k \<times> 'v) list \<Rightarrow> ('k \<times> 'v) list" where
  "btree_remove k m = filter (\<lambda>(k', _). k' \<noteq> k) m"

abbreviation btree :: "('k::linorder \<times> 'v) list \<Rightarrow> bool" where
  "btree m \<equiv> sorted_wrt (<) (map fst m)"

lemma set_btree_insert: "fst ` set (btree_insert k v m) = insert k (fst ` set m)"
  by (induction m rule: btree_insert.induct) auto

lemma btree_insert_sorted: "btree m \<Longrightarrow> btree (btree_insert k v m)"
proof (induction k v m rule: btree_insert.induct)
  case (2 k v k' v' m)
  have "set (map fst (btree_insert k v m)) = insert k (set (map fst m))"
    using set_btree_insert [of k v m] by simp
  with 2 show ?case by (auto simp del: set_map)
qed simp

lemma btree_insert_lookup: "btree m \<Longrightarrow> map_of (btree_insert k v m) = (map_of m)(k \<mapsto> v)"
  by (induction k v m rule: btree_insert.induct) (auto simp: fun_eq_iff)

lemma btree_remove_lookup: "map_of (btree_remove k m) = (map_of m)(k := None)"
  unfolding btree_remove_def by (induction m) (auto simp: fun_eq_iff)

lemma btree_remove_sorted: "btree m \<Longrightarrow> btree (btree_remove k m)"
  unfolding btree_remove_def by (induction m) auto

lemma btree_distinct: "btree m \<Longrightarrow> distinct (map fst m)"
  by (simp add: strict_sorted_iff)

text \<open>\<^verbatim>\<open>get_mut\<close> followed by an assignment: the entry is changed where it is, if there is one.\<close>

definition btree_adjust :: "'k \<Rightarrow> ('v \<Rightarrow> 'v) \<Rightarrow> ('k \<times> 'v) list \<Rightarrow> ('k \<times> 'v) list" where
  "btree_adjust k f m = map (\<lambda>(k', v). (k', if k' = k then f v else v)) m"

lemma btree_adjust_keys [simp]: "map fst (btree_adjust k f m) = map fst m"
  by (induction m) (auto simp: btree_adjust_def)

lemma btree_adjust_lookup: "map_of (btree_adjust k f m) k' = (if k' = k then map_option f (map_of m k) else map_of m k')"
  by (induction m) (auto simp: btree_adjust_def)

lemma length_btree_adjust [simp]: "length (btree_adjust k f m) = length m"
  by (simp add: btree_adjust_def)

lemma set_btree_insert_pairs: "set (btree_insert k v m) \<subseteq> insert (k, v) (set m)"
  by (induction m rule: btree_insert.induct) auto

lemma set_btree_remove: "set (btree_remove k m) = {(k', v) \<in> set m. k' \<noteq> k}"
  by (auto simp: btree_remove_def)

text \<open>Collecting pairs into a map: later entries replace earlier ones.\<close>

definition btree_collect :: "('k::linorder \<times> 'v) list \<Rightarrow> ('k \<times> 'v) list" where
  "btree_collect kvs = fold (\<lambda>(k, v). btree_insert k v) kvs []"

lemma fold_btree_sorted: "btree m \<Longrightarrow> btree (fold (\<lambda>(k, v). btree_insert k v) kvs m)"
  by (induction kvs arbitrary: m) (auto simp: btree_insert_sorted)

lemma btree_collect_sorted: "btree (btree_collect kvs)"
  by (simp add: btree_collect_def fold_btree_sorted)

lemma btree_insert_last:
  "(\<And>x. x \<in> fst ` set m \<Longrightarrow> x < k) \<Longrightarrow> btree_insert k v m = m @ [(k, v)]"
proof (induction k v m rule: btree_insert.induct)
  case (2 k v k' v' m)
  from 2(2) [of k'] have "\<not> k < k'" "k \<noteq> k'" by auto
  with 2 show ?case by simp
qed simp

lemma fold_btree_ordered:
  "btree (m @ kvs) \<Longrightarrow> fold (\<lambda>(k, v). btree_insert k v) kvs m = m @ kvs"
proof (induction kvs arbitrary: m)
  case (Cons kv kvs)
  obtain k v where kv: "kv = (k, v)" by force
  from Cons.prems kv have "btree_insert k v m = m @ [(k, v)]"
    by (intro btree_insert_last) (auto simp: sorted_wrt_append)
  with Cons.IH [of "m @ [(k, v)]"] Cons.prems kv show ?case by simp
qed simp

text \<open>Collecting the entries of an ordered map gives the map back.\<close>

lemma btree_collect_ordered: "btree m \<Longrightarrow> btree_collect m = m"
  by (simp add: btree_collect_def fold_btree_ordered)

end
