(* ===== verification/Tree_Build.thy ===== *)
theory Tree_Build
  imports Tree_Flatten Ordered_Map
begin

text \<open>
  \<^verbatim>\<open>flat_to_tree_with_conflicts\<close> of \<^verbatim>\<open>common/src/tree_convert.rs\<close>: the arena of directory nodes, the
  insertion of files and first-class conflicts, the build budget and the bottom-up construction
  of canonical trees. The theorems show that the bundle built from a flat map has exactly the
  live files and conflicts as its leaves, and that expanding it gives the live files back.

  A \<^verbatim>\<open>HashMap\<close> argument is an association list with distinct keys in any order, the order in which
  the loop visits it; a \<^verbatim>\<open>BTreeMap\<close> is a list sorted by key.
\<close>

section \<open>Nodes and budget\<close>

record node =
  nd_files :: "(string \<times> file_state) list"
  nd_conflicts :: "(string \<times> tree_entry) list"
  nd_directories :: "(string \<times> nat) list"

definition node_default :: node where
  "node_default = \<lparr>nd_files = [], nd_conflicts = [], nd_directories = []\<rparr>"

record tree_budget =
  tb_work_items :: nat
  tb_objects :: nat
  tb_output_paths :: nat
  tb_path_bytes :: nat

definition tree_budget_new :: tree_budget where
  "tree_budget_new = \<lparr>tb_work_items = 1, tb_objects = 1, tb_output_paths = 0, tb_path_bytes = 0\<rparr>"

definition add_work :: "nat \<Rightarrow> tree_budget \<Rightarrow> tree_error + tree_budget" where
  "add_work amount b =
     rbind (charge max_tree_work_items TooManyWorkItems amount (tb_work_items b)) (\<lambda>n.
     Inr (b\<lparr>tb_work_items := n\<rparr>))"

definition add_directory :: "tree_budget \<Rightarrow> tree_error + tree_budget" where
  "add_directory b =
     rbind (charge max_tree_objects TooManyObjects 1 (tb_objects b)) (\<lambda>n.
     add_work 1 (b\<lparr>tb_objects := n\<rparr>))"

definition add_output :: "tree_budget \<Rightarrow> tree_error + tree_budget" where
  "add_output b =
     rbind (charge max_tree_output_paths TooManyOutputPaths 1 (tb_output_paths b)) (\<lambda>n.
     add_work 1 (b\<lparr>tb_output_paths := n\<rparr>))"

definition add_path :: "string \<Rightarrow> tree_budget \<Rightarrow> tree_error + tree_budget" where
  "add_path path b =
     rbind (charge max_tree_path_bytes_total PathBytesExceeded (length path) (tb_path_bytes b)) (\<lambda>n.
     Inr (b\<lparr>tb_path_bytes := n\<rparr>))"

section \<open>Insertion\<close>

type_synonym arena = "node list \<times> tree_budget"

definition get_node :: "node list \<Rightarrow> nat \<Rightarrow> tree_error + node" where
  "get_node nodes i = (if i < length nodes then Inr (nodes ! i) else Inl NodeDisappeared)"

definition has_key :: "(string \<times> 'v) list \<Rightarrow> string \<Rightarrow> bool" where
  "has_key m k = (map_of m k \<noteq> None)"

text \<open>
  The branch of both insertion loops for a component that is not the last: the index of the
  child directory, which is created when it is missing.
\<close>

definition descend :: "string \<Rightarrow> string \<Rightarrow> nat \<Rightarrow> arena \<Rightarrow> tree_error + (nat \<times> arena)" where
  "descend path part i ar =
     (let (nodes, budget) = ar in
      rbind (get_node nodes i) (\<lambda>nd.
      if has_key (nd_files nd) part \<or> has_key (nd_conflicts nd) part then Inl (TraversesFile path)
      else (case map_of (nd_directories nd) part of
         Some child \<Rightarrow> Inr (child, nodes, budget)
       | None \<Rightarrow>
          rbind (add_directory budget) (\<lambda>budget.
          Inr (length nodes,
               (nodes @ [node_default])
                 [i := nd\<lparr>nd_directories := btree_insert part (length nodes) (nd_directories nd)\<rparr>],
               budget)))))"

fun insert_state_parts :: "file_state \<Rightarrow> string list \<Rightarrow> nat \<Rightarrow> arena \<Rightarrow> tree_error + arena" where
  "insert_state_parts st [] i ar = Inr ar"
| "insert_state_parts st [part] i (nodes, budget) =
     rbind (get_node nodes i) (\<lambda>nd.
     if has_key (nd_directories nd) part \<or> has_key (nd_conflicts nd) part
     then Inl (PathCollision (fs_path st))
     else
       rbind (if has_key (nd_files nd) part then Inr budget else add_output budget) (\<lambda>budget.
       Inr (nodes[i := nd\<lparr>nd_files := btree_insert part st (nd_files nd)\<rparr>], budget)))"
| "insert_state_parts st (part # part' # parts) i ar =
     rbind (descend (fs_path st) part i ar) (\<lambda>(child, ar).
     insert_state_parts st (part' # parts) child ar)"

definition insert_state :: "prims \<Rightarrow> file_state \<Rightarrow> arena \<Rightarrow> tree_error + arena" where
  "insert_state P st ar =
     rbind (validate_path P (fs_path st)) (\<lambda>_.
     if fs_mode st \<noteq> 0 \<and> fs_mode st \<noteq> executable_mode
     then Inl (InvalidPortableMode (fs_mode st) (fs_path st))
     else insert_state_parts st (split_on (CHR ''/'') (fs_path st)) 0 ar)"

definition live :: "file_state option \<Rightarrow> file_state option" where
  "live st = (case st of Some s \<Rightarrow> (if fs_deleted s then None else Some s) | None \<Rightarrow> None)"

definition live_mode :: "file_state option \<Rightarrow> u32" where
  "live_mode st = (case live st of Some s \<Rightarrow> fs_mode s | None \<Rightarrow> 0)"

definition live_hash :: "file_state option \<Rightarrow> string option" where
  "live_hash st = map_option fs_hash (live st)"

fun insert_conflict_parts ::
  "string \<Rightarrow> tree_entry \<Rightarrow> string list \<Rightarrow> nat \<Rightarrow> arena \<Rightarrow> tree_error + arena" where
  "insert_conflict_parts path entry [] i ar = Inr ar"
| "insert_conflict_parts path entry [part] i (nodes, budget) =
     rbind (get_node nodes i) (\<lambda>nd.
     if has_key (nd_directories nd) part \<or> has_key (nd_conflicts nd) part
     then Inl (PathCollision path)
     else
       rbind (if has_key (nd_files nd) part then Inr budget else add_output budget) (\<lambda>budget.
       Inr (nodes[i := nd\<lparr>nd_files := btree_remove part (nd_files nd),
                        nd_conflicts := btree_insert part (entry\<lparr>te_name := part\<rparr>) (nd_conflicts nd)\<rparr>],
            budget)))"
| "insert_conflict_parts path entry (part # part' # parts) i ar =
     rbind (descend path part i ar) (\<lambda>(child, ar).
     insert_conflict_parts path entry (part' # parts) child ar)"

definition conflict_representative :: "concurrent_edit \<Rightarrow> file_state option" where
  "conflict_representative c = or_else (live (ce_theirs c)) (or_else (live (ce_ours c)) (live (ce_base c)))"

definition conflict_entry :: "concurrent_edit \<Rightarrow> file_state \<Rightarrow> tree_entry" where
  "conflict_entry c representative =
     \<lparr>te_name = [],
      te_kind = Conflict (live_hash (ce_base c)) (live_hash (ce_ours c)) (live_hash (ce_theirs c))
        \<lparr>cm_base = live_mode (ce_base c), cm_ours = live_mode (ce_ours c),
         cm_theirs = live_mode (ce_theirs c)\<rparr>,
      te_hash = fs_hash representative, te_size = fs_size representative,
      te_mode = fs_mode representative\<rparr>"

definition insert_conflict :: "prims \<Rightarrow> concurrent_edit \<Rightarrow> arena \<Rightarrow> tree_error + arena" where
  "insert_conflict P c ar =
     rbind (validate_path P (ce_path c)) (\<lambda>_.
     rbind (for_each (\<lambda>leg. ensure (fs_path leg = ce_path c) (LegPathMismatch (ce_path c) (fs_path leg)))
              (option_list (ce_base c) @ option_list (ce_ours c) @ option_list (ce_theirs c))) (\<lambda>_.
     rbind (ok_or (conflict_representative c) NoContentLeg) (\<lambda>representative.
     insert_conflict_parts (ce_path c) (conflict_entry c representative)
       (split_on (CHR ''/'') (ce_path c)) 0 ar)))"

section \<open>Bottom-up construction\<close>

definition file_entry :: "string \<Rightarrow> file_state \<Rightarrow> tree_entry" where
  "file_entry name st =
     \<lparr>te_name = name, te_kind = File, te_hash = fs_hash st, te_size = fs_size st, te_mode = fs_mode st\<rparr>"

definition dir_entry :: "string \<Rightarrow> string \<Rightarrow> tree_entry" where
  "dir_entry name hash = \<lparr>te_name = name, te_kind = Dir, te_hash = hash, te_size = 0, te_mode = 0\<rparr>"

definition lookup_hash :: "string option list \<Rightarrow> nat \<Rightarrow> string option" where
  "lookup_hash hashes i = (if i < length hashes then hashes ! i else None)"

definition push_directory ::
  "string option list \<Rightarrow> string \<times> nat \<Rightarrow> tree_entry list \<Rightarrow> tree_error + tree_entry list" where
  "push_directory hashes d es =
     rbind (ok_or (lookup_hash hashes (snd d)) ChildNotBuilt) (\<lambda>hash.
     Inr (es @ [dir_entry (fst d) hash]))"

definition node_tree :: "string option list \<Rightarrow> node \<Rightarrow> tree_error + tree" where
  "node_tree hashes nd =
     rbind (fold_result (push_directory hashes) (nd_directories nd)
              (map (\<lambda>(name, st). file_entry name st) (nd_files nd) @ map snd (nd_conflicts nd))) (\<lambda>es.
     Inr \<lparr>entries = sort_key te_name es\<rparr>)"

text \<open>\<^verbatim>\<open>while let Some(node) = nodes.pop()\<close>, on the reversed arena.\<close>

fun build_nodes ::
  "prims \<Rightarrow> node list \<Rightarrow> string option list \<Rightarrow> (string \<times> tree) list
     \<Rightarrow> tree_error + (string option list \<times> (string \<times> tree) list)" where
  "build_nodes P [] hashes trees = Inr (hashes, trees)"
| "build_nodes P (nd # rest) hashes trees =
     rbind (node_tree hashes nd) (\<lambda>t.
     rbind (map_err InvalidTree (validate_tree P t)) (\<lambda>_.
     build_nodes P rest (hashes[length rest := Some (tree_id P t)])
       (AList.update (tree_id P t) t trees)))"

record tree_bundle =
  tb_root :: string
  tb_trees :: "(string \<times> tree) list"

definition build_node :: "prims \<Rightarrow> node list \<Rightarrow> tree_error + tree_bundle" where
  "build_node P nodes =
     rbind (build_nodes P (rev nodes) (replicate (length nodes) None) []) (\<lambda>(hashes, trees).
     rbind (ok_or (lookup_hash hashes 0) RootNotBuilt) (\<lambda>root.
     Inr \<lparr>tb_root = root, tb_trees = trees\<rparr>))"

definition insert_file :: "prims \<Rightarrow> string \<times> file_state \<Rightarrow> arena \<Rightarrow> tree_error + arena" where
  "insert_file P kv ar =
     (let (path, st) = kv; (nodes, budget) = ar in
      if path \<noteq> fs_path st then Inl (KeyMismatch path (fs_path st))
      else
        rbind (validate_path P (fs_path st)) (\<lambda>_.
        if fs_deleted st then Inr ar
        else
          rbind (add_path (fs_path st) budget) (\<lambda>budget.
          rbind (add_work (length (split_on (CHR ''/'') (fs_path st))) budget) (\<lambda>budget.
          insert_state P st (nodes, budget)))))"

definition overlay_conflict :: "prims \<Rightarrow> concurrent_edit \<Rightarrow> arena \<Rightarrow> tree_error + arena" where
  "overlay_conflict P c ar =
     (let (nodes, budget) = ar in
      rbind (add_path (ce_path c) budget) (\<lambda>budget.
      rbind (add_work (length (split_on (CHR ''/'') (ce_path c))) budget) (\<lambda>budget.
      insert_conflict P c (nodes, budget))))"

definition collect_nodes ::
  "prims \<Rightarrow> (string \<times> file_state) list \<Rightarrow> concurrent_edit list \<Rightarrow> tree_error + arena" where
  "collect_nodes P files conflicts =
     rbind (fold_result (insert_file P) files ([node_default], tree_budget_new)) (\<lambda>ar.
     fold_result (overlay_conflict P) conflicts ar)"

definition flat_to_tree_with_conflicts ::
  "prims \<Rightarrow> (string \<times> file_state) list \<Rightarrow> concurrent_edit list \<Rightarrow> tree_error + tree_bundle" where
  "flat_to_tree_with_conflicts P files conflicts =
     rbind (collect_nodes P files conflicts) (\<lambda>(nodes, budget). build_node P nodes)"

definition flat_to_tree :: "prims \<Rightarrow> (string \<times> file_state) list \<Rightarrow> tree_error + tree_bundle" where
  "flat_to_tree P files = flat_to_tree_with_conflicts P files []"

section \<open>The arena as a map from component lists to entries\<close>

fun walk :: "node list \<Rightarrow> nat \<Rightarrow> string list \<Rightarrow> nat option" where
  "walk nodes i [] = Some i"
| "walk nodes i (c # cs) =
     (case map_of (nd_directories (nodes ! i)) c of None \<Rightarrow> None | Some j \<Rightarrow> walk nodes j cs)"

definition content :: "node \<Rightarrow> string \<Rightarrow> tree_entry option" where
  "content nd c =
     (case map_of (nd_files nd) c of Some st \<Rightarrow> Some (file_entry c st) | None \<Rightarrow> map_of (nd_conflicts nd) c)"

definition arena_at :: "node list \<Rightarrow> nat \<Rightarrow> string list \<Rightarrow> tree_entry option" where
  "arena_at nodes i cs =
     (if cs = [] then None
      else Option.bind (walk nodes i (butlast cs)) (\<lambda>j. content (nodes ! j) (last cs)))"

abbreviation arena_abs :: "node list \<Rightarrow> string list \<rightharpoonup> tree_entry" where
  "arena_abs nodes \<equiv> arena_at nodes 0"

definition node_ok :: "node \<Rightarrow> bool" where
  "node_ok nd \<longleftrightarrow>
     btree (nd_files nd) \<and> btree (nd_conflicts nd) \<and> btree (nd_directories nd)
     \<and> dom (map_of (nd_files nd)) \<inter> dom (map_of (nd_conflicts nd)) = {}
     \<and> (dom (map_of (nd_files nd)) \<union> dom (map_of (nd_conflicts nd))) \<inter> dom (map_of (nd_directories nd)) = {}
     \<and> (\<forall>c e. map_of (nd_conflicts nd) c = Some e \<longrightarrow> te_name e = c \<and> \<not> is_dir e)"

definition node_nonempty :: "node \<Rightarrow> bool" where
  "node_nonempty nd \<longleftrightarrow> nd_files nd \<noteq> [] \<or> nd_conflicts nd \<noteq> [] \<or> nd_directories nd \<noteq> []"

text \<open>
  The arena is a tree rooted at node 0 whose children have larger indices; no node but the
  root and the one being filled is empty.
\<close>

definition children_ok :: "node list \<Rightarrow> bool" where
  "children_ok nodes \<longleftrightarrow> (\<forall>i<length nodes. \<forall>c j. map_of (nd_directories (nodes ! i)) c = Some j
     \<longrightarrow> i < j \<and> j < length nodes)"

definition one_path :: "node list \<Rightarrow> bool" where
  "one_path nodes \<longleftrightarrow> (\<forall>cs ds i. walk nodes 0 cs = Some i \<longrightarrow> walk nodes 0 ds = Some i \<longrightarrow> cs = ds)"

definition filled :: "nat \<Rightarrow> node list \<Rightarrow> bool" where
  "filled cur nodes \<longleftrightarrow> (\<forall>i<length nodes. i \<noteq> 0 \<longrightarrow> i \<noteq> cur \<longrightarrow> node_nonempty (nodes ! i))"

definition arena_inv :: "nat \<Rightarrow> node list \<Rightarrow> bool" where
  "arena_inv cur nodes \<longleftrightarrow>
     0 < length nodes \<and> (\<forall>nd\<in>set nodes. node_ok nd) \<and> children_ok nodes \<and> one_path nodes \<and> filled cur nodes"

lemma walk_snoc:
  "walk nodes i (cs @ [c]) = Option.bind (walk nodes i cs) (\<lambda>j. map_of (nd_directories (nodes ! j)) c)"
  by (induction cs arbitrary: i) (auto split: option.split)

lemma arena_at_snoc:
  "arena_at nodes i (cs @ [c]) = Option.bind (walk nodes i cs) (\<lambda>j. content (nodes ! j) c)"
  by (simp add: arena_at_def)

lemma arena_at_Cons:
  "arena_at nodes i (c # cs) =
     (if cs = [] then content (nodes ! i) c
      else Option.bind (map_of (nd_directories (nodes ! i)) c) (\<lambda>j. arena_at nodes j cs))"
  by (auto simp: arena_at_def split: option.split)

lemma arena_at_Nil [simp]: "arena_at nodes i [] = None"
  by (simp add: arena_at_def)

lemma arena_invD:
  assumes "arena_inv cur nodes"
  shows "0 < length nodes" and "i < length nodes \<Longrightarrow> node_ok (nodes ! i)"
    and "i < length nodes \<Longrightarrow> map_of (nd_directories (nodes ! i)) c = Some j \<Longrightarrow> i < j \<and> j < length nodes"
    and "walk nodes 0 cs = Some i \<Longrightarrow> walk nodes 0 ds = Some i \<Longrightarrow> cs = ds"
    and "i < length nodes \<Longrightarrow> i \<noteq> 0 \<Longrightarrow> i \<noteq> cur \<Longrightarrow> node_nonempty (nodes ! i)"
proof -
  from assms have inv: "0 < length nodes" "\<forall>nd\<in>set nodes. node_ok nd" "children_ok nodes" "one_path nodes"
      "filled cur nodes"
    by (simp_all add: arena_inv_def)
  show "0 < length nodes" by (rule inv(1))
  show "i < length nodes \<Longrightarrow> node_ok (nodes ! i)" using inv(2) nth_mem by blast
  show "i < length nodes \<Longrightarrow> map_of (nd_directories (nodes ! i)) c = Some j \<Longrightarrow> i < j \<and> j < length nodes"
    using inv(3) unfolding children_ok_def by blast
  show "walk nodes 0 cs = Some i \<Longrightarrow> walk nodes 0 ds = Some i \<Longrightarrow> cs = ds"
    using inv(4) unfolding one_path_def by blast
  show "i < length nodes \<Longrightarrow> i \<noteq> 0 \<Longrightarrow> i \<noteq> cur \<Longrightarrow> node_nonempty (nodes ! i)"
    using inv(5) unfolding filled_def by blast
qed

lemma walk_bound:
  assumes inv: "arena_inv cur nodes" and "walk nodes i cs = Some j" "i < length nodes"
  shows "j < length nodes"
  using assms(2,3)
proof (induction cs arbitrary: i)
  case (Cons c cs)
  then obtain k where "map_of (nd_directories (nodes ! i)) c = Some k" "walk nodes k cs = Some j"
    by (auto split: option.splits)
  with Cons arena_invD(3) [OF inv] show ?case by blast
qed simp

lemma walk_root_bound: "arena_inv cur nodes \<Longrightarrow> walk nodes 0 cs = Some j \<Longrightarrow> j < length nodes"
  using walk_bound arena_invD(1) by blast

lemma arena_ext:
  assumes "\<And>cs c. m (cs @ [c]) = m' (cs @ [c])" "m [] = m' []"
  shows "m = m'"
proof
  fix xs show "m xs = m' xs" using assms by (cases xs rule: rev_cases) auto
qed

section \<open>Creating a directory\<close>

abbreviation new_dir :: "node list \<Rightarrow> nat \<Rightarrow> string \<Rightarrow> node list" where
  "new_dir nodes i c \<equiv> (nodes @ [node_default])
     [i := (nodes ! i)\<lparr>nd_directories := btree_insert c (length nodes) (nd_directories (nodes ! i))\<rparr>]"

lemma new_dir_dirs:
  assumes "i < length nodes" and "btree (nd_directories (nodes ! i))" and "j \<le> length nodes"
  shows "map_of (nd_directories (new_dir nodes i c ! j)) d =
    (if j = i \<and> d = c then Some (length nodes) else if j = length nodes then None
     else map_of (nd_directories (nodes ! j)) d)"
  using assms by (auto simp: nth_list_update nth_append node_default_def btree_insert_lookup)

lemma walk_new_dir:
  assumes inv: "arena_inv i nodes" and i: "walk nodes 0 pre = Some i"
    and none: "map_of (nd_directories (nodes ! i)) c = None"
  shows "walk (new_dir nodes i c) 0 cs = Some k \<longleftrightarrow>
    walk nodes 0 cs = Some k \<or> k = length nodes \<and> cs = pre @ [c]"
proof (induction cs arbitrary: k rule: rev_induct)
  case Nil
  then show ?case by simp
next
  case (snoc d cs)
  have ib: "i < length nodes" by (rule walk_root_bound [OF inv i])
  have bt: "btree (nd_directories (nodes ! i))" using arena_invD(2) [OF inv ib] by (simp add: node_ok_def)
  note dirs = new_dir_dirs [OF ib bt, of _ c d]
  let ?step = "\<lambda>j. map_of (nd_directories (new_dir nodes i c ! j)) d = Some k"
  have "walk (new_dir nodes i c) 0 (cs @ [d]) = Some k \<longleftrightarrow>
      (\<exists>j. (walk nodes 0 cs = Some j \<or> j = length nodes \<and> cs = pre @ [c]) \<and> ?step j)"
    by (simp only: walk_snoc bind_eq_Some_conv snoc.IH)
  also have "\<dots> \<longleftrightarrow> (\<exists>j. walk nodes 0 cs = Some j \<and> ?step j)"
    using dirs [of "length nodes"] ib by auto
  also have "\<dots> \<longleftrightarrow> (\<exists>j. walk nodes 0 cs = Some j
      \<and> (if j = i \<and> d = c then k = length nodes else map_of (nd_directories (nodes ! j)) d = Some k))"
    using walk_root_bound [OF inv, of cs] dirs by (intro ex_cong conj_cong refl) auto
  also have "\<dots> \<longleftrightarrow> walk nodes 0 (cs @ [d]) = Some k \<or> k = length nodes \<and> cs @ [d] = pre @ [c]"
    using i none arena_invD(4) [OF inv, of cs i pre]
    by (cases "walk nodes 0 cs") (auto simp: walk_snoc)
  finally show ?case .
qed

lemma content_default [simp]: "content node_default c = None"
  by (simp add: content_def node_default_def)

lemma node_ok_default [simp]: "node_ok node_default"
  by (simp add: node_ok_def node_default_def)

lemma new_dir_nth:
  "i < length nodes \<Longrightarrow> new_dir nodes i c ! j =
     (if j = i then (nodes ! i)\<lparr>nd_directories := btree_insert c (length nodes) (nd_directories (nodes ! i))\<rparr>
      else if j < length nodes then nodes ! j else (nodes @ [node_default]) ! j)"
  by (simp add: nth_list_update nth_append)

lemma new_dir_content:
  "i < length nodes \<Longrightarrow> j < length nodes \<Longrightarrow> content (new_dir nodes i c ! j) = content (nodes ! j)"
  by (simp add: new_dir_nth content_def fun_eq_iff del: nth_list_update_eq nth_list_update_neq
      cong: option.case_cong)

lemma new_dir_node_ok:
  assumes "node_ok nd" "content nd c = None"
  shows "node_ok (nd\<lparr>nd_directories := btree_insert c k (nd_directories nd)\<rparr>)"
  using assms
  by (auto simp: node_ok_def content_def btree_insert_sorted btree_insert_lookup split: option.splits)

lemma btree_insert_nonempty [simp]: "btree_insert k v m \<noteq> []"
  by (cases m rule: list.exhaust; cases "hd m") auto

lemma new_dir_inv:
  assumes inv: "arena_inv i nodes" and i: "walk nodes 0 pre = Some i"
    and none: "map_of (nd_directories (nodes ! i)) c = None" and nc: "content (nodes ! i) c = None"
  shows "arena_inv (length nodes) (new_dir nodes i c)"
  unfolding arena_inv_def
proof (intro conjI)
  have ib: "i < length nodes" by (rule walk_root_bound [OF inv i])
  have bt: "btree (nd_directories (nodes ! i))" using arena_invD(2) [OF inv ib] by (simp add: node_ok_def)
  note dirs = new_dir_dirs [OF ib bt]
  show "0 < length (new_dir nodes i c)" by simp
  show "\<forall>nd\<in>set (new_dir nodes i c). node_ok nd"
    using arena_invD(2) [OF inv] new_dir_node_ok [OF arena_invD(2) [OF inv ib] nc]
    using ib by (auto simp: in_set_conv_nth nth_list_update nth_append less_Suc_eq)
  show "children_ok (new_dir nodes i c)"
    unfolding children_ok_def
  proof (intro allI impI)
    fix j d k
    assume "j < length (new_dir nodes i c)" "map_of (nd_directories (new_dir nodes i c ! j)) d = Some k"
    then show "j < k \<and> k < length (new_dir nodes i c)"
      using dirs [of j c d] arena_invD(3) [OF inv, of j d k] ib
      by (auto simp: less_Suc_eq_le split: if_splits)
  qed
  show "one_path (new_dir nodes i c)"
    unfolding one_path_def walk_new_dir [OF inv i none]
    using arena_invD(4) [OF inv] walk_root_bound [OF inv] by (metis less_irrefl)
  show "filled (length nodes) (new_dir nodes i c)"
    unfolding filled_def
  proof (intro allI impI)
    fix j
    assume "j < length (new_dir nodes i c)" "j \<noteq> 0" "j \<noteq> length nodes"
    then show "node_nonempty (new_dir nodes i c ! j)"
      using arena_invD(5) [OF inv, of j] ib
      by (cases "j = i") (auto simp: new_dir_nth nth_append node_nonempty_def)
  qed
qed

lemma new_dir_abs:
  assumes inv: "arena_inv i nodes" and i: "walk nodes 0 pre = Some i"
    and none: "map_of (nd_directories (nodes ! i)) c = None"
  shows "arena_abs (new_dir nodes i c) = arena_abs nodes"
proof (rule arena_ext)
  fix cs d
  have ib: "i < length nodes" by (rule walk_root_bound [OF inv i])
  have new: "content (new_dir nodes i c ! length nodes) d = None" using ib by (simp add: nth_list_update nth_append)
  have "arena_abs (new_dir nodes i c) (cs @ [d]) = Some x \<longleftrightarrow> arena_abs nodes (cs @ [d]) = Some x" for x
    unfolding arena_at_snoc bind_eq_Some_conv walk_new_dir [OF inv i none]
    using new new_dir_content [OF ib, of _ c] walk_root_bound [OF inv, of cs] by auto
  then show "arena_abs (new_dir nodes i c) (cs @ [d]) = arena_abs nodes (cs @ [d])"
    by (metis option.exhaust)
qed simp

lemma descend_correct:
  assumes "descend path c i (nodes, b) = Inr (j, nodes', b')"
    and inv: "arena_inv i nodes" and i: "walk nodes 0 pre = Some i"
  shows "arena_inv j nodes' \<and> walk nodes' 0 (pre @ [c]) = Some j \<and> arena_abs nodes' = arena_abs nodes"
proof -
  have ib: "i < length nodes" by (rule walk_root_bound [OF inv i])
  show ?thesis
  proof (cases "map_of (nd_directories (nodes ! i)) c")
    case None
    with assms(1) ib have eqs: "j = length nodes" "nodes' = new_dir nodes i c"
        "content (nodes ! i) c = None"
      by (auto simp: descend_def get_node_def rbind_eq_Inr has_key_def content_def split: if_splits)
    then show ?thesis
      using new_dir_inv [OF inv i None] new_dir_abs [OF inv i None]
        walk_new_dir [OF inv i None, of "pre @ [c]" "length nodes"] by simp
  next
    case (Some k)
    with assms(1) ib have eqs: "j = k" "nodes' = nodes"
      by (auto simp: descend_def get_node_def split: if_splits)
    have "node_nonempty (nodes ! i)" using Some by (auto simp: node_nonempty_def)
    then have "filled j nodes" using arena_invD(5) [OF inv] unfolding filled_def by metis
    then show ?thesis using inv i Some eqs by (simp add: arena_inv_def walk_snoc)
  qed
qed

section \<open>Filling a node\<close>

text \<open>\<open>put_node nd c x nd'\<close>: \<open>nd'\<close> is \<open>nd\<close> with the leaf \<open>x\<close> under the name \<open>c\<close>.\<close>

definition put_node :: "node \<Rightarrow> string \<Rightarrow> tree_entry \<Rightarrow> node \<Rightarrow> bool" where
  "put_node nd c x nd' \<longleftrightarrow>
     nd_directories nd' = nd_directories nd \<and> content nd' = (content nd)(c \<mapsto> x)
     \<and> node_ok nd' \<and> node_nonempty nd'"

lemma walk_same_dirs:
  assumes "\<And>j. nd_directories (nodes' ! j) = nd_directories (nodes ! j)"
  shows "walk nodes' i cs = walk nodes i cs"
  by (induction cs arbitrary: i) (auto simp: assms split: option.split)

lemma put_node_correct:
  assumes inv: "arena_inv i nodes" and i: "walk nodes 0 pre = Some i"
    and put: "put_node (nodes ! i) c x nd'"
  shows "arena_inv 0 (nodes[i := nd'])" and "arena_abs (nodes[i := nd']) = (arena_abs nodes)(pre @ [c] \<mapsto> x)"
proof -
  have ib: "i < length nodes" by (rule walk_root_bound [OF inv i])
  have dirs: "nd_directories (nodes[i := nd'] ! j) = nd_directories (nodes ! j)" for j
    using put ib by (cases "j = i") (auto simp: put_node_def)
  note w = walk_same_dirs [of "nodes[i := nd']" nodes, OF dirs]
  have "children_ok (nodes[i := nd'])" "one_path (nodes[i := nd'])"
    using inv unfolding arena_inv_def children_ok_def one_path_def dirs w length_list_update by blast+
  moreover have "filled 0 (nodes[i := nd'])"
    using arena_invD(5) [OF inv] put ib unfolding filled_def
    by (auto simp: nth_list_update put_node_def)
  moreover have "\<forall>nd\<in>set (nodes[i := nd']). node_ok nd"
    using inv put by (auto simp: arena_inv_def put_node_def dest: set_update_subset_insert [THEN subsetD])
  ultimately show "arena_inv 0 (nodes[i := nd'])" using ib by (auto simp: arena_inv_def)
  show "arena_abs (nodes[i := nd']) = (arena_abs nodes)(pre @ [c] \<mapsto> x)"
  proof (rule arena_ext)
    fix cs d
    show "arena_abs (nodes[i := nd']) (cs @ [d]) = ((arena_abs nodes)(pre @ [c] \<mapsto> x)) (cs @ [d])"
    proof (cases "walk nodes 0 cs")
      case None
      then show ?thesis using i by (auto simp: arena_at_snoc w)
    next
      case (Some j)
      have "j = i \<longleftrightarrow> cs = pre" using Some i arena_invD(4) [OF inv, of cs i pre] by auto
      then show ?thesis using Some ib put by (auto simp: arena_at_snoc w put_node_def)
    qed
  qed simp
qed

text \<open>
  The interface of the two insertion loops: how they treat the last component and the others.
  What a whole insertion does to the arena, seen as a map, is proved once from it.
\<close>

locale arena_insertion =
  fixes ins :: "string list \<Rightarrow> nat \<Rightarrow> arena \<Rightarrow> tree_error + arena"
    and leaf :: "string \<Rightarrow> tree_entry"
    and path :: string
  assumes ins_last: "node_ok (nodes ! i) \<Longrightarrow> i < length nodes \<Longrightarrow> ins [c] i (nodes, b) = Inr (nodes', b') \<Longrightarrow>
      \<exists>nd'. nodes' = nodes[i := nd'] \<and> put_node (nodes ! i) c (leaf c) nd'"
    and ins_step: "ins (c # c' # cs) i ar = rbind (descend path c i ar) (\<lambda>(j, ar). ins (c' # cs) j ar)"
begin

lemma insert_at:
  assumes "ins cs i (nodes, b) = Inr (nodes', b')" and "cs \<noteq> []"
    and "arena_inv i nodes" and "walk nodes 0 pre = Some i"
  shows "arena_inv 0 nodes' \<and> arena_abs nodes' = (arena_abs nodes)(pre @ cs \<mapsto> leaf (last cs))"
  using assms
proof (induction cs arbitrary: i nodes b pre rule: induct_list012)
  case (2 c)
  have ib: "i < length nodes" by (rule walk_root_bound [OF 2(3,4)])
  from ins_last [OF arena_invD(2) [OF 2(3) ib] ib 2(1)] obtain nd' where
    "nodes' = nodes[i := nd']" "put_node (nodes ! i) c (leaf c) nd'" by blast
  with put_node_correct [OF 2(3,4)] show ?case by simp
next
  case (3 c c' cs)
  from 3(3) obtain j n b1 where d: "descend path c i (nodes, b) = Inr (j, n, b1)"
    and rest: "ins (c' # cs) j (n, b1) = Inr (nodes', b')"
    by (auto simp: ins_step rbind_eq_Inr)
  from descend_correct [OF d 3(5,6)] 3(2) [OF rest, of "pre @ [c]"] show ?case by simp
qed simp

lemma insert_root:
  assumes "ins cs 0 (nodes, b) = Inr (nodes', b')" and "cs \<noteq> []" and "arena_inv 0 nodes"
  shows "arena_inv 0 nodes' \<and> arena_abs nodes' = (arena_abs nodes)(cs \<mapsto> leaf (last cs))"
  using insert_at [OF assms, of "[]"] by simp

end

lemma put_file:
  assumes "node_ok nd" "map_of (nd_directories nd) c = None" "map_of (nd_conflicts nd) c = None"
  shows "put_node nd c (file_entry c st) (nd\<lparr>nd_files := btree_insert c st (nd_files nd)\<rparr>)"
  using assms
  by (auto simp: put_node_def node_ok_def content_def fun_eq_iff node_nonempty_def btree_insert_sorted
      btree_insert_lookup split: option.split)

lemma put_conflict:
  assumes "node_ok nd" "map_of (nd_directories nd) c = None" "map_of (nd_conflicts nd) c = None"
    and "\<not> is_dir e" "te_name e = c"
  shows "put_node nd c e (nd\<lparr>nd_files := btree_remove c (nd_files nd),
    nd_conflicts := btree_insert c e (nd_conflicts nd)\<rparr>)"
  using assms
  by (auto simp: put_node_def node_ok_def content_def fun_eq_iff node_nonempty_def btree_insert_sorted
      btree_remove_sorted btree_remove_lookup btree_insert_lookup split: option.split)

interpretation files: arena_insertion "insert_state_parts st" "\<lambda>c. file_entry c st" "fs_path st"
proof
  fix nodes i c b nodes' b'
  assume "node_ok (nodes ! i)" "i < length nodes" "insert_state_parts st [c] i (nodes, b) = Inr (nodes', b')"
  then show "\<exists>nd'. nodes' = nodes[i := nd'] \<and> put_node (nodes ! i) c (file_entry c st) nd'"
    using put_file [of "nodes ! i" c st]
    by (auto simp: get_node_def rbind_eq_Inr has_key_def split: if_splits)
qed simp

lemma conflict_entry_not_dir: "\<not> is_dir ((conflict_entry cf r)\<lparr>te_name := c\<rparr>)"
  by (simp add: conflict_entry_def is_dir_def)

interpretation conflicts: arena_insertion "insert_conflict_parts path (conflict_entry cf r)"
  "\<lambda>c. (conflict_entry cf r)\<lparr>te_name := c\<rparr>" path
proof
  fix nodes i c b nodes' b'
  assume "node_ok (nodes ! i)" "i < length nodes"
    "insert_conflict_parts path (conflict_entry cf r) [c] i (nodes, b) = Inr (nodes', b')"
  then show "\<exists>nd'. nodes' = nodes[i := nd'] \<and> put_node (nodes ! i) c ((conflict_entry cf r)\<lparr>te_name := c\<rparr>) nd'"
    using put_conflict [of "nodes ! i" c "(conflict_entry cf r)\<lparr>te_name := c\<rparr>"] conflict_entry_not_dir
    by (auto simp: get_node_def rbind_eq_Inr has_key_def split: if_splits)
qed simp

section \<open>The flat view the builder implements\<close>

abbreviation comps :: "string \<Rightarrow> string list" where
  "comps path \<equiv> split_on (CHR ''/'') path"

text \<open>The live files under their component lists, conflicts laid over them in order.\<close>

definition put_file_spec :: "string \<times> file_state \<Rightarrow> (string list \<rightharpoonup> tree_entry) \<Rightarrow> string list \<rightharpoonup> tree_entry" where
  "put_file_spec kv m =
     (if fs_deleted (snd kv) then m
      else m(comps (fst kv) \<mapsto> file_entry (last (comps (fst kv))) (snd kv)))"

definition put_conflict_spec :: "concurrent_edit \<Rightarrow> (string list \<rightharpoonup> tree_entry) \<Rightarrow> string list \<rightharpoonup> tree_entry" where
  "put_conflict_spec cf m =
     (case conflict_representative cf of
        Some r \<Rightarrow> m(comps (ce_path cf) \<mapsto> (conflict_entry cf r)\<lparr>te_name := last (comps (ce_path cf))\<rparr>)
      | None \<Rightarrow> m)"

definition flat_view ::
  "(string \<times> file_state) list \<Rightarrow> concurrent_edit list \<Rightarrow> string list \<rightharpoonup> tree_entry" where
  "flat_view files conflicts = fold put_conflict_spec conflicts (fold put_file_spec files Map.empty)"

lemma insert_file_correct:
  assumes "insert_file P kv ar = Inr ar'" and "arena_inv 0 (fst ar)"
  shows "arena_inv 0 (fst ar') \<and> arena_abs (fst ar') = put_file_spec kv (arena_abs (fst ar))"
proof (cases "fs_deleted (snd kv)")
  case True
  with assms show ?thesis
    by (auto simp: insert_file_def put_file_spec_def Let_def rbind_eq_Inr split: prod.splits if_splits)
next
  case False
  with assms(1) obtain b where "fst kv = fs_path (snd kv)"
    and ins: "insert_state_parts (snd kv) (comps (fst kv)) 0 (fst ar, b) = Inr (fst ar', snd ar')"
    by (auto simp: insert_file_def insert_state_def Let_def rbind_eq_Inr split: prod.splits if_splits)
  from files.insert_root [OF ins _ assms(2)] False show ?thesis by (simp add: put_file_spec_def)
qed

lemma overlay_conflict_correct:
  assumes "overlay_conflict P cf ar = Inr ar'" and "arena_inv 0 (fst ar)"
  shows "arena_inv 0 (fst ar') \<and> arena_abs (fst ar') = put_conflict_spec cf (arena_abs (fst ar))"
proof -
  from assms(1) obtain b r where r: "conflict_representative cf = Some r"
    and ins: "insert_conflict_parts (ce_path cf) (conflict_entry cf r) (comps (ce_path cf)) 0 (fst ar, b)
      = Inr (fst ar', snd ar')"
    by (auto simp: overlay_conflict_def insert_conflict_def Let_def rbind_eq_Inr split: prod.splits)
  from conflicts.insert_root [OF ins _ assms(2)] r show ?thesis by (simp add: put_conflict_spec_def)
qed

lemma fold_arena:
  assumes "fold_result f xs ar = Inr ar'" and "arena_inv 0 (fst ar)"
    and "\<And>x ar ar'. f x ar = Inr ar' \<Longrightarrow> arena_inv 0 (fst ar) \<Longrightarrow>
      arena_inv 0 (fst ar') \<and> arena_abs (fst ar') = g x (arena_abs (fst ar))"
  shows "arena_inv 0 (fst ar') \<and> arena_abs (fst ar') = fold g xs (arena_abs (fst ar))"
  using assms(1,2)
proof (induction xs arbitrary: ar)
  case (Cons x xs)
  then obtain a where "f x ar = Inr a" "fold_result f xs a = Inr ar'" by (auto simp: rbind_eq_Inr)
  with assms(3) [of x ar a] Cons show ?case by simp
qed simp

lemma arena_start: "arena_inv 0 [node_default]" "arena_abs [node_default] = Map.empty"
proof -
  have w: "walk [node_default] 0 cs = (if cs = [] then Some 0 else None)" for cs
    by (cases cs) (simp_all add: node_default_def)
  show "arena_inv 0 [node_default]"
    unfolding arena_inv_def children_ok_def one_path_def filled_def
    by (auto simp: w split: if_splits) (simp_all add: node_default_def)
  show "arena_abs [node_default] = Map.empty"
    by (rule arena_ext) (simp_all add: arena_at_snoc w)
qed

lemma collect_nodes_correct:
  assumes "collect_nodes P files conflicts = Inr ar"
  shows "arena_inv 0 (fst ar) \<and> arena_abs (fst ar) = flat_view files conflicts"
proof -
  from assms obtain a where a: "fold_result (insert_file P) files ([node_default], tree_budget_new) = Inr a"
    and b: "fold_result (overlay_conflict P) conflicts a = Inr ar"
    by (auto simp: collect_nodes_def rbind_eq_Inr)
  have "arena_inv 0 (fst a) \<and> arena_abs (fst a) = fold put_file_spec files Map.empty"
    using fold_arena [OF a, of put_file_spec] insert_file_correct [of P] by (simp add: arena_start)
  with fold_arena [OF b, of put_conflict_spec] overlay_conflict_correct [of P] show ?thesis
    by (simp add: flat_view_def)
qed

section \<open>Correctness of the construction\<close>

abbreviation child_hash :: "string option list \<Rightarrow> nat \<Rightarrow> string" where
  "child_hash hashes j \<equiv> the (lookup_hash hashes j)"

lemma push_directories:
  "fold_result (push_directory hashes) ds es = Inr es' \<longleftrightarrow>
     (\<forall>d\<in>set ds. lookup_hash hashes (snd d) \<noteq> None)
     \<and> es' = es @ map (\<lambda>d. dir_entry (fst d) (child_hash hashes (snd d))) ds"
  by (induction ds arbitrary: es) (auto simp: rbind_eq_Inr push_directory_def)

lemma node_tree_eq_Inr:
  "node_tree hashes nd = Inr t \<longleftrightarrow>
     (\<forall>d\<in>set (nd_directories nd). lookup_hash hashes (snd d) \<noteq> None)
     \<and> t = \<lparr>entries = sort_key te_name
           (map (\<lambda>(name, st). file_entry name st) (nd_files nd) @ map snd (nd_conflicts nd)
            @ map (\<lambda>d. dir_entry (fst d) (child_hash hashes (snd d))) (nd_directories nd))\<rparr>"
  by (auto simp: node_tree_def rbind_eq_Inr push_directories)

lemma node_tree_cong:
  assumes "\<And>d. d \<in> set (nd_directories nd) \<Longrightarrow> lookup_hash hashes (snd d) = lookup_hash hashes' (snd d)"
  shows "node_tree hashes nd = Inr t \<longleftrightarrow> node_tree hashes' nd = Inr t"
proof -
  have "map (\<lambda>d. dir_entry (fst d) (child_hash hashes (snd d))) (nd_directories nd)
      = map (\<lambda>d. dir_entry (fst d) (child_hash hashes' (snd d))) (nd_directories nd)"
    using assms by simp
  moreover have "(\<forall>d\<in>set (nd_directories nd). lookup_hash hashes (snd d) \<noteq> None) \<longleftrightarrow>
      (\<forall>d\<in>set (nd_directories nd). lookup_hash hashes' (snd d) \<noteq> None)"
    using assms by simp
  ultimately show ?thesis unfolding node_tree_eq_Inr by (simp only:)
qed

text \<open>The trees of an arena in the order they are built, whatever their identifiers.\<close>

fun arena_trees :: "prims \<Rightarrow> node list \<Rightarrow> string option list \<Rightarrow> tree list" where
  "arena_trees P [] hashes = []"
| "arena_trees P (nd # rest) hashes =
     (case node_tree hashes nd of
        Inl _ \<Rightarrow> []
      | Inr t \<Rightarrow> t # arena_trees P rest (hashes[length rest := Some (tree_id P t)]))"

text \<open>
  What the loop establishes: hashes beyond the arena are kept, every node has the tree that the
  final hashes give it, every tree is valid and stored, nothing else is stored.
\<close>

definition build_post ::
  "prims \<Rightarrow> node list \<Rightarrow> string option list \<Rightarrow> (string \<times> tree) list \<Rightarrow> string option list
     \<Rightarrow> (string \<times> tree) list \<Rightarrow> bool" where
  "build_post P xs hashes trees hashes' trees' \<longleftrightarrow>
     (\<forall>i\<ge>length xs. lookup_hash hashes' i = lookup_hash hashes i)
     \<and> (\<forall>i<length xs. \<exists>t\<in>set (arena_trees P xs hashes).
          node_tree hashes' (rev xs ! i) = Inr t \<and> lookup_hash hashes' i = Some (tree_id P t))
     \<and> (\<forall>t\<in>set (arena_trees P xs hashes). validate_tree P t = Inr () \<and> map_of trees' (tree_id P t) \<noteq> None)
     \<and> (\<forall>h t. map_of trees' h = Some t \<longrightarrow>
          map_of trees h = Some t \<or> t \<in> set (arena_trees P xs hashes) \<and> h = tree_id P t)
     \<and> dom (map_of trees) \<subseteq> dom (map_of trees')"

lemma build_nodes_correct:
  assumes "build_nodes P xs hashes trees = Inr (hashes', trees')" and "length xs \<le> length hashes"
    and "\<forall>i<length xs. \<forall>d\<in>set (nd_directories (rev xs ! i)). i < snd d"
  shows "build_post P xs hashes trees hashes' trees'"
  using assms
proof (induction xs arbitrary: hashes trees)
  case Nil
  then show ?case by (simp add: build_post_def)
next
  case (Cons nd rest)
  from Cons.prems(1) obtain t where t: "node_tree hashes nd = Inr t" and v: "validate_tree P t = Inr ()"
    and rec: "build_nodes P rest (hashes[length rest := Some (tree_id P t)])
      (AList.update (tree_id P t) t trees) = Inr (hashes', trees')"
    by (auto simp: rbind_eq_Inr)
  let ?h1 = "hashes[length rest := Some (tree_id P t)]"
  let ?t1 = "AList.update (tree_id P t) t trees"
  have len: "length rest \<le> length ?h1" using Cons.prems(2) by simp
  have ch: "\<forall>i<length rest. \<forall>d\<in>set (nd_directories (rev rest ! i)). i < snd d"
    using Cons.prems(3) by (simp add: nth_append all_conj_distrib less_Suc_eq)
  have post: "build_post P rest ?h1 ?t1 hashes' trees'" by (rule Cons.IH [OF rec len ch])
  have h1: "lookup_hash ?h1 j = (if j = length rest then Some (tree_id P t) else lookup_hash hashes j)" for j
    using Cons.prems(2) by (auto simp: lookup_hash_def)
  have ts: "arena_trees P (nd # rest) hashes = t # arena_trees P rest ?h1" using t by simp
  have above: "lookup_hash hashes' i = lookup_hash hashes i" if "length (nd # rest) \<le> i" for i
    using post h1 [of i] that by (simp add: build_post_def)
  have self: "lookup_hash hashes' (length rest) = Some (tree_id P t)"
    using post h1 by (simp add: build_post_def)
  have "length rest < snd d" if "d \<in> set (nd_directories nd)" for d
    using Cons.prems(3) [rule_format, of "length rest"] that by (simp add: nth_append)
  then have nt: "node_tree hashes' nd = Inr t"
    using t above node_tree_cong [of nd hashes hashes' t] by (simp add: Suc_le_eq)
  show ?case
    unfolding build_post_def ts
  proof (intro conjI)
    show "\<forall>i\<ge>length (nd # rest). lookup_hash hashes' i = lookup_hash hashes i" using above by blast
    show "\<forall>i<length (nd # rest). \<exists>t\<in>set (t # arena_trees P rest ?h1).
        node_tree hashes' (rev (nd # rest) ! i) = Inr t \<and> lookup_hash hashes' i = Some (tree_id P t)"
      using post self nt by (auto simp: build_post_def nth_append less_Suc_eq)
    have "dom (map_of ?t1) \<subseteq> dom (map_of trees')" using post by (simp only: build_post_def)
    then have "map_of trees' (tree_id P t) \<noteq> None" by (auto simp: update_conv')
    then show "\<forall>t\<in>set (t # arena_trees P rest ?h1). validate_tree P t = Inr () \<and> map_of trees' (tree_id P t) \<noteq> None"
      using post v by (simp add: build_post_def)
    show "\<forall>h u. map_of trees' h = Some u \<longrightarrow>
        map_of trees h = Some u \<or> u \<in> set (t # arena_trees P rest ?h1) \<and> h = tree_id P u"
    proof (intro allI impI)
      fix h u assume "map_of trees' h = Some u"
      with post have "map_of ?t1 h = Some u \<or> u \<in> set (arena_trees P rest ?h1) \<and> h = tree_id P u"
        unfolding build_post_def by blast
      then show "map_of trees h = Some u \<or> u \<in> set (t # arena_trees P rest ?h1) \<and> h = tree_id P u"
        by (auto simp: update_conv split: if_splits)
    qed
    have "dom (map_of ?t1) \<subseteq> dom (map_of trees')" using post by (simp only: build_post_def)
    then show "dom (map_of trees) \<subseteq> dom (map_of trees')" by (simp add: update_conv')
  qed
qed

lemma btree_mem: "btree m \<Longrightarrow> (k, v) \<in> set m \<longleftrightarrow> map_of m k = Some v"
  using btree_distinct map_of_eq_Some_iff by metis

lemma node_ok_mem:
  assumes "node_ok nd"
  shows "(k, f) \<in> set (nd_files nd) \<longleftrightarrow> map_of (nd_files nd) k = Some f"
    and "(k, e) \<in> set (nd_conflicts nd) \<longleftrightarrow> map_of (nd_conflicts nd) k = Some e"
    and "(k, j) \<in> set (nd_directories nd) \<longleftrightarrow> map_of (nd_directories nd) k = Some j"
    and "map_of (nd_conflicts nd) k = Some e \<Longrightarrow> te_name e = k \<and> \<not> is_dir e"
    and "map_of (nd_files nd) k = Some f \<Longrightarrow> map_of (nd_conflicts nd) k = None"
proof -
  from assms have b: "btree (nd_files nd)" "btree (nd_conflicts nd)" "btree (nd_directories nd)"
    and c: "\<forall>c e. map_of (nd_conflicts nd) c = Some e \<longrightarrow> te_name e = c \<and> \<not> is_dir e"
    and d: "dom (map_of (nd_files nd)) \<inter> dom (map_of (nd_conflicts nd)) = {}"
    by (simp_all add: node_ok_def)
  show "(k, f) \<in> set (nd_files nd) \<longleftrightarrow> map_of (nd_files nd) k = Some f" by (rule btree_mem [OF b(1)])
  show "(k, e) \<in> set (nd_conflicts nd) \<longleftrightarrow> map_of (nd_conflicts nd) k = Some e" by (rule btree_mem [OF b(2)])
  show "(k, j) \<in> set (nd_directories nd) \<longleftrightarrow> map_of (nd_directories nd) k = Some j" by (rule btree_mem [OF b(3)])
  show "map_of (nd_conflicts nd) k = Some e \<Longrightarrow> te_name e = k \<and> \<not> is_dir e" using c by blast
  show "map_of (nd_files nd) k = Some f \<Longrightarrow> map_of (nd_conflicts nd) k = None" using d by auto
qed

lemma node_tree_mem:
  assumes "node_tree hashes nd = Inr t"
  shows "e \<in> set (entries t) \<longleftrightarrow> (\<exists>k st. (k, st) \<in> set (nd_files nd) \<and> e = file_entry k st)
      \<or> (\<exists>k. (k, e) \<in> set (nd_conflicts nd))
      \<or> (\<exists>k j. (k, j) \<in> set (nd_directories nd) \<and> e = dir_entry k (child_hash hashes j))"
proof -
  have "set (entries t) = (\<lambda>(k, st). file_entry k st) ` set (nd_files nd) \<union> snd ` set (nd_conflicts nd)
      \<union> (\<lambda>d. dir_entry (fst d) (child_hash hashes (snd d))) ` set (nd_directories nd)"
    using assms by (simp add: node_tree_eq_Inr Un_assoc)
  moreover have "e \<in> (\<lambda>(k, st). file_entry k st) ` set (nd_files nd) \<longleftrightarrow>
      (\<exists>k st. (k, st) \<in> set (nd_files nd) \<and> e = file_entry k st)" by fastforce
  moreover have "e \<in> snd ` set (nd_conflicts nd) \<longleftrightarrow> (\<exists>k. (k, e) \<in> set (nd_conflicts nd))" by force
  moreover have "e \<in> (\<lambda>d. dir_entry (fst d) (child_hash hashes (snd d))) ` set (nd_directories nd) \<longleftrightarrow>
      (\<exists>k j. (k, j) \<in> set (nd_directories nd) \<and> e = dir_entry k (child_hash hashes j))" by force
  ultimately show ?thesis by simp
qed

lemma node_tree_leaf:
  assumes ok: "node_ok nd" and t: "node_tree hashes nd = Inr t"
  shows "e \<in> set (entries t) \<and> \<not> is_dir e \<and> te_name e = c \<longleftrightarrow> content nd c = Some e"
proof -
  have "e \<in> set (entries t) \<and> \<not> is_dir e \<and> te_name e = c \<longleftrightarrow>
      (\<exists>st. map_of (nd_files nd) c = Some st \<and> e = file_entry c st) \<or> map_of (nd_conflicts nd) c = Some e"
    unfolding node_tree_mem [OF t] node_ok_mem [OF ok] using node_ok_mem(4) [OF ok]
    by (auto simp: file_entry_def dir_entry_def is_dir_def)
  also have "\<dots> \<longleftrightarrow> content nd c = Some e"
    using node_ok_mem(5) [OF ok] by (auto simp: content_def split: option.splits)
  finally show ?thesis .
qed

lemma node_tree_dir:
  assumes ok: "node_ok nd" and t: "node_tree hashes nd = Inr t"
  shows "e \<in> set (entries t) \<and> is_dir e \<and> te_name e = c \<longleftrightarrow>
    (\<exists>j. map_of (nd_directories nd) c = Some j \<and> e = dir_entry c (child_hash hashes j))"
proof -
  show ?thesis
    unfolding node_tree_mem [OF t] node_ok_mem [OF ok] using node_ok_mem(4) [OF ok]
    by (auto simp: file_entry_def dir_entry_def is_dir_def)
qed

definition collision_free :: "prims \<Rightarrow> (string \<times> file_state) list \<Rightarrow> concurrent_edit list \<Rightarrow> bool" where
  "collision_free P files conflicts =
     (case collect_nodes P files conflicts of
        Inl _ \<Rightarrow> True
      | Inr (nodes, _) \<Rightarrow>
          distinct (map (tree_id P) (remdups (arena_trees P (rev nodes) (replicate (length nodes) None)))))"

lemma build_leaves:
  assumes inv: "arena_inv 0 nodes" and build: "build_node P nodes = Inr bundle"
    and inj: "\<forall>t\<in>set (arena_trees P (rev nodes) (replicate (length nodes) None)).
      \<forall>t'\<in>set (arena_trees P (rev nodes) (replicate (length nodes) None)).
        tree_id P t = tree_id P t' \<longrightarrow> t = t'"
  shows "tree_leaf (map_of (tb_trees bundle)) (tb_root bundle) cs e \<longleftrightarrow> arena_abs nodes cs = Some e"
proof -
  from build obtain hashes where b: "build_nodes P (rev nodes) (replicate (length nodes) None) [] = Inr (hashes, tb_trees bundle)"
    and root: "lookup_hash hashes 0 = Some (tb_root bundle)"
    by (auto simp: build_node_def rbind_eq_Inr)
  let ?ts = "arena_trees P (rev nodes) (replicate (length nodes) None)" and ?fetch = "map_of (tb_trees bundle)"
  have "\<forall>i<length nodes. \<forall>d\<in>set (nd_directories (nodes ! i)). i < snd d"
  proof (intro allI impI ballI)
    fix i d assume i: "i < length nodes" and d: "d \<in> set (nd_directories (nodes ! i))"
    have "btree (nd_directories (nodes ! i))" using arena_invD(2) [OF inv i] by (simp add: node_ok_def)
    then have "map_of (nd_directories (nodes ! i)) (fst d) = Some (snd d)" using d btree_mem by force
    then show "i < snd d" using arena_invD(3) [OF inv i] by blast
  qed
  then have post: "build_post P (rev nodes) (replicate (length nodes) None) [] hashes (tb_trees bundle)"
    using build_nodes_correct [OF b] by simp
  have node: "\<exists>t. node_tree hashes (nodes ! i) = Inr t \<and> ?fetch (child_hash hashes i) = Some t"
    if "i < length nodes" for i
  proof -
    from post that obtain t where t: "t \<in> set ?ts" "node_tree hashes (nodes ! i) = Inr t"
        "lookup_hash hashes i = Some (tree_id P t)"
      unfolding build_post_def by auto
    from post t(1) obtain u where u: "?fetch (tree_id P t) = Some u" unfolding build_post_def by blast
    with post have "u \<in> set ?ts" "tree_id P u = tree_id P t" unfolding build_post_def by fastforce+
    with inj t(1) have "u = t" by blast
    with t u show ?thesis by simp
  qed
  have "tree_leaf ?fetch (child_hash hashes i) cs e \<longleftrightarrow> arena_at nodes i cs = Some e"
    if "i < length nodes" for i
    using that
  proof (induction cs arbitrary: i)
    case (Cons c cs)
    from node [OF Cons.prems] obtain t where t: "node_tree hashes (nodes ! i) = Inr t"
      and f: "?fetch (child_hash hashes i) = Some t" by blast
    note ok = arena_invD(2) [OF inv Cons.prems]
    have "tree_leaf ?fetch (child_hash hashes i) (c # cs) e \<longleftrightarrow>
        cs = [] \<and> content (nodes ! i) c = Some e
        \<or> (\<exists>j. map_of (nd_directories (nodes ! i)) c = Some j \<and> tree_leaf ?fetch (child_hash hashes j) cs e)"
      unfolding tree_leaf_Cons node_tree_leaf [OF ok t, symmetric]
      using f node_tree_dir [OF ok t, of _ c] by (auto simp: dir_entry_def) (metis tree_entry.select_convs(3))+
    also have "\<dots> \<longleftrightarrow> arena_at nodes i (c # cs) = Some e"
      using Cons.IH arena_invD(3) [OF inv Cons.prems, of c]
      by (cases "cs = []") (auto simp: arena_at_Cons bind_eq_Some_conv)
    finally show ?case .
  qed simp
  from this [OF arena_invD(1) [OF inv]] root show ?thesis by simp
qed

text \<open>
  C9: The bundle built from a flat map and a list of conflicts has exactly the live files and the
  conflicts as its leaves, each under its path: a conflict replaces the file at its path, a
  deleted state leaves no trace, and no directory appears that holds nothing. The identifiers
  of the trees built for this input are assumed not to collide.
\<close>

theorem flat_to_tree_leaves:
  assumes "flat_to_tree_with_conflicts P files conflicts = Inr bundle"
    and "collision_free P files conflicts"
  shows "tree_leaf (map_of (tb_trees bundle)) (tb_root bundle) cs e
    \<longleftrightarrow> flat_view files conflicts cs = Some e"
proof -
  from assms(1) obtain nodes b where c: "collect_nodes P files conflicts = Inr (nodes, b)"
    and build: "build_node P nodes = Inr bundle"
    by (auto simp: flat_to_tree_with_conflicts_def rbind_eq_Inr)
  from collect_nodes_correct [OF c] have "arena_inv 0 nodes" "arena_abs nodes = flat_view files conflicts"
    by simp_all
  with build_leaves [OF _ build] assms(2) c show ?thesis
    by (simp add: collision_free_def distinct_map inj_on_def)
qed

section \<open>Round trip\<close>

lemma comps_inj: "comps p = comps q \<longleftrightarrow> p = q"
  by (metis join_split)

lemma fold_put_file:
  assumes "distinct (map fst files)"
  shows "fold put_file_spec files m (comps p) =
    (case map_of files p of
       Some s \<Rightarrow> if fs_deleted s then m (comps p) else Some (file_entry (last (comps p)) s)
     | None \<Rightarrow> m (comps p))"
  using assms
proof (induction files arbitrary: m)
  case (Cons kv files)
  have "map_of files (fst kv) = None" using Cons.prems by (simp add: map_of_eq_None_iff)
  with Cons show ?case
    by (cases kv) (auto simp: put_file_spec_def comps_inj split: option.split)
qed simp

lemma fold_put_file_other:
  "(\<And>p. cs \<noteq> comps p) \<Longrightarrow> fold put_file_spec files m cs = m cs"
  by (induction files arbitrary: m) (auto simp: put_file_spec_def)

lemma insert_files_paths:
  "fold_result (insert_file P) files ar = Inr ar' \<Longrightarrow> (p, s) \<in> set files \<Longrightarrow> fs_path s = p"
  by (induction files arbitrary: ar)
    (auto simp: rbind_eq_Inr insert_file_def Let_def split: if_splits)

text \<open>
  C10: Building canonical trees from a flat map and expanding them again gives back exactly the
  live files, with the same path, content hash, size and mode; only the clock is dropped.
\<close>

theorem flat_tree_roundtrip:
  assumes "distinct (map fst files)" and "flat_to_tree P files = Inr bundle"
    and "collision_free P files []"
    and "tree_to_flat P (tb_root bundle) (map_of (tb_trees bundle)) = Inr out"
  shows "map_of out p = Some s \<longleftrightarrow>
    (\<exists>s0. map_of files p = Some s0 \<and> \<not> fs_deleted s0 \<and> s = s0\<lparr>fs_mtime := 0\<rparr>)"
proof -
  from assms(2) have b: "flat_to_tree_with_conflicts P files [] = Inr bundle" by (simp add: flat_to_tree_def)
  from b obtain ar where "fold_result (insert_file P) files ([node_default], tree_budget_new) = Inr ar"
    by (auto simp: flat_to_tree_with_conflicts_def collect_nodes_def rbind_eq_Inr)
  from insert_files_paths [OF this] have path: "fs_path s0 = p" if "map_of files p = Some s0" for s0
    using that by (auto dest: map_of_SomeD)
  have view: "flat_view files [] cs = Some e \<longleftrightarrow>
      (\<exists>q s0. cs = comps q \<and> map_of files q = Some s0 \<and> \<not> fs_deleted s0 \<and> e = file_entry (last cs) s0)" for cs e
  proof (cases "\<exists>q. cs = comps q")
    case True
    then obtain q where "cs = comps q" ..
    then show ?thesis
      using fold_put_file [OF assms(1), of Map.empty q]
      by (auto simp: flat_view_def comps_inj split: option.splits)
  next
    case False
    then show ?thesis using fold_put_file_other [of cs files Map.empty] by (auto simp: flat_view_def)
  qed
  have "map_of out p = Some s \<longleftrightarrow> (\<exists>cs e. flat_view files [] cs = Some e \<and> p = join_all cs \<and> s = leaf_state p e)"
    using tree_to_flat_correct [OF assms(4)] unfolding flat_to_tree_leaves [OF b assms(3)] by blast
  also have "\<dots> \<longleftrightarrow> (\<exists>s0. map_of files p = Some s0 \<and> \<not> fs_deleted s0
      \<and> s = leaf_state p (file_entry (last (comps p)) s0))"
    unfolding view by (metis join_split)
  also have "\<dots> \<longleftrightarrow> (\<exists>s0. map_of files p = Some s0 \<and> \<not> fs_deleted s0 \<and> s = s0\<lparr>fs_mtime := 0\<rparr>)"
  proof -
    have "leaf_state p (file_entry n s0) = s0\<lparr>fs_mtime := 0\<rparr>"
      if "map_of files p = Some s0" "\<not> fs_deleted s0" for n s0
      using path [OF that(1)] that(2) by (cases s0) (simp add: leaf_state_def file_entry_def)
    then show ?thesis by metis
  qed
  finally show ?thesis .
qed

section \<open>Worked example\<close>

definition sample_state :: "string \<Rightarrow> char \<Rightarrow> bool \<Rightarrow> file_state" where
  "sample_state path c deleted =
     \<lparr>fs_path = path, fs_hash = sample_hash c, fs_size = 5, fs_mtime = 1700, fs_deleted = deleted, fs_mode = 0\<rparr>"

definition sample_files :: "(string \<times> file_state) list" where
  "sample_files = map (\<lambda>(p, c, d). (p, sample_state p c d))
     [(''src/lib.rs'', CHR ''a'', False), (''readme'', CHR ''b'', False), (''src/old.rs'', CHR ''c'', True),
      (''docs/a/b'', CHR ''d'', False)]"

definition sample_conflicts :: "concurrent_edit list" where
  "sample_conflicts =
     [\<lparr>ce_path = ''readme'', ce_base = Some (sample_state ''readme'' (CHR ''b'') False),
       ce_ours = None, ce_theirs = Some (sample_state ''readme'' (CHR ''e'') False),
       ce_local_available = True, ce_cloud_available = True\<rparr>]"

theorem flat_to_tree_leaves_witness:
  "\<exists>bundle. flat_to_tree_with_conflicts sample_prims sample_files sample_conflicts = Inr bundle
     \<and> length (tb_trees bundle) = 4
     \<and> tree_leaf (map_of (tb_trees bundle)) (tb_root bundle) [''src'', ''lib.rs'']
         (file_entry ''lib.rs'' (sample_state ''src/lib.rs'' (CHR ''a'') False))
     \<and> \<not> (\<exists>e. tree_leaf (map_of (tb_trees bundle)) (tb_root bundle) [''src'', ''old.rs''] e)"
proof -
  have "is_ok (flat_to_tree_with_conflicts sample_prims sample_files sample_conflicts)" by code_simp
  then obtain bd where b: "flat_to_tree_with_conflicts sample_prims sample_files sample_conflicts = Inr bd"
    by (auto simp: is_ok_iff)
  have "map_err id (rbind (flat_to_tree_with_conflicts sample_prims sample_files sample_conflicts)
      (\<lambda>b. Inr (length (tb_trees b)))) = Inr 4" by code_simp
  then have "length (tb_trees bd) = 4" by (simp add: b)
  moreover have c: "collision_free sample_prims sample_files sample_conflicts" by code_simp
  moreover have "flat_view sample_files sample_conflicts [''src'', ''lib.rs''] =
      Some (file_entry ''lib.rs'' (sample_state ''src/lib.rs'' (CHR ''a'') False))" by code_simp
  moreover have "flat_view sample_files sample_conflicts [''src'', ''old.rs''] = None" by code_simp
  ultimately show ?thesis using b flat_to_tree_leaves [OF b c] by simp
qed

theorem flat_tree_roundtrip_witness:
  "\<exists>bundle out. flat_to_tree sample_prims sample_files = Inr bundle
     \<and> tree_to_flat sample_prims (tb_root bundle) (map_of (tb_trees bundle)) = Inr out
     \<and> map_of out ''readme'' = Some ((sample_state ''readme'' (CHR ''b'') False)\<lparr>fs_mtime := 0\<rparr>)
     \<and> map_of out ''src/old.rs'' = None"
proof -
  have "is_ok (rbind (flat_to_tree sample_prims sample_files)
      (\<lambda>b. tree_to_flat sample_prims (tb_root b) (map_of (tb_trees b))))" by code_simp
  then obtain bd out where b: "flat_to_tree sample_prims sample_files = Inr bd"
    and o': "tree_to_flat sample_prims (tb_root bd) (map_of (tb_trees bd)) = Inr out"
    by (auto simp: is_ok_iff rbind_eq_Inr)
  have d: "distinct (map fst sample_files)" by code_simp
  have c: "collision_free sample_prims sample_files []" by code_simp
  note r = flat_tree_roundtrip [OF d b c o']
  have f: "map_of sample_files ''readme'' = Some (sample_state ''readme'' (CHR ''b'') False)"
    "map_of sample_files ''src/old.rs'' = Some (sample_state ''src/old.rs'' (CHR ''c'') True)"
    by code_simp+
  have del: "\<not> fs_deleted (sample_state p x False)" "fs_deleted (sample_state p x True)" for p x
    by (simp_all add: sample_state_def)
  have "map_of out ''readme'' = Some ((sample_state ''readme'' (CHR ''b'') False)\<lparr>fs_mtime := 0\<rparr>)"
    by (rule r [THEN iffD2]) (intro exI conjI, rule f(1), rule del(1), rule refl)
  moreover have "map_of out ''src/old.rs'' \<noteq> Some s" for s
    unfolding r f(2) using del(2) by simp
  then have "map_of out ''src/old.rs'' = None" by (metis option.exhaust)
  ultimately show ?thesis using b o' by blast
qed

end
