(* ===== verification/Tree_Diff.thy ===== *)
theory Tree_Diff
  imports Traversal
begin

text \<open>
  \<^verbatim>\<open>diff_trees\<close> of \<^verbatim>\<open>common/src/tree_diff.rs\<close>: the simultaneous traversal of two canonical roots
  that skips identical subtrees. The theorems show that the reported changes are exactly the
  difference of the two sets of leaves, and that the traversal ends and stays consistent.
\<close>

section \<open>Changes and traversal state\<close>

datatype tree_change_kind = Added | Modified | Deleted

record tree_change =
  tc_path :: string
  tc_kind :: tree_change_kind
  tc_before :: "tree_entry option"
  tc_after :: "tree_entry option"

datatype diff_side = Before | After

datatype diff_work =
    DPair string string string nat
  | DCollect string string tree_change_kind diff_side nat
  | DExit string diff_side

fun diff_pending_path_len :: "diff_work \<Rightarrow> nat" where
  "diff_pending_path_len (DPair _ _ prefix _) = length prefix"
| "diff_pending_path_len (DCollect _ path _ _ _) = length path"
| "diff_pending_path_len (DExit _ _) = 0"

record diff_traversal =
  df_before_active :: "string set"
  df_after_active :: "string set"
  df_objects :: "string set"
  df_work_items :: nat
  df_constructed_path_bytes :: nat
  df_pending_path_bytes :: nat
  df_changes :: "tree_change list"

definition df_active :: "diff_side \<Rightarrow> diff_traversal \<Rightarrow> string set" where
  "df_active side st = (case side of Before \<Rightarrow> df_before_active st | After \<Rightarrow> df_after_active st)"

definition df_set_active :: "diff_side \<Rightarrow> string set \<Rightarrow> diff_traversal \<Rightarrow> diff_traversal" where
  "df_set_active side A st =
     (case side of Before \<Rightarrow> st\<lparr>df_before_active := A\<rparr> | After \<Rightarrow> st\<lparr>df_after_active := A\<rparr>)"

section \<open>The operations of the traversal\<close>

definition validate_output_path :: "prims \<Rightarrow> string \<Rightarrow> nat \<Rightarrow> tree_error + unit" where
  "validate_output_path P path depth =
     (if depth > max_tree_depth \<or> \<not> is_safe_rel_path P path then Inl (InvalidPath path) else Inr ())"

definition diff_enter :: "diff_side \<Rightarrow> string \<Rightarrow> nat \<Rightarrow> diff_traversal \<Rightarrow> tree_error + diff_traversal" where
  "diff_enter side hash depth st =
     (if depth > max_tree_depth then Inl PathTooDeep
      else if hash \<in> df_active side st then Inl (CycleAt hash)
      else Inr (df_set_active side (insert hash (df_active side st)) st))"

definition diff_exit :: "diff_side \<Rightarrow> string \<Rightarrow> diff_traversal \<Rightarrow> tree_error + diff_traversal" where
  "diff_exit side hash st =
     (if hash \<in> df_active side st
      then Inr (df_set_active side (df_active side st - {hash}) st)
      else Inl (LostActive hash))"

definition diff_release_pending_path :: "nat \<Rightarrow> diff_traversal \<Rightarrow> tree_error + diff_traversal" where
  "diff_release_pending_path amount st =
     rbind (ok_or (checked_sub (df_pending_path_bytes st) amount) PendingUnderflow) (\<lambda>n.
     Inr (st\<lparr>df_pending_path_bytes := n\<rparr>))"

definition queue_work ::
  "diff_work \<Rightarrow> diff_traversal \<times> diff_work list \<Rightarrow> tree_error + (diff_traversal \<times> diff_work list)" where
  "queue_work work acc =
     (let (st, children) = acc in
      rbind (charge max_tree_path_bytes_total PendingBytesExceeded (diff_pending_path_len work)
               (df_pending_path_bytes st)) (\<lambda>n.
      Inr (st\<lparr>df_pending_path_bytes := n\<rparr>, children @ [work])))"

definition construct_path ::
  "prims \<Rightarrow> string \<Rightarrow> string \<Rightarrow> nat \<Rightarrow> diff_traversal \<Rightarrow> tree_error + (string \<times> diff_traversal)" where
  "construct_path P prefix name depth st =
     (let path = join_path prefix name in
      rbind (validate_output_path P path depth) (\<lambda>_.
      rbind (charge max_tree_path_bytes_total PathBytesExceeded (length path)
               (df_constructed_path_bytes st)) (\<lambda>n.
      Inr (path, st\<lparr>df_constructed_path_bytes := n\<rparr>))))"

definition push_change :: "tree_change \<Rightarrow> diff_traversal \<Rightarrow> tree_error + diff_traversal" where
  "push_change change st =
     (if length (df_changes st) \<ge> max_tree_output_paths then Inl TooManyOutputPaths
      else Inr (st\<lparr>df_changes := df_changes st @ [change]\<rparr>))"

definition fetch_tree ::
  "prims \<Rightarrow> (string \<Rightarrow> tree option) \<Rightarrow> string \<Rightarrow> nat \<Rightarrow> diff_traversal \<Rightarrow> tree_error + (tree \<times> diff_traversal)" where
  "fetch_tree P fetch hash depth st =
     rbind (record_object hash (df_objects st)) (\<lambda>objects.
     rbind (fetch_valid P fetch hash depth) (\<lambda>t.
     rbind (charge max_tree_work_items TooManyWorkItems (saturating_add (length (entries t)) 1)
              (df_work_items st)) (\<lambda>n.
     Inr (t, st\<lparr>df_objects := objects, df_work_items := n\<rparr>))))"

definition leaf_change :: "tree_entry \<Rightarrow> string \<Rightarrow> tree_change_kind \<Rightarrow> tree_change" where
  "leaf_change entry path kind =
     \<lparr>tc_path = path, tc_kind = kind,
      tc_before = (if kind = Deleted then Some entry else None),
      tc_after = (if kind = Added then Some entry else None)\<rparr>"

definition collect_or_change ::
  "tree_entry \<Rightarrow> string \<Rightarrow> tree_change_kind \<Rightarrow> diff_side \<Rightarrow> nat \<Rightarrow> diff_traversal \<times> diff_work list
     \<Rightarrow> tree_error + (diff_traversal \<times> diff_work list)" where
  "collect_or_change entry path kind side depth acc =
     (if is_dir entry then queue_work (DCollect (te_hash entry) path kind side depth) acc
      else rbind (push_change (leaf_change entry path kind) (fst acc)) (\<lambda>st. Inr (st, snd acc)))"

text \<open>
  \<^verbatim>\<open>fetch_entries\<close> collects the entries into a \<^verbatim>\<open>BTreeMap\<close> by name, where a later entry of the
  same name would win.
\<close>

definition fetch_entries ::
  "prims \<Rightarrow> (string \<Rightarrow> tree option) \<Rightarrow> string \<Rightarrow> nat \<Rightarrow> diff_traversal
     \<Rightarrow> tree_error + ((string \<times> tree_entry) list \<times> diff_traversal)" where
  "fetch_entries P fetch hash depth st =
     rbind (fetch_tree P fetch hash depth st) (\<lambda>(t, st).
     Inr (rev (map (\<lambda>e. (te_name e, e)) (entries t)), st))"

definition modified_change :: "string \<Rightarrow> tree_entry \<Rightarrow> tree_entry \<Rightarrow> tree_change" where
  "modified_change path left right =
     \<lparr>tc_path = path, tc_kind = Modified, tc_before = Some left, tc_after = Some right\<rparr>"

text \<open>The body of the loop of \<^verbatim>\<open>process_pair\<close> over the names of both sides, its \<^verbatim>\<open>match\<close> first.\<close>

definition diff_match ::
  "tree_entry option \<Rightarrow> tree_entry option \<Rightarrow> string \<Rightarrow> nat
     \<Rightarrow> diff_traversal \<times> diff_work list \<Rightarrow> tree_error + (diff_traversal \<times> diff_work list)" where
  "diff_match before after path depth acc =
     (case (before, after) of
        (Some left, Some right) \<Rightarrow>
          if left = right then Inr acc
          else if is_dir left \<and> is_dir right then
            queue_work (DPair (te_hash left) (te_hash right) path depth) acc
          else if is_dir left \<or> is_dir right then
            rbind (collect_or_change left path Deleted Before depth acc) (\<lambda>acc.
            collect_or_change right path Added After depth acc)
          else rbind (push_change (modified_change path left right) (fst acc)) (\<lambda>st. Inr (st, snd acc))
      | (Some left, None) \<Rightarrow> collect_or_change left path Deleted Before depth acc
      | (None, Some right) \<Rightarrow> collect_or_change right path Added After depth acc
      | (None, None) \<Rightarrow> Inr acc)"

definition diff_name ::
  "prims \<Rightarrow> (string \<times> tree_entry) list \<Rightarrow> (string \<times> tree_entry) list \<Rightarrow> string \<Rightarrow> nat \<Rightarrow> string
     \<Rightarrow> diff_traversal \<times> diff_work list \<Rightarrow> tree_error + (diff_traversal \<times> diff_work list)" where
  "diff_name P before_entries after_entries prefix depth name acc =
     rbind (construct_path P prefix name (depth + 1) (fst acc)) (\<lambda>(path, st).
     diff_match (map_of before_entries name) (map_of after_entries name) path (depth + 1) (st, snd acc))"

definition process_pair ::
  "prims \<Rightarrow> (string \<Rightarrow> tree option) \<Rightarrow> string \<Rightarrow> string \<Rightarrow> string \<Rightarrow> nat \<Rightarrow> diff_traversal
     \<Rightarrow> tree_error + (diff_traversal \<times> diff_work list)" where
  "process_pair P fetch before_hash after_hash prefix depth st =
     (if before_hash = after_hash then Inr (st, [])
      else
        rbind (diff_enter Before before_hash depth st) (\<lambda>st.
        rbind (diff_enter After after_hash depth st) (\<lambda>st.
        rbind (fetch_entries P fetch before_hash depth st) (\<lambda>(before_entries, st).
        rbind (fetch_entries P fetch after_hash depth st) (\<lambda>(after_entries, st).
        rbind (fold_result (diff_name P before_entries after_entries prefix depth)
                 (sort_dedup (map fst before_entries @ map fst after_entries)) (st, []))
          (\<lambda>(st, children).
        Inr (st, children @ [DExit after_hash After, DExit before_hash Before])))))))"

definition diff_child ::
  "prims \<Rightarrow> string \<Rightarrow> tree_change_kind \<Rightarrow> diff_side \<Rightarrow> nat \<Rightarrow> tree_entry
     \<Rightarrow> diff_traversal \<times> diff_work list \<Rightarrow> tree_error + (diff_traversal \<times> diff_work list)" where
  "diff_child P path kind side depth child acc =
     rbind (construct_path P path (te_name child) (depth + 1) (fst acc)) (\<lambda>(child_path, st).
     collect_or_change child child_path kind side (depth + 1) (st, snd acc))"

definition process_collect_dir ::
  "prims \<Rightarrow> (string \<Rightarrow> tree option) \<Rightarrow> string \<Rightarrow> string \<Rightarrow> tree_change_kind \<Rightarrow> diff_side \<Rightarrow> nat
     \<Rightarrow> diff_traversal \<Rightarrow> tree_error + (diff_traversal \<times> diff_work list)" where
  "process_collect_dir P fetch hash path kind side depth st =
     rbind (diff_enter side hash depth st) (\<lambda>st.
     rbind (fetch_tree P fetch hash depth st) (\<lambda>(t, st).
     rbind (fold_result (diff_child P path kind side depth) (entries t) (st, [])) (\<lambda>(st, children).
     Inr (st, children @ [DExit hash side]))))"

definition diff_step ::
  "prims \<Rightarrow> (string \<Rightarrow> tree option) \<Rightarrow> diff_work \<Rightarrow> diff_traversal
     \<Rightarrow> tree_error + (diff_traversal \<times> diff_work list)" where
  "diff_step P fetch work st =
     rbind (diff_release_pending_path (diff_pending_path_len work) st) (\<lambda>st.
     (case work of
        DPair b a prefix depth \<Rightarrow> process_pair P fetch b a prefix depth st
      | DCollect hash path kind side depth \<Rightarrow> process_collect_dir P fetch hash path kind side depth st
      | DExit hash side \<Rightarrow> rbind (diff_exit side hash st) (\<lambda>st. Inr (st, []))))"

section \<open>Effects of the loop bodies\<close>

text \<open>
  \<open>grows a cs ws b\<close>: from the accumulator \<open>a\<close> to \<open>b\<close> the changes \<open>cs\<close> and the stack items \<open>ws\<close> were
  added, the pending bytes grew with the items, and nothing but path counters changed beside.
\<close>

type_synonym diff_acc = "diff_traversal \<times> diff_work list"

abbreviation pending_sum :: "diff_work list \<Rightarrow> nat" where
  "pending_sum ws \<equiv> sum_list (map diff_pending_path_len ws)"

definition grows :: "diff_acc \<Rightarrow> tree_change list \<Rightarrow> diff_work list \<Rightarrow> diff_acc \<Rightarrow> bool" where
  "grows a cs ws b \<longleftrightarrow>
     df_changes (fst b) = df_changes (fst a) @ cs \<and> snd b = snd a @ ws
     \<and> df_pending_path_bytes (fst b) = df_pending_path_bytes (fst a) + pending_sum ws
     \<and> df_work_items (fst b) = df_work_items (fst a)
     \<and> df_before_active (fst b) = df_before_active (fst a)
     \<and> df_after_active (fst b) = df_after_active (fst a)"

lemma grows_refl: "grows a [] [] a"
  by (simp add: grows_def)

lemma grows_trans: "grows a cs ws b \<Longrightarrow> grows b cs' ws' c \<Longrightarrow> grows a (cs @ cs') (ws @ ws') c"
  by (simp add: grows_def)

lemma fold_grows:
  assumes "fold_result f xs a = Inr b"
    and "\<And>x a b. f x a = Inr b \<Longrightarrow> grows a (C x) (W x) b"
  shows "grows a (concat (map C xs)) (concat (map W xs)) b"
  using assms(1)
proof (induction xs arbitrary: a)
  case (Cons x xs)
  then obtain c where "f x a = Inr c" "fold_result f xs c = Inr b" by (auto simp: rbind_eq_Inr)
  then show ?case using Cons.IH [of c] assms(2) [of x a c] by (simp add: grows_trans)
qed (simp add: grows_refl)

lemma queue_work_grows: "queue_work w a = Inr b \<Longrightarrow> grows a [] [w] b"
  by (cases a) (auto simp: queue_work_def grows_def rbind_eq_Inr charge_ok)

lemma push_change_grows: "push_change c st = Inr st' \<Longrightarrow> grows (st, ch) [c] [] (st', ch)"
  by (auto simp: push_change_def grows_def split: if_splits)

lemma construct_path_grows:
  "construct_path P prefix name depth st = Inr (path, st') \<Longrightarrow>
     path = join_path prefix name \<and> grows (st, ch) [] [] (st', ch)"
  by (auto simp: construct_path_def grows_def rbind_eq_Inr Let_def)

definition collect_changes :: "tree_entry \<Rightarrow> string \<Rightarrow> tree_change_kind \<Rightarrow> tree_change list" where
  "collect_changes e path kind = (if is_dir e then [] else [leaf_change e path kind])"

definition collect_work ::
  "tree_entry \<Rightarrow> string \<Rightarrow> tree_change_kind \<Rightarrow> diff_side \<Rightarrow> nat \<Rightarrow> diff_work list" where
  "collect_work e path kind side depth =
     (if is_dir e then [DCollect (te_hash e) path kind side depth] else [])"

lemma collect_grows:
  "collect_or_change e path kind side depth a = Inr b \<Longrightarrow>
     grows a (collect_changes e path kind) (collect_work e path kind side depth) b"
  by (cases a) (auto simp: collect_or_change_def collect_changes_def collect_work_def rbind_eq_Inr
      split: if_splits intro: queue_work_grows push_change_grows)

text \<open>What one name of the union contributes, from the two entries it may have.\<close>

definition name_changes :: "tree_entry option \<Rightarrow> tree_entry option \<Rightarrow> string \<Rightarrow> tree_change list" where
  "name_changes lo ro path =
     (case (lo, ro) of
        (Some l, Some r) \<Rightarrow>
          if l = r \<or> is_dir l \<and> is_dir r then []
          else if is_dir l \<or> is_dir r
          then collect_changes l path Deleted @ collect_changes r path Added
          else [modified_change path l r]
      | (Some l, None) \<Rightarrow> collect_changes l path Deleted
      | (None, Some r) \<Rightarrow> collect_changes r path Added
      | (None, None) \<Rightarrow> [])"

definition name_work :: "tree_entry option \<Rightarrow> tree_entry option \<Rightarrow> string \<Rightarrow> nat \<Rightarrow> diff_work list" where
  "name_work lo ro path depth =
     (case (lo, ro) of
        (Some l, Some r) \<Rightarrow>
          if l = r then []
          else if is_dir l \<and> is_dir r then [DPair (te_hash l) (te_hash r) path depth]
          else if is_dir l \<or> is_dir r
          then collect_work l path Deleted Before depth @ collect_work r path Added After depth
          else []
      | (Some l, None) \<Rightarrow> collect_work l path Deleted Before depth
      | (None, Some r) \<Rightarrow> collect_work r path Added After depth
      | (None, None) \<Rightarrow> [])"

lemma diff_match_grows:
  "diff_match lo ro path depth a = Inr b \<Longrightarrow>
     grows a (name_changes lo ro path) (name_work lo ro path depth) b"
  by (cases a) (auto simp: diff_match_def name_changes_def name_work_def rbind_eq_Inr grows_refl
      split: option.splits if_splits
      intro: queue_work_grows push_change_grows collect_grows
      intro!: grows_trans [OF collect_grows collect_grows])

lemma diff_name_grows:
  assumes "diff_name P bs as prefix depth name a = Inr b"
  shows "grows a (name_changes (map_of bs name) (map_of as name) (join_path prefix name))
    (name_work (map_of bs name) (map_of as name) (join_path prefix name) (depth + 1)) b"
proof -
  from assms obtain path st where con: "construct_path P prefix name (depth + 1) (fst a) = Inr (path, st)"
    and m: "diff_match (map_of bs name) (map_of as name) path (depth + 1) (st, snd a) = Inr b"
    by (auto simp: diff_name_def rbind_eq_Inr)
  show ?thesis
    using construct_path_grows [OF con, of "snd a"] grows_trans [OF _ diff_match_grows [OF m]]
    by (metis append_Nil prod.collapse)
qed

lemma diff_child_grows:
  assumes "diff_child P path kind side depth e a = Inr b"
  shows "grows a (collect_changes e (join_path path (te_name e)) kind)
    (collect_work e (join_path path (te_name e)) kind side (depth + 1)) b"
proof -
  from assms obtain p st where
    con: "construct_path P path (te_name e) (depth + 1) (fst a) = Inr (p, st)"
    and c: "collect_or_change e p kind side (depth + 1) (st, snd a) = Inr b"
    by (auto simp: diff_child_def rbind_eq_Inr)
  show ?thesis
    using construct_path_grows [OF con, of "snd a"] grows_trans [OF _ collect_grows [OF c]]
    by (metis append_Nil prod.collapse)
qed

section \<open>Effects of one iteration\<close>

lemma fetch_tree_eq_Inr:
  "fetch_tree P fetch h depth st = Inr (t, st') \<longleftrightarrow>
     fetch_valid P fetch h depth = Inr t
     \<and> (\<exists>objs. record_object h (df_objects st) = Inr objs
         \<and> df_work_items st + saturating_add (length (entries t)) 1 \<le> max_tree_work_items
         \<and> st' = st\<lparr>df_objects := objs,
              df_work_items := df_work_items st + saturating_add (length (entries t)) 1\<rparr>)"
  by (auto simp: fetch_tree_def rbind_eq_Inr charge_ok)

lemma diff_enter_eq_Inr:
  "diff_enter side h depth st = Inr st' \<longleftrightarrow>
     depth \<le> max_tree_depth \<and> h \<notin> df_active side st
     \<and> st' = df_set_active side (insert h (df_active side st)) st"
  by (auto simp: diff_enter_def)

lemma df_set_active_simps [simp]:
  "df_active s (df_set_active s A st) = A"
  "s \<noteq> s' \<Longrightarrow> df_active s (df_set_active s' A st) = df_active s st"
  "df_objects (df_set_active s A st) = df_objects st"
  "df_work_items (df_set_active s A st) = df_work_items st"
  "df_pending_path_bytes (df_set_active s A st) = df_pending_path_bytes st"
  "df_changes (df_set_active s A st) = df_changes st"
  by (cases s; cases s'; simp add: df_active_def df_set_active_def)+

lemma df_active_update [simp]:
  "df_active s (st\<lparr>df_objects := x\<rparr>) = df_active s st"
  "df_active s (st\<lparr>df_work_items := n\<rparr>) = df_active s st"
  "df_active s (st\<lparr>df_pending_path_bytes := n\<rparr>) = df_active s st"
  by (cases s; simp add: df_active_def)+

lemma grows_active: "grows a cs ws b \<Longrightarrow> df_active s (fst b) = df_active s (fst a)"
  by (cases s) (simp_all add: grows_def df_active_def)

abbreviation entry_map :: "tree \<Rightarrow> string \<rightharpoonup> tree_entry" where
  "entry_map t \<equiv> map_of (rev (map (\<lambda>e. (te_name e, e)) (entries t)))"

abbreviation entry_names :: "tree \<Rightarrow> tree \<Rightarrow> string list" where
  "entry_names tb ta \<equiv> sort_dedup (map fst (rev (map (\<lambda>e. (te_name e, e)) (entries tb)))
     @ map fst (rev (map (\<lambda>e. (te_name e, e)) (entries ta))))"

lemma process_pair_cases:
  assumes "process_pair P fetch b a prefix depth st = Inr (st', new)" and "b \<noteq> a"
  obtains tb ta C W where "fetch b = Some tb" "fetch a = Some ta"
    "validate_tree P tb = Inr ()" "validate_tree P ta = Inr ()"
    "C = concat (map (\<lambda>n. name_changes (entry_map tb n) (entry_map ta n) (join_path prefix n)) (entry_names tb ta))"
    "W = concat (map (\<lambda>n. name_work (entry_map tb n) (entry_map ta n) (join_path prefix n) (depth + 1)) (entry_names tb ta))"
    "new = W @ [DExit a After, DExit b Before]" "df_changes st' = df_changes st @ C"
    "df_pending_path_bytes st' = df_pending_path_bytes st + pending_sum new"
    "b \<notin> df_active Before st" "a \<notin> df_active After st"
    "df_active Before st' = insert b (df_active Before st)"
    "df_active After st' = insert a (df_active After st)"
    "df_work_items st < df_work_items st'" "df_work_items st' \<le> max_tree_work_items"
proof -
  from assms obtain s1 s2 tb s3 ta s4 W where
      e: "diff_enter Before b depth st = Inr s1" "diff_enter After a depth s1 = Inr s2"
    and tb: "fetch_tree P fetch b depth s2 = Inr (tb, s3)"
    and ta: "fetch_tree P fetch a depth s3 = Inr (ta, s4)"
    and f: "fold_result (diff_name P (rev (map (\<lambda>e. (te_name e, e)) (entries tb)))
        (rev (map (\<lambda>e. (te_name e, e)) (entries ta))) prefix depth) (entry_names tb ta) (s4, []) = Inr (st', W)"
    and new: "new = W @ [DExit a After, DExit b Before]"
    by (auto simp: process_pair_def fetch_entries_def rbind_eq_Inr)
  from fold_grows [OF f diff_name_grows]
  have g: "grows (s4, [])
      (concat (map (\<lambda>n. name_changes (entry_map tb n) (entry_map ta n) (join_path prefix n)) (entry_names tb ta)))
      (concat (map (\<lambda>n. name_work (entry_map tb n) (entry_map ta n) (join_path prefix n) (depth + 1)) (entry_names tb ta)))
      (st', W)" .
  note eqs = e [unfolded diff_enter_eq_Inr] tb [unfolded fetch_tree_eq_Inr fetch_valid_eq_Inr]
    ta [unfolded fetch_tree_eq_Inr fetch_valid_eq_Inr]
  show thesis
    by (rule that [of tb ta, OF _ _ _ _ refl refl])
      (use eqs g new grows_active [OF g, of Before] grows_active [OF g, of After] saturating_add_pos [of 1]
        in \<open>auto simp: grows_def\<close>)
qed

lemma process_collect_cases:
  assumes "process_collect_dir P fetch h path kind side depth st = Inr (st', new)"
  obtains t C W where "fetch h = Some t" "validate_tree P t = Inr ()"
    "C = concat (map (\<lambda>e. collect_changes e (join_path path (te_name e)) kind) (entries t))"
    "W = concat (map (\<lambda>e. collect_work e (join_path path (te_name e)) kind side (depth + 1)) (entries t))"
    "new = W @ [DExit h side]" "df_changes st' = df_changes st @ C"
    "df_pending_path_bytes st' = df_pending_path_bytes st + pending_sum new"
    "h \<notin> df_active side st" "df_active side st' = insert h (df_active side st)"
    "\<And>s. s \<noteq> side \<Longrightarrow> df_active s st' = df_active s st"
    "df_work_items st < df_work_items st'" "df_work_items st' \<le> max_tree_work_items"
proof -
  from assms obtain s1 t s2 W where e: "diff_enter side h depth st = Inr s1"
    and t: "fetch_tree P fetch h depth s1 = Inr (t, s2)"
    and f: "fold_result (diff_child P path kind side depth) (entries t) (s2, []) = Inr (st', W)"
    and new: "new = W @ [DExit h side]"
    by (auto simp: process_collect_dir_def rbind_eq_Inr)
  from fold_grows [OF f diff_child_grows]
  have g: "grows (s2, [])
      (concat (map (\<lambda>e. collect_changes e (join_path path (te_name e)) kind) (entries t)))
      (concat (map (\<lambda>e. collect_work e (join_path path (te_name e)) kind side (depth + 1)) (entries t)))
      (st', W)" .
  note eqs = e [unfolded diff_enter_eq_Inr] t [unfolded fetch_tree_eq_Inr fetch_valid_eq_Inr]
  show thesis
    by (rule that [of t, OF _ _ refl refl])
      (use eqs g new grows_active [OF g] saturating_add_pos [of 1] in \<open>auto simp: grows_def\<close>)
qed

lemma diff_step_cases:
  assumes "diff_step P fetch w st = Inr (st', new)"
  obtains (Exit) h side where "w = DExit h side" "h \<in> df_active side st" "new = []"
      "st' = df_set_active side (df_active side st - {h}) st"
  | (Same) h prefix depth where "w = DPair h h prefix depth" "new = []"
      "length prefix \<le> df_pending_path_bytes st"
      "st' = st\<lparr>df_pending_path_bytes := df_pending_path_bytes st - length prefix\<rparr>"
  | (Pair) b a prefix depth where "w = DPair b a prefix depth" "b \<noteq> a"
      "length prefix \<le> df_pending_path_bytes st"
      "process_pair P fetch b a prefix depth
        (st\<lparr>df_pending_path_bytes := df_pending_path_bytes st - length prefix\<rparr>) = Inr (st', new)"
  | (Collect) h path kind side depth where "w = DCollect h path kind side depth"
      "length path \<le> df_pending_path_bytes st"
      "process_collect_dir P fetch h path kind side depth
        (st\<lparr>df_pending_path_bytes := df_pending_path_bytes st - length path\<rparr>) = Inr (st', new)"
proof (cases w)
  case (DPair b a prefix depth)
  with assms Same Pair show ?thesis
    by (cases "b = a") (auto simp: diff_step_def diff_release_pending_path_def rbind_eq_Inr process_pair_def)
next
  case DCollect
  with assms Collect show ?thesis
    by (auto simp: diff_step_def diff_release_pending_path_def rbind_eq_Inr)
next
  case DExit
  with assms Exit show ?thesis
    by (auto simp: diff_step_def diff_release_pending_path_def rbind_eq_Inr diff_exit_def split: if_splits)
qed

lemma diff_progress:
  assumes "diff_step P fetch w st = Inr (st', new)"
  shows "new = [] \<and> df_work_items st' = df_work_items st
    \<or> df_work_items st < df_work_items st' \<and> df_work_items st' \<le> max_tree_work_items"
  using assms
proof (cases rule: diff_step_cases)
  case Pair
  from Pair(4,2) show ?thesis by (rule process_pair_cases) simp
next
  case Collect
  from Collect(3) show ?thesis by (rule process_collect_cases) simp
qed simp_all

section \<open>The loop\<close>

function diff_run ::
  "prims \<Rightarrow> (string \<Rightarrow> tree option) \<Rightarrow> diff_work list \<Rightarrow> diff_traversal \<Rightarrow> tree_error + diff_traversal" where
  "diff_run P fetch [] st = Inr st"
| "diff_run P fetch (w # pending) st =
     rbind (diff_step P fetch w st) (\<lambda>r. diff_run P fetch (snd r @ pending) (fst r))"
  by pat_completeness auto
termination
proof (relation "measures [\<lambda>(_, _, _, st). Suc max_tree_work_items - df_work_items st,
    \<lambda>(_, _, ws, _). length ws]", goal_cases)
  case (2 P fetch w pending st r)
  then show ?case using diff_progress [of P fetch w st "fst r" "snd r"] by auto
qed simp

definition diff_trees ::
  "prims \<Rightarrow> string \<Rightarrow> string \<Rightarrow> (string \<Rightarrow> tree option) \<Rightarrow> tree_error + tree_change list" where
  "diff_trees P before after fetch =
     (if before = after then Inr []
      else
        rbind (diff_run P fetch [DPair before after [] 0]
          \<lparr>df_before_active = {}, df_after_active = {}, df_objects = {}, df_work_items = 0,
           df_constructed_path_bytes = 0, df_pending_path_bytes = 0, df_changes = []\<rparr>) (\<lambda>traversal.
        Inr (sort_key tc_path (df_changes traversal))))"

interpretation diff: worklist "diff_step P fetch" "diff_run P fetch" df_work_items max_tree_work_items
  by unfold_locales (auto simp: case_prod_unfold dest: diff_progress)

section \<open>The difference of two sets of leaves\<close>

text \<open>
  \<open>leaf_diff L R path_of\<close> is the set of changes between two assignments of leaves to component
  lists. It does not speak of trees, so that it can be taken apart one level at a time.
\<close>

type_synonym leaves = "string list \<Rightarrow> tree_entry \<Rightarrow> bool"

definition only_changes :: "leaves \<Rightarrow> string \<Rightarrow> tree_change_kind \<Rightarrow> tree_change set" where
  "only_changes L pre kind = {leaf_change e (foldl join_path pre cs) kind | cs e. L cs e}"

definition leaf_diff :: "leaves \<Rightarrow> leaves \<Rightarrow> string \<Rightarrow> tree_change set" where
  "leaf_diff L R pre =
     {modified_change (foldl join_path pre cs) l r | cs l r. L cs l \<and> R cs r \<and> \<not> R cs l}
     \<union> only_changes (\<lambda>cs e. L cs e \<and> \<not> (\<exists>r. R cs r)) pre Deleted
     \<union> only_changes (\<lambda>cs e. R cs e \<and> \<not> (\<exists>l. L cs l)) pre Added"

definition leaf_in :: "(string \<Rightarrow> tree option) \<Rightarrow> tree_entry \<Rightarrow> leaves" where
  "leaf_in fetch e cs x \<longleftrightarrow>
     (if is_dir e then tree_leaf fetch (te_hash e) cs x else cs = [] \<and> x = e)"

definition opt_leaf_in :: "(string \<Rightarrow> tree option) \<Rightarrow> tree_entry option \<Rightarrow> leaves" where
  "opt_leaf_in fetch eo cs x \<longleftrightarrow> (\<exists>e. eo = Some e \<and> leaf_in fetch e cs x)"

lemma leaf_diff_same [simp]: "leaf_diff L L pre = {}"
  by (auto simp: leaf_diff_def only_changes_def)

lemma leaf_diff_disjoint:
  assumes "\<And>cs l r. L cs l \<Longrightarrow> R cs r \<Longrightarrow> False"
  shows "leaf_diff L R pre = only_changes L pre Deleted \<union> only_changes R pre Added"
  using assms unfolding leaf_diff_def only_changes_def by blast

lemma only_changes_split:
  assumes "\<And>e. \<not> L [] e"
  shows "only_changes L pre kind = (\<Union>c. only_changes (\<lambda>cs. L (c # cs)) (join_path pre c) kind)"
proof -
  have "(\<exists>cs e. x = leaf_change e (foldl join_path pre cs) kind \<and> L cs e) \<longleftrightarrow>
    (\<exists>c cs e. x = leaf_change e (foldl join_path (join_path pre c) cs) kind \<and> L (c # cs) e)" for x
    using assms by (metis foldl_Cons list.exhaust)
  then show ?thesis by (auto simp: only_changes_def)
qed

lemma Collect_ex: "{x. \<exists>c. Q c x} = (\<Union>c. {x. Q c x})"
  by blast

lemma leaf_diff_split:
  assumes "\<And>e. \<not> L [] e" and "\<And>e. \<not> R [] e"
  shows "leaf_diff L R pre = (\<Union>c. leaf_diff (\<lambda>cs. L (c # cs)) (\<lambda>cs. R (c # cs)) (join_path pre c))"
proof -
  have "{modified_change (foldl join_path pre cs) l r | cs l r. L cs l \<and> R cs r \<and> \<not> R cs l} =
    {x. \<exists>c cs l r. x = modified_change (foldl join_path (join_path pre c) cs) l r
       \<and> L (c # cs) l \<and> R (c # cs) r \<and> \<not> R (c # cs) l}"
    using assms by (intro Collect_cong) (metis foldl_Cons list.exhaust)
  also have "\<dots> = (\<Union>c. {modified_change (foldl join_path (join_path pre c) cs) l r | cs l r.
       L (c # cs) l \<and> R (c # cs) r \<and> \<not> R (c # cs) l})" by (rule Collect_ex)
  finally have "{modified_change (foldl join_path pre cs) l r | cs l r. L cs l \<and> R cs r \<and> \<not> R cs l} = \<dots>" .
  moreover have "only_changes (\<lambda>cs e. L cs e \<and> \<not> (\<exists>r. R cs r)) pre Deleted =
    (\<Union>c. only_changes (\<lambda>cs e. L (c # cs) e \<and> \<not> (\<exists>r. R (c # cs) r)) (join_path pre c) Deleted)"
    by (rule only_changes_split) (simp add: assms)
  moreover have "only_changes (\<lambda>cs e. R cs e \<and> \<not> (\<exists>l. L cs l)) pre Added =
    (\<Union>c. only_changes (\<lambda>cs e. R (c # cs) e \<and> \<not> (\<exists>l. L (c # cs) l)) (join_path pre c) Added)"
    by (rule only_changes_split) (simp add: assms)
  ultimately show ?thesis unfolding leaf_diff_def by (simp only: UN_Un_distrib)
qed

lemma entry_map_eq:
  assumes "validate_tree P t = Inr ()"
  shows "entry_map t n = Some e \<longleftrightarrow> e \<in> set (entries t) \<and> te_name e = n"
proof -
  have "map fst (rev (map (\<lambda>e. (te_name e, e)) (entries t))) = rev (map te_name (entries t))"
    by (simp add: rev_map comp_def)
  then have "distinct (map fst (rev (map (\<lambda>e. (te_name e, e)) (entries t))))"
    using assms by (simp only: validate_tree_iff distinct_rev)
  from map_of_eq_Some_iff [OF this] show ?thesis by auto
qed

lemma tree_leaf_entry_map:
  assumes "fetch h = Some t" "validate_tree P t = Inr ()"
  shows "(\<lambda>cs. tree_leaf fetch h (c # cs)) = opt_leaf_in fetch (entry_map t c)"
  unfolding fun_eq_iff tree_leaf_Cons opt_leaf_in_def leaf_in_def entry_map_eq [OF assms(2)]
  using assms(1) by auto

lemma leaf_in_nonempty: "leaf_in fetch e cs x \<Longrightarrow> is_dir e \<longleftrightarrow> cs \<noteq> []"
  by (auto simp: leaf_in_def split: if_splits dest: tree_leaf_nonempty)

section \<open>The changes a stack item still has to deliver\<close>

fun item_changes :: "(string \<Rightarrow> tree option) \<Rightarrow> diff_work \<Rightarrow> tree_change set" where
  "item_changes fetch (DPair b a prefix _) = leaf_diff (tree_leaf fetch b) (tree_leaf fetch a) prefix"
| "item_changes fetch (DCollect h path kind _ _) = only_changes (tree_leaf fetch h) path kind"
| "item_changes fetch (DExit _ _) = {}"

abbreviation delivers :: "(string \<Rightarrow> tree option) \<Rightarrow> tree_change list \<Rightarrow> diff_work list \<Rightarrow> tree_change set" where
  "delivers fetch cs ws \<equiv> set cs \<union> (\<Union>w\<in>set ws. item_changes fetch w)"

lemma collect_delivers:
  "delivers fetch (collect_changes e path kind) (collect_work e path kind side depth)
     = only_changes (leaf_in fetch e) path kind"
  by (auto simp: collect_changes_def collect_work_def only_changes_def leaf_in_def)

lemma only_changes_opt [simp]:
  "only_changes (opt_leaf_in fetch (Some e)) path kind = only_changes (leaf_in fetch e) path kind"
  "only_changes (opt_leaf_in fetch None) path kind = {}"
  by (simp_all add: only_changes_def opt_leaf_in_def)

lemma mem_only_changes_opt:
  "x \<in> only_changes (opt_leaf_in fetch eo) path kind \<longleftrightarrow>
     (\<exists>e. eo = Some e \<and> x \<in> only_changes (leaf_in fetch e) path kind)"
  by (cases eo) simp_all

lemma leaf_diff_files:
  assumes "\<not> is_dir l" "\<not> is_dir r" "l \<noteq> r"
  shows "leaf_diff (leaf_in fetch l) (leaf_in fetch r) path = {modified_change path l r}"
  using assms by (auto simp: leaf_diff_def only_changes_def leaf_in_def)

lemma name_delivers:
  "delivers fetch (name_changes lo ro path) (name_work lo ro path depth)
     = leaf_diff (opt_leaf_in fetch lo) (opt_leaf_in fetch ro) path"
proof -
  have some: "opt_leaf_in fetch (Some e) = leaf_in fetch e" for e
    by (simp add: opt_leaf_in_def fun_eq_iff)
  have none: "opt_leaf_in fetch None = (\<lambda>_ _. False)" by (simp add: opt_leaf_in_def fun_eq_iff)
  note simps = name_changes_def name_work_def some none leaf_diff_disjoint
  show ?thesis
  proof (cases lo; cases ro)
    fix l r assume lr: "lo = Some l" "ro = Some r"
    consider "l = r" | "l \<noteq> r" "is_dir l" "is_dir r" | "l \<noteq> r" "is_dir l \<noteq> is_dir r"
      | "l \<noteq> r" "\<not> is_dir l" "\<not> is_dir r" by blast
    then show ?thesis
    proof cases
      case 2
      then have "leaf_in fetch l = tree_leaf fetch (te_hash l)" "leaf_in fetch r = tree_leaf fetch (te_hash r)"
        by (simp_all add: leaf_in_def fun_eq_iff)
      with 2 show ?thesis using lr by (simp add: simps)
    next
      case 3
      have "leaf_diff (leaf_in fetch l) (leaf_in fetch r) path =
        only_changes (leaf_in fetch l) path Deleted \<union> only_changes (leaf_in fetch r) path Added"
        using 3 by (intro leaf_diff_disjoint) (metis leaf_in_nonempty)
      then show ?thesis using 3 lr
          collect_delivers [of l path Deleted fetch Before depth]
          collect_delivers [of r path Added fetch After depth]
        by (auto simp: name_changes_def name_work_def some)
    qed (use lr in \<open>simp_all add: simps leaf_diff_files\<close>)
  qed (use collect_delivers in \<open>simp_all add: simps only_changes_def\<close>)
qed

lemma UN_restrict: "(\<And>n. n \<notin> A \<Longrightarrow> F n = {}) \<Longrightarrow> (\<Union>n. F n) = (\<Union>n\<in>A. F n)"
  by blast

lemma pair_delivers:
  assumes tb: "fetch b = Some tb" "validate_tree P tb = Inr ()"
    and ta: "fetch a = Some ta" "validate_tree P ta = Inr ()"
  shows "delivers fetch
      (concat (map (\<lambda>n. name_changes (entry_map tb n) (entry_map ta n) (join_path pre n)) (entry_names tb ta)))
      (concat (map (\<lambda>n. name_work (entry_map tb n) (entry_map ta n) (join_path pre n) d) (entry_names tb ta)))
    = leaf_diff (tree_leaf fetch b) (tree_leaf fetch a) pre"
proof -
  have none: "leaf_diff (opt_leaf_in fetch (entry_map tb n)) (opt_leaf_in fetch (entry_map ta n)) p = {}"
    if "n \<notin> set (entry_names tb ta)" for n p
  proof -
    have "entry_map tb n = None" "entry_map ta n = None"
      using that by (auto simp: map_of_eq_None_iff image_iff)
    then show ?thesis by simp
  qed
  have "leaf_diff (tree_leaf fetch b) (tree_leaf fetch a) pre =
    (\<Union>n. leaf_diff (opt_leaf_in fetch (entry_map tb n)) (opt_leaf_in fetch (entry_map ta n)) (join_path pre n))"
    by (subst leaf_diff_split) (simp_all add: tree_leaf_entry_map [of fetch b tb P, OF tb] tree_leaf_entry_map [of fetch a ta P, OF ta])
  also have "\<dots> = (\<Union>n\<in>set (entry_names tb ta).
      leaf_diff (opt_leaf_in fetch (entry_map tb n)) (opt_leaf_in fetch (entry_map ta n)) (join_path pre n))"
    by (rule UN_restrict) (rule none)
  also have "\<dots> = (\<Union>n\<in>set (entry_names tb ta). delivers fetch
      (name_changes (entry_map tb n) (entry_map ta n) (join_path pre n))
      (name_work (entry_map tb n) (entry_map ta n) (join_path pre n) d))"
    by (simp only: name_delivers)
  finally show ?thesis by auto
qed

lemma dir_delivers:
  assumes t: "fetch h = Some t" "validate_tree P t = Inr ()"
  shows "delivers fetch
      (concat (map (\<lambda>e. collect_changes e (join_path path (te_name e)) kind) (entries t)))
      (concat (map (\<lambda>e. collect_work e (join_path path (te_name e)) kind side d) (entries t)))
    = only_changes (tree_leaf fetch h) path kind"
proof -
  have "only_changes (tree_leaf fetch h) path kind =
    (\<Union>c. only_changes (opt_leaf_in fetch (entry_map t c)) (join_path path c) kind)"
    by (subst only_changes_split) (simp_all add: tree_leaf_entry_map [of fetch h t P, OF t])
  also have "\<dots> = (\<Union>e\<in>set (entries t). only_changes (leaf_in fetch e) (join_path path (te_name e)) kind)"
  proof -
    have mem: "x \<in> only_changes (opt_leaf_in fetch (entry_map t c)) (join_path path c) kind \<longleftrightarrow>
      (\<exists>e\<in>set (entries t). te_name e = c \<and> x \<in> only_changes (leaf_in fetch e) (join_path path c) kind)" for x c
      by (simp only: mem_only_changes_opt entry_map_eq [OF t(2)] Bex_def conj_assoc)
    show ?thesis unfolding set_eq_iff UN_iff mem by blast
  qed
  also have "\<dots> = (\<Union>e\<in>set (entries t). delivers fetch
      (collect_changes e (join_path path (te_name e)) kind)
      (collect_work e (join_path path (te_name e)) kind side d))"
    by (simp only: collect_delivers)
  finally show ?thesis by auto
qed

definition diff_inv :: "(string \<Rightarrow> tree option) \<Rightarrow> tree_change set \<Rightarrow> diff_work list \<Rightarrow> diff_traversal \<Rightarrow> bool" where
  "diff_inv fetch goal ws st \<longleftrightarrow> delivers fetch (df_changes st) ws = goal"

lemma diff_inv_step:
  assumes inv: "diff_inv fetch goal (w # ws) st" and step: "diff_step P fetch w st = Inr (st', new)"
  shows "diff_inv fetch goal (new @ ws) st'"
  using step
proof (cases rule: diff_step_cases)
  case (Pair b a prefix depth)
  from Pair(4,2) show ?thesis
  proof (rule process_pair_cases)
    fix tb ta C W
    assume t: "fetch b = Some tb" "fetch a = Some ta" "validate_tree P tb = Inr ()" "validate_tree P ta = Inr ()"
      and C: "C = concat (map (\<lambda>n. name_changes (entry_map tb n) (entry_map ta n) (join_path prefix n)) (entry_names tb ta))"
      and W: "W = concat (map (\<lambda>n. name_work (entry_map tb n) (entry_map ta n) (join_path prefix n) (depth + 1)) (entry_names tb ta))"
      and new: "new = W @ [DExit a After, DExit b Before]"
      and ch: "df_changes st' = df_changes (st\<lparr>df_pending_path_bytes := df_pending_path_bytes st - length prefix\<rparr>) @ C"
    from pair_delivers [of fetch b tb P a ta prefix "depth + 1", OF t(1,3,2,4), folded C W]
    show ?thesis using inv unfolding diff_inv_def Pair(1) new ch by auto
  qed
next
  case (Collect h path kind side depth)
  from Collect(3) show ?thesis
  proof (rule process_collect_cases)
    fix t C W
    assume t: "fetch h = Some t" "validate_tree P t = Inr ()"
      and C: "C = concat (map (\<lambda>e. collect_changes e (join_path path (te_name e)) kind) (entries t))"
      and W: "W = concat (map (\<lambda>e. collect_work e (join_path path (te_name e)) kind side (depth + 1)) (entries t))"
      and new: "new = W @ [DExit h side]"
      and ch: "df_changes st' = df_changes (st\<lparr>df_pending_path_bytes := df_pending_path_bytes st - length path\<rparr>) @ C"
    from dir_delivers [of fetch h t P path kind side "depth + 1", OF t, folded C W]
    show ?thesis using inv unfolding diff_inv_def Collect(1) new ch by auto
  qed
qed (use inv in \<open>auto simp: diff_inv_def\<close>)

text \<open>
  C7: The changes that \<^verbatim>\<open>diff_trees\<close> reports are exactly the difference between the leaves of the two
  roots, in path order: a modified path is a leaf on both sides whose entries differ, a
  deleted path a leaf of the first tree where the second has none, an added path the reverse.
  Skipping subtrees with equal identifiers loses nothing, and a file that became a directory is
  reported as a deletion and the additions below it.
\<close>

theorem diff_trees_correct:
  assumes "diff_trees P before after fetch = Inr changes"
  shows "sorted (map tc_path changes) \<and>
    set changes = leaf_diff (tree_leaf fetch before) (tree_leaf fetch after) []"
proof (cases "before = after")
  case True
  with assms show ?thesis by (simp add: diff_trees_def)
next
  case False
  let ?st = "\<lparr>df_before_active = {}, df_after_active = {}, df_objects = {}, df_work_items = 0,
    df_constructed_path_bytes = 0, df_pending_path_bytes = 0, df_changes = []\<rparr>"
  let ?goal = "leaf_diff (tree_leaf fetch before) (tree_leaf fetch after) []"
  from assms False obtain st where run: "diff_run P fetch [DPair before after [] 0] ?st = Inr st"
    and ch: "changes = sort_key tc_path (df_changes st)"
    by (auto simp: diff_trees_def rbind_eq_Inr)
  have "diff_inv fetch ?goal [] st"
    by (rule diff.run_invariant [where I = "diff_inv fetch ?goal", OF run])
      (simp add: diff_inv_def, erule (1) diff_inv_step)
  then show ?thesis by (simp add: ch diff_inv_def)
qed

section \<open>Internal consistency\<close>

definition side_exits :: "diff_side \<Rightarrow> diff_work list \<Rightarrow> string list" where
  "side_exits side ws = [h. DExit h s \<leftarrow> ws, s = side]"

lemma side_exits_simps [simp]:
  "side_exits side [] = []" "side_exits side (DPair b a p d # ws) = side_exits side ws"
  "side_exits side (DCollect h p k s d # ws) = side_exits side ws"
  "side_exits side (DExit h s # ws) = (if s = side then h # side_exits side ws else side_exits side ws)"
  "side_exits side (ws @ vs) = side_exits side ws @ side_exits side vs"
  by (simp_all add: side_exits_def)

lemma side_exits_concat [simp]: "side_exits side (concat wss) = concat (map (side_exits side) wss)"
  by (induction wss) simp_all

lemma side_exits_work [simp]:
  "side_exits side (collect_work e p k s d) = []" "side_exits side (name_work lo ro p d) = []"
  by (simp_all add: collect_work_def name_work_def split: option.splits)

definition diff_stack_inv :: "diff_work list \<Rightarrow> diff_traversal \<Rightarrow> bool" where
  "diff_stack_inv ws st \<longleftrightarrow>
     (\<forall>side. distinct (side_exits side ws) \<and> df_active side st = set (side_exits side ws))
     \<and> df_pending_path_bytes st = pending_sum ws"

lemma diff_stack_inv_step:
  assumes inv: "diff_stack_inv (w # ws) st" and step: "diff_step P fetch w st = Inr (st', new)"
  shows "diff_stack_inv (new @ ws) st'"
proof -
  have act: "distinct (side_exits s (w # ws))" "df_active s st = set (side_exits s (w # ws))" for s
    using inv by (simp_all add: diff_stack_inv_def)
  have pend: "df_pending_path_bytes st = diff_pending_path_len w + pending_sum ws"
    using inv by (simp add: diff_stack_inv_def)
  have "distinct (side_exits s (new @ ws)) \<and> df_active s st' = set (side_exits s (new @ ws))" for s
    using step
  proof (cases rule: diff_step_cases)
    case (Exit h side)
    then show ?thesis using act [of s] by (cases "s = side") auto
  next
    case Same
    then show ?thesis using act [of s] by simp
  next
    case (Pair b a prefix depth)
    from Pair(4,2) show ?thesis
    proof (rule process_pair_cases, goal_cases)
      case (1 tb ta C W)
      have ex: "side_exits side W = []" for side by (simp add: 1(6) concat_eq_Nil_conv)
      show ?thesis
        using act [of s] 1(10-13) unfolding 1(7) Pair(1) by (cases s) (simp_all add: ex)
    qed
  next
    case (Collect h path kind side depth)
    from Collect(3) show ?thesis
    proof (rule process_collect_cases, goal_cases)
      case (1 t C W)
      have ex: "side_exits side W = []" for side by (simp add: 1(4) concat_eq_Nil_conv)
      show ?thesis
        using act [of s] 1(8,9) 1(10) [of s] unfolding 1(5) Collect(1)
        by (cases "s = side") (simp_all add: ex)
    qed
  qed
  moreover have "df_pending_path_bytes st' = pending_sum (new @ ws)"
    using step
  proof (cases rule: diff_step_cases)
    case (Pair b a prefix depth)
    from Pair(4,2) show ?thesis
      by (rule process_pair_cases) (use pend Pair(1) in simp)
  next
    case (Collect h path kind side depth)
    from Collect(3) show ?thesis
      by (rule process_collect_cases) (use pend Collect(1) in simp)
  qed (use pend in simp_all)
  ultimately show ?thesis by (simp add: diff_stack_inv_def)
qed

fun internal_error :: "tree_error \<Rightarrow> bool" where
  "internal_error PendingUnderflow = True"
| "internal_error (LostActive _) = True"
| "internal_error _ = False"

lemma charge_not_internal:
  "charge limit e amount counter = Inl err \<Longrightarrow> \<not> internal_error e \<Longrightarrow> \<not> internal_error err"
  by (auto dest: charge_eq_Inl)

lemma fold_not_internal:
  "fold_result f xs a = Inl err \<Longrightarrow> (\<And>x a e. f x a = Inl e \<Longrightarrow> \<not> internal_error e) \<Longrightarrow> \<not> internal_error err"
  by (induction xs arbitrary: a) (auto simp: rbind_eq_Inl)

lemma queue_work_not_internal: "queue_work w a = Inl err \<Longrightarrow> \<not> internal_error err"
  by (cases a) (auto simp: queue_work_def rbind_eq_Inl dest: charge_not_internal)

lemma collect_not_internal:
  "collect_or_change e path kind side depth a = Inl err \<Longrightarrow> \<not> internal_error err"
  by (auto simp: collect_or_change_def rbind_eq_Inl push_change_def split: if_splits
      dest: queue_work_not_internal)

lemma construct_path_not_internal: "construct_path P prefix name depth st = Inl err \<Longrightarrow> \<not> internal_error err"
  by (auto simp: construct_path_def Let_def rbind_eq_Inl validate_output_path_def split: if_splits
      dest: charge_not_internal)

lemma diff_match_not_internal:
  assumes "diff_match lo ro path depth a = Inl err"
  shows "\<not> internal_error err"
  using assms unfolding diff_match_def
  by (cases lo; cases ro) (auto simp: rbind_eq_Inl push_change_def split: if_splits
      dest: collect_not_internal queue_work_not_internal)

lemma diff_name_not_internal: "diff_name P bs as prefix depth name a = Inl err \<Longrightarrow> \<not> internal_error err"
  by (auto simp: diff_name_def rbind_eq_Inl dest: construct_path_not_internal diff_match_not_internal)

lemma diff_child_not_internal: "diff_child P path kind side depth e a = Inl err \<Longrightarrow> \<not> internal_error err"
  by (auto simp: diff_child_def rbind_eq_Inl dest: construct_path_not_internal collect_not_internal)

lemma fetch_tree_not_internal: "fetch_tree P fetch h depth st = Inl err \<Longrightarrow> \<not> internal_error err"
  by (auto simp: fetch_tree_def rbind_eq_Inl record_object_def fetch_valid_def ok_or_def map_err_def
      split: if_splits option.splits sum.splits dest: charge_not_internal)

lemma diff_enter_not_internal: "diff_enter side h depth st = Inl err \<Longrightarrow> \<not> internal_error err"
  by (auto simp: diff_enter_def split: if_splits)

lemma fold_diff_not_internal:
  "fold_result (diff_name P bs as prefix depth) ns a = Inl err \<Longrightarrow> \<not> internal_error err"
  "fold_result (diff_child P path kind side depth) es a = Inl err \<Longrightarrow> \<not> internal_error err"
  by (erule fold_not_internal, erule diff_name_not_internal)
    (erule fold_not_internal, erule diff_child_not_internal)

lemma process_not_internal:
  "process_pair P fetch b a prefix depth st = Inl err \<Longrightarrow> \<not> internal_error err"
  "process_collect_dir P fetch h path kind side depth st = Inl err \<Longrightarrow> \<not> internal_error err"
  by (auto simp: process_pair_def process_collect_dir_def fetch_entries_def rbind_eq_Inl
      split: if_splits prod.splits
      dest: fetch_tree_not_internal diff_enter_not_internal fold_diff_not_internal)

lemma diff_step_not_internal:
  assumes inv: "diff_stack_inv (w # ws) st" and step: "diff_step P fetch w st = Inl err"
  shows "\<not> internal_error err"
proof -
  have "diff_release_pending_path (diff_pending_path_len w) st =
      Inr (st\<lparr>df_pending_path_bytes := pending_sum ws\<rparr>)"
    using inv by (simp add: diff_release_pending_path_def diff_stack_inv_def checked_sub_def)
  moreover have "h \<in> df_active side st" if "w = DExit h side" for h side
    using inv that unfolding diff_stack_inv_def by simp
  ultimately show ?thesis
    using step by (cases w) (auto simp: diff_step_def diff_exit_def rbind_eq_Inl dest: process_not_internal)
qed

abbreviation diff_start :: diff_traversal where
  "diff_start \<equiv> \<lparr>df_before_active = {}, df_after_active = {}, df_objects = {}, df_work_items = 0,
     df_constructed_path_bytes = 0, df_pending_path_bytes = 0, df_changes = []\<rparr>"

lemma diff_stack_inv_start: "diff_stack_inv [DPair before after [] 0] diff_start"
  unfolding diff_stack_inv_def by (auto simp: df_active_def split: diff_side.split)

text \<open>
  C8: The internal errors of the difference traversal never occur, and when it ends without
  error both sides have left every directory they entered and no pending path bytes remain.
\<close>

theorem diff_consistent:
  "(\<forall>err. diff_trees P before after fetch = Inl err \<longrightarrow> \<not> internal_error err)
   \<and> (diff_run P fetch [DPair before after [] 0] diff_start = Inr st \<longrightarrow>
        df_before_active st = {} \<and> df_after_active st = {} \<and> df_pending_path_bytes st = 0)"
proof (intro conjI allI impI)
  fix err assume "diff_trees P before after fetch = Inl err"
  then have "diff_run P fetch [DPair before after [] 0] diff_start = Inl err"
    by (auto simp: diff_trees_def rbind_eq_Inl split: if_splits)
  then have "\<exists>w ws s. diff_stack_inv (w # ws) s \<and> diff_step P fetch w s = Inl err"
    by (rule diff.run_error [where I = diff_stack_inv])
      (rule diff_stack_inv_start, erule (1) diff_stack_inv_step)
  then show "\<not> internal_error err" using diff_step_not_internal by blast
next
  assume "diff_run P fetch [DPair before after [] 0] diff_start = Inr st"
  then have "diff_stack_inv [] st"
    by (rule diff.run_invariant [where I = diff_stack_inv])
      (rule diff_stack_inv_start, erule (1) diff_stack_inv_step)
  then have "df_active Before st = {}" "df_active After st = {}" "df_pending_path_bytes st = 0"
    by (simp_all add: diff_stack_inv_def)
  then show "df_before_active st = {}" "df_after_active st = {}" "df_pending_path_bytes st = 0"
    by (simp_all add: df_active_def)
qed

section \<open>Worked examples\<close>

text \<open>Two roots over a shared directory; in the second \<open>a\<close> is edited and \<open>x\<close> became a directory.\<close>

definition diff_store :: "string \<Rightarrow> tree option" where
  "diff_store = map_of
     [(sample_hash (CHR ''0''),
        \<lparr>entries = [\<lparr>te_name = ''a'', te_kind = File, te_hash = sample_hash (CHR ''a''), te_size = 7, te_mode = 0\<rparr>,
          \<lparr>te_name = ''lib'', te_kind = Dir, te_hash = sample_hash (CHR ''2''), te_size = 0, te_mode = 0\<rparr>,
          \<lparr>te_name = ''x'', te_kind = File, te_hash = sample_hash (CHR ''c''), te_size = 1, te_mode = 0\<rparr>]\<rparr>),
      (sample_hash (CHR ''1''),
        \<lparr>entries = [\<lparr>te_name = ''a'', te_kind = File, te_hash = sample_hash (CHR ''b''), te_size = 8, te_mode = 0\<rparr>,
          \<lparr>te_name = ''lib'', te_kind = Dir, te_hash = sample_hash (CHR ''2''), te_size = 0, te_mode = 0\<rparr>,
          \<lparr>te_name = ''x'', te_kind = Dir, te_hash = sample_hash (CHR ''2''), te_size = 0, te_mode = 0\<rparr>]\<rparr>),
      (sample_hash (CHR ''2''),
        \<lparr>entries = [\<lparr>te_name = ''m'', te_kind = File, te_hash = sample_hash (CHR ''d''), te_size = 3, te_mode = 0\<rparr>]\<rparr>)]"

lemma sample_diff:
  "diff_trees sample_prims (sample_hash (CHR ''0'')) (sample_hash (CHR ''1'')) diff_store =
   Inr [\<lparr>tc_path = ''a'', tc_kind = Modified,
     tc_before = Some \<lparr>te_name = ''a'', te_kind = File, te_hash = sample_hash (CHR ''a''), te_size = 7, te_mode = 0\<rparr>,
     tc_after = Some \<lparr>te_name = ''a'', te_kind = File, te_hash = sample_hash (CHR ''b''), te_size = 8, te_mode = 0\<rparr>\<rparr>,
    \<lparr>tc_path = ''x'', tc_kind = Deleted,
     tc_before = Some \<lparr>te_name = ''x'', te_kind = File, te_hash = sample_hash (CHR ''c''), te_size = 1, te_mode = 0\<rparr>,
     tc_after = None\<rparr>,
    \<lparr>tc_path = ''x/m'', tc_kind = Added, tc_before = None,
     tc_after = Some \<lparr>te_name = ''m'', te_kind = File, te_hash = sample_hash (CHR ''d''), te_size = 3, te_mode = 0\<rparr>\<rparr>]"
  by code_simp

theorem diff_trees_correct_witness:
  "\<exists>changes. diff_trees sample_prims (sample_hash (CHR ''0'')) (sample_hash (CHR ''1'')) diff_store = Inr changes
     \<and> map tc_path changes = [''a'', ''x'', ''x/m'']
     \<and> set changes = leaf_diff (tree_leaf diff_store (sample_hash (CHR ''0'')))
         (tree_leaf diff_store (sample_hash (CHR ''1''))) []"
  using diff_trees_correct [OF sample_diff] sample_diff by auto

theorem diff_consistent_witness:
  "\<exists>st. diff_run sample_prims diff_store [DPair (sample_hash (CHR ''0'')) (sample_hash (CHR ''1'')) [] 0]
       diff_start = Inr st
     \<and> df_before_active st = {} \<and> df_after_active st = {} \<and> df_pending_path_bytes st = 0"
proof -
  have "sample_hash (CHR ''0'') \<noteq> sample_hash (CHR ''1'')" by code_simp
  then obtain st where st: "diff_run sample_prims diff_store
      [DPair (sample_hash (CHR ''0'')) (sample_hash (CHR ''1'')) [] 0] diff_start = Inr st"
    using sample_diff unfolding diff_trees_def by (auto simp: rbind_eq_Inr)
  then show ?thesis
    using diff_consistent [of sample_prims "sample_hash (CHR ''0'')" "sample_hash (CHR ''1'')" diff_store st]
    by blast
qed

end
