(* ===== verification/Three_Way.thy ===== *)
theory Three_Way
  imports Portable
begin

text \<open>
  Three-way conflict detection (\<^verbatim>\<open>common/src/three_way.rs\<close>). A path's visible content is its hash
  and mode, or nothing when the file is absent or deleted; the theorems say which candidate
  paths are reported as conflicts in terms of the content of the three sides.

  The hash maps the code only looks up are partial functions, its hash sets are sets.
\<close>

section \<open>Visible content\<close>

type_synonym view = "string \<rightharpoonup> file_state"

definition content_of :: "file_state option \<Rightarrow> (string \<times> u32) option" where
  "content_of st = (case st of
     Some s \<Rightarrow> if fs_deleted s then None else Some (fs_hash s, fs_mode s) | None \<Rightarrow> None)"

lemma content_of_simps [simp]:
  "content_of None = None"
  "fs_deleted s \<Longrightarrow> content_of (Some s) = None"
  "\<not> fs_deleted s \<Longrightarrow> content_of (Some s) = Some (fs_hash s, fs_mode s)"
  by (simp_all add: content_of_def)

section \<open>Classification and detection\<close>

definition classify_conflict_kind ::
  "file_state \<Rightarrow> file_state option \<Rightarrow> file_state option \<Rightarrow> bool \<Rightarrow> conflict_kind" where
  "classify_conflict_kind base ours theirs their_deleted =
     (let we_deleted = ours = None \<or> is_some_and ours fs_deleted;
          they_deleted = their_deleted \<or> is_some_and theirs fs_deleted
      in if we_deleted \<and> \<not> they_deleted \<and> \<not> fs_deleted base then DeleteEdit
         else if \<not> we_deleted \<and> they_deleted \<and> \<not> fs_deleted base then EditDelete
         else EditEdit)"

definition theirs_state :: "string \<Rightarrow> view \<Rightarrow> bool \<Rightarrow> file_state option" where
  "theirs_state path their_changed their_deleted =
     (case their_changed path of
        Some s \<Rightarrow> Some s
      | None \<Rightarrow>
          if their_deleted
          then Some \<lparr>fs_path = path, fs_hash = [], fs_size = 0, fs_mtime = 0, fs_deleted = True, fs_mode = 0\<rparr>
          else None)"

definition same_content_3way :: "file_state option \<Rightarrow> file_state option \<Rightarrow> bool" where
  "same_content_3way left right =
     (case (left, right) of
        (Some l, Some r) \<Rightarrow>
          fs_deleted l = fs_deleted r \<and> (fs_deleted l \<or> fs_hash l = fs_hash r \<and> fs_mode l = fs_mode r)
      | (None, None) \<Rightarrow> True
      | (Some s, None) \<Rightarrow> fs_deleted s
      | (None, Some s) \<Rightarrow> fs_deleted s)"

type_synonym detected = "(concurrent_edit \<times> conflict_kind) list"

text \<open>The body of the loop for a path that was not seen before: what it appends to the output.\<close>

definition detect_path ::
  "view \<Rightarrow> view \<Rightarrow> view \<Rightarrow> string set \<Rightarrow> string set \<Rightarrow> string \<Rightarrow> detected" where
  "detect_path base local their_changed their_deleted already_pending path =
     (let ours = local path in
      case base path of
        Some base_entry \<Rightarrow>
          (let we_changed = \<not> same_content_3way ours (Some base_entry);
               server_changed = their_changed path \<noteq> None \<or> path \<in> their_deleted
           in if we_changed \<and> server_changed then
                (let theirs = theirs_state path their_changed (path \<in> their_deleted)
                 in if same_content_3way ours theirs then []
                    else [(concurrent_edit_new path (Some base_entry) ours theirs,
                           classify_conflict_kind base_entry ours (their_changed path) (path \<in> their_deleted))])
              else [])
      | None \<Rightarrow>
          if path \<in> already_pending then
            (case (ours, their_changed path) of
               (Some our, Some their) \<Rightarrow>
                 if \<not> same_content_3way (Some our) (Some their)
                 then [(concurrent_edit_new path None (Some our) (Some their), EditEdit)] else []
             | _ \<Rightarrow> [])
          else
            (case (ours, their_changed path) of
               (Some our, Some their) \<Rightarrow>
                 if \<not> same_content_3way (Some our) (Some their)
                 then [(concurrent_edit_new path None (Some our) (Some their),
                        if fs_deleted our \<and> \<not> fs_deleted their then DeleteEdit
                        else if \<not> fs_deleted our \<and> fs_deleted their then EditDelete
                        else EditEdit)] else []
             | _ \<Rightarrow> []))"

definition detect_step ::
  "view \<Rightarrow> view \<Rightarrow> view \<Rightarrow> string set \<Rightarrow> string set \<Rightarrow> string \<Rightarrow> detected \<times> string set \<Rightarrow> detected \<times> string set" where
  "detect_step base local their_changed their_deleted already_pending path acc =
     (let (out, seen) = acc in
      if path \<in> seen then (out, seen)
      else (out @ detect_path base local their_changed their_deleted already_pending path, insert path seen))"

definition detect_concurrent_edits ::
  "view \<Rightarrow> view \<Rightarrow> view \<Rightarrow> string set \<Rightarrow> string list \<Rightarrow> string set \<Rightarrow> detected" where
  "detect_concurrent_edits base local their_changed their_deleted candidate_paths already_pending =
     fst (fold (detect_step base local their_changed their_deleted already_pending) candidate_paths ([], {}))"

text \<open>The pending paths come from a hash set; here in the order of a list.\<close>

definition conflict_candidate_paths :: "sync_response \<Rightarrow> string list \<Rightarrow> string list" where
  "conflict_candidate_paths response already_pending =
     map fs_path (download_required response) @ upload_required response @ delete_local response
     @ already_pending"

section \<open>Correctness\<close>

definition edit_path :: "concurrent_edit \<times> conflict_kind \<Rightarrow> string" where
  "edit_path c = ce_path (fst c)"

lemma same_content_3way_iff: "same_content_3way l r \<longleftrightarrow> content_of l = content_of r"
  by (auto simp: same_content_3way_def content_of_def split: option.splits if_splits)

lemma content_theirs_state:
  "content_of (theirs_state p tc d) = content_of (tc p)"
  by (simp add: theirs_state_def content_of_def split: option.splits)

lemma detect_path_paths: "c \<in> set (detect_path b l tc td pend p) \<Longrightarrow> edit_path c = p"
  by (auto simp: detect_path_def Let_def concurrent_edit_new_def edit_path_def split: option.splits if_splits)

lemma detect_path_image:
  "edit_path ` set (detect_path b l tc td pend p) =
     (if detect_path b l tc td pend p = [] then {} else {p})"
  using detect_path_paths [of _ b l tc td pend p]
  by (cases "detect_path b l tc td pend p") auto

lemma detect_path_length: "length (detect_path b l tc td pend p) \<le> 1"
  by (auto simp: detect_path_def Let_def split: option.splits)

lemma detect_fold_set:
  "set (fst (fold (detect_step b l tc td pend) ps (out, seen))) =
     set out \<union> (\<Union>p\<in>set ps - seen. set (detect_path b l tc td pend p))"
  by (induction ps arbitrary: out seen) (auto simp: detect_step_def)

lemma detect_set:
  "set (detect_concurrent_edits b l tc td ps pend) = (\<Union>p\<in>set ps. set (detect_path b l tc td pend p))"
  by (simp add: detect_concurrent_edits_def detect_fold_set)

lemma detect_fold_distinct:
  assumes "distinct (map edit_path out)" and "edit_path ` set out \<subseteq> seen"
  shows "distinct (map edit_path (fst (fold (detect_step b l tc td pend) ps (out, seen))))"
  using assms
proof (induction ps arbitrary: out seen)
  case (Cons p ps)
  show ?case
  proof (cases "p \<in> seen")
    case True
    then show ?thesis using Cons by (simp add: detect_step_def)
  next
    case False
    let ?new = "detect_path b l tc td pend p"
    have "distinct (map edit_path ?new)"
      using detect_path_length [of b l tc td pend p] by (cases ?new) (auto simp: le_Suc_eq)
    then have "distinct (map edit_path (out @ ?new))"
      unfolding map_append distinct_append set_map detect_path_image
      using Cons.prems False by auto
    moreover have "edit_path ` set (out @ ?new) \<subseteq> insert p seen"
      unfolding set_append image_Un detect_path_image using Cons.prems(2) by auto
    moreover have "detect_step b l tc td pend p (out, seen) = (out @ ?new, insert p seen)"
      using False by (simp add: detect_step_def)
    ultimately show ?thesis using Cons.IH by simp
  qed
qed simp

text \<open>When a path is a conflict, in terms of the contents of the three sides.\<close>

definition conflicting :: "view \<Rightarrow> view \<Rightarrow> view \<Rightarrow> string set \<Rightarrow> string \<Rightarrow> bool" where
  "conflicting base local their_changed their_deleted p \<longleftrightarrow>
     content_of (local p) \<noteq> content_of (their_changed p)
     \<and> (case base p of
          Some b \<Rightarrow> content_of (local p) \<noteq> content_of (Some b)
            \<and> (their_changed p \<noteq> None \<or> p \<in> their_deleted)
        | None \<Rightarrow> local p \<noteq> None \<and> their_changed p \<noteq> None)"

lemma detect_path_nonempty:
  "detect_path b l tc td pend p \<noteq> [] \<longleftrightarrow> conflicting b l tc td p"
  by (auto simp: detect_path_def conflicting_def Let_def same_content_3way_iff content_theirs_state
      split: option.splits)

lemma classify_kind:
  assumes "\<not> fs_deleted be" "d \<Longrightarrow> content_of th = None" "th = None \<Longrightarrow> d" "content_of o' \<noteq> content_of th"
  shows "(classify_conflict_kind be o' th d = DeleteEdit \<longleftrightarrow> content_of o' = None)
    \<and> (classify_conflict_kind be o' th d = EditDelete \<longleftrightarrow> content_of th = None)"
  using assms
  by (cases o'; cases th; cases d) (auto simp: classify_conflict_kind_def content_of_def split: if_splits)

lemma detect_path_kind:
  assumes "(c, k) \<in> set (detect_path b l tc td pend p)" and "b p = Some be" and "\<not> fs_deleted be"
    and "p \<in> td \<Longrightarrow> content_of (tc p) = None"
  shows "(k = DeleteEdit \<longleftrightarrow> content_of (l p) = None) \<and> (k = EditDelete \<longleftrightarrow> content_of (tc p) = None)"
proof -
  from assms(1,2) have "k = classify_conflict_kind be (l p) (tc p) (p \<in> td)"
    "content_of (l p) \<noteq> content_of (tc p)" "tc p \<noteq> None \<or> p \<in> td"
    by (auto simp: detect_path_def Let_def same_content_3way_iff content_theirs_state split: if_splits)
  moreover from this have "tc p = None \<Longrightarrow> p \<in> td" by blast
  ultimately show ?thesis using classify_kind [OF assms(3), of "p \<in> td" "tc p" "l p"] assms(4) by simp
qed


section \<open>Worked example\<close>

definition example_state :: "string \<Rightarrow> char \<Rightarrow> bool \<Rightarrow> file_state" where
  "example_state path c deleted =
     \<lparr>fs_path = path, fs_hash = replicate 64 c, fs_size = 5, fs_mtime = 10, fs_deleted = deleted, fs_mode = 0\<rparr>"


end
