(* ===== verification/Sync_Delta.thy ===== *)
theory Sync_Delta
  imports Three_Way
begin

text \<open>
  The last-writer-wins delta of the legacy protocol (\<^verbatim>\<open>common/src/sync_delta.rs\<close>): what a client
  uploads, downloads and deletes when its metadata meets the hub's. The theorem shows that
  carrying the delta out makes both sides agree on every portable path, newest state first.
\<close>

text \<open>\<^verbatim>\<open>Iterator::collect\<close> into a \<^verbatim>\<open>HashMap\<close>: a later pair replaces an earlier one with its key.\<close>

definition hash_collect :: "('k \<times> 'v) list \<Rightarrow> ('k \<times> 'v) list" where
  "hash_collect xs = fold (\<lambda>(k, v). AList.update k v) xs []"

lemma hash_collect_distinct: "distinct (map fst (hash_collect xs))"
proof -
  have "distinct (map fst m) \<Longrightarrow> distinct (map fst (fold (\<lambda>(k, v). AList.update k v) xs m))" for m
    by (induction xs arbitrary: m) (auto simp: distinct_update split: prod.split)
  then show ?thesis by (simp add: hash_collect_def)
qed

lemma hash_collect_mem: "(k, v) \<in> set (hash_collect xs) \<longleftrightarrow> map_of (hash_collect xs) k = Some v"
  using map_of_eq_Some_iff [OF hash_collect_distinct] by metis

lemma hash_collect_keys: "map_of (hash_collect xs) k = Some v \<Longrightarrow> (k, v) \<in> set xs"
proof -
  have "map_of (fold (\<lambda>(k, v). AList.update k v) xs m) k = Some v \<Longrightarrow> map_of m k = Some v \<or> (k, v) \<in> set xs" for m
  proof (induction xs arbitrary: m)
    case (Cons x xs)
    then show ?case by (cases x) (force simp: update_conv' split: if_splits)
  qed simp
  then show "map_of (hash_collect xs) k = Some v \<Longrightarrow> (k, v) \<in> set xs" by (fastforce simp: hash_collect_def)
qed

definition file_map :: "prims \<Rightarrow> file_state list \<Rightarrow> (string \<times> file_state) list" where
  "file_map P files =
     hash_collect (map (\<lambda>f. (fs_path f, f)) (filter (\<lambda>f. is_safe_rel_path P (fs_path f)) files))"

definition delta_client :: "(string \<times> file_state) list \<Rightarrow> string \<times> file_state \<Rightarrow> sync_response \<Rightarrow> sync_response" where
  "delta_client server_map kv r =
     (let (path, client_file) = kv in
      case map_of server_map path of
        Some server_file \<Rightarrow>
          if i64_less (fs_mtime server_file) (fs_mtime client_file) then
            r\<lparr>upload_required := upload_required r @ [path]\<rparr>
          else if i64_less (fs_mtime client_file) (fs_mtime server_file) then
            (if fs_deleted server_file then r\<lparr>delete_local := delete_local r @ [path]\<rparr>
             else r\<lparr>download_required := download_required r @ [server_file]\<rparr>)
          else if fs_deleted client_file \<noteq> fs_deleted server_file
               \<or> (\<not> fs_deleted client_file
                  \<and> (fs_hash client_file \<noteq> fs_hash server_file \<or> fs_mode client_file \<noteq> fs_mode server_file))
          then r\<lparr>upload_required := upload_required r @ [path]\<rparr>
          else r
      | None \<Rightarrow> r\<lparr>upload_required := upload_required r @ [path]\<rparr>)"

definition delta_server :: "(string \<times> file_state) list \<Rightarrow> string \<times> file_state \<Rightarrow> sync_response \<Rightarrow> sync_response" where
  "delta_server client_map kv r =
     (let (path, server_file) = kv in
      if map_of client_map path = None \<and> \<not> fs_deleted server_file
      then r\<lparr>download_required := download_required r @ [server_file]\<rparr> else r)"

definition compute_sync_delta :: "prims \<Rightarrow> file_state list \<Rightarrow> file_state list \<Rightarrow> sync_response" where
  "compute_sync_delta P client_files server_files =
     (let server_map = file_map P server_files; client_map = file_map P client_files;
          r = \<lparr>upload_required = [], download_required = [], delete_local = []\<rparr>
      in fold (delta_server client_map) server_map (fold (delta_client server_map) client_map r))"

section \<open>What each list holds\<close>

definition wants_upload :: "file_state \<Rightarrow> file_state option \<Rightarrow> bool" where
  "wants_upload c so \<longleftrightarrow> (case so of None \<Rightarrow> True | Some s \<Rightarrow>
     i64_less (fs_mtime s) (fs_mtime c)
     \<or> sint (fs_mtime s) = sint (fs_mtime c) \<and> content_of (Some c) \<noteq> content_of (Some s))"

definition server_newer :: "file_state \<Rightarrow> file_state option \<Rightarrow> bool" where
  "server_newer c so \<longleftrightarrow> is_some_and so (\<lambda>s. i64_less (fs_mtime c) (fs_mtime s))"

lemma delta_client_parts:
  "upload_required (delta_client sm (p, c) r) =
     upload_required r @ (if wants_upload c (map_of sm p) then [p] else [])"
  "download_required (delta_client sm (p, c) r) = download_required r
     @ (if server_newer c (map_of sm p) \<and> \<not> is_some_and (map_of sm p) fs_deleted then [the (map_of sm p)] else [])"
  "delete_local (delta_client sm (p, c) r) = delete_local r
     @ (if server_newer c (map_of sm p) \<and> is_some_and (map_of sm p) fs_deleted then [p] else [])"
  by (cases "map_of sm p"; auto simp: delta_client_def wants_upload_def server_newer_def content_of_def)+

lemma fold_client_sets:
  "set (upload_required (fold (delta_client sm) cm r)) =
     set (upload_required r) \<union> {p. \<exists>c. (p, c) \<in> set cm \<and> wants_upload c (map_of sm p)}"
  "set (download_required (fold (delta_client sm) cm r)) = set (download_required r)
     \<union> {s. \<exists>p c. (p, c) \<in> set cm \<and> map_of sm p = Some s \<and> server_newer c (Some s) \<and> \<not> fs_deleted s}"
  "set (delete_local (fold (delta_client sm) cm r)) = set (delete_local r)
     \<union> {p. \<exists>c s. (p, c) \<in> set cm \<and> map_of sm p = Some s \<and> server_newer c (Some s) \<and> fs_deleted s}"
proof (induction cm arbitrary: r)
  case (Cons kv cm)
  obtain p c where kv: "kv = (p, c)" by (cases kv)
  { case 1 show ?case using Cons(1) by (auto simp: kv delta_client_parts) }
  { case 2 show ?case using Cons(2)
      by (cases "map_of sm p") (auto simp: kv delta_client_parts server_newer_def) }
  { case 3 show ?case using Cons(3)
      by (cases "map_of sm p") (auto simp: kv delta_client_parts server_newer_def) }
qed simp_all

lemma delta_server_parts:
  "upload_required (delta_server cm (p, s) r) = upload_required r"
  "delete_local (delta_server cm (p, s) r) = delete_local r"
  "download_required (delta_server cm (p, s) r) =
     download_required r @ (if map_of cm p = None \<and> \<not> fs_deleted s then [s] else [])"
  by (simp_all add: delta_server_def)

lemma fold_server_sets:
  "upload_required (fold (delta_server cm) sm r) = upload_required r"
  "delete_local (fold (delta_server cm) sm r) = delete_local r"
  "set (download_required (fold (delta_server cm) sm r)) = set (download_required r)
     \<union> {s. \<exists>p. (p, s) \<in> set sm \<and> map_of cm p = None \<and> \<not> fs_deleted s}"
proof (induction sm arbitrary: r)
  case (Cons kv sm)
  obtain p s where kv: "kv = (p, s)" by (cases kv)
  { case 1 show ?case using Cons(1) by (simp add: kv delta_server_parts) }
  { case 2 show ?case using Cons(2) by (simp add: kv delta_server_parts) }
  { case 3 show ?case using Cons(3) by (auto simp: kv delta_server_parts) }
qed simp_all

lemma file_map_lookup:
  "map_of (file_map P files) p = Some f \<Longrightarrow> fs_path f = p \<and> is_safe_rel_path P p \<and> f \<in> set files"
  unfolding file_map_def by (auto dest!: hash_collect_keys)

lemma file_map_mem: "(k, v) \<in> set (file_map P fs) \<longleftrightarrow> map_of (file_map P fs) k = Some v"
  by (simp add: file_map_def hash_collect_mem)

section \<open>Carrying out a delta\<close>

text \<open>
  Uploading makes the hub's row the client's; downloading and deleting make the client's row
  the hub's.
\<close>

definition client_after :: "sync_response \<Rightarrow> view \<Rightarrow> view \<Rightarrow> view" where
  "client_after r client server p =
     (if p \<in> fs_path ` set (download_required r) \<or> p \<in> set (delete_local r) then server p else client p)"

definition server_after :: "sync_response \<Rightarrow> view \<Rightarrow> view \<Rightarrow> view" where
  "server_after r client server p = (if p \<in> set (upload_required r) then client p else server p)"

lemma delta_sets:
  fixes P client_files server_files
  defines "c \<equiv> map_of (file_map P client_files)" and "s \<equiv> map_of (file_map P server_files)"
    and "r \<equiv> compute_sync_delta P client_files server_files"
  shows "p \<in> set (upload_required r) \<longleftrightarrow> (\<exists>x. c p = Some x \<and> wants_upload x (s p))"
    and "p \<in> fs_path ` set (download_required r) \<longleftrightarrow>
      (\<exists>y. s p = Some y \<and> \<not> fs_deleted y \<and> (case c p of None \<Rightarrow> True | Some x \<Rightarrow> server_newer x (Some y)))"
    and "p \<in> set (delete_local r) \<longleftrightarrow>
      (\<exists>x y. c p = Some x \<and> s p = Some y \<and> fs_deleted y \<and> server_newer x (Some y))"
proof -
  note defs = r_def compute_sync_delta_def Let_def fold_server_sets fold_client_sets file_map_mem
  show "p \<in> set (upload_required r) \<longleftrightarrow> (\<exists>x. c p = Some x \<and> wants_upload x (s p))"
    unfolding defs by (simp add: c_def s_def)
  show "p \<in> set (delete_local r) \<longleftrightarrow>
      (\<exists>x y. c p = Some x \<and> s p = Some y \<and> fs_deleted y \<and> server_newer x (Some y))"
    unfolding defs by (auto simp: c_def s_def)
  have "y \<in> set (download_required r) \<longleftrightarrow> (\<exists>q. s q = Some y \<and> \<not> fs_deleted y
      \<and> (case c q of None \<Rightarrow> True | Some x \<Rightarrow> server_newer x (Some y)))" for y
    unfolding defs by (auto simp: c_def s_def split: option.splits)
  moreover have "fs_path y = q" if "s q = Some y" for q y
    using that file_map_lookup by (auto simp: s_def)
  ultimately show "p \<in> fs_path ` set (download_required r) \<longleftrightarrow>
      (\<exists>y. s p = Some y \<and> \<not> fs_deleted y \<and> (case c p of None \<Rightarrow> True | Some x \<Rightarrow> server_newer x (Some y)))"
    by (auto simp: image_iff)
qed

text \<open>The decision for one path, from the two rows it may have.\<close>

lemma decide_upload:
  "wants_upload x (Some y) \<longleftrightarrow> \<not> server_newer x (Some y)
     \<and> (i64_less (fs_mtime y) (fs_mtime x) \<or> content_of (Some x) \<noteq> content_of (Some y))"
  by (auto simp: wants_upload_def server_newer_def not_less_iff_gr_or_eq)

text \<open>
  C12: The legacy delta makes the two sides converge. No path is told to move in both directions,
  and once the uploads, downloads and local deletions are carried out, client and hub show the
  same content at every path; the row that survives has the newest timestamp of the two, and on
  equal timestamps the client's content.
\<close>

theorem compute_sync_delta_converges:
  "let c = map_of (file_map P client_files); s = map_of (file_map P server_files);
       r = compute_sync_delta P client_files server_files
   in content_of (client_after r c s p) = content_of (server_after r c s p)
      \<and> \<not> (p \<in> set (upload_required r) \<and> (p \<in> fs_path ` set (download_required r) \<or> p \<in> set (delete_local r)))
      \<and> (\<forall>x y. c p = Some x \<and> s p = Some y \<longrightarrow>
          content_of (server_after r c s p) =
            (if i64_less (fs_mtime x) (fs_mtime y) then content_of (Some y) else content_of (Some x)))"
proof -
  define c s where "c = map_of (file_map P client_files)" and "s = map_of (file_map P server_files)"
  define r where "r = compute_sync_delta P client_files server_files"
  note sets = delta_sets [of p P client_files server_files, folded c_def s_def r_def]
  show ?thesis
    unfolding Let_def c_def [symmetric] s_def [symmetric] r_def [symmetric] client_after_def server_after_def sets
  proof (cases "c p"; cases "s p")
    fix x y assume "c p = Some x" "s p = Some y"
    then show "content_of (if (\<exists>y. s p = Some y \<and> \<not> fs_deleted y \<and> (case c p of None \<Rightarrow> True | Some x \<Rightarrow> server_newer x (Some y)))
          \<or> (\<exists>x y. c p = Some x \<and> s p = Some y \<and> fs_deleted y \<and> server_newer x (Some y)) then s p else c p)
        = content_of (if \<exists>x. c p = Some x \<and> wants_upload x (s p) then c p else s p)
      \<and> \<not> ((\<exists>x. c p = Some x \<and> wants_upload x (s p))
          \<and> ((\<exists>y. s p = Some y \<and> \<not> fs_deleted y \<and> (case c p of None \<Rightarrow> True | Some x \<Rightarrow> server_newer x (Some y)))
            \<or> (\<exists>x y. c p = Some x \<and> s p = Some y \<and> fs_deleted y \<and> server_newer x (Some y))))
      \<and> (\<forall>x y. c p = Some x \<and> s p = Some y \<longrightarrow>
          content_of (if \<exists>x. c p = Some x \<and> wants_upload x (s p) then c p else s p) =
            (if i64_less (fs_mtime x) (fs_mtime y) then content_of (Some y) else content_of (Some x)))"
      by (cases "server_newer x (Some y)") (auto simp: decide_upload server_newer_def)
  qed (auto simp: wants_upload_def)
qed

definition dated :: "i64 \<Rightarrow> file_state \<Rightarrow> file_state" where
  "dated t f = f\<lparr>fs_mtime := t\<rparr>"

definition example_client :: "file_state list" where
  "example_client = [dated 5 (example_state ''a'' (CHR ''1'') False), dated 1 (example_state ''b'' (CHR ''1'') False)]"

definition example_server :: "file_state list" where
  "example_server = [dated 3 (example_state ''a'' (CHR ''2'') False), dated 9 (example_state ''b'' (CHR ''2'') True),
     dated 4 (example_state ''c'' (CHR ''2'') False)]"

theorem compute_sync_delta_converges_witness:
  "let c = map_of (file_map sample_prims example_client); s = map_of (file_map sample_prims example_server);
       r = compute_sync_delta sample_prims example_client example_server
   in upload_required r = [''a''] \<and> map fs_path (download_required r) = [''c''] \<and> delete_local r = [''b'']
      \<and> content_of (client_after r c s ''a'') = content_of (server_after r c s ''a'')
      \<and> content_of (server_after r c s ''a'') = content_of (Some (dated 5 (example_state ''a'' (CHR ''1'') False)))"
proof -
  let ?c = "map_of (file_map sample_prims example_client)" and ?s = "map_of (file_map sample_prims example_server)"
  let ?r = "compute_sync_delta sample_prims example_client example_server"
  let ?x = "dated 5 (example_state ''a'' (CHR ''1'') False)" and ?y = "dated 3 (example_state ''a'' (CHR ''2'') False)"
  have "upload_required ?r = [''a'']" "map fs_path (download_required ?r) = [''c'']" "delete_local ?r = [''b'']"
    by code_simp+
  moreover have xy: "?c ''a'' = Some ?x" "?s ''a'' = Some ?y" by code_simp+
  moreover have "\<not> i64_less (fs_mtime ?x) (fs_mtime ?y)" by code_simp
  moreover note compute_sync_delta_converges [of sample_prims example_client example_server "''a''", unfolded Let_def]
  ultimately show ?thesis unfolding Let_def by auto
qed

end
