(* ===== verification/Reconcile.thy ===== *)
theory Reconcile
  imports Three_Way Tree_Diff
begin

text \<open>
  Reconciliation of the local and the remote view against the last agreed snapshot
  (\<^verbatim>\<open>agent-core/src/tree_reconcile.rs\<close>). The snapshot engine is an interface here: the identifier
  of the last agreed snapshot, loading its files, and the difference between a snapshot and a
  flat view. The theorems say what is uploaded, downloaded and deleted in terms of the contents
  of base, local and remote, and that no side's change is overwritten.

  A view is an association list with distinct keys, in the order the hash map yields them.
\<close>

type_synonym files = "(string \<times> file_state) list"

record reconciliation =
  rc_base :: files
  rc_response :: sync_response

section \<open>The code\<close>

definition live_at :: "files \<Rightarrow> string \<Rightarrow> file_state option" where
  "live_at files path = (case map_of files path of
     Some s \<Rightarrow> if fs_deleted s then None else Some s | None \<Rightarrow> None)"

definition same_content_reconcile :: "file_state option \<Rightarrow> file_state option \<Rightarrow> bool" where
  "same_content_reconcile left right =
     (case (left, right) of
        (Some l, Some r) \<Rightarrow> fs_hash l = fs_hash r \<and> fs_mode l = fs_mode r
      | (None, None) \<Rightarrow> True
      | _ \<Rightarrow> False)"

definition reconcile_path ::
  "string set \<Rightarrow> string set \<Rightarrow> files \<Rightarrow> files \<Rightarrow> string \<Rightarrow> sync_response \<Rightarrow> sync_response" where
  "reconcile_path local_changed remote_changed local remote path r =
     (let local_state = live_at local path; remote_state = live_at remote path in
      if same_content_reconcile local_state remote_state then r
      else (case (path \<in> local_changed, path \<in> remote_changed) of
         (True, False) \<Rightarrow> r\<lparr>upload_required := upload_required r @ [path]\<rparr>
       | (False, True) \<Rightarrow>
           (case remote_state of
              Some state \<Rightarrow> r\<lparr>download_required := download_required r @ [state]\<rparr>
            | None \<Rightarrow> r\<lparr>delete_local := delete_local r @ [path]\<rparr>)
       | _ \<Rightarrow> r))"

text \<open>The union of the two hash sets is visited in some order; the three lists are sorted after.\<close>

definition reconcile_sets ::
  "files \<Rightarrow> string list \<Rightarrow> string list \<Rightarrow> files \<Rightarrow> files \<Rightarrow> reconciliation" where
  "reconcile_sets base local_changed remote_changed local remote =
     (let paths = remdups (local_changed @ remote_changed);
          r = fold (reconcile_path (set local_changed) (set remote_changed) local remote) paths
                \<lparr>upload_required = [], download_required = [], delete_local = []\<rparr>
      in \<lparr>rc_base = base,
          rc_response = \<lparr>upload_required = sort (upload_required r),
            download_required = sort_key fs_path (download_required r),
            delete_local = sort (delete_local r)\<rparr>\<rparr>)"

definition base_state :: "tree_change \<Rightarrow> tree_entry \<Rightarrow> file_state" where
  "base_state change entry =
     \<lparr>fs_path = tc_path change, fs_hash = te_hash entry, fs_size = te_size entry, fs_mtime = 0,
      fs_deleted = False, fs_mode = te_mode entry\<rparr>"

definition add_base :: "tree_change \<Rightarrow> files \<Rightarrow> files" where
  "add_base change base =
     (case tc_before change of
        Some entry \<Rightarrow> AList.update (tc_path change) (base_state change entry) base
      | None \<Rightarrow> base)"

definition reconcile_changes ::
  "tree_change list \<Rightarrow> tree_change list \<Rightarrow> files \<Rightarrow> files \<Rightarrow> reconciliation" where
  "reconcile_changes local_changes remote_changes local remote =
     reconcile_sets (fold add_base (local_changes @ remote_changes) [])
       (map tc_path local_changes) (map tc_path remote_changes) local remote"

text \<open>What reconciliation calls of the snapshot engine and the workspace configuration.\<close>

record 'e snapshot_engine =
  last_synced_id :: "'e + string option"
  load_files :: "string \<Rightarrow> 'e + files"
  diff_file_view :: "string \<Rightarrow> files \<Rightarrow> 'e + tree_change list"
  format_version :: nat

definition upload_all :: "files \<Rightarrow> sync_response" where
  "upload_all local =
     \<lparr>upload_required = sort_dedup (map fst (filter (\<lambda>(_, state). \<not> fs_deleted state) local)),
      download_required = [], delete_local = []\<rparr>"

definition reconcile ::
  "'e snapshot_engine \<Rightarrow> files \<Rightarrow> files \<Rightarrow> string option \<Rightarrow> 'e + reconciliation" where
  "reconcile E local remote server_head =
     rbind (last_synced_id E) (\<lambda>last.
     (case last of
        None \<Rightarrow> Inr (reconcile_sets [] (map fst local) (map fst remote) local remote)
      | Some base_id \<Rightarrow>
          (let restored_hub = (if format_version E \<ge> 3 then server_head = None else remote = []);
               continue = rbind (diff_file_view E base_id local) (\<lambda>local_changes.
                          rbind (diff_file_view E base_id remote) (\<lambda>remote_changes.
                          Inr (reconcile_changes local_changes remote_changes local remote)))
           in if restored_hub then
                rbind (load_files E base_id) (\<lambda>base_files.
                if base_files \<noteq> [] then Inr \<lparr>rc_base = base_files, rc_response = upload_all local\<rparr>
                else continue)
              else continue)))"

section \<open>What the response holds\<close>

abbreviation visible :: "files \<Rightarrow> string \<Rightarrow> (string \<times> u32) option" where
  "visible files p \<equiv> content_of (map_of files p)"

lemma same_content_reconcile_iff:
  "same_content_reconcile (live_at l p) (live_at r p) \<longleftrightarrow> visible l p = visible r p"
  by (auto simp: same_content_reconcile_def live_at_def content_of_def split: option.splits if_splits)

lemma reconcile_path_parts:
  "upload_required (reconcile_path lc rc l r p resp) = upload_required resp
     @ (if visible l p \<noteq> visible r p \<and> p \<in> lc \<and> p \<notin> rc then [p] else [])"
  "download_required (reconcile_path lc rc l r p resp) = download_required resp
     @ (if visible l p \<noteq> visible r p \<and> p \<notin> lc \<and> p \<in> rc
        then (case live_at r p of Some s \<Rightarrow> [s] | None \<Rightarrow> []) else [])"
  "delete_local (reconcile_path lc rc l r p resp) = delete_local resp
     @ (if visible l p \<noteq> visible r p \<and> p \<notin> lc \<and> p \<in> rc \<and> live_at r p = None then [p] else [])"
  unfolding reconcile_path_def Let_def same_content_reconcile_iff by (auto split: option.split bool.split)

lemma fold_upload:
  "set (upload_required (fold (reconcile_path lc rc l r) ps resp)) = set (upload_required resp)
     \<union> {p \<in> set ps. visible l p \<noteq> visible r p \<and> p \<in> lc \<and> p \<notin> rc}"
  by (induction ps arbitrary: resp) (auto simp: reconcile_path_parts)

lemma fold_download:
  "s \<in> set (download_required (fold (reconcile_path lc rc l r) ps resp)) \<longleftrightarrow> s \<in> set (download_required resp)
     \<or> (\<exists>p\<in>set ps. visible l p \<noteq> visible r p \<and> p \<notin> lc \<and> p \<in> rc \<and> live_at r p = Some s)"
proof (induction ps arbitrary: resp)
  case (Cons p ps)
  have "s \<in> set (download_required (reconcile_path lc rc l r p resp)) \<longleftrightarrow> s \<in> set (download_required resp)
      \<or> visible l p \<noteq> visible r p \<and> p \<notin> lc \<and> p \<in> rc \<and> live_at r p = Some s"
    unfolding reconcile_path_parts set_append Un_iff
    by (cases "visible l p \<noteq> visible r p \<and> p \<notin> lc \<and> p \<in> rc") (simp_all only: if_True if_False
        option.set_map simp_thms list.set empty_iff split: option.split, auto)
  then show ?case by (simp add: Cons.IH disj_assoc)
qed simp

lemma fold_delete:
  "set (delete_local (fold (reconcile_path lc rc l r) ps resp)) = set (delete_local resp)
     \<union> {p \<in> set ps. visible l p \<noteq> visible r p \<and> p \<notin> lc \<and> p \<in> rc \<and> live_at r p = None}"
  by (induction ps arbitrary: resp) (auto simp: reconcile_path_parts)

lemmas fold_reconcile = fold_upload fold_download fold_delete

definition keys_match :: "files \<Rightarrow> bool" where
  "keys_match files \<longleftrightarrow> (\<forall>(p, s)\<in>set files. fs_path s = p)"

lemma keys_match_lookup: "keys_match files \<Longrightarrow> map_of files p = Some s \<Longrightarrow> fs_path s = p"
  by (auto simp: keys_match_def dest!: map_of_SomeD)

lemma live_at_None: "live_at r p = None \<longleftrightarrow> visible r p = None"
  by (auto simp: live_at_def content_of_def split: option.split)

lemma live_at_Some: "live_at r p = Some s \<Longrightarrow> map_of r p = Some s \<and> visible r p = Some (fs_hash s, fs_mode s)"
  by (auto simp: live_at_def content_of_def split: option.splits if_splits)

lemma reconcile_sets_spec:
  assumes "keys_match remote"
  shows "let resp = rc_response (reconcile_sets base lc rc local remote) in
    (p \<in> set (upload_required resp) \<longleftrightarrow> visible local p \<noteq> visible remote p \<and> p \<in> set lc \<and> p \<notin> set rc)
    \<and> (p \<in> fs_path ` set (download_required resp) \<longleftrightarrow>
        visible local p \<noteq> visible remote p \<and> p \<notin> set lc \<and> p \<in> set rc \<and> visible remote p \<noteq> None)
    \<and> (p \<in> set (delete_local resp) \<longleftrightarrow>
        visible local p \<noteq> visible remote p \<and> p \<notin> set lc \<and> p \<in> set rc \<and> visible remote p = None)
    \<and> (\<forall>s\<in>set (download_required resp). map_of remote (fs_path s) = Some s \<and> \<not> fs_deleted s)"
proof -
  have path: "fs_path s = q" if "live_at remote q = Some s" for q s
    using live_at_Some [OF that] keys_match_lookup [OF assms] by blast
  let ?D = "download_required (rc_response (reconcile_sets base lc rc local remote))"
  have "s \<in> set ?D \<longleftrightarrow> (\<exists>q. visible local q \<noteq> visible remote q \<and> q \<notin> set lc \<and> q \<in> set rc
        \<and> live_at remote q = Some s)" for s
    by (auto simp: reconcile_sets_def Let_def fold_reconcile)
  then have mem: "s \<in> set ?D \<longleftrightarrow> visible local (fs_path s) \<noteq> visible remote (fs_path s)
      \<and> fs_path s \<notin> set lc \<and> fs_path s \<in> set rc \<and> live_at remote (fs_path s) = Some s" for s
    using path by metis
  have down: "p \<in> fs_path ` set ?D \<longleftrightarrow>
      visible local p \<noteq> visible remote p \<and> p \<notin> set lc \<and> p \<in> set rc \<and> live_at remote p \<noteq> None"
  proof
    assume "visible local p \<noteq> visible remote p \<and> p \<notin> set lc \<and> p \<in> set rc \<and> live_at remote p \<noteq> None"
    then obtain s where s: "live_at remote p = Some s" "visible local p \<noteq> visible remote p \<and> p \<notin> set lc \<and> p \<in> set rc"
      by blast
    with path have "fs_path s = p" by blast
    with s have "s \<in> set ?D" by (simp add: mem)
    with \<open>fs_path s = p\<close> show "p \<in> fs_path ` set ?D" by blast
  next
    assume "p \<in> fs_path ` set ?D"
    then obtain s where "s \<in> set ?D" "p = fs_path s" by blast
    then show "visible local p \<noteq> visible remote p \<and> p \<notin> set lc \<and> p \<in> set rc \<and> live_at remote p \<noteq> None"
      by (simp only: mem) simp
  qed
  have "map_of remote (fs_path s) = Some s \<and> \<not> fs_deleted s"
    if "s \<in> set ?D" for s
    using that unfolding mem by (auto simp: live_at_def split: option.splits if_splits)
  moreover have "p \<in> set (upload_required (rc_response (reconcile_sets base lc rc local remote))) \<longleftrightarrow>
      visible local p \<noteq> visible remote p \<and> p \<in> set lc \<and> p \<notin> set rc"
    by (auto simp: reconcile_sets_def Let_def fold_reconcile)
  moreover have "p \<in> set (delete_local (rc_response (reconcile_sets base lc rc local remote))) \<longleftrightarrow>
      visible local p \<noteq> visible remote p \<and> p \<notin> set lc \<and> p \<in> set rc \<and> visible remote p = None"
    by (auto simp: reconcile_sets_def Let_def fold_reconcile live_at_None)
  ultimately show ?thesis using down unfolding Let_def live_at_None by blast
qed

section \<open>Nothing is overwritten\<close>

text \<open>
  What the difference of a snapshot and a view promises: it lists every path at which the view
  departs from the snapshot (\<open>covers\<close>), and no other path (\<open>exact_diff\<close>, which the engine gives
  when the snapshot has no conflict entry). \<open>B\<close> is the content of the snapshot at each path.
\<close>

type_synonym base_content = "string \<Rightarrow> (string \<times> u32) option"

definition covers :: "base_content \<Rightarrow> files \<Rightarrow> tree_change list \<Rightarrow> bool" where
  "covers B view changes \<longleftrightarrow> (\<forall>p. visible view p \<noteq> B p \<longrightarrow> p \<in> tc_path ` set changes)"

definition exact_diff :: "base_content \<Rightarrow> files \<Rightarrow> tree_change list \<Rightarrow> bool" where
  "exact_diff B view changes \<longleftrightarrow> (\<forall>p. visible view p \<noteq> B p \<longleftrightarrow> p \<in> tc_path ` set changes)"

lemma exact_covers: "exact_diff B view changes \<Longrightarrow> covers B view changes"
  by (simp add: covers_def exact_diff_def)

lemma reconcile_continues:
  assumes "last_synced_id E = Inr (Some b)"
    and "if format_version E \<ge> 3 then server_head \<noteq> None else remote \<noteq> []"
    and "diff_file_view E b local = Inr lc" and "diff_file_view E b remote = Inr rc"
  shows "reconcile E local remote server_head = Inr (reconcile_changes lc rc local remote)"
  using assms by (simp add: reconcile_def split: if_splits)

lemmas reconcile_changes_spec =
  reconcile_sets_spec [where base = "fold add_base (lc @ rc) []" and lc = "map tc_path lc"
    and rc = "map tc_path rc" for lc rc, folded reconcile_changes_def, unfolded set_map Let_def]

lemmas reconcile_changes_upload = reconcile_changes_spec [THEN conjunct1]
lemmas reconcile_changes_download = reconcile_changes_spec [THEN conjunct2, THEN conjunct1]
lemmas reconcile_changes_delete = reconcile_changes_spec [THEN conjunct2, THEN conjunct2, THEN conjunct1]
lemmas reconcile_changes_live = reconcile_changes_spec [THEN conjunct2, THEN conjunct2, THEN conjunct2]


text \<open>
  C14. With exact differences, reconciliation is the three-way merge: a path is uploaded exactly
  when only the local side changed it, downloaded or deleted locally exactly when only the remote
  side did, and left alone exactly when the sides agree or both changed it.
\<close>

theorem reconcile_three_way:
  assumes "keys_match remote"
    and "last_synced_id E = Inr (Some b)"
    and "if format_version E \<ge> 3 then server_head \<noteq> None else remote \<noteq> []"
    and "diff_file_view E b local = Inr lc" and "diff_file_view E b remote = Inr rc"
    and "exact_diff B local lc" and "exact_diff B remote rc"
  shows "\<exists>rec. reconcile E local remote server_head = Inr rec \<and>
    (let resp = rc_response rec in
      (p \<in> set (upload_required resp) \<longleftrightarrow> visible local p \<noteq> B p \<and> visible remote p = B p)
      \<and> (p \<in> fs_path ` set (download_required resp) \<longleftrightarrow>
          visible local p = B p \<and> visible remote p \<noteq> B p \<and> visible remote p \<noteq> None)
      \<and> (p \<in> set (delete_local resp) \<longleftrightarrow>
          visible local p = B p \<and> visible remote p \<noteq> B p \<and> visible remote p = None))"
proof -
  have L: "p \<in> tc_path ` set lc \<longleftrightarrow> visible local p \<noteq> B p"
    and R: "p \<in> tc_path ` set rc \<longleftrightarrow> visible remote p \<noteq> B p"
    using assms(6,7) unfolding exact_diff_def by blast+
  have "visible local p \<noteq> B p \<and> visible remote p = B p \<longrightarrow> visible local p \<noteq> visible remote p"
    "visible local p = B p \<and> visible remote p \<noteq> B p \<longrightarrow> visible local p \<noteq> visible remote p"
    by auto
  then show ?thesis
    unfolding reconcile_continues [OF assms(2-5)] Let_def
    by (intro exI [of _ "reconcile_changes lc rc local remote"] conjI HOL.refl)
      (unfold reconcile_changes_upload [OF assms(1)] reconcile_changes_download [OF assms(1)]
        reconcile_changes_delete [OF assms(1)] L R, blast+)
qed

text \<open>
  An empty hub is never read as a deletion of everything. When the hub has no state (no head
  in format 3 and later, no rows before) and the agreed snapshot has files, nothing is downloaded
  or deleted and exactly the live local files are uploaded, whatever the remote view is.
\<close>

theorem reconcile_restored_hub:
  assumes "last_synced_id E = Inr (Some b)" and "load_files E b = Inr base" and "base \<noteq> []"
    and "if format_version E \<ge> 3 then server_head = None else remote = []"
    and "distinct (map fst local)"
  shows "\<exists>rec. reconcile E local remote server_head = Inr rec \<and> rc_base rec = base
    \<and> download_required (rc_response rec) = [] \<and> delete_local (rc_response rec) = []
    \<and> set (upload_required (rc_response rec)) = {p. visible local p \<noteq> None}
    \<and> sorted (upload_required (rc_response rec)) \<and> distinct (upload_required (rc_response rec))"
proof -
  have "reconcile E local remote server_head = Inr \<lparr>rc_base = base, rc_response = upload_all local\<rparr>"
    using assms by (simp add: reconcile_def split: if_splits)
  moreover have "p \<in> fst ` {x \<in> set local. \<not> fs_deleted (snd x)} \<longleftrightarrow> visible local p \<noteq> None" for p
  proof -
    have "visible local p \<noteq> None \<longleftrightarrow> (\<exists>s. (p, s) \<in> set local \<and> \<not> fs_deleted s)"
      unfolding map_of_eq_Some_iff [OF assms(5), symmetric] by (auto simp: content_of_def split: option.split)
    then show ?thesis by force
  qed
  moreover have "sorted (sort_dedup xs)" "distinct (sort_dedup xs)" for xs
    using sort_dedup_strict [of xs] by (simp_all add: strict_sorted_iff)
  ultimately show ?thesis
    by (auto simp: upload_all_def case_prod_unfold)
qed

text \<open>Two files known to both sides: the local side edited one, the remote side deleted the other.\<close>

definition plan_state :: "string \<Rightarrow> string \<Rightarrow> file_state" where
  "plan_state p h = \<lparr>fs_path = p, fs_hash = h, fs_size = 1, fs_mtime = 0, fs_deleted = False, fs_mode = 420\<rparr>"

definition plan_change :: "string \<Rightarrow> tree_change" where
  "plan_change p = \<lparr>tc_path = p, tc_kind = Modified, tc_before = None, tc_after = None\<rparr>"

definition sample_local :: files where
  "sample_local = [(''a'', plan_state ''a'' ''1''), (''b'', plan_state ''b'' ''0'')]"

definition sample_remote :: files where
  "sample_remote = [(''a'', plan_state ''a'' ''0'')]"

definition sample_base :: base_content where
  "sample_base = [''a'' \<mapsto> (''0'', 420), ''b'' \<mapsto> (''0'', 420)]"

definition sample_engine :: "unit snapshot_engine" where
  "sample_engine = \<lparr>last_synced_id = Inr (Some ''s''), load_files = \<lambda>_. Inr sample_local,
     diff_file_view = \<lambda>_ view. Inr [plan_change (if view = sample_local then ''a'' else ''b'')],
     format_version = 3\<rparr>"

lemma sample_engine_ok:
  "keys_match sample_remote" "exact_diff sample_base sample_local [plan_change ''a'']"
  "exact_diff sample_base sample_remote [plan_change ''b'']"
  "last_synced_id sample_engine = Inr (Some ''s'')"
  "if format_version sample_engine \<ge> 3 then Some ''h'' \<noteq> None else sample_remote \<noteq> []"
  "diff_file_view sample_engine ''s'' sample_local = Inr [plan_change ''a'']"
  "diff_file_view sample_engine ''s'' sample_remote = Inr [plan_change ''b'']"
  by (auto simp: keys_match_def exact_diff_def sample_engine_def sample_base_def sample_local_def
      sample_remote_def plan_change_def plan_state_def content_of_def)


theorem reconcile_three_way_witness:
  "\<exists>rec. reconcile sample_engine sample_local sample_remote (Some ''h'') = Inr rec
    \<and> ''a'' \<in> set (upload_required (rc_response rec))"
  using reconcile_three_way [OF sample_engine_ok(1,4-7,2,3), of "''a''"]
  by (auto simp: Let_def sample_local_def sample_remote_def sample_base_def plan_state_def)

theorem reconcile_restored_hub_witness:
  "\<exists>rec. reconcile sample_engine sample_local [] None = Inr rec
    \<and> delete_local (rc_response rec) = []
    \<and> set (upload_required (rc_response rec)) = {p. visible sample_local p \<noteq> None}"
  using reconcile_restored_hub [of sample_engine "''s''" sample_local None "[]" sample_local]
  by (auto simp: sample_engine_def sample_local_def)

end
