(* ===== verification/Stable_Sort.thy ===== *)
theory Stable_Sort
  imports Main "HOL-Library.Multiset"
begin

text \<open>
  \<^verbatim>\<open>slice::sort_by\<close> of the Rust standard library and \<^verbatim>\<open>ORDER BY\<close> of SQL: a stable sort by a comparison
  that need not be a linear order of the element type. It keeps the elements, and sorts them when
  the comparison is a total preorder on them.
\<close>

text \<open>A stable sort by a comparison, as \<^verbatim>\<open>slice::sort_by\<close>; \<open>le x y\<close> is that \<open>x\<close> does not compare greater.\<close>

fun insort_by :: "('a \<Rightarrow> 'a \<Rightarrow> bool) \<Rightarrow> 'a \<Rightarrow> 'a list \<Rightarrow> 'a list" where
  "insort_by le x [] = [x]"
| "insort_by le x (y # ys) = (if le x y then x # y # ys else y # insort_by le x ys)"

definition sort_by :: "('a \<Rightarrow> 'a \<Rightarrow> bool) \<Rightarrow> 'a list \<Rightarrow> 'a list" where
  "sort_by le xs = foldr (insort_by le) xs []"

lemma mset_sort_by [simp]: "mset (sort_by le xs) = mset xs"
proof -
  have "mset (insort_by le x ys) = add_mset x (mset ys)" for x ys
    by (induction ys) auto
  then show ?thesis by (induction xs) (simp_all add: sort_by_def)
qed

lemma length_sort_by [simp]: "length (sort_by le xs) = length xs"
  by (metis mset_sort_by size_mset)

lemma set_sort_by [simp]: "set (sort_by le xs) = set xs"
  by (metis mset_sort_by set_mset_mset)

lemma set_insort_by [simp]: "set (insort_by le x ys) = insert x (set ys)"
  by (induction ys) auto

text \<open>A comparison that is a total preorder on the elements sorts them.\<close>

definition preorder_on :: "'a set \<Rightarrow> ('a \<Rightarrow> 'a \<Rightarrow> bool) \<Rightarrow> bool" where
  "preorder_on A le \<longleftrightarrow> (\<forall>x\<in>A. \<forall>y\<in>A. le x y \<or> le y x) \<and> (\<forall>x\<in>A. \<forall>y\<in>A. \<forall>z\<in>A. le x y \<longrightarrow> le y z \<longrightarrow> le x z)"

lemma insort_by_sorted:
  assumes "sorted_wrt le ys" and "preorder_on A le" and "x \<in> A" and "set ys \<subseteq> A"
  shows "sorted_wrt le (insort_by le x ys)"
  using assms(1,4)
proof (induction ys)
  case (Cons y ys)
  from Cons.prems have y: "y \<in> A" "set ys \<subseteq> A" by auto
  show ?case
  proof (cases "le x y")
    case True
    have "le x z" if "z \<in> set ys" for z
      using True Cons.prems that y assms(2,3) unfolding preorder_on_def by (metis sorted_wrt.simps(2) subsetD)
    with True Cons.prems show ?thesis by simp
  next
    case False
    with assms(2,3) y have "le y x" unfolding preorder_on_def by blast
    with Cons False y show ?thesis by simp
  qed
qed simp

lemma sort_by_sorted: "preorder_on (set xs) le \<Longrightarrow> sorted_wrt le (sort_by le xs)"
proof -
  have "preorder_on A le \<Longrightarrow> set xs \<subseteq> A \<Longrightarrow> sorted_wrt le (sort_by le xs) \<and> set (sort_by le xs) = set xs" for A
    unfolding sort_by_def by (induction xs) (auto intro!: insort_by_sorted)
  then show "preorder_on (set xs) le \<Longrightarrow> ?thesis" by blast
qed

lemma preorder_onD:
  assumes "preorder_on A le"
  shows "x \<in> A \<Longrightarrow> y \<in> A \<Longrightarrow> le x y \<or> le y x"
    "x \<in> A \<Longrightarrow> y \<in> A \<Longrightarrow> z \<in> A \<Longrightarrow> le x y \<Longrightarrow> le y z \<Longrightarrow> le x z"
  using assms unfolding preorder_on_def by blast+

text \<open>A list sorted by a strict order is determined by its elements.\<close>

lemma sorted_wrt_strict:
  assumes "sorted_wrt le xs" and "distinct (map f xs)"
    and "\<And>x y. le x y \<Longrightarrow> f x \<noteq> f y \<Longrightarrow> lt x y"
  shows "sorted_wrt lt xs"
  using assms(1,2)
proof (induction xs)
  case (Cons x xs)
  have "lt x y" if "y \<in> set xs" for y
    using Cons.prems that by (intro assms(3)) (auto dest: bspec)
  with Cons show ?case by simp
qed simp

lemma sorted_wrt_last: "sorted_wrt lt xs \<Longrightarrow> x \<in> set xs \<Longrightarrow> x = last xs \<or> lt x (last xs)"
  by (induction xs) auto

lemma strict_sorted_unique:
  assumes "sorted_wrt lt xs" and "sorted_wrt lt ys" and "set xs = set ys"
    and asym: "\<And>x y. lt x y \<Longrightarrow> \<not> lt y x"
  shows "xs = ys"
  using assms(1,2,3)
proof (induction xs arbitrary: ys)
  case (Cons x xs)
  from Cons.prems(3) obtain y ys' where ys: "ys = y # ys'" by (cases ys) auto
  have irr: "\<not> lt z z" for z using asym by blast
  have xy: "x = y"
  proof (rule ccontr)
    assume "x \<noteq> y"
    with Cons.prems(3) ys have "x \<in> set ys'" "y \<in> set xs" by auto
    with Cons.prems(1,2) ys have "lt x y" "lt y x" by auto
    with asym show False by blast
  qed
  have "x \<notin> set xs" "x \<notin> set ys'" using Cons.prems(1,2) ys xy irr by auto
  with Cons.prems(3) ys xy have "set xs = set ys'" by auto
  with Cons.IH [of ys'] Cons.prems(1,2) ys xy show ?case by simp
qed simp

end
