(* ===== verification/Local_State.thy ===== *)
theory Local_State
  imports Tree_Codec Ordered_Map Stable_Sort "HOL-Library.Product_Lexorder"
begin

text \<open>
  The durable state of a client workspace: \<^verbatim>\<open>local_state.json\<close> and its transactions
  (\<^verbatim>\<open>agent-core/src/state.rs\<close>, \<^verbatim>\<open>agent-core/src/state/durable.rs\<close>). The records, the canonical order
  and the bounds of what is written, the checks of what is read, and the locked
  read-modify-write cycle with its failures. The JSON text is produced and parsed by
  \<^verbatim>\<open>serde_json\<close>, so the text and its codec are parameters; so is the floating-point arithmetic of
  the access log.

  The locale \<open>durable_store\<close> is what the operations of the client database rely on: what a
  transaction leaves on disk is either what was there before or the stored form of a state that
  the operation made out of the state that was there.
\<close>

section \<open>Records\<close>

type_synonym i32 = "32 word"

record cache_entry_v1 =
  v1_plaintext_hash :: string
  v1_encrypted_hash :: string
  v1_size :: i64
  v1_mtime :: i64
  v1_server_mtime :: i64
  v1_mode :: i32
  v1_hydrated :: bool
  v1_deleted_at :: "i64 option"

record 'w access_entry =
  ae_path :: string
  ae_sibling_path :: string
  ae_weight :: 'w
  ae_updated_at :: i64

datatype conflict_record_status = Pending | LegacyUnfingerprinted | Unknown

definition status_from_db_str :: "string \<Rightarrow> conflict_record_status" where
  "status_from_db_str value =
     (if value = ''pending'' then Pending
      else if value = ''legacy_unfingerprinted'' then LegacyUnfingerprinted
      else Unknown)"

primrec status_as_db_str :: "conflict_record_status \<Rightarrow> string" where
  "status_as_db_str Pending = ''pending''"
| "status_as_db_str LegacyUnfingerprinted = ''legacy_unfingerprinted''"
| "status_as_db_str Unknown = ''unknown''"

primrec is_pending :: "conflict_record_status \<Rightarrow> bool" where
  "is_pending Pending = True"
| "is_pending LegacyUnfingerprinted = True"
| "is_pending Unknown = False"

datatype resolution_method = Local | Cloud | Both | File | Candidate | Other

definition method_from_db_str :: "string \<Rightarrow> resolution_method" where
  "method_from_db_str value =
     (if value = ''local'' then Local
      else if value = ''cloud'' then Cloud
      else if value = ''both'' then Both
      else if value = ''file'' then File
      else if value = ''candidate'' then Candidate
      else Other)"

primrec method_as_db_str :: "resolution_method \<Rightarrow> string" where
  "method_as_db_str Local = ''local''"
| "method_as_db_str Cloud = ''cloud''"
| "method_as_db_str Both = ''both''"
| "method_as_db_str File = ''file''"
| "method_as_db_str Candidate = ''candidate''"
| "method_as_db_str Other = ''other''"

lemma status_db_roundtrip: "status_from_db_str (status_as_db_str s) = s"
  by (cases s) (simp_all add: status_from_db_str_def)

lemma method_db_roundtrip: "method_from_db_str (method_as_db_str m) = m"
  by (cases m) (simp_all add: method_from_db_str_def)

record conflict_record_v1 =
  cr_path :: string
  cr_kind :: conflict_kind
  cr_conflict_dir :: string
  cr_opened_at :: i64
  cr_status :: conflict_record_status
  cr_fingerprint :: "string option"

record conflict_resolution_v1 =
  res_path :: string
  res_method :: resolution_method
  res_source_file_hash :: "string option"
  res_resolved_at :: i64
  res_resolver :: string

record 'w local_state =
  schema_version :: nat
  local_files :: "(string \<times> cache_entry_v1) list"
  file_access_log :: "'w access_entry list"
  last_session :: "(string \<times> string) list"
  conflict_registry :: "(string \<times> conflict_record_v1) list"
  conflict_resolutions :: "conflict_resolution_v1 list"

definition current_schema_version :: nat where "current_schema_version = 1"

definition local_state_default :: "'w local_state" where
  "local_state_default =
     \<lparr>schema_version = current_schema_version, local_files = [], file_access_log = [],
      last_session = [], conflict_registry = [], conflict_resolutions = []\<rparr>"

section \<open>Bounds, canonical order and pruning\<close>

definition access_log_max_entries :: nat where "access_log_max_entries = 10000"

definition max_local_state_bytes :: nat where "max_local_state_bytes = 128 * 1024 * 1024"

definition max_local_state_records :: nat where "max_local_state_records = max_tree_output_paths"

datatype local_error =
    LockFailed
  | StateMissing
  | StateTooLarge
  | StateNotUtf8
  | ParseFailed
  | InvalidSchemaVersion
  | NewerSchemaVersion
  | TooManyRecords string
  | NonFiniteWeight
  | NonFiniteDelta
  | NonFiniteFactor
  | WeightOverflow
  | SizeConversion size_conversion_error
  | WriteFailed
  | DurabilityUncertain

definition validate_bounds :: "'w local_state \<Rightarrow> local_error + unit" where
  "validate_bounds state =
     rbind (for_each (\<lambda>(label, count). ensure (count \<le> max_local_state_records) (TooManyRecords label))
        [(''local files'', length (local_files state)),
         (''session entries'', length (last_session state)),
         (''conflicts'', length (conflict_registry state)),
         (''conflict resolutions'', length (conflict_resolutions state))]) (\<lambda>_.
     ensure (length (file_access_log state) \<le> access_log_max_entries)
       (TooManyRecords ''access-log entries''))"

definition access_key :: "'w access_entry \<Rightarrow> string \<times> string" where
  "access_key e = (ae_path e, ae_sibling_path e)"

definition resolution_key :: "conflict_resolution_v1 \<Rightarrow> int \<times> string" where
  "resolution_key r = (sint (res_resolved_at r), res_path r)"

definition canonical_for_serialize :: "'w local_state \<Rightarrow> local_error + 'w local_state" where
  "canonical_for_serialize state =
     rbind (validate_bounds state) (\<lambda>_.
     Inr (state\<lparr>file_access_log := sort_key access_key (file_access_log state),
                conflict_resolutions := sort_key resolution_key (conflict_resolutions state)\<rparr>))"

text \<open>
  The floating-point operations the access log uses: \<^verbatim>\<open>is_finite\<close>, \<^verbatim>\<open>+\<close>, \<^verbatim>\<open>*\<close>, whether the absolute
  value reaches \<^verbatim>\<open>ACCESS_LOG_MIN_WEIGHT\<close>, and \<^verbatim>\<open>partial_cmp\<close> with \<^verbatim>\<open>Equal\<close> for what it cannot
  compare, as less-than.
\<close>

record 'w float_ops =
  is_finite :: "'w \<Rightarrow> bool"
  f_add :: "'w \<Rightarrow> 'w \<Rightarrow> 'w"
  f_mul :: "'w \<Rightarrow> 'w \<Rightarrow> 'w"
  abs_reaches_min :: "'w \<Rightarrow> bool"
  f_less :: "'w \<Rightarrow> 'w \<Rightarrow> bool"

definition access_rank :: "'w access_entry \<Rightarrow> int \<times> string \<times> string" where
  "access_rank e = (sint (ae_updated_at e), ae_path e, ae_sibling_path e)"

definition weight_order :: "'w float_ops \<Rightarrow> 'w access_entry \<Rightarrow> 'w access_entry \<Rightarrow> bool" where
  "weight_order F left right =
     (if f_less F (ae_weight left) (ae_weight right) then True
      else if f_less F (ae_weight right) (ae_weight left) then False
      else access_rank left \<le> access_rank right)"

definition prune_access_log :: "'w float_ops \<Rightarrow> 'w local_state \<Rightarrow> 'w local_state" where
  "prune_access_log F state =
     (let kept = filter (\<lambda>e. abs_reaches_min F (ae_weight e)) (file_access_log state)
      in if length kept \<le> access_log_max_entries then state\<lparr>file_access_log := kept\<rparr>
         else state\<lparr>file_access_log :=
                drop (length kept - access_log_max_entries) (sort_by (weight_order F) kept)\<rparr>)"

section \<open>Reading and writing the state file\<close>

text \<open>
  \<open>'t\<close> is the content of the file: \<open>to_text\<close> is \<^verbatim>\<open>serde_json::to_writer_pretty\<close>, \<open>text_version\<close> the
  parse of the schema version alone, \<open>from_text\<close> the full parse, \<open>text_len\<close> the number of bytes.
\<close>

record ('w, 't) json_codec =
  to_text :: "'w local_state \<Rightarrow> 't"
  from_text :: "'t \<Rightarrow> 'w local_state option"
  text_version :: "'t \<Rightarrow> nat option"
  text_len :: "'t \<Rightarrow> nat"
  text_utf8 :: "'t \<Rightarrow> bool"

definition write_json_with_limit ::
  "('w, 't) json_codec \<Rightarrow> nat \<Rightarrow> 'w local_state \<Rightarrow> local_error + 't" where
  "write_json_with_limit J max_bytes state =
     rbind (canonical_for_serialize state) (\<lambda>canonical.
     rbind (ensure (text_len J (to_text J canonical) \<le> max_bytes) StateTooLarge) (\<lambda>_.
     Inr (to_text J canonical)))"

definition from_json :: "'w float_ops \<Rightarrow> ('w, 't) json_codec \<Rightarrow> 't \<Rightarrow> local_error + 'w local_state" where
  "from_json F J json =
     rbind (ensure (text_len J json \<le> max_local_state_bytes) StateTooLarge) (\<lambda>_.
     rbind (case text_version J json of None \<Rightarrow> Inl ParseFailed | Some v \<Rightarrow> Inr v) (\<lambda>version.
     rbind (ensure (version \<noteq> 0) InvalidSchemaVersion) (\<lambda>_.
     rbind (ensure (version \<le> current_schema_version) NewerSchemaVersion) (\<lambda>_.
     rbind (case from_text J json of None \<Rightarrow> Inl ParseFailed | Some s \<Rightarrow> Inr s) (\<lambda>state.
     rbind (validate_bounds state) (\<lambda>_.
     rbind (for_each (\<lambda>entry. ensure (is_finite F (ae_weight entry)) NonFiniteWeight)
              (file_access_log state)) (\<lambda>_.
     Inr state)))))))"

definition read_local_state_text :: "('w, 't) json_codec \<Rightarrow> 't option \<Rightarrow> local_error + 't" where
  "read_local_state_text J disk =
     (case disk of
        None \<Rightarrow> Inl StateMissing
      | Some text \<Rightarrow>
          rbind (ensure (text_len J text \<le> max_local_state_bytes) StateTooLarge) (\<lambda>_.
          rbind (ensure (text_utf8 J text) StateNotUtf8) (\<lambda>_.
          Inr text)))"

definition read_state_file ::
  "'w float_ops \<Rightarrow> ('w, 't) json_codec \<Rightarrow> 't option \<Rightarrow> local_error + 'w local_state" where
  "read_state_file F J disk = rbind (read_local_state_text J disk) (from_json F J)"

section \<open>Transactions\<close>

text \<open>
  The outside of a transaction: whether the lock is granted, and what becomes of the atomic
  replacement of the file. The last case is a replacement whose directory could not be synced:
  the new content is in place and the caller gets an error.
\<close>

datatype commit_outcome = Replaced | NotReplaced | ReplacedUncertain

record store_io =
  lock_granted :: bool
  commit :: commit_outcome

type_synonym ('w, 'r) operation = "'w local_state \<Rightarrow> local_error + ('r \<times> 'w local_state)"

definition with_read ::
  "'w float_ops \<Rightarrow> ('w, 't) json_codec \<Rightarrow> store_io \<Rightarrow> ('w local_state \<Rightarrow> local_error + 'r)
    \<Rightarrow> 't option \<Rightarrow> local_error + 'r" where
  "with_read F J io operation disk =
     (if \<not> lock_granted io then Inl LockFailed
      else rbind (read_state_file F J disk) operation)"

definition overwrite :: "store_io \<Rightarrow> 't \<Rightarrow> 'r \<Rightarrow> 't option \<Rightarrow> (local_error + 'r) \<times> 't option" where
  "overwrite io text result disk =
     (case commit io of
        Replaced \<Rightarrow> (Inr result, Some text)
      | NotReplaced \<Rightarrow> (Inl WriteFailed, disk)
      | ReplacedUncertain \<Rightarrow> (Inl DurabilityUncertain, Some text))"

definition with_write_inner ::
  "'w float_ops \<Rightarrow> ('w, 't) json_codec \<Rightarrow> store_io \<Rightarrow> nat \<Rightarrow> ('w, 'r) operation
    \<Rightarrow> 't option \<Rightarrow> (local_error + 'r) \<times> 't option" where
  "with_write_inner F J io max_bytes operation disk =
     (if \<not> lock_granted io then (Inl LockFailed, disk)
      else (case read_state_file F J disk of
          Inl e \<Rightarrow> (Inl e, disk)
        | Inr state \<Rightarrow> (case operation state of
            Inl e \<Rightarrow> (Inl e, disk)
          | Inr (result, state') \<Rightarrow> (case write_json_with_limit J max_bytes state' of
              Inl e \<Rightarrow> (Inl e, disk)
            | Inr text \<Rightarrow> overwrite io text result disk))))"

definition with_write ::
  "'w float_ops \<Rightarrow> ('w, 't) json_codec \<Rightarrow> store_io \<Rightarrow> ('w, 'r) operation
    \<Rightarrow> 't option \<Rightarrow> (local_error + 'r) \<times> 't option" where
  "with_write F J io operation disk = with_write_inner F J io max_local_state_bytes operation disk"

text \<open>\<^verbatim>\<open>DurableState::new\<close>: an existing file is checked, a missing one is created.\<close>

definition durable_new ::
  "'w float_ops \<Rightarrow> ('w, 't) json_codec \<Rightarrow> store_io \<Rightarrow> 't option \<Rightarrow> (local_error + unit) \<times> 't option" where
  "durable_new F J io disk =
     (if \<not> lock_granted io then (Inl LockFailed, disk)
      else (case disk of
          Some _ \<Rightarrow> (rbind (read_state_file F J disk) (\<lambda>_. Inr ()), disk)
        | None \<Rightarrow> (case write_json_with_limit J max_local_state_bytes local_state_default of
            Inl e \<Rightarrow> (Inl e, disk)
          | Inr text \<Rightarrow> overwrite io text () disk)))"

section \<open>What a transaction leaves behind\<close>

text \<open>
  The contract of the JSON codec. Everything but a weight is read back as it was written; a
  finite weight is read back as the finite number \<open>g\<close> that its decimal text parses to.
\<close>

definition finite_weights :: "'w float_ops \<Rightarrow> 'w local_state \<Rightarrow> bool" where
  "finite_weights F s \<longleftrightarrow> (\<forall>e\<in>set (file_access_log s). is_finite F (ae_weight e))"

definition map_weights :: "('w \<Rightarrow> 'w) \<Rightarrow> 'w local_state \<Rightarrow> 'w local_state" where
  "map_weights g s = s\<lparr>file_access_log := map (\<lambda>e. e\<lparr>ae_weight := g (ae_weight e)\<rparr>) (file_access_log s)\<rparr>"

definition json_ok :: "'w float_ops \<Rightarrow> ('w, 't) json_codec \<Rightarrow> ('w \<Rightarrow> 'w) \<Rightarrow> bool" where
  "json_ok F J g \<longleftrightarrow>
     (\<forall>w. is_finite F w \<longrightarrow> is_finite F (g w))
     \<and> (\<forall>s. text_utf8 J (to_text J s) \<and> text_version J (to_text J s) = Some (schema_version s)
          \<and> (finite_weights F s \<longrightarrow> from_text J (to_text J s) = Some (map_weights g s)))"

text \<open>The form in which a state is stored and read back.\<close>

definition stored :: "('w \<Rightarrow> 'w) \<Rightarrow> 'w local_state \<Rightarrow> 'w local_state" where
  "stored g s = map_weights g
     (s\<lparr>file_access_log := sort_key access_key (file_access_log s),
        conflict_resolutions := sort_key resolution_key (conflict_resolutions s)\<rparr>)"

lemma map_weights_simps [simp]:
  "schema_version (map_weights g s) = schema_version s"
  "local_files (map_weights g s) = local_files s"
  "last_session (map_weights g s) = last_session s"
  "conflict_registry (map_weights g s) = conflict_registry s"
  "conflict_resolutions (map_weights g s) = conflict_resolutions s"
  "length (file_access_log (map_weights g s)) = length (file_access_log s)"
  by (simp_all add: map_weights_def)

lemma stored_simps [simp]:
  "schema_version (stored g s) = schema_version s"
  "local_files (stored g s) = local_files s"
  "last_session (stored g s) = last_session s"
  "conflict_registry (stored g s) = conflict_registry s"
  "conflict_resolutions (stored g s) = sort_key resolution_key (conflict_resolutions s)"
  "length (file_access_log (stored g s)) = length (file_access_log s)"
  by (simp_all add: stored_def)

text \<open>What the checks of a written file accept.\<close>

definition loadable :: "'w float_ops \<Rightarrow> 'w local_state \<Rightarrow> bool" where
  "loadable F s \<longleftrightarrow> schema_version s = current_schema_version \<and> finite_weights F s
     \<and> validate_bounds s = Inr ()"

lemma validate_bounds_cong:
  "length (local_files s) = length (local_files s') \<Longrightarrow> length (last_session s) = length (last_session s')
   \<Longrightarrow> length (conflict_registry s) = length (conflict_registry s')
   \<Longrightarrow> length (conflict_resolutions s) = length (conflict_resolutions s')
   \<Longrightarrow> length (file_access_log s) = length (file_access_log s') \<Longrightarrow> validate_bounds s = validate_bounds s'"
  by (simp add: validate_bounds_def)

lemma finite_weights_stored:
  assumes "\<forall>w. is_finite F w \<longrightarrow> is_finite F (g w)" and "finite_weights F s"
  shows "finite_weights F (stored g s)"
  using assms by (auto simp: finite_weights_def stored_def map_weights_def)

lemma write_json_Inr:
  "write_json_with_limit J m s = Inr t \<longleftrightarrow> validate_bounds s = Inr ()
     \<and> t = to_text J (s\<lparr>file_access_log := sort_key access_key (file_access_log s),
          conflict_resolutions := sort_key resolution_key (conflict_resolutions s)\<rparr>)
     \<and> text_len J t \<le> m"
  by (auto simp: write_json_with_limit_def canonical_for_serialize_def rbind_eq_Inr)

lemma read_state_file_Inr:
  "read_state_file F J disk = Inr s \<longleftrightarrow> (\<exists>t v. disk = Some t \<and> text_len J t \<le> max_local_state_bytes
     \<and> text_utf8 J t \<and> text_version J t = Some v \<and> v \<noteq> 0 \<and> v \<le> current_schema_version
     \<and> from_text J t = Some s \<and> validate_bounds s = Inr () \<and> finite_weights F s)"
  by (cases disk; cases "text_version J (the disk)"; cases "from_text J (the disk)")
    (auto simp: read_state_file_def read_local_state_text_def from_json_def rbind_eq_Inr
      for_each_eq_Inr finite_weights_def)

text \<open>What was written under the limit is read back, in its stored form.\<close>

lemma read_written:
  assumes "json_ok F J g" and "write_json_with_limit J m s = Inr t" and "m \<le> max_local_state_bytes"
    and "schema_version s = current_schema_version" and "finite_weights F s"
  shows "read_state_file F J (Some t) = Inr (stored g s)"
proof -
  let ?c = "s\<lparr>file_access_log := sort_key access_key (file_access_log s),
          conflict_resolutions := sort_key resolution_key (conflict_resolutions s)\<rparr>"
  have t: "t = to_text J ?c" and len: "text_len J t \<le> max_local_state_bytes" and b: "validate_bounds s = Inr ()"
    using assms(2,3) by (auto simp: write_json_Inr)
  have fc: "finite_weights F ?c" using assms(5) by (auto simp: finite_weights_def)
  have "from_text J t = Some (map_weights g ?c)" "text_utf8 J t" "text_version J t = Some (schema_version ?c)"
    using assms(1) fc unfolding json_ok_def t by blast+
  then have ft: "from_text J t = Some (stored g s)" by (simp add: stored_def)
  have "validate_bounds (stored g s) = validate_bounds s" by (rule validate_bounds_cong) simp_all
  moreover have "finite_weights F (stored g s)"
    using assms(1,5) unfolding json_ok_def by (blast intro: finite_weights_stored)
  ultimately show ?thesis
    using \<open>text_utf8 J t\<close> \<open>text_version J t = _\<close> assms(4) b len ft
    unfolding read_state_file_Inr by (simp add: current_schema_version_def)
qed

text \<open>The three ways a transaction can end.\<close>

lemma with_write_cases:
  assumes "with_write F J io operation disk = (res, disk')"
  obtains (kept) "disk' = disk" "\<exists>e. res = Inl e"
  | (wrote) s r s' t where "read_state_file F J disk = Inr s" "operation s = Inr (r, s')"
      "write_json_with_limit J max_local_state_bytes s' = Inr t" "disk' = Some t"
      "res = (if commit io = Replaced then Inr r else Inl DurabilityUncertain)" "commit io \<noteq> NotReplaced"
  using assms
  by (auto simp: with_write_def with_write_inner_def overwrite_def
      split: if_splits sum.splits commit_outcome.splits prod.splits)

text \<open>
  The interface the client database is built on, for every environment \<open>c\<close> that keeps its part of
  the contract (\<open>ok c\<close>). \<open>load\<close> is what a reader sees, \<open>run\<close> a whole transaction, \<open>works\<close> what the
  operation does to a loaded state. A transaction keeps the content or replaces it with the
  stored form of what the operation made.
\<close>

locale durable_store =
  fixes ok :: "'c \<Rightarrow> bool"
    and load :: "'c \<Rightarrow> 'd \<Rightarrow> 's option"
    and run :: "'c \<Rightarrow> 'o \<Rightarrow> 'io \<Rightarrow> 'd \<Rightarrow> 'd"
    and works :: "'c \<Rightarrow> 'o \<Rightarrow> 's \<Rightarrow> 's \<Rightarrow> bool"
    and form :: "'c \<Rightarrow> 's \<Rightarrow> 's"
    and good :: "'c \<Rightarrow> 's \<Rightarrow> bool"
  assumes run_cases: "ok c \<Longrightarrow> run c x io d = d \<or>
      (\<exists>s s'. load c d = Some s \<and> works c x s s' \<and> (good c s' \<longrightarrow> load c (run c x io d) = Some (form c s')))"
    and form_good: "ok c \<Longrightarrow> good c s \<Longrightarrow> good c (form c s)"
begin

text \<open>An invariant that the operations and the stored form keep holds after every history.\<close>

lemma history_invariant:
  assumes "ok c" and "load c d = Some s" and "good c s" and "I s"
    and "\<And>x io t t'. (x, io) \<in> set xs \<Longrightarrow> good c t \<Longrightarrow> I t \<Longrightarrow> works c x t t' \<Longrightarrow> good c t' \<and> I t'"
    and "\<And>t. good c t \<Longrightarrow> I t \<Longrightarrow> I (form c t)"
  shows "\<exists>s'. load c (fold (\<lambda>(x, io). run c x io) xs d) = Some s' \<and> good c s' \<and> I s'"
  using assms(2-5)
proof (induction xs arbitrary: d s)
  case (Cons a xs)
  obtain x io where a: "a = (x, io)" by force
  have "\<exists>t. load c (run c x io d) = Some t \<and> good c t \<and> I t"
  proof (cases "run c x io d = d")
    case False
    with run_cases [OF assms(1), of x io d] Cons.prems(1) obtain s' where
      s': "works c x s s'" "good c s' \<Longrightarrow> load c (run c x io d) = Some (form c s')" by auto
    have "good c s' \<and> I s'" using Cons.prems(2-4) s'(1) unfolding a by (metis list.set_intros(1))
    with s' form_good [OF assms(1)] assms(6) show ?thesis by blast
  qed (use Cons.prems in auto)
  then obtain t where t: "load c (run c x io d) = Some t" "good c t" "I t" by blast
  have "\<exists>s'. load c (fold (\<lambda>(x, io). run c x io) xs (run c x io d)) = Some s' \<and> good c s' \<and> I s'"
    by (rule Cons.IH [OF t]) (metis Cons.prems(4) list.set_intros(2))
  then show ?case by (simp add: a)
qed auto

end

definition load_state :: "'w float_ops \<Rightarrow> ('w, 't) json_codec \<Rightarrow> 't option \<Rightarrow> 'w local_state option" where
  "load_state F J disk = (case read_state_file F J disk of Inl _ \<Rightarrow> None | Inr s \<Rightarrow> Some s)"

lemma load_state_Some: "load_state F J disk = Some s \<longleftrightarrow> read_state_file F J disk = Inr s"
  by (simp add: load_state_def split: sum.split)

lemma transaction_contract:
  assumes "json_ok F J g" and "with_write F J io operation disk = (res, disk')"
  shows "disk' = disk \<or> (\<exists>s r s'. load_state F J disk = Some s \<and> operation s = Inr (r, s')
     \<and> (schema_version s' = current_schema_version \<and> finite_weights F s' \<longrightarrow>
         load_state F J disk' = Some (stored g s')))"
  using assms(2)
proof (cases rule: with_write_cases)
  case (wrote s r s' t)
  show ?thesis
  proof (cases "schema_version s' = current_schema_version \<and> finite_weights F s'")
    case True
    then have "read_state_file F J (Some t) = Inr (stored g s')"
      by (intro read_written [OF assms(1) wrote(3)]) simp_all
    then show ?thesis using wrote by (auto simp: load_state_Some)
  next
    case False
    then show ?thesis using wrote by (auto simp: load_state_Some)
  qed
qed blast

text \<open>
  C16. A transaction is atomic. Either it fails and the file is what it was, or the operation
  succeeded on the state that was on disk and reading the file gives exactly the stored form of
  its result. The second case is reported as success, or as an uncertain
  write when the directory could not be synced; a success is never reported otherwise.
\<close>

theorem with_write_atomic:
  assumes "json_ok F J g" and "with_write F J io operation disk = (res, disk')"
    and "\<forall>s r s'. read_state_file F J disk = Inr s \<and> operation s = Inr (r, s') \<longrightarrow>
           schema_version s' = current_schema_version \<and> finite_weights F s'"
  shows "disk' = disk \<and> (\<exists>e. res = Inl e)
    \<or> (\<exists>s r s'. read_state_file F J disk = Inr s \<and> operation s = Inr (r, s')
        \<and> (case commit io of Replaced \<Rightarrow> res = Inr r | ReplacedUncertain \<Rightarrow> res = Inl DurabilityUncertain
           | NotReplaced \<Rightarrow> False)
        \<and> read_state_file F J disk' = Inr (stored g s'))"
  using assms(2)
proof (cases rule: with_write_cases)
  case kept
  then show ?thesis by blast
next
  case (wrote s r s' t)
  have "schema_version s' = current_schema_version \<and> finite_weights F s'"
    using assms(3) wrote(1,2) by blast
  then have "read_state_file F J disk' = Inr (stored g s')"
    using read_written [OF assms(1) wrote(3)] wrote(4) by simp
  with wrote show ?thesis by (cases "commit io") auto
qed

text \<open>A codec whose text is the state itself, and a state with one session key.\<close>

definition plain_codec :: "(nat, nat local_state) json_codec" where
  "plain_codec = \<lparr>to_text = \<lambda>s. s, from_text = Some, text_version = \<lambda>s. Some (schema_version s),
     text_len = \<lambda>s. length (local_files s), text_utf8 = \<lambda>_. True\<rparr>"

definition plain_floats :: "nat float_ops" where
  "plain_floats = \<lparr>is_finite = \<lambda>_. True, f_add = (+), f_mul = (*),
     abs_reaches_min = \<lambda>_. True, f_less = (<)\<rparr>"

lemma plain_codec_ok: "json_ok plain_floats plain_codec (\<lambda>w. w)"
  by (auto simp: json_ok_def plain_codec_def plain_floats_def map_weights_def finite_weights_def)

definition granted :: store_io where
  "granted = \<lparr>lock_granted = True, commit = Replaced\<rparr>"

lemma sample_disk_read:
  "read_state_file plain_floats plain_codec (Some local_state_default) = Inr local_state_default"
  by code_simp

theorem with_write_atomic_witness:
  "let op = (\<lambda>s :: nat local_state. Inr ((), s\<lparr>last_session := [(''k'', ''v'')]\<rparr>));
       (res, disk') = with_write plain_floats plain_codec granted op (Some local_state_default)
   in res = Inr () \<and> (\<exists>s. read_state_file plain_floats plain_codec disk'
        = Inr (stored (\<lambda>w. w) (s\<lparr>last_session := [(''k'', ''v'')]\<rparr>)))"
proof -
  let ?op = "\<lambda>s :: nat local_state. Inr ((), s\<lparr>last_session := [(''k'', ''v'')]\<rparr>) :: local_error + unit \<times> nat local_state"
  let ?d = "Some (local_state_default\<lparr>last_session := [(''k'', ''v'')]\<rparr>)"
  have run: "with_write plain_floats plain_codec granted ?op (Some local_state_default) = (Inr (), ?d)"
    by code_simp
  have "\<forall>s r s'. read_state_file plain_floats plain_codec (Some local_state_default) = Inr s \<and> ?op s = Inr (r, s') \<longrightarrow>
      schema_version s' = current_schema_version \<and> finite_weights plain_floats s'"
    unfolding sample_disk_read by (auto simp: local_state_default_def finite_weights_def)
  from with_write_atomic [OF plain_codec_ok run this] show ?thesis
    unfolding Let_def run by auto
qed

end
