(* ===== verification/Client_Db.thy ===== *)
theory Client_Db
  imports Local_State
begin

text \<open>
  The client database \<^verbatim>\<open>ClientDb\<close> on top of the durable state: the file cache
  (\<^verbatim>\<open>agent-core/src/local/cache.rs\<close>), the registry of conflicts and the history of their resolutions
  (\<^verbatim>\<open>agent-core/src/local/conflicts.rs\<close>), the access log and the session keys
  (\<^verbatim>\<open>agent-core/src/local/access.rs\<close>), and the transfer of a whole state. Each operation is a function on
  the state, the closure the code hands to \<^verbatim>\<open>with_write\<close> or \<^verbatim>\<open>with_read\<close>; \<open>run_client_op\<close> runs
  one as a transaction. The clock is an argument.
\<close>

section \<open>The file cache\<close>

record cache_entry =
  ce_entry_path :: string
  ce_plaintext_hash :: string
  ce_encrypted_hash :: string
  ce_size :: u64
  ce_mtime :: i64
  ce_server_mtime :: i64
  ce_mode :: u32
  ce_hydrated :: bool
  ce_deleted_at :: "i64 option"

text \<open>\<^verbatim>\<open>i32::try_from(mode).unwrap_or(0)\<close> and \<^verbatim>\<open>u32::try_from(mode).unwrap_or(0)\<close>.\<close>

definition mode_to_i32 :: "u32 \<Rightarrow> i32" where
  "mode_to_i32 mode = (if unat mode < 2 ^ 31 then mode else 0)"

definition mode_to_u32 :: "i32 \<Rightarrow> u32" where
  "mode_to_u32 mode = (if 0 \<le> sint mode then mode else 0)"

definition cache_to_v1 :: "cache_entry \<Rightarrow> local_error + cache_entry_v1" where
  "cache_to_v1 entry =
     rbind (map_err SizeConversion (file_size_to_db (ce_size entry))) (\<lambda>size'.
     Inr \<lparr>v1_plaintext_hash = ce_plaintext_hash entry, v1_encrypted_hash = ce_encrypted_hash entry,
          v1_size = size', v1_mtime = ce_mtime entry, v1_server_mtime = ce_server_mtime entry,
          v1_mode = mode_to_i32 (ce_mode entry), v1_hydrated = ce_hydrated entry,
          v1_deleted_at = ce_deleted_at entry\<rparr>)"

definition cache_from_v1 :: "string \<Rightarrow> cache_entry_v1 \<Rightarrow> local_error + cache_entry" where
  "cache_from_v1 path entry =
     rbind (map_err SizeConversion (file_size_from_db (v1_size entry))) (\<lambda>size'.
     Inr \<lparr>ce_entry_path = path, ce_plaintext_hash = v1_plaintext_hash entry,
          ce_encrypted_hash = v1_encrypted_hash entry, ce_size = size', ce_mtime = v1_mtime entry,
          ce_server_mtime = v1_server_mtime entry, ce_mode = mode_to_u32 (v1_mode entry),
          ce_hydrated = v1_hydrated entry, ce_deleted_at = v1_deleted_at entry\<rparr>)"

text \<open>A fallible \<^verbatim>\<open>map(...).collect()\<close> over the entries of a map.\<close>

fun collect_entries :: "('k \<Rightarrow> 'v \<Rightarrow> 'e + 'u) \<Rightarrow> ('k \<times> 'v) list \<Rightarrow> 'e + ('k \<times> 'u) list" where
  "collect_entries f [] = Inr []"
| "collect_entries f ((k, v) # m) =
     rbind (f k v) (\<lambda>u. rbind (collect_entries f m) (\<lambda>us. Inr ((k, u) # us)))"

definition get_cache_entries :: "'w local_state \<Rightarrow> local_error + (string \<times> cache_entry) list" where
  "get_cache_entries state = collect_entries cache_from_v1 (local_files state)"

definition put_cache :: "cache_entry \<Rightarrow> 'w local_state \<Rightarrow> local_error + 'w local_state" where
  "put_cache entry state =
     rbind (cache_to_v1 entry) (\<lambda>v1.
     Inr (state\<lparr>local_files := btree_insert (ce_entry_path entry) v1 (local_files state)\<rparr>))"

definition remove_cache :: "string \<Rightarrow> 'w local_state \<Rightarrow> 'w local_state" where
  "remove_cache path state = state\<lparr>local_files := btree_remove path (local_files state)\<rparr>"

definition upsert_cache_entry :: "cache_entry \<Rightarrow> 'w local_state \<Rightarrow> local_error + 'w local_state" where
  "upsert_cache_entry entry state = put_cache entry state"

definition delete_cache_entry :: "string \<Rightarrow> 'w local_state \<Rightarrow> local_error + 'w local_state" where
  "delete_cache_entry path state = Inr (remove_cache path state)"

definition delete_cache_entries :: "string list \<Rightarrow> 'w local_state \<Rightarrow> local_error + 'w local_state" where
  "delete_cache_entries paths state = Inr (fold remove_cache paths state)"

definition set_deleted_at :: "string \<Rightarrow> i64 \<Rightarrow> 'w local_state \<Rightarrow> local_error + 'w local_state" where
  "set_deleted_at path deleted_at state =
     Inr (state\<lparr>local_files :=
        btree_adjust path (\<lambda>e. e\<lparr>v1_deleted_at := Some deleted_at\<rparr>) (local_files state)\<rparr>)"

definition put_server_mtime :: "string \<Rightarrow> i64 \<Rightarrow> 'w local_state \<Rightarrow> 'w local_state" where
  "put_server_mtime path server_mtime state =
     state\<lparr>local_files :=
        btree_adjust path (\<lambda>e. e\<lparr>v1_server_mtime := server_mtime\<rparr>) (local_files state)\<rparr>"

definition set_cache_server_mtime :: "string \<Rightarrow> i64 \<Rightarrow> 'w local_state \<Rightarrow> local_error + 'w local_state" where
  "set_cache_server_mtime path server_mtime state = Inr (put_server_mtime path server_mtime state)"

definition set_cache_server_mtimes ::
  "(string \<times> i64) list \<Rightarrow> 'w local_state \<Rightarrow> local_error + 'w local_state" where
  "set_cache_server_mtimes updates state =
     Inr (fold (\<lambda>(path, server_mtime). put_server_mtime path server_mtime) updates state)"

definition bulk_upsert_cache_entries ::
  "cache_entry list \<Rightarrow> 'w local_state \<Rightarrow> local_error + 'w local_state" where
  "bulk_upsert_cache_entries upserts state = fold_result put_cache upserts state"

definition apply_cache_changes ::
  "cache_entry list \<Rightarrow> string list \<Rightarrow> 'w local_state \<Rightarrow> local_error + 'w local_state" where
  "apply_cache_changes upserts deletes state = fold_result put_cache upserts (fold remove_cache deletes state)"

section \<open>Conflict records\<close>

text \<open>
  \<open>S dir fingerprint\<close> is the path in the identity sidecar that \<^verbatim>\<open>read_identity_sidecar\<close> finds and
  verifies in a conflict directory.
\<close>

type_synonym sidecars = "string \<Rightarrow> string \<Rightarrow> string option"

definition sidecar_matches_record :: "sidecars \<Rightarrow> conflict_record_v1 \<Rightarrow> bool" where
  "sidecar_matches_record S record' =
     (case cr_fingerprint record' of
        None \<Rightarrow> False
      | Some fingerprint \<Rightarrow> S (cr_conflict_dir record') fingerprint = Some (cr_path record'))"

definition effective_status :: "sidecars \<Rightarrow> conflict_record_v1 \<Rightarrow> string" where
  "effective_status S record' =
     (case cr_status record' of
        Pending \<Rightarrow> if sidecar_matches_record S record' then ''pending'' else ''legacy_unfingerprinted''
      | LegacyUnfingerprinted \<Rightarrow> ''legacy_unfingerprinted''
      | Unknown \<Rightarrow> ''unknown'')"

record conflict_record =
  pub_path :: string
  pub_kind :: conflict_kind
  pub_conflict_dir :: string
  pub_opened_at :: i64
  pub_status :: string

definition public_record :: "sidecars \<Rightarrow> conflict_record_v1 \<Rightarrow> conflict_record" where
  "public_record S record' =
     \<lparr>pub_path = cr_path record', pub_kind = cr_kind record', pub_conflict_dir = cr_conflict_dir record',
      pub_opened_at = cr_opened_at record', pub_status = effective_status S record'\<rparr>"

definition pending_records :: "'w local_state \<Rightarrow> conflict_record_v1 list" where
  "pending_records state =
     filter (\<lambda>r. is_pending (cr_status r)) (map snd (conflict_registry state))"

definition list_pending_conflict_paths :: "'w local_state \<Rightarrow> string list" where
  "list_pending_conflict_paths state = map cr_path (pending_records state)"

definition list_conflict_records :: "sidecars \<Rightarrow> 'w local_state \<Rightarrow> conflict_record list" where
  "list_conflict_records S state = map (public_record S) (pending_records state)"

definition get_conflict_record :: "sidecars \<Rightarrow> string \<Rightarrow> 'w local_state \<Rightarrow> conflict_record option" where
  "get_conflict_record S path state =
     (case map_of (conflict_registry state) path of
        Some r \<Rightarrow> if is_pending (cr_status r) then Some (public_record S r) else None
      | None \<Rightarrow> None)"

definition insert_record :: "conflict_record_v1 \<Rightarrow> 'w local_state \<Rightarrow> 'w local_state" where
  "insert_record r state =
     state\<lparr>conflict_registry := btree_insert (cr_path r) r (conflict_registry state)\<rparr>"

definition upsert_conflict ::
  "string \<Rightarrow> conflict_kind \<Rightarrow> string \<Rightarrow> i64 \<Rightarrow> conflict_record_status
    \<Rightarrow> 'w local_state \<Rightarrow> local_error + 'w local_state" where
  "upsert_conflict path kind conflict_dir opened_at status state =
     Inr (insert_record \<lparr>cr_path = path, cr_kind = kind, cr_conflict_dir = conflict_dir,
        cr_opened_at = opened_at, cr_status = status, cr_fingerprint = None\<rparr> state)"

text \<open>The identity sidecar is written first; \<open>written\<close> says whether that succeeded.\<close>

definition upsert_conflict_fingerprinted ::
  "bool \<Rightarrow> string \<Rightarrow> conflict_kind \<Rightarrow> string \<Rightarrow> i64 \<Rightarrow> string
    \<Rightarrow> 'w local_state \<Rightarrow> local_error + 'w local_state" where
  "upsert_conflict_fingerprinted written path kind conflict_dir opened_at fingerprint state =
     rbind (ensure written WriteFailed) (\<lambda>_.
     Inr (insert_record \<lparr>cr_path = path, cr_kind = kind, cr_conflict_dir = conflict_dir,
        cr_opened_at = opened_at, cr_status = Pending, cr_fingerprint = Some fingerprint\<rparr> state))"

definition is_conflict_fingerprinted :: "sidecars \<Rightarrow> string \<Rightarrow> 'w local_state \<Rightarrow> bool" where
  "is_conflict_fingerprinted S path state =
     (case map_of (conflict_registry state) path of
        Some r \<Rightarrow> cr_status r = Pending \<and> sidecar_matches_record S r
      | None \<Rightarrow> False)"

definition list_automatic_candidates :: "sidecars \<Rightarrow> 'w local_state \<Rightarrow> string list" where
  "list_automatic_candidates S state =
     map cr_path (filter (\<lambda>r. cr_status r = Pending \<and> sidecar_matches_record S r)
       (map snd (conflict_registry state)))"

definition needs_migration :: "sidecars \<Rightarrow> conflict_record_v1 \<Rightarrow> bool" where
  "needs_migration S r \<longleftrightarrow> cr_status r = Pending \<and> \<not> sidecar_matches_record S r"

definition migrate_record :: "sidecars \<Rightarrow> conflict_record_v1 \<Rightarrow> conflict_record_v1" where
  "migrate_record S r = (if needs_migration S r then r\<lparr>cr_status := LegacyUnfingerprinted\<rparr> else r)"

definition migrate_legacy_conflict_statuses :: "sidecars \<Rightarrow> 'w local_state \<Rightarrow> nat \<times> 'w local_state" where
  "migrate_legacy_conflict_statuses S state =
     (length (filter (needs_migration S) (map snd (conflict_registry state))),
      state\<lparr>conflict_registry := map (\<lambda>(k, r). (k, migrate_record S r)) (conflict_registry state)\<rparr>)"

definition remove_record :: "string \<Rightarrow> 'w local_state \<Rightarrow> 'w local_state" where
  "remove_record path state = state\<lparr>conflict_registry := btree_remove path (conflict_registry state)\<rparr>"

definition resolve_conflict_path :: "string \<Rightarrow> 'w local_state \<Rightarrow> local_error + 'w local_state" where
  "resolve_conflict_path path state = Inr (remove_record path state)"

definition push_resolution :: "conflict_resolution_v1 \<Rightarrow> 'w local_state \<Rightarrow> 'w local_state" where
  "push_resolution r state = state\<lparr>conflict_resolutions := conflict_resolutions state @ [r]\<rparr>"

definition resolve_conflict_paths_with_history ::
  "string list \<Rightarrow> resolution_method \<Rightarrow> string \<Rightarrow> i64 \<Rightarrow> 'w local_state \<Rightarrow> local_error + 'w local_state" where
  "resolve_conflict_paths_with_history paths method resolver resolved_at state =
     Inr (fold (\<lambda>path s. push_resolution \<lparr>res_path = path, res_method = method,
            res_source_file_hash = None, res_resolved_at = resolved_at, res_resolver = resolver\<rparr>
          (remove_record path s)) paths state)"

definition count_pending_in_dir :: "string \<Rightarrow> 'w local_state \<Rightarrow> u32" where
  "count_pending_in_dir conflict_dir state =
     of_nat (length (filter (\<lambda>r. cr_conflict_dir r = conflict_dir \<and> is_pending (cr_status r))
       (map snd (conflict_registry state))))"

definition record_conflict_resolution ::
  "string \<Rightarrow> resolution_method \<Rightarrow> string option \<Rightarrow> string \<Rightarrow> i64
    \<Rightarrow> 'w local_state \<Rightarrow> local_error + 'w local_state" where
  "record_conflict_resolution path method source_file_hash resolver resolved_at state =
     Inr (push_resolution \<lparr>res_path = path, res_method = method, res_source_file_hash = source_file_hash,
        res_resolved_at = resolved_at, res_resolver = resolver\<rparr> state)"

record conflict_resolution =
  hist_path :: string
  hist_method :: string
  hist_source_file_hash :: "string option"
  hist_resolved_at :: i64
  hist_resolver :: string

definition public_resolution :: "conflict_resolution_v1 \<Rightarrow> conflict_resolution" where
  "public_resolution r =
     \<lparr>hist_path = res_path r, hist_method = method_as_db_str (res_method r),
      hist_source_file_hash = res_source_file_hash r, hist_resolved_at = res_resolved_at r,
      hist_resolver = res_resolver r\<rparr>"

definition list_conflict_resolutions :: "'w local_state \<Rightarrow> conflict_resolution list" where
  "list_conflict_resolutions state =
     rev (sort_key (\<lambda>r. sint (hist_resolved_at r)) (map public_resolution (conflict_resolutions state)))"

section \<open>Access log and session keys\<close>

text \<open>
  The first entry of the pair is changed in place, or a new one is appended. The checks of the
  argument happen before the transaction.
\<close>

fun adjust_access ::
  "'w float_ops \<Rightarrow> string \<Rightarrow> string \<Rightarrow> 'w \<Rightarrow> i64 \<Rightarrow> 'w access_entry list \<Rightarrow> local_error + 'w access_entry list" where
  "adjust_access F path sibling delta now [] =
     Inr [\<lparr>ae_path = path, ae_sibling_path = sibling, ae_weight = delta, ae_updated_at = now\<rparr>]"
| "adjust_access F path sibling delta now (e # es) =
     (if ae_path e = path \<and> ae_sibling_path e = sibling then
        (let new_weight = f_add F (ae_weight e) delta in
         if \<not> is_finite F new_weight then Inl WeightOverflow
         else Inr (e\<lparr>ae_weight := new_weight, ae_updated_at := now\<rparr> # es))
      else rbind (adjust_access F path sibling delta now es) (\<lambda>es'. Inr (e # es')))"

definition record_access_pair ::
  "'w float_ops \<Rightarrow> string \<Rightarrow> string \<Rightarrow> 'w \<Rightarrow> i64 \<Rightarrow> 'w local_state \<Rightarrow> local_error + 'w local_state" where
  "record_access_pair F path sibling weight_delta now state =
     rbind (ensure (is_finite F weight_delta) NonFiniteDelta) (\<lambda>_.
     rbind (adjust_access F path sibling weight_delta now (file_access_log state)) (\<lambda>log.
     Inr (prune_access_log F (state\<lparr>file_access_log := log\<rparr>))))"

definition get_predictive_siblings ::
  "'w float_ops \<Rightarrow> string \<Rightarrow> nat \<Rightarrow> 'w local_state \<Rightarrow> (string \<times> 'w) list" where
  "get_predictive_siblings F path limit state =
     map (\<lambda>e. (ae_sibling_path e, ae_weight e))
       (take limit (sort_by (\<lambda>left right. \<not> f_less F (ae_weight left) (ae_weight right))
         (filter (\<lambda>e. ae_path e = path \<and> ae_sibling_path e \<noteq> path) (file_access_log state))))"

definition decay_access_log ::
  "'w float_ops \<Rightarrow> 'w \<Rightarrow> 'w local_state \<Rightarrow> local_error + 'w local_state" where
  "decay_access_log F factor state =
     rbind (ensure (is_finite F factor) NonFiniteFactor) (\<lambda>_.
     Inr (prune_access_log F (state\<lparr>file_access_log :=
       map (\<lambda>e. e\<lparr>ae_weight := f_mul F (ae_weight e) factor\<rparr>) (file_access_log state)\<rparr>)))"

definition set_session_key :: "string \<Rightarrow> string \<Rightarrow> 'w local_state \<Rightarrow> local_error + 'w local_state" where
  "set_session_key key value state =
     Inr (state\<lparr>last_session := btree_insert key value (last_session state)\<rparr>)"

definition get_session_key :: "string \<Rightarrow> 'w local_state \<Rightarrow> string option" where
  "get_session_key key state = map_of (last_session state) key"

section \<open>Transfer of a whole state\<close>

record migration_cache_entry =
  mc_plaintext_hash :: string
  mc_encrypted_hash :: string
  mc_size :: u64
  mc_mtime :: i64
  mc_server_mtime :: i64
  mc_mode :: u32
  mc_hydrated :: bool
  mc_deleted_at :: "i64 option"

record migration_conflict_record =
  mr_path :: string
  mr_kind :: conflict_kind
  mr_conflict_dir :: string
  mr_opened_at :: i64
  mr_status :: string

record 'w migration_local_state =
  m_local_files :: "(string \<times> migration_cache_entry) list"
  m_file_access_log :: "'w access_entry list"
  m_last_session :: "(string \<times> string) list"
  m_conflict_registry :: "(string \<times> migration_conflict_record) list"
  m_conflict_resolutions :: "conflict_resolution list"

definition cache_of_migration :: "string \<Rightarrow> migration_cache_entry \<Rightarrow> local_error + cache_entry_v1" where
  "cache_of_migration path entry =
     rbind (map_err SizeConversion (file_size_to_db (mc_size entry))) (\<lambda>size'.
     Inr \<lparr>v1_plaintext_hash = mc_plaintext_hash entry, v1_encrypted_hash = mc_encrypted_hash entry,
          v1_size = size', v1_mtime = mc_mtime entry, v1_server_mtime = mc_server_mtime entry,
          v1_mode = mode_to_i32 (mc_mode entry), v1_hydrated = mc_hydrated entry,
          v1_deleted_at = mc_deleted_at entry\<rparr>)"

definition cache_to_migration :: "string \<Rightarrow> cache_entry_v1 \<Rightarrow> local_error + migration_cache_entry" where
  "cache_to_migration path entry =
     rbind (map_err SizeConversion (file_size_from_db (v1_size entry))) (\<lambda>size'.
     Inr \<lparr>mc_plaintext_hash = v1_plaintext_hash entry, mc_encrypted_hash = v1_encrypted_hash entry,
          mc_size = size', mc_mtime = v1_mtime entry, mc_server_mtime = v1_server_mtime entry,
          mc_mode = mode_to_u32 (v1_mode entry), mc_hydrated = v1_hydrated entry,
          mc_deleted_at = v1_deleted_at entry\<rparr>)"

definition record_of_migration :: "migration_conflict_record \<Rightarrow> conflict_record_v1" where
  "record_of_migration r =
     \<lparr>cr_path = mr_path r, cr_kind = mr_kind r, cr_conflict_dir = mr_conflict_dir r,
      cr_opened_at = mr_opened_at r, cr_status = status_from_db_str (mr_status r), cr_fingerprint = None\<rparr>"

definition record_to_migration :: "conflict_record_v1 \<Rightarrow> migration_conflict_record" where
  "record_to_migration r =
     \<lparr>mr_path = cr_path r, mr_kind = cr_kind r, mr_conflict_dir = cr_conflict_dir r,
      mr_opened_at = cr_opened_at r, mr_status = status_as_db_str (cr_status r)\<rparr>"

definition resolution_of_migration :: "conflict_resolution \<Rightarrow> conflict_resolution_v1" where
  "resolution_of_migration r =
     \<lparr>res_path = hist_path r, res_method = method_from_db_str (hist_method r),
      res_source_file_hash = hist_source_file_hash r, res_resolved_at = hist_resolved_at r,
      res_resolver = hist_resolver r\<rparr>"

definition replace_from_migration ::
  "'w migration_local_state \<Rightarrow> 'w local_state \<Rightarrow> local_error + 'w local_state" where
  "replace_from_migration dto state =
     rbind (collect_entries cache_of_migration (m_local_files dto)) (\<lambda>files.
     Inr (state\<lparr>local_files := btree_collect files,
          file_access_log := m_file_access_log dto,
          last_session := m_last_session dto,
          conflict_registry :=
            btree_collect (map (\<lambda>(path, r). (path, record_of_migration r)) (m_conflict_registry dto)),
          conflict_resolutions := map resolution_of_migration (m_conflict_resolutions dto)\<rparr>))"

definition export_for_migration :: "'w local_state \<Rightarrow> local_error + 'w migration_local_state" where
  "export_for_migration state =
     rbind (collect_entries cache_to_migration (local_files state)) (\<lambda>files.
     Inr \<lparr>m_local_files = btree_collect files,
          m_file_access_log = file_access_log state,
          m_last_session = last_session state,
          m_conflict_registry =
            btree_collect (map (\<lambda>(path, r). (path, record_to_migration r)) (conflict_registry state)),
          m_conflict_resolutions = map public_resolution (conflict_resolutions state)\<rparr>)"

section \<open>Running an operation\<close>

datatype 'w client_op =
    UpsertCacheEntry cache_entry
  | DeleteCacheEntry string
  | DeleteCacheEntries "string list"
  | SetDeletedAt string i64
  | SetCacheServerMtime string i64
  | SetCacheServerMtimes "(string \<times> i64) list"
  | BulkUpsertCacheEntries "cache_entry list"
  | ApplyCacheChanges "cache_entry list" "string list"
  | UpsertConflict string conflict_kind string i64 conflict_record_status
  | UpsertConflictFingerprinted bool string conflict_kind string i64 string
  | MigrateLegacyConflictStatuses sidecars
  | ResolveConflictPath string
  | ResolveConflictPathsWithHistory "string list" resolution_method string i64
  | RecordConflictResolution string resolution_method "string option" string i64
  | RecordAccessPair string string 'w i64
  | DecayAccessLog 'w
  | SetSessionKey string string
  | ReplaceFromMigration "'w migration_local_state"

primrec perform :: "'w float_ops \<Rightarrow> 'w client_op \<Rightarrow> 'w local_state \<Rightarrow> local_error + 'w local_state" where
  "perform F (UpsertCacheEntry entry) = upsert_cache_entry entry"
| "perform F (DeleteCacheEntry path) = delete_cache_entry path"
| "perform F (DeleteCacheEntries paths) = delete_cache_entries paths"
| "perform F (SetDeletedAt path t) = set_deleted_at path t"
| "perform F (SetCacheServerMtime path t) = set_cache_server_mtime path t"
| "perform F (SetCacheServerMtimes updates) = set_cache_server_mtimes updates"
| "perform F (BulkUpsertCacheEntries upserts) = bulk_upsert_cache_entries upserts"
| "perform F (ApplyCacheChanges upserts deletes) = apply_cache_changes upserts deletes"
| "perform F (UpsertConflict path kind dir t status) = upsert_conflict path kind dir t status"
| "perform F (UpsertConflictFingerprinted ok path kind dir t fp) =
     upsert_conflict_fingerprinted ok path kind dir t fp"
| "perform F (MigrateLegacyConflictStatuses S) = (\<lambda>s. Inr (snd (migrate_legacy_conflict_statuses S s)))"
| "perform F (ResolveConflictPath path) = resolve_conflict_path path"
| "perform F (ResolveConflictPathsWithHistory paths method resolver t) =
     resolve_conflict_paths_with_history paths method resolver t"
| "perform F (RecordConflictResolution path method src resolver t) =
     record_conflict_resolution path method src resolver t"
| "perform F (RecordAccessPair path sibling delta t) = record_access_pair F path sibling delta t"
| "perform F (DecayAccessLog factor) = decay_access_log F factor"
| "perform F (SetSessionKey key value) = set_session_key key value"
| "perform F (ReplaceFromMigration dto) = replace_from_migration dto"

text \<open>
  Arguments that the code refuses before it takes the lock. An empty batch of server times
  returns before any file is touched; every other operation is one transaction.
\<close>

definition precheck :: "'w float_ops \<Rightarrow> 'w client_op \<Rightarrow> local_error + unit" where
  "precheck F x = (case x of
     UpsertCacheEntry entry \<Rightarrow> rbind (cache_to_v1 entry) (\<lambda>_. Inr ())
   | UpsertConflictFingerprinted written _ _ _ _ _ \<Rightarrow> ensure written WriteFailed
   | RecordAccessPair _ _ delta _ \<Rightarrow> ensure (is_finite F delta) NonFiniteDelta
   | DecayAccessLog factor \<Rightarrow> ensure (is_finite F factor) NonFiniteFactor
   | _ \<Rightarrow> Inr ())"

definition run_client_op ::
  "'w float_ops \<Rightarrow> ('w, 't) json_codec \<Rightarrow> 'w client_op \<Rightarrow> store_io \<Rightarrow> 't option
    \<Rightarrow> (local_error + unit) \<times> 't option" where
  "run_client_op F J x io disk =
     (case precheck F x of
        Inl e \<Rightarrow> (Inl e, disk)
      | Inr _ \<Rightarrow> (case x of
          SetCacheServerMtimes [] \<Rightarrow> (Inr (), disk)
        | _ \<Rightarrow> with_write F J io (\<lambda>s. rbind (perform F x s) (\<lambda>s'. Inr ((), s'))) disk))"

section \<open>The invariant\<close>

definition registry_ok :: "(string \<times> conflict_record_v1) list \<Rightarrow> bool" where
  "registry_ok m \<longleftrightarrow> btree m \<and> (\<forall>(k, r)\<in>set m. cr_path r = k)"

definition db_inv :: "'w local_state \<Rightarrow> bool" where
  "db_inv s \<longleftrightarrow> btree (local_files s) \<and> btree (last_session s) \<and> registry_ok (conflict_registry s)"

text \<open>
  A transferred state: its maps are sorted by key, and every conflict record is filed under its own path.
\<close>

definition migration_ok :: "'w migration_local_state \<Rightarrow> bool" where
  "migration_ok dto \<longleftrightarrow> btree (m_last_session dto) \<and> btree (m_conflict_registry dto)
     \<and> (\<forall>(k, r)\<in>set (m_conflict_registry dto). mr_path r = k)"

text \<open>A transferred state is well-formed with finite weights, and a decay factor keeps finite weights finite.\<close>

definition op_ok :: "'w float_ops \<Rightarrow> 'w client_op \<Rightarrow> bool" where
  "op_ok F x = (case x of
     DecayAccessLog factor \<Rightarrow> (\<forall>w. is_finite F w \<longrightarrow> is_finite F (f_mul F w factor))
   | ReplaceFromMigration dto \<Rightarrow> migration_ok dto \<and> (\<forall>e\<in>set (m_file_access_log dto). is_finite F (ae_weight e))
   | _ \<Rightarrow> True)"

text \<open>What an operation may touch: each one only changes some of the parts.\<close>

lemma put_cache_Inr:
  "put_cache e s = Inr s' \<longleftrightarrow> (\<exists>v1. cache_to_v1 e = Inr v1
     \<and> s' = s\<lparr>local_files := btree_insert (ce_entry_path e) v1 (local_files s)\<rparr>)"
  by (auto simp: put_cache_def rbind_eq_Inr)

text \<open>A loop whose body only changes the cache and keeps it sorted.\<close>

definition cache_only :: "'w local_state \<Rightarrow> 'w local_state \<Rightarrow> bool" where
  "cache_only s s' \<longleftrightarrow> (\<exists>files. s' = s\<lparr>local_files := files\<rparr> \<and> (btree (local_files s) \<longrightarrow> btree files))"

lemma cache_only_refl: "cache_only s s"
  by (auto simp: cache_only_def intro!: exI [of _ "local_files s"])

lemma cache_only_trans: "cache_only s t \<Longrightarrow> cache_only t u \<Longrightarrow> cache_only s u"
  by (auto simp: cache_only_def)

lemma cache_only_remove: "cache_only s (remove_cache p s)"
  by (auto simp: cache_only_def remove_cache_def btree_remove_sorted)

lemma cache_only_mtime: "cache_only s (put_server_mtime p t s)"
  unfolding cache_only_def put_server_mtime_def
  by (intro exI [of _ "btree_adjust p (\<lambda>e. e\<lparr>v1_server_mtime := t\<rparr>) (local_files s)"]) simp

lemma cache_only_put: "put_cache e s = Inr s' \<Longrightarrow> cache_only s s'"
  by (auto simp: cache_only_def put_cache_Inr btree_insert_sorted)

lemma cache_only_fold:
  "(\<And>x s. cache_only s (f x s)) \<Longrightarrow> cache_only s (fold f xs s)"
  by (induction xs arbitrary: s) (auto intro: cache_only_refl cache_only_trans)

lemma cache_only_fold_result:
  assumes "fold_result put_cache xs s = Inr s'"
  shows "cache_only s s'"
  by (rule fold_result_invariant [OF assms cache_only_refl]) (auto intro: cache_only_trans cache_only_put)

lemmas cache_only_ops = cache_only_refl cache_only_remove cache_only_mtime cache_only_put
  cache_only_fold cache_only_fold_result cache_only_trans

lemma cache_only_inv:
  assumes "cache_only s s'"
  shows "schema_version s' = schema_version s" "finite_weights F s' = finite_weights F s"
    "db_inv s \<Longrightarrow> db_inv s'" "conflict_registry s' = conflict_registry s"
    "conflict_resolutions s' = conflict_resolutions s"
  using assms by (auto simp: cache_only_def finite_weights_def db_inv_def)

text \<open>The registry under insertion, removal and migration of records.\<close>

lemma registry_insert: "registry_ok m \<Longrightarrow> registry_ok (btree_insert (cr_path r) r m)"
  using set_btree_insert_pairs [of "cr_path r" r m] by (fastforce simp: registry_ok_def btree_insert_sorted)

lemma registry_insert_at: "registry_ok m \<Longrightarrow> cr_path r = p \<Longrightarrow> registry_ok (btree_insert p r m)"
  using registry_insert by blast

lemma registry_remove: "registry_ok m \<Longrightarrow> registry_ok (btree_remove p m)"
  by (auto simp: registry_ok_def btree_remove_sorted set_btree_remove)

lemma cr_path_migrate [simp]: "cr_path (migrate_record S r) = cr_path r"
  by (simp add: migrate_record_def)

lemma registry_migrate: "registry_ok m \<Longrightarrow> registry_ok (map (\<lambda>(k, r). (k, migrate_record S r)) m)"
proof -
  have "map fst (map (\<lambda>(k, r). (k, migrate_record S r)) m) = map fst m" by auto
  then show "registry_ok m \<Longrightarrow> ?thesis" by (auto simp: registry_ok_def simp del: map_map)
qed

lemma set_btree_collect: "set (btree_collect kvs) \<subseteq> set kvs"
proof -
  have "set (fold (\<lambda>(k, v). btree_insert k v) kvs m) \<subseteq> set kvs \<union> set m" for m
  proof (induction kvs arbitrary: m)
    case (Cons kv kvs)
    have "set (btree_insert (fst kv) (snd kv) m) \<subseteq> insert kv (set m)"
      using set_btree_insert_pairs [of "fst kv" "snd kv" m] by simp
    moreover have "set (fold (\<lambda>(k, v). btree_insert k v) kvs (btree_insert (fst kv) (snd kv) m))
        \<subseteq> set kvs \<union> set (btree_insert (fst kv) (snd kv) m)" by (rule Cons.IH)
    ultimately show ?case by (auto simp: case_prod_unfold)
  qed simp
  from this [of "[]"] show ?thesis by (simp add: btree_collect_def)
qed

lemma registry_collect:
  assumes "\<forall>(k, r)\<in>set m. mr_path r = k"
  shows "registry_ok (btree_collect (map (\<lambda>(path, r). (path, record_of_migration r)) m))"
proof -
  have "set (btree_collect (map (\<lambda>(path, r). (path, record_of_migration r)) m))
      \<subseteq> (\<lambda>(path, r). (path, record_of_migration r)) ` set m"
    using set_btree_collect [of "map (\<lambda>(path, r). (path, record_of_migration r)) m"] by simp
  with assms show ?thesis
    by (fastforce simp: registry_ok_def btree_collect_sorted record_of_migration_def)
qed

text \<open>A resolution pass removes records and appends to the history.\<close>

lemma resolve_fold:
  "fold (\<lambda>path s. push_resolution (R path) (remove_record path s)) paths s =
     s\<lparr>conflict_registry := fold btree_remove paths (conflict_registry s),
       conflict_resolutions := conflict_resolutions s @ map R paths\<rparr>"
  by (induction paths arbitrary: s) (simp_all add: push_resolution_def remove_record_def)

lemma registry_remove_all: "registry_ok m \<Longrightarrow> registry_ok (fold btree_remove ps m)"
  by (induction ps arbitrary: m) (simp_all add: registry_remove)

text \<open>The access log keeps finite weights under its own checks.\<close>

lemma finite_adjust:
  assumes "adjust_access F p q d t es = Inr es'" and "is_finite F d"
    and "\<forall>e\<in>set es. is_finite F (ae_weight e)"
  shows "\<forall>e\<in>set es'. is_finite F (ae_weight e)"
  using assms by (induction es arbitrary: es') (auto simp: Let_def rbind_eq_Inr split: if_splits)

lemma set_pruned: "set (file_access_log (prune_access_log F s)) \<subseteq> set (file_access_log s)"
  by (auto simp: prune_access_log_def Let_def dest: in_set_dropD)

lemma prune_parts [simp]:
  "schema_version (prune_access_log F s) = schema_version s"
  "local_files (prune_access_log F s) = local_files s"
  "last_session (prune_access_log F s) = last_session s"
  "conflict_registry (prune_access_log F s) = conflict_registry s"
  "conflict_resolutions (prune_access_log F s) = conflict_resolutions s"
  by (simp_all add: prune_access_log_def Let_def)

lemma finite_pruned: "finite_weights F s \<Longrightarrow> finite_weights F (prune_access_log F s)"
  unfolding finite_weights_def using set_pruned [of F s] by blast

definition keeps :: "'w float_ops \<Rightarrow> 'w local_state \<Rightarrow> 'w local_state \<Rightarrow> bool" where
  "keeps F s s' \<longleftrightarrow> schema_version s' = schema_version s \<and> (finite_weights F s \<longrightarrow> finite_weights F s')
     \<and> (db_inv s \<longrightarrow> db_inv s')"

lemma keepsI:
  "schema_version s' = schema_version s \<Longrightarrow> (finite_weights F s \<Longrightarrow> finite_weights F s')
    \<Longrightarrow> (db_inv s \<Longrightarrow> db_inv s') \<Longrightarrow> keeps F s s'"
  by (simp add: keeps_def)

lemma keeps_cache: "cache_only s s' \<Longrightarrow> keeps F s s'"
  by (simp add: keeps_def cache_only_inv)

lemma keeps_registry:
  assumes "registry_ok (conflict_registry s) \<Longrightarrow> registry_ok m"
  shows "keeps F s (s\<lparr>conflict_registry := m\<rparr>)" "keeps F s (s\<lparr>conflict_registry := m, conflict_resolutions := rs\<rparr>)"
  using assms by (auto simp: keeps_def db_inv_def finite_weights_def)

lemma keeps_resolutions: "keeps F s (s\<lparr>conflict_resolutions := rs\<rparr>)"
  by (simp add: keeps_def db_inv_def finite_weights_def)

lemma keeps_log:
  assumes "finite_weights F s \<Longrightarrow> \<forall>e\<in>set log. is_finite F (ae_weight e)"
  shows "keeps F s (prune_access_log F (s\<lparr>file_access_log := log\<rparr>))"
proof (rule keepsI)
  assume "finite_weights F s"
  with assms show "finite_weights F (prune_access_log F (s\<lparr>file_access_log := log\<rparr>))"
    by (intro finite_pruned) (simp add: finite_weights_def)
qed (simp_all add: db_inv_def)

lemma replace_keeps:
  assumes "replace_from_migration dto s = Inr s'" and "op_ok F (ReplaceFromMigration dto)"
  shows "keeps F s s'"
proof -
  from assms(2) have reg: "registry_ok (btree_collect (map (\<lambda>(path, r). (path, record_of_migration r)) (m_conflict_registry dto)))"
    by (intro registry_collect) (simp add: op_ok_def migration_ok_def)
  obtain files where s': "s' = s\<lparr>local_files := btree_collect files,
          file_access_log := m_file_access_log dto, last_session := m_last_session dto,
          conflict_registry := btree_collect (map (\<lambda>(path, r). (path, record_of_migration r)) (m_conflict_registry dto)),
          conflict_resolutions := map resolution_of_migration (m_conflict_resolutions dto)\<rparr>"
    using assms(1) by (auto simp: replace_from_migration_def rbind_eq_Inr)
  show ?thesis
    using reg assms(2) unfolding s'
    by (intro keepsI) (simp_all add: db_inv_def finite_weights_def btree_collect_sorted op_ok_def migration_ok_def)
qed

lemma perform_keeps:
  assumes "perform F x s = Inr s'" and "op_ok F x"
  shows "keeps F s s'"
proof (cases x)
  case (UpsertCacheEntry e)
  with assms show ?thesis by (auto simp: upsert_cache_entry_def intro: keeps_cache cache_only_ops)
next
  case (SetDeletedAt p t)
  with assms show ?thesis
    by (auto simp: set_deleted_at_def keeps_def db_inv_def finite_weights_def)
next
  case (SetCacheServerMtimes us)
  with assms show ?thesis
    by (auto simp: set_cache_server_mtimes_def case_prod_unfold intro!: keeps_cache cache_only_fold cache_only_mtime)
next
  case (ApplyCacheChanges us ds)
  with assms have "fold_result put_cache us (fold remove_cache ds s) = Inr s'"
    by (simp add: apply_cache_changes_def)
  moreover have "cache_only s (fold remove_cache ds s)" by (rule cache_only_fold) (rule cache_only_remove)
  ultimately show ?thesis by (intro keeps_cache) (rule cache_only_trans, assumption, rule cache_only_fold_result)
next
  case (RecordAccessPair p q d t)
  with assms obtain log where "adjust_access F p q d t (file_access_log s) = Inr log" "is_finite F d"
      and s': "s' = prune_access_log F (s\<lparr>file_access_log := log\<rparr>)"
    by (auto simp: record_access_pair_def rbind_eq_Inr)
  then show ?thesis unfolding s' by (intro keeps_log) (rule finite_adjust, auto simp: finite_weights_def)
next
  case (DecayAccessLog factor)
  with assms have s': "s' = prune_access_log F (s\<lparr>file_access_log :=
       map (\<lambda>e. e\<lparr>ae_weight := f_mul F (ae_weight e) factor\<rparr>) (file_access_log s)\<rparr>)"
      and "\<forall>w. is_finite F w \<longrightarrow> is_finite F (f_mul F w factor)"
    by (auto simp: decay_access_log_def rbind_eq_Inr op_ok_def)
  then show ?thesis unfolding s' by (intro keeps_log) (auto simp: finite_weights_def)
next
  case (ReplaceFromMigration dto)
  with assms show ?thesis by (simp add: replace_keeps)
next
  case (DeleteCacheEntry p)
  with assms show ?thesis by (auto simp: delete_cache_entry_def intro!: keeps_cache cache_only_remove)
next
  case (DeleteCacheEntries ps)
  with assms show ?thesis by (auto simp: delete_cache_entries_def intro!: keeps_cache cache_only_fold cache_only_remove)
next
  case (SetCacheServerMtime p t)
  with assms show ?thesis by (auto simp: set_cache_server_mtime_def intro!: keeps_cache cache_only_mtime)
next
  case (BulkUpsertCacheEntries us)
  with assms show ?thesis by (auto simp: bulk_upsert_cache_entries_def intro!: keeps_cache cache_only_fold_result)
next
  case (UpsertConflict p k d t st)
  with assms show ?thesis by (auto simp: upsert_conflict_def insert_record_def intro!: keeps_registry registry_insert_at)
next
  case (UpsertConflictFingerprinted ok p k d t fp)
  with assms show ?thesis by (auto simp: upsert_conflict_fingerprinted_def insert_record_def rbind_eq_Inr intro!: keeps_registry registry_insert_at)
next
  case (MigrateLegacyConflictStatuses S)
  with assms show ?thesis by (auto simp: migrate_legacy_conflict_statuses_def intro!: keeps_registry registry_migrate)
next
  case (ResolveConflictPath p)
  with assms show ?thesis by (auto simp: resolve_conflict_path_def remove_record_def intro!: keeps_registry registry_remove)
next
  case (ResolveConflictPathsWithHistory ps m r t)
  with assms show ?thesis by (auto simp: resolve_conflict_paths_with_history_def resolve_fold intro!: keeps_registry registry_remove_all)
next
  case (RecordConflictResolution p m sr r t)
  with assms show ?thesis by (auto simp: record_conflict_resolution_def push_resolution_def intro!: keeps_resolutions)
next
  case (SetSessionKey k v)
  with assms show ?thesis
    by (auto simp: set_session_key_def keeps_def db_inv_def finite_weights_def btree_insert_sorted)
qed

section \<open>Histories of operations\<close>

lemma run_client_op_cases:
  "snd (run_client_op F J x io disk) = disk \<or> run_client_op F J x io disk
     = with_write F J io (\<lambda>s. rbind (perform F x s) (\<lambda>s'. Inr ((), s'))) disk"
  by (auto simp: run_client_op_def split: sum.split client_op.split list.split)

interpretation client_db: durable_store
  "\<lambda>(F, J, g). json_ok F J g"
  "\<lambda>(F, J, g). load_state F J"
  "\<lambda>(F, J, g) x io disk. snd (run_client_op F J x io disk)"
  "\<lambda>(F, J, g) x s s'. perform F x s = Inr s'"
  "\<lambda>(F, J, g). stored g"
  "\<lambda>(F, J, g) s. schema_version s = current_schema_version \<and> finite_weights F s"
proof (unfold_locales, goal_cases)
  case (1 c x io d)
  obtain F J g where c: "c = (F, J, g)" by (metis surj_pair)
  let ?op = "\<lambda>s. rbind (perform F x s) (\<lambda>s'. Inr ((), s'))"
  obtain res d' where w: "with_write F J io ?op d = (res, d')" by force
  show ?case
  proof (cases "snd (run_client_op F J x io d) = d")
    case False
    then have "snd (run_client_op F J x io d) = d'" using run_client_op_cases [of F J x io d] w by auto
    with False transaction_contract [OF _ w, of g] 1 show ?thesis by (auto simp: c rbind_eq_Inr)
  qed (simp add: c)
next
  case (2 c s)
  then show ?case by (auto simp: json_ok_def intro: finite_weights_stored)
qed



section \<open>Pending conflicts\<close>

lemma registry_lookup: "registry_ok m \<Longrightarrow> map_of m p = Some r \<longleftrightarrow> (p, r) \<in> set m"
  by (simp add: registry_ok_def btree_distinct)

lemma registry_values:
  assumes "registry_ok m"
  shows "cr_path ` {r \<in> snd ` set m. Q r} = {p. \<exists>r. map_of m p = Some r \<and> Q r}"
proof -
  have key: "cr_path r = k" if "(k, r) \<in> set m" for k r
    using assms that by (auto simp: registry_ok_def)
  then show ?thesis unfolding registry_lookup [OF assms] by force
qed

lemma pending_lookup:
  assumes "db_inv s"
  shows "set (list_pending_conflict_paths s) =
    {p. \<exists>r. map_of (conflict_registry s) p = Some r \<and> is_pending (cr_status r)}"
  unfolding list_pending_conflict_paths_def pending_records_def set_map set_filter
  by (rule registry_values) (use assms in \<open>simp add: db_inv_def\<close>)

lemma registry_keys: "registry_ok m \<Longrightarrow> map cr_path (map snd m) = map fst m"
  by (auto simp: registry_ok_def)

lemma pending_sorted:
  assumes "db_inv s"
  shows "sorted_wrt (<) (list_pending_conflict_paths s)"
proof -
  let ?m = "conflict_registry s"
  have ok: "registry_ok ?m" using assms by (simp add: db_inv_def)
  have "sorted_wrt (\<lambda>x y. cr_path x < cr_path y) (map snd ?m)"
    using ok registry_keys [OF ok] by (metis registry_ok_def sorted_wrt_map)
  then have "sorted_wrt (\<lambda>x y. cr_path x < cr_path y) (pending_records s)"
    unfolding pending_records_def by (rule sorted_wrt_filter)
  then show ?thesis by (simp add: list_pending_conflict_paths_def sorted_wrt_map)
qed

text \<open>What each operation does to the set of pending paths.\<close>

definition pending_after :: "'w client_op \<Rightarrow> string set \<Rightarrow> string set" where
  "pending_after x P = (case x of
     UpsertConflict p _ _ _ status \<Rightarrow> if is_pending status then insert p P else P - {p}
   | UpsertConflictFingerprinted _ p _ _ _ _ \<Rightarrow> insert p P
   | ResolveConflictPath p \<Rightarrow> P - {p}
   | ResolveConflictPathsWithHistory ps _ _ _ \<Rightarrow> P - set ps
   | ReplaceFromMigration dto \<Rightarrow> {p. \<exists>r. (p, r) \<in> set (m_conflict_registry dto) \<and> is_pending (status_from_db_str (mr_status r))}
   | _ \<Rightarrow> P)"

lemma remove_all_lookup: "map_of (fold btree_remove ps m) p = (if p \<in> set ps then None else map_of m p)"
  by (induction ps arbitrary: m) (auto simp: btree_remove_lookup)

lemma is_pending_migrate [simp]: "is_pending (cr_status (migrate_record S r)) = is_pending (cr_status r)"
  by (auto simp: migrate_record_def needs_migration_def)

lemma map_of_values: "map_of (map (\<lambda>(k, r). (k, f r)) m) p = map_option f (map_of m p)"
  by (induction m) auto

lemma remove_record_registry: "conflict_registry (remove_record p s) = btree_remove p (conflict_registry s)"
  by (simp add: remove_record_def)

lemma push_resolution_registry: "conflict_registry (push_resolution r s) = conflict_registry s"
  by (simp add: push_resolution_def)

text \<open>Operations on the cache, the log and the session keys leave the registry alone.\<close>

lemma perform_registry:
  assumes "perform F x s = Inr s'" and "db_inv s"
  shows "map_of (conflict_registry s') = (case x of
     UpsertConflict p k d t st \<Rightarrow> (map_of (conflict_registry s))(p \<mapsto>
       \<lparr>cr_path = p, cr_kind = k, cr_conflict_dir = d, cr_opened_at = t, cr_status = st, cr_fingerprint = None\<rparr>)
   | UpsertConflictFingerprinted _ p k d t fp \<Rightarrow> (map_of (conflict_registry s))(p \<mapsto>
       \<lparr>cr_path = p, cr_kind = k, cr_conflict_dir = d, cr_opened_at = t, cr_status = Pending, cr_fingerprint = Some fp\<rparr>)
   | ResolveConflictPath p \<Rightarrow> (map_of (conflict_registry s))(p := None)
   | ResolveConflictPathsWithHistory ps _ _ _ \<Rightarrow> (\<lambda>p. if p \<in> set ps then None else map_of (conflict_registry s) p)
   | MigrateLegacyConflictStatuses S \<Rightarrow> map_option (migrate_record S) \<circ> map_of (conflict_registry s)
   | ReplaceFromMigration dto \<Rightarrow>
       map_of (btree_collect (map (\<lambda>(path, r). (path, record_of_migration r)) (m_conflict_registry dto)))
   | _ \<Rightarrow> map_of (conflict_registry s))"
proof -
  have b: "btree (conflict_registry s)" using assms(2) by (simp add: db_inv_def registry_ok_def)
  have "conflict_registry (fold remove_cache ds s) = conflict_registry s" for ds
    by (rule cache_only_inv) (rule cache_only_fold, rule cache_only_remove)
  moreover have "conflict_registry (fold (\<lambda>(p, t). put_server_mtime p t) us s) = conflict_registry s" for us
    by (rule cache_only_inv) (rule cache_only_fold, simp add: case_prod_unfold cache_only_mtime)
  ultimately show ?thesis using assms(1) b
    by (cases x) (auto simp: fun_eq_iff upsert_cache_entry_def delete_cache_entry_def delete_cache_entries_def
      set_deleted_at_def set_cache_server_mtime_def set_cache_server_mtimes_def bulk_upsert_cache_entries_def
      apply_cache_changes_def upsert_conflict_def upsert_conflict_fingerprinted_def insert_record_def
      migrate_legacy_conflict_statuses_def resolve_conflict_path_def remove_record_registry btree_insert_lookup
      btree_remove_lookup resolve_conflict_paths_with_history_def resolve_fold remove_all_lookup
      record_conflict_resolution_def push_resolution_registry record_access_pair_def decay_access_log_def
      set_session_key_def replace_from_migration_def rbind_eq_Inr map_of_values put_server_mtime_def remove_cache_def
      dest!: cache_only_fold_result cache_only_put dest: cache_only_inv(4))
qed

lemma registry_pending_step:
  assumes "map_of m' = (case x of
     UpsertConflict p k d t st \<Rightarrow> (map_of m)(p \<mapsto>
       \<lparr>cr_path = p, cr_kind = k, cr_conflict_dir = d, cr_opened_at = t, cr_status = st, cr_fingerprint = None\<rparr>)
   | UpsertConflictFingerprinted _ p k d t fp \<Rightarrow> (map_of m)(p \<mapsto>
       \<lparr>cr_path = p, cr_kind = k, cr_conflict_dir = d, cr_opened_at = t, cr_status = Pending, cr_fingerprint = Some fp\<rparr>)
   | ResolveConflictPath p \<Rightarrow> (map_of m)(p := None)
   | ResolveConflictPathsWithHistory ps _ _ _ \<Rightarrow> (\<lambda>p. if p \<in> set ps then None else map_of m p)
   | MigrateLegacyConflictStatuses S \<Rightarrow> map_option (migrate_record S) \<circ> map_of m
   | ReplaceFromMigration dto \<Rightarrow>
       map_of (btree_collect (map (\<lambda>(path, r). (path, record_of_migration r)) (m_conflict_registry dto)))
   | _ \<Rightarrow> map_of m)" and "\<And>dto. x = ReplaceFromMigration dto \<Longrightarrow> migration_ok dto"
  shows "{p. \<exists>r. map_of m' p = Some r \<and> is_pending (cr_status r)}
    = pending_after x {p. \<exists>r. map_of m p = Some r \<and> is_pending (cr_status r)}"
proof (cases x)
  case (ReplaceFromMigration dto)
  let ?new = "map (\<lambda>(path, r). (path, record_of_migration r)) (m_conflict_registry dto)"
  have "btree (m_conflict_registry dto)" using assms(2) ReplaceFromMigration by (simp add: migration_ok_def)
  then have new: "btree ?new" by (simp add: comp_def case_prod_unfold)
  have "map_of m' = map_of ?new" using assms(1) ReplaceFromMigration btree_collect_ordered [OF new] by simp
  then have "map_of m' p = Some r \<longleftrightarrow> (\<exists>x. (p, x) \<in> set (m_conflict_registry dto) \<and> r = record_of_migration x)" for p r
    using btree_distinct [OF new] by (force simp: map_of_eq_Some_iff)
  then show ?thesis by (auto simp: pending_after_def ReplaceFromMigration record_of_migration_def)
qed (use assms in \<open>auto simp: pending_after_def split: if_splits\<close>)

text \<open>The maps of the state stay well-formed under every operation, whatever the weights.\<close>

lemma perform_inv:
  assumes "perform F x s = Inr s'" and "db_inv s" and "\<And>dto. x = ReplaceFromMigration dto \<Longrightarrow> migration_ok dto"
  shows "db_inv s'"
proof -
  consider factor where "x = DecayAccessLog factor" | dto where "x = ReplaceFromMigration dto" | "op_ok F x"
    by (cases x) (simp_all add: op_ok_def)
  then show ?thesis
  proof cases
    case (2 dto)
    have "registry_ok (btree_collect (map (\<lambda>(path, r). (path, record_of_migration r)) (m_conflict_registry dto)))"
      using assms(3) [OF 2] by (intro registry_collect) (simp add: migration_ok_def)
    then show ?thesis using assms(1) assms(3) [OF 2] 2
      by (auto simp: replace_from_migration_def rbind_eq_Inr db_inv_def btree_collect_sorted migration_ok_def)
  next
    case 3
    with perform_keeps [OF assms(1)] assms(2) show ?thesis by (simp add: keeps_def)
  qed (use assms(1,2) in \<open>auto simp: decay_access_log_def rbind_eq_Inr db_inv_def\<close>)
qed

text \<open>
  C18. The registry refines a set of pending paths, under every operation of the database. Opening a
  conflict adds its path, resolving removes it, alone or in a batch with history; a state
  transferred from a legacy database replaces the set by the paths of its pending records; the
  migration of legacy records, and everything that concerns the cache, the access log and the
  session, changes nothing. The listing is in path order without repetition and agrees with the
  lookup of single records. A transferred state has to be well-formed: sorted maps, and every
  record under its own path.
\<close>

theorem pending_conflicts_refine:
  assumes "db_inv s" and "perform F x s = Inr s'" and "\<forall>dto. x = ReplaceFromMigration dto \<longrightarrow> migration_ok dto"
  shows "set (list_pending_conflict_paths s') = pending_after x (set (list_pending_conflict_paths s))
    \<and> sorted_wrt (<) (list_pending_conflict_paths s')
    \<and> (\<forall>p. p \<in> set (list_pending_conflict_paths s') \<longleftrightarrow> get_conflict_record S p s' \<noteq> None)"
proof -
  have inv': "db_inv s'" using perform_inv [OF assms(2,1)] assms(3) by blast
  have "set (list_pending_conflict_paths s') = pending_after x (set (list_pending_conflict_paths s))"
    unfolding pending_lookup [OF assms(1)] pending_lookup [OF inv']
    using registry_pending_step [OF perform_registry [OF assms(2,1)]] assms(3) by blast
  moreover have "p \<in> set (list_pending_conflict_paths s') \<longleftrightarrow> get_conflict_record S p s' \<noteq> None" for p
    unfolding pending_lookup [OF inv'] by (auto simp: get_conflict_record_def split: option.split)
  ultimately show ?thesis using pending_sorted [OF inv'] by blast
qed

theorem pending_conflicts_refine_witness:
  "let s = local_state_default\<lparr>conflict_registry := [(''a'',
         \<lparr>cr_path = ''a'', cr_kind = EditEdit, cr_conflict_dir = ''d'', cr_opened_at = 1,
          cr_status = Pending, cr_fingerprint = None\<rparr>)]\<rparr>;
       x = UpsertConflictFingerprinted True ''b'' EditDelete ''d'' 2 ''fp'' :: nat client_op
   in \<exists>s'. perform plain_floats x s = Inr s'
     \<and> set (list_pending_conflict_paths s') = pending_after x (set (list_pending_conflict_paths s))
     \<and> list_pending_conflict_paths s' = [''a'', ''b'']"
proof -
  let ?s = "local_state_default\<lparr>conflict_registry := [(''a'',
         \<lparr>cr_path = ''a'', cr_kind = EditEdit, cr_conflict_dir = ''d'', cr_opened_at = 1,
          cr_status = Pending, cr_fingerprint = None\<rparr>)]\<rparr> :: nat local_state"
  let ?x = "UpsertConflictFingerprinted True ''b'' EditDelete ''d'' 2 ''fp'' :: nat client_op"
  obtain s' where s': "perform plain_floats ?x ?s = Inr s'"
    by (simp add: upsert_conflict_fingerprinted_def)
  then have "list_pending_conflict_paths s' = [''a'', ''b'']"
    by (auto simp: upsert_conflict_fingerprinted_def insert_record_def list_pending_conflict_paths_def
        pending_records_def)
  with s' pending_conflicts_refine [of ?s plain_floats ?x s'] show ?thesis
    unfolding Let_def by (auto simp: db_inv_def registry_ok_def local_state_default_def op_ok_def)
qed

lemma migrate_matches: "sidecar_matches_record S (migrate_record S r) = sidecar_matches_record S r"
  by (simp add: migrate_record_def sidecar_matches_record_def split: option.split)

lemma migrate_status:
  "cr_status (migrate_record S r) = Pending \<longleftrightarrow> cr_status r = Pending \<and> sidecar_matches_record S r"
  by (auto simp: migrate_record_def needs_migration_def)

lemma migrate_again: "\<not> needs_migration S (migrate_record S r)"
  by (simp add: needs_migration_def migrate_status migrate_matches)

lemma migrate_changed: "migrate_record S r = r \<longleftrightarrow> \<not> needs_migration S r"
proof
  assume "migrate_record S r = r"
  then show "\<not> needs_migration S r" using migrate_again [of S r] by simp
qed (simp add: migrate_record_def)

lemma migrate_option: "map_option (migrate_record S) x \<noteq> x \<longleftrightarrow> (\<exists>r. x = Some r \<and> needs_migration S r)"
  by (cases x) (simp_all add: migrate_changed)

text \<open>
  C19. Migrating legacy records keeps every pending conflict visible and never touches a record
  that is eligible for automatic resolution. Afterwards a record has the status pending only when
  its identity sidecar verifies, so the automatic candidates are exactly the records with that
  status; the reported number is the number of records changed, and a second run changes none.
\<close>

theorem migrate_legacy_exact:
  assumes "db_inv s" and "migrate_legacy_conflict_statuses S s = (n, s')"
  shows "list_pending_conflict_paths s' = list_pending_conflict_paths s
    \<and> list_automatic_candidates S s' = list_automatic_candidates S s
    \<and> (\<forall>r\<in>snd ` set (conflict_registry s'). cr_status r = Pending \<longrightarrow> sidecar_matches_record S r)
    \<and> n = card {p. map_of (conflict_registry s') p \<noteq> map_of (conflict_registry s) p}
    \<and> migrate_legacy_conflict_statuses S s' = (0, s')"
proof -
  have ok: "registry_ok (conflict_registry s)" using assms(1) by (simp add: db_inv_def)
  have reg: "conflict_registry s' = map (\<lambda>(k, r). (k, migrate_record S r)) (conflict_registry s)"
    and n: "n = length (filter (needs_migration S) (map snd (conflict_registry s)))"
    and s': "s' = s\<lparr>conflict_registry := conflict_registry s'\<rparr>"
    using assms(2) by (auto simp: migrate_legacy_conflict_statuses_def)
  have vals: "map snd (conflict_registry s') = map (migrate_record S) (map snd (conflict_registry s))"
    unfolding reg by auto
  have "list_pending_conflict_paths s' = list_pending_conflict_paths s"
    unfolding list_pending_conflict_paths_def pending_records_def vals by (simp add: filter_map o_def)
  moreover have "list_automatic_candidates S s' = list_automatic_candidates S s"
    unfolding list_automatic_candidates_def vals
    by (simp add: filter_map o_def migrate_status migrate_matches conj_assoc)
  moreover have "\<forall>r\<in>snd ` set (conflict_registry s'). cr_status r = Pending \<longrightarrow> sidecar_matches_record S r"
    unfolding set_map [symmetric] vals by (auto simp: migrate_status migrate_matches)
  moreover have "n = card {p. map_of (conflict_registry s') p \<noteq> map_of (conflict_registry s) p}"
  proof -
    have "{p. map_of (conflict_registry s') p \<noteq> map_of (conflict_registry s) p}
        = cr_path ` {r \<in> snd ` set (conflict_registry s). needs_migration S r}"
      unfolding registry_values [OF ok] reg map_of_values
      by (simp add: migrate_option)
    moreover have "distinct (map cr_path (filter (needs_migration S) (map snd (conflict_registry s))))"
      by (metis btree_distinct distinct_map_filter ok registry_keys registry_ok_def)
    then have "card (set (map cr_path (filter (needs_migration S) (map snd (conflict_registry s))))) = n"
      unfolding n by (metis distinct_card length_map)
    ultimately show ?thesis by simp
  qed
  moreover have "migrate_legacy_conflict_statuses S s' = (0, s')"
  proof -
    have "map (\<lambda>(k, r). (k, migrate_record S r)) (conflict_registry s') = conflict_registry s'"
      unfolding reg by (simp add: migrate_changed migrate_again case_prod_unfold)
    moreover have "filter (needs_migration S) (map snd (conflict_registry s')) = []"
      unfolding vals by (simp add: migrate_again filter_empty_conv)
    ultimately show ?thesis by (simp add: migrate_legacy_conflict_statuses_def)
  qed
  ultimately show ?thesis by blast
qed

definition legacy_record :: "string \<Rightarrow> string option \<Rightarrow> conflict_record_v1" where
  "legacy_record p fp = \<lparr>cr_path = p, cr_kind = EditEdit, cr_conflict_dir = ''d'', cr_opened_at = 1,
     cr_status = Pending, cr_fingerprint = fp\<rparr>"

theorem migrate_legacy_exact_witness:
  "let s = local_state_default\<lparr>conflict_registry :=
         [(''a'', legacy_record ''a'' None), (''b'', legacy_record ''b'' (Some ''fp''))]\<rparr> :: nat local_state;
       S = (\<lambda>dir fp. if fp = ''fp'' then Some ''b'' else None);
       (n, s') = migrate_legacy_conflict_statuses S s
   in n = 1 \<and> list_pending_conflict_paths s' = [''a'', ''b''] \<and> list_automatic_candidates S s' = [''b'']"
proof -
  let ?s = "local_state_default\<lparr>conflict_registry :=
         [(''a'', legacy_record ''a'' None), (''b'', legacy_record ''b'' (Some ''fp''))]\<rparr> :: nat local_state"
  let ?S = "\<lambda>dir fp. if fp = ''fp'' then Some ''b'' else None"
  obtain n s' where m: "migrate_legacy_conflict_statuses ?S ?s = (n, s')" by force
  have "db_inv ?s" by (simp add: db_inv_def registry_ok_def local_state_default_def legacy_record_def)
  from migrate_legacy_exact [OF this m] have "list_pending_conflict_paths s' = list_pending_conflict_paths ?s"
    "list_automatic_candidates ?S s' = list_automatic_candidates ?S ?s" by blast+
  moreover have "list_pending_conflict_paths ?s = [''a'', ''b'']" "list_automatic_candidates ?S ?s = [''b'']"
    "fst (migrate_legacy_conflict_statuses ?S ?s) = 1"
    by (simp_all add: list_pending_conflict_paths_def pending_records_def list_automatic_candidates_def
        sidecar_matches_record_def migrate_legacy_conflict_statuses_def needs_migration_def legacy_record_def)
  ultimately show ?thesis unfolding Let_def m by simp
qed

section \<open>The cache reads back what it stores\<close>

lemma sint_nonneg_i32: "0 \<le> sint (w :: 32 word) \<longleftrightarrow> unat w < 2 ^ 31"
proof -
  have "0 \<le> sint w \<longleftrightarrow> \<not> bit w 31"
    using bit_last_iff [of w] by (simp add: not_less)
  also have "bit w 31 \<longleftrightarrow> odd (uint w div 2 ^ 31)"
    using bit_uint_iff [of w 31] by (simp add: bit_iff_odd)
  also have "odd (uint w div 2 ^ 31) \<longleftrightarrow> 2 ^ 31 \<le> uint w"
    using uint_lt2p [of w]
    by (cases "2 ^ 31 \<le> uint w") (simp_all add: div_pos_geq div_pos_pos_trivial)
  finally have "0 \<le> sint w \<longleftrightarrow> uint w < 2 ^ 31"
    by (simp only: not_le)
  also have "\<dots> \<longleftrightarrow> int (unat w) < int (2 ^ 31)" by simp
  finally show ?thesis by (simp only: of_nat_less_iff)
qed

lemma mode_roundtrip: "mode_to_u32 (mode_to_i32 m) = (if unat m < 2 ^ 31 then m else 0)"
  unfolding mode_to_u32_def mode_to_i32_def sint_nonneg_i32 by simp

lemma collect_entries_lookup:
  assumes "collect_entries f m = Inr m'"
  shows "map fst m' = map fst m" "map_of m k = Some v \<Longrightarrow> \<exists>u. f k v = Inr u \<and> map_of m' k = Some u"
    "map_of m k = None \<Longrightarrow> map_of m' k = None"
  using assms by (induction f m arbitrary: m' rule: collect_entries.induct)
    (auto simp: rbind_eq_Inr split: if_splits)

lemma collect_entries_ok:
  "(\<exists>m'. collect_entries f m = Inr m') \<longleftrightarrow> (\<forall>(k, v)\<in>set m. is_ok (f k v))"
  by (induction f m rule: collect_entries.induct) (auto simp: rbind_eq_Inr is_ok_iff)

text \<open>A cache whose sizes are all representable, as every operation keeps it.\<close>

definition sizes_ok :: "'w local_state \<Rightarrow> bool" where
  "sizes_ok s \<longleftrightarrow> (\<forall>(k, e)\<in>set (local_files s). 0 \<le> sint (v1_size e))"

lemma cache_v1_roundtrip:
  "cache_to_v1 e = Inr v \<Longrightarrow> 0 \<le> sint (v1_size v) \<and>
     cache_from_v1 (ce_entry_path e) v = Inr (e\<lparr>ce_mode := if unat (ce_mode e) < 2 ^ 31 then ce_mode e else 0\<rparr>)"
  by (auto simp: cache_to_v1_def cache_from_v1_def rbind_eq_Inr file_size_to_db_def file_size_from_db_def
      sint_nonneg_iff mode_roundtrip split: if_splits)

text \<open>
  The cache reads back what was put into it. Storing an entry succeeds exactly when its size
  fits a signed 64-bit integer; then the entry is read back under its path with every field as it
  was, except a mode of 2^31 or more, which is stored as 0; every other path keeps its entry.
\<close>

theorem cache_entry_roundtrip:
  assumes "db_inv s" and "sizes_ok s" and "unat (ce_size e) < 2 ^ 63"
  shows "\<exists>s' old new. upsert_cache_entry e s = Inr s' \<and> sizes_ok s'
    \<and> get_cache_entries s = Inr old \<and> get_cache_entries s' = Inr new
    \<and> map_of new (ce_entry_path e)
        = Some (e\<lparr>ce_mode := if unat (ce_mode e) < 2 ^ 31 then ce_mode e else 0\<rparr>)
    \<and> (\<forall>p. p \<noteq> ce_entry_path e \<longrightarrow> map_of new p = map_of old p)"
proof -
  let ?p = "ce_entry_path e"
  from assms(3) obtain v where v: "cache_to_v1 e = Inr v"
    by (auto simp: cache_to_v1_def file_size_to_db_def)
  define s' where "s' = s\<lparr>local_files := btree_insert ?p v (local_files s)\<rparr>"
  have up: "upsert_cache_entry e s = Inr s'"
    by (simp add: upsert_cache_entry_def put_cache_def v s'_def)
  have sz: "sizes_ok s'"
    using assms(2) cache_v1_roundtrip [OF v] set_btree_insert_pairs [of ?p v "local_files s"]
    by (fastforce simp: sizes_ok_def s'_def)
  have readable: "\<exists>m. get_cache_entries t = Inr m" if "sizes_ok t" for t :: "'a local_state"
    unfolding get_cache_entries_def collect_entries_ok using that
    by (auto simp: sizes_ok_def cache_from_v1_def file_size_from_db_def is_ok_iff)
  then obtain old new where on: "get_cache_entries s = Inr old" "get_cache_entries s' = Inr new"
    using sz assms(2) by blast
  have look: "map_of (local_files s') = (map_of (local_files s))(?p \<mapsto> v)"
    using assms(1) by (simp add: s'_def btree_insert_lookup db_inv_def)
  have "map_of new ?p = Some (e\<lparr>ce_mode := if unat (ce_mode e) < 2 ^ 31 then ce_mode e else 0\<rparr>)"
    using collect_entries_lookup(2) [OF on(2) [unfolded get_cache_entries_def], of ?p v]
      cache_v1_roundtrip [OF v] look by auto
  moreover have "map_of new p = map_of old p" if "p \<noteq> ?p" for p
  proof (cases "map_of (local_files s) p")
    case None
    with look that show ?thesis
      using collect_entries_lookup(3) [OF on(1) [unfolded get_cache_entries_def], of p]
        collect_entries_lookup(3) [OF on(2) [unfolded get_cache_entries_def], of p] by simp
  next
    case (Some x)
    with look that show ?thesis
      using collect_entries_lookup(2) [OF on(1) [unfolded get_cache_entries_def], of p x]
        collect_entries_lookup(2) [OF on(2) [unfolded get_cache_entries_def], of p x] by auto
  qed
  ultimately show ?thesis using up sz on by blast
qed

theorem cache_entry_roundtrip_witness:
  "let e = \<lparr>ce_entry_path = ''a'', ce_plaintext_hash = ''p'', ce_encrypted_hash = ''e'', ce_size = 7,
         ce_mtime = 1, ce_server_mtime = 2, ce_mode = 493, ce_hydrated = True, ce_deleted_at = None\<rparr>
   in \<exists>s' new. upsert_cache_entry e (local_state_default :: nat local_state) = Inr s'
     \<and> get_cache_entries s' = Inr new \<and> map_of new ''a'' = Some e"
proof -
  let ?e = "\<lparr>ce_entry_path = ''a'', ce_plaintext_hash = ''p'', ce_encrypted_hash = ''e'', ce_size = 7,
         ce_mtime = 1, ce_server_mtime = 2, ce_mode = 493, ce_hydrated = True, ce_deleted_at = None\<rparr>"
  have "db_inv (local_state_default :: nat local_state)" "sizes_ok (local_state_default :: nat local_state)"
    by (simp_all add: db_inv_def registry_ok_def sizes_ok_def local_state_default_def)
  from cache_entry_roundtrip [OF this, of ?e] show ?thesis unfolding Let_def by auto
qed

section \<open>The history of resolutions\<close>

lemma sort_key_sorted: "sorted (map f xs) \<Longrightarrow> sort_key f xs = xs"
  by (induction xs) (auto simp: insort_is_Cons)

lemma sorted_weaken: "sorted (map (\<lambda>x. (f x, h x)) xs) \<Longrightarrow> sorted (map f xs)"
  by (induction xs) (auto simp: less_eq_prod_def)

lemma sorted_resolutions: "sorted (map (\<lambda>r. sint (res_resolved_at r)) (sort_key resolution_key rs))"
  using sorted_weaken [of "\<lambda>r. sint (res_resolved_at r)" res_path "sort_key resolution_key rs"]
  by (simp add: sorted_sort_key resolution_key_def [abs_def])

text \<open>
  The listed history is complete and newest first. Whatever the order in which resolutions
  were recorded, reading the stored state lists each of them once, by descending time, and those
  of the same millisecond by descending path.
\<close>

theorem resolution_history_order:
  "list_conflict_resolutions (stored g s) = map public_resolution (rev (sort_key resolution_key (conflict_resolutions s)))
   \<and> mset (list_conflict_resolutions (stored g s)) = image_mset public_resolution (mset (conflict_resolutions s))
   \<and> sorted_wrt (\<lambda>x y. (sint (hist_resolved_at y), hist_path y) \<le> (sint (hist_resolved_at x), hist_path x))
       (list_conflict_resolutions (stored g s))"
proof -
  let ?rs = "sort_key resolution_key (conflict_resolutions s)"
  have "sort_key (\<lambda>r. sint (hist_resolved_at r)) (map public_resolution ?rs) = map public_resolution ?rs"
    by (rule sort_key_sorted) (use sorted_resolutions in \<open>simp add: o_def public_resolution_def\<close>)
  then have eq: "list_conflict_resolutions (stored g s) = map public_resolution (rev ?rs)"
    by (simp add: list_conflict_resolutions_def rev_map)
  have "sorted (map resolution_key ?rs)" by simp
  then have "sorted_wrt (\<lambda>x y. resolution_key y \<le> resolution_key x) (rev ?rs)"
    by (simp add: sorted_wrt_rev sorted_map)
  then show ?thesis unfolding eq
    by (simp add: sorted_wrt_map resolution_key_def public_resolution_def)
qed

text \<open>
  Two resolutions of one batch carry the same time: they are listed by descending path, and not
  with the one recorded last first.
\<close>

lemma resolution_ties_by_path:
  "let op = ResolveConflictPathsWithHistory [''b'', ''a''] Local ''me'' 9 :: nat client_op;
       (res, disk) = run_client_op plain_floats plain_codec op granted (Some local_state_default)
   in res = Inr () \<and> map_option (map hist_path \<circ> list_conflict_resolutions) (load_state plain_floats plain_codec disk)
        = Some [''b'', ''a'']"
  by code_simp

section \<open>Transfer\<close>

lemma collect_inverse:
  assumes "\<forall>(k, v)\<in>set m. \<exists>u. f k v = Inr u \<and> h k u = Inr v"
  shows "\<exists>m'. collect_entries f m = Inr m' \<and> map fst m' = map fst m \<and> collect_entries h m' = Inr m"
  using assms
proof (induction f m rule: collect_entries.induct)
  case (2 f k v m)
  then obtain u m' where "f k v = Inr u" "h k u = Inr v" "collect_entries f m = Inr m'"
    "map fst m' = map fst m" "collect_entries h m' = Inr m" by auto
  then show ?case by (intro exI [of _ "(k, u) # m'"]) simp
qed simp

definition representable :: "cache_entry_v1 \<Rightarrow> bool" where
  "representable e \<longleftrightarrow> 0 \<le> sint (v1_size e) \<and> 0 \<le> sint (v1_mode e)"

lemma cache_transfer:
  assumes "representable e"
  shows "\<exists>u. cache_to_migration p e = Inr u \<and> cache_of_migration p u = Inr e"
  using assms
  by (simp add: representable_def cache_to_migration_def cache_of_migration_def file_size_from_db_def
      file_size_to_db_def sint_nonneg_iff mode_to_u32_def mode_to_i32_def sint_nonneg_i32)

lemma record_transfer: "record_of_migration (record_to_migration r) = r\<lparr>cr_fingerprint := None\<rparr>"
  by (simp add: record_of_migration_def record_to_migration_def status_db_roundtrip)

lemma resolution_transfer: "resolution_of_migration (public_resolution r) = r"
  by (simp add: resolution_of_migration_def public_resolution_def method_db_roundtrip)

lemma btree_collect_map:
  "btree m \<Longrightarrow> btree_collect (map (\<lambda>(k, r). (k, f r)) m) = map (\<lambda>(k, r). (k, f r)) m"
proof (rule btree_collect_ordered)
  have "map fst (map (\<lambda>(k, r). (k, f r)) m) = map fst m" by auto
  then show "btree m \<Longrightarrow> btree (map (\<lambda>(k, r). (k, f r)) m)" by (simp del: map_map)
qed

text \<open>
  Exporting a state and importing it into another database gives the same cache, access log,
  session keys, resolutions and conflict records, except that the records come without their
  fingerprints, so no imported conflict is a candidate for automatic resolution.
\<close>

theorem migration_roundtrip:
  assumes "db_inv s" and "\<forall>(k, e)\<in>set (local_files s). representable e"
  shows "\<exists>dto t'. export_for_migration s = Inr dto \<and> replace_from_migration dto t = Inr t'
    \<and> t' = s\<lparr>schema_version := schema_version t,
          conflict_registry := map (\<lambda>(k, r). (k, r\<lparr>cr_fingerprint := None\<rparr>)) (conflict_registry s)\<rparr>
    \<and> list_automatic_candidates S t' = []
    \<and> list_pending_conflict_paths t' = list_pending_conflict_paths s"
proof -
  have bt: "btree (local_files s)" "btree (conflict_registry s)"
    using assms(1) by (simp_all add: db_inv_def registry_ok_def)
  obtain m where m: "collect_entries cache_to_migration (local_files s) = Inr m" "map fst m = map fst (local_files s)"
      "collect_entries cache_of_migration m = Inr (local_files s)"
    using collect_inverse [of "local_files s" cache_to_migration cache_of_migration] assms(2) cache_transfer by blast
  define dto where "dto = \<lparr>m_local_files = m, m_file_access_log = file_access_log s, m_last_session = last_session s,
      m_conflict_registry = map (\<lambda>(k, r). (k, record_to_migration r)) (conflict_registry s),
      m_conflict_resolutions = map public_resolution (conflict_resolutions s)\<rparr>"
  define t' where "t' = s\<lparr>schema_version := schema_version t,
      conflict_registry := map (\<lambda>(k, r). (k, r\<lparr>cr_fingerprint := None\<rparr>)) (conflict_registry s)\<rparr>"
  have "export_for_migration s = Inr dto"
    using m bt by (simp add: export_for_migration_def dto_def btree_collect_ordered btree_collect_map)
  moreover have "replace_from_migration dto t = Inr t'"
  proof -
    have "map (\<lambda>(k, r). (k, record_of_migration r)) (m_conflict_registry dto)
        = map (\<lambda>(k, r). (k, r\<lparr>cr_fingerprint := None\<rparr>)) (conflict_registry s)"
      by (simp add: dto_def record_transfer case_prod_unfold)
    then have "btree_collect (map (\<lambda>(k, r). (k, record_of_migration r)) (m_conflict_registry dto))
        = map (\<lambda>(k, r). (k, r\<lparr>cr_fingerprint := None\<rparr>)) (conflict_registry s)"
      using bt(2) by (simp add: btree_collect_map)
    then show ?thesis
      using m(3) bt(1) unfolding replace_from_migration_def t'_def
      by (simp add: dto_def btree_collect_ordered resolution_transfer o_def)
  qed
  moreover have "list_automatic_candidates S t' = []"
    by (auto simp: list_automatic_candidates_def t'_def sidecar_matches_record_def filter_empty_conv)
  moreover have "list_pending_conflict_paths t' = list_pending_conflict_paths s"
    by (simp add: list_pending_conflict_paths_def pending_records_def t'_def case_prod_unfold filter_map o_def)
  ultimately show ?thesis unfolding t'_def by blast
qed

theorem migration_roundtrip_witness:
  "let s = local_state_default\<lparr>conflict_registry := [(''b'', legacy_record ''b'' (Some ''fp''))]\<rparr> :: nat local_state
   in \<exists>dto t'. export_for_migration s = Inr dto \<and> replace_from_migration dto local_state_default = Inr t'
     \<and> list_pending_conflict_paths t' = [''b''] \<and> list_automatic_candidates (\<lambda>_ _. Some ''b'') t' = []"
proof -
  let ?s = "local_state_default\<lparr>conflict_registry := [(''b'', legacy_record ''b'' (Some ''fp''))]\<rparr> :: nat local_state"
  have "db_inv ?s" "\<forall>(k, e)\<in>set (local_files ?s). representable e"
    by (simp_all add: db_inv_def registry_ok_def local_state_default_def legacy_record_def)
  from migration_roundtrip [OF this, of local_state_default "\<lambda>_ _. Some ''b''"]
  show ?thesis unfolding Let_def
    by (auto simp: list_pending_conflict_paths_def pending_records_def legacy_record_def)
qed

section \<open>The access log\<close>

lemma adjust_length: "adjust_access F p q d t es = Inr es' \<Longrightarrow> length es' \<le> Suc (length es)"
  by (induction es arbitrary: es') (auto simp: Let_def rbind_eq_Inr split: if_splits)

lemma prune_log:
  "file_access_log (prune_access_log F s) =
     (let kept = filter (\<lambda>e. abs_reaches_min F (ae_weight e)) (file_access_log s)
      in if length kept \<le> access_log_max_entries then kept
         else drop (length kept - access_log_max_entries) (sort_by (weight_order F) kept))"
  by (simp add: prune_access_log_def Let_def)

lemma prune_bounded:
  "length (file_access_log (prune_access_log F s)) \<le> access_log_max_entries"
  "e \<in> set (file_access_log (prune_access_log F s)) \<Longrightarrow> abs_reaches_min F (ae_weight e)"
  by (auto simp: prune_log Let_def dest: in_set_dropD split: if_splits)

text \<open>Finite floating-point numbers are totally ordered.\<close>

definition float_order :: "'w float_ops \<Rightarrow> bool" where
  "float_order F \<longleftrightarrow> preorder_on {w. is_finite F w} (\<lambda>v w. \<not> f_less F w v)"

lemma float_orderD:
  assumes "float_order F"
  shows "is_finite F v \<Longrightarrow> is_finite F w \<Longrightarrow> \<not> f_less F v w \<or> \<not> f_less F w v"
    "is_finite F u \<Longrightarrow> is_finite F v \<Longrightarrow> is_finite F w \<Longrightarrow> \<not> f_less F v u \<Longrightarrow> \<not> f_less F w v \<Longrightarrow> \<not> f_less F w u"
  using preorder_onD [OF assms [unfolded float_order_def]] unfolding mem_Collect_eq by blast+

lemma weight_order_weights:
  assumes "float_order F" and "is_finite F (ae_weight x)" and "is_finite F (ae_weight y)" and "weight_order F x y"
  shows "\<not> f_less F (ae_weight y) (ae_weight x)"
  using assms(4) float_orderD(1) [OF assms(1-3)] by (simp add: weight_order_def split: if_splits)

lemma weight_order_preorder:
  assumes "float_order F" and "\<forall>e\<in>A. is_finite F (ae_weight e)"
  shows "preorder_on A (weight_order F)"
proof -
  note asym = float_orderD(1) [OF assms(1)] and trans = float_orderD(2) [OF assms(1)]
  have "weight_order F x y \<or> weight_order F y x" if "x \<in> A" "y \<in> A" for x y
    using linear [of "access_rank x" "access_rank y"] unfolding weight_order_def by argo
  moreover have "weight_order F x z" if "x \<in> A" "y \<in> A" "z \<in> A" "weight_order F x y" "weight_order F y z" for x y z
  proof -
    have fin: "is_finite F (ae_weight x)" "is_finite F (ae_weight y)" "is_finite F (ae_weight z)"
      using assms(2) that(1-3) by blast+
    show ?thesis
      using that(4,5) trans [OF fin] trans [OF fin(3,1,2)] trans [OF fin(2,3,1)] trans [OF fin(1,2,3)]
        trans [OF fin(3,2,1)] trans [OF fin(2,1,3)] trans [OF fin(1,3,2)] asym [OF fin(1,3)]
        asym [OF fin(1,2)] asym [OF fin(2,3)] order_trans [of "access_rank x" "access_rank y" "access_rank z"]
      unfolding weight_order_def by argo
  qed
  ultimately show ?thesis unfolding preorder_on_def by blast
qed

text \<open>
  The access log never grows past its bound. After an access is recorded or the log decays,
  it has at most 10000 entries, all of a weight that counts, and the entries that were dropped to
  keep the bound are not heavier than any that was kept.
\<close>

theorem access_log_bounded:
  assumes "perform F x s = Inr s'" and "\<exists>p q d t f. x = RecordAccessPair p q d t \<or> x = DecayAccessLog f"
    and "op_ok F x" and "finite_weights F s" and "float_order F"
  shows "length (file_access_log s') \<le> access_log_max_entries
    \<and> (\<forall>e\<in>set (file_access_log s'). abs_reaches_min F (ae_weight e))
    \<and> (\<exists>log dropped. s' = prune_access_log F (s\<lparr>file_access_log := log\<rparr>)
        \<and> mset (filter (\<lambda>e. abs_reaches_min F (ae_weight e)) log) = mset (file_access_log s') + mset dropped
        \<and> (dropped \<noteq> [] \<longrightarrow> length (file_access_log s') = access_log_max_entries)
        \<and> (\<forall>d\<in>set dropped. \<forall>e\<in>set (file_access_log s'). \<not> f_less F (ae_weight e) (ae_weight d)))"
proof -
  obtain log where s': "s' = prune_access_log F (s\<lparr>file_access_log := log\<rparr>)"
      and fin: "\<forall>e\<in>set log. is_finite F (ae_weight e)"
  proof (cases x)
    case (RecordAccessPair p q d t)
    with assms(1) obtain log where "adjust_access F p q d t (file_access_log s) = Inr log" "is_finite F d"
      "s' = prune_access_log F (s\<lparr>file_access_log := log\<rparr>)" by (auto simp: record_access_pair_def rbind_eq_Inr)
    with that finite_adjust [of F p q d t "file_access_log s" log] assms(4) show ?thesis
      unfolding finite_weights_def by simp
  next
    case (DecayAccessLog f)
    with assms(1,3,4) show ?thesis
      by (intro that [of "map (\<lambda>e. e\<lparr>ae_weight := f_mul F (ae_weight e) f\<rparr>) (file_access_log s)"])
        (auto simp: decay_access_log_def rbind_eq_Inr op_ok_def finite_weights_def)
  qed (use assms(2) in auto)
  let ?kept = "filter (\<lambda>e. abs_reaches_min F (ae_weight e)) log"
  let ?n = "length ?kept - access_log_max_entries"
  let ?sorted = "sort_by (weight_order F) ?kept"
  let ?dropped = "if length ?kept \<le> access_log_max_entries then [] else take ?n ?sorted"
  have fl: "file_access_log s' = (if length ?kept \<le> access_log_max_entries then ?kept else drop ?n ?sorted)"
    by (simp add: s' prune_log Let_def)
  have "sorted_wrt (weight_order F) (take ?n ?sorted @ drop ?n ?sorted)"
    using fin by (simp add: sort_by_sorted weight_order_preorder assms(5))
  then have "\<forall>d\<in>set (take ?n ?sorted). \<forall>e\<in>set (drop ?n ?sorted). weight_order F d e"
    unfolding sorted_wrt_append by blast
  moreover have "is_finite F (ae_weight e)" if "e \<in> set (take ?n ?sorted) \<union> set (drop ?n ?sorted)" for e
    using that fin by (auto dest: in_set_takeD in_set_dropD)
  ultimately have "\<forall>d\<in>set ?dropped. \<forall>e\<in>set (file_access_log s'). \<not> f_less F (ae_weight e) (ae_weight d)"
    unfolding fl using weight_order_weights [OF assms(5)] by (simp split: if_split)
  moreover have "mset ?kept = mset (file_access_log s') + mset ?dropped"
    unfolding fl by (simp add: add.commute flip: mset_append)
  moreover have "?dropped \<noteq> [] \<longrightarrow> length (file_access_log s') = access_log_max_entries"
    unfolding fl by simp
  moreover have "length (file_access_log s') \<le> access_log_max_entries"
    "\<forall>e\<in>set (file_access_log s'). abs_reaches_min F (ae_weight e)"
    unfolding s' using prune_bounded by blast+
  ultimately show ?thesis using s' by blast
qed

theorem access_log_bounded_witness:
  "let x = RecordAccessPair ''a'' ''b'' 1 5
   in \<exists>s'. perform plain_floats x local_state_default = Inr s' \<and> length (file_access_log s') \<le> access_log_max_entries"
proof -
  let ?x = "RecordAccessPair ''a'' ''b'' (1 :: nat) 5"
  obtain s' where s': "perform plain_floats ?x local_state_default = Inr s'"
    by (auto simp: record_access_pair_def local_state_default_def plain_floats_def)
  have "float_order plain_floats" by (auto simp: float_order_def preorder_on_def plain_floats_def)
  then show ?thesis
    using s' access_log_bounded [OF s'] by (auto simp: op_ok_def finite_weights_def local_state_default_def)
qed

text \<open>
  A decay whose product overflows is committed, and the file it leaves cannot be read again:
  unlike the recording of an access, the decay does not check its results.
\<close>

definition small_floats :: "nat float_ops" where
  "small_floats = \<lparr>is_finite = \<lambda>w. w < 100, f_add = (+), f_mul = (*), abs_reaches_min = \<lambda>w. 0 < w, f_less = (<)\<rparr>"

lemma decay_overflow_unreadable:
  "let s = local_state_default\<lparr>file_access_log :=
         [\<lparr>ae_path = ''a'', ae_sibling_path = ''b'', ae_weight = 60, ae_updated_at = 1\<rparr>]\<rparr>;
       (res, disk) = run_client_op small_floats plain_codec (DecayAccessLog 2) granted (Some s)
   in res = Inr () \<and> read_state_file small_floats plain_codec disk = Inl NonFiniteWeight"
  by code_simp

end
