(* ===== verification/Conflict_Gate.thy ===== *)
theory Conflict_Gate
  imports Reconcile Client_Db
begin

text \<open>
  The conflict gate of a synchronisation pass (\<^verbatim>\<open>agent-core/src/conflicts.rs\<close>): detection of concurrent
  edits against the server's view, case-only collisions, the registration of conflicts in the
  client database, and \<^verbatim>\<open>negotiate_sync_with_conflict_gate\<close>, which reconciles, detects, registers
  and filters the plan. The theorems compose reconciliation, three-way detection and the
  registry: a pass merges one-sided changes and touches no path that is in conflict.
\<close>

section \<open>Detection against the server's view\<close>

definition file_changed_since :: "file_state option \<Rightarrow> file_state \<Rightarrow> bool" where
  "file_changed_since base current =
     (case base of
        None \<Rightarrow> True
      | Some b \<Rightarrow> fs_hash current \<noteq> fs_hash b \<or> fs_deleted current \<noteq> fs_deleted b \<or> fs_mode current \<noteq> fs_mode b)"

definition live_state :: "file_state option \<Rightarrow> file_state option" where
  "live_state state = (case state of Some s \<Rightarrow> if fs_deleted s then None else Some s | None \<Rightarrow> None)"

definition same_content_gate :: "file_state option \<Rightarrow> file_state option \<Rightarrow> bool" where
  "same_content_gate left right =
     (case (live_state left, live_state right) of
        (Some l, Some r) \<Rightarrow> fs_hash l = fs_hash r \<and> fs_mode l = fs_mode r
      | (None, None) \<Rightarrow> True
      | _ \<Rightarrow> False)"

definition their_changed_files :: "files \<Rightarrow> files \<Rightarrow> files" where
  "their_changed_files last_synced server =
     filter (\<lambda>(path, remote). \<not> same_content_gate (Some remote) (map_of last_synced path)) server"

definition their_deleted_paths :: "files \<Rightarrow> files \<Rightarrow> string list" where
  "their_deleted_paths last_synced server =
     map fst (filter (\<lambda>(path, base). \<not> fs_deleted base \<and> map_of server path = None) last_synced)"

definition detect_workspace_conflicts_with_server_view ::
  "prims \<Rightarrow> files \<Rightarrow> files \<Rightarrow> sync_response \<Rightarrow> string list \<Rightarrow> files \<Rightarrow> detected" where
  "detect_workspace_conflicts_with_server_view P last_synced local response pending server =
     (let changed = their_changed_files last_synced server;
          deleted = their_deleted_paths last_synced server
      in filter (\<lambda>(c, _). is_safe_rel_path P (ce_path c))
           (detect_concurrent_edits (map_of last_synced) (map_of local) (map_of changed) (set deleted)
             (conflict_candidate_paths response pending @ map fst changed @ deleted) (set pending)))"

definition filter_blocked_paths :: "sync_response \<Rightarrow> string set \<Rightarrow> sync_response" where
  "filter_blocked_paths response blocked =
     \<lparr>upload_required = filter (\<lambda>p. p \<notin> blocked) (upload_required response),
      download_required = filter (\<lambda>f. fs_path f \<notin> blocked) (download_required response),
      delete_local = filter (\<lambda>p. p \<notin> blocked) (delete_local response)\<rparr>"

section \<open>Case-only collisions\<close>

definition paths_case_collide :: "string \<Rightarrow> string \<Rightarrow> bool" where
  "paths_case_collide a b = (a \<noteq> b \<and> eq_ignore_ascii_case a b)"

definition case_conflict_paths :: "file_state list \<Rightarrow> files \<Rightarrow> string list" where
  "case_conflict_paths download_paths local =
     map fs_path (filter (\<lambda>remote. list_ex (paths_case_collide (fs_path remote)) (map fst local)) download_paths)"

definition case_conflict_edit ::
  "files \<Rightarrow> files \<Rightarrow> file_state list \<Rightarrow> string list \<Rightarrow> string \<Rightarrow> detected" where
  "case_conflict_edit last_synced local downloads pending remote_path =
     (if remote_path \<in> set pending then []
      else (case find (\<lambda>f. fs_path f = remote_path) downloads of
          None \<Rightarrow> []
        | Some remote \<Rightarrow>
            (case find (\<lambda>p. paths_case_collide p remote_path) (map fst local) of
               None \<Rightarrow> []
             | Some local_key \<Rightarrow>
                 (case map_of local local_key of
                    None \<Rightarrow> []
                  | Some l \<Rightarrow>
                      [(concurrent_edit_new remote_path (map_of last_synced remote_path) (Some l) (Some remote),
                        EditEdit)]))))"

section \<open>The second look at planned transfers\<close>

definition collision_edit ::
  "files \<Rightarrow> string \<Rightarrow> file_state option \<Rightarrow> file_state option \<Rightarrow> detected" where
  "collision_edit last_synced path ours theirs =
     (case (ours, theirs) of
        (Some l, Some remote) \<Rightarrow>
          if same_content_gate (Some l) (Some remote) then []
          else if \<not> (file_changed_since (map_of last_synced path) l
                     \<and> file_changed_since (map_of last_synced path) remote) then []
          else [(concurrent_edit_new path
                   (case map_of last_synced path of None \<Rightarrow> Some l | Some b \<Rightarrow> Some b)
                   (Some l) (Some remote), EditEdit)]
      | _ \<Rightarrow> [])"

definition collision_step ::
  "files \<Rightarrow> files \<Rightarrow> string list \<Rightarrow> string \<Rightarrow> file_state option \<Rightarrow> detected \<times> string set \<Rightarrow> detected \<times> string set" where
  "collision_step last_synced local pending path theirs acc =
     (let (out, seen) = acc in
      if path \<in> set pending \<or> path \<in> seen then (out, seen)
      else (out @ collision_edit last_synced path (map_of local path) theirs, insert path seen))"

definition detect_all ::
  "prims \<Rightarrow> files \<Rightarrow> files \<Rightarrow> files \<Rightarrow> sync_response \<Rightarrow> string list \<Rightarrow> detected" where
  "detect_all P last_synced local server response pending =
     (let d0 = detect_workspace_conflicts_with_server_view P last_synced local response pending server;
          d1 = d0 @ concat (map (case_conflict_edit last_synced local (download_required response) pending)
                 (case_conflict_paths (download_required response) local));
          (d2, seen) = fold (\<lambda>remote. collision_step last_synced local pending (fs_path remote) (Some remote))
                 (download_required response) (d1, edit_path ` set d1)
      in if list_ex (\<lambda>path. map_of local path \<noteq> None \<and> map_of last_synced path = None) (upload_required response)
         then fst (fold (\<lambda>path. collision_step last_synced local pending path (map_of server path))
                 (upload_required response) (d2, seen))
         else d2)"

section \<open>The environment of the gate\<close>

text \<open>
  What the gate calls outside the pure code: the hub's head and flat view, the filesystem behind
  placeholders and conflict artifacts, snapshots and the identity hash. A placeholder's stat is its
  length, modification time, mode and whether it is read-only; none when it is no regular file.
\<close>

datatype 'e gate_error = External 'e | Store local_error | UnsafePlaceholder string

record 'e gate_env =
  get_head :: "'e + string option"
  peek_sync :: "'e + sync_response"
  placeholder_stat :: "string \<Rightarrow> (nat \<times> i64 \<times> u32 \<times> bool) option"
  save_placeholder :: "string \<Rightarrow> 'e + unit"
  write_conflict_triple :: "concurrent_edit \<times> conflict_kind \<Rightarrow> 'e + unit"
  write_manifest :: "string list \<Rightarrow> 'e + unit"
  snapshot_root :: "string \<Rightarrow> string option"
  identity_fingerprint :: "string \<Rightarrow> string \<Rightarrow> concurrent_edit \<times> conflict_kind \<Rightarrow> string"
  sidecar_written :: "string \<Rightarrow> bool"
  state_written :: "string \<Rightarrow> bool"
  conflict_dir :: string
  timestamp :: i64

definition load_server_view_with_head ::
  "'e snapshot_engine \<Rightarrow> 'e gate_env \<Rightarrow> 'e + (string option \<times> files)" where
  "load_server_view_with_head E G =
     (if format_version E \<ge> 3 then
        rbind (get_head G) (\<lambda>head.
        rbind (case head of Some h \<Rightarrow> load_files E h | None \<Rightarrow> Inr []) (\<lambda>files.
        Inr (head, files)))
      else
        rbind (peek_sync G) (\<lambda>response.
        Inr (None, fold (\<lambda>file m. AList.update (fs_path file) file m) (download_required response) [])))"

text \<open>Paths where a lazy placeholder was written to locally.\<close>

definition placeholder_changed :: "cache_entry \<Rightarrow> nat \<times> i64 \<times> u32 \<times> bool \<Rightarrow> bool" where
  "placeholder_changed entry st =
     (let (len, mtime, mode, readonly) = st in
      len > 0 \<or> mtime \<noteq> ce_mtime entry \<or> mode \<noteq> ce_mode entry \<or> \<not> readonly)"

definition detect_placeholder_corruptions ::
  "'e gate_env \<Rightarrow> 'w local_state \<Rightarrow> 'e gate_error + string list" where
  "detect_placeholder_corruptions G state =
     rbind (map_err Store (get_cache_entries state)) (\<lambda>cached.
     Inr (map fst (filter (\<lambda>(path, entry).
         \<not> (ce_hydrated entry \<or> ce_deleted_at entry \<noteq> None)
         \<and> (case placeholder_stat G path of None \<Rightarrow> False | Some st \<Rightarrow> placeholder_changed entry st)) cached)))"

text \<open>
  Registration changes the client database as it goes; an error leaves the records written so far.
\<close>

type_synonym ('e, 'w, 'a) gate_result = "('e gate_error + 'a) \<times> 'w local_state"

definition register_placeholder_corruption ::
  "prims \<Rightarrow> 'e gate_env \<Rightarrow> string \<Rightarrow> 'w local_state \<Rightarrow> ('e, 'w, unit) gate_result" where
  "register_placeholder_corruption P G path state =
     (if get_conflict_record (\<lambda>_ _. None) path state \<noteq> None then (Inr (), state)
      else if \<not> is_safe_rel_path P path then (Inl (UnsafePlaceholder path), state)
      else (case save_placeholder G path of
          Inl e \<Rightarrow> (Inl (External e), state)
        | Inr _ \<Rightarrow>
            if \<not> state_written G path then (Inl (Store WriteFailed), state)
            else (case upsert_conflict path EditEdit (conflict_dir G) (timestamp G) Pending state of
                Inl e \<Rightarrow> (Inl (Store e), state)
              | Inr state' \<Rightarrow> (Inr (), state'))))"

fun register_corruptions ::
  "prims \<Rightarrow> 'e gate_env \<Rightarrow> string list \<Rightarrow> 'w local_state \<Rightarrow> ('e, 'w, unit) gate_result" where
  "register_corruptions P G [] state = (Inr (), state)"
| "register_corruptions P G (path # paths) state =
     (case register_placeholder_corruption P G path state of
        (Inl e, state') \<Rightarrow> (Inl e, state')
      | (Inr _, state') \<Rightarrow> register_corruptions P G paths state')"

definition register_record ::
  "'e gate_env \<Rightarrow> (string \<times> string) option \<Rightarrow> concurrent_edit \<times> conflict_kind
    \<Rightarrow> 'w local_state \<Rightarrow> local_error + 'w local_state" where
  "register_record G at_head item state =
     rbind (case at_head of
        Some (head, root) \<Rightarrow>
          upsert_conflict_fingerprinted (sidecar_written G (edit_path item)) (edit_path item) (snd item)
            (conflict_dir G) (timestamp G) (identity_fingerprint G head root item) state
      | None \<Rightarrow> upsert_conflict (edit_path item) (snd item) (conflict_dir G) (timestamp G) Pending state) (\<lambda>state'.
     rbind (ensure (state_written G (edit_path item)) WriteFailed) (\<lambda>_.
     Inr state'))"

fun register_items ::
  "'e gate_env \<Rightarrow> (string \<times> string) option \<Rightarrow> detected \<Rightarrow> 'w local_state \<Rightarrow> ('e, 'w, unit) gate_result" where
  "register_items G at_head [] state = (Inr (), state)"
| "register_items G at_head (item # items) state =
     (case register_record G at_head item state of
        Inl e \<Rightarrow> (Inl (Store e), state)
      | Inr state' \<Rightarrow> register_items G at_head items state')"

definition register_and_write_conflicts ::
  "nat \<Rightarrow> 'e gate_env \<Rightarrow> detected \<Rightarrow> 'w local_state \<Rightarrow> ('e, 'w, string set) gate_result" where
  "register_and_write_conflicts fmt G items state =
     (case rbind (for_each (write_conflict_triple G) items) (\<lambda>_.
           rbind (write_manifest G (map edit_path items)) (\<lambda>_.
           if fmt \<ge> 3 then get_head G else Inr None)) of
        Inl e \<Rightarrow> (Inl (External e), state)
      | Inr head \<Rightarrow>
          (let at_head = (case head of None \<Rightarrow> None
                          | Some h \<Rightarrow> map_option (Pair h) (snapshot_root G h))
           in case register_items G at_head items state of
                (Inl e, state') \<Rightarrow> (Inl e, state')
              | (Inr _, state') \<Rightarrow> (Inr (edit_path ` set items), state')))"

section \<open>The gate\<close>

text \<open>The part of the gate that writes: corruptions first, then the detected conflicts.\<close>

definition gate_block ::
  "prims \<Rightarrow> nat \<Rightarrow> 'e gate_env \<Rightarrow> bool \<Rightarrow> detected \<Rightarrow> string list \<Rightarrow> 'w local_state
    \<Rightarrow> ('e, 'w, string set) gate_result" where
  "gate_block P fmt G register all_detected pending state =
     (case (if register then detect_placeholder_corruptions G state else Inr []) of
        Inl e \<Rightarrow> (Inl e, state)
      | Inr corrupt \<Rightarrow>
          (case register_corruptions P G corrupt state of
             (Inl e, state') \<Rightarrow> (Inl e, state')
           | (Inr _, state') \<Rightarrow>
               if register \<and> all_detected \<noteq> [] then
                 (case register_and_write_conflicts fmt G all_detected state' of
                    (Inl e, state'') \<Rightarrow> (Inl e, state'')
                  | (Inr paths, state'') \<Rightarrow> (Inr (set pending \<union> set corrupt \<union> paths), state''))
               else (Inr (set pending \<union> set corrupt \<union> edit_path ` set all_detected), state')))"

definition negotiate_sync_with_conflict_gate ::
  "prims \<Rightarrow> 'e snapshot_engine \<Rightarrow> 'e gate_env \<Rightarrow> files \<Rightarrow> bool \<Rightarrow> 'w local_state
    \<Rightarrow> ('e, 'w, sync_response \<times> string set \<times> string option) gate_result" where
  "negotiate_sync_with_conflict_gate P E G local register state =
     (let pending = list_pending_conflict_paths state in
      case rbind (load_server_view_with_head E G) (\<lambda>(server_head, server).
           rbind (reconcile E local server server_head) (\<lambda>reconciled.
           Inr (server_head, server, reconciled))) of
        Inl e \<Rightarrow> (Inl (External e), state)
      | Inr (server_head, server, reconciled) \<Rightarrow>
          (let response = rc_response reconciled;
               all_detected = detect_all P (rc_base reconciled) local server response pending
           in case gate_block P (format_version E) G register all_detected pending state of
                (Inl e, state') \<Rightarrow> (Inl e, state')
              | (Inr blocked, state') \<Rightarrow>
                  (Inr (filter_blocked_paths response blocked, blocked, server_head), state')))"

section \<open>What is detected\<close>

lemma same_content_gate_iff: "same_content_gate l r \<longleftrightarrow> content_of l = content_of r"
  by (auto simp: same_content_gate_def live_state_def content_of_def split: option.splits if_splits)

lemma map_of_filter:
  assumes "distinct (map fst m)"
  shows "map_of (filter (\<lambda>(k, v). Q k v) m) p = (case map_of m p of Some v \<Rightarrow> if Q p v then Some v else None | None \<Rightarrow> None)"
  using assms
proof (induction m)
  case (Cons kv m)
  obtain k v where kv: "kv = (k, v)" by force
  from Cons.prems kv have "map_of m k = None" by (simp add: map_of_eq_None_iff)
  moreover have "map_of (filter (\<lambda>(k, v). Q k v) m) k = None"
    using Cons.prems kv by (auto simp: map_of_eq_None_iff)
  ultimately show ?case using Cons kv by (cases "p = k") auto
qed simp

lemma their_changed_lookup:
  assumes "distinct (map fst server)"
  shows "map_of (their_changed_files base server) p =
    (if content_of (map_of server p) = content_of (map_of base p) then None else map_of server p)"
  unfolding their_changed_files_def map_of_filter [OF assms] same_content_gate_iff
  by (auto split: option.split)

lemma their_deleted_iff:
  assumes "distinct (map fst base)"
  shows "p \<in> set (their_deleted_paths base server) \<longleftrightarrow>
    (\<exists>b. map_of base p = Some b \<and> \<not> fs_deleted b) \<and> map_of server p = None"
proof -
  have "(\<exists>b. map_of base p = Some b \<and> \<not> fs_deleted b) \<longleftrightarrow> (\<exists>b. (p, b) \<in> set base \<and> \<not> fs_deleted b)"
    by (simp only: map_of_eq_Some_iff [OF assms])
  then show ?thesis unfolding their_deleted_paths_def by force
qed

lemma detected_paths:
  "edit_path ` set (detect_concurrent_edits base local tc td cands pend)
    = {p \<in> set cands. conflicting base local tc td p}"
  unfolding detect_set image_UN detect_path_image by (auto simp: detect_path_nonempty)

text \<open>A safe path that both sides changed, to different contents, is detected.\<close>

lemma both_changed_detected:
  assumes "distinct (map fst server)" and "distinct (map fst base)" and "is_safe_rel_path P p"
    and "content_of (map_of local p) \<noteq> content_of (map_of base p)"
    and "content_of (map_of server p) \<noteq> content_of (map_of base p)"
    and "content_of (map_of local p) \<noteq> content_of (map_of server p)"
    and "\<And>b. map_of base p = Some b \<Longrightarrow> \<not> fs_deleted b"
  shows "p \<in> edit_path ` set (detect_workspace_conflicts_with_server_view P base local response pending server)"
proof -
  let ?tc = "map_of (their_changed_files base server)" and ?td = "set (their_deleted_paths base server)"
  let ?cands = "conflict_candidate_paths response pending @ map fst (their_changed_files base server)
      @ their_deleted_paths base server"
  have tc: "?tc p = map_of server p" using assms(5) by (simp add: their_changed_lookup [OF assms(1)])
  have changed: "?tc p \<noteq> None \<or> p \<in> ?td"
  proof (cases "map_of server p")
    case None
    with assms(5) have "map_of base p \<noteq> None" by (metis content_of_simps(1))
    with None assms(7) show ?thesis by (auto simp: their_deleted_iff [OF assms(2)])
  qed (simp add: tc)
  have "conflicting (map_of base) (map_of local) ?tc ?td p"
    unfolding conflicting_def tc using assms(4-6) changed tc
    by (cases "map_of base p"; cases "map_of local p"; cases "map_of server p") auto
  moreover have "p \<in> set ?cands"
    using changed by (auto dest: map_of_SomeD intro: rev_image_eqI)
  ultimately have "p \<in> edit_path ` set (detect_concurrent_edits (map_of base) (map_of local) ?tc ?td ?cands (set pending))"
    unfolding detected_paths by blast
  then obtain c where "c \<in> set (detect_concurrent_edits (map_of base) (map_of local) ?tc ?td ?cands (set pending))"
    "edit_path c = p" by blast
  with assms(3) show ?thesis
    unfolding detect_workspace_conflicts_with_server_view_def Let_def
    by (intro image_eqI [of _ _ c]) (auto simp: edit_path_def case_prod_unfold)
qed

lemma collision_step_extends: "set (fst acc) \<subseteq> set (fst (collision_step b l pend p th acc))"
  by (auto simp: collision_step_def Let_def split: prod.split)

lemma collision_fold_extends:
  "set (fst acc) \<subseteq> set (fst (fold (\<lambda>x. collision_step b l pend (f x) (g x)) xs acc))"
proof (induction xs arbitrary: acc)
  case (Cons x xs)
  show ?case using collision_step_extends [of acc b l pend "f x" "g x"]
      Cons.IH [of "collision_step b l pend (f x) (g x) acc"] by simp
qed simp

lemma detect_all_extends:
  "set (detect_workspace_conflicts_with_server_view P b l resp pend server)
     \<union> (\<Union>p\<in>set (case_conflict_paths (download_required resp) l). set (case_conflict_edit b l (download_required resp) pend p))
   \<subseteq> set (detect_all P b l server resp pend)"
proof -
  let ?d1 = "detect_workspace_conflicts_with_server_view P b l resp pend server
      @ concat (map (case_conflict_edit b l (download_required resp) pend) (case_conflict_paths (download_required resp) l))"
  obtain d2 seen where d2: "fold (\<lambda>remote. collision_step b l pend (fs_path remote) (Some remote))
      (download_required resp) (?d1, edit_path ` set ?d1) = (d2, seen)" by force
  have "set ?d1 \<subseteq> set d2"
    using collision_fold_extends [of "(?d1, edit_path ` set ?d1)" b l pend fs_path Some "download_required resp"] d2 by simp
  moreover have "set d2 \<subseteq> set (detect_all P b l server resp pend)"
    using collision_fold_extends [of "(d2, seen)" b l pend "\<lambda>p. p" "map_of server" "upload_required resp"] d2
    unfolding detect_all_def Let_def by auto
  ultimately show ?thesis by auto
qed

lemma gate_block_Inr:
  assumes "gate_block P fmt G register D pending s = (Inr blocked, s')"
  obtains corrupt t where "blocked = set pending \<union> set corrupt \<union> edit_path ` set D"
    "(if register then detect_placeholder_corruptions G s else Inr []) = Inr corrupt"
    "register_corruptions P G corrupt s = (Inr (), t)"
    "if register \<and> D \<noteq> [] then register_and_write_conflicts fmt G D t = (Inr (edit_path ` set D), s') else s' = t"
  using assms
  by (auto simp: gate_block_def register_and_write_conflicts_def Let_def
      split: if_splits sum.splits prod.splits)

section \<open>The base of a comparison\<close>

text \<open>The entries before each change are what the snapshot has at its path.\<close>

definition diff_before :: "base_content \<Rightarrow> tree_change list \<Rightarrow> bool" where
  "diff_before B changes \<longleftrightarrow>
     (\<forall>c\<in>set changes. map_option (\<lambda>e. (te_hash e, te_mode e)) (tc_before c) = B (tc_path c))"

lemma add_base_lookup:
  "map_of (add_base c m) p =
     (case tc_before c of Some e \<Rightarrow> if p = tc_path c then Some (base_state c e) else map_of m p | None \<Rightarrow> map_of m p)"
  by (simp add: add_base_def update_conv' split: option.split)

lemma add_base_content:
  assumes "map_option (\<lambda>e. (te_hash e, te_mode e)) (tc_before c) = B (tc_path c)"
  shows "content_of (map_of (add_base c m) p) =
    (if tc_path c = p \<and> B p \<noteq> None then B p else content_of (map_of m p))"
  using assms unfolding add_base_lookup
  by (cases "tc_before c"; cases "B (tc_path c)"; cases "B p") (auto simp: base_state_def)

lemma fold_base_content:
  assumes "diff_before B cs"
  shows "content_of (map_of (fold add_base cs m) p) =
    (if p \<in> tc_path ` set cs \<and> B p \<noteq> None then B p else content_of (map_of m p))"
  using assms
proof (induction cs arbitrary: m)
  case (Cons c cs)
  then have "content_of (map_of (fold add_base (c # cs) m) p) =
      (if p \<in> tc_path ` set cs \<and> B p \<noteq> None then B p else content_of (map_of (add_base c m) p))"
    by (simp add: diff_before_def)
  moreover from Cons.prems have "map_option (\<lambda>e. (te_hash e, te_mode e)) (tc_before c) = B (tc_path c)"
    by (simp add: diff_before_def)
  ultimately show ?case by (cases "B p") (auto simp: add_base_content)
qed simp

lemma fold_base_live:
  "(\<forall>b. map_of m p = Some b \<longrightarrow> \<not> fs_deleted b) \<Longrightarrow> map_of (fold add_base cs m) p = Some b \<Longrightarrow> \<not> fs_deleted b"
proof (induction cs arbitrary: m)
  case (Cons c cs)
  have "\<forall>b. map_of (add_base c m) p = Some b \<longrightarrow> \<not> fs_deleted b"
    using Cons.prems(1) unfolding add_base_lookup
    by (cases "tc_before c") (auto simp: base_state_def)
  then show ?case using Cons.IH [of "add_base c m"] Cons.prems(2) by simp
qed simp

lemma fold_base_distinct: "distinct (map fst m) \<Longrightarrow> distinct (map fst (fold add_base cs m))"
  by (induction cs arbitrary: m) (simp_all add: add_base_def distinct_update split: option.split)

section \<open>The gate merges one-sided changes and blocks conflicts\<close>

text \<open>What the two sides hold at a path once the plan is carried out.\<close>

definition local_after :: "sync_response \<Rightarrow> files \<Rightarrow> files \<Rightarrow> string \<Rightarrow> (string \<times> u32) option" where
  "local_after resp local server p =
     (if p \<in> set (delete_local resp) then None
      else if p \<in> fs_path ` set (download_required resp) then visible server p
      else visible local p)"

definition remote_after :: "sync_response \<Rightarrow> files \<Rightarrow> files \<Rightarrow> string \<Rightarrow> (string \<times> u32) option" where
  "remote_after resp local server p =
     (if p \<in> set (upload_required resp) then visible local p else visible server p)"

lemma filter_blocked_members:
  "p \<in> set (upload_required (filter_blocked_paths r b)) \<longleftrightarrow> p \<in> set (upload_required r) \<and> p \<notin> b"
  "p \<in> fs_path ` set (download_required (filter_blocked_paths r b)) \<longleftrightarrow> p \<in> fs_path ` set (download_required r) \<and> p \<notin> b"
  "p \<in> set (delete_local (filter_blocked_paths r b)) \<longleftrightarrow> p \<in> set (delete_local r) \<and> p \<notin> b"
  by (auto simp: filter_blocked_paths_def)

text \<open>The inputs of a pass: what the gate compares, and what it is told about the changes.\<close>

definition pass_inputs ::
  "'e snapshot_engine \<Rightarrow> 'e gate_env \<Rightarrow> files \<Rightarrow> base_content \<Rightarrow> string option \<Rightarrow> files
    \<Rightarrow> tree_change list \<Rightarrow> tree_change list \<Rightarrow> bool" where
  "pass_inputs E G local B server_head server lc rc \<longleftrightarrow>
     load_server_view_with_head E G = Inr (server_head, server)
     \<and> distinct (map fst server) \<and> keys_match server
     \<and> (\<exists>b. last_synced_id E = Inr (Some b) \<and> diff_file_view E b local = Inr lc \<and> diff_file_view E b server = Inr rc)
     \<and> (if format_version E \<ge> 3 then server_head \<noteq> None else server \<noteq> [])
     \<and> diff_before B lc \<and> diff_before B rc \<and> covers B local lc \<and> covers B server rc"

lemma negotiate_Inr:
  assumes "negotiate_sync_with_conflict_gate P E G local register s = (Inr (resp, blocked, head), s')"
    and "pass_inputs E G local B server_head server lc rc"
  defines "rec \<equiv> reconcile_changes lc rc local server"
  shows "head = server_head" "resp = filter_blocked_paths (rc_response rec) blocked"
    "gate_block P (format_version E) G register
       (detect_all P (rc_base rec) local server (rc_response rec) (list_pending_conflict_paths s))
       (list_pending_conflict_paths s) s = (Inr blocked, s')"
proof -
  obtain b where b: "last_synced_id E = Inr (Some b)" "diff_file_view E b local = Inr lc" "diff_file_view E b server = Inr rc"
    using assms(2) unfolding pass_inputs_def by blast
  have view: "load_server_view_with_head E G = Inr (server_head, server)"
    and restored: "if format_version E \<ge> 3 then server_head \<noteq> None else server \<noteq> []"
    using assms(2) unfolding pass_inputs_def by blast+
  have rec: "reconcile E local server server_head = Inr rec"
    unfolding rec_def by (rule reconcile_continues [OF b(1) restored b(2,3)])
  show "head = server_head" "resp = filter_blocked_paths (rc_response rec) blocked"
    "gate_block P (format_version E) G register
       (detect_all P (rc_base rec) local server (rc_response rec) (list_pending_conflict_paths s))
       (list_pending_conflict_paths s) s = (Inr blocked, s')"
    using assms(1) unfolding negotiate_sync_with_conflict_gate_def Let_def view rbind_simps prod.case rec sum.case
    by (auto split: sum.splits prod.splits)
qed

lemma gate_blocks:
  assumes "negotiate_sync_with_conflict_gate P E G local register s = (Inr (resp, blocked, head), s')"
    and "pass_inputs E G local B server_head server lc rc"
  shows "set (list_pending_conflict_paths s) \<subseteq> blocked"
    "is_safe_rel_path P p \<Longrightarrow> visible local p \<noteq> B p \<Longrightarrow> visible server p \<noteq> B p \<Longrightarrow> visible local p \<noteq> visible server p
      \<Longrightarrow> p \<in> blocked"
proof -
  let ?rec = "reconcile_changes lc rc local server"
  let ?D = "detect_all P (rc_base ?rec) local server (rc_response ?rec) (list_pending_conflict_paths s)"
  note block = negotiate_Inr(3) [OF assms]
  from block obtain corrupt where bl: "blocked = set (list_pending_conflict_paths s) \<union> set corrupt \<union> edit_path ` set ?D"
    by (rule gate_block_Inr) simp
  then show "set (list_pending_conflict_paths s) \<subseteq> blocked" by blast
  assume p: "is_safe_rel_path P p" "visible local p \<noteq> B p" "visible server p \<noteq> B p" "visible local p \<noteq> visible server p"
  have in_changes: "p \<in> tc_path ` set (lc @ rc)"
    using assms(2) p(2) unfolding pass_inputs_def covers_def by auto
  have base: "rc_base ?rec = fold add_base (lc @ rc) []"
    by (simp add: reconcile_changes_def reconcile_sets_def Let_def)
  have "diff_before B (lc @ rc)" using assms(2) by (auto simp: pass_inputs_def diff_before_def)
  from fold_base_content [OF this, of "[]" p] in_changes
  have content: "visible (rc_base ?rec) p = B p" unfolding base by (cases "B p") simp_all
  have "p \<in> edit_path ` set (detect_workspace_conflicts_with_server_view P (rc_base ?rec) local (rc_response ?rec)
      (list_pending_conflict_paths s) server)"
  proof (rule both_changed_detected)
    show "distinct (map fst server)" using assms(2) by (simp add: pass_inputs_def)
    show "distinct (map fst (rc_base ?rec))" unfolding base by (rule fold_base_distinct) simp
    show "\<And>b. map_of (rc_base ?rec) p = Some b \<Longrightarrow> \<not> fs_deleted b"
      unfolding base by (rule fold_base_live [of "[]" p "lc @ rc"]) simp_all
  qed (use p content in simp_all)
  with detect_all_extends [of P "rc_base ?rec" local "rc_response ?rec" "list_pending_conflict_paths s" server]
  have "p \<in> edit_path ` set ?D" by blast
  with bl show "p \<in> blocked" by blast
qed


lemma merge_cases:
  fixes L R B :: "'a option"
  assumes "L = B \<or> R = B \<or> L = R"
  shows "(if L \<noteq> R \<and> L = B \<and> R \<noteq> B \<and> R = None then None else if L \<noteq> R \<and> L = B \<and> R \<noteq> B \<and> R \<noteq> None then R else L)
      = (if L = B then R else L)
    \<and> (if L \<noteq> R \<and> L \<noteq> B \<and> R = B then L else R)
      = (if L \<noteq> R \<and> L = B \<and> R \<noteq> B \<and> R = None then None else if L \<noteq> R \<and> L = B \<and> R \<noteq> B \<and> R \<noteq> None then R else L)"
  using assms by auto

text \<open>
  C25. With exact differences a pass converges: at every portable path that is not blocked the
  two sides end with the same content, the three-way merge of base, local and remote.
\<close>

theorem gate_converges:
  assumes "negotiate_sync_with_conflict_gate P E G local register s = (Inr (resp, blocked, head), s')"
    and "pass_inputs E G local B server_head server lc rc"
    and "exact_diff B local lc" and "exact_diff B server rc"
    and "is_safe_rel_path P p" and "p \<notin> blocked"
  shows "local_after resp local server p = (if visible local p = B p then visible server p else visible local p)
    \<and> remote_after resp local server p = local_after resp local server p"
proof -
  let ?r = "rc_response (reconcile_changes lc rc local server)"
  have resp: "resp = filter_blocked_paths ?r blocked" by (rule negotiate_Inr(2) [OF assms(1,2)])
  have km: "keys_match server" using assms(2) by (simp add: pass_inputs_def)
  have L: "p \<in> tc_path ` set lc \<longleftrightarrow> visible local p \<noteq> B p" and R: "p \<in> tc_path ` set rc \<longleftrightarrow> visible server p \<noteq> B p"
    using assms(3,4) unfolding exact_diff_def by blast+
  have up: "p \<in> set (upload_required resp) \<longleftrightarrow> visible local p \<noteq> visible server p \<and> visible local p \<noteq> B p \<and> visible server p = B p"
    unfolding resp filter_blocked_members reconcile_changes_upload [OF km] L R using assms(6) by blast
  have down: "p \<in> fs_path ` set (download_required resp) \<longleftrightarrow> visible local p \<noteq> visible server p
      \<and> visible local p = B p \<and> visible server p \<noteq> B p \<and> visible server p \<noteq> None"
    unfolding resp filter_blocked_members reconcile_changes_download [OF km] L R using assms(6) by blast
  have del: "p \<in> set (delete_local resp) \<longleftrightarrow> visible local p \<noteq> visible server p
      \<and> visible local p = B p \<and> visible server p \<noteq> B p \<and> visible server p = None"
    unfolding resp filter_blocked_members reconcile_changes_delete [OF km] L R using assms(6) by blast
  have "visible local p = B p \<or> visible server p = B p \<or> visible local p = visible server p"
    using gate_blocks(2) [OF assms(1,2,5)] assms(6) by blast
  then show ?thesis unfolding local_after_def remote_after_def up down del by (rule merge_cases)
qed

text \<open>
  Nothing is written over a file whose name differs only in case. No path that the gate lets
  through for download differs from a local path in ASCII case alone.
\<close>

theorem gate_no_case_collision:
  assumes "negotiate_sync_with_conflict_gate P E G local register s = (Inr (resp, blocked, head), s')"
    and "pass_inputs E G local B server_head server lc rc"
    and "f \<in> set (download_required resp)" and "q \<in> fst ` set local"
  shows "\<not> paths_case_collide (fs_path f) q"
proof
  assume coll: "paths_case_collide (fs_path f) q"
  let ?rec = "reconcile_changes lc rc local server"
  let ?pend = "list_pending_conflict_paths s"
  let ?D = "detect_all P (rc_base ?rec) local server (rc_response ?rec) ?pend"
  let ?down = "download_required (rc_response ?rec)"
  have resp: "resp = filter_blocked_paths (rc_response ?rec) blocked" by (rule negotiate_Inr(2) [OF assms(1,2)])
  then have f: "f \<in> set ?down" "fs_path f \<notin> blocked" using assms(3) by (auto simp: filter_blocked_paths_def)
  from negotiate_Inr(3) [OF assms(1,2)] obtain corrupt where
    bl: "blocked = set ?pend \<union> set corrupt \<union> edit_path ` set ?D" by (rule gate_block_Inr) simp
  have "fs_path f \<notin> set ?pend" using f(2) bl by blast
  obtain remote where remote: "find (\<lambda>g. fs_path g = fs_path f) ?down = Some remote"
    using f(1) by (cases "find (\<lambda>g. fs_path g = fs_path f) ?down") (auto simp: find_None_iff)
  have sym: "paths_case_collide q (fs_path f)" using coll by (auto simp: paths_case_collide_def eq_ignore_ascii_case_def)
  then obtain k where k: "find (\<lambda>p. paths_case_collide p (fs_path f)) (map fst local) = Some k"
    using assms(4) by (cases "find (\<lambda>p. paths_case_collide p (fs_path f)) (map fst local)") (auto simp: find_None_iff)
  then have "k \<in> set (map fst local)" by (auto simp: find_Some_iff)
  then obtain l where "map_of local k = Some l" by (metis list.set_map map_of_eq_None_iff option.exhaust)
  with remote k \<open>fs_path f \<notin> set ?pend\<close>
  have "case_conflict_edit (rc_base ?rec) local ?down ?pend (fs_path f) =
      [(concurrent_edit_new (fs_path f) (map_of (rc_base ?rec) (fs_path f)) (Some l) (Some remote), EditEdit)]"
    by (simp add: case_conflict_edit_def)
  moreover have "fs_path f \<in> set (case_conflict_paths ?down local)"
    using f(1) coll assms(4) by (auto simp: case_conflict_paths_def list_ex_iff)
  moreover from this have "set (case_conflict_edit (rc_base ?rec) local ?down ?pend (fs_path f)) \<subseteq> set ?D"
    using detect_all_extends [of P "rc_base ?rec" local "rc_response ?rec" ?pend server] by blast
  ultimately have "(concurrent_edit_new (fs_path f) (map_of (rc_base ?rec) (fs_path f)) (Some l) (Some remote), EditEdit) \<in> set ?D"
    by simp
  then have "fs_path f \<in> edit_path ` set ?D"
    by (rule rev_image_eqI) (simp add: edit_path_def concurrent_edit_new_def)
  with f(2) bl show False by blast
qed

section \<open>What is blocked is registered\<close>

abbreviation pending_set :: "'w local_state \<Rightarrow> string set" where
  "pending_set s \<equiv> set (list_pending_conflict_paths s)"

lemma insert_record_registry:
  "conflict_registry (insert_record r s) = btree_insert (cr_path r) r (conflict_registry s)"
  by (simp add: insert_record_def)

lemma insert_record_pending:
  assumes "db_inv s" and "is_pending (cr_status r)"
  shows "db_inv (insert_record r s)" "pending_set (insert_record r s) = insert (cr_path r) (pending_set s)"
proof -
  show inv: "db_inv (insert_record r s)"
    using assms(1) by (simp add: db_inv_def insert_record_def registry_insert)
  have "btree (conflict_registry s)" using assms(1) by (simp add: db_inv_def registry_ok_def)
  then show "pending_set (insert_record r s) = insert (cr_path r) (pending_set s)"
    unfolding pending_lookup [OF inv] pending_lookup [OF assms(1)]
    using assms(2) by (auto simp: insert_record_registry btree_insert_lookup)
qed

lemma register_corruption_pending:
  assumes "db_inv s" and "register_placeholder_corruption P G p s = (Inr (), t)"
  shows "db_inv t \<and> pending_set t = insert p (pending_set s)"
proof (cases "get_conflict_record (\<lambda>_ _. None) p s = None")
  case True
  with assms(2) have t: "t = insert_record \<lparr>cr_path = p, cr_kind = EditEdit, cr_conflict_dir = conflict_dir G,
      cr_opened_at = timestamp G, cr_status = Pending, cr_fingerprint = None\<rparr> s"
    by (auto simp: register_placeholder_corruption_def upsert_conflict_def split: if_splits sum.splits)
  show ?thesis unfolding t using insert_record_pending [OF assms(1)] by simp
next
  case False
  with assms(2) have "t = s" by (simp add: register_placeholder_corruption_def)
  moreover have "p \<in> pending_set s"
    using False by (auto simp: pending_lookup [OF assms(1)] get_conflict_record_def split: option.splits if_splits)
  ultimately show ?thesis using assms(1) by auto
qed

lemma register_corruptions_pending:
  assumes "db_inv s" and "register_corruptions P G ps s = (Inr (), t)"
  shows "db_inv t \<and> pending_set t = pending_set s \<union> set ps"
  using assms
proof (induction ps arbitrary: s)
  case (Cons p ps)
  from Cons.prems(2) obtain s1 where s1: "register_placeholder_corruption P G p s = (Inr (), s1)"
    and rest: "register_corruptions P G ps s1 = (Inr (), t)"
    by (auto split: prod.splits sum.splits)
  have "db_inv s1 \<and> pending_set s1 = insert p (pending_set s)"
    by (rule register_corruption_pending [OF Cons.prems(1) s1])
  with Cons.IH [OF _ rest] show ?case by auto
qed simp

lemma register_record_pending:
  assumes "db_inv s" and "register_record G at_head item s = Inr t"
  shows "db_inv t \<and> pending_set t = insert (edit_path item) (pending_set s)"
proof -
  obtain r where "t = insert_record r s" "cr_path r = edit_path item" "cr_status r = Pending"
    using assms(2)
    by (auto simp: register_record_def upsert_conflict_def upsert_conflict_fingerprinted_def rbind_eq_Inr
        split: option.splits prod.splits)
  then show ?thesis using insert_record_pending [OF assms(1), of r] by simp
qed

lemma register_items_pending:
  assumes "db_inv s" and "register_items G at_head items s = (Inr (), t)"
  shows "db_inv t \<and> pending_set t = pending_set s \<union> edit_path ` set items"
  using assms
proof (induction items arbitrary: s)
  case (Cons item items)
  from Cons.prems(2) obtain s1 where s1: "register_record G at_head item s = Inr s1"
    and rest: "register_items G at_head items s1 = (Inr (), t)"
    by (auto split: sum.splits)
  have "db_inv s1 \<and> pending_set s1 = insert (edit_path item) (pending_set s)"
    by (rule register_record_pending [OF Cons.prems(1) s1])
  with Cons.IH [OF _ rest] show ?case by auto
qed simp

lemma register_conflicts_pending:
  assumes "db_inv s" and "register_and_write_conflicts fmt G items s = (Inr paths, t)"
  shows "db_inv t \<and> pending_set t = pending_set s \<union> edit_path ` set items"
proof -
  from assms(2) obtain at_head where "register_items G at_head items s = (Inr (), t)"
    by (auto simp: register_and_write_conflicts_def Let_def split: sum.splits prod.splits)
  with assms(1) show ?thesis by (rule register_items_pending)
qed

text \<open>
  C27. What a registering pass blocks stays blocked. When a pass that registers conflicts
  completes, the pending conflicts in the client database are exactly the paths it blocked, old,
  newly detected and corrupted placeholders, so the next pass blocks them again. A pass that does
  not register leaves the database as it was.
\<close>

theorem gate_registers_blocked:
  assumes "negotiate_sync_with_conflict_gate P E G local register s = (Inr (resp, blocked, head), s')"
    and "db_inv s"
  shows "db_inv s' \<and> (if register then set (list_pending_conflict_paths s') = blocked
    else s' = s \<and> set (list_pending_conflict_paths s) \<subseteq> blocked)"
proof -
  obtain D where "gate_block P (format_version E) G register D (list_pending_conflict_paths s) s = (Inr blocked, s')"
    using assms(1) by (auto simp: negotiate_sync_with_conflict_gate_def Let_def split: sum.splits prod.splits)
  then obtain corrupt t where bl: "blocked = pending_set s \<union> set corrupt \<union> edit_path ` set D"
    and det: "(if register then detect_placeholder_corruptions G s else Inr []) = Inr corrupt"
    and reg: "register_corruptions P G corrupt s = (Inr (), t)"
    and conf: "if register \<and> D \<noteq> [] then register_and_write_conflicts (format_version E) G D t = (Inr (edit_path ` set D), s') else s' = t"
    by (rule gate_block_Inr) blast
  note t = register_corruptions_pending [OF assms(2) reg]
  show ?thesis
  proof (cases "register \<and> D \<noteq> []")
    case True
    with conf t register_conflicts_pending [of t "format_version E" G D _ s'] have
      "db_inv s' \<and> pending_set s' = pending_set t \<union> edit_path ` set D" by simp
    with t bl True show ?thesis by auto
  next
    case False
    with conf have "s' = t" by (simp split: if_splits)
    moreover have "corrupt = []" "t = s" if "\<not> register" using that det reg by auto
    ultimately show ?thesis using t bl False assms(2) by auto
  qed
qed

section \<open>Worked example\<close>

text \<open>
  Both sides edited \<open>a\<close>; the remote side edited \<open>b\<close>; the local side has a new file \<open>C\<close> and the
  remote side a new file \<open>c\<close>. The paths \<open>a\<close> and \<open>c\<close> are blocked, \<open>b\<close> is downloaded, \<open>C\<close> is uploaded.
\<close>

definition gate_local :: files where
  "gate_local = [(''a'', plan_state ''a'' ''1''), (''b'', plan_state ''b'' ''0''), (''C'', plan_state ''C'' ''5'')]"

definition gate_server :: files where
  "gate_server = [(''a'', plan_state ''a'' ''2''), (''b'', plan_state ''b'' ''3''), (''c'', plan_state ''c'' ''4'')]"

definition gate_change :: "string \<Rightarrow> string option \<Rightarrow> tree_change" where
  "gate_change p before = \<lparr>tc_path = p, tc_kind = Modified,
     tc_before = map_option (\<lambda>h. \<lparr>te_name = p, te_kind = tree_entry_kind.File, te_hash = h, te_size = 1, te_mode = 420\<rparr>) before,
     tc_after = None\<rparr>"

definition gate_local_changes :: "tree_change list" where
  "gate_local_changes = [gate_change ''C'' None, gate_change ''a'' (Some ''0'')]"

definition gate_remote_changes :: "tree_change list" where
  "gate_remote_changes = [gate_change ''a'' (Some ''0''), gate_change ''b'' (Some ''0''), gate_change ''c'' None]"

definition gate_engine :: "unit snapshot_engine" where
  "gate_engine = \<lparr>last_synced_id = Inr (Some ''s''), load_files = \<lambda>_. Inr gate_server,
     diff_file_view = \<lambda>_ view. Inr (if view = gate_local then gate_local_changes else gate_remote_changes),
     format_version = 3\<rparr>"

definition gate_sample_env :: "unit gate_env" where
  "gate_sample_env = \<lparr>get_head = Inr (Some ''h''), peek_sync = Inl (), placeholder_stat = \<lambda>_. None,
     save_placeholder = \<lambda>_. Inr (), write_conflict_triple = \<lambda>_. Inr (), write_manifest = \<lambda>_. Inr (),
     snapshot_root = \<lambda>_. Some ''r'', identity_fingerprint = \<lambda>_ _ item. edit_path item,
     sidecar_written = \<lambda>_. True, state_written = \<lambda>_. True, conflict_dir = ''d'', timestamp = 7\<rparr>"

definition gate_response :: sync_response where
  "gate_response = \<lparr>upload_required = [''C''], download_required = [plan_state ''b'' ''3''], delete_local = []\<rparr>"

lemma gate_example:
  "\<exists>s'. negotiate_sync_with_conflict_gate sample_prims gate_engine gate_sample_env gate_local True
      (local_state_default :: nat local_state) = (Inr (gate_response, {''a'', ''c''}, Some ''h''), s')"
proof -
  have "fst (negotiate_sync_with_conflict_gate sample_prims gate_engine gate_sample_env gate_local True
      (local_state_default :: nat local_state)) = Inr (gate_response, {''a'', ''c''}, Some ''h'')"
    by code_simp
  then show ?thesis by (metis prod.collapse)
qed

lemma gate_example_inputs:
  "pass_inputs gate_engine gate_sample_env gate_local sample_base (Some ''h'') gate_server
     gate_local_changes gate_remote_changes"
  "exact_diff sample_base gate_local gate_local_changes"
  "exact_diff sample_base gate_server gate_remote_changes"
  by (auto simp: pass_inputs_def load_server_view_with_head_def gate_engine_def gate_sample_env_def
      gate_server_def gate_local_def keys_match_def plan_state_def diff_before_def covers_def exact_diff_def
      gate_local_changes_def gate_remote_changes_def gate_change_def sample_base_def)


lemma sample_safe: "is_safe_rel_path sample_prims ''b''"
  by code_simp

theorem gate_converges_witness:
  "\<exists>resp blocked head s'. negotiate_sync_with_conflict_gate sample_prims gate_engine gate_sample_env gate_local True
      (local_state_default :: nat local_state) = (Inr (resp, blocked, head), s')
    \<and> local_after resp gate_local gate_server ''b'' = visible gate_server ''b''"
proof -
  obtain s' where run: "negotiate_sync_with_conflict_gate sample_prims gate_engine gate_sample_env gate_local True
      (local_state_default :: nat local_state) = (Inr (gate_response, {''a'', ''c''}, Some ''h''), s')"
    using gate_example by blast
  have "visible gate_local ''b'' = sample_base ''b''"
    by (simp add: gate_local_def sample_base_def plan_state_def)
  with gate_converges [OF run gate_example_inputs sample_safe] run show ?thesis by auto
qed

theorem gate_no_case_collision_witness:
  "\<exists>resp blocked head s'. negotiate_sync_with_conflict_gate sample_prims gate_engine gate_sample_env gate_local True
      (local_state_default :: nat local_state) = (Inr (resp, blocked, head), s')
    \<and> plan_state ''b'' ''3'' \<in> set (download_required resp) \<and> \<not> paths_case_collide ''b'' ''C''"
proof -
  obtain s' where run: "negotiate_sync_with_conflict_gate sample_prims gate_engine gate_sample_env gate_local True
      (local_state_default :: nat local_state) = (Inr (gate_response, {''a'', ''c''}, Some ''h''), s')"
    using gate_example by blast
  have "plan_state ''b'' ''3'' \<in> set (download_required gate_response)" "''C'' \<in> fst ` set gate_local"
    "fs_path (plan_state ''b'' ''3'') = ''b''"
    by (simp_all add: gate_response_def gate_local_def plan_state_def)
  with gate_no_case_collision [OF run gate_example_inputs(1)] run show ?thesis by metis
qed

theorem gate_registers_blocked_witness:
  "\<exists>resp head s'. negotiate_sync_with_conflict_gate sample_prims gate_engine gate_sample_env gate_local True
      (local_state_default :: nat local_state) = (Inr (resp, {''a'', ''c''}, head), s')
    \<and> set (list_pending_conflict_paths s') = {''a'', ''c''}"
proof -
  obtain s' where run: "negotiate_sync_with_conflict_gate sample_prims gate_engine gate_sample_env gate_local True
      (local_state_default :: nat local_state) = (Inr (gate_response, {''a'', ''c''}, Some ''h''), s')"
    using gate_example by blast
  have "db_inv (local_state_default :: nat local_state)"
    by (simp add: db_inv_def registry_ok_def local_state_default_def)
  from gate_registers_blocked [OF run this] run show ?thesis by auto
qed

end
