(* ===== verification/Plan_Checks.thy ===== *)
theory Plan_Checks
  imports Conflict_Gate Tree_Build
begin

text \<open>
  Checks of a plan before it is carried out: a local change and a remote change must not meet as
  file and directory (\<^verbatim>\<open>agent-core/src/sync_pass/negotiate.rs\<close>), and the signs of a server that went
  back in time or of a collision that an upload left (\<^verbatim>\<open>agent-core/src/conflicts.rs\<close>).
\<close>

section \<open>Related paths\<close>

text \<open>The prefixes of a path that end before a slash, in the order \<^verbatim>\<open>match_indices\<close> finds them.\<close>

fun ancestors_from :: "string \<Rightarrow> string \<Rightarrow> string list" where
  "ancestors_from before [] = []"
| "ancestors_from before (c # cs) =
     (if c = CHR ''/'' then [before] else []) @ ancestors_from (before @ [c]) cs"

definition starts_with :: "string \<Rightarrow> string \<Rightarrow> bool" where
  "starts_with s prefix' \<longleftrightarrow> take (length prefix') s = prefix'"

text \<open>The paths are a \<^verbatim>\<open>BTreeSet\<close>: a strictly sorted list.\<close>

definition related_path :: "string list \<Rightarrow> string \<Rightarrow> string option" where
  "related_path paths path =
     (if path \<in> set paths then Some path
      else (case find (\<lambda>a. a \<in> set paths) (ancestors_from [] path) of
          Some ancestor \<Rightarrow> Some ancestor
        | None \<Rightarrow>
            (case find (\<lambda>q. path @ ''/'' \<le> q) paths of
               Some candidate \<Rightarrow> if starts_with candidate (path @ ''/'') then Some candidate else None
             | None \<Rightarrow> None)))"

datatype plan_error = HierarchyConflict string string | ProjectionCollision tree_error

definition remote_changes :: "sync_response \<Rightarrow> string list" where
  "remote_changes response = sort_dedup (map fs_path (download_required response) @ delete_local response)"

definition validate_cross_direction_structure :: "sync_response \<Rightarrow> plan_error + unit" where
  "validate_cross_direction_structure response =
     for_each (\<lambda>local_path.
       case related_path (remote_changes response) local_path of
         Some remote_path \<Rightarrow> Inl (HierarchyConflict local_path remote_path)
       | None \<Rightarrow> Inr ()) (upload_required response)"

text \<open>The local files after the plan; they have to form a tree.\<close>

definition projected :: "files \<Rightarrow> sync_response \<Rightarrow> files" where
  "projected local response =
     fold (\<lambda>file m. AList.update (fs_path file) file m) (download_required response)
       (fold AList.delete (delete_local response) local)"

definition validate_local_projection :: "prims \<Rightarrow> files \<Rightarrow> sync_response \<Rightarrow> plan_error + unit" where
  "validate_local_projection P local response =
     rbind (map_err ProjectionCollision (flat_to_tree P (projected local response))) (\<lambda>_. Inr ())"

section \<open>Signs of rollback and collision\<close>

definition regressed :: "(string \<rightharpoonup> file_state) \<Rightarrow> string \<times> file_state \<Rightarrow> bool" where
  "regressed server agreed =
     (\<not> fs_deleted (snd agreed)
      \<and> (case server (fst agreed) of
           Some remote \<Rightarrow> i64_less (fs_mtime remote) (fs_mtime (snd agreed)) \<and> fs_hash remote \<noteq> fs_hash (snd agreed)
         | None \<Rightarrow> False))"

text \<open>The number of regressed paths that the warning names; none when there is no warning.\<close>

definition detect_server_rollback :: "files \<Rightarrow> file_state list \<Rightarrow> nat option" where
  "detect_server_rollback last_synced server_files =
     (if last_synced = [] then None
      else (let server = map_of (rev (map (\<lambda>f. (fs_path f, f)) server_files));
                n = length (filter (regressed server) last_synced)
            in if n > 0 then Some n else None))"

definition detect_post_upload_collisions :: "files \<Rightarrow> files \<Rightarrow> files \<Rightarrow> string list \<Rightarrow> detected" where
  "detect_post_upload_collisions last_synced server local uploaded_paths =
     concat (map (\<lambda>path.
       case (map_of local path, map_of server path) of
         (Some l, Some remote) \<Rightarrow>
           if fs_hash remote \<noteq> fs_hash l
           then [(concurrent_edit_new path (map_of last_synced path) (Some l) (Some remote), EditEdit)]
           else []
       | _ \<Rightarrow> []) uploaded_paths)"

section \<open>The check is exact\<close>

definition related :: "string \<Rightarrow> string \<Rightarrow> bool" where
  "related p q \<longleftrightarrow> p = q \<or> (\<exists>r. p = q @ ''/'' @ r) \<or> (\<exists>r. q = p @ ''/'' @ r)"

lemma ancestors_from_iff:
  "a \<in> set (ancestors_from before cs) \<longleftrightarrow> (\<exists>x r. cs = x @ ''/'' @ r \<and> a = before @ x)"
proof (induction cs arbitrary: before)
  case (Cons c cs)
  have "(\<exists>x r. c # cs = x @ ''/'' @ r \<and> a = before @ x) \<longleftrightarrow>
      (c = CHR ''/'' \<and> a = before) \<or> (\<exists>x r. cs = x @ ''/'' @ r \<and> a = (before @ [c]) @ x)"
    (is "?l \<longleftrightarrow> ?r")
  proof
    assume ?l
    then obtain x r where x: "c # cs = x @ ''/'' @ r" "a = before @ x" by blast
    then show ?r by (cases x) auto
  next
    assume ?r
    then show ?l
    proof
      assume "c = CHR ''/'' \<and> a = before"
      then show ?l by (intro exI [of _ "[]"] exI [of _ cs]) simp
    next
      assume "\<exists>x r. cs = x @ ''/'' @ r \<and> a = (before @ [c]) @ x"
      then obtain x r where "cs = x @ ''/'' @ r" "a = (before @ [c]) @ x" by blast
      then show ?l by (intro exI [of _ "c # x"] exI [of _ r]) simp
    qed
  qed
  moreover have "a \<in> set (ancestors_from before (c # cs)) \<longleftrightarrow>
      (c = CHR ''/'' \<and> a = before) \<or> a \<in> set (ancestors_from (before @ [c]) cs)" by auto
  ultimately show ?case unfolding Cons.IH by blast
qed simp

lemma starts_with_iff: "starts_with s d \<longleftrightarrow> (\<exists>r. s = d @ r)"
  by (metis append_eq_conv_conj append_take_drop_id starts_with_def)

text \<open>The strings that start with \<open>d\<close> are an interval of the order, from \<open>d\<close> on.\<close>

lemma prefix_le: "(d :: string) \<le> d @ r"
  by (induction d) (simp_all add: Nil_le_Cons)

lemma prefix_interval: "(d :: string) \<le> y \<Longrightarrow> y \<le> d @ r \<Longrightarrow> starts_with y d"
proof (induction d arbitrary: y)
  case (Cons c d)
  then show ?case by (cases y) (auto simp: starts_with_def)
qed (simp add: starts_with_def)

lemma sorted_find_first:
  assumes "sorted_wrt (<) (xs :: string list)" and "find (\<lambda>q. d \<le> q) xs = Some y" and "x \<in> set xs" and "d \<le> x"
  shows "y \<le> x"
  using assms by (induction xs) (auto split: if_splits simp: less_imp_le)

lemma find_descendant:
  assumes "sorted_wrt (<) paths"
  shows "(\<exists>q\<in>set paths. starts_with q d) \<longleftrightarrow> (\<exists>y. find (\<lambda>q. d \<le> q) paths = Some y \<and> starts_with y d)"
proof
  assume "\<exists>q\<in>set paths. starts_with q d"
  then obtain r where q: "d @ r \<in> set paths" by (auto simp: starts_with_iff)
  then obtain y where y: "find (\<lambda>q. d \<le> q) paths = Some y"
    using prefix_le [of d r] by (cases "find (\<lambda>q. d \<le> q) paths") (auto simp: find_None_iff)
  then have "d \<le> y" by (auto simp: find_Some_iff)
  moreover have "y \<le> d @ r" by (rule sorted_find_first [OF assms y q prefix_le])
  ultimately show "\<exists>y. find (\<lambda>q. d \<le> q) paths = Some y \<and> starts_with y d" using y prefix_interval by blast
next
  assume "\<exists>y. find (\<lambda>q. d \<le> q) paths = Some y \<and> starts_with y d"
  then show "\<exists>q\<in>set paths. starts_with q d" by (auto simp: find_Some_iff)
qed

lemma related_path_exact:
  assumes "sorted_wrt (<) paths"
  shows "(related_path paths path = None \<longleftrightarrow> (\<forall>q\<in>set paths. \<not> related path q))
    \<and> (\<forall>q. related_path paths path = Some q \<longrightarrow> q \<in> set paths \<and> related path q)"
proof -
  let ?anc = "find (\<lambda>a. a \<in> set paths) (ancestors_from [] path)"
  have anc: "?anc \<noteq> None \<longleftrightarrow> (\<exists>q\<in>set paths. \<exists>r. path = q @ ''/'' @ r)"
    by (auto simp: find_None_iff ancestors_from_iff)
  have ancS: "q \<in> set paths \<and> (\<exists>r. path = q @ ''/'' @ r)" if "?anc = Some q" for q
  proof -
    from that have "q \<in> set (ancestors_from [] path)" "q \<in> set paths" by (auto simp: find_Some_iff)
    then show ?thesis by (auto simp: ancestors_from_iff)
  qed
  have desc: "(\<exists>y. find (\<lambda>q. path @ ''/'' \<le> q) paths = Some y \<and> starts_with y (path @ ''/''))
      \<longleftrightarrow> (\<exists>q\<in>set paths. \<exists>r. q = path @ ''/'' @ r)"
    unfolding find_descendant [OF assms, symmetric] unfolding starts_with_iff by simp
  have descS: "y \<in> set paths" if "find (\<lambda>q. path @ ''/'' \<le> q) paths = Some y" for y
    using that by (auto simp: find_Some_iff)
  have "related_path paths path = None \<longleftrightarrow> path \<notin> set paths \<and> ?anc = None
      \<and> \<not> (\<exists>y. find (\<lambda>q. path @ ''/'' \<le> q) paths = Some y \<and> starts_with y (path @ ''/''))"
    unfolding related_path_def by (simp split: option.split)
  also have "\<dots> \<longleftrightarrow> (\<forall>q\<in>set paths. \<not> related path q)"
    unfolding desc related_def using anc by blast
  finally have none: "related_path paths path = None \<longleftrightarrow> (\<forall>q\<in>set paths. \<not> related path q)" .
  have "q \<in> set paths \<and> related path q" if "related_path paths path = Some q" for q
    using that ancS descS unfolding related_path_def related_def
    by (auto simp: starts_with_iff split: if_splits option.splits)
  with none show ?thesis by blast
qed

text \<open>
  C28. A plan passes the structure check exactly when no uploaded path is equal to, an ancestor of
  or a descendant of a path that is downloaded or deleted; a reported pair is such a pair. The
  check looks at one successor in the order for the descendants, and that is enough.
\<close>

theorem cross_direction_exact:
  "(validate_cross_direction_structure response = Inr () \<longleftrightarrow>
     (\<forall>p\<in>set (upload_required response). \<forall>q\<in>fs_path ` set (download_required response) \<union> set (delete_local response).
        \<not> related p q))
   \<and> (\<forall>p q. validate_cross_direction_structure response = Inl (HierarchyConflict p q) \<longrightarrow>
        p \<in> set (upload_required response) \<and> related p q
        \<and> q \<in> fs_path ` set (download_required response) \<union> set (delete_local response))"
proof -
  let ?R = "remote_changes response"
  let ?f = "\<lambda>local_path. case related_path ?R local_path of
       Some remote_path \<Rightarrow> Inl (HierarchyConflict local_path remote_path) | None \<Rightarrow> Inr ()"
  have sorted: "sorted_wrt (<) ?R" unfolding remote_changes_def by (rule sort_dedup_strict)
  have set_R: "set ?R = fs_path ` set (download_required response) \<union> set (delete_local response)"
    by (simp add: remote_changes_def)
  note exact = related_path_exact [OF sorted]
  have "?f p = Inr () \<longleftrightarrow> (\<forall>q\<in>set ?R. \<not> related p q)" for p
    using exact [of p] by (cases "related_path ?R p") auto
  then have ok: "validate_cross_direction_structure response = Inr () \<longleftrightarrow>
      (\<forall>p\<in>set (upload_required response). \<forall>q\<in>set ?R. \<not> related p q)"
    by (simp add: validate_cross_direction_structure_def for_each_eq_Inr)
  have err: "p \<in> set xs \<and> related_path ?R p = Some q"
    if "for_each ?f xs = Inl (HierarchyConflict p q)" for xs p q
    using that by (induction xs) (auto simp: rbind_eq_Inl split: option.splits)
  have "p \<in> set (upload_required response) \<and> related p q \<and> q \<in> set ?R"
    if "validate_cross_direction_structure response = Inl (HierarchyConflict p q)" for p q
    using err [of "upload_required response" p q] that exact [of p]
    unfolding validate_cross_direction_structure_def by blast
  with ok show ?thesis unfolding set_R by blast
qed

theorem cross_direction_exact_witness:
  "let response = \<lparr>upload_required = [''x'', ''a/b''], download_required = [plan_state ''a'' ''1''], delete_local = [''d'']\<rparr>
   in validate_cross_direction_structure response = Inl (HierarchyConflict ''a/b'' ''a'') \<and> related ''a/b'' ''a''"
proof -
  let ?r = "\<lparr>upload_required = [''x'', ''a/b''], download_required = [plan_state ''a'' ''1''], delete_local = [''d'']\<rparr>"
  have "validate_cross_direction_structure ?r = Inl (HierarchyConflict ''a/b'' ''a'')" by code_simp
  with cross_direction_exact [of ?r] show ?thesis unfolding Let_def by blast
qed

end
