(* ===== verification/Copy_Names.thy ===== *)
theory Copy_Names
  imports Portable
begin

text \<open>
  Names of conflict copies (\<^verbatim>\<open>agent-core/src/conflicts.rs\<close>, from \<^verbatim>\<open>sanitize_copy_path\<close> to
  \<^verbatim>\<open>allocate_conflict_copy_name\<close>). A string is cut into its characters, each a scalar value with the
  bytes that encode it; Unicode normalisation and case folding are parameters.
\<close>

section \<open>Characters with their bytes\<close>

type_synonym character = "nat \<times> bytes"

function utf8_slices :: "string \<Rightarrow> character list" where
  "utf8_slices s =
     (if s = [] then []
      else case utf8_next s of
        None \<Rightarrow> (of_char (hd s), [hd s]) # utf8_slices (tl s)
      | Some (v, r) \<Rightarrow> (v, take (length s - length r) s) # utf8_slices r)"
  by pat_completeness auto
termination
  by (relation "measure length") (auto dest: utf8_next_shorter)

declare utf8_slices.simps [simp del]

definition text_of :: "character list \<Rightarrow> string" where
  "text_of cs = concat (map snd cs)"

abbreviation underscore :: character where
  "underscore \<equiv> (95, ''_'')"

section \<open>Sanitised names\<close>

definition copy_reserved_stems :: "string list" where
  "copy_reserved_stems =
     [''CON'', ''PRN'', ''AUX'', ''NUL'', ''COM1'', ''COM2'', ''COM3'', ''COM4'', ''COM5'', ''COM6'', ''COM7'',
      ''COM8'', ''COM9'', ''LPT1'', ''LPT2'', ''LPT3'', ''LPT4'', ''LPT5'', ''LPT6'', ''LPT7'', ''LPT8'', ''LPT9'']"

definition copy_suffix_room :: nat where "copy_suffix_room = 32"

text \<open>The characters of the Rust literal, slash and backslash first, as scalar values.\<close>

definition copy_replaced_characters :: "nat list" where
  "copy_replaced_characters = [47, 92, 58, 124, 42, 63, 34, 60, 62]"

definition flush_component :: "character list \<Rightarrow> character list \<Rightarrow> character list" where
  "flush_component component out =
     (if component = [] then out
      else (let component' = take max_portable_component_bytes component;
                stem = map ascii_upper (hd (split_on (CHR ''.'') (text_of component')))
            in out @ (if stem \<in> set copy_reserved_stems then [underscore] else []) @ component'))"

fun sanitize_loop :: "character list \<Rightarrow> character list \<Rightarrow> character list \<Rightarrow> character list" where
  "sanitize_loop [] component out = flush_component component out"
| "sanitize_loop (c # cs) component out =
     (if is_control (fst c) \<or> fst c \<in> set copy_replaced_characters
      then sanitize_loop cs [] (flush_component component out @ [underscore])
      else sanitize_loop cs (component @ [c]) out)"

definition sanitize_copy_path :: "string \<Rightarrow> string" where
  "sanitize_copy_path path =
     (let out = sanitize_loop (utf8_slices path) [] [];
          out' = (if out = [] then [underscore] else out)
      in text_of (take (max_portable_path_bytes - copy_suffix_room) out'))"

section \<open>Allocation\<close>

definition normalize_copy_name :: "prims \<Rightarrow> string \<Rightarrow> string" where
  "normalize_copy_name P name = to_lowercase P (nfc P name)"

fun decimal :: "nat \<Rightarrow> string" where
  "decimal n = (if n < 10 then [char_of (48 + n)] else decimal (n div 10) @ [char_of (48 + n mod 10)])"

declare decimal.simps [simp del]

definition copy_candidate :: "string \<Rightarrow> nat \<Rightarrow> string" where
  "copy_candidate path number =
     sanitize_copy_path path @ '' (conflicted copy'' @ '' '' @ decimal number @ '')''"

definition copy_available :: "prims \<Rightarrow> (string \<Rightarrow> bool) \<Rightarrow> string list \<Rightarrow> string \<Rightarrow> bool" where
  "copy_available P exists occupied candidate =
     (is_safe_rel_path P candidate \<and> length candidate \<le> max_portable_path_bytes
      \<and> normalize_copy_name P candidate \<notin> set (map (normalize_copy_name P) occupied)
      \<and> \<not> exists candidate)"

datatype copy_error = NoCopyName string

definition copy_numbers :: "nat list" where "copy_numbers = [1..<10001]"

lemma set_copy_numbers: "set copy_numbers = {1..10000}"
  by (auto simp: copy_numbers_def)

text \<open>\<open>exists\<close> is whether the workspace has a file of that name.\<close>

definition allocate_conflict_copy_name ::
  "prims \<Rightarrow> (string \<Rightarrow> bool) \<Rightarrow> string \<Rightarrow> string list \<Rightarrow> copy_error + string" where
  "allocate_conflict_copy_name P exists path occupied =
     (case find (\<lambda>number. copy_available P exists occupied (copy_candidate path number)) copy_numbers of
        Some number \<Rightarrow> Inr (copy_candidate path number)
      | None \<Rightarrow> Inl (NoCopyName path))"

section \<open>What an allocated name is\<close>

text \<open>A slash is only in the bytes of the character slash.\<close>

lemma utf8_next_slash:
  assumes "utf8_next s = Some (v, r)" and "CHR ''/'' \<in> set (take (length s - length r) s)"
  shows "v = 47"
proof -
  have ascii: "CHR ''/'' = a \<Longrightarrow> (of_char a :: nat) = 47" for a :: char by auto
  show ?thesis using assms
    by (auto simp: utf8_next_def take_Cons' split: list.splits if_splits dest!: ascii)
qed

lemma slices_slash: "(v, b) \<in> set (utf8_slices s) \<Longrightarrow> CHR ''/'' \<in> set b \<Longrightarrow> v = 47"
proof (induction s rule: utf8_slices.induct)
  case (1 s)
  show ?case
  proof (cases "s = [] \<or> utf8_next s = None")
    case True
    have "CHR ''/'' = hd s \<Longrightarrow> (of_char (hd s) :: nat) = 47" by (drule sym) simp
    with True 1 show ?thesis by (subst (asm) (3) utf8_slices.simps) (auto split: option.splits if_splits)
  next
    case False
    then obtain u r where "utf8_next s = Some (u, r)" by auto
    with 1 False show ?thesis
      by (subst (asm) (3) utf8_slices.simps) (auto dest: utf8_next_slash)
  qed
qed

definition no_slash :: "character list \<Rightarrow> bool" where
  "no_slash cs \<longleftrightarrow> (\<forall>c\<in>set cs. CHR ''/'' \<notin> set (snd c))"

lemma no_slash_simps [simp]:
  "no_slash []" "no_slash (c # cs) \<longleftrightarrow> CHR ''/'' \<notin> set (snd c) \<and> no_slash cs"
  "no_slash (cs @ ds) \<longleftrightarrow> no_slash cs \<and> no_slash ds"
  by (auto simp: no_slash_def)

lemma no_slash_take: "no_slash cs \<Longrightarrow> no_slash (take n cs)"
  by (auto simp: no_slash_def dest: in_set_takeD)

lemma no_slash_flush: "no_slash component \<Longrightarrow> no_slash out \<Longrightarrow> no_slash (flush_component component out)"
  by (simp add: flush_component_def Let_def no_slash_take)

lemma sanitize_loop_no_slash:
  "\<forall>(v, b)\<in>set cs. CHR ''/'' \<in> set b \<longrightarrow> v = 47 \<Longrightarrow> no_slash component \<Longrightarrow> no_slash out
   \<Longrightarrow> no_slash (sanitize_loop cs component out)"
  by (induction cs component out rule: sanitize_loop.induct)
    (auto simp: no_slash_flush copy_replaced_characters_def)

lemma sanitized_no_slash: "CHR ''/'' \<notin> set (sanitize_copy_path path)"
proof -
  have "no_slash (sanitize_loop (utf8_slices path) [] [])"
    by (rule sanitize_loop_no_slash) (auto dest: slices_slash)
  then have "no_slash (take n (if sanitize_loop (utf8_slices path) [] [] = [] then [underscore]
      else sanitize_loop (utf8_slices path) [] []))" for n
    by (intro no_slash_take) simp
  then show ?thesis by (auto simp: sanitize_copy_path_def Let_def text_of_def no_slash_def)
qed

lemma decimal_no_slash: "CHR ''/'' \<notin> set (decimal n)"
proof (induction n rule: decimal.induct)
  case (1 n)
  have digit: "char_of (48 + d) \<noteq> CHR ''/''" if "d < 10" for d :: nat
  proof
    assume "char_of (48 + d) = CHR ''/''"
    then have "(of_char (char_of (48 + d)) :: nat) = 47" by simp
    with that show False by simp
  qed
  show ?case using 1 digit [of n] digit [of "n mod 10"] by (subst decimal.simps) auto
qed

lemma candidate_no_slash: "CHR ''/'' \<notin> set (copy_candidate path n)"
  using sanitized_no_slash [of path] decimal_no_slash [of n] by (auto simp: copy_candidate_def)

text \<open>
  An allocated copy name is a portable path of a single component that does not collide, under
  normalisation and case folding, with any occupied name or with a file of the workspace; it is
  the first such name of its series. Allocation fails only when all ten thousand names of the
  series are unavailable.
\<close>

theorem copy_name_available:
  "(\<forall>name. allocate_conflict_copy_name P exists path occupied = Inr name \<longrightarrow>
      is_safe_rel_path P name \<and> CHR ''/'' \<notin> set name \<and> \<not> exists name
      \<and> normalize_copy_name P name \<notin> normalize_copy_name P ` set occupied
      \<and> (\<exists>n\<in>{1..10000}. name = copy_candidate path n
          \<and> (\<forall>k\<in>{1..<n}. \<not> copy_available P exists occupied (copy_candidate path k))))
   \<and> ((\<exists>e. allocate_conflict_copy_name P exists path occupied = Inl e) \<longleftrightarrow>
      (\<forall>n\<in>{1..10000}. \<not> copy_available P exists occupied (copy_candidate path n)))"
proof (intro conjI allI impI)
  fix name assume "allocate_conflict_copy_name P exists path occupied = Inr name"
  then obtain n where f: "find (\<lambda>number. copy_available P exists occupied (copy_candidate path number)) copy_numbers = Some n"
      and name: "name = copy_candidate path n"
    by (auto simp: allocate_conflict_copy_name_def split: option.splits)
  then obtain i where i: "i < length copy_numbers" "copy_available P exists occupied (copy_candidate path n)"
    "n = copy_numbers ! i" "\<forall>j<i. \<not> copy_available P exists occupied (copy_candidate path (copy_numbers ! j))"
    unfolding find_Some_iff by blast
  then have n: "n = Suc i" "i < 10000" by (simp_all add: copy_numbers_def)
  have first: "\<not> copy_available P exists occupied (copy_candidate path k)" if "k \<in> {1..<n}" for k
  proof -
    from that n have "k - 1 < i" "copy_numbers ! (k - 1) = k" by (auto simp: copy_numbers_def)
    with i(4) show ?thesis by metis
  qed
  show "is_safe_rel_path P name" "\<not> exists name" "normalize_copy_name P name \<notin> normalize_copy_name P ` set occupied"
    "CHR ''/'' \<notin> set name"
    using i(2) candidate_no_slash unfolding name copy_available_def by auto
  show "\<exists>n\<in>{1..10000}. name = copy_candidate path n
          \<and> (\<forall>k\<in>{1..<n}. \<not> copy_available P exists occupied (copy_candidate path k))"
    using name n first by (intro bexI [of _ n]) auto
next
  have "(\<exists>e. allocate_conflict_copy_name P exists path occupied = Inl e) \<longleftrightarrow>
      (\<forall>n\<in>set copy_numbers. \<not> copy_available P exists occupied (copy_candidate path n))"
  proof (cases "find (\<lambda>number. copy_available P exists occupied (copy_candidate path number)) copy_numbers")
    case None
    then have "\<forall>n\<in>set copy_numbers. \<not> copy_available P exists occupied (copy_candidate path n)"
      by (simp add: find_None_iff)
    with None show ?thesis unfolding allocate_conflict_copy_name_def by simp
  next
    case (Some n)
    then have "n \<in> set copy_numbers" "copy_available P exists occupied (copy_candidate path n)"
      unfolding find_Some_iff by (metis nth_mem)+
    with Some show ?thesis unfolding allocate_conflict_copy_name_def by auto
  qed
  then show "(\<exists>e. allocate_conflict_copy_name P exists path occupied = Inl e) \<longleftrightarrow>
      (\<forall>n\<in>{1..10000}. \<not> copy_available P exists occupied (copy_candidate path n))"
    by (simp only: set_copy_numbers)
qed

definition copy_occupied :: "string list" where
  "copy_occupied = [''a_b (CONFLICTED copy 1)'']"

theorem copy_name_available_witness:
  "let r = allocate_conflict_copy_name sample_prims (\<lambda>_. False) ''a/b'' copy_occupied
   in r = Inr ''a_b (conflicted copy 2)'' \<and> is_safe_rel_path sample_prims ''a_b (conflicted copy 2)''"
proof -
  have "\<not> copy_available sample_prims (\<lambda>_. False) copy_occupied (copy_candidate ''a/b'' 1)"
    "copy_available sample_prims (\<lambda>_. False) copy_occupied (copy_candidate ''a/b'' 2)"
    "copy_candidate ''a/b'' 2 = ''a_b (conflicted copy 2)''"
    by code_simp+
  moreover obtain rest where nums: "copy_numbers = 1 # 2 # rest"
  proof -
    have "[1..<10001] = 1 # [Suc 1..<10001]" "[Suc 1..<10001] = Suc 1 # [Suc (Suc 1)..<10001]"
      by (rule upt_conv_Cons, simp)+
    then show ?thesis using that unfolding copy_numbers_def by (metis Suc_1)
  qed
  ultimately have "allocate_conflict_copy_name sample_prims (\<lambda>_. False) ''a/b'' copy_occupied
      = Inr ''a_b (conflicted copy 2)''"
    unfolding allocate_conflict_copy_name_def nums by simp
  with copy_name_available [of sample_prims "\<lambda>_. False" "''a/b''" copy_occupied] show ?thesis
    unfolding Let_def by blast
qed

section \<open>Long names have no copy\<close>

lemma decimal_nonempty: "decimal n \<noteq> []"
  by (subst decimal.simps) simp

lemma long_candidate_unsafe:
  assumes "235 < length (sanitize_copy_path path)"
  shows "\<not> is_safe_rel_path P (copy_candidate path n)"
proof
  assume "is_safe_rel_path P (copy_candidate path n)"
  then have "is_safe_component (copy_candidate path n)"
    using candidate_no_slash by (rule is_safe_rel_path_single)
  then have "length (copy_candidate path n) \<le> 255"
    by (simp add: is_safe_component_def max_portable_component_bytes_def)
  moreover have "0 < length (decimal n)" using decimal_nonempty by simp
  ultimately show False using assms by (simp add: copy_candidate_def)
qed

text \<open>A long name of one plain letter is portable and is its own sanitised form.\<close>

lemma slices_ascii: "list_all is_ascii s \<Longrightarrow> utf8_slices s = map (\<lambda>c. (of_char c, [c])) s"
proof (induction s)
  case (Cons c s)
  then show ?case by (subst utf8_slices.simps) (simp add: utf8_next_def is_ascii_def)
qed (simp add: utf8_slices.simps)

lemma sanitize_loop_plain:
  "\<forall>c\<in>set cs. \<not> is_control (fst c) \<and> fst c \<notin> set copy_replaced_characters
    \<Longrightarrow> sanitize_loop cs component out = flush_component (component @ cs) out"
  by (induction cs arbitrary: component) auto

lemma long_name_sanitized:
  assumes "10 \<le> n" and "n \<le> 255"
  shows "sanitize_copy_path (replicate n (CHR ''a'')) = replicate n (CHR ''a'')"
proof -
  let ?s = "replicate n (CHR ''a'')"
  let ?cs = "replicate n (97 :: nat, ''a'')"
  have slices: "utf8_slices ?s = ?cs" by (subst slices_ascii) (simp_all add: list_all_iff is_ascii_def)
  have bytes: "text_of ?cs = ?s"
    by (simp add: text_of_def)
  have "hd (split_on (CHR ''.'') ?s) = ?s" by (simp add: split_on_single)
  moreover have "map ascii_upper ?s \<notin> set copy_reserved_stems"
    using assms(1) by (auto simp: copy_reserved_stems_def dest!: arg_cong [where f = length])
  ultimately have flush: "flush_component ?cs [] = ?cs"
    using assms by (simp add: flush_component_def Let_def max_portable_component_bytes_def bytes)
  have "sanitize_loop ?cs [] [] = ?cs"
    by (subst sanitize_loop_plain) (auto simp: is_control_def copy_replaced_characters_def flush)
  then show ?thesis
    using assms bytes by (simp add: sanitize_copy_path_def Let_def slices max_portable_path_bytes_def copy_suffix_room_def)
qed

lemma long_name_safe:
  assumes "10 \<le> n" and "n \<le> 255"
  shows "is_safe_rel_path sample_prims (replicate n (CHR ''a''))"
proof -
  let ?s = "replicate n (CHR ''a'')"
  have ne: "?s \<noteq> t" if "length t < 10" for t
    using that assms(1) by (metis length_replicate not_le)
  have low: "\<not> eq_ignore_ascii_case ?s t" if "length t < 10" for t
    using that assms(1) unfolding eq_ignore_ascii_case_def by (metis length_map length_replicate not_le)
  have "map ascii_upper ?s \<notin> set windows_reserved_stems"
    using assms(1) by (auto simp: windows_reserved_stems_def superscripts_def dest!: arg_cong [where f = length])
  then have "\<not> is_windows_reserved_component ?s"
    by (simp add: is_windows_reserved_component_def split_on_single)
  moreover have "chars ?s = replicate n 97"
    by (simp add: chars_def utf8_chars_ascii list_all_iff is_ascii_def)
  ultimately have "is_safe_component ?s"
    using assms ne low
    by (simp add: is_safe_component_def max_portable_component_bytes_def forbidden_characters_def is_control_def)
  then show ?thesis
    using assms by (simp add: is_safe_rel_path_def split_on_single max_portable_path_bytes_def sample_prims_def)
qed

text \<open>
  The allocator has no name for a path whose sanitised form is longer than 235 bytes: the
  sanitised path is one component, and every candidate exceeds the limit of a component, even in
  an empty workspace. Portable paths reach that length.
\<close>

theorem copy_name_long_path_fails:
  "(235 < length (sanitize_copy_path path) \<longrightarrow>
      allocate_conflict_copy_name P exists path occupied = Inl (NoCopyName path))
   \<and> (\<exists>path. is_safe_rel_path sample_prims path \<and> 235 < length (sanitize_copy_path path))"
proof
  show "235 < length (sanitize_copy_path path) \<longrightarrow>
      allocate_conflict_copy_name P exists path occupied = Inl (NoCopyName path)"
  proof
    assume "235 < length (sanitize_copy_path path)"
    then have "find (\<lambda>number. copy_available P exists occupied (copy_candidate path number)) copy_numbers = None"
      unfolding find_None_iff copy_available_def using long_candidate_unsafe by blast
    then show "allocate_conflict_copy_name P exists path occupied = Inl (NoCopyName path)"
      by (simp add: allocate_conflict_copy_name_def)
  qed
  have "10 \<le> (240 :: nat)" "(240 :: nat) \<le> 255" "235 < (240 :: nat)" by simp_all
  then show "\<exists>path. is_safe_rel_path sample_prims path \<and> 235 < length (sanitize_copy_path path)"
    using long_name_safe [of 240] long_name_sanitized [of 240] by (intro exI [of _ "replicate 240 (CHR ''a'')"]) simp
qed

theorem copy_name_long_path_fails_witness:
  "allocate_conflict_copy_name sample_prims (\<lambda>_. False) (replicate 240 (CHR ''a'')) []
     = Inl (NoCopyName (replicate 240 (CHR ''a'')))"
proof -
  have "235 < length (sanitize_copy_path (replicate 240 (CHR ''a'')))"
    using long_name_sanitized [of 240] by simp
  then show ?thesis using copy_name_long_path_fails by blast
qed

end
