(* ===== verification/Hub_Db.thy ===== *)
theory Hub_Db
  imports Sync_Delta Stable_Sort Ordered_Map "HOL-Library.Product_Lexorder"
begin

text \<open>
  The hub's database (\<^verbatim>\<open>server/src/db.rs\<close>): the tables of files, heads, snapshot manifests, workspace
  formats and migration fences, and the statements on them. A table with a primary key is an
  association list with distinct keys, in the order in which a query without \<^verbatim>\<open>ORDER BY\<close> yields its
  rows; a transaction is one function. The theorems are about what these operations promise each
  other: heads move by compare-and-swap, manifests never change, fences exclude.
\<close>

section \<open>Tables\<close>

record file_row =
  fr_hash :: string
  fr_size :: i64
  fr_mtime :: i64
  fr_mode :: int
  fr_deleted :: bool
  fr_updated_at :: int

record manifest_row =
  mf_manifest :: bytes
  mf_created_at_ms :: int

record hub_db =
  db_files :: "((string \<times> string) \<times> file_row) list"
  db_heads :: "(string \<times> string) list"
  db_manifests :: "((string \<times> string) \<times> manifest_row) list"
  db_formats :: "(string \<times> nat) list"
  db_fences :: "(string \<times> string) list"

definition hub_db_new :: hub_db where
  "hub_db_new = \<lparr>db_files = [], db_heads = [], db_manifests = [], db_formats = [], db_fences = []\<rparr>"

definition max_workspace_manifests :: int where "max_workspace_manifests = 10000"
definition max_global_manifests :: int where "max_global_manifests = 100000"
definition max_workspace_manifest_storage_bytes :: int where
  "max_workspace_manifest_storage_bytes = 1024 * 1024 * 1024"
definition max_global_manifest_storage_bytes :: int where
  "max_global_manifest_storage_bytes = 8 * 1024 * 1024 * 1024"
definition max_stored_manifest_bytes :: nat where
  "max_stored_manifest_bytes = manifest_max_entries * 65"
definition max_manifest_bytes :: nat where "max_manifest_bytes = 64 * 1024 * 1024"

lemmas hub_limits = max_workspace_manifests_def max_global_manifests_def
  max_workspace_manifest_storage_bytes_def max_global_manifest_storage_bytes_def
  max_stored_manifest_bytes_def max_manifest_bytes_def

datatype head_swap = Swapped | SwapConflict "string option" | MissingManifest

datatype manifest_write_outcome = Stored | Unchanged | ManifestConflict | Capacity

datatype migration_write_outcome = Acquired | LockedByOther

datatype hub_error =
    InvalidHeadId
  | InvalidManifest manifest_error
  | ManifestTooLarge
  | ManifestNotUtf8
  | ManifestImmutable
  | CapacityReached
  | HeadNotManifested
  | MissingHeadManifest
  | ExpiredHead
  | HubSize size_conversion_error
  | BlobMetadata

lemma set_update_subset: "set (AList.update k v kvs) \<subseteq> insert (k, v) (set kvs)"
  by (induction kvs) auto

section \<open>Files\<close>

definition file_of_row :: "string \<Rightarrow> file_row \<Rightarrow> hub_error + file_state" where
  "file_of_row path r =
     rbind (map_err HubSize (file_size_from_db (fr_size r))) (\<lambda>size'.
     Inr \<lparr>fs_path = path, fs_hash = fr_hash r, fs_size = size', fs_mtime = fr_mtime r,
          fs_deleted = fr_deleted r,
          fs_mode = (if 0 \<le> fr_mode r \<and> fr_mode r < 2 ^ 32 then word_of_int (fr_mode r) else 0)\<rparr>)"

fun collect_results :: "('e + 'a) list \<Rightarrow> 'e + 'a list" where
  "collect_results [] = Inr []"
| "collect_results (r # rs) = rbind r (\<lambda>x. rbind (collect_results rs) (\<lambda>xs. Inr (x # xs)))"

definition get_workspace_files :: "string \<Rightarrow> hub_db \<Rightarrow> hub_error + file_state list" where
  "get_workspace_files ws db =
     collect_results (map (\<lambda>((_, path), r). file_of_row path r)
       (filter (\<lambda>((w, _), _). w = ws) (db_files db)))"

definition upsert_file :: "int \<Rightarrow> string \<Rightarrow> file_state \<Rightarrow> hub_db \<Rightarrow> hub_error + hub_db" where
  "upsert_file now ws f db =
     rbind (map_err HubSize (file_size_to_db (fs_size f))) (\<lambda>size'.
     Inr (db\<lparr>db_files := AList.update (ws, fs_path f)
        \<lparr>fr_hash = fs_hash f, fr_size = size', fr_mtime = fs_mtime f, fr_mode = uint (fs_mode f),
         fr_deleted = fs_deleted f, fr_updated_at = now\<rparr> (db_files db)\<rparr>))"

definition tombstone_existing_file ::
  "int \<Rightarrow> string \<Rightarrow> string \<Rightarrow> string \<Rightarrow> i64 \<Rightarrow> hub_db \<Rightarrow> bool \<times> hub_db" where
  "tombstone_existing_file now ws path hash mtime db =
     (if map_of (db_files db) (ws, path) = None then (False, db)
      else (True, db\<lparr>db_files := AList.update (ws, path)
        \<lparr>fr_hash = hash, fr_size = 0, fr_mtime = mtime, fr_mode = 0, fr_deleted = True,
         fr_updated_at = now\<rparr> (db_files db)\<rparr>))"

definition get_workspaces :: "hub_db \<Rightarrow> string list" where
  "get_workspaces db =
     sort_dedup (map fst (db_heads db)
       @ map (\<lambda>((ws, _), _). ws) (filter (\<lambda>(_, r). \<not> fr_deleted r) (db_files db)))"

definition get_referenced_hashes :: "hub_db \<Rightarrow> string list" where
  "get_referenced_hashes db = remdups (map (fr_hash \<circ> snd) (filter (\<lambda>(_, r). \<not> fr_deleted r) (db_files db)))"

section \<open>Heads and manifests\<close>

definition get_head :: "string \<Rightarrow> hub_db \<Rightarrow> string option" where
  "get_head ws db = map_of (db_heads db) ws"

text \<open>The hashes of a stored manifest, when it is UTF-8 and canonical.\<close>

definition row_hashes :: "string \<Rightarrow> manifest_row \<Rightarrow> string list option" where
  "row_hashes sid r =
     (if utf8_ok (mf_manifest r)
      then (case canonical_manifest_hashes sid (mf_manifest r) of Inr hs \<Rightarrow> Some hs | Inl _ \<Rightarrow> None)
      else None)"

definition manifest_exists :: "string \<Rightarrow> string \<Rightarrow> hub_db \<Rightarrow> bool" where
  "manifest_exists ws sid db =
     (case map_of (db_manifests db) (ws, sid) of
        None \<Rightarrow> False
      | Some r \<Rightarrow> row_hashes sid r \<noteq> None)"

definition swap_head :: "string \<Rightarrow> string option \<Rightarrow> string \<Rightarrow> hub_db \<Rightarrow> hub_error + (head_swap \<times> hub_db)" where
  "swap_head ws expected new db =
     (if \<not> is_valid_hash new \<or> is_some_and expected (\<lambda>id. \<not> is_valid_hash id) then Inl InvalidHeadId
      else if \<not> manifest_exists ws new db then Inr (MissingManifest, db)
      else if get_head ws db \<noteq> expected then Inr (SwapConflict (get_head ws db), db)
      else Inr (Swapped, db\<lparr>db_heads := AList.update ws new (db_heads db)\<rparr>))"

definition manifest_storage_available :: "int \<Rightarrow> int \<Rightarrow> int \<Rightarrow> int \<Rightarrow> nat \<Rightarrow> bool" where
  "manifest_storage_available workspace_count workspace_bytes global_count global_bytes new_bytes =
     (int new_bytes < 2 ^ 63
      \<and> 0 \<le> workspace_count \<and> workspace_count < max_workspace_manifests
      \<and> 0 \<le> global_count \<and> global_count < max_global_manifests
      \<and> 0 \<le> workspace_bytes \<and> 0 \<le> global_bytes
      \<and> workspace_bytes + int new_bytes < 2 ^ 63
      \<and> workspace_bytes + int new_bytes \<le> max_workspace_manifest_storage_bytes
      \<and> global_bytes + int new_bytes < 2 ^ 63
      \<and> global_bytes + int new_bytes \<le> max_global_manifest_storage_bytes)"

definition workspace_rows :: "string \<Rightarrow> hub_db \<Rightarrow> ((string \<times> string) \<times> manifest_row) list" where
  "workspace_rows ws db = filter (\<lambda>((w, _), _). w = ws) (db_manifests db)"

definition rows_bytes :: "((string \<times> string) \<times> manifest_row) list \<Rightarrow> int" where
  "rows_bytes rows = sum_list (map (\<lambda>(_, r). int (length (mf_manifest r))) rows)"

definition store_canonical_manifest ::
  "int \<Rightarrow> string \<Rightarrow> string \<Rightarrow> string list \<Rightarrow> hub_db \<Rightarrow> hub_error + (manifest_write_outcome \<times> hub_db)" where
  "store_canonical_manifest now_ms ws sid hashes db =
     rbind (map_err InvalidManifest (validate_manifest_hashes sid hashes)) (\<lambda>_.
     rbind (ensure (length (encode_manifest hashes) \<le> max_manifest_bytes) ManifestTooLarge) (\<lambda>_.
     (case map_of (db_manifests db) (ws, sid) of
        Some existing \<Rightarrow>
          rbind (ensure (utf8_ok (mf_manifest existing)) ManifestNotUtf8) (\<lambda>_.
          rbind (map_err InvalidManifest (canonical_manifest_hashes sid (mf_manifest existing))) (\<lambda>old.
          Inr (if old = hashes then Unchanged else ManifestConflict, db)))
      | None \<Rightarrow>
          if \<not> manifest_storage_available (int (length (workspace_rows ws db))) (rows_bytes (workspace_rows ws db))
                 (int (length (db_manifests db))) (rows_bytes (db_manifests db)) (length (encode_manifest hashes))
          then Inr (Capacity, db)
          else Inr (Stored, db\<lparr>db_manifests := db_manifests db
                 @ [((ws, sid), \<lparr>mf_manifest = encode_manifest hashes, mf_created_at_ms = now_ms\<rparr>)]\<rparr>))))"

definition upsert_manifest :: "int \<Rightarrow> string \<Rightarrow> string \<Rightarrow> bytes \<Rightarrow> hub_db \<Rightarrow> hub_error + hub_db" where
  "upsert_manifest now_ms ws sid manifest db =
     rbind (ensure (length manifest \<le> max_manifest_bytes) ManifestTooLarge) (\<lambda>_.
     rbind (ensure (utf8_ok manifest) ManifestNotUtf8) (\<lambda>_.
     rbind (map_err InvalidManifest (canonical_manifest_hashes sid manifest)) (\<lambda>hashes.
     rbind (store_canonical_manifest now_ms ws sid hashes db) (\<lambda>(outcome, db').
     (case outcome of
        Stored \<Rightarrow> Inr db'
      | Unchanged \<Rightarrow> Inr db'
      | ManifestConflict \<Rightarrow> Inl ManifestImmutable
      | Capacity \<Rightarrow> Inl CapacityReached)))))"

section \<open>Formats and migration fences\<close>

definition workspace_format :: "string \<Rightarrow> hub_db \<Rightarrow> nat" where
  "workspace_format ws db = (case map_of (db_formats db) ws of Some v \<Rightarrow> v | None \<Rightarrow> 2)"

definition migration_token :: "string \<Rightarrow> hub_db \<Rightarrow> string option" where
  "migration_token ws db = map_of (db_fences db) ws"

definition begin_migration :: "string \<Rightarrow> string \<Rightarrow> hub_db \<Rightarrow> migration_write_outcome \<times> hub_db" where
  "begin_migration ws token db =
     (if workspace_format ws db \<ge> 3 then (Acquired, db)
      else (case migration_token ws db of
          None \<Rightarrow> (Acquired, db\<lparr>db_fences := db_fences db @ [(ws, token)]\<rparr>)
        | Some current \<Rightarrow> if current \<noteq> token then (LockedByOther, db) else (Acquired, db)))"

definition head_manifested :: "string \<Rightarrow> hub_db \<Rightarrow> bool" where
  "head_manifested ws db =
     (case get_head ws db of None \<Rightarrow> False | Some sid \<Rightarrow> manifest_exists ws sid db)"

definition set_workspace_format :: "string \<Rightarrow> nat \<Rightarrow> hub_db \<Rightarrow> hub_error + hub_db" where
  "set_workspace_format ws version db =
     rbind (ensure (version < 3 \<or> head_manifested ws db) HeadNotManifested) (\<lambda>_.
     (let db1 = db\<lparr>db_formats := AList.update ws version (db_formats db)\<rparr>
      in if version \<ge> 3
         then Inr (db1\<lparr>db_files := filter (\<lambda>((w, _), _). w \<noteq> ws) (db_files db1),
                       db_fences := filter (\<lambda>(w, _). w \<noteq> ws) (db_fences db1)\<rparr>)
         else Inr db1))"

section \<open>Garbage collection: marking\<close>

text \<open>The order of the retention index: workspace, then newest first, then identifier descending.\<close>

type_synonym retention_key = "string \<times> int \<times> string"

definition row_key :: "(string \<times> string) \<times> manifest_row \<Rightarrow> retention_key" where
  "row_key row = (fst (fst row), mf_created_at_ms (snd row), snd (fst row))"

definition key_before :: "retention_key \<Rightarrow> retention_key \<Rightarrow> bool" where
  "key_before a b =
     (let (ws, c, sid) = a; (ws', c', sid') = b in
      ws < ws' \<or> (ws = ws' \<and> c' < c) \<or> (ws = ws' \<and> c' = c \<and> sid' < sid))"

definition retention_sorted :: "((string \<times> string) \<times> manifest_row) list \<Rightarrow> ((string \<times> string) \<times> manifest_row) list" where
  "retention_sorted rows = sort_by (\<lambda>a b. \<not> key_before (row_key b) (row_key a)) rows"

definition gc_manifest_page_size :: nat where "gc_manifest_page_size = 512"

text \<open>One page: the rows after the cursor, in order, at most a page of them.\<close>

definition rows_after :: "retention_key option \<Rightarrow> ((string \<times> string) \<times> manifest_row) list
    \<Rightarrow> ((string \<times> string) \<times> manifest_row) list" where
  "rows_after cursor rows =
     (case cursor of None \<Rightarrow> rows | Some k \<Rightarrow> filter (\<lambda>row. key_before k (row_key row)) rows)"

definition gc_page :: "retention_key option \<Rightarrow> ((string \<times> string) \<times> manifest_row) list
    \<Rightarrow> ((string \<times> string) \<times> manifest_row) list" where
  "gc_page cursor rows = take gc_manifest_page_size (retention_sorted (rows_after cursor rows))"

record gc_mark =
  gm_workspace :: "string option"
  gm_rank :: nat
  gm_live :: "string list"
  gm_expired :: "(string \<times> string) list"

definition gc_row ::
  "int \<Rightarrow> nat \<Rightarrow> hub_db \<Rightarrow> (string \<times> string) \<times> manifest_row \<Rightarrow> gc_mark \<Rightarrow> hub_error + gc_mark" where
  "gc_row cutoff_ms keep_last db row m =
     (let ((ws, sid), r) = row;
          rank = (if gm_workspace m \<noteq> Some ws then 0 else gm_rank m);
          keep = get_head ws db = Some sid \<or> rank < keep_last \<or> cutoff_ms \<le> mf_created_at_ms r;
          m1 = m\<lparr>gm_workspace := Some ws, gm_rank := rank + 1\<rparr>
      in if \<not> keep then Inr (m1\<lparr>gm_expired := gm_expired m1 @ [(ws, sid)]\<rparr>)
         else
           rbind (ensure (length (mf_manifest r) \<le> max_stored_manifest_bytes) ManifestTooLarge) (\<lambda>_.
           rbind (ensure (utf8_ok (mf_manifest r)) ManifestNotUtf8) (\<lambda>_.
           rbind (map_err InvalidManifest (canonical_manifest_hashes sid (mf_manifest r))) (\<lambda>hashes.
           Inr (m1\<lparr>gm_live := gm_live m1 @ hashes\<rparr>)))))"

text \<open>The loop over the pages; the cursor is the key of the last row of a page.\<close>

lemma key_before_trans: "key_before a b \<Longrightarrow> key_before b c \<Longrightarrow> key_before a c"
  by (auto simp: key_before_def split: prod.splits)

lemma key_before_irrefl: "\<not> key_before a a"
  by (auto simp: key_before_def split: prod.splits)

lemma key_before_asym: "key_before a b \<Longrightarrow> \<not> key_before b a"
  using key_before_trans key_before_irrefl by blast

lemma key_before_total: "a = b \<or> key_before a b \<or> key_before b a"
  by (auto simp: key_before_def split: prod.splits)

lemma rows_after_decreases:
  assumes "row \<in> set (rows_after cursor rows)"
  shows "length (rows_after (Some (row_key row)) rows) < length (rows_after cursor rows)"
proof -
  have sub: "rows_after (Some (row_key row)) rows =
      filter (\<lambda>r. key_before (row_key row) (row_key r)) (rows_after cursor rows)"
    using assms by (auto simp: rows_after_def intro!: filter_cong dest: key_before_trans split: option.splits)
  have "\<exists>r\<in>set (rows_after cursor rows). \<not> key_before (row_key row) (row_key r)"
    using assms key_before_irrefl by blast
  then show ?thesis unfolding sub by (auto intro: length_filter_less)
qed

function gc_pages ::
  "int \<Rightarrow> nat \<Rightarrow> hub_db \<Rightarrow> retention_key option \<Rightarrow> gc_mark \<Rightarrow> hub_error + gc_mark" where
  "gc_pages cutoff_ms keep_last db cursor m =
     (let page = gc_page cursor (db_manifests db) in
      if page = [] then Inr m
      else rbind (fold_result (gc_row cutoff_ms keep_last db) page m) (\<lambda>m'.
           if length page < gc_manifest_page_size then Inr m'
           else gc_pages cutoff_ms keep_last db (Some (row_key (last page))) m'))"
  by pat_completeness auto
termination
proof (relation "measure (\<lambda>(_, _, db, cursor, _). length (rows_after cursor (db_manifests db)))", goal_cases)
  case (2 cutoff_ms keep_last db cursor m page m')
  then have "last page \<in> set page" by simp
  then have "last page \<in> set (rows_after cursor (db_manifests db))"
    unfolding 2 gc_page_def by (auto dest!: in_set_takeD simp: retention_sorted_def)
  then show ?case by (simp add: rows_after_decreases)
qed simp

declare gc_pages.simps [simp del]

definition heads_manifested :: "hub_db \<Rightarrow> bool" where
  "heads_manifested db = list_all (\<lambda>(ws, sid). map_of (db_manifests db) (ws, sid) \<noteq> None) (db_heads db)"

definition prepare_gc_live_set :: "int \<Rightarrow> nat \<Rightarrow> hub_db \<Rightarrow> hub_error + (string list \<times> hub_db)" where
  "prepare_gc_live_set cutoff_ms keep_last db =
     rbind (ensure (heads_manifested db) MissingHeadManifest) (\<lambda>_.
     rbind (gc_pages cutoff_ms keep_last db None
        \<lparr>gm_workspace = None, gm_rank = 0, gm_live = get_referenced_hashes db, gm_expired = []\<rparr>) (\<lambda>m.
     rbind (ensure (\<not> list_ex (\<lambda>(ws, sid). get_head ws db = Some sid) (gm_expired m)) ExpiredHead) (\<lambda>_.
     Inr (gm_live m, db\<lparr>db_manifests := filter (\<lambda>(k, _). k \<notin> set (gm_expired m)) (db_manifests db)\<rparr>))))"

text \<open>
  \<^verbatim>\<open>datetime(? / 1000, 'unixepoch')\<close>: integer division truncates towards zero, and outside the years
  0 to 9999 the function yields \<^verbatim>\<open>NULL\<close>, with which no comparison is true.
\<close>

definition sql_datetime :: "int \<Rightarrow> int option" where
  "sql_datetime ms =
     (let s = (if ms < 0 then - ((- ms) div 1000) else ms div 1000)
      in if - 62167219200 \<le> s \<and> s \<le> 253402300799 then Some s else None)"

definition purge_old_tombstones :: "int \<Rightarrow> hub_db \<Rightarrow> nat \<times> hub_db" where
  "purge_old_tombstones older_than_ms db =
     (let old = (\<lambda>(_, r). fr_deleted r \<and> is_some_and (sql_datetime older_than_ms) (\<lambda>s. fr_updated_at r < s))
      in (length (filter old (db_files db)), db\<lparr>db_files := filter (\<lambda>row. \<not> old row) (db_files db)\<rparr>))"

end
