(* ===== verification/Hub_Gc.thy ===== *)
theory Hub_Gc
  imports Hub_Db
begin

text \<open>
  The hub's garbage collection (\<^verbatim>\<open>Db::prepare_gc_live_set\<close> and \<^verbatim>\<open>server/src/gc.rs\<close>). Marking reads the
  manifests in pages of 512 behind a cursor; it is shown to be one pass over the retention order,
  whose result is then characterised row by row. Sweeping goes through the directory of blobs in
  batches of 500.
\<close>

section \<open>Paging is one pass over the retention order\<close>

definition keyed :: "hub_db \<Rightarrow> bool" where
  "keyed db \<longleftrightarrow> distinct (map fst (db_files db)) \<and> distinct (map fst (db_heads db))
     \<and> distinct (map fst (db_manifests db)) \<and> distinct (map fst (db_formats db))
     \<and> distinct (map fst (db_fences db))"

abbreviation row_before :: "(string \<times> string) \<times> manifest_row \<Rightarrow> (string \<times> string) \<times> manifest_row \<Rightarrow> bool" where
  "row_before a b \<equiv> key_before (row_key a) (row_key b)"

lemma row_key_inj:
  assumes "distinct (map fst rows)"
  shows "inj_on row_key (set rows)"
proof (rule inj_onI)
  fix a b
  assume ab: "a \<in> set rows" "b \<in> set rows" and "row_key a = row_key b"
  then have "fst a = fst b" by (simp add: row_key_def prod_eq_iff)
  with ab assms show "a = b" by (simp add: distinct_map inj_on_def)
qed

lemma retention_preorder: "preorder_on A (\<lambda>a b. \<not> row_before b a)"
  unfolding preorder_on_def by (metis key_before_irrefl key_before_total key_before_trans)

lemma set_retention_sorted [simp]: "set (retention_sorted rows) = set rows"
  by (simp add: retention_sorted_def)

lemma retention_distinct:
  assumes "distinct (map fst rows)"
  shows "distinct (map row_key (retention_sorted rows))"
proof -
  have "mset (retention_sorted rows) = mset rows" by (simp add: retention_sorted_def)
  with assms have "distinct (retention_sorted rows)" by (metis distinct_map mset_eq_imp_distinct_iff)
  with assms show ?thesis by (simp add: distinct_map row_key_inj)
qed

lemma retention_strict:
  assumes "distinct (map fst rows)"
  shows "sorted_wrt row_before (retention_sorted rows)"
proof (rule sorted_wrt_strict [OF _ retention_distinct [OF assms]])
  show "sorted_wrt (\<lambda>a b. \<not> row_before b a) (retention_sorted rows)"
    unfolding retention_sorted_def by (rule sort_by_sorted) (rule retention_preorder)
qed (metis key_before_total)

lemma distinct_rows_after: "distinct (map fst rows) \<Longrightarrow> distinct (map fst (rows_after cursor rows))"
  by (simp add: rows_after_def distinct_map_filter split: option.split)

text \<open>The rows behind the last row of a page are the rest of the order.\<close>

lemma retention_rest:
  assumes "distinct (map fst rows)"
    and split: "retention_sorted (rows_after cursor rows) = page @ rest" and "page \<noteq> []"
  shows "retention_sorted (rows_after (Some (row_key (last page))) rows) = rest"
proof (rule strict_sorted_unique [where lt = row_before])
  let ?k = "row_key (last page)"
  have strict: "sorted_wrt row_before (page @ rest)"
    using retention_strict [OF distinct_rows_after [OF assms(1), of cursor]] split by simp
  then show "sorted_wrt row_before rest" by (simp add: sorted_wrt_append)
  show "sorted_wrt row_before (retention_sorted (rows_after (Some ?k) rows))"
    by (intro retention_strict distinct_rows_after assms)
  have mem: "set (page @ rest) = set (rows_after cursor rows)"
    using split by (metis set_retention_sorted)
  have "sorted_wrt row_before page" using strict by (simp add: sorted_wrt_append)
  then have "\<not> key_before ?k (row_key r)" if "r \<in> set page" for r
    using sorted_wrt_last that key_before_asym key_before_irrefl by metis
  moreover have "key_before ?k (row_key r)" if "r \<in> set rest" for r
    using strict that assms(3) by (simp add: sorted_wrt_append)
  moreover have "r \<in> set (rows_after cursor rows)" if "r \<in> set rows" "key_before ?k (row_key r)" for r
  proof -
    have "last page \<in> set (rows_after cursor rows)" using mem assms(3) by auto
    with that show ?thesis by (auto simp: rows_after_def dest: key_before_trans split: option.splits)
  qed
  moreover have "set (rows_after cursor rows) \<subseteq> set rows"
    by (auto simp: rows_after_def split: option.splits)
  moreover have after: "set (rows_after (Some ?k) rows) = {r \<in> set rows. key_before ?k (row_key r)}"
    by (simp add: rows_after_def)
  moreover have "set page \<union> set rest = set (rows_after cursor rows)" using mem by simp
  ultimately show "set (retention_sorted (rows_after (Some ?k) rows)) = set rest"
    unfolding set_retention_sorted by blast
qed (metis key_before_irrefl key_before_trans)

lemma gc_pages_one_pass:
  assumes "distinct (map fst (db_manifests db))"
  shows "gc_pages cutoff_ms keep_last db cursor m =
    fold_result (gc_row cutoff_ms keep_last db) (retention_sorted (rows_after cursor (db_manifests db))) m"
  using assms
proof (induction cutoff_ms keep_last db cursor m rule: gc_pages.induct)
  case (1 cutoff_ms keep_last db cursor m)
  define page where "page = gc_page cursor (db_manifests db)"
  define rest where "rest = drop gc_manifest_page_size (retention_sorted (rows_after cursor (db_manifests db)))"
  have rows: "retention_sorted (rows_after cursor (db_manifests db)) = page @ rest"
    by (simp add: page_def rest_def gc_page_def)
  show ?case
  proof (cases "length page < gc_manifest_page_size")
    case True
    then have "rest = []" by (auto simp: page_def rest_def gc_page_def)
    with True show ?thesis unfolding gc_pages.simps [of _ _ _ cursor] rows
      by (auto simp: page_def [symmetric] Let_def rbind_def split: sum.split)
  next
    case False
    then have "page \<noteq> []" by (auto simp: gc_manifest_page_size_def)
    with False 1 retention_rest [OF 1(2) rows] show ?thesis
      unfolding gc_pages.simps [of _ _ _ cursor] rows fold_result_append
      by (simp add: page_def [symmetric] Let_def cong: rbind_cong)
  qed
qed

section \<open>What marking keeps\<close>

text \<open>The hashes of a retained row, when the row can be read.\<close>

definition retained_hashes :: "(string \<times> string) \<times> manifest_row \<Rightarrow> string list option" where
  "retained_hashes row =
     (if length (mf_manifest (snd row)) \<le> max_stored_manifest_bytes then row_hashes (snd (fst row)) (snd row) else None)"

text \<open>A row's rank: how many manifests of its workspace are newer (ties by the larger identifier).\<close>

definition row_rank :: "((string \<times> string) \<times> manifest_row) list \<Rightarrow> (string \<times> string) \<times> manifest_row \<Rightarrow> nat" where
  "row_rank rows row = length (filter (\<lambda>r. fst (fst r) = fst (fst row) \<and> row_before r row) rows)"

definition gc_keeps :: "int \<Rightarrow> nat \<Rightarrow> hub_db \<Rightarrow> (string \<times> string) \<times> manifest_row \<Rightarrow> bool" where
  "gc_keeps cutoff_ms keep_last db row \<longleftrightarrow>
     get_head (fst (fst row)) db = Some (snd (fst row))
     \<or> row_rank (db_manifests db) row < keep_last
     \<or> cutoff_ms \<le> mf_created_at_ms (snd row)"

definition mark_at :: "((string \<times> string) \<times> manifest_row) list \<Rightarrow> gc_mark \<Rightarrow> bool" where
  "mark_at seen m \<longleftrightarrow>
     (seen = [] \<longrightarrow> gm_workspace m = None)
     \<and> (seen \<noteq> [] \<longrightarrow> gm_workspace m = Some (fst (fst (last seen)))
          \<and> gm_rank m = length (filter (\<lambda>r. fst (fst r) = fst (fst (last seen))) seen))"

lemma row_rank_mset:
  assumes "mset rows = mset rows'"
  shows "row_rank rows row = row_rank rows' row"
proof -
  have "mset (filter P rows) = mset (filter P rows')" for P using assms by simp
  then show ?thesis unfolding row_rank_def by (rule mset_eq_length)
qed

lemma row_rank_sorted:
  assumes "sorted_wrt row_before (seen @ row # rest)"
  shows "row_rank (seen @ row # rest) row = length (filter (\<lambda>r. fst (fst r) = fst (fst row)) seen)"
proof -
  have "filter (\<lambda>r. fst (fst r) = fst (fst row) \<and> row_before r row) seen = filter (\<lambda>r. fst (fst r) = fst (fst row)) seen"
    using assms by (intro filter_cong) (simp_all add: sorted_wrt_append)
  moreover have "\<not> row_before r row" if "r \<in> set rest" for r
    using assms that by (intro key_before_asym) (simp add: sorted_wrt_append)
  ultimately show ?thesis by (simp add: row_rank_def key_before_irrefl filter_empty_conv)
qed

text \<open>The running rank of the loop is the rank of the row it is at.\<close>

lemma mark_rank:
  assumes sorted: "sorted_wrt row_before (seen @ row # rest)" and mark: "mark_at seen m"
  shows "(if gm_workspace m \<noteq> Some (fst (fst row)) then 0 else gm_rank m) = row_rank (seen @ row # rest) row"
proof (cases "gm_workspace m = Some (fst (fst row))")
  case True
  with mark have "seen \<noteq> []" "fst (fst (last seen)) = fst (fst row)" by (auto simp: mark_at_def)
  with True mark show ?thesis unfolding row_rank_sorted [OF sorted] by (simp add: mark_at_def)
next
  case False
  have "fst (fst r) \<noteq> fst (fst row)" if "r \<in> set seen" for r
  proof
    assume eq: "fst (fst r) = fst (fst row)"
    from that mark False have "seen \<noteq> []" and ne: "fst (fst (last seen)) \<noteq> fst (fst row)" by (auto simp: mark_at_def)
    have "row_before (last seen) row" using sorted \<open>seen \<noteq> []\<close> by (simp add: sorted_wrt_append)
    moreover have "r = last seen \<or> row_before r (last seen)"
      using sorted that by (intro sorted_wrt_last) (simp_all add: sorted_wrt_append)
    ultimately show False using eq ne by (auto simp: key_before_def row_key_def)
  qed
  then have "filter (\<lambda>r. fst (fst r) = fst (fst row)) seen = []" by (simp add: filter_empty_conv)
  with False show ?thesis unfolding row_rank_sorted [OF sorted] by simp
qed

lemma gc_row_cases:
  assumes rank: "(if gm_workspace m \<noteq> Some (fst (fst row)) then 0 else gm_rank m) = row_rank (db_manifests db) row"
  defines "m1 \<equiv> m\<lparr>gm_workspace := Some (fst (fst row)), gm_rank := row_rank (db_manifests db) row + 1\<rparr>"
  shows "\<not> gc_keeps cutoff_ms keep_last db row \<Longrightarrow>
      gc_row cutoff_ms keep_last db row m = Inr (m1\<lparr>gm_expired := gm_expired m @ [fst row]\<rparr>)"
    and "gc_keeps cutoff_ms keep_last db row \<Longrightarrow> retained_hashes row = Some hs \<Longrightarrow>
      gc_row cutoff_ms keep_last db row m = Inr (m1\<lparr>gm_live := gm_live m @ hs\<rparr>)"
    and "gc_keeps cutoff_ms keep_last db row \<Longrightarrow> retained_hashes row = None \<Longrightarrow>
      \<exists>e. gc_row cutoff_ms keep_last db row m = Inl e"
proof -
  obtain ws sid r where row: "row = ((ws, sid), r)" by (metis surj_pair)
  have keep: "gc_keeps cutoff_ms keep_last db row \<longleftrightarrow>
      get_head ws db = Some sid \<or> (if gm_workspace m \<noteq> Some ws then 0 else gm_rank m) < keep_last
      \<or> cutoff_ms \<le> mf_created_at_ms r"
    using rank by (simp add: gc_keeps_def row)
  note simps = gc_row_def row Let_def rank [symmetric, unfolded row] m1_def
  show "\<not> gc_keeps cutoff_ms keep_last db row \<Longrightarrow>
      gc_row cutoff_ms keep_last db row m = Inr (m1\<lparr>gm_expired := gm_expired m @ [fst row]\<rparr>)"
    unfolding keep by (simp add: simps)
  show "gc_keeps cutoff_ms keep_last db row \<Longrightarrow> retained_hashes row = Some hs \<Longrightarrow>
      gc_row cutoff_ms keep_last db row m = Inr (m1\<lparr>gm_live := gm_live m @ hs\<rparr>)"
    unfolding keep by (auto simp: simps retained_hashes_def row_hashes_def split: if_splits sum.splits)
  show "gc_keeps cutoff_ms keep_last db row \<Longrightarrow> retained_hashes row = None \<Longrightarrow>
      \<exists>e. gc_row cutoff_ms keep_last db row m = Inl e"
    unfolding keep
    by (auto simp: simps retained_hashes_def row_hashes_def ensure_def split: if_splits sum.splits)
qed

lemma mark_at_snoc:
  assumes "sorted_wrt row_before (seen @ row # rest)"
    and "gm_workspace m = Some (fst (fst row))" and "gm_rank m = row_rank (seen @ row # rest) row + 1"
  shows "mark_at (seen @ [row]) m"
  using assms by (simp add: mark_at_def row_rank_sorted)

text \<open>What the loop over some rows leaves: it fails only on a retained row it cannot read.\<close>

definition marks :: "((string \<times> string) \<times> manifest_row \<Rightarrow> bool) \<Rightarrow> ((string \<times> string) \<times> manifest_row) list
    \<Rightarrow> gc_mark \<Rightarrow> hub_error + gc_mark \<Rightarrow> bool" where
  "marks keeps rows m result =
     (case result of
        Inl _ \<Rightarrow> list_ex (\<lambda>row. keeps row \<and> retained_hashes row = None) rows
      | Inr m' \<Rightarrow> list_all (\<lambda>row. keeps row \<longrightarrow> retained_hashes row \<noteq> None) rows
          \<and> gm_live m' = gm_live m @ concat (map (the \<circ> retained_hashes) (filter keeps rows))
          \<and> gm_expired m' = gm_expired m @ map fst (filter (\<lambda>row. \<not> keeps row) rows))"

lemma marks_Cons:
  assumes "marks keeps rows m1 result"
  shows "\<not> keeps row \<Longrightarrow> gm_live m1 = gm_live m \<Longrightarrow> gm_expired m1 = gm_expired m @ [fst row] \<Longrightarrow>
      marks keeps (row # rows) m result"
    and "keeps row \<Longrightarrow> retained_hashes row = Some hs \<Longrightarrow> gm_live m1 = gm_live m @ hs \<Longrightarrow>
      gm_expired m1 = gm_expired m \<Longrightarrow> marks keeps (row # rows) m result"
  using assms unfolding marks_def by (cases result; simp)+

lemma gc_fold:
  fixes cutoff_ms :: int and keep_last :: nat
  assumes "sorted_wrt row_before (seen @ rows)" and "mset (seen @ rows) = mset (db_manifests db)"
    and "mark_at seen m"
  shows "marks (gc_keeps cutoff_ms keep_last db) rows m (fold_result (gc_row cutoff_ms keep_last db) rows m)"
  using assms
proof (induction rows arbitrary: seen m)
  case Nil
  show ?case by (simp add: marks_def)
next
  case (Cons row rows)
  let ?keeps = "gc_keeps cutoff_ms keep_last db"
  have rank: "(if gm_workspace m \<noteq> Some (fst (fst row)) then 0 else gm_rank m) = row_rank (db_manifests db) row"
    using mark_rank [OF Cons.prems(1,3)] row_rank_mset [OF Cons.prems(2)] by simp
  note step = gc_row_cases [OF rank, of cutoff_ms keep_last]
  have IH: "marks ?keeps rows m2 (fold_result (gc_row cutoff_ms keep_last db) rows m2)"
    if "gm_workspace m2 = Some (fst (fst row))" "gm_rank m2 = row_rank (db_manifests db) row + 1" for m2
    using Cons.IH [of "seen @ [row]" m2] Cons.prems(1,2)
      mark_at_snoc [OF Cons.prems(1) that(1)] that(2) row_rank_mset [OF Cons.prems(2)] by simp
  consider "\<not> ?keeps row" | hs where "?keeps row" "retained_hashes row = Some hs"
    | "?keeps row" "retained_hashes row = None" by (cases "retained_hashes row") auto
  then show ?case
  proof cases
    case 1
    show ?thesis unfolding fold_result.simps step(1) [OF 1] rbind_simps
      by (rule marks_Cons(1) [OF IH 1]) simp_all
  next
    case 2
    show ?thesis unfolding fold_result.simps step(2) [OF 2] rbind_simps
      by (rule marks_Cons(2) [OF IH 2]) simp_all
  next
    case 3
    then show ?thesis using step(3) [OF 3] by (auto simp: marks_def)
  qed
qed

text \<open>The whole marking transaction.\<close>

lemma mark_all:
  assumes "keyed db"
  shows "marks (gc_keeps cutoff_ms keep_last db) (retention_sorted (db_manifests db))
      \<lparr>gm_workspace = None, gm_rank = 0, gm_live = live, gm_expired = []\<rparr>
      (gc_pages cutoff_ms keep_last db None \<lparr>gm_workspace = None, gm_rank = 0, gm_live = live, gm_expired = []\<rparr>)"
proof -
  have d: "distinct (map fst (db_manifests db))" using assms by (simp add: keyed_def)
  have all: "rows_after None (db_manifests db) = db_manifests db" by (simp add: rows_after_def)
  show ?thesis unfolding gc_pages_one_pass [OF d] all
    using retention_strict [OF d] by (intro gc_fold [where seen = "[]"]) (simp_all add: mark_at_def retention_sorted_def)
qed

lemma filter_expired:
  assumes "distinct (map fst rows)" and "set expired = fst ` {row \<in> set rows. \<not> keeps row}"
  shows "filter (\<lambda>(k, _). k \<notin> set expired) rows = filter keeps rows"
proof (rule filter_cong [OF HOL.refl])
  fix row
  assume "row \<in> set rows"
  then have "fst row \<in> fst ` {r \<in> set rows. \<not> keeps r} \<longleftrightarrow> \<not> keeps row"
    using assms(1) by (auto simp: distinct_map inj_on_def)
  then show "(case row of (k, _) \<Rightarrow> k \<notin> set expired) = keeps row"
    unfolding assms(2) by (cases row) simp
qed

lemma gc_live_set_cases:
  fixes cutoff_ms :: int and keep_last :: nat
  assumes keyed: "keyed db"
  defines "keeps \<equiv> gc_keeps cutoff_ms keep_last db"
  shows "is_ok (prepare_gc_live_set cutoff_ms keep_last db) \<longleftrightarrow>
      heads_manifested db \<and> list_all (\<lambda>row. keeps row \<longrightarrow> retained_hashes row \<noteq> None) (db_manifests db)"
    and "prepare_gc_live_set cutoff_ms keep_last db = Inr (live, db') \<Longrightarrow>
      db' = db\<lparr>db_manifests := filter keeps (db_manifests db)\<rparr>
      \<and> set live = set (get_referenced_hashes db)
          \<union> (\<Union>row\<in>set (filter keeps (db_manifests db)). set (the (retained_hashes row)))"
proof -
  define m0 where "m0 = \<lparr>gm_workspace = None, gm_rank = 0, gm_live = get_referenced_hashes db, gm_expired = []\<rparr>"
  define result where "result = gc_pages cutoff_ms keep_last db None m0"
  have marks: "marks keeps (retention_sorted (db_manifests db)) m0 result"
    unfolding result_def m0_def keeps_def by (rule mark_all [OF keyed])
  have distinct: "distinct (map fst (db_manifests db))" using keyed by (simp add: keyed_def)
  have prepare: "prepare_gc_live_set cutoff_ms keep_last db =
      rbind (ensure (heads_manifested db) MissingHeadManifest) (\<lambda>_. rbind result (\<lambda>m.
      rbind (ensure (\<not> list_ex (\<lambda>(ws, sid). get_head ws db = Some sid) (gm_expired m)) ExpiredHead) (\<lambda>_.
      Inr (gm_live m, db\<lparr>db_manifests := filter (\<lambda>(k, _). k \<notin> set (gm_expired m)) (db_manifests db)\<rparr>))))"
    by (simp add: prepare_gc_live_set_def result_def m0_def)
  have good: "list_all (\<lambda>row. keeps row \<longrightarrow> retained_hashes row \<noteq> None) (db_manifests db)
      \<and> set (gm_expired m) = fst ` {row \<in> set (db_manifests db). \<not> keeps row}
      \<and> set (gm_live m) = set (get_referenced_hashes db)
          \<union> (\<Union>row\<in>set (filter keeps (db_manifests db)). set (the (retained_hashes row)))
      \<and> \<not> list_ex (\<lambda>(ws, sid). get_head ws db = Some sid) (gm_expired m)" if "result = Inr m" for m
    using marks that by (auto simp: marks_def m0_def list_all_iff list_ex_iff keeps_def gc_keeps_def)
  have bad: "\<not> list_all (\<lambda>row. keeps row \<longrightarrow> retained_hashes row \<noteq> None) (db_manifests db)" if "result = Inl e" for e
    using marks that by (auto simp: marks_def list_all_iff list_ex_iff)
  show "is_ok (prepare_gc_live_set cutoff_ms keep_last db) \<longleftrightarrow>
      heads_manifested db \<and> list_all (\<lambda>row. keeps row \<longrightarrow> retained_hashes row \<noteq> None) (db_manifests db)"
  proof (cases result)
    case (Inl e)
    with bad [OF Inl] show ?thesis unfolding prepare by (cases "heads_manifested db") (simp_all add: Inl)
  next
    case (Inr m)
    with good [OF Inr] show ?thesis unfolding prepare by (cases "heads_manifested db") (simp_all add: Inr)
  qed
  show "prepare_gc_live_set cutoff_ms keep_last db = Inr (live, db') \<Longrightarrow>
      db' = db\<lparr>db_manifests := filter keeps (db_manifests db)\<rparr>
      \<and> set live = set (get_referenced_hashes db)
          \<union> (\<Union>row\<in>set (filter keeps (db_manifests db)). set (the (retained_hashes row)))"
  proof -
    assume "prepare_gc_live_set cutoff_ms keep_last db = Inr (live, db')"
    then obtain m where m: "result = Inr m" "live = gm_live m"
      "db' = db\<lparr>db_manifests := filter (\<lambda>(k, _). k \<notin> set (gm_expired m)) (db_manifests db)\<rparr>"
      unfolding prepare by (auto simp: rbind_eq_Inr)
    with good [OF m(1)] filter_expired [OF distinct, of "gm_expired m" keeps] show ?thesis by simp
  qed
qed

section \<open>Sweeping\<close>

text \<open>
  The directory of blobs: the regular files whose names are UTF-8, with content and modification time.
  What the file system answers is an argument: whether a file's metadata and modification time can be
  read, the time of the clock when its age is taken (the code reads the clock anew for every file),
  and whether it can be removed.
\<close>

record blob_file =
  bf_content :: bytes
  bf_modified :: int

type_synonym blobs = "(string \<times> blob_file) list"

record gc_io =
  stat_ok :: "string \<Rightarrow> bool"
  modified_ok :: "string \<Rightarrow> bool"
  age_clock :: "string \<Rightarrow> int"
  unlink_ok :: "string \<Rightarrow> bool"

text \<open>
  What \<^verbatim>\<open>read_dir\<close> yields: a regular file with a UTF-8 name, something the loop skips (a directory, a
  name that is not UTF-8), or an error.
\<close>

datatype dir_entry = EntryFile string | EntrySkipped | EntryUnread

record gc_stats =
  blobs_deleted :: nat
  tombstones_purged :: nat
  bytes_freed :: nat

definition gc_hash_batch_size :: nat where "gc_hash_batch_size = 500"

definition retention_cutoff_ms :: "int \<Rightarrow> nat \<Rightarrow> int" where
  "retention_cutoff_ms now_ms retention_ms =
     (if int retention_ms < 2 ^ 63 then max (- (2 ^ 63)) (now_ms - int retention_ms) else - (2 ^ 63))"

definition age_ok :: "gc_io \<Rightarrow> int \<Rightarrow> string \<Rightarrow> blob_file \<Rightarrow> bool" where
  "age_ok io grace h f \<longleftrightarrow>
     modified_ok io h \<and> bf_modified f \<le> age_clock io h \<and> grace \<le> age_clock io h - bf_modified f"

text \<open>The loop of a batch; metadata that cannot be read ends it with what was removed so far.\<close>

fun sweep_hashes ::
  "gc_io \<Rightarrow> string set \<Rightarrow> int \<Rightarrow> string list \<Rightarrow> gc_stats \<times> blobs \<Rightarrow> bool \<times> gc_stats \<times> blobs" where
  "sweep_hashes io live grace [] (stats, bs) = (True, stats, bs)"
| "sweep_hashes io live grace (h # hs) (stats, bs) =
     (if h \<in> live then sweep_hashes io live grace hs (stats, bs)
      else if \<not> stat_ok io h then (False, stats, bs)
      else (case map_of bs h of
          None \<Rightarrow> (False, stats, bs)
        | Some f \<Rightarrow>
            if \<not> age_ok io grace h f then sweep_hashes io live grace hs (stats, bs)
            else if \<not> unlink_ok io h then sweep_hashes io live grace hs (stats, bs)
            else sweep_hashes io live grace hs
              (stats\<lparr>blobs_deleted := blobs_deleted stats + 1, bytes_freed := bytes_freed stats + length (bf_content f)\<rparr>,
               AList.delete h bs)))"

definition sweep_blob_batch ::
  "gc_io \<Rightarrow> string list \<Rightarrow> int \<Rightarrow> string list \<Rightarrow> gc_stats \<times> blobs \<Rightarrow> bool \<times> gc_stats \<times> blobs" where
  "sweep_blob_batch io live_set grace hashes =
     sweep_hashes io (set live_set \<inter> set hashes) grace hashes"

text \<open>The loop over the directory: the names collect in a batch, a full batch is swept.\<close>

fun sweep_dir ::
  "gc_io \<Rightarrow> string list \<Rightarrow> int \<Rightarrow> dir_entry list \<Rightarrow> string list \<Rightarrow> gc_stats \<times> blobs \<Rightarrow> bool \<times> gc_stats \<times> blobs" where
  "sweep_dir io live_set grace [] hashes st =
     (if hashes = [] then (True, st) else sweep_blob_batch io live_set grace hashes st)"
| "sweep_dir io live_set grace (EntryUnread # entries) hashes st = (False, st)"
| "sweep_dir io live_set grace (EntrySkipped # entries) hashes st = sweep_dir io live_set grace entries hashes st"
| "sweep_dir io live_set grace (EntryFile hash # entries) hashes st =
     (let hashes' = hashes @ [hash] in
      if length hashes' = gc_hash_batch_size then
        (case sweep_blob_batch io live_set grace hashes' st of
           (True, st') \<Rightarrow> sweep_dir io live_set grace entries [] st'
         | (False, st') \<Rightarrow> (False, st'))
      else sweep_dir io live_set grace entries hashes' st)"

text \<open>The directory is \<open>None\<close> when there is none; opening it can fail like reading an entry.\<close>

definition run_gc ::
  "gc_io \<Rightarrow> dir_entry list option \<Rightarrow> int \<Rightarrow> int \<Rightarrow> nat \<Rightarrow> nat \<Rightarrow> nat \<Rightarrow> hub_db \<times> blobs
    \<Rightarrow> (hub_error + gc_stats) \<times> hub_db \<times> blobs" where
  "run_gc io dir now_ms grace tombstone_retention snapshot_retention snapshot_keep_last hub =
     (let (db, bs) = hub in
      case prepare_gc_live_set (retention_cutoff_ms now_ms snapshot_retention) snapshot_keep_last db of
        Inl e \<Rightarrow> (Inl e, db, bs)
      | Inr (live_set, db1) \<Rightarrow>
          let (purged, db2) = purge_old_tombstones (retention_cutoff_ms now_ms tombstone_retention) db1;
              stats = \<lparr>blobs_deleted = 0, tombstones_purged = purged, bytes_freed = 0\<rparr>
          in (case dir of
                None \<Rightarrow> (Inr stats, db2, bs)
              | Some entries \<Rightarrow>
                  let (ok, stats', bs') = sweep_dir io live_set grace entries [] (stats, bs)
                  in (if ok then Inr stats' else Inl BlobMetadata, db2, bs')))"

text \<open>Batches are the whole directory in one go.\<close>

lemma sweep_hashes_cong:
  assumes "\<And>h. h \<in> set hs \<Longrightarrow> h \<in> live \<longleftrightarrow> h \<in> live'"
  shows "sweep_hashes io live grace hs st = sweep_hashes io live' grace hs st"
  using assms
proof (induction hs arbitrary: st)
  case (Cons h hs)
  obtain stats bs where st: "st = (stats, bs)" by (cases st)
  have "sweep_hashes io live grace hs st' = sweep_hashes io live' grace hs st'" for st'
    by (rule Cons.IH) (simp add: Cons.prems)
  with Cons.prems [of h] show ?case unfolding st by (simp split: option.split)
qed (metis sweep_hashes.simps(1) surj_pair)

lemma sweep_hashes_append:
  "sweep_hashes io live grace (hs @ hs') st =
     (case sweep_hashes io live grace hs st of
        (True, st') \<Rightarrow> sweep_hashes io live grace hs' st'
      | (False, st') \<Rightarrow> (False, st'))"
proof (induction hs arbitrary: st)
  case Nil
  then show ?case by (cases st) simp
next
  case (Cons h hs)
  obtain stats bs where "st = (stats, bs)" by (cases st)
  then show ?case by (simp add: Cons split: option.split)
qed

lemma sweep_blob_batch_live:
  "sweep_blob_batch io live_set grace hs st = sweep_hashes io (set live_set) grace hs st"
  unfolding sweep_blob_batch_def by (rule sweep_hashes_cong) simp

text \<open>The names the loop reads before it ends or meets an error.\<close>

fun listed :: "dir_entry list \<Rightarrow> string list" where
  "listed [] = []"
| "listed (EntryUnread # entries) = []"
| "listed (EntrySkipped # entries) = listed entries"
| "listed (EntryFile h # entries) = h # listed entries"

text \<open>A sweep of the directory is a sweep of the first names of the listing, of all when nothing fails.\<close>

lemma sweep_dir_prefix:
  "\<exists>pre post ok. hashes @ listed entries = pre @ post
     \<and> sweep_hashes io (set live_set) grace pre st = (ok, snd (sweep_dir io live_set grace entries hashes st))
     \<and> (fst (sweep_dir io live_set grace entries hashes st) \<longrightarrow> ok \<and> post = [] \<and> EntryUnread \<notin> set entries)
     \<and> (\<not> fst (sweep_dir io live_set grace entries hashes st) \<longrightarrow> \<not> ok \<or> EntryUnread \<in> set entries)"
proof (induction io live_set grace entries hashes st rule: sweep_dir.induct)
  case (1 io live_set grace hashes st)
  show ?case
    by (intro exI [of _ hashes] exI [of _ "[]"] exI [of _ "fst (sweep_hashes io (set live_set) grace hashes st)"])
      (cases st, auto simp: sweep_blob_batch_live)
next
  case (2 io live_set grace entries hashes st)
  show ?case by (intro exI [of _ "[]"] exI [of _ hashes] exI [of _ True]) (cases st, simp)
next
  case (4 io live_set grace h entries hashes st)
  obtain ok st1 where batch: "sweep_hashes io (set live_set) grace (hashes @ [h]) st = (ok, st1)"
    by (cases "sweep_hashes io (set live_set) grace (hashes @ [h]) st")
  consider "length (hashes @ [h]) \<noteq> gc_hash_batch_size"
    | "length (hashes @ [h]) = gc_hash_batch_size" "\<not> ok" | "length (hashes @ [h]) = gc_hash_batch_size" ok by blast
  then show ?case
  proof cases
    case 1
    with 4(2) [OF HOL.refl] show ?thesis by simp
  next
    case 2
    with batch show ?thesis
      by (intro exI [of _ "hashes @ [h]"] exI [of _ "listed entries"] exI [of _ False]) (simp add: sweep_blob_batch_live)
  next
    case 3
    with batch have dir: "sweep_dir io live_set grace (EntryFile h # entries) hashes st = sweep_dir io live_set grace entries [] st1"
      by (simp add: sweep_blob_batch_live)
    obtain pre post ok' where IH: "listed entries = pre @ post"
      "sweep_hashes io (set live_set) grace pre st1 = (ok', snd (sweep_dir io live_set grace entries [] st1))"
      "fst (sweep_dir io live_set grace entries [] st1) \<longrightarrow> ok' \<and> post = [] \<and> EntryUnread \<notin> set entries"
      "\<not> fst (sweep_dir io live_set grace entries [] st1) \<longrightarrow> \<not> ok' \<or> EntryUnread \<in> set entries"
      using 4(1) [OF HOL.refl 3(1) batch [folded sweep_blob_batch_live, THEN sym] eqTrueI [OF 3(2)]] by auto
    have "sweep_hashes io (set live_set) grace ((hashes @ [h]) @ pre) st = (ok', snd (sweep_dir io live_set grace entries [] st1))"
      unfolding sweep_hashes_append [of io "set live_set" grace "hashes @ [h]"] using batch 3(2) IH(2) by simp
    with IH dir show ?thesis by (intro exI [of _ "(hashes @ [h]) @ pre"] exI [of _ post] exI [of _ ok']) simp
  qed
qed simp

text \<open>What a sweep leaves.\<close>

definition sweep_keeps :: "gc_io \<Rightarrow> string set \<Rightarrow> int \<Rightarrow> string \<times> blob_file \<Rightarrow> bool" where
  "sweep_keeps io live grace b \<longleftrightarrow>
     fst b \<in> live \<or> \<not> modified_ok io (fst b) \<or> age_clock io (fst b) < bf_modified (snd b)
     \<or> age_clock io (fst b) - bf_modified (snd b) < grace \<or> \<not> unlink_ok io (fst b)"

lemma sweep_keeps_iff:
  "\<not> sweep_keeps io live grace (h, f) \<longleftrightarrow> h \<notin> live \<and> age_ok io grace h f \<and> unlink_ok io h"
  by (auto simp: sweep_keeps_def age_ok_def)

lemma length_delete:
  "distinct (map fst kvs) \<Longrightarrow> map_of kvs k = Some v \<Longrightarrow> length (AList.delete k kvs) + 1 = length kvs"
proof (induction kvs)
  case (Cons kv kvs)
  show ?case
  proof (cases "fst kv = k")
    case True
    with Cons.prems(1) have "AList.delete k kvs = kvs" by (intro delete_id) auto
    with True show ?thesis by (cases kv) simp
  next
    case False
    with Cons show ?thesis by (cases kv) simp
  qed
qed simp

definition blob_bytes :: "blobs \<Rightarrow> nat" where
  "blob_bytes bs = sum_list (map (\<lambda>b. length (bf_content (snd b))) bs)"

lemma blob_bytes_delete:
  "distinct (map fst bs) \<Longrightarrow> map_of bs h = Some f \<Longrightarrow> blob_bytes (AList.delete h bs) + length (bf_content f) = blob_bytes bs"
proof (induction bs)
  case (Cons b bs)
  show ?case
  proof (cases "fst b = h")
    case True
    with Cons.prems(1) have "AList.delete h bs = bs" by (intro delete_id) auto
    with True Cons.prems(2) show ?thesis by (cases b) (simp add: blob_bytes_def)
  next
    case False
    with Cons show ?thesis by (cases b) (simp add: blob_bytes_def)
  qed
qed (simp add: blob_bytes_def)

text \<open>
  The blobs after a sweep: those of the first names that were reached are gone unless they are kept,
  and the statistics count what was removed.
\<close>

lemma sweep_hashes_exact:
  assumes "sweep_hashes io live grace hs (stats, bs) = (ok, stats', bs')" and "distinct (map fst bs)"
  shows "\<exists>pre post. hs = pre @ post \<and> (ok \<longrightarrow> post = [])
    \<and> bs' = filter (\<lambda>b. fst b \<in> set pre \<longrightarrow> sweep_keeps io live grace b) bs
    \<and> blobs_deleted stats' + length bs' = blobs_deleted stats + length bs
    \<and> bytes_freed stats' + blob_bytes bs' = bytes_freed stats + blob_bytes bs
    \<and> tombstones_purged stats' = tombstones_purged stats"
  using assms
proof (induction hs arbitrary: stats bs)
  case Nil
  then show ?case by simp
next
  case (Cons h hs)
  consider f where "map_of bs h = Some f" "\<not> sweep_keeps io live grace (h, f)" "stat_ok io h"
    | "\<not> ok" "bs' = bs" "stats' = stats"
    | "sweep_hashes io live grace hs (stats, bs) = (ok, stats', bs')"
      "\<forall>f. map_of bs h = Some f \<longrightarrow> sweep_keeps io live grace (h, f)"
  proof (cases "h \<in> live")
    case True
    with Cons.prems(1) that(3) show ?thesis by (simp add: sweep_keeps_def)
  next
    case False
    show ?thesis
    proof (cases "map_of bs h")
      case None
      with False Cons.prems(1) that(2) show ?thesis by (simp split: if_splits)
    next
      case (Some f)
      with False Cons.prems(1) that show ?thesis
        by (cases "stat_ok io h"; cases "sweep_keeps io live grace (h, f)") (simp_all add: sweep_keeps_iff split: if_splits)
    qed
  qed
  then show ?case
  proof cases
    case (1 f)
    define stats1 where "stats1 = stats\<lparr>blobs_deleted := blobs_deleted stats + 1, bytes_freed := bytes_freed stats + length (bf_content f)\<rparr>"
    have rest: "sweep_hashes io live grace hs (stats1, AList.delete h bs) = (ok, stats', bs')"
      using Cons.prems(1) 1 by (simp add: stats1_def sweep_keeps_iff)
    obtain pre post where pre: "hs = pre @ post" "ok \<longrightarrow> post = []"
      "bs' = filter (\<lambda>b. fst b \<in> set pre \<longrightarrow> sweep_keeps io live grace b) (AList.delete h bs)"
      "blobs_deleted stats' + length bs' = blobs_deleted stats1 + length (AList.delete h bs)"
      "bytes_freed stats' + blob_bytes bs' = bytes_freed stats1 + blob_bytes (AList.delete h bs)"
      "tombstones_purged stats' = tombstones_purged stats1"
      using Cons.IH [OF rest distinct_delete [OF Cons.prems(2)]] by blast
    have uniq: "b = (h, f)" if "b \<in> set bs" "fst b = h" for b
      using that by (metis map_of_is_SomeI [OF Cons.prems(2)] 1(1) option.inject prod.collapse)
    have "bs' = filter (\<lambda>b. fst b \<in> set (h # pre) \<longrightarrow> sweep_keeps io live grace b) bs"
      unfolding pre(3) AList.delete_eq filter_filter using 1(2) uniq by (intro filter_cong) auto
    with pre(1,2,4-6) length_delete [OF Cons.prems(2) 1(1)] blob_bytes_delete [OF Cons.prems(2) 1(1)] show ?thesis
      by (intro exI [of _ "h # pre"] exI [of _ post]) (simp add: stats1_def)
  next
    case 2
    then show ?thesis by (intro exI [of _ "[]"] exI [of _ "h # hs"]) simp
  next
    case 3
    obtain pre post where pre: "hs = pre @ post" "ok \<longrightarrow> post = []"
      "bs' = filter (\<lambda>b. fst b \<in> set pre \<longrightarrow> sweep_keeps io live grace b) bs"
      "blobs_deleted stats' + length bs' = blobs_deleted stats + length bs"
      "bytes_freed stats' + blob_bytes bs' = bytes_freed stats + blob_bytes bs"
      "tombstones_purged stats' = tombstones_purged stats"
      using Cons.IH [OF 3(1) Cons.prems(2)] by blast
    have "filter (\<lambda>b. fst b \<in> set pre \<longrightarrow> sweep_keeps io live grace b) bs
        = filter (\<lambda>b. fst b \<in> set (h # pre) \<longrightarrow> sweep_keeps io live grace b) bs"
      using 3(2) Cons.prems(2) by (intro filter_cong) (auto simp: map_of_eq_Some_iff)
    with pre show ?thesis by (intro exI [of _ "h # pre"] exI [of _ post]) simp
  qed
qed

lemma sweep_hashes_subset:
  assumes "sweep_hashes io live grace hs (stats, bs) = (ok, stats', bs')" and "distinct (map fst bs)"
  shows "(\<forall>b\<in>set bs. sweep_keeps io live grace b \<longrightarrow> b \<in> set bs') \<and> set bs' \<subseteq> set bs \<and> distinct (map fst bs')"
  using sweep_hashes_exact [OF assms] assms(2) by (auto simp: distinct_map_filter)

lemma sweep_hashes_ok:
  assumes "distinct hs" and "set hs \<subseteq> fst ` set bs"
  shows "fst (sweep_hashes io live grace hs (stats, bs)) \<longleftrightarrow> list_all (\<lambda>h. h \<in> live \<or> stat_ok io h) hs"
  using assms
proof (induction hs arbitrary: stats bs)
  case (Cons h hs)
  from Cons.prems(2) obtain f where "map_of bs h = Some f"
    by (metis list.set_intros(1) map_of_eq_None_iff option.exhaust subsetD)
  moreover have "fst ` set (AList.delete h bs) = fst ` set bs - {h}"
    by (metis delete_keys set_map set_removeAll)
  then have "set hs \<subseteq> fst ` set bs" "set hs \<subseteq> fst ` set (AList.delete h bs)"
    using Cons.prems(1,2) by auto
  ultimately show ?case using Cons by simp
qed simp

text \<open>The same of the sweep of a directory.\<close>

lemma sweep_dir_exact:
  assumes "sweep_dir io live_set grace entries [] (stats, bs) = (ok, stats', bs')" and "distinct (map fst bs)"
  shows "\<exists>pre post. listed entries = pre @ post \<and> (ok \<longrightarrow> post = [])
    \<and> bs' = filter (\<lambda>b. fst b \<in> set pre \<longrightarrow> sweep_keeps io (set live_set) grace b) bs
    \<and> blobs_deleted stats' + length bs' = blobs_deleted stats + length bs
    \<and> bytes_freed stats' + blob_bytes bs' = bytes_freed stats + blob_bytes bs
    \<and> tombstones_purged stats' = tombstones_purged stats"
proof -
  obtain names rest ok1 where names: "listed entries = names @ rest"
    "sweep_hashes io (set live_set) grace names (stats, bs) = (ok1, stats', bs')" "ok \<longrightarrow> ok1 \<and> rest = []"
    using sweep_dir_prefix [of "[]" entries io live_set grace "(stats, bs)"] assms(1) by auto
  from sweep_hashes_exact [OF names(2) assms(2)] obtain pre post where "names = pre @ post" "ok1 \<longrightarrow> post = []"
    "bs' = filter (\<lambda>b. fst b \<in> set pre \<longrightarrow> sweep_keeps io (set live_set) grace b) bs"
    "blobs_deleted stats' + length bs' = blobs_deleted stats + length bs"
    "bytes_freed stats' + blob_bytes bs' = bytes_freed stats + blob_bytes bs"
    "tombstones_purged stats' = tombstones_purged stats" by blast
  with names(1,3) show ?thesis by (intro exI [of _ pre] exI [of _ "post @ rest"]) simp
qed

lemma sweep_dir_ok:
  assumes "distinct (listed entries)" and "set (listed entries) \<subseteq> fst ` set bs"
  shows "fst (sweep_dir io live_set grace entries [] (stats, bs)) \<longleftrightarrow>
    EntryUnread \<notin> set entries \<and> list_all (\<lambda>h. h \<in> set live_set \<or> stat_ok io h) (listed entries)"
proof -
  let ?ok = "fst (sweep_dir io live_set grace entries [] (stats, bs))"
  obtain pre post ok1 where pre: "listed entries = pre @ post"
    "fst (sweep_hashes io (set live_set) grace pre (stats, bs)) = ok1"
    "?ok \<longrightarrow> ok1 \<and> post = [] \<and> EntryUnread \<notin> set entries" "\<not> ?ok \<longrightarrow> \<not> ok1 \<or> EntryUnread \<in> set entries"
    using sweep_dir_prefix [of "[]" entries io live_set grace "(stats, bs)"] by (metis append_Nil fst_conv)
  have "ok1 \<longleftrightarrow> list_all (\<lambda>h. h \<in> set live_set \<or> stat_ok io h) pre"
    using sweep_hashes_ok [of pre bs io "set live_set" grace stats] pre(1,2) assms by simp
  with pre show ?thesis by auto
qed

section \<open>Properties\<close>

text \<open>A hub with one workspace, its head older than another published snapshot.\<close>

definition sample_id :: "char \<Rightarrow> string" where
  "sample_id c = replicate 64 c"

definition sample_manifest :: "char \<Rightarrow> int \<Rightarrow> (string \<times> string) \<times> manifest_row" where
  "sample_manifest c created =
     ((''w'', sample_id c), \<lparr>mf_manifest = encode_manifest [sample_id c], mf_created_at_ms = created\<rparr>)"

definition sample_hub :: hub_db where
  "sample_hub = hub_db_new\<lparr>db_heads := [(''w'', sample_id CHR ''a'')],
     db_manifests := [sample_manifest CHR ''a'' 0, sample_manifest CHR ''b'' 5]\<rparr>"

text \<open>
  C31. Marking is exact. The transaction that prepares a collection succeeds exactly when every head
  has a manifest and every manifest it keeps can be read; it keeps a manifest exactly when it is a
  head, or has fewer than \<open>keep_last\<close> newer manifests in its workspace, or is not older than the cutoff;
  it deletes the others and nothing else; and the live set is exactly the hashes of the live files
  and of the kept manifests. So the pages, the cursor and the running rank never skip or repeat a
  row, and the check that no head expired never fires.
\<close>

theorem gc_mark_exact:
  assumes "keyed db"
  shows "(is_ok (prepare_gc_live_set cutoff_ms keep_last db) \<longleftrightarrow>
      heads_manifested db
      \<and> list_all (\<lambda>row. gc_keeps cutoff_ms keep_last db row \<longrightarrow> retained_hashes row \<noteq> None) (db_manifests db))
    \<and> (\<forall>live db'. prepare_gc_live_set cutoff_ms keep_last db = Inr (live, db') \<longrightarrow>
      db' = db\<lparr>db_manifests := filter (gc_keeps cutoff_ms keep_last db) (db_manifests db)\<rparr>
      \<and> set live = set (get_referenced_hashes db)
          \<union> (\<Union>row\<in>set (filter (gc_keeps cutoff_ms keep_last db) (db_manifests db)). set (the (retained_hashes row))))"
  by (intro conjI allI impI gc_live_set_cases(1) [OF assms]
      gc_live_set_cases(2) [OF assms, THEN conjunct1] gc_live_set_cases(2) [OF assms, THEN conjunct2])

lemma sample_hub_keyed: "keyed sample_hub"
  by (simp add: keyed_def sample_hub_def hub_db_new_def sample_manifest_def sample_id_def)

lemma sample_hub_rows:
  "heads_manifested sample_hub"
  "list_all (\<lambda>row. retained_hashes row \<noteq> None) (db_manifests sample_hub)"
  by code_simp+

theorem gc_mark_exact_witness:
  "keyed sample_hub \<and> is_ok (prepare_gc_live_set 10 0 sample_hub)"
  using gc_mark_exact [OF sample_hub_keyed, of 10 0] sample_hub_keyed sample_hub_rows
  by (auto simp: list_all_iff)

text \<open>
  The tombstones a purge removes, by arithmetic on the cutoff in milliseconds: \<open>updated_at\<close> is in whole
  seconds, the cutoff is truncated to seconds, and outside the years 0 to 9999 nothing is removed.
\<close>

definition tombstone_expired :: "int \<Rightarrow> file_row \<Rightarrow> bool" where
  "tombstone_expired cutoff_ms r \<longleftrightarrow>
     fr_deleted r \<and> - 62167219201000 < cutoff_ms \<and> cutoff_ms < 253402300800000
     \<and> (if cutoff_ms < 0 then 1000 * fr_updated_at r < cutoff_ms else 1000 * fr_updated_at r + 1000 \<le> cutoff_ms)"

lemma sql_datetime_older:
  "is_some_and (sql_datetime c) (\<lambda>s. u < s) \<longleftrightarrow>
    - 62167219201000 < c \<and> c < 253402300800000 \<and> (if c < 0 then 1000 * u < c else 1000 * u + 1000 \<le> c)"
  by (simp add: sql_datetime_def Let_def is_some_and_def, safe; linarith?)

lemma purge_exact:
  "purge_old_tombstones cutoff db =
     (length (filter (\<lambda>row. tombstone_expired cutoff (snd row)) (db_files db)),
      db\<lparr>db_files := filter (\<lambda>row. \<not> tombstone_expired cutoff (snd row)) (db_files db)\<rparr>)"
  by (simp add: purge_old_tombstones_def Let_def sql_datetime_older tombstone_expired_def case_prod_unfold)

text \<open>
  C32. A collection is exact, for every listing of the directory and every outcome of its file
  operations. If marking fails, nothing changes. Otherwise, of the database exactly two things are
  removed: the manifests that marking does not keep (neither head, nor among the newest of their
  workspace, nor young), and the rows of \<open>files\<close> that are deleted and older than the tombstone cutoff.
  Of the blobs, exactly those of the first names of the listing are removed that are not in the live
  set, were at least the grace period old when they were looked at, and could be unlinked; the
  batches skip and repeat none. The collection succeeds exactly when every entry could be read and
  every listed file outside the live set could be examined; then the whole listing was swept and the
  statistics count the files, the bytes and the tombstones removed.
\<close>

theorem run_gc_exact:
  assumes keyed: "keyed db" and d: "distinct (map fst bs)"
    and listing: "dir = Some entries \<or> (dir = None \<and> entries = [])"
      "distinct (listed entries)" "set (listed entries) \<subseteq> fst ` set bs"
    and run: "run_gc io dir now_ms grace tombstone_retention snapshot_retention keep_last (db, bs) = (result, db', bs')"
  shows "case prepare_gc_live_set (retention_cutoff_ms now_ms snapshot_retention) keep_last db of
      Inl e \<Rightarrow> result = Inl e \<and> db' = db \<and> bs' = bs
    | Inr (live, _) \<Rightarrow>
        db' = db\<lparr>db_manifests := filter (gc_keeps (retention_cutoff_ms now_ms snapshot_retention) keep_last db) (db_manifests db),
          db_files := filter (\<lambda>row. \<not> tombstone_expired (retention_cutoff_ms now_ms tombstone_retention) (snd row)) (db_files db)\<rparr>
        \<and> (\<exists>pre post. listed entries = pre @ post \<and> (is_ok result \<longrightarrow> post = [])
            \<and> bs' = filter (\<lambda>b. fst b \<in> set pre \<longrightarrow> sweep_keeps io (set live) grace b) bs)
        \<and> (is_ok result \<longleftrightarrow> EntryUnread \<notin> set entries
            \<and> list_all (\<lambda>h. h \<in> set live \<or> stat_ok io h) (listed entries))
        \<and> (\<forall>stats. result = Inr stats \<longrightarrow>
            blobs_deleted stats + length bs' = length bs
            \<and> bytes_freed stats + blob_bytes bs' = blob_bytes bs
            \<and> tombstones_purged stats + length (db_files db') = length (db_files db))"
proof (cases "prepare_gc_live_set (retention_cutoff_ms now_ms snapshot_retention) keep_last db")
  case (Inl e)
  with run show ?thesis by (simp add: run_gc_def)
next
  case (Inr p)
  obtain live db1 where p: "p = (live, db1)" by (cases p)
  let ?old = "\<lambda>row. tombstone_expired (retention_cutoff_ms now_ms tombstone_retention) (snd row)"
  define stats0 where "stats0 = \<lparr>blobs_deleted = 0, tombstones_purged = length (filter ?old (db_files db1)), bytes_freed = 0\<rparr>"
  have db1: "db1 = db\<lparr>db_manifests := filter (gc_keeps (retention_cutoff_ms now_ms snapshot_retention) keep_last db) (db_manifests db)\<rparr>"
    using gc_live_set_cases(2) [OF keyed Inr [unfolded p]] by blast
  obtain ok stats bs2 where sweep: "sweep_dir io live grace entries [] (stats0, bs) = (ok, stats, bs2)"
    by (metis prod_cases3)
  have result: "result = (if ok then Inr stats else Inl BlobMetadata)" "bs' = bs2"
    "db' = db1\<lparr>db_files := filter (\<lambda>row. \<not> ?old row) (db_files db1)\<rparr>"
    using run Inr p sweep listing(1) by (auto simp: run_gc_def purge_exact stats0_def [symmetric] Let_def)
  have ok: "is_ok result \<longleftrightarrow> ok" by (simp add: result(1))
  note exact = sweep_dir_exact [OF sweep d] and fine = sweep_dir_ok [OF listing(2,3), of io live grace stats0]
  have "length (filter ?old (db_files db)) + length (filter (\<lambda>row. \<not> ?old row) (db_files db)) = length (db_files db)"
    by (rule sum_length_filter_compl)
  then have "ok \<longrightarrow> blobs_deleted stats + length bs' = length bs \<and> bytes_freed stats + blob_bytes bs' = blob_bytes bs
      \<and> tombstones_purged stats + length (db_files db') = length (db_files db)"
    using exact result(2,3) by (auto simp: db1 stats0_def)
  moreover have "db' = db\<lparr>db_manifests := filter (gc_keeps (retention_cutoff_ms now_ms snapshot_retention) keep_last db) (db_manifests db),
      db_files := filter (\<lambda>row. \<not> ?old row) (db_files db)\<rparr>"
    by (simp add: result(3) db1)
  moreover have "\<exists>pre post. listed entries = pre @ post \<and> (is_ok result \<longrightarrow> post = [])
      \<and> bs' = filter (\<lambda>b. fst b \<in> set pre \<longrightarrow> sweep_keeps io (set live) grace b) bs"
    using exact unfolding ok result(2) by blast
  moreover have "is_ok result \<longleftrightarrow> EntryUnread \<notin> set entries \<and> list_all (\<lambda>h. h \<in> set live \<or> stat_ok io h) (listed entries)"
    using fine sweep ok by simp
  ultimately show ?thesis unfolding Inr p by (simp add: result(1))
qed

definition open_io :: gc_io where
  "open_io = \<lparr>stat_ok = (\<lambda>_. True), modified_ok = (\<lambda>_. True), age_clock = (\<lambda>_. 100), unlink_ok = (\<lambda>_. True)\<rparr>"

definition sample_blobs :: blobs where
  "sample_blobs = [(sample_id CHR ''a'', \<lparr>bf_content = [], bf_modified = 0\<rparr>), (sample_id CHR ''b'', \<lparr>bf_content = [], bf_modified = 0\<rparr>)]"

definition sample_dir :: "dir_entry list" where
  "sample_dir = [EntryFile (sample_id CHR ''a''), EntrySkipped, EntryFile (sample_id CHR ''b'')]"

theorem run_gc_exact_witness:
  "\<exists>result db' bs'. run_gc open_io (Some sample_dir) 100 10 0 0 0 (sample_hub, sample_blobs) = (result, db', bs')
     \<and> keyed sample_hub \<and> distinct (map fst sample_blobs) \<and> set (listed sample_dir) \<subseteq> fst ` set sample_blobs
     \<and> is_ok (prepare_gc_live_set (retention_cutoff_ms 100 0) 0 sample_hub)
     \<and> is_ok result"
proof -
  obtain result db' bs' where run: "run_gc open_io (Some sample_dir) 100 10 0 0 0 (sample_hub, sample_blobs) = (result, db', bs')"
    by (metis prod_cases3)
  have d: "distinct (map fst sample_blobs)" and l: "distinct (listed sample_dir)" "set (listed sample_dir) \<subseteq> fst ` set sample_blobs"
    and io: "EntryUnread \<notin> set sample_dir \<and> list_all (\<lambda>h. stat_ok open_io h) (listed sample_dir)"
    by (simp_all add: sample_blobs_def sample_dir_def sample_id_def open_io_def)
  have ok: "is_ok (prepare_gc_live_set (retention_cutoff_ms 100 0) 0 sample_hub)"
    using gc_live_set_cases(1) [OF sample_hub_keyed] sample_hub_rows by (simp add: list_all_iff)
  then obtain p where p: "prepare_gc_live_set (retention_cutoff_ms 100 0) 0 sample_hub = Inr p" by (auto simp: is_ok_iff)
  show ?thesis using run_gc_exact [OF sample_hub_keyed d disjI1 [OF HOL.refl] l run] run d l io ok p sample_hub_keyed
    by (cases p) (auto simp: list_all_iff)
qed

end
