(* ===== verification/Head_Wait.thy ===== *)
theory Head_Wait
  imports Prelude "HOL-Library.AList"
begin

text \<open>
  Waiting for a workspace's head to change (\<^verbatim>\<open>server/src/app/head_wait.rs\<close> and
  \<^verbatim>\<open>handle_get_head_with_wait\<close> of \<^verbatim>\<open>routes_objects.rs\<close>): the registry of waiters with its bounds, and the
  interleaving of waiting requests with head swaps and their notifications as a step relation.
  A one-shot channel is a number; its status says whether its receiver is still pending, and a
  receiver resolves when the sender sends or is dropped.
\<close>

section \<open>The registry\<close>

datatype channel_status = Open | Sent | Dropped

record workspace_waiters =
  ww_next_id :: u64
  ww_senders :: "(u64 \<times> nat) list"

record registered_waiter =
  rw_workspace :: string
  rw_waiter_id :: u64
  rw_receiver :: nat

record head_waiters =
  hw_inner :: "(string \<times> workspace_waiters) list"
  hw_capacity :: nat
  hw_status :: "nat \<Rightarrow> channel_status"
  hw_channels :: nat

definition max_head_wait_ms :: nat where "max_head_wait_ms = 30000"
definition max_global_waiters :: nat where "max_global_waiters = 256"
definition max_workspace_waiters :: nat where "max_workspace_waiters = 16"

definition workspace_waiters_default :: workspace_waiters where
  "workspace_waiters_default = \<lparr>ww_next_id = 0, ww_senders = []\<rparr>"

definition head_waiters_new :: head_waiters where
  "head_waiters_new = \<lparr>hw_inner = [], hw_capacity = max_global_waiters, hw_status = (\<lambda>_. Open), hw_channels = 0\<rparr>"

text \<open>A sender that leaves the registry: \<^verbatim>\<open>send\<close> resolves its receiver, and so does dropping it.\<close>

definition resolve_channel :: "channel_status \<Rightarrow> nat option \<Rightarrow> (nat \<Rightarrow> channel_status) \<Rightarrow> nat \<Rightarrow> channel_status" where
  "resolve_channel how sender status =
     (case sender of None \<Rightarrow> status | Some c \<Rightarrow> status(c := if status c = Open then how else status c))"

text \<open>
  Registration: a permit, the workspace's entry, a fresh channel. A refusal for the workspace's
  bound gives the permit back. An identifier that comes round again replaces, and drops, the sender
  that had it.
\<close>

definition register :: "string \<Rightarrow> head_waiters \<Rightarrow> (registered_waiter \<times> head_waiters) option" where
  "register ws w =
     (if hw_capacity w = 0 then None
      else
        let entry = (case map_of (hw_inner w) ws of Some e \<Rightarrow> e | None \<Rightarrow> workspace_waiters_default) in
        if max_workspace_waiters \<le> length (ww_senders entry) then None
        else
          let waiter_id = ww_next_id entry;
              chan = hw_channels w;
              entry' = \<lparr>ww_next_id = ww_next_id entry + 1, ww_senders = AList.update waiter_id chan (ww_senders entry)\<rparr>
          in Some (\<lparr>rw_workspace = ws, rw_waiter_id = waiter_id, rw_receiver = chan\<rparr>,
               w\<lparr>hw_inner := AList.update ws entry' (hw_inner w), hw_capacity := hw_capacity w - 1,
                 hw_status := (resolve_channel Dropped (map_of (ww_senders entry) waiter_id) (hw_status w))(chan := Open),
                 hw_channels := chan + 1\<rparr>))"

definition unregister :: "string \<Rightarrow> u64 \<Rightarrow> head_waiters \<Rightarrow> head_waiters" where
  "unregister ws waiter_id w =
     (case map_of (hw_inner w) ws of
        None \<Rightarrow> w
      | Some entry \<Rightarrow>
          let senders = AList.delete waiter_id (ww_senders entry);
              w1 = w\<lparr>hw_status := resolve_channel Dropped (map_of (ww_senders entry) waiter_id) (hw_status w)\<rparr>
          in if senders = [] then w1\<lparr>hw_inner := AList.delete ws (hw_inner w)\<rparr>
             else w1\<lparr>hw_inner := AList.update ws (entry\<lparr>ww_senders := senders\<rparr>) (hw_inner w)\<rparr>)"

definition notify :: "string \<Rightarrow> head_waiters \<Rightarrow> head_waiters" where
  "notify ws w =
     (case map_of (hw_inner w) ws of
        None \<Rightarrow> w
      | Some entry \<Rightarrow>
          w\<lparr>hw_inner := AList.delete ws (hw_inner w),
            hw_status := fold (\<lambda>(_, c). resolve_channel Sent (Some c)) (ww_senders entry) (hw_status w)\<rparr>)"

text \<open>\<^verbatim>\<open>Drop\<close> of a registered waiter: its registration is released, then its permit.\<close>

definition drop_waiter :: "registered_waiter \<Rightarrow> head_waiters \<Rightarrow> head_waiters" where
  "drop_waiter h w =
     (let w' = unregister (rw_workspace h) (rw_waiter_id h) w in w'\<lparr>hw_capacity := hw_capacity w' + 1\<rparr>)"

section \<open>What the registry keeps\<close>

text \<open>
  For the waiters \<open>hs\<close> that are alive: permits are neither lost nor invented, no workspace has more
  than its bound of senders, no empty entry stays behind, and a waiter whose channel is still open has
  its sender in the registry under its workspace and identifier.
\<close>

definition entry_ok :: "workspace_waiters \<Rightarrow> bool" where
  "entry_ok e \<longleftrightarrow> ww_senders e \<noteq> [] \<and> length (ww_senders e) \<le> max_workspace_waiters
     \<and> distinct (map fst (ww_senders e))"

definition waiter_ok :: "head_waiters \<Rightarrow> registered_waiter \<Rightarrow> bool" where
  "waiter_ok w h \<longleftrightarrow> rw_receiver h < hw_channels w
     \<and> (hw_status w (rw_receiver h) = Open \<longrightarrow>
          (\<exists>e. map_of (hw_inner w) (rw_workspace h) = Some e
             \<and> map_of (ww_senders e) (rw_waiter_id h) = Some (rw_receiver h)))"

definition registry_ok :: "registered_waiter list \<Rightarrow> head_waiters \<Rightarrow> bool" where
  "registry_ok hs w \<longleftrightarrow>
     distinct (map fst (hw_inner w)) \<and> hw_capacity w + length hs = max_global_waiters
     \<and> (\<forall>ws e. map_of (hw_inner w) ws = Some e \<longrightarrow> entry_ok e) \<and> (\<forall>h\<in>set hs. waiter_ok w h)"

lemma registry_new: "registry_ok [] head_waiters_new"
  by (simp add: registry_ok_def head_waiters_new_def)

lemma registry_okD:
  assumes "registry_ok hs w"
  shows "distinct (map fst (hw_inner w))" "hw_capacity w + length hs = max_global_waiters"
    "map_of (hw_inner w) ws = Some e \<Longrightarrow> entry_ok e" "h \<in> set hs \<Longrightarrow> waiter_ok w h"
  using assms unfolding registry_ok_def by blast+

lemma resolve_channel_Open:
  "resolve_channel how sender status c = Open \<Longrightarrow> how \<noteq> Open \<Longrightarrow> status c = Open \<and> sender \<noteq> Some c"
  by (auto simp: resolve_channel_def split: option.splits if_splits)

lemma notify_Open:
  "fold (\<lambda>(_, c). resolve_channel Sent (Some c)) senders status c = Open \<Longrightarrow>
     status c = Open \<and> c \<notin> set (map snd senders)"
proof (induction senders arbitrary: status)
  case (Cons s senders)
  then have "resolve_channel Sent (Some (snd s)) status c = Open \<and> c \<notin> set (map snd senders)"
    by (simp add: split_beta)
  then show ?case by (auto dest: resolve_channel_Open)
qed simp

lemma waiter_okD:
  assumes "waiter_ok w h" and "hw_status w (rw_receiver h) = Open"
  obtains e where "map_of (hw_inner w) (rw_workspace h) = Some e"
    and "map_of (ww_senders e) (rw_waiter_id h) = Some (rw_receiver h)"
  using assms unfolding waiter_ok_def by blast

lemma length_update: "length (AList.update k v kvs) \<le> length kvs + 1"
  by (induction kvs) auto

lemma register_ok:
  assumes ok: "registry_ok hs w" and reg: "register ws w = Some (h, w')"
  shows "registry_ok (h # hs) w' \<and> rw_workspace h = ws \<and> hw_status w' (rw_receiver h) = Open"
proof -
  define entry where "entry = (case map_of (hw_inner w) ws of Some e \<Rightarrow> e | None \<Rightarrow> workspace_waiters_default)"
  define entry' where "entry' = \<lparr>ww_next_id = ww_next_id entry + 1,
    ww_senders = AList.update (ww_next_id entry) (hw_channels w) (ww_senders entry)\<rparr>"
  have cap: "hw_capacity w \<noteq> 0" and room: "length (ww_senders entry) < max_workspace_waiters"
    and h: "h = \<lparr>rw_workspace = ws, rw_waiter_id = ww_next_id entry, rw_receiver = hw_channels w\<rparr>"
    and w': "w' = w\<lparr>hw_inner := AList.update ws entry' (hw_inner w), hw_capacity := hw_capacity w - 1,
      hw_status := (resolve_channel Dropped (map_of (ww_senders entry) (ww_next_id entry)) (hw_status w))(hw_channels w := Open),
      hw_channels := hw_channels w + 1\<rparr>"
    using reg by (auto simp: register_def Let_def entry_def entry'_def split: if_splits)
  have old: "distinct (map fst (ww_senders entry))"
    using registry_okD(3) [OF ok, of ws]
    by (cases "map_of (hw_inner w) ws") (auto simp: entry_def entry_ok_def workspace_waiters_default_def)
  have new: "entry_ok entry'"
    using room length_update [of "ww_next_id entry" "hw_channels w" "ww_senders entry"] old
    by (simp add: entry_ok_def entry'_def distinct_update)
  have others: "waiter_ok w' h'" if "h' \<in> set hs" for h'
  proof -
    have ok': "waiter_ok w h'" by (rule registry_okD(4) [OF ok that])
    then have fresh: "rw_receiver h' < hw_channels w" by (simp add: waiter_ok_def)
    have "\<exists>e. map_of (hw_inner w') (rw_workspace h') = Some e \<and> map_of (ww_senders e) (rw_waiter_id h') = Some (rw_receiver h')"
      if "hw_status w' (rw_receiver h') = Open"
    proof -
      have st: "hw_status w (rw_receiver h') = Open"
        "map_of (ww_senders entry) (ww_next_id entry) \<noteq> Some (rw_receiver h')"
        using that fresh by (auto simp: w' dest: resolve_channel_Open)
      from waiter_okD [OF ok' st(1)] obtain e where e: "map_of (hw_inner w) (rw_workspace h') = Some e"
        "map_of (ww_senders e) (rw_waiter_id h') = Some (rw_receiver h')" .
      show ?thesis using e st(2) by (cases "rw_workspace h' = ws") (auto simp: w' update_conv' entry'_def entry_def)
    qed
    with fresh show ?thesis by (simp add: waiter_ok_def w')
  qed
  have "waiter_ok w' h" by (simp add: waiter_ok_def w' h update_conv' entry'_def)
  with others new ok cap show ?thesis
    by (auto simp: registry_ok_def w' h distinct_update update_conv' split: if_splits)
qed

lemma unregister_ok:
  assumes "registry_ok hs w"
  shows "registry_ok hs (unregister ws waiter_id w)"
proof (cases "map_of (hw_inner w) ws")
  case None
  with assms show ?thesis by (simp add: unregister_def)
next
  case (Some entry)
  define senders where "senders = AList.delete waiter_id (ww_senders entry)"
  have entry: "entry_ok entry" by (rule registry_okD(3) [OF assms Some])
  define w' where "w' = unregister ws waiter_id w"
  have fields: "hw_capacity w' = hw_capacity w" "hw_channels w' = hw_channels w"
    "hw_status w' = resolve_channel Dropped (map_of (ww_senders entry) waiter_id) (hw_status w)"
    by (simp_all add: w'_def unregister_def Some Let_def)
  have inner: "map_of (hw_inner w') = (map_of (hw_inner w))(ws := if senders = [] then None else Some (entry\<lparr>ww_senders := senders\<rparr>))"
    by (simp add: w'_def unregister_def Some Let_def senders_def update_conv' delete_conv')
  have distinct: "distinct (map fst (hw_inner w'))"
    using registry_okD(1) [OF assms]
    by (simp add: w'_def unregister_def Some Let_def distinct_update distinct_delete)
  have e': "entry_ok (entry\<lparr>ww_senders := senders\<rparr>)" if "senders \<noteq> []"
    using that entry length_delete_le [of waiter_id "ww_senders entry"]
    by (auto simp: entry_ok_def senders_def distinct_delete)
  have "waiter_ok w' h" if "h \<in> set hs" for h
  proof -
    have ok: "waiter_ok w h" by (rule registry_okD(4) [OF assms that])
    have "\<exists>e. map_of (hw_inner w') (rw_workspace h) = Some e \<and> map_of (ww_senders e) (rw_waiter_id h) = Some (rw_receiver h)"
      if "hw_status w' (rw_receiver h) = Open"
    proof -
      have st: "hw_status w (rw_receiver h) = Open" "map_of (ww_senders entry) waiter_id \<noteq> Some (rw_receiver h)"
        using that unfolding fields by (auto dest: resolve_channel_Open)
      from waiter_okD [OF ok st(1)] obtain e where e: "map_of (hw_inner w) (rw_workspace h) = Some e"
        "map_of (ww_senders e) (rw_waiter_id h) = Some (rw_receiver h)" .
      show ?thesis
      proof (cases "rw_workspace h = ws")
        case True
        with e Some st(2) have "map_of senders (rw_waiter_id h) = Some (rw_receiver h)"
          by (auto simp: senders_def delete_conv')
        with True show ?thesis by (auto simp: inner)
      qed (use e in \<open>simp add: inner\<close>)
    qed
    with ok show ?thesis by (simp add: waiter_ok_def fields)
  qed
  with distinct e' registry_okD [OF assms] show ?thesis unfolding w'_def [symmetric]
    by (auto simp: registry_ok_def fields inner split: if_splits)
qed

lemma notify_ok:
  assumes "registry_ok hs w"
  shows "registry_ok hs (notify ws w)
    \<and> (\<forall>h\<in>set hs. rw_workspace h = ws \<longrightarrow> hw_status (notify ws w) (rw_receiver h) \<noteq> Open)"
proof (cases "map_of (hw_inner w) ws")
  case None
  then have same: "notify ws w = w" by (simp add: notify_def)
  have "hw_status w (rw_receiver h) \<noteq> Open" if "h \<in> set hs" "rw_workspace h = ws" for h
    using waiter_okD [OF registry_okD(4) [OF assms that(1)]] that(2) None by auto
  with assms same show ?thesis by simp
next
  case (Some entry)
  define w' where "w' = notify ws w"
  have fields: "hw_capacity w' = hw_capacity w" "hw_channels w' = hw_channels w"
    "hw_inner w' = AList.delete ws (hw_inner w)"
    "hw_status w' = fold (\<lambda>(_, c). resolve_channel Sent (Some c)) (ww_senders entry) (hw_status w)"
    by (simp_all add: w'_def notify_def Some)
  have waits: "rw_workspace h \<noteq> ws \<and> (\<exists>e. map_of (hw_inner w) (rw_workspace h) = Some e
      \<and> map_of (ww_senders e) (rw_waiter_id h) = Some (rw_receiver h))"
    if "h \<in> set hs" "hw_status w' (rw_receiver h) = Open" for h
  proof -
    have st: "hw_status w (rw_receiver h) = Open" "rw_receiver h \<notin> set (map snd (ww_senders entry))"
      using notify_Open [OF that(2) [unfolded fields]] by blast+
    from waiter_okD [OF registry_okD(4) [OF assms that(1)] st(1)] obtain e
      where e: "map_of (hw_inner w) (rw_workspace h) = Some e"
        "map_of (ww_senders e) (rw_waiter_id h) = Some (rw_receiver h)" .
    have "rw_workspace h \<noteq> ws"
      using e st(2) Some by (force dest: map_of_SomeD)
    with e show ?thesis by blast
  qed
  have "waiter_ok w' h" if "h \<in> set hs" for h
    using waits [OF that] registry_okD(4) [OF assms that] by (auto simp: waiter_ok_def fields delete_conv')
  with registry_okD [OF assms] have "registry_ok hs w'"
    by (auto simp: registry_ok_def fields distinct_delete delete_conv' split: if_splits)
  with waits show ?thesis unfolding w'_def by blast
qed

lemma drop_waiter_ok:
  assumes "registry_ok (hs @ h # hs') w"
  shows "registry_ok (hs @ hs') (drop_waiter h w)"
  using unregister_ok [OF assms, of "rw_workspace h" "rw_waiter_id h"]
  by (auto simp: registry_ok_def drop_waiter_def Let_def waiter_ok_def)

lemma registry_ok_mset: "mset hs = mset hs' \<Longrightarrow> registry_ok hs w = registry_ok hs' w"
  unfolding registry_ok_def by (metis mset_eq_length mset_eq_setD)

text \<open>A channel that has resolved stays so.\<close>

lemma resolve_channel_stays: "status c \<noteq> Open \<Longrightarrow> resolve_channel how sender status c \<noteq> Open"
  by (auto simp: resolve_channel_def split: option.splits)

lemma register_stays:
  "register ws w = Some (h, w') \<Longrightarrow> hw_status w c \<noteq> Open \<Longrightarrow> c < hw_channels w \<Longrightarrow> hw_status w' c \<noteq> Open"
  by (auto simp: register_def Let_def resolve_channel_stays split: if_splits)

lemma drop_waiter_stays: "hw_status w c \<noteq> Open \<Longrightarrow> hw_status (drop_waiter h w) c \<noteq> Open"
  by (simp add: drop_waiter_def unregister_def Let_def resolve_channel_stays split: option.split)

lemma notify_stays: "hw_status w c \<noteq> Open \<Longrightarrow> hw_status (notify ws w) c \<noteq> Open"
  by (auto simp: notify_def dest: notify_Open split: option.splits)

section \<open>Waiting requests\<close>

text \<open>
  \<^verbatim>\<open>handle_get_head_with_wait\<close> up to the registration: the answer it gives at once, if any, with the
  head it has read.
\<close>

definition wait_admit :: "string option \<Rightarrow> string \<Rightarrow> nat option \<Rightarrow> string option option" where
  "wait_admit current after wait_ms =
     (if current \<noteq> Some after then Some current
      else (case wait_ms of
          None \<Rightarrow> Some current
        | Some requested \<Rightarrow> if min requested max_head_wait_ms = 0 then Some current else None))"

text \<open>Where a request is: before its registration, before its second look at the head, or waiting.\<close>

datatype wait_phase =
    ToRegister string string
  | ToRecheck string registered_waiter
  | Waiting string registered_waiter

fun phase_waiter :: "wait_phase \<Rightarrow> registered_waiter list" where
  "phase_waiter (ToRegister ws after) = []"
| "phase_waiter (ToRecheck after h) = [h]"
| "phase_waiter (Waiting after h) = [h]"

record wait_system =
  ws_head :: "string \<Rightarrow> string option"
  ws_pending :: "string list"
  ws_waiters :: head_waiters
  ws_requests :: "wait_phase list"

definition wait_system_new :: "(string \<Rightarrow> string option) \<Rightarrow> wait_system" where
  "wait_system_new heads = \<lparr>ws_head = heads, ws_pending = [], ws_waiters = head_waiters_new, ws_requests = []\<rparr>"

text \<open>
  The steps of the requests, of timeouts and disconnects, and of \<^verbatim>\<open>handle_swap_head\<close>, which makes the swap
  durable first and notifies after.
\<close>

inductive wait_step :: "wait_system \<Rightarrow> wait_system \<Rightarrow> bool" where
  admit: "wait_admit (ws_head s ws) after wait_ms = None \<Longrightarrow>
    wait_step s (s\<lparr>ws_requests := ws_requests s @ [ToRegister ws after]\<rparr>)"
| registered: "ws_requests s = rs @ ToRegister ws after # rs' \<Longrightarrow> register ws (ws_waiters s) = Some (h, w) \<Longrightarrow>
    wait_step s (s\<lparr>ws_waiters := w, ws_requests := rs @ ToRecheck after h # rs'\<rparr>)"
| unavailable: "ws_requests s = rs @ ToRegister ws after # rs' \<Longrightarrow> register ws (ws_waiters s) = None \<Longrightarrow>
    wait_step s (s\<lparr>ws_requests := rs @ rs'\<rparr>)"
| unchanged: "ws_requests s = rs @ ToRecheck after h # rs' \<Longrightarrow> ws_head s (rw_workspace h) = Some after \<Longrightarrow>
    wait_step s (s\<lparr>ws_requests := rs @ Waiting after h # rs'\<rparr>)"
| changed: "ws_requests s = rs @ ToRecheck after h # rs' \<Longrightarrow> ws_head s (rw_workspace h) \<noteq> Some after \<Longrightarrow>
    wait_step s (s\<lparr>ws_waiters := drop_waiter h (ws_waiters s), ws_requests := rs @ rs'\<rparr>)"
| woken: "ws_requests s = rs @ Waiting after h # rs' \<Longrightarrow> hw_status (ws_waiters s) (rw_receiver h) \<noteq> Open \<Longrightarrow>
    wait_step s (s\<lparr>ws_waiters := drop_waiter h (ws_waiters s), ws_requests := rs @ rs'\<rparr>)"
| gives_up: "ws_requests s = rs @ p # rs' \<Longrightarrow> phase_waiter p = [h] \<Longrightarrow>
    wait_step s (s\<lparr>ws_waiters := drop_waiter h (ws_waiters s), ws_requests := rs @ rs'\<rparr>)"
| swap: "wait_step s (s\<lparr>ws_head := (ws_head s)(ws := Some new), ws_pending := ws_pending s @ [ws]\<rparr>)"
| notified: "ws_pending s = ps @ ws # ps' \<Longrightarrow>
    wait_step s (s\<lparr>ws_pending := ps @ ps', ws_waiters := notify ws (ws_waiters s)\<rparr>)"

inductive_cases wait_stepE: "wait_step s s'"

definition alive :: "wait_system \<Rightarrow> registered_waiter list" where
  "alive s = concat (map phase_waiter (ws_requests s))"

definition wait_ok :: "wait_system \<Rightarrow> bool" where
  "wait_ok s \<longleftrightarrow> registry_ok (alive s) (ws_waiters s)
     \<and> (\<forall>after h. Waiting after h \<in> set (ws_requests s) \<longrightarrow>
          ws_head s (rw_workspace h) = Some after \<or> rw_workspace h \<in> set (ws_pending s)
          \<or> hw_status (ws_waiters s) (rw_receiver h) \<noteq> Open)"

lemma wait_ok_new: "wait_ok (wait_system_new heads)"
  by (simp add: wait_ok_def wait_system_new_def alive_def registry_new)

lemma wait_okD:
  assumes "wait_ok s"
  shows "registry_ok (alive s) (ws_waiters s)"
    "Waiting after h \<in> set (ws_requests s) \<Longrightarrow>
      ws_head s (rw_workspace h) = Some after \<or> rw_workspace h \<in> set (ws_pending s)
      \<or> hw_status (ws_waiters s) (rw_receiver h) \<noteq> Open"
    "Waiting after h \<in> set (ws_requests s) \<Longrightarrow> rw_receiver h < hw_channels (ws_waiters s)"
proof -
  show reg: "registry_ok (alive s) (ws_waiters s)" using assms unfolding wait_ok_def by blast
  show "Waiting after h \<in> set (ws_requests s) \<Longrightarrow>
      ws_head s (rw_workspace h) = Some after \<or> rw_workspace h \<in> set (ws_pending s)
      \<or> hw_status (ws_waiters s) (rw_receiver h) \<noteq> Open"
    using assms unfolding wait_ok_def by blast
  assume "Waiting after h \<in> set (ws_requests s)"
  then have "h \<in> set (alive s)" by (force simp: alive_def)
  with registry_okD(4) [OF reg] show "rw_receiver h < hw_channels (ws_waiters s)" by (simp add: waiter_ok_def)
qed

text \<open>A request that leaves, and drops its waiter, keeps the invariant.\<close>

lemma wait_ok_leave:
  assumes ok: "wait_ok s" and rs: "ws_requests s = rs @ p # rs'" and p: "phase_waiter p = [h]"
  shows "wait_ok (s\<lparr>ws_waiters := drop_waiter h (ws_waiters s), ws_requests := rs @ rs'\<rparr>)"
proof -
  have "registry_ok (concat (map phase_waiter rs) @ concat (map phase_waiter rs')) (drop_waiter h (ws_waiters s))"
    using wait_okD(1) [OF ok] by (intro drop_waiter_ok) (simp add: alive_def rs p)
  then show ?thesis
    using wait_okD(2) [OF ok] rs drop_waiter_stays [of "ws_waiters s"]
    by (fastforce simp: wait_ok_def alive_def)
qed

lemma wait_step_ok:
  assumes "wait_step s s'" and ok: "wait_ok s"
  shows "wait_ok s'"
  using assms
proof cases
  case (registered rs ws after rs' h w)
  have reg: "registry_ok (h # alive s) w"
    using register_ok [OF wait_okD(1) [OF ok] registered(3)] by blast
  have "mset (h # alive s) = mset (alive s')" by (simp add: registered alive_def)
  with reg have "registry_ok (alive s') w" using registry_ok_mset by blast
  then show ?thesis
    using wait_okD(2,3) [OF ok] register_stays [OF registered(3)] unfolding wait_ok_def registered(1) registered(2)
    by (fastforce simp: registered(2))
next
  case (notified ps ws ps')
  note n = notify_ok [OF wait_okD(1) [OF ok], of ws]
  have "hw_status (notify ws (ws_waiters s)) (rw_receiver h) \<noteq> Open"
    if "Waiting after h \<in> set (ws_requests s)" "rw_workspace h = ws" for after h
    using that n by (force simp: alive_def)
  with n wait_okD(2) [OF ok] notify_stays [of "ws_waiters s"] show ?thesis
    unfolding notified wait_ok_def by (fastforce simp: alive_def notified)
next
  case (unchanged rs after h rs')
  then show ?thesis using wait_okD [OF ok] by (fastforce simp: wait_ok_def alive_def)
qed (use wait_okD [OF ok] wait_ok_leave [OF ok] in \<open>auto simp: wait_ok_def alive_def\<close>)

lemma wait_reachable_ok: "wait_step\<^sup>*\<^sup>* (wait_system_new heads) s \<Longrightarrow> wait_ok s"
  by (induction rule: rtranclp_induct) (auto intro: wait_ok_new wait_step_ok)

text \<open>
  Dropping a waiter is not always exact. Identifiers are counted in the workspace's entry, and a
  notification removes the entry; so a waiter that was notified but not dropped yet shares its
  identifier with the next one to register, and dropping it removes the other's sender, whose receiver
  then resolves although no head has changed.
\<close>

lemma stale_drop_wakes_other:
  assumes "register ws head_waiters_new = Some (h1, w1)"
    and "register ws (notify ws w1) = Some (h2, w2)"
  shows "hw_status w2 (rw_receiver h2) = Open \<and> rw_receiver h1 \<noteq> rw_receiver h2
    \<and> hw_status (drop_waiter h1 w2) (rw_receiver h2) = Dropped"
  using assms
  by (auto simp: register_def notify_def head_waiters_new_def workspace_waiters_default_def max_global_waiters_def
      max_workspace_waiters_def drop_waiter_def unregister_def resolve_channel_def Let_def split: if_splits)

text \<open>
  C33. No wake-up is lost and the bounds hold. In every reachable state of any number of waiting
  requests, timeouts, disconnects, head swaps and notifications, a request that waits while its head
  differs from the one it observed has been woken, unless the notification of a swap of its workspace is
  still to come; at most 256 waiters are alive, no workspace has more than 16 registered
  senders, and no permit is lost.
\<close>

theorem wait_no_lost_wakeup:
  assumes "wait_step\<^sup>*\<^sup>* (wait_system_new heads) s"
  shows "(\<forall>after h. Waiting after h \<in> set (ws_requests s) \<and> ws_head s (rw_workspace h) \<noteq> Some after
        \<and> rw_workspace h \<notin> set (ws_pending s) \<longrightarrow> hw_status (ws_waiters s) (rw_receiver h) \<noteq> Open)
    \<and> hw_capacity (ws_waiters s) + length (alive s) = max_global_waiters
    \<and> (\<forall>ws e. map_of (hw_inner (ws_waiters s)) ws = Some e \<longrightarrow>
         ww_senders e \<noteq> [] \<and> length (ww_senders e) \<le> max_workspace_waiters)"
proof -
  have ok: "wait_ok s" by (rule wait_reachable_ok [OF assms])
  have "ww_senders e \<noteq> [] \<and> length (ww_senders e) \<le> max_workspace_waiters"
    if "map_of (hw_inner (ws_waiters s)) ws = Some e" for ws e
    using registry_okD(3) [OF wait_okD(1) [OF ok] that] by (simp add: entry_ok_def)
  then show ?thesis using wait_okD(2) [OF ok] registry_okD(2) [OF wait_okD(1) [OF ok]] by blast
qed

text \<open>A request that registers, sees the head unchanged, and is overtaken by a swap.\<close>

definition overtaken :: wait_system where
  "overtaken =
     (let w = snd (the (register ''w'' head_waiters_new)) in
      \<lparr>ws_head = [''w'' \<mapsto> ''new''], ws_pending = [], ws_waiters = notify ''w'' w,
       ws_requests = [Waiting ''old'' \<lparr>rw_workspace = ''w'', rw_waiter_id = 0, rw_receiver = 0\<rparr>]\<rparr>)"

lemma overtaken_reachable: "wait_step\<^sup>*\<^sup>* (wait_system_new [''w'' \<mapsto> ''old'']) overtaken"
proof -
  let ?s0 = "wait_system_new [''w'' \<mapsto> ''old'']"
  let ?h = "\<lparr>rw_workspace = ''w'', rw_waiter_id = 0, rw_receiver = 0\<rparr>"
  obtain w where w: "register ''w'' head_waiters_new = Some (?h, w)"
    by (simp add: register_def head_waiters_new_def max_global_waiters_def max_workspace_waiters_def
        workspace_waiters_default_def Let_def)
  let ?s1 = "?s0\<lparr>ws_requests := [ToRegister ''w'' ''old'']\<rparr>"
  let ?s2 = "?s1\<lparr>ws_waiters := w, ws_requests := [ToRecheck ''old'' ?h]\<rparr>"
  let ?s3 = "?s2\<lparr>ws_requests := [Waiting ''old'' ?h]\<rparr>"
  let ?s4 = "?s3\<lparr>ws_head := (ws_head ?s3)(''w'' := Some ''new''), ws_pending := ws_pending ?s3 @ [''w'']\<rparr>"
  have 1: "wait_step ?s0 ?s1"
    using admit [of ?s0 "''w''" "''old''" "Some 1"] by (simp add: wait_admit_def wait_system_new_def max_head_wait_ms_def)
  have 2: "wait_step ?s1 ?s2"
    using registered [of ?s1 "[]" "''w''" "''old''" "[]"] w by (simp add: wait_system_new_def)
  have 3: "wait_step ?s2 ?s3"
    using unchanged [of ?s2 "[]" "''old''" ?h "[]"] by (simp add: wait_system_new_def)
  have 4: "wait_step ?s3 ?s4" by (rule swap)
  have 5: "wait_step ?s4 overtaken"
    using notified [of ?s4 "[]" "''w''" "[]"] w by (simp add: wait_system_new_def overtaken_def)
  from 1 2 3 4 5 show ?thesis by (meson converse_rtranclp_into_rtranclp rtranclp.rtrancl_refl)
qed

theorem wait_no_lost_wakeup_witness:
  "wait_step\<^sup>*\<^sup>* (wait_system_new [''w'' \<mapsto> ''old'']) overtaken
   \<and> hw_status (ws_waiters overtaken) 0 \<noteq> Open"
  using wait_no_lost_wakeup [OF overtaken_reachable] overtaken_reachable by (simp add: overtaken_def Let_def)

end
