(* ===== verification/Hub_App.thy ===== *)
theory Hub_App
  imports Hub_Gc Head_Wait
begin

text \<open>
  The hub's request handlers (\<^verbatim>\<open>server/src/app/\<close>: \<^verbatim>\<open>guards.rs\<close>, \<^verbatim>\<open>routes_legacy.rs\<close>,
  \<^verbatim>\<open>routes_objects.rs\<close>, \<^verbatim>\<open>routes_publication.rs\<close>) as functions of the hub's state to a status and a new
  state. What SQLite itself may fail at is left out; a failed statement rolls back and answers 500.
\<close>

section \<open>Requests\<close>

datatype status =
    Ok200 | BadRequest400 | Unauthorized401 | NotFound404 | Conflict409 | PreconditionFailed412
  | PayloadTooLarge413 | Locked423 | UpgradeRequired426 | Internal500 | Unavailable503 | InsufficientStorage507

record hub_headers =
  hd_format :: "string option"
  hd_migration :: "string option"

record upload_params =
  up_workspace_id :: string
  up_path :: string
  up_hash :: string
  up_size :: u64
  up_mtime :: i64
  up_mode :: u32
  up_deleted :: bool
  up_object :: bool

record app_state =
  app_db :: hub_db
  app_blobs :: blobs
  app_waiters :: head_waiters

definition init_app_state :: app_state where
  "init_app_state = \<lparr>app_db = hub_db_new, app_blobs = [], app_waiters = head_waiters_new\<rparr>"

definition supported_format_version :: nat where "supported_format_version = 3"

definition is_supported_format_version :: "nat \<Rightarrow> bool" where
  "is_supported_format_version version = (version = supported_format_version)"

definition hash_bytes :: "prims \<Rightarrow> bytes \<Rightarrow> string" where
  "hash_bytes P body = blake3_hex P body"

text \<open>\<^verbatim>\<open>str::parse::<u32>\<close>: decimal digits, at least one, after an optional plus sign, within 32 bits.\<close>

definition parse_u32 :: "string \<Rightarrow> nat option" where
  "parse_u32 s =
     (let ds = (if s \<noteq> [] \<and> hd s = CHR ''+'' then tl s else s);
          v = foldl (\<lambda>acc d. 10 * acc + (of_char d - 48)) 0 ds
      in if ds \<noteq> [] \<and> list_all (between 48 57) ds \<and> v < 2 ^ 32 then Some v else None)"

section \<open>Guards\<close>

definition client_format :: "hub_headers \<Rightarrow> nat" where
  "client_format hdr = (case hd_format hdr of None \<Rightarrow> 2 | Some v \<Rightarrow> (case parse_u32 v of None \<Rightarrow> 2 | Some n \<Rightarrow> n))"

definition ensure_client_format :: "hub_db \<Rightarrow> string \<Rightarrow> hub_headers \<Rightarrow> status + unit" where
  "ensure_client_format db ws hdr =
     (if workspace_format ws db \<ge> 3 \<and> client_format hdr < 3 then Inl UpgradeRequired426 else Inr ())"

definition ensure_migration_access :: "hub_db \<Rightarrow> string \<Rightarrow> hub_headers \<Rightarrow> status + unit" where
  "ensure_migration_access db ws hdr =
     (case migration_token ws db of
        None \<Rightarrow> Inr ()
      | Some expected \<Rightarrow> if hd_migration hdr = Some expected then Inr () else Inl Locked423)"

definition publication_access :: "hub_db \<Rightarrow> string \<Rightarrow> hub_headers \<Rightarrow> status + unit" where
  "publication_access db ws hdr =
     rbind (ensure_client_format db ws hdr) (\<lambda>_. ensure_migration_access db ws hdr)"

text \<open>\<^verbatim>\<open>auth_middleware\<close>: the bearer token, then a permit of the pool for the route.\<close>

definition auth_middleware :: "string option \<Rightarrow> string option \<Rightarrow> bool \<Rightarrow> nat \<Rightarrow> nat \<Rightarrow> status + unit" where
  "auth_middleware auth_token bearer is_get_head head_permits protected_permits =
     (case auth_token of
        Some expected \<Rightarrow>
          if bearer \<noteq> Some expected then Inl Unauthorized401
          else if (if is_get_head then head_permits else protected_permits) = 0 then Inl Unavailable503 else Inr ()
      | None \<Rightarrow> if (if is_get_head then head_permits else protected_permits) = 0 then Inl Unavailable503 else Inr ())"

section \<open>Uploads\<close>

text \<open>
  What an admitted upload will do. \<^verbatim>\<open>handle_upload\<close> decides it under the publication lock; the decision
  depends on the database only through the workspace's format and its fence.
\<close>

datatype upload_plan =
    RetireUnsafe
  | PutTombstone file_state
  | PutBlob bool file_state

definition upload_file :: "upload_params \<Rightarrow> bool \<Rightarrow> file_state" where
  "upload_file p deleted =
     \<lparr>fs_path = up_path p, fs_hash = up_hash p, fs_size = (if deleted then 0 else up_size p), fs_mtime = up_mtime p,
      fs_deleted = deleted, fs_mode = (if deleted then 0 else up_mode p)\<rparr>"

definition upload_admit :: "prims \<Rightarrow> hub_headers \<Rightarrow> upload_params \<Rightarrow> bytes \<Rightarrow> hub_db \<Rightarrow> status + upload_plan" where
  "upload_admit P hdr p body db =
     rbind (publication_access db (up_workspace_id p) hdr) (\<lambda>_.
     if \<not> up_object p \<and> workspace_format (up_workspace_id p) db \<ge> 3 then Inl UpgradeRequired426
     else if up_deleted p then
       (if up_object p \<or> \<not> is_valid_hash (up_hash p) then Inl BadRequest400
        else if \<not> is_safe_rel_path P (up_path p) then Inr RetireUnsafe
        else Inr (PutTombstone (upload_file p True)))
     else if \<not> is_safe_rel_path P (up_path p) then Inl BadRequest400
     else if \<not> is_valid_hash (up_hash p) then Inl BadRequest400
     else if hash_bytes P body \<noteq> up_hash p then Inl BadRequest400
     else Inr (PutBlob (up_object p) (upload_file p False)))"

text \<open>
  \<^verbatim>\<open>atomic_private_write\<close> replaces the whole file or nothing; it may also fail after the replacement,
  when the directory cannot be synchronised.
\<close>

datatype blob_write = BlobWritten | BlobNotWritten | BlobUncertain

definition write_blob :: "blob_write \<Rightarrow> int \<Rightarrow> string \<Rightarrow> bytes \<Rightarrow> app_state \<Rightarrow> app_state" where
  "write_blob outcome now hash body st =
     (if outcome = BlobNotWritten then st
      else st\<lparr>app_blobs := AList.update hash \<lparr>bf_content = body, bf_modified = now\<rparr> (app_blobs st)\<rparr>)"

definition upload_row :: "int \<Rightarrow> string \<Rightarrow> file_state \<Rightarrow> app_state \<Rightarrow> status \<times> app_state" where
  "upload_row now_s ws f st =
     (case upsert_file now_s ws f (app_db st) of
        Inl _ \<Rightarrow> (Internal500, st)
      | Inr db \<Rightarrow> (Ok200, st\<lparr>app_db := db\<rparr>))"

definition handle_upload ::
  "prims \<Rightarrow> blob_write \<Rightarrow> int \<Rightarrow> int \<Rightarrow> hub_headers \<Rightarrow> upload_params \<Rightarrow> bytes \<Rightarrow> app_state \<Rightarrow> status \<times> app_state" where
  "handle_upload P outcome now now_s hdr p body st =
     (case upload_admit P hdr p body (app_db st) of
        Inl s \<Rightarrow> (s, st)
      | Inr RetireUnsafe \<Rightarrow>
          (let (retired, db) = tombstone_existing_file now_s (up_workspace_id p) (up_path p) (up_hash p) (up_mtime p) (app_db st)
           in if retired then (Ok200, st\<lparr>app_db := db\<rparr>) else (BadRequest400, st))
      | Inr (PutTombstone f) \<Rightarrow> upload_row now_s (up_workspace_id p) f st
      | Inr (PutBlob object f) \<Rightarrow>
          (let st1 = write_blob outcome now (fs_hash f) body st
           in if outcome \<noteq> BlobWritten then (Internal500, st1)
              else if object then (Ok200, st1)
              else upload_row now_s (up_workspace_id p) f st1))"

definition handle_sync_peek :: "prims \<Rightarrow> hub_headers \<Rightarrow> string \<Rightarrow> file_state list \<Rightarrow> app_state \<Rightarrow> status + sync_response" where
  "handle_sync_peek P hdr ws files st =
     rbind (ensure_client_format (app_db st) ws hdr) (\<lambda>_.
     if workspace_format ws (app_db st) \<ge> 3 then Inl UpgradeRequired426
     else rbind (map_err (\<lambda>_. Internal500) (get_workspace_files ws (app_db st))) (\<lambda>server.
     Inr (compute_sync_delta P files server)))"

section \<open>Objects and heads\<close>

definition handle_download :: "string \<Rightarrow> app_state \<Rightarrow> status + bytes" where
  "handle_download hash st =
     (if \<not> is_valid_hash hash then Inl BadRequest400
      else (case map_of (app_blobs st) hash of None \<Rightarrow> Inl NotFound404 | Some f \<Rightarrow> Inr (bf_content f)))"

definition handle_get_workspaces :: "app_state \<Rightarrow> string list" where
  "handle_get_workspaces st = get_workspaces (app_db st)"

text \<open>The answer to a head request that does not wait; \<open>None\<close> is a request that goes on to wait.\<close>

definition handle_get_head ::
  "hub_headers \<Rightarrow> string \<Rightarrow> string option \<Rightarrow> nat option \<Rightarrow> app_state \<Rightarrow> status + (string option \<times> bool) option" where
  "handle_get_head hdr ws after wait_ms st =
     rbind (ensure_client_format (app_db st) ws hdr) (\<lambda>_.
     (case after of
        Some a \<Rightarrow>
          if \<not> is_valid_hash a then Inl BadRequest400
          else Inr (map_option (\<lambda>head. (head, True)) (wait_admit (get_head ws (app_db st)) a wait_ms))
      | None \<Rightarrow> Inr (Some (get_head ws (app_db st), False))))"

definition handle_swap_head ::
  "hub_headers \<Rightarrow> string \<Rightarrow> string option \<Rightarrow> string \<Rightarrow> app_state \<Rightarrow> (status \<times> string option) \<times> app_state" where
  "handle_swap_head hdr ws expected new st =
     (case publication_access (app_db st) ws hdr of
        Inl s \<Rightarrow> ((s, None), st)
      | Inr _ \<Rightarrow>
          if \<not> is_valid_hash new \<or> is_some_and expected (\<lambda>id. \<not> is_valid_hash id) then ((BadRequest400, None), st)
          else (case swap_head ws expected new (app_db st) of
              Inl _ \<Rightarrow> ((Internal500, None), st)
            | Inr (Swapped, db) \<Rightarrow>
                ((Ok200, Some new), st\<lparr>app_db := db, app_waiters := notify ws (app_waiters st)\<rparr>)
            | Inr (SwapConflict current, db) \<Rightarrow> ((Conflict409, current), st\<lparr>app_db := db\<rparr>)
            | Inr (MissingManifest, db) \<Rightarrow> ((PreconditionFailed412, None), st\<lparr>app_db := db\<rparr>)))"

section \<open>Publication\<close>

definition manifest_admit :: "hub_headers \<Rightarrow> string \<Rightarrow> string \<Rightarrow> bytes \<Rightarrow> hub_db \<Rightarrow> status + string list" where
  "manifest_admit hdr ws sid body db =
     rbind (publication_access db ws hdr) (\<lambda>_.
     rbind (ensure (length body \<le> max_manifest_bytes) PayloadTooLarge413) (\<lambda>_.
     rbind (ensure (utf8_ok body) BadRequest400) (\<lambda>_.
     map_err (\<lambda>_. BadRequest400) (canonical_manifest_hashes sid body))))"

definition manifest_store :: "int \<Rightarrow> string \<Rightarrow> string \<Rightarrow> string list \<Rightarrow> app_state \<Rightarrow> status \<times> app_state" where
  "manifest_store now_ms ws sid hashes st =
     (case store_canonical_manifest now_ms ws sid hashes (app_db st) of
        Inl _ \<Rightarrow> (Internal500, st)
      | Inr (outcome, db) \<Rightarrow>
          (case outcome of
             Stored \<Rightarrow> (Ok200, st\<lparr>app_db := db\<rparr>)
           | Unchanged \<Rightarrow> (Ok200, st\<lparr>app_db := db\<rparr>)
           | ManifestConflict \<Rightarrow> (BadRequest400, st\<lparr>app_db := db\<rparr>)
           | Capacity \<Rightarrow> (InsufficientStorage507, st\<lparr>app_db := db\<rparr>)))"

definition blob_exists :: "app_state \<Rightarrow> string \<Rightarrow> bool" where
  "blob_exists st hash = (map_of (app_blobs st) hash \<noteq> None)"

definition handle_manifest :: "int \<Rightarrow> hub_headers \<Rightarrow> string \<Rightarrow> string \<Rightarrow> bytes \<Rightarrow> app_state \<Rightarrow> status \<times> app_state" where
  "handle_manifest now_ms hdr ws sid body st =
     (case manifest_admit hdr ws sid body (app_db st) of
        Inl s \<Rightarrow> (s, st)
      | Inr hashes \<Rightarrow>
          if list_all (blob_exists st) hashes then manifest_store now_ms ws sid hashes st
          else (PreconditionFailed412, st))"

definition handle_set_format :: "hub_headers \<Rightarrow> string \<Rightarrow> nat \<Rightarrow> app_state \<Rightarrow> status \<times> app_state" where
  "handle_set_format hdr ws version st =
     (case publication_access (app_db st) ws hdr of
        Inl s \<Rightarrow> (s, st)
      | Inr _ \<Rightarrow>
          if \<not> is_supported_format_version version then (BadRequest400, st)
          else (case set_workspace_format ws version (app_db st) of
              Inl _ \<Rightarrow> (Internal500, st)
            | Inr db \<Rightarrow> (Ok200, st\<lparr>app_db := db\<rparr>)))"

definition handle_begin_migration :: "hub_headers \<Rightarrow> string \<Rightarrow> app_state \<Rightarrow> status \<times> app_state" where
  "handle_begin_migration hdr ws st =
     (case ensure_client_format (app_db st) ws hdr of
        Inl s \<Rightarrow> (s, st)
      | Inr _ \<Rightarrow>
          (case hd_migration hdr of
             None \<Rightarrow> (BadRequest400, st)
           | Some token \<Rightarrow>
               if \<not> is_valid_hash token then (BadRequest400, st)
               else (case begin_migration ws token (app_db st) of
                   (Acquired, db) \<Rightarrow> (Ok200, st\<lparr>app_db := db\<rparr>)
                 | (LockedByOther, db) \<Rightarrow> (Locked423, st\<lparr>app_db := db\<rparr>))))"

definition handle_get_format :: "hub_headers \<Rightarrow> string \<Rightarrow> app_state \<Rightarrow> status + nat" where
  "handle_get_format hdr ws st =
     rbind (ensure_client_format (app_db st) ws hdr) (\<lambda>_. Inr (workspace_format ws (app_db st)))"

end
