(* ===== verification/Hub_Run.thy ===== *)
theory Hub_Run
  imports Hub_App
begin

text \<open>
  The hub under concurrent requests and garbage collection. Uploads, manifests and head swaps hold the
  publication lock shared, a collection and the changes of a workspace's format hold it exclusively; the
  parts of a request between which others may run are steps of their own. The theorem is what the
  lock is for: whatever is published can be downloaded, and stays so under collection.
\<close>

section \<open>Steps\<close>

datatype flight =
    Uploading string file_state
  | Checking string string "string list" "string list"

record hub_run =
  run_app :: app_state
  run_flights :: "flight list"
  run_sweep :: "(string list \<times> string list) option"

definition hub_run_new :: hub_run where
  "hub_run_new = \<lparr>run_app = init_app_state, run_flights = [], run_sweep = None\<rparr>"

text \<open>
  A request that is cancelled leaves its lock behind but not a blob writer it has started, so a blob
  named by its content may appear at any time (\<open>late_blob\<close>).
\<close>

inductive hub_step :: "prims \<Rightarrow> hub_run \<Rightarrow> hub_run \<Rightarrow> bool" for P :: prims where
  upload_marker: "run_sweep s = None \<Longrightarrow> upload_admit P hdr p body (app_db (run_app s)) = Inr plan \<Longrightarrow>
    (\<forall>object f. plan \<noteq> PutBlob object f) \<Longrightarrow> handle_upload P outcome now now_s hdr p body (run_app s) = (st, app) \<Longrightarrow>
    hub_step P s (s\<lparr>run_app := app\<rparr>)"
| upload_blob: "run_sweep s = None \<Longrightarrow> upload_admit P hdr p body (app_db (run_app s)) = Inr (PutBlob object f) \<Longrightarrow>
    hub_step P s (s\<lparr>run_app := write_blob outcome now (fs_hash f) body (run_app s),
      run_flights := (if outcome = BlobWritten \<and> \<not> object then run_flights s @ [Uploading (up_workspace_id p) f] else run_flights s)\<rparr>)"
| upload_row: "run_flights s = fs @ Uploading ws f # fs' \<Longrightarrow> upload_row now_s ws f (run_app s) = (st, app) \<Longrightarrow>
    hub_step P s (s\<lparr>run_app := app, run_flights := fs @ fs'\<rparr>)"
| late_blob: "is_valid_hash (hash_bytes P body) \<Longrightarrow>
    hub_step P s (s\<lparr>run_app := write_blob BlobWritten now (hash_bytes P body) body (run_app s)\<rparr>)"
| manifest_begin: "run_sweep s = None \<Longrightarrow> manifest_admit hdr ws sid body (app_db (run_app s)) = Inr hashes \<Longrightarrow>
    hub_step P s (s\<lparr>run_flights := run_flights s @ [Checking ws sid hashes hashes]\<rparr>)"
| manifest_check: "run_flights s = fs @ Checking ws sid hashes (h # hs) # fs' \<Longrightarrow> blob_exists (run_app s) h \<Longrightarrow>
    hub_step P s (s\<lparr>run_flights := fs @ Checking ws sid hashes hs # fs'\<rparr>)"
| manifest_store: "run_flights s = fs @ Checking ws sid hashes [] # fs' \<Longrightarrow>
    manifest_store now_ms ws sid hashes (run_app s) = (st, app) \<Longrightarrow>
    hub_step P s (s\<lparr>run_app := app, run_flights := fs @ fs'\<rparr>)"
| leave: "run_flights s = fs @ flight # fs' \<Longrightarrow> hub_step P s (s\<lparr>run_flights := fs @ fs'\<rparr>)"
| swap: "run_sweep s = None \<Longrightarrow> handle_swap_head hdr ws expected new (run_app s) = (response, app) \<Longrightarrow>
    hub_step P s (s\<lparr>run_app := app\<rparr>)"
| set_format: "run_sweep s = None \<Longrightarrow> run_flights s = [] \<Longrightarrow> handle_set_format hdr ws version (run_app s) = (st, app) \<Longrightarrow>
    hub_step P s (s\<lparr>run_app := app\<rparr>)"
| begin_migration: "run_sweep s = None \<Longrightarrow> run_flights s = [] \<Longrightarrow> handle_begin_migration hdr ws (run_app s) = (st, app) \<Longrightarrow>
    hub_step P s (s\<lparr>run_app := app\<rparr>)"
| gc_mark: "run_sweep s = None \<Longrightarrow> run_flights s = [] \<Longrightarrow>
    prepare_gc_live_set cutoff_ms keep_last (app_db (run_app s)) = Inr (live, db1) \<Longrightarrow>
    purge_old_tombstones tombstone_cutoff db1 = (purged, db2) \<Longrightarrow>
    hub_step P s (s\<lparr>run_app := (run_app s)\<lparr>app_db := db2\<rparr>, run_sweep := Some (live, names)\<rparr>)"
| gc_sweep: "run_sweep s = Some (live, h # hs) \<Longrightarrow>
    sweep_blob_batch io live grace [h] (stats, app_blobs (run_app s)) = (ok, stats', bs) \<Longrightarrow>
    hub_step P s (s\<lparr>run_app := (run_app s)\<lparr>app_blobs := bs\<rparr>, run_sweep := (if ok then Some (live, hs) else None)\<rparr>)"
| gc_end: "run_sweep s = Some (live, hs) \<Longrightarrow> hub_step P s (s\<lparr>run_sweep := None\<rparr>)"

section \<open>The invariant\<close>

definition row_ok :: "blobs \<Rightarrow> (string \<times> string) \<times> manifest_row \<Rightarrow> bool" where
  "row_ok bs row \<longleftrightarrow> (\<exists>hs. retained_hashes row = Some hs \<and> set hs \<subseteq> dom (map_of bs))"

definition file_row_ok :: "blobs \<Rightarrow> (string \<times> string) \<times> file_row \<Rightarrow> bool" where
  "file_row_ok bs row \<longleftrightarrow> (\<not> fr_deleted (snd row) \<longrightarrow> fr_hash (snd row) \<in> dom (map_of bs))"

definition head_ok :: "hub_db \<Rightarrow> bool" where
  "head_ok db \<longleftrightarrow> (\<forall>ws sid. get_head ws db = Some sid \<longrightarrow> map_of (db_manifests db) (ws, sid) \<noteq> None)"

definition blobs_ok :: "prims \<Rightarrow> blobs \<Rightarrow> bool" where
  "blobs_ok P bs \<longleftrightarrow> distinct (map fst bs) \<and> (\<forall>h f. map_of bs h = Some f \<longrightarrow> hash_bytes P (bf_content f) = h)"

definition app_ok :: "prims \<Rightarrow> app_state \<Rightarrow> bool" where
  "app_ok P a \<longleftrightarrow> keyed (app_db a) \<and> blobs_ok P (app_blobs a) \<and> head_ok (app_db a)
     \<and> (\<forall>row\<in>set (db_manifests (app_db a)). row_ok (app_blobs a) row)
     \<and> (\<forall>row\<in>set (db_files (app_db a)). file_row_ok (app_blobs a) row)"

fun flight_ok :: "blobs \<Rightarrow> flight \<Rightarrow> bool" where
  "flight_ok bs (Uploading ws f) \<longleftrightarrow> fs_hash f \<in> dom (map_of bs)"
| "flight_ok bs (Checking ws sid hashes todo) \<longleftrightarrow> manifest_ok sid hashes \<and> set hashes \<subseteq> set todo \<union> dom (map_of bs)"

definition sweep_ok :: "hub_run \<Rightarrow> bool" where
  "sweep_ok s \<longleftrightarrow> (\<forall>live todo. run_sweep s = Some (live, todo) \<longrightarrow>
     run_flights s = []
     \<and> (\<forall>row\<in>set (db_manifests (app_db (run_app s))). set (the (retained_hashes row)) \<subseteq> set live)
     \<and> (\<forall>row\<in>set (db_files (app_db (run_app s))). \<not> fr_deleted (snd row) \<longrightarrow> fr_hash (snd row) \<in> set live))"

definition run_ok :: "prims \<Rightarrow> hub_run \<Rightarrow> bool" where
  "run_ok P s \<longleftrightarrow> app_ok P (run_app s) \<and> (\<forall>f\<in>set (run_flights s). flight_ok (app_blobs (run_app s)) f) \<and> sweep_ok s"

lemma app_okD:
  assumes "app_ok P a"
  shows "keyed (app_db a)" "blobs_ok P (app_blobs a)" "head_ok (app_db a)"
    "row \<in> set (db_manifests (app_db a)) \<Longrightarrow> row_ok (app_blobs a) row"
    "frow \<in> set (db_files (app_db a)) \<Longrightarrow> file_row_ok (app_blobs a) frow"
  using assms unfolding app_ok_def by blast+

lemma keyed_simps:
  assumes "keyed db"
  shows "keyed (db\<lparr>db_files := AList.update k r (db_files db)\<rparr>)"
    "keyed (db\<lparr>db_files := filter p (db_files db)\<rparr>)"
    "keyed (db\<lparr>db_heads := AList.update ws new (db_heads db)\<rparr>)"
    "keyed (db\<lparr>db_manifests := filter q (db_manifests db)\<rparr>)"
    "keyed (db\<lparr>db_formats := AList.update ws version (db_formats db)\<rparr>)"
    "keyed (db\<lparr>db_fences := filter t (db_fences db)\<rparr>)"
  using assms by (simp_all add: keyed_def distinct_update distinct_map_filter)

text \<open>Each statement on the database, over a fixed set of blobs.\<close>

definition db_ok :: "blobs \<Rightarrow> hub_db \<Rightarrow> bool" where
  "db_ok bs db \<longleftrightarrow> keyed db \<and> head_ok db \<and> (\<forall>row\<in>set (db_manifests db). row_ok bs row)
     \<and> (\<forall>row\<in>set (db_files db). file_row_ok bs row)"

lemma app_ok_iff: "app_ok P a \<longleftrightarrow> blobs_ok P (app_blobs a) \<and> db_ok (app_blobs a) (app_db a)"
  unfolding app_ok_def db_ok_def by blast

lemma upsert_file_ok:
  assumes "db_ok bs db" and "upsert_file now ws f db = Inr db'" and "\<not> fs_deleted f \<longrightarrow> fs_hash f \<in> dom (map_of bs)"
  shows "db_ok bs db'"
proof -
  obtain r where db': "db' = db\<lparr>db_files := AList.update (ws, fs_path f) r (db_files db)\<rparr>"
    and r: "fr_hash r = fs_hash f" "fr_deleted r = fs_deleted f"
    using assms(2) by (auto simp: upsert_file_def rbind_eq_Inr)
  have "file_row_ok bs row" if "row \<in> set (db_files db')" for row
    using subsetD [OF set_update_subset, of row "(ws, fs_path f)" r "db_files db"] that assms(1,3) r
    by (auto simp: db' db_ok_def file_row_ok_def)
  with assms(1) show ?thesis by (simp add: db_ok_def db' keyed_simps head_ok_def get_head_def)
qed

lemma tombstone_ok:
  assumes "db_ok bs db" and "tombstone_existing_file now ws path hash mtime db = (retired, db')"
  shows "db_ok bs db'"
proof (cases retired)
  case False
  with assms show ?thesis by (auto simp: tombstone_existing_file_def split: if_splits)
next
  case True
  then obtain r where db': "db' = db\<lparr>db_files := AList.update (ws, path) r (db_files db)\<rparr>" and r: "fr_deleted r"
    using assms(2) by (auto simp: tombstone_existing_file_def split: if_splits)
  have "file_row_ok bs row" if "row \<in> set (db_files db')" for row
    using subsetD [OF set_update_subset, of row "(ws, path)" r "db_files db"] that assms(1) r
    by (auto simp: db' db_ok_def file_row_ok_def)
  with assms(1) show ?thesis by (simp add: db_ok_def db' keyed_simps head_ok_def get_head_def)
qed

lemma swap_head_ok:
  assumes "db_ok bs db" and "swap_head ws expected new db = Inr (outcome, db')"
  shows "db_ok bs db'"
proof (cases "outcome = Swapped")
  case True
  with assms(2) have db': "db' = db\<lparr>db_heads := AList.update ws new (db_heads db)\<rparr>" and "manifest_exists ws new db"
    by (auto simp: swap_head_def split: if_splits)
  then have "map_of (db_manifests db) (ws, new) \<noteq> None" by (auto simp: manifest_exists_def split: option.splits)
  with assms(1) have "head_ok db'" by (auto simp: db' head_ok_def db_ok_def get_head_def update_conv' split: if_splits)
  with assms(1) show ?thesis by (simp add: db_ok_def db' keyed_simps)
next
  case False
  with assms show ?thesis by (auto simp: swap_head_def split: if_splits)
qed

lemma length_encode_manifest:
  assumes "list_all is_valid_hash hs" and "hs \<noteq> []"
  shows "length (encode_manifest hs) = 65 * length hs"
proof -
  have "length (join_on c hs) + 1 = 65 * length hs" if "hs \<noteq> []" "list_all is_valid_hash hs" for c and hs :: "string list"
    using that by (induction hs rule: join_on.induct) (auto simp: valid_hash_length)
  from this [OF assms(2,1)] show ?thesis by (simp add: encode_manifest_def)
qed

lemma utf8_encode_manifest: "list_all is_valid_hash hs \<Longrightarrow> utf8_ok (encode_manifest hs)"
proof (intro utf8_ok_ascii)
  assume hs: "list_all is_valid_hash hs"
  have "list_all is_ascii (join_on (CHR 0x0A) hs)"
    using hs by (induction "CHR 0x0A" hs rule: join_on.induct) (auto simp: valid_hash_ascii is_ascii_def)
  then show "list_all is_ascii (encode_manifest hs)" by (simp add: encode_manifest_def is_ascii_def)
qed

lemma stored_manifest_read:
  assumes "manifest_ok sid hs"
  shows "retained_hashes ((ws, sid), \<lparr>mf_manifest = encode_manifest hs, mf_created_at_ms = t\<rparr>) = Some hs"
proof -
  have "hs \<noteq> []" "list_all is_valid_hash hs" "length hs \<le> manifest_max_entries" using assms by (auto simp: manifest_ok_def)
  then show ?thesis
    by (simp add: retained_hashes_def row_hashes_def canonical_manifest_encode [OF assms] length_encode_manifest
        utf8_encode_manifest max_stored_manifest_bytes_def)
qed

lemma store_manifest_ok:
  assumes "db_ok bs db" and "store_canonical_manifest now_ms ws sid hashes db = Inr (outcome, db')"
    and "set hashes \<subseteq> dom (map_of bs)"
  shows "db_ok bs db'"
proof (cases "outcome = Stored")
  case True
  then have ok: "manifest_ok sid hashes" and new: "map_of (db_manifests db) (ws, sid) = None"
    and db': "db' = db\<lparr>db_manifests := db_manifests db
       @ [((ws, sid), \<lparr>mf_manifest = encode_manifest hashes, mf_created_at_ms = now_ms\<rparr>)]\<rparr>"
    using assms(2)
    by (auto simp: store_canonical_manifest_def rbind_eq_Inr validate_manifest_hashes_iff split: option.splits if_splits)
  have "row_ok bs ((ws, sid), \<lparr>mf_manifest = encode_manifest hashes, mf_created_at_ms = now_ms\<rparr>)"
    using stored_manifest_read [OF ok] assms(3) by (simp add: row_ok_def)
  moreover have "keyed db'" using assms(1) new by (auto simp: db' db_ok_def keyed_def map_of_eq_None_iff)
  moreover have "head_ok db'"
    using assms(1) by (fastforce simp: db' db_ok_def head_ok_def get_head_def map_add_def split: option.splits)
  ultimately show ?thesis using assms(1) by (simp add: db_ok_def db')
next
  case False
  with assms(2) have "db' = db"
    by (auto simp: store_canonical_manifest_def rbind_eq_Inr split: option.splits if_splits)
  with assms(1) show ?thesis by simp
qed

lemma set_format_ok:
  assumes "db_ok bs db" and "set_workspace_format ws version db = Inr db'"
  shows "db_ok bs db'"
proof -
  have "keyed db'" using assms
    by (auto simp: db_ok_def set_workspace_format_def rbind_eq_Inr keyed_def distinct_update distinct_map_filter
        Let_def split: if_splits)
  then show ?thesis using assms
    by (auto simp: db_ok_def set_workspace_format_def rbind_eq_Inr head_ok_def get_head_def Let_def split: if_splits)
qed

lemma begin_migration_ok:
  assumes "db_ok bs db" and "begin_migration ws token db = (outcome, db')"
  shows "db_ok bs db'"
proof -
  have "keyed db'" using assms
    by (auto simp: db_ok_def begin_migration_def migration_token_def keyed_def map_of_eq_None_iff split: if_splits option.splits)
  moreover have "db_heads db' = db_heads db" "db_manifests db' = db_manifests db" "db_files db' = db_files db"
    using assms(2) by (auto simp: begin_migration_def split: if_splits option.splits)
  ultimately show ?thesis using assms(1) by (simp add: db_ok_def head_ok_def get_head_def)
qed

text \<open>Marking keeps the heads and what they reach; purging drops tombstones only.\<close>

lemma gc_prepare_ok:
  assumes "db_ok bs db" and "prepare_gc_live_set cutoff_ms keep_last db = Inr (live, db')"
  shows "db_ok bs db' \<and> (\<forall>row\<in>set (db_manifests db'). set (the (retained_hashes row)) \<subseteq> set live)
    \<and> (\<forall>row\<in>set (db_files db'). \<not> fr_deleted (snd row) \<longrightarrow> fr_hash (snd row) \<in> set live)"
proof -
  have keyed: "keyed db" using assms(1) by (simp add: db_ok_def)
  note marked = gc_live_set_cases(2) [OF keyed assms(2)]
  have db': "db' = db\<lparr>db_manifests := filter (gc_keeps cutoff_ms keep_last db) (db_manifests db)\<rparr>"
    using marked by blast
  have "head_ok db'" unfolding head_ok_def
  proof (intro allI impI)
    fix ws sid
    assume head: "get_head ws db' = Some sid"
    then have "map_of (db_manifests db) (ws, sid) \<noteq> None"
      using assms(1) by (simp add: db' db_ok_def head_ok_def get_head_def)
    then obtain r where "((ws, sid), r) \<in> set (db_manifests db)" by (auto dest: map_of_SomeD)
    then have "((ws, sid), r) \<in> set (db_manifests db')"
      using head by (simp add: db' gc_keeps_def get_head_def)
    then show "map_of (db_manifests db') (ws, sid) \<noteq> None" using weak_map_of_SomeI by fastforce
  qed
  moreover have "keyed db'" using keyed by (simp add: db' keyed_simps)
  moreover have "set live = set (get_referenced_hashes db) \<union> (\<Union>row\<in>set (db_manifests db'). set (the (retained_hashes row)))"
    using marked by (simp add: db')
  moreover have "fr_hash (snd row) \<in> set (get_referenced_hashes db)" if "row \<in> set (db_files db)" "\<not> fr_deleted (snd row)" for row
    using that by (force simp: get_referenced_hashes_def)
  ultimately show ?thesis using assms(1) by (auto simp: db_ok_def db')
qed

lemma purge_ok:
  assumes "db_ok bs db" and "purge_old_tombstones cutoff db = (purged, db')"
  shows "db_ok bs db' \<and> db_manifests db' = db_manifests db \<and> set (db_files db') \<subseteq> set (db_files db)"
proof -
  obtain p where db': "db' = db\<lparr>db_files := filter p (db_files db)\<rparr>"
    using assms(2) by (auto simp: purge_old_tombstones_def Let_def)
  with assms(1) show ?thesis by (auto simp: db_ok_def keyed_simps head_ok_def get_head_def)
qed

text \<open>More blobs, and sweeping the blobs outside the live set.\<close>

lemma db_ok_blobs:
  assumes "db_ok bs db"
    and "\<And>row h. row \<in> set (db_manifests db) \<Longrightarrow> h \<in> set (the (retained_hashes row)) \<Longrightarrow> h \<in> dom (map_of bs) \<Longrightarrow> h \<in> dom (map_of bs')"
    and "\<And>row. row \<in> set (db_files db) \<Longrightarrow> \<not> fr_deleted (snd row) \<Longrightarrow> fr_hash (snd row) \<in> dom (map_of bs) \<Longrightarrow>
      fr_hash (snd row) \<in> dom (map_of bs')"
  shows "db_ok bs' db"
proof -
  have "row_ok bs' row" if "row \<in> set (db_manifests db)" for row
  proof -
    have "row_ok bs row" using assms(1) that by (simp add: db_ok_def)
    then obtain hs where hs: "retained_hashes row = Some hs" "set hs \<subseteq> dom (map_of bs)"
      unfolding row_ok_def by blast
    have "set hs \<subseteq> dom (map_of bs')"
    proof
      fix h
      assume "h \<in> set hs"
      with hs have "h \<in> set (the (retained_hashes row))" "h \<in> dom (map_of bs)" by (simp, blast)
      then show "h \<in> dom (map_of bs')" by (rule assms(2) [OF that])
    qed
    with hs(1) show ?thesis unfolding row_ok_def by blast
  qed
  moreover have "file_row_ok bs' row" if "row \<in> set (db_files db)" for row
    using assms(1) assms(3) [OF that] that unfolding db_ok_def file_row_ok_def by blast
  ultimately show ?thesis using assms(1) unfolding db_ok_def by blast
qed

lemma flight_ok_more: "flight_ok bs f \<Longrightarrow> dom (map_of bs) \<subseteq> dom (map_of bs') \<Longrightarrow> flight_ok bs' f"
  by (cases f) (simp_all only: flight_ok.simps, blast+)

lemma write_blob_dom: "dom (map_of (app_blobs a)) \<subseteq> dom (map_of (app_blobs (write_blob outcome now h body a)))"
  by (auto simp: write_blob_def update_conv')

lemma write_blob_db [simp]: "app_db (write_blob outcome now h body a) = app_db a"
  by (simp add: write_blob_def)

lemma write_blob_ok:
  assumes "app_ok P a" and "hash_bytes P body = h"
  shows "app_ok P (write_blob outcome now h body a)"
proof -
  have "blobs_ok P (app_blobs (write_blob outcome now h body a))"
    using assms unfolding app_ok_iff blobs_ok_def
    by (auto simp: write_blob_def update_conv' distinct_update simp del: map_of_eq_Some_iff)
  moreover have "db_ok (app_blobs (write_blob outcome now h body a)) (app_db a)"
  proof (rule db_ok_blobs [of "app_blobs a"])
    show "db_ok (app_blobs a) (app_db a)" using assms(1) by (simp add: app_ok_iff)
  qed (rule subsetD [OF write_blob_dom], assumption)+
  ultimately show ?thesis by (simp add: app_ok_iff)
qed

lemma sweep_one_ok:
  assumes a: "app_ok P a" and sweep: "sweep_blob_batch io live grace [h] (stats, app_blobs a) = (ok, stats', bs)"
    and live: "\<forall>row\<in>set (db_manifests (app_db a)). set (the (retained_hashes row)) \<subseteq> set live"
    and files: "\<forall>row\<in>set (db_files (app_db a)). \<not> fr_deleted (snd row) \<longrightarrow> fr_hash (snd row) \<in> set live"
  shows "app_ok P (a\<lparr>app_blobs := bs\<rparr>)"
proof -
  have sweep': "sweep_hashes io (set live) grace [h] (stats, app_blobs a) = (ok, stats', bs)"
    using sweep unfolding sweep_blob_batch_live .
  have d: "distinct (map fst (app_blobs a))" using a by (simp add: app_ok_def blobs_ok_def)
  note kept = sweep_hashes_subset [OF sweep' d]
  have stays: "x \<in> dom (map_of bs)" if x: "x \<in> set live" "x \<in> dom (map_of (app_blobs a))" for x
  proof -
    from x(2) obtain f where "(x, f) \<in> set (app_blobs a)" by (auto dest: map_of_SomeD)
    moreover have "sweep_keeps io (set live) grace (x, f)" using x(1) by (simp add: sweep_keeps_def)
    ultimately have "(x, f) \<in> set bs" using kept by blast
    then show ?thesis using weak_map_of_SomeI by fastforce
  qed
  have "blobs_ok P bs" using a kept d unfolding app_ok_def blobs_ok_def
    by (metis map_of_eq_Some_iff subsetD)
  moreover have "db_ok bs (app_db a)"
  proof (rule db_ok_blobs [of "app_blobs a"])
    show "db_ok (app_blobs a) (app_db a)" using a by (simp add: app_ok_iff)
  qed (rule stays, use live files in blast, assumption)+
  ultimately show ?thesis by (simp add: app_ok_iff)
qed

section \<open>Every step keeps the invariant\<close>

lemma run_okD:
  assumes "run_ok P s"
  shows "app_ok P (run_app s)" "f \<in> set (run_flights s) \<Longrightarrow> flight_ok (app_blobs (run_app s)) f" "sweep_ok s"
  using assms unfolding run_ok_def by blast+

text \<open>A step of a lock holder that changes the database alone.\<close>

lemma db_step_ok:
  assumes ok: "run_ok P s" and idle: "run_sweep s = None"
    and app: "app_db app = db" "app_blobs app = app_blobs (run_app s)" and db: "db_ok (app_blobs (run_app s)) db"
    and fs: "set fs \<subseteq> set (run_flights s)"
  shows "run_ok P (s\<lparr>run_app := app, run_flights := fs\<rparr>)"
  using run_okD [OF ok] app db fs idle by (auto simp: run_ok_def app_ok_iff sweep_ok_def)

lemma db_step_ok':
  assumes "run_ok P s" and "run_sweep s = None"
    and "app_db app = db" "app_blobs app = app_blobs (run_app s)" and "db_ok (app_blobs (run_app s)) db"
  shows "run_ok P (s\<lparr>run_app := app\<rparr>)"
  using db_step_ok [OF assms subset_refl] by simp

lemma flight_idle: "run_ok P s \<Longrightarrow> f \<in> set (run_flights s) \<Longrightarrow> run_sweep s = None"
  by (cases "run_sweep s") (auto simp: run_ok_def sweep_ok_def)

lemma upload_admit_blob:
  "upload_admit P hdr p body db = Inr (PutBlob object f) \<Longrightarrow> hash_bytes P body = fs_hash f \<and> \<not> fs_deleted f"
  by (auto simp: upload_admit_def upload_file_def rbind_eq_Inr split: if_splits)

lemma upload_row_ok:
  assumes "db_ok bs (app_db a)" and "upload_row now ws f a = (st, a')" and "\<not> fs_deleted f \<longrightarrow> fs_hash f \<in> dom (map_of bs)"
  shows "db_ok bs (app_db a') \<and> app_blobs a' = app_blobs a"
  using assms(2) upsert_file_ok [OF assms(1) _ assms(3)] assms(1) by (auto simp: upload_row_def split: sum.splits)

lemma upload_marker_ok:
  assumes "db_ok bs (app_db a)" and "upload_admit P hdr p body (app_db a) = Inr plan" and "\<forall>object f. plan \<noteq> PutBlob object f"
    and "handle_upload P outcome now now_s hdr p body a = (st, a')"
  shows "db_ok bs (app_db a') \<and> app_blobs a' = app_blobs a"
proof (cases plan)
  case RetireUnsafe
  then show ?thesis using assms tombstone_ok by (auto simp: handle_upload_def split: prod.splits if_splits)
next
  case (PutTombstone f)
  then have "fs_deleted f" using assms(2) by (auto simp: upload_admit_def upload_file_def rbind_eq_Inr split: if_splits)
  with PutTombstone show ?thesis using assms upload_row_ok by (simp add: handle_upload_def)
qed (use assms(3) in blast)

lemma handle_swap_head_db:
  assumes "handle_swap_head hdr ws expected new a = (r, a')"
  shows "app_blobs a' = app_blobs a
    \<and> (app_db a' = app_db a \<or> (\<exists>outcome. swap_head ws expected new (app_db a) = Inr (outcome, app_db a')))"
  using assms by (auto simp: handle_swap_head_def split: sum.splits if_splits prod.splits head_swap.splits)

lemma manifest_store_db:
  assumes "manifest_store now_ms ws sid hashes a = (r, a')"
  shows "app_blobs a' = app_blobs a
    \<and> (app_db a' = app_db a \<or> (\<exists>outcome. store_canonical_manifest now_ms ws sid hashes (app_db a) = Inr (outcome, app_db a')))"
  using assms by (auto simp: manifest_store_def split: sum.splits prod.splits manifest_write_outcome.splits)

lemma handle_set_format_db:
  assumes "handle_set_format hdr ws version a = (r, a')"
  shows "app_blobs a' = app_blobs a
    \<and> (app_db a' = app_db a \<or> set_workspace_format ws version (app_db a) = Inr (app_db a'))"
  using assms by (auto simp: handle_set_format_def split: sum.splits if_splits)

lemma handle_begin_migration_db:
  assumes "handle_begin_migration hdr ws a = (r, a')"
  shows "app_blobs a' = app_blobs a
    \<and> (app_db a' = app_db a \<or> (\<exists>outcome token. begin_migration ws token (app_db a) = (outcome, app_db a')))"
  using assms
  by (auto simp: handle_begin_migration_def split: sum.splits option.splits if_splits prod.splits migration_write_outcome.splits)

lemma write_step_ok:
  assumes ok: "run_ok P s" and hash: "hash_bytes P body = h"
    and fs: "set fs \<subseteq> set (run_flights s) \<or> (run_sweep s = None \<and> (\<exists>ws f. fs_hash f = h \<and> outcome = BlobWritten
      \<and> set fs \<subseteq> insert (Uploading ws f) (set (run_flights s))))"
  shows "run_ok P (s\<lparr>run_app := write_blob outcome now h body (run_app s), run_flights := fs\<rparr>)"
proof -
  have "flight_ok (app_blobs (write_blob outcome now h body (run_app s))) f" if "f \<in> set (run_flights s)" for f
    using flight_ok_more [OF run_okD(2) [OF ok that] write_blob_dom] .
  moreover have "flight_ok (app_blobs (write_blob BlobWritten now h body (run_app s))) (Uploading ws f)"
    if "fs_hash f = h" for ws f using that by (simp add: write_blob_def update_conv')
  ultimately have "\<forall>f\<in>set fs. flight_ok (app_blobs (write_blob outcome now h body (run_app s))) f"
    using fs by blast
  moreover have "app_ok P (write_blob outcome now h body (run_app s))"
    by (rule write_blob_ok [OF run_okD(1) [OF ok] hash])
  moreover have "sweep_ok (s\<lparr>run_app := write_blob outcome now h body (run_app s), run_flights := fs\<rparr>)"
    using run_okD(3) [OF ok] fs by (auto simp: sweep_ok_def)
  ultimately show ?thesis by (simp add: run_ok_def)
qed

lemma hub_step_ok:
  assumes "hub_step P s s'" and ok: "run_ok P s"
  shows "run_ok P s'"
  using assms(1)
proof cases
  case (upload_marker hdr p body plan outcome now now_s st app)
  have "db_ok (app_blobs (run_app s)) (app_db (run_app s))" using run_okD(1) [OF ok] by (simp add: app_ok_iff)
  from upload_marker_ok [OF this upload_marker(3-5)] upload_marker(1,2) show ?thesis
    by (auto intro!: db_step_ok' [OF ok])
next
  case (upload_blob hdr p body object f outcome now)
  show ?thesis unfolding upload_blob(1)
  proof (rule write_step_ok [OF ok])
    show "hash_bytes P body = fs_hash f" using upload_admit_blob [OF upload_blob(3)] by blast
  qed (use upload_blob(2) in auto)
next
  case (upload_row fs ws f fs' now_s st app)
  have "flight_ok (app_blobs (run_app s)) (Uploading ws f)" using upload_row by (intro run_okD(2) [OF ok]) simp
  moreover have "run_sweep s = None" using upload_row by (intro flight_idle [OF ok, of "Uploading ws f"]) simp
  ultimately show ?thesis
    using upload_row run_okD(1) [OF ok] upload_row_ok [OF _ upload_row(3)]
    by (auto simp: app_ok_iff intro!: db_step_ok [OF ok])
next
  case (late_blob body now)
  then show ?thesis using write_step_ok [OF ok HOL.refl, of "run_flights s" body] by simp
next
  case (manifest_begin hdr ws sid body hashes)
  then have "manifest_ok sid hashes" by (auto simp: manifest_admit_def rbind_eq_Inr intro: canonical_manifest_ok)
  with manifest_begin ok show ?thesis by (auto simp: run_ok_def sweep_ok_def)
next
  case (manifest_check fs ws sid hashes h hs fs')
  have "flight_ok (app_blobs (run_app s)) (Checking ws sid hashes (h # hs))"
    using manifest_check by (intro run_okD(2) [OF ok]) simp
  moreover have "h \<in> dom (map_of (app_blobs (run_app s)))" using manifest_check by (auto simp: blob_exists_def)
  ultimately have "flight_ok (app_blobs (run_app s)) (Checking ws sid hashes hs)"
    unfolding flight_ok.simps by auto
  with manifest_check ok show ?thesis by (auto simp: run_ok_def sweep_ok_def)
next
  case (manifest_store fs ws sid hashes fs' now_ms st app)
  have "flight_ok (app_blobs (run_app s)) (Checking ws sid hashes [])"
    using manifest_store by (intro run_okD(2) [OF ok]) simp
  moreover have "run_sweep s = None" using manifest_store by (intro flight_idle [OF ok, of "Checking ws sid hashes []"]) simp
  ultimately show ?thesis
    using manifest_store run_okD(1) [OF ok] manifest_store_db [OF manifest_store(3)] store_manifest_ok
    by (auto simp: app_ok_iff intro!: db_step_ok [OF ok])
next
  case (leave fs flight fs')
  with ok show ?thesis by (auto simp: run_ok_def sweep_ok_def)
next
  case (swap hdr ws expected new response app)
  then show ?thesis
    using handle_swap_head_db [OF swap(3)] swap_head_ok run_okD(1) [OF ok]
    by (auto simp: app_ok_iff intro!: db_step_ok' [OF ok])
next
  case (set_format hdr ws version st app)
  then show ?thesis
    using handle_set_format_db [OF set_format(4)] set_format_ok run_okD(1) [OF ok]
    by (auto simp: app_ok_iff intro!: db_step_ok' [OF ok])
next
  case (begin_migration hdr ws st app)
  then show ?thesis
    using handle_begin_migration_db [OF begin_migration(4)] begin_migration_ok run_okD(1) [OF ok]
    by (auto simp: app_ok_iff intro!: db_step_ok' [OF ok])
next
  case (gc_mark cutoff_ms keep_last live db1 tombstone_cutoff purged db2)
  have db: "db_ok (app_blobs (run_app s)) (app_db (run_app s))" using run_okD(1) [OF ok] by (simp add: app_ok_iff)
  note marked = gc_prepare_ok [OF db gc_mark(4)]
  note purged = purge_ok [OF marked [THEN conjunct1] gc_mark(5)]
  show ?thesis using marked purged run_okD(1) [OF ok] gc_mark by (auto simp: run_ok_def app_ok_iff sweep_ok_def)
next
  case (gc_sweep live h hs io grace stats ok' stats' bs)
  have swept: "app_ok P ((run_app s)\<lparr>app_blobs := bs\<rparr>)"
    using run_okD(3) [OF ok] gc_sweep(2) by (intro sweep_one_ok [OF run_okD(1) [OF ok] gc_sweep(3)]) (auto simp: sweep_ok_def)
  with run_okD(3) [OF ok] gc_sweep show ?thesis by (auto simp: run_ok_def sweep_ok_def)
next
  case (gc_end live hs)
  with ok show ?thesis by (auto simp: run_ok_def sweep_ok_def)
qed

lemma run_reachable_ok: "(hub_step P)\<^sup>*\<^sup>* hub_run_new s \<Longrightarrow> run_ok P s"
proof (induction rule: rtranclp_induct)
  case base
  show ?case
    by (simp add: run_ok_def hub_run_new_def init_app_state_def app_ok_iff blobs_ok_def db_ok_def hub_db_new_def
        keyed_def head_ok_def get_head_def sweep_ok_def)
qed (blast intro: hub_step_ok)

section \<open>Properties\<close>

lemma row_hashes_canonical: "row_hashes sid r = Some hs \<Longrightarrow> manifest_ok sid hs"
  by (auto simp: row_hashes_def intro: canonical_manifest_ok split: if_splits sum.splits)

lemma row_downloadable:
  assumes "app_ok P a" and "map_of (db_manifests (app_db a)) (ws, sid) = Some r"
  obtains hs where "row_hashes sid r = Some hs" and "sid \<in> set hs"
    and "\<forall>h\<in>set hs. \<exists>body. handle_download h a = Inr body \<and> hash_bytes P body = h"
proof -
  have "row_ok (app_blobs a) ((ws, sid), r)" by (rule app_okD(4) [OF assms(1)]) (rule map_of_SomeD [OF assms(2)])
  then obtain hs where hs: "row_hashes sid r = Some hs" "set hs \<subseteq> dom (map_of (app_blobs a))"
    by (auto simp: row_ok_def retained_hashes_def split: if_splits)
  have valid: "manifest_ok sid hs" by (rule row_hashes_canonical [OF hs(1)])
  have "\<exists>body. handle_download h a = Inr body \<and> hash_bytes P body = h" if h: "h \<in> set hs" for h
  proof -
    have "h \<in> dom (map_of (app_blobs a))" using hs(2) h by blast
    then obtain f where f: "map_of (app_blobs a) h = Some f" by blast
    moreover have "is_valid_hash h" using valid h by (simp add: manifest_ok_def list_all_iff)
    moreover have "hash_bytes P (bf_content f) = h" using app_okD(2) [OF assms(1)] f unfolding blobs_ok_def by blast
    ultimately show ?thesis by (simp add: handle_download_def)
  qed
  moreover have "sid \<in> set hs" using valid by (simp add: manifest_ok_def)
  ultimately show ?thesis using that hs(1) by blast
qed

text \<open>
  C34. What is published can be downloaded. In every state that uploads, manifests, head swaps, format
  changes, migrations, cancelled requests and garbage collections can reach in any interleaving
  that the publication lock admits, the head of every workspace has a manifest that names it, every
  object of that manifest can be downloaded and hashes to its name, every live file of the legacy table
  has its blob, and marking for a collection never fails.
\<close>

theorem hub_published_downloadable:
  assumes "(hub_step P)\<^sup>*\<^sup>* hub_run_new s"
  defines "a \<equiv> run_app s"
  shows "(\<forall>ws sid. get_head ws (app_db a) = Some sid \<longrightarrow>
      (\<exists>r hs. map_of (db_manifests (app_db a)) (ws, sid) = Some r \<and> row_hashes sid r = Some hs \<and> sid \<in> set hs
        \<and> (\<forall>h\<in>set hs. \<exists>body. handle_download h a = Inr body \<and> hash_bytes P body = h)))
    \<and> (\<forall>k r. map_of (db_files (app_db a)) k = Some r \<and> \<not> fr_deleted r \<longrightarrow>
         (\<exists>f. map_of (app_blobs a) (fr_hash r) = Some f \<and> hash_bytes P (bf_content f) = fr_hash r))
    \<and> (\<forall>cutoff_ms keep_last. is_ok (prepare_gc_live_set cutoff_ms keep_last (app_db a)))"
proof -
  have ok: "app_ok P a" unfolding a_def by (rule run_okD(1) [OF run_reachable_ok [OF assms(1)]])
  have heads: "\<exists>r hs. map_of (db_manifests (app_db a)) (ws, sid) = Some r \<and> row_hashes sid r = Some hs \<and> sid \<in> set hs
      \<and> (\<forall>h\<in>set hs. \<exists>body. handle_download h a = Inr body \<and> hash_bytes P body = h)"
    if head: "get_head ws (app_db a) = Some sid" for ws sid
  proof -
    have "map_of (db_manifests (app_db a)) (ws, sid) \<noteq> None"
      using app_okD(3) [OF ok] head unfolding head_ok_def by blast
    then obtain r where r: "map_of (db_manifests (app_db a)) (ws, sid) = Some r" by blast
    from row_downloadable [OF ok r] r show ?thesis by metis
  qed
  have files: "\<exists>f. map_of (app_blobs a) (fr_hash r) = Some f \<and> hash_bytes P (bf_content f) = fr_hash r"
    if "map_of (db_files (app_db a)) k = Some r" "\<not> fr_deleted r" for k r
    using app_okD(5) [OF ok map_of_SomeD [OF that(1)]] that(2) app_okD(2) [OF ok]
    unfolding file_row_ok_def blobs_ok_def by auto
  have "list_all (\<lambda>row. retained_hashes row \<noteq> None) (db_manifests (app_db a))"
    using app_okD(4) [OF ok] unfolding list_all_iff row_ok_def by (metis option.distinct(1))
  moreover have "heads_manifested (app_db a)"
    using app_okD(1,3) [OF ok] by (auto simp: heads_manifested_def list_all_iff head_ok_def get_head_def keyed_def)
  ultimately have "is_ok (prepare_gc_live_set cutoff_ms keep_last (app_db a))" for cutoff_ms keep_last
    unfolding gc_live_set_cases(1) [OF app_okD(1) [OF ok]] by (simp add: list_all_iff)
  with heads files show ?thesis by blast
qed

text \<open>A workspace with one object, published as its head.\<close>

definition open_headers :: hub_headers where
  "open_headers = \<lparr>hd_format = None, hd_migration = None\<rparr>"

definition published_id :: string where
  "published_id = hash_bytes sample_prims []"

definition published :: app_state where
  "published =
     (let a1 = write_blob BlobWritten 0 published_id [] init_app_state;
          a2 = snd (manifest_store 0 ''w'' published_id [published_id] a1)
      in snd (handle_swap_head open_headers ''w'' None published_id a2))"

lemma published_facts:
  "is_valid_hash published_id"
  "manifest_admit open_headers ''w'' published_id (encode_manifest [published_id]) hub_db_new = Inr [published_id]"
  "blob_exists (write_blob BlobWritten 0 published_id [] init_app_state) published_id"
  "get_head ''w'' (app_db published) = Some published_id"
  by code_simp+

lemma published_reachable: "\<exists>s. (hub_step sample_prims)\<^sup>*\<^sup>* hub_run_new s \<and> run_app s = published"
proof -
  let ?P = sample_prims and ?h = published_id
  let ?a1 = "write_blob BlobWritten 0 ?h [] init_app_state"
  let ?s1 = "hub_run_new\<lparr>run_app := ?a1\<rparr>"
  let ?s2 = "?s1\<lparr>run_flights := [Checking ''w'' ?h [?h] [?h]]\<rparr>"
  let ?s3 = "?s2\<lparr>run_flights := [Checking ''w'' ?h [?h] []]\<rparr>"
  obtain st a2 where a2: "manifest_store 0 ''w'' ?h [?h] ?a1 = (st, a2)" by (metis surj_pair)
  let ?s4 = "?s3\<lparr>run_app := a2, run_flights := []\<rparr>"
  obtain r a3 where a3: "handle_swap_head open_headers ''w'' None ?h a2 = (r, a3)" by (metis surj_pair)
  let ?s5 = "?s4\<lparr>run_app := a3\<rparr>"
  have 1: "hub_step ?P hub_run_new ?s1"
    using late_blob [of ?P "[]" hub_run_new 0] published_facts(1) by (simp add: published_id_def hub_run_new_def)
  have 2: "hub_step ?P ?s1 ?s2"
    using manifest_begin [of ?s1 open_headers "''w''" ?h "encode_manifest [?h]" "[?h]" ?P] published_facts(2)
    by (simp add: hub_run_new_def init_app_state_def)
  have 3: "hub_step ?P ?s2 ?s3"
    using manifest_check [of ?s2 "[]" "''w''" ?h "[?h]" ?h "[]" "[]" ?P] published_facts(3) by simp
  have 4: "hub_step ?P ?s3 ?s4"
    using manifest_store [of ?s3 "[]" "''w''" ?h "[?h]" "[]" 0 st a2 ?P] a2 by simp
  have 5: "hub_step ?P ?s4 ?s5"
    using swap [of ?s4 open_headers "''w''" None ?h r a3 ?P] a3 by (simp add: hub_run_new_def)
  have "run_app ?s5 = published" using a2 a3 by (simp add: published_def)
  with 1 2 3 4 5 show ?thesis by (meson converse_rtranclp_into_rtranclp rtranclp.rtrancl_refl)
qed

theorem hub_published_downloadable_witness:
  "\<exists>s body. (hub_step sample_prims)\<^sup>*\<^sup>* hub_run_new s \<and> get_head ''w'' (app_db (run_app s)) = Some published_id
     \<and> handle_download published_id (run_app s) = Inr body \<and> hash_bytes sample_prims body = published_id"
proof -
  obtain s where s: "(hub_step sample_prims)\<^sup>*\<^sup>* hub_run_new s" "run_app s = published" using published_reachable by blast
  then show ?thesis using hub_published_downloadable [OF s(1)] published_facts(4) by fastforce
qed

end
