(* ===== verification/Local_Hub.thy ===== *)
theory Local_Hub
  imports Hub_App Local_State
begin

text \<open>
  The in-process hub of \<^verbatim>\<open>agent-core/src/hub.rs\<close>, \<^verbatim>\<open>hub/\<close> and \<^verbatim>\<open>hub_state/\<close>: a JSON file with the
  state of all workspaces, its operations as transactions on that file, the routes, the dispatch of a
  request, and the export and import of the state. A transaction runs under an advisory lock and
  replaces the file atomically; \<open>store_io\<close> says whether the lock is granted and what becomes of the
  replacement. Of a request that waits for a head, the reads and the answer are modelled; its wake-up is
  \<^verbatim>\<open>tokio::sync::Notify\<close>. What these definitions promise is in \<open>Hub_Parity\<close>.
\<close>

section \<open>State\<close>

record legacy_file_v1 =
  lf_hash :: string
  lf_size :: i64
  lf_mtime :: i64
  lf_mode :: u32
  lf_deleted :: bool

record manifest_v1 =
  mv_hashes :: "string list"
  mv_created_at_ms :: int

record workspace_meta_v1 =
  wm_format_version :: nat
  wm_head :: "string option"
  wm_manifests :: "(string \<times> manifest_v1) list"
  wm_files :: "(string \<times> legacy_file_v1) list"
  wm_migration_fence :: "string option"
  wm_fence_locked_at :: int

record hub_state_v1 =
  hs_schema_version :: nat
  hs_workspaces :: "(string \<times> workspace_meta_v1) list"

definition current_hub_schema :: nat where "current_hub_schema = 1"

definition hub_state_default :: hub_state_v1 where
  "hub_state_default = \<lparr>hs_schema_version = current_hub_schema, hs_workspaces = []\<rparr>"

definition workspace_meta_default :: workspace_meta_v1 where
  "workspace_meta_default =
     \<lparr>wm_format_version = 2, wm_head = None, wm_manifests = [], wm_files = [],
      wm_migration_fence = None, wm_fence_locked_at = 0\<rparr>"

datatype format_write = FormatApplied | MissingManifestHead

text \<open>\<^verbatim>\<open>serde_json\<close> on the state file: \<^verbatim>\<open>to_string_pretty\<close> and \<^verbatim>\<open>from_str\<close>.\<close>

record 't hub_codec =
  hc_write :: "hub_state_v1 \<Rightarrow> 't"
  hc_read :: "'t \<Rightarrow> hub_state_v1 option"

definition read_hub_state :: "'t hub_codec \<Rightarrow> 't option \<Rightarrow> local_error + hub_state_v1" where
  "read_hub_state C disk =
     (case disk of
        None \<Rightarrow> Inl StateMissing
      | Some t \<Rightarrow> ok_or (hc_read C t) ParseFailed)"

definition hub_with_read ::
  "'t hub_codec \<Rightarrow> store_io \<Rightarrow> (hub_state_v1 \<Rightarrow> 'r) \<Rightarrow> 't option \<Rightarrow> local_error + 'r" where
  "hub_with_read C io f disk =
     (if \<not> lock_granted io then Inl LockFailed
      else rbind (read_hub_state C disk) (\<lambda>s. Inr (f s)))"

type_synonym 'r hub_operation = "hub_state_v1 \<Rightarrow> local_error + ('r \<times> hub_state_v1)"

definition hub_with_write ::
  "'t hub_codec \<Rightarrow> store_io \<Rightarrow> 'r hub_operation \<Rightarrow> 't option \<Rightarrow> (local_error + 'r) \<times> 't option" where
  "hub_with_write C io operation disk =
     (if \<not> lock_granted io then (Inl LockFailed, disk)
      else case rbind (read_hub_state C disk) operation of
        Inl e \<Rightarrow> (Inl e, disk)
      | Inr (result, state) \<Rightarrow> overwrite io (hc_write C state) result disk)"

text \<open>\<^verbatim>\<open>HubDb::open\<close>: a missing file is created, an existing one must parse and have schema 1.\<close>

definition hub_db_open :: "'t hub_codec \<Rightarrow> store_io \<Rightarrow> 't option \<Rightarrow> (local_error + unit) \<times> 't option" where
  "hub_db_open C io disk =
     (if \<not> lock_granted io then (Inl LockFailed, disk)
      else
        let (created, disk) = (case disk of
              Some t \<Rightarrow> (rbind (ok_or (hc_read C t) ParseFailed) (\<lambda>_. Inr ()), disk)
            | None \<Rightarrow> overwrite io (hc_write C hub_state_default) () disk)
        in (rbind created (\<lambda>_. rbind (read_hub_state C disk) (\<lambda>s.
              if hs_schema_version s = 0 then Inl InvalidSchemaVersion
              else if current_hub_schema < hs_schema_version s then Inl NewerSchemaVersion
              else Inr ())), disk))"

section \<open>Operations of the store\<close>

definition lh_meta :: "string \<Rightarrow> hub_state_v1 \<Rightarrow> workspace_meta_v1" where
  "lh_meta ws s = (case map_of (hs_workspaces s) ws of Some m \<Rightarrow> m | None \<Rightarrow> workspace_meta_default)"

text \<open>\<^verbatim>\<open>workspaces.entry(id).or_default()\<close> followed by an update of the entry.\<close>

definition lh_update ::
  "string \<Rightarrow> (workspace_meta_v1 \<Rightarrow> workspace_meta_v1) \<Rightarrow> hub_state_v1 \<Rightarrow> hub_state_v1" where
  "lh_update ws f s = s\<lparr>hs_workspaces := btree_insert ws (f (lh_meta ws s)) (hs_workspaces s)\<rparr>"

definition lh_list_workspaces :: "hub_state_v1 \<Rightarrow> string list" where
  "lh_list_workspaces s =
     sort (map fst (filter (\<lambda>(_, m). wm_head m \<noteq> None
        \<or> list_ex (\<lambda>(_, f). \<not> lf_deleted f) (wm_files m)) (hs_workspaces s)))"

definition lh_get_files :: "string \<Rightarrow> hub_state_v1 \<Rightarrow> (string \<times> legacy_file_v1) list" where
  "lh_get_files ws s =
     (case map_of (hs_workspaces s) ws of Some m \<Rightarrow> wm_files m | None \<Rightarrow> [])"

definition lh_upsert_file ::
  "string \<Rightarrow> string \<Rightarrow> legacy_file_v1 \<Rightarrow> hub_state_v1 \<Rightarrow> unit \<times> hub_state_v1" where
  "lh_upsert_file ws path f s =
     ((), lh_update ws (\<lambda>m. m\<lparr>wm_files := btree_insert path f (wm_files m)\<rparr>) s)"

definition lh_tombstone_existing_file ::
  "string \<Rightarrow> string \<Rightarrow> string \<Rightarrow> i64 \<Rightarrow> hub_state_v1 \<Rightarrow> bool \<times> hub_state_v1" where
  "lh_tombstone_existing_file ws path hash mtime s =
     (case map_of (hs_workspaces s) ws of
        None \<Rightarrow> (False, s)
      | Some m \<Rightarrow>
          if map_of (wm_files m) path = None then (False, s)
          else (True, lh_update ws (\<lambda>m. m\<lparr>wm_files := btree_insert path
             \<lparr>lf_hash = hash, lf_size = 0, lf_mtime = mtime, lf_mode = 0, lf_deleted = True\<rparr>
             (wm_files m)\<rparr>) s))"

definition lh_get_format :: "string \<Rightarrow> hub_state_v1 \<Rightarrow> nat" where
  "lh_get_format ws s =
     (case map_of (hs_workspaces s) ws of Some m \<Rightarrow> wm_format_version m | None \<Rightarrow> 2)"

definition canonical_manifest :: "string \<Rightarrow> workspace_meta_v1 \<Rightarrow> bool" where
  "canonical_manifest sid m =
     is_some_and (map_of (wm_manifests m) sid)
       (\<lambda>mf. is_ok (canonical_manifest_hash_list sid (mv_hashes mf)))"

definition lh_set_format :: "string \<Rightarrow> nat \<Rightarrow> hub_state_v1 \<Rightarrow> format_write \<times> hub_state_v1" where
  "lh_set_format ws version s =
     (let m = lh_meta ws s in
      if version \<ge> 3 \<and> \<not> is_some_and (wm_head m) (\<lambda>head. canonical_manifest head m)
      then (MissingManifestHead, lh_update ws (\<lambda>m. m) s)
      else (FormatApplied, lh_update ws (\<lambda>m.
         let m = m\<lparr>wm_format_version := version\<rparr> in
         if version \<ge> 3 then m\<lparr>wm_files := [], wm_migration_fence := None, wm_fence_locked_at := 0\<rparr>
         else m) s))"

definition lh_get_head :: "string \<Rightarrow> hub_state_v1 \<Rightarrow> string option" where
  "lh_get_head ws s = (case map_of (hs_workspaces s) ws of Some m \<Rightarrow> wm_head m | None \<Rightarrow> None)"

definition lh_swap_head ::
  "string \<Rightarrow> string option \<Rightarrow> string \<Rightarrow> hub_state_v1 \<Rightarrow> string option \<times> hub_state_v1" where
  "lh_swap_head ws expected new s =
     (let current = wm_head (lh_meta ws s) in
      (current, lh_update ws (\<lambda>m. if expected = current then m\<lparr>wm_head := Some new\<rparr> else m) s))"

definition lh_manifest_exists :: "string \<Rightarrow> string \<Rightarrow> hub_state_v1 \<Rightarrow> bool" where
  "lh_manifest_exists ws sid s =
     is_some_and (map_of (hs_workspaces s) ws) (canonical_manifest sid)"

definition lh_store_manifest ::
  "int \<Rightarrow> string \<Rightarrow> string \<Rightarrow> string list \<Rightarrow> hub_state_v1 \<Rightarrow> manifest_write_outcome \<times> hub_state_v1" where
  "lh_store_manifest now_ms ws sid hashes s =
     (case map_of (wm_manifests (lh_meta ws s)) sid of
        Some existing \<Rightarrow>
          (if mv_hashes existing = hashes then Unchanged else ManifestConflict, lh_update ws (\<lambda>m. m) s)
      | None \<Rightarrow>
          (Stored, lh_update ws (\<lambda>m. m\<lparr>wm_manifests := btree_insert sid
             \<lparr>mv_hashes = hashes, mv_created_at_ms = now_ms\<rparr> (wm_manifests m)\<rparr>) s))"

definition lh_begin_migration ::
  "int \<Rightarrow> string \<Rightarrow> string \<Rightarrow> hub_state_v1 \<Rightarrow> migration_write_outcome \<times> hub_state_v1" where
  "lh_begin_migration now_ms ws token s =
     (let m = lh_meta ws s in
      if wm_format_version m \<ge> 3 then (Acquired, lh_update ws (\<lambda>m. m) s)
      else case wm_migration_fence m of
        Some existing \<Rightarrow>
          (if existing = token then Acquired else LockedByOther, lh_update ws (\<lambda>m. m) s)
      | None \<Rightarrow>
          (Acquired, lh_update ws (\<lambda>m. m\<lparr>wm_migration_fence := Some token,
             wm_fence_locked_at := now_ms\<rparr>) s))"

definition lh_get_migration_fence :: "string \<Rightarrow> hub_state_v1 \<Rightarrow> string option" where
  "lh_get_migration_fence ws s =
     (case map_of (hs_workspaces s) ws of Some m \<Rightarrow> wm_migration_fence m | None \<Rightarrow> None)"

section \<open>Routes\<close>

text \<open>
  The hub: its state file, the blobs directory, and the workspaces whose waiters were notified, the
  last first. Each request takes the I/O of its transactions in order.
\<close>

record 't local_hub =
  lh_disk :: "'t option"
  lh_blobs :: "(string \<times> bytes) list"
  lh_notified :: "string list"

definition status_err :: "local_error + 'r \<Rightarrow> status + 'r" where
  "status_err r = map_err (\<lambda>_. Internal500) r"

definition check_fence ::
  "'t hub_codec \<Rightarrow> store_io \<Rightarrow> string \<Rightarrow> string option \<Rightarrow> 't local_hub \<Rightarrow> status + unit" where
  "check_fence C io ws migration_header hub =
     rbind (status_err (hub_with_read C io (lh_get_migration_fence ws) (lh_disk hub))) (\<lambda>fence.
     (case fence of
        None \<Rightarrow> Inr ()
      | Some expected \<Rightarrow>
          let provided = (case migration_header of Some t \<Rightarrow> t | None \<Rightarrow> []) in
          if provided = expected then Inr () else Inl Locked423))"

definition check_legacy_compat ::
  "'t hub_codec \<Rightarrow> store_io \<Rightarrow> string \<Rightarrow> 't local_hub \<Rightarrow> status + unit" where
  "check_legacy_compat C io ws hub =
     rbind (status_err (hub_with_read C io (lh_get_format ws) (lh_disk hub))) (\<lambda>v.
     if v \<ge> 3 then Inl UpgradeRequired426 else Inr ())"

definition get_param :: "(string \<times> string) list \<Rightarrow> string \<Rightarrow> status + string" where
  "get_param params key = ok_or (map_of params key) BadRequest400"

text \<open>\<^verbatim>\<open>str::parse::<i64>\<close>: decimal digits, at least one, after an optional sign, within 64 bits.\<close>

definition parse_i64 :: "string \<Rightarrow> i64 option" where
  "parse_i64 s =
     (let neg = (s \<noteq> [] \<and> hd s = CHR ''-'');
          ds = (if s \<noteq> [] \<and> (hd s = CHR ''+'' \<or> hd s = CHR ''-'') then tl s else s);
          v = foldl (\<lambda>acc d. 10 * acc + (of_char d - 48)) (0::nat) ds;
          i = (if neg then - int v else int v)
      in if ds \<noteq> [] \<and> list_all (between 48 57) ds \<and> - (2 ^ 63) \<le> i \<and> i < 2 ^ 63
         then Some (word_of_int i) else None)"

definition parse_param :: "(string \<Rightarrow> 'a option) \<Rightarrow> (string \<times> string) list \<Rightarrow> string \<Rightarrow> status + 'a" where
  "parse_param parse params key =
     rbind (get_param params key) (\<lambda>raw. ok_or (parse raw) BadRequest400)"

definition route_list_workspaces :: "'t hub_codec \<Rightarrow> store_io \<Rightarrow> 't local_hub \<Rightarrow> status + string list" where
  "route_list_workspaces C io hub = status_err (hub_with_read C io lh_list_workspaces (lh_disk hub))"

definition legacy_file_state :: "string \<times> legacy_file_v1 \<Rightarrow> size_conversion_error + file_state" where
  "legacy_file_state row =
     (let (path, f) = row in
      rbind (file_size_from_db (lf_size f)) (\<lambda>size'.
      Inr \<lparr>fs_path = path, fs_hash = lf_hash f, fs_size = size', fs_mtime = lf_mtime f,
           fs_deleted = lf_deleted f, fs_mode = lf_mode f\<rparr>))"

definition route_sync_peek ::
  "prims \<Rightarrow> 't hub_codec \<Rightarrow> (nat \<Rightarrow> store_io) \<Rightarrow> string \<Rightarrow> file_state list \<Rightarrow> 't local_hub
   \<Rightarrow> status + sync_response" where
  "route_sync_peek P C ios ws files hub =
     rbind (check_legacy_compat C (ios 0) ws hub) (\<lambda>_.
     rbind (status_err (hub_with_read C (ios 1) (lh_get_files ws) (lh_disk hub))) (\<lambda>rows.
     rbind (map_err (\<lambda>_. Internal500) (collect_results (map legacy_file_state rows))) (\<lambda>server.
     Inr (compute_sync_delta P files server))))"


text \<open>A transaction that writes: the answer, and the hub with what is then on disk.\<close>

definition lh_run ::
  "'t hub_codec \<Rightarrow> store_io \<Rightarrow> (hub_state_v1 \<Rightarrow> 'r \<times> hub_state_v1) \<Rightarrow> 't local_hub
   \<Rightarrow> (local_error + 'r) \<times> 't local_hub" where
  "lh_run C io operation hub =
     (let (result, disk) = hub_with_write C io (\<lambda>s. Inr (operation s)) (lh_disk hub)
      in (result, hub\<lparr>lh_disk := disk\<rparr>))"

definition lh_blob_exists :: "string \<Rightarrow> 't local_hub \<Rightarrow> bool" where
  "lh_blob_exists hash hub = (map_of (lh_blobs hub) hash \<noteq> None)"

definition lh_store_blob :: "blob_write \<Rightarrow> string \<Rightarrow> bytes \<Rightarrow> 't local_hub \<Rightarrow> 't local_hub" where
  "lh_store_blob outcome hash data hub =
     (if outcome = BlobNotWritten then hub
      else hub\<lparr>lh_blobs := AList.update hash data (lh_blobs hub)\<rparr>)"

text \<open>
  The I/O of an upload: its transactions in order, the writing of the blob, and whether a blob that
  is given up can be unlinked.
\<close>

record upload_io =
  ui_store :: "nat \<Rightarrow> store_io"
  ui_blob :: blob_write
  ui_unlinked :: bool

datatype local_upload =
    RetireLocal string string string i64
  | TombstoneLocal string string legacy_file_v1
  | ObjectLocal string
  | FileLocal string string legacy_file_v1

definition flag_param :: "(string \<times> string) list \<Rightarrow> string \<Rightarrow> bool" where
  "flag_param params key = is_some_and (map_of params key) (\<lambda>v. v = ''true'')"

definition parse_mode :: "string \<Rightarrow> u32 option" where
  "parse_mode s = map_option of_nat (parse_u32 s)"

definition local_upload_admit ::
  "prims \<Rightarrow> 't hub_codec \<Rightarrow> (nat \<Rightarrow> store_io) \<Rightarrow> bytes \<Rightarrow> (string \<times> string) list \<Rightarrow> string option
   \<Rightarrow> 't local_hub \<Rightarrow> status + local_upload" where
  "local_upload_admit P C ios body params migration_header hub =
     rbind (get_param params ''workspace_id'') (\<lambda>ws.
     rbind (check_fence C (ios 0) ws migration_header hub) (\<lambda>_.
     rbind (get_param params ''hash'') (\<lambda>hash.
     rbind (ensure (is_valid_hash hash) BadRequest400) (\<lambda>_.
     rbind (get_param params ''path'') (\<lambda>path.
     if flag_param params ''deleted'' then
       rbind (ensure (\<not> flag_param params ''object'') BadRequest400) (\<lambda>_.
       rbind (check_legacy_compat C (ios 1) ws hub) (\<lambda>_.
       rbind (parse_param parse_i64 params ''mtime'') (\<lambda>mtime.
       Inr (if \<not> is_safe_rel_path P path then RetireLocal ws path hash mtime
            else TombstoneLocal ws path
              \<lparr>lf_hash = hash, lf_size = 0, lf_mtime = mtime, lf_mode = 0, lf_deleted = True\<rparr>))))
     else
       rbind (ensure (is_safe_rel_path P path) BadRequest400) (\<lambda>_.
       rbind (ensure (hash_bytes P body = hash) BadRequest400) (\<lambda>_.
       if flag_param params ''object'' then Inr (ObjectLocal hash)
       else
         rbind (check_legacy_compat C (ios 1) ws hub) (\<lambda>_.
         rbind (parse_param parse_i64 params ''size'') (\<lambda>size'.
         rbind (parse_param parse_i64 params ''mtime'') (\<lambda>mtime.
         rbind (parse_param parse_mode params ''mode'') (\<lambda>mode.
         Inr (FileLocal ws path
           \<lparr>lf_hash = hash, lf_size = size', lf_mtime = mtime, lf_mode = mode, lf_deleted = False\<rparr>))))))))))))"

text \<open>
  A failed row gives up the blob that this request has written, unless the failure came after the
  replacement of the state file and the workspace refers to the blob.
\<close>

definition upload_failed ::
  "'t hub_codec \<Rightarrow> upload_io \<Rightarrow> string \<Rightarrow> string \<Rightarrow> bool \<Rightarrow> local_error \<Rightarrow> 't local_hub \<Rightarrow> 't local_hub" where
  "upload_failed C io ws hash is_new err hub =
     (let give_up = (if ui_unlinked io then hub\<lparr>lh_blobs := AList.delete hash (lh_blobs hub)\<rparr> else hub) in
      if \<not> is_new then hub
      else if err \<noteq> DurabilityUncertain then give_up
      else case hub_with_read C (ui_store io 3) (lh_get_files ws) (lh_disk hub) of
        Inl _ \<Rightarrow> hub
      | Inr files \<Rightarrow> if list_ex (\<lambda>(_, f). lf_hash f = hash) files then hub else give_up)"

definition route_upload ::
  "prims \<Rightarrow> 't hub_codec \<Rightarrow> upload_io \<Rightarrow> bytes \<Rightarrow> (string \<times> string) list \<Rightarrow> string option
   \<Rightarrow> 't local_hub \<Rightarrow> status \<times> 't local_hub" where
  "route_upload P C io body params migration_header hub =
     (case local_upload_admit P C (ui_store io) body params migration_header hub of
        Inl s \<Rightarrow> (s, hub)
      | Inr (RetireLocal ws path hash mtime) \<Rightarrow>
          (case lh_run C (ui_store io 2) (lh_tombstone_existing_file ws path hash mtime) hub of
             (Inl _, hub) \<Rightarrow> (Internal500, hub)
           | (Inr retired, hub) \<Rightarrow> (if retired then Ok200 else BadRequest400, hub))
      | Inr (TombstoneLocal ws path f) \<Rightarrow>
          (case lh_run C (ui_store io 2) (lh_upsert_file ws path f) hub of
             (Inl _, hub) \<Rightarrow> (Internal500, hub)
           | (Inr _, hub) \<Rightarrow> (Ok200, hub))
      | Inr (ObjectLocal hash) \<Rightarrow>
          if lh_blob_exists hash hub then (Ok200, hub)
          else (if ui_blob io = BlobWritten then Ok200 else Internal500, lh_store_blob (ui_blob io) hash body hub)
      | Inr (FileLocal ws path f) \<Rightarrow>
          (let hash = lf_hash f;
               is_new = \<not> lh_blob_exists hash hub;
               hub1 = (if is_new then lh_store_blob (ui_blob io) hash body hub else hub)
           in if is_new \<and> ui_blob io \<noteq> BlobWritten then (Internal500, hub1)
              else case lh_run C (ui_store io 2) (lh_upsert_file ws path f) hub1 of
                (Inr _, hub2) \<Rightarrow> (Ok200, hub2)
              | (Inl err, hub2) \<Rightarrow> (Internal500, upload_failed C io ws hash is_new err hub2)))"

definition max_body_bytes :: nat where "max_body_bytes = 100 * 1024 * 1024"

fun has_dot_dot :: "string \<Rightarrow> bool" where
  "has_dot_dot (c # d # s) = (c = CHR ''.'' \<and> d = CHR ''.'' \<or> has_dot_dot (d # s))"
| "has_dot_dot s = False"

text \<open>The blobs directory is only changed by the hub itself, so a blob that is there can be read.\<close>

definition route_download :: "string \<Rightarrow> 't local_hub \<Rightarrow> status + bytes" where
  "route_download hash hub =
     (if has_dot_dot hash \<or> CHR ''/'' \<in> set hash then Inl NotFound404
      else if \<not> is_valid_hash hash then Inl BadRequest400
      else case map_of (lh_blobs hub) hash of
        None \<Rightarrow> Inl NotFound404
      | Some data \<Rightarrow> if length data > max_body_bytes then Inl PayloadTooLarge413 else Inr data)"

definition route_get_head ::
  "'t hub_codec \<Rightarrow> store_io \<Rightarrow> (string \<times> string) list \<Rightarrow> 't local_hub \<Rightarrow> status + (string option \<times> bool)" where
  "route_get_head C io params hub =
     rbind (get_param params ''workspace_id'') (\<lambda>ws.
     rbind (status_err (hub_with_read C io (lh_get_head ws) (lh_disk hub))) (\<lambda>head.
     Inr (head, False)))"

definition route_swap_head ::
  "'t hub_codec \<Rightarrow> (nat \<Rightarrow> store_io) \<Rightarrow> string \<Rightarrow> string option \<Rightarrow> string \<Rightarrow> string option \<Rightarrow> 't local_hub
   \<Rightarrow> (status \<times> string option) \<times> 't local_hub" where
  "route_swap_head C ios ws expected new migration_header hub =
     (case rbind (check_fence C (ios 0) ws migration_header hub) (\<lambda>_.
           rbind (ensure (is_valid_hash new \<and> \<not> is_some_and expected (\<lambda>id. \<not> is_valid_hash id)) BadRequest400) (\<lambda>_.
           rbind (status_err (hub_with_read C (ios 1) (lh_manifest_exists ws new) (lh_disk hub))) (\<lambda>exists.
           ensure exists PreconditionFailed412))) of
        Inl s \<Rightarrow> ((s, None), hub)
      | Inr _ \<Rightarrow>
          (case lh_run C (ios 2) (lh_swap_head ws expected new) hub of
             (Inl _, hub) \<Rightarrow> ((Internal500, None), hub)
           | (Inr previous, hub) \<Rightarrow>
               if previous = expected
               then ((Ok200, Some new), hub\<lparr>lh_notified := ws # lh_notified hub\<rparr>)
               else ((Conflict409, previous), hub)))"

definition max_local_manifest_bytes :: nat where "max_local_manifest_bytes = 64 * 1024 * 1024"

definition route_manifest ::
  "'t hub_codec \<Rightarrow> (nat \<Rightarrow> store_io) \<Rightarrow> int \<Rightarrow> bytes \<Rightarrow> (string \<times> string) list \<Rightarrow> string option \<Rightarrow> 't local_hub
   \<Rightarrow> status \<times> 't local_hub" where
  "route_manifest C ios now_ms body params migration_header hub =
     (case rbind (get_param params ''workspace_id'') (\<lambda>ws.
           rbind (check_fence C (ios 0) ws migration_header hub) (\<lambda>_.
           rbind (get_param params ''snapshot_id'') (\<lambda>sid.
           rbind (ensure (length body \<le> max_local_manifest_bytes) PayloadTooLarge413) (\<lambda>_.
           rbind (ensure (utf8_ok body) BadRequest400) (\<lambda>_.
           rbind (map_err (\<lambda>_. BadRequest400) (canonical_manifest_hashes sid body)) (\<lambda>hashes.
           rbind (ensure (list_all (\<lambda>h. lh_blob_exists h hub) hashes) PreconditionFailed412) (\<lambda>_.
           Inr (ws, sid, hashes)))))))) of
        Inl s \<Rightarrow> (s, hub)
      | Inr (ws, sid, hashes) \<Rightarrow>
          (case lh_run C (ios 1) (lh_store_manifest now_ms ws sid hashes) hub of
             (Inl _, hub) \<Rightarrow> (Internal500, hub)
           | (Inr outcome, hub) \<Rightarrow>
               ((case outcome of
                  Stored \<Rightarrow> Ok200
                | Unchanged \<Rightarrow> Ok200
                | ManifestConflict \<Rightarrow> BadRequest400
                | Capacity \<Rightarrow> InsufficientStorage507), hub)))"

definition route_get_format ::
  "'t hub_codec \<Rightarrow> store_io \<Rightarrow> (string \<times> string) list \<Rightarrow> 't local_hub \<Rightarrow> status + nat" where
  "route_get_format C io params hub =
     rbind (get_param params ''workspace_id'') (\<lambda>ws.
     status_err (hub_with_read C io (lh_get_format ws) (lh_disk hub)))"

definition route_set_format ::
  "'t hub_codec \<Rightarrow> (nat \<Rightarrow> store_io) \<Rightarrow> (string \<times> string) list \<Rightarrow> string option \<Rightarrow> 't local_hub
   \<Rightarrow> status \<times> 't local_hub" where
  "route_set_format C ios params migration_header hub =
     (case rbind (get_param params ''workspace_id'') (\<lambda>ws.
           rbind (check_fence C (ios 0) ws migration_header hub) (\<lambda>_.
           rbind (parse_param parse_u32 params ''format_version'') (\<lambda>version.
           rbind (ensure (is_supported_format_version version) BadRequest400) (\<lambda>_.
           Inr (ws, version))))) of
        Inl s \<Rightarrow> (s, hub)
      | Inr (ws, version) \<Rightarrow>
          (case lh_run C (ios 1) (lh_set_format ws version) hub of
             (Inr FormatApplied, hub) \<Rightarrow> (Ok200, hub)
           | (Inr MissingManifestHead, hub) \<Rightarrow> (Internal500, hub)
           | (Inl _, hub) \<Rightarrow> (Internal500, hub)))"

definition route_begin_migration ::
  "'t hub_codec \<Rightarrow> (nat \<Rightarrow> store_io) \<Rightarrow> int \<Rightarrow> (string \<times> string) list \<Rightarrow> string option \<Rightarrow> 't local_hub
   \<Rightarrow> status \<times> 't local_hub" where
  "route_begin_migration C ios now_ms params migration_header hub =
     (case rbind (get_param params ''workspace_id'') (\<lambda>ws.
           rbind (ok_or (Option.bind migration_header (\<lambda>t. if is_valid_hash t then Some t else None)) BadRequest400) (\<lambda>token.
           rbind (status_err (hub_with_read C (ios 0) (lh_get_format ws) (lh_disk hub))) (\<lambda>version.
           Inr (ws, token, version)))) of
        Inl s \<Rightarrow> (s, hub)
      | Inr (ws, token, version) \<Rightarrow>
          if version \<ge> 3 then (Ok200, hub)
          else (case lh_run C (ios 1) (lh_begin_migration now_ms ws token) hub of
             (Inr Acquired, hub) \<Rightarrow> (Ok200, hub)
           | (Inr LockedByOther, hub) \<Rightarrow> (Locked423, hub)
           | (Inl _, hub) \<Rightarrow> (Internal500, hub)))"


section \<open>Requests\<close>

text \<open>
  Waiting for a head other than \<open>after\<close>. The workspace's head is read up to three times: on arrival,
  after the registration for a wake-up, and on the wake-up; \<open>hubs n\<close> is the hub at the \<open>n\<close>th read.
  \<open>woken\<close> tells whether \<^verbatim>\<open>select!\<close> sees the notification or the timeout.
\<close>

definition parse_u64 :: "string \<Rightarrow> nat option" where
  "parse_u64 s =
     (let ds = (if s \<noteq> [] \<and> hd s = CHR ''+'' then tl s else s);
          v = foldl (\<lambda>acc d. 10 * acc + (of_char d - 48)) 0 ds
      in if ds \<noteq> [] \<and> list_all (between 48 57) ds \<and> v < 2 ^ 64 then Some v else None)"

definition read_head :: "'t hub_codec \<Rightarrow> store_io \<Rightarrow> string \<Rightarrow> 't local_hub \<Rightarrow> status + string option" where
  "read_head C io ws hub = status_err (hub_with_read C io (lh_get_head ws) (lh_disk hub))"

definition request_head_with_wait ::
  "'t hub_codec \<Rightarrow> (nat \<Rightarrow> store_io) \<Rightarrow> (nat \<Rightarrow> 't local_hub) \<Rightarrow> bool \<Rightarrow> (string \<times> string) list \<Rightarrow> string
   \<Rightarrow> status + (string option \<times> bool)" where
  "request_head_with_wait C ios hubs woken params after =
     rbind (ensure (is_valid_hash after) BadRequest400) (\<lambda>_.
     rbind (get_param params ''workspace_id'') (\<lambda>ws.
     rbind (ensure (ws \<noteq> []) BadRequest400) (\<lambda>_.
     rbind (case map_of params ''wait_ms'' of
              None \<Rightarrow> Inr None
            | Some v \<Rightarrow> map_err (\<lambda>_. BadRequest400) (rbind (ok_or (parse_u64 v) ()) (\<lambda>n. Inr (Some n)))) (\<lambda>wait_ms.
     rbind (read_head C (ios 0) ws (hubs 0)) (\<lambda>current.
     (case wait_admit current after wait_ms of
        Some answer \<Rightarrow> Inr (answer, True)
      | None \<Rightarrow>
          rbind (read_head C (ios 1) ws (hubs 1)) (\<lambda>registered.
          if registered \<noteq> Some after then Inr (registered, True)
          else if woken then rbind (read_head C (ios 2) ws (hubs 2)) (\<lambda>refreshed. Inr (refreshed, True))
          else Inr (current, True))))))))"

text \<open>\<^verbatim>\<open>serde_json::from_slice\<close> on the bodies of a sync request and of a head swap.\<close>

record request_json =
  rj_sync :: "bytes \<Rightarrow> (string \<times> file_state list) option"
  rj_swap :: "bytes \<Rightarrow> (string \<times> string option \<times> string) option"

record routed_request =
  rq_method :: string
  rq_path :: string
  rq_body :: bytes
  rq_params :: "(string \<times> string) list"
  rq_migration :: "string option"

datatype reply =
    NoBody | NamesBody "string list" | DeltaBody sync_response | BlobBody bytes
  | HeadBody "string option" bool | FormatBody nat

definition reply_with :: "('b \<Rightarrow> reply) \<Rightarrow> status + 'b \<Rightarrow> status \<times> reply" where
  "reply_with f r = (case r of Inl s \<Rightarrow> (s, NoBody) | Inr b \<Rightarrow> (Ok200, f b))"

definition download_prefix :: string where "download_prefix = ''/api/download/''"

definition dispatch_request ::
  "prims \<Rightarrow> 't hub_codec \<Rightarrow> request_json \<Rightarrow> upload_io \<Rightarrow> int \<Rightarrow> routed_request \<Rightarrow> 't local_hub
   \<Rightarrow> (status \<times> reply) \<times> 't local_hub" where
  "dispatch_request P C J io now_ms r hub =
     (let ios = ui_store io; body = rq_body r; params = rq_params r; token = rq_migration r;
          is_route = (\<lambda>m p. rq_method r = m \<and> rq_path r = p)
      in if is_route ''GET'' ''/api/workspaces'' then
           (reply_with NamesBody (route_list_workspaces C (ios 0) hub), hub)
         else if is_route ''POST'' ''/api/sync/peek'' \<or> is_route ''POST'' ''/api/sync/diff'' then
           (reply_with DeltaBody (rbind (ok_or (rj_sync J body) BadRequest400) (\<lambda>(ws, files).
              route_sync_peek P C ios ws files hub)), hub)
         else if is_route ''POST'' ''/api/upload'' then
           (case route_upload P C io body params token hub of (s, hub) \<Rightarrow> ((s, NoBody), hub))
         else if rq_method r = ''GET'' \<and> take (length download_prefix) (rq_path r) = download_prefix then
           (reply_with BlobBody (route_download (drop (length download_prefix) (rq_path r)) hub), hub)
         else if is_route ''GET'' ''/api/head'' then
           (reply_with (\<lambda>(head, wait). HeadBody head wait) (route_get_head C (ios 0) params hub), hub)
         else if is_route ''PUT'' ''/api/head'' then
           (case rj_swap J body of
              None \<Rightarrow> ((BadRequest400, NoBody), hub)
            | Some (ws, expected, new) \<Rightarrow>
                (case route_swap_head C ios ws expected new token hub of ((s, head), hub) \<Rightarrow>
                   ((s, if s = Ok200 \<or> s = Conflict409 then HeadBody head False else NoBody), hub)))
         else if is_route ''POST'' ''/api/manifest'' then
           (case route_manifest C ios now_ms body params token hub of (s, hub) \<Rightarrow> ((s, NoBody), hub))
         else if is_route ''GET'' ''/api/workspace/format'' then
           (reply_with FormatBody (route_get_format C (ios 0) params hub), hub)
         else if is_route ''POST'' ''/api/workspace/format'' then
           (case route_set_format C ios params token hub of (s, hub) \<Rightarrow> ((s, NoBody), hub))
         else if is_route ''POST'' ''/api/workspace/migration'' then
           (case route_begin_migration C ios now_ms params token hub of (s, hub) \<Rightarrow> ((s, NoBody), hub))
         else ((NotFound404, NoBody), hub))"

text \<open>
  A request, with the query already decoded. \<open>hubs\<close> and \<open>woken\<close> serve a waiting request only, which
  changes nothing.
\<close>

definition local_hub_request ::
  "prims \<Rightarrow> 't hub_codec \<Rightarrow> request_json \<Rightarrow> upload_io \<Rightarrow> int \<Rightarrow> (nat \<Rightarrow> 't local_hub) \<Rightarrow> bool \<Rightarrow> string option
   \<Rightarrow> string option \<Rightarrow> routed_request \<Rightarrow> 't local_hub \<Rightarrow> (status \<times> reply) \<times> 't local_hub" where
  "local_hub_request P C J io now_ms hubs woken auth_token bearer r hub =
     (if is_some_and auth_token (\<lambda>expected. (case bearer of Some b \<Rightarrow> b | None \<Rightarrow> []) \<noteq> expected)
      then ((Unauthorized401, NoBody), hub)
      else if length (rq_body r) > max_body_bytes then ((PayloadTooLarge413, NoBody), hub)
      else case (if rq_method r = ''GET'' \<and> rq_path r = ''/api/head'' then map_of (rq_params r) ''after'' else None) of
        Some after \<Rightarrow>
          (reply_with (\<lambda>(head, wait). HeadBody head wait)
             (request_head_with_wait C (ui_store io) (hubs(0 := hub)) woken (rq_params r) after), hub)
      | None \<Rightarrow> dispatch_request P C J io now_ms r hub)"

section \<open>Import and export\<close>

record migration_hub_file =
  mh_hash :: string
  mh_size :: u64
  mh_mtime :: i64
  mh_mode :: u32
  mh_deleted :: bool

record migration_hub_workspace =
  mw_format_version :: nat
  mw_head :: "string option"
  mw_manifests :: "(string \<times> manifest_v1) list"
  mw_files :: "(string \<times> migration_hub_file) list"
  mw_fence :: "(string \<times> int) option"

type_synonym migration_hub_state = "(string \<times> migration_hub_workspace) list"

text \<open>\<^verbatim>\<open>collect\<close> into a \<^verbatim>\<open>BTreeMap\<close> of a map's own entries, in the order of its keys.\<close>

definition import_file :: "string \<times> migration_hub_file \<Rightarrow> local_error + string \<times> legacy_file_v1" where
  "import_file row =
     (let (path, f) = row in
      rbind (map_err SizeConversion (file_size_to_db (mh_size f))) (\<lambda>size'.
      Inr (path, \<lparr>lf_hash = mh_hash f, lf_size = size', lf_mtime = mh_mtime f, lf_mode = mh_mode f,
                  lf_deleted = mh_deleted f\<rparr>)))"

definition import_workspace :: "migration_hub_workspace \<Rightarrow> local_error + workspace_meta_v1" where
  "import_workspace w =
     rbind (collect_results (map import_file (mw_files w))) (\<lambda>files.
     Inr \<lparr>wm_format_version = mw_format_version w, wm_head = mw_head w,
          wm_manifests = mw_manifests w, wm_files = files,
          wm_migration_fence = map_option fst (mw_fence w),
          wm_fence_locked_at = (case mw_fence w of None \<Rightarrow> 0 | Some fence \<Rightarrow> snd fence)\<rparr>)"

definition hub_replace_from_migration :: "migration_hub_state \<Rightarrow> unit hub_operation" where
  "hub_replace_from_migration source s =
     rbind (collect_results (map (\<lambda>(ws, w). rbind (import_workspace w) (\<lambda>m. Inr (ws, m))) source)) (\<lambda>workspaces.
     Inr ((), s\<lparr>hs_workspaces := workspaces\<rparr>))"

definition export_file :: "string \<times> legacy_file_v1 \<Rightarrow> local_error + string \<times> migration_hub_file" where
  "export_file row =
     (let (path, f) = row in
      rbind (map_err SizeConversion (file_size_from_db (lf_size f))) (\<lambda>size'.
      Inr (path, \<lparr>mh_hash = lf_hash f, mh_size = size', mh_mtime = lf_mtime f, mh_mode = lf_mode f,
                  mh_deleted = lf_deleted f\<rparr>)))"

definition export_workspace :: "workspace_meta_v1 \<Rightarrow> local_error + migration_hub_workspace" where
  "export_workspace m =
     rbind (collect_results (map export_file (wm_files m))) (\<lambda>files.
     Inr \<lparr>mw_format_version = wm_format_version m, mw_head = wm_head m,
          mw_manifests = wm_manifests m, mw_files = files,
          mw_fence = map_option (\<lambda>token. (token, wm_fence_locked_at m)) (wm_migration_fence m)\<rparr>)"

definition hub_export_for_migration :: "hub_state_v1 \<Rightarrow> local_error + migration_hub_state" where
  "hub_export_for_migration s =
     collect_results (map (\<lambda>(ws, m). rbind (export_workspace m) (\<lambda>w. Inr (ws, w))) (hs_workspaces s))"

end
