(* ===== verification/Hub_Parity.thy ===== *)
theory Hub_Parity
  imports Hub_Run Local_Hub
begin

text \<open>
  The in-process hub against the SQLite hub. The state file stays well-formed under every history of
  operations and I/O failures, by the locale of durable stores; and publication, the object uploads, the
  manifests, the head swaps, the change of format and the migration fence, is answered alike by the
  two hubs, which is what lets a client treat a local hub and a remote one as the same thing.
\<close>

section \<open>Well-formed states\<close>

text \<open>The maps of the state are \<^verbatim>\<open>BTreeMap\<close>s; the JSON text of such a state reads back as the state.\<close>

definition meta_wf :: "workspace_meta_v1 \<Rightarrow> bool" where
  "meta_wf m \<longleftrightarrow> btree (wm_manifests m) \<and> btree (wm_files m)"

definition hub_wf :: "hub_state_v1 \<Rightarrow> bool" where
  "hub_wf s \<longleftrightarrow> btree (hs_workspaces s) \<and> (\<forall>(ws, m)\<in>set (hs_workspaces s). meta_wf m)"

definition hub_codec_ok :: "'t hub_codec \<Rightarrow> bool" where
  "hub_codec_ok C \<longleftrightarrow> (\<forall>s. hub_wf s \<longrightarrow> hc_read C (hc_write C s) = Some s)"

lemma hub_wf_default [simp]: "hub_wf hub_state_default"
  by (simp add: hub_wf_def hub_state_default_def)

lemma meta_wf_default [simp]: "meta_wf workspace_meta_default"
  by (simp add: meta_wf_def workspace_meta_default_def)

lemma meta_wf_lookup: "hub_wf s \<Longrightarrow> meta_wf (lh_meta ws s)"
  by (auto simp: lh_meta_def hub_wf_def dest: map_of_SomeD split: option.splits)

lemma lh_update_wf: "hub_wf s \<Longrightarrow> meta_wf (f (lh_meta ws s)) \<Longrightarrow> hub_wf (lh_update ws f s)"
  using set_btree_insert_pairs [of ws "f (lh_meta ws s)" "hs_workspaces s"]
  by (auto simp: hub_wf_def lh_update_def btree_insert_sorted)

lemma lh_meta_update:
  "hub_wf s \<Longrightarrow> lh_meta ws' (lh_update ws f s) = (if ws' = ws then f (lh_meta ws s) else lh_meta ws' s)"
  by (simp add: lh_meta_def lh_update_def hub_wf_def btree_insert_lookup)

text \<open>What a reader gets is a field of the workspace, or of the default.\<close>

lemma lh_reads:
  "lh_get_head ws s = wm_head (lh_meta ws s)"
  "lh_get_format ws s = wm_format_version (lh_meta ws s)"
  "lh_get_migration_fence ws s = wm_migration_fence (lh_meta ws s)"
  "lh_get_files ws s = wm_files (lh_meta ws s)"
  "lh_manifest_exists ws sid s = canonical_manifest sid (lh_meta ws s)"
  by (auto simp: lh_get_head_def lh_get_format_def lh_get_migration_fence_def lh_get_files_def
      lh_manifest_exists_def canonical_manifest_def lh_meta_def workspace_meta_default_def split: option.split)

section \<open>The store under every history\<close>

datatype hub_op =
    OpUpsert string string legacy_file_v1
  | OpTombstone string string string i64
  | OpSetFormat string nat
  | OpSwapHead string "string option" string
  | OpStoreManifest int string string "string list"
  | OpBeginMigration int string string
  | OpReplace migration_hub_state

primrec hub_op_run :: "hub_op \<Rightarrow> unit hub_operation" where
  "hub_op_run (OpUpsert ws path f) s = Inr ((), snd (lh_upsert_file ws path f s))"
| "hub_op_run (OpTombstone ws path hash mtime) s = Inr ((), snd (lh_tombstone_existing_file ws path hash mtime s))"
| "hub_op_run (OpSetFormat ws version) s = Inr ((), snd (lh_set_format ws version s))"
| "hub_op_run (OpSwapHead ws expected new) s = Inr ((), snd (lh_swap_head ws expected new s))"
| "hub_op_run (OpStoreManifest now_ms ws sid hashes) s = Inr ((), snd (lh_store_manifest now_ms ws sid hashes s))"
| "hub_op_run (OpBeginMigration now_ms ws token) s = Inr ((), snd (lh_begin_migration now_ms ws token s))"
| "hub_op_run (OpReplace source) s = hub_replace_from_migration source s"

definition migration_wf :: "migration_hub_state \<Rightarrow> bool" where
  "migration_wf source \<longleftrightarrow> btree source
     \<and> (\<forall>(ws, w)\<in>set source. btree (mw_manifests w) \<and> btree (mw_files w))"

primrec hub_op_wf :: "hub_op \<Rightarrow> bool" where
  "hub_op_wf (OpUpsert ws path f) = True"
| "hub_op_wf (OpTombstone ws path hash mtime) = True"
| "hub_op_wf (OpSetFormat ws version) = True"
| "hub_op_wf (OpSwapHead ws expected new) = True"
| "hub_op_wf (OpStoreManifest now_ms ws sid hashes) = True"
| "hub_op_wf (OpBeginMigration now_ms ws token) = True"
| "hub_op_wf (OpReplace source) = migration_wf source"

lemma lh_operations_wf:
  assumes "hub_wf s"
  shows "hub_wf (snd (lh_upsert_file ws path f s))"
    "hub_wf (snd (lh_tombstone_existing_file ws path hash mtime s))"
    "hub_wf (snd (lh_set_format ws version s))"
    "hub_wf (snd (lh_swap_head ws expected new s))"
    "hub_wf (snd (lh_store_manifest now_ms ws sid hashes s))"
    "hub_wf (snd (lh_begin_migration now_ms ws token s))"
  using assms meta_wf_lookup [OF assms, of ws]
  by (auto simp: lh_upsert_file_def lh_tombstone_existing_file_def lh_set_format_def lh_swap_head_def
      lh_store_manifest_def lh_begin_migration_def Let_def meta_wf_def btree_insert_sorted
      intro!: lh_update_wf split: option.split)

lemma collect_results_Inr: "collect_results rs = Inr xs \<longleftrightarrow> rs = map Inr xs"
  by (induction rs arbitrary: xs) (auto simp: rbind_eq_Inr)

text \<open>Collecting the entries of a map keeps its keys, so it keeps their order.\<close>

lemma collect_map_keys:
  "collect_results (map f xs) = Inr ys \<Longrightarrow> (\<And>x y. f x = Inr y \<Longrightarrow> fst y = fst x) \<Longrightarrow> map fst ys = map fst xs"
  by (induction xs arbitrary: ys) (auto simp: rbind_eq_Inr)

lemma collect_map_mem:
  "collect_results (map f xs) = Inr ys \<Longrightarrow> y \<in> set ys \<Longrightarrow> \<exists>x\<in>set xs. f x = Inr y"
  by (induction xs arbitrary: ys) (auto simp: rbind_eq_Inr)

lemma import_workspace_wf:
  assumes "import_workspace w = Inr m" and "btree (mw_manifests w)" and "btree (mw_files w)"
  shows "meta_wf m"
proof -
  obtain files where files: "collect_results (map import_file (mw_files w)) = Inr files"
    and m: "wm_manifests m = mw_manifests w" "wm_files m = files"
    using assms(1) by (auto simp: import_workspace_def rbind_eq_Inr)
  have "map fst files = map fst (mw_files w)"
    using files by (rule collect_map_keys) (auto simp: import_file_def rbind_eq_Inr split: prod.splits)
  with assms(2,3) m show ?thesis by (simp add: meta_wf_def)
qed

lemma import_wf:
  assumes "migration_wf source" and "hub_replace_from_migration source s = Inr (r, s')"
  shows "hub_wf s'"
proof -
  let ?f = "\<lambda>(ws, w). rbind (import_workspace w) (\<lambda>m. Inr (ws, m))"
  obtain ms where ms: "collect_results (map ?f source) = Inr ms" and s': "hs_workspaces s' = ms"
    using assms(2) by (auto simp: hub_replace_from_migration_def rbind_eq_Inr)
  have "map fst ms = map fst source"
    using ms by (rule collect_map_keys) (auto simp: rbind_eq_Inr)
  moreover have "meta_wf m" if "(ws, m) \<in> set ms" for ws m
    using collect_map_mem [OF ms that] assms(1)
    by (auto simp: rbind_eq_Inr migration_wf_def intro: import_workspace_wf)
  ultimately show ?thesis using assms(1) by (auto simp: hub_wf_def s' migration_wf_def)
qed

lemma hub_op_keeps_wf:
  assumes "hub_op_wf x" and "hub_wf s" and "hub_op_run x s = Inr (r, s')"
  shows "hub_wf s'"
  using assms by (cases x) (auto simp: lh_operations_wf intro: import_wf)

definition load_hub :: "'t hub_codec \<Rightarrow> 't option \<Rightarrow> hub_state_v1 option" where
  "load_hub C disk = (case read_hub_state C disk of Inl _ \<Rightarrow> None | Inr s \<Rightarrow> Some s)"

definition run_hub :: "'t hub_codec \<Rightarrow> hub_op \<Rightarrow> store_io \<Rightarrow> 't option \<Rightarrow> 't option" where
  "run_hub C x io disk = snd (hub_with_write C io (hub_op_run x) disk)"

definition hub_works :: "'t hub_codec \<Rightarrow> hub_op \<Rightarrow> hub_state_v1 \<Rightarrow> hub_state_v1 \<Rightarrow> bool" where
  "hub_works C x s s' \<longleftrightarrow> hub_op_run x s = Inr ((), s')"

lemma read_hub_written: "hub_codec_ok C \<Longrightarrow> hub_wf s \<Longrightarrow> read_hub_state C (Some (hc_write C s)) = Inr s"
  by (simp add: hub_codec_ok_def read_hub_state_def ok_or_def)

lemma hub_with_write_cases:
  assumes "hub_with_write C io operation disk = (res, disk')"
  obtains (kept) "disk' = disk" "\<exists>e. res = Inl e"
  | (wrote) s r s' where "read_hub_state C disk = Inr s" "operation s = Inr (r, s')" "disk' = Some (hc_write C s')"
      "res = (if commit io = Replaced then Inr r else Inl DurabilityUncertain)" "commit io \<noteq> NotReplaced"
  using assms
  by (auto simp: hub_with_write_def overwrite_def rbind_def split: if_splits sum.splits commit_outcome.splits prod.splits)

interpretation local_hub_store: durable_store hub_codec_ok load_hub run_hub hub_works "\<lambda>_ s. s" "\<lambda>_. hub_wf"
proof
  fix C :: "'t hub_codec" and x io d
  assume ok: "hub_codec_ok C"
  obtain res d' where run: "hub_with_write C io (hub_op_run x) d = (res, d')" by force
  then show "run_hub C x io d = d \<or>
      (\<exists>s s'. load_hub C d = Some s \<and> hub_works C x s s' \<and> (hub_wf s' \<longrightarrow> load_hub C (run_hub C x io d) = Some s'))"
  proof (cases rule: hub_with_write_cases)
    case (wrote s r s')
    then show ?thesis using read_hub_written [OF ok, of s']
      by (auto simp: run_hub_def run load_hub_def hub_works_def)
  qed (simp add: run_hub_def run)
qed simp

text \<open>Whatever the I/O does, the state file parses and its maps are in order.\<close>

lemma hub_history_wf:
  assumes "hub_codec_ok C" and "load_hub C disk = Some s" and "hub_wf s"
    and "\<forall>(x, io)\<in>set history. hub_op_wf x"
  shows "\<exists>s'. load_hub C (fold (\<lambda>(x, io). run_hub C x io) history disk) = Some s' \<and> hub_wf s'"
proof -
  have "\<exists>s'. load_hub C (fold (\<lambda>(x, io). run_hub C x io) history disk) = Some s' \<and> hub_wf s' \<and> True"
    by (rule local_hub_store.history_invariant [OF assms(1-3)])
      (use assms(4) in \<open>auto simp: hub_works_def intro: hub_op_keeps_wf\<close>)
  then show ?thesis by simp
qed

section \<open>Export and import\<close>

lemma collect_map_inverse:
  "collect_results (map f xs) = Inr ys \<Longrightarrow> (\<And>x y. x \<in> set xs \<Longrightarrow> f x = Inr y \<Longrightarrow> g y = Inr x)
   \<Longrightarrow> collect_results (map g ys) = Inr xs"
  by (induction xs arbitrary: ys) (fastforce simp: rbind_eq_Inr)+

lemma import_export_file: "export_file x = Inr y \<Longrightarrow> import_file y = Inr x"
  by (auto simp: export_file_def import_file_def rbind_eq_Inr map_err_def file_size_from_db_def file_size_to_db_def sint_nonneg_iff
      split: prod.splits sum.splits if_splits)

lemma import_export_workspace:
  assumes "export_workspace m = Inr w" and "wm_migration_fence m = None \<longrightarrow> wm_fence_locked_at m = 0"
  shows "import_workspace w = Inr m"
proof -
  obtain files where files: "collect_results (map export_file (wm_files m)) = Inr files"
    and w: "w = \<lparr>mw_format_version = wm_format_version m, mw_head = wm_head m, mw_manifests = wm_manifests m,
      mw_files = files, mw_fence = map_option (\<lambda>token. (token, wm_fence_locked_at m)) (wm_migration_fence m)\<rparr>"
    using assms(1) by (auto simp: export_workspace_def rbind_eq_Inr)
  have "collect_results (map import_file files) = Inr (wm_files m)"
    using files by (rule collect_map_inverse) (rule import_export_file)
  with assms(2) show ?thesis by (cases "wm_migration_fence m") (auto simp: import_workspace_def w)
qed

text \<open>What is exported is imported unchanged, into whatever the target held.\<close>

lemma import_export:
  assumes "hub_export_for_migration s = Inr source"
    and "\<forall>(ws, m)\<in>set (hs_workspaces s). wm_migration_fence m = None \<longrightarrow> wm_fence_locked_at m = 0"
  shows "hub_replace_from_migration source target = Inr ((), target\<lparr>hs_workspaces := hs_workspaces s\<rparr>)"
proof -
  have "collect_results (map (\<lambda>(ws, w). rbind (import_workspace w) (\<lambda>m. Inr (ws, m))) source) = Inr (hs_workspaces s)"
    using assms(1) unfolding hub_export_for_migration_def
    by (rule collect_map_inverse) (use assms(2) import_export_workspace in \<open>fastforce simp: rbind_eq_Inr\<close>)
  then show ?thesis by (simp add: hub_replace_from_migration_def)
qed

section \<open>Transactions that go through\<close>

lemma hub_read_granted:
  "hub_codec_ok C \<Longrightarrow> hub_wf s \<Longrightarrow> hub_with_read C granted f (Some (hc_write C s)) = Inr (f s)"
  by (simp add: hub_with_read_def read_hub_written granted_def)

lemma lh_run_granted:
  "hub_codec_ok C \<Longrightarrow> hub_wf s \<Longrightarrow> lh_disk hub = Some (hc_write C s)
   \<Longrightarrow> lh_run C granted op hub = (Inr (fst (op s)), hub\<lparr>lh_disk := Some (hc_write C (snd (op s)))\<rparr>)"
  by (cases "op s") (simp add: lh_run_def hub_with_write_def read_hub_written granted_def overwrite_def)

lemma map_of_filter_key:
  "map_of (filter (\<lambda>(w, _). w \<noteq> k) xs) x = (if x = k then None else map_of xs x)"
  by (induction xs) auto

section \<open>Agreement of the two hubs\<close>

definition manifests_agree :: "string \<Rightarrow> manifest_row option \<Rightarrow> manifest_v1 option \<Rightarrow> bool" where
  "manifests_agree sid row entry =
     (case (row, entry) of
        (None, None) \<Rightarrow> True
      | (Some r, Some m) \<Rightarrow> row_hashes sid r = Some (mv_hashes m) \<and> manifest_ok sid (mv_hashes m)
      | _ \<Rightarrow> False)"

definition workspace_agrees :: "hub_db \<Rightarrow> string \<Rightarrow> workspace_meta_v1 \<Rightarrow> bool" where
  "workspace_agrees db ws m \<longleftrightarrow>
     get_head ws db = wm_head m \<and> workspace_format ws db = wm_format_version m
     \<and> migration_token ws db = wm_migration_fence m
     \<and> (\<forall>token. wm_migration_fence m = Some token \<longrightarrow> is_valid_hash token)
     \<and> (\<forall>sid. manifests_agree sid (map_of (db_manifests db) (ws, sid)) (map_of (wm_manifests m) sid))"

definition hubs_agree :: "'t hub_codec \<Rightarrow> app_state \<Rightarrow> 't local_hub \<Rightarrow> bool" where
  "hubs_agree C st hub \<longleftrightarrow>
     (\<forall>h. blob_exists st h = lh_blob_exists h hub)
     \<and> (\<exists>s. lh_disk hub = Some (hc_write C s) \<and> hub_wf s
          \<and> (\<forall>ws. workspace_agrees (app_db st) ws (lh_meta ws s)))"

text \<open>The requests of publication, as a client of format 3 sends them to either hub.\<close>

datatype publication =
    PutObject string string bytes
  | PutManifest string bytes
  | PutHead "string option" string
  | PutFormat string
  | PutFence

record publish_request =
  pq_workspace :: string
  pq_token :: "string option"
  pq_action :: publication
  pq_now :: int

definition publish_headers :: "string option \<Rightarrow> hub_headers" where
  "publish_headers token = \<lparr>hd_format = Some ''3'', hd_migration = token\<rparr>"

definition server_publish :: "prims \<Rightarrow> publish_request \<Rightarrow> app_state \<Rightarrow> (status \<times> string option) \<times> app_state" where
  "server_publish P r st =
     (let ws = pq_workspace r; hdr = publish_headers (pq_token r); now = pq_now r;
          plain = (\<lambda>(s, st). ((s, None), st))
      in case pq_action r of
        PutObject path hash body \<Rightarrow>
          plain (handle_upload P BlobWritten now (now div 1000) hdr
            \<lparr>up_workspace_id = ws, up_path = path, up_hash = hash, up_size = of_nat (length body), up_mtime = 0,
             up_mode = 0, up_deleted = False, up_object = True\<rparr> body st)
      | PutManifest sid body \<Rightarrow> plain (handle_manifest now hdr ws sid body st)
      | PutHead expected new \<Rightarrow> handle_swap_head hdr ws expected new st
      | PutFormat version \<Rightarrow>
          (case parse_u32 version of
             None \<Rightarrow> ((BadRequest400, None), st)
           | Some v \<Rightarrow> plain (handle_set_format hdr ws v st))
      | PutFence \<Rightarrow> plain (handle_begin_migration hdr ws st))"

definition healthy_io :: upload_io where
  "healthy_io = \<lparr>ui_store = \<lambda>_. granted, ui_blob = BlobWritten, ui_unlinked = True\<rparr>"

definition local_publish ::
  "prims \<Rightarrow> 't hub_codec \<Rightarrow> publish_request \<Rightarrow> 't local_hub \<Rightarrow> (status \<times> string option) \<times> 't local_hub" where
  "local_publish P C r hub =
     (let ws = pq_workspace r; token = pq_token r; plain = (\<lambda>(s, hub). ((s, None), hub))
      in case pq_action r of
        PutObject path hash body \<Rightarrow>
          plain (route_upload P C healthy_io body
            [(''workspace_id'', ws), (''path'', path), (''hash'', hash), (''object'', ''true'')] token hub)
      | PutManifest sid body \<Rightarrow>
          plain (route_manifest C (\<lambda>_. granted) (pq_now r) body [(''workspace_id'', ws), (''snapshot_id'', sid)] token hub)
      | PutHead expected new \<Rightarrow> route_swap_head C (\<lambda>_. granted) ws expected new token hub
      | PutFormat version \<Rightarrow>
          plain (route_set_format C (\<lambda>_. granted) [(''workspace_id'', ws), (''format_version'', version)] token hub)
      | PutFence \<Rightarrow> plain (route_begin_migration C (\<lambda>_. granted) (pq_now r) [(''workspace_id'', ws)] token hub))"

subsection \<open>Guards\<close>

lemma publish_headers_migration [simp]: "hd_migration (publish_headers token) = token"
  by (simp add: publish_headers_def)

lemma publish_access:
  "publication_access db ws (publish_headers token) = ensure_migration_access db ws (publish_headers token)"
proof -
  have "client_format (publish_headers token) = 3" unfolding publish_headers_def by code_simp
  then show ?thesis by (simp add: publication_access_def ensure_client_format_def)
qed

lemma publish_client_format: "ensure_client_format db ws (publish_headers token) = Inr ()"
proof -
  have "client_format (publish_headers token) = 3" unfolding publish_headers_def by code_simp
  then show ?thesis by (simp add: ensure_client_format_def)
qed

lemma guards_agree:
  assumes "hub_codec_ok C" and "hub_wf s" and "lh_disk hub = Some (hc_write C s)"
    and "workspace_agrees db ws (lh_meta ws s)"
  shows "check_fence C granted ws token hub = publication_access db ws (publish_headers token)"
proof (cases "wm_migration_fence (lh_meta ws s)")
  case None
  with assms show ?thesis
    by (simp add: publish_access ensure_migration_access_def check_fence_def hub_read_granted lh_reads status_err_def
        workspace_agrees_def map_err_def)
next
  case (Some expected)
  with assms(4) have "expected \<noteq> []" "migration_token ws db = Some expected"
    by (auto simp: workspace_agrees_def dest: valid_hash_nonempty)
  with assms Some show ?thesis
    by (auto simp: publish_access ensure_migration_access_def check_fence_def hub_read_granted lh_reads status_err_def
        map_err_def split: option.split)
qed

lemma manifest_exists_agrees:
  assumes "workspace_agrees db ws m"
  shows "manifest_exists ws sid db = canonical_manifest sid m"
proof -
  have "manifests_agree sid (map_of (db_manifests db) (ws, sid)) (map_of (wm_manifests m) sid)"
    using assms by (simp add: workspace_agrees_def)
  then show ?thesis
    by (auto simp: manifests_agree_def manifest_exists_def canonical_manifest_def canonical_manifest_hash_list_def
        manifest_ok_def is_ok_def split: option.splits)
qed

text \<open>A write to one workspace keeps the agreement on the others.\<close>

definition same_elsewhere :: "string \<Rightarrow> hub_db \<Rightarrow> hub_db \<Rightarrow> bool" where
  "same_elsewhere ws db db' \<longleftrightarrow> (\<forall>ws'. ws' \<noteq> ws \<longrightarrow>
     get_head ws' db' = get_head ws' db \<and> workspace_format ws' db' = workspace_format ws' db
     \<and> migration_token ws' db' = migration_token ws' db
     \<and> (\<forall>sid. map_of (db_manifests db') (ws', sid) = map_of (db_manifests db) (ws', sid)))"

lemma same_elsewhere_refl [simp]: "same_elsewhere ws db db"
  by (simp add: same_elsewhere_def)

lemma agree_update:
  assumes "hub_wf s" and "\<And>ws. workspace_agrees (app_db st) ws (lh_meta ws s)"
    and "\<And>h. blob_exists st h = lh_blob_exists h hub"
    and "app_blobs st' = app_blobs st" and "lh_blobs hub' = lh_blobs hub"
    and "lh_disk hub' = Some (hc_write C (lh_update ws f s))"
    and "meta_wf (f (lh_meta ws s))"
    and "workspace_agrees (app_db st') ws (f (lh_meta ws s))"
    and "same_elsewhere ws (app_db st) (app_db st')"
  shows "hubs_agree C st' hub'"
proof -
  have "workspace_agrees (app_db st') ws' (lh_meta ws' (lh_update ws f s))" for ws'
    using assms(2) [of ws'] assms(8,9)
    by (cases "ws' = ws") (simp_all add: lh_meta_update [OF assms(1)] workspace_agrees_def same_elsewhere_def)
  moreover have "hub_wf (lh_update ws f s)" using assms(1,7) by (rule lh_update_wf)
  moreover have "blob_exists st' h = lh_blob_exists h hub'" for h
    using assms(3) [of h] by (simp add: blob_exists_def lh_blob_exists_def assms(4,5))
  ultimately show ?thesis using assms(6) unfolding hubs_agree_def by blast
qed

subsection \<open>Requests\<close>

text \<open>Two answers agree when they are the same and leave hubs that agree.\<close>

definition answers_agree ::
  "'t hub_codec \<Rightarrow> (status \<times> string option) \<times> app_state \<Rightarrow> (status \<times> string option) \<times> 't local_hub \<Rightarrow> bool" where
  "answers_agree C a b \<longleftrightarrow> fst a = fst b \<and> hubs_agree C (snd a) (snd b)"

lemma swap_agrees:
  assumes ok: "hub_codec_ok C" and agree: "hubs_agree C st hub"
  shows "answers_agree C (handle_swap_head (publish_headers token) ws expected new st)
    (route_swap_head C (\<lambda>_. granted) ws expected new token hub)"
proof -
  obtain s where s: "lh_disk hub = Some (hc_write C s)" "hub_wf s"
    and ws: "\<And>ws. workspace_agrees (app_db st) ws (lh_meta ws s)"
    and blobs: "\<And>h. blob_exists st h = lh_blob_exists h hub"
    using agree unfolding hubs_agree_def by blast
  let ?m = "lh_meta ws s" and ?db = "app_db st"
  note guard = guards_agree [OF ok s(2,1) ws, where token = token and ws = ws]
  show ?thesis
  proof (cases "publication_access ?db ws (publish_headers token)")
    case (Inl e)
    then show ?thesis using agree guard
      by (simp add: answers_agree_def handle_swap_head_def route_swap_head_def)
  next
    case (Inr u)
    have valid: ?thesis if "\<not> is_valid_hash new \<or> is_some_and expected (\<lambda>id. \<not> is_valid_hash id)"
      using that agree guard Inr
      by (auto simp: answers_agree_def handle_swap_head_def route_swap_head_def ensure_def)
    have missing: ?thesis if "is_valid_hash new" "\<not> is_some_and expected (\<lambda>id. \<not> is_valid_hash id)"
      "\<not> canonical_manifest new ?m"
      using that agree guard Inr manifest_exists_agrees [OF ws, of ws new]
      by (simp add: answers_agree_def handle_swap_head_def route_swap_head_def swap_head_def s(1)
          hub_read_granted [OF ok s(2)] lh_reads status_err_def map_err_def)
    have swap: ?thesis if v: "is_valid_hash new" "\<not> is_some_and expected (\<lambda>id. \<not> is_valid_hash id)"
      and m: "canonical_manifest new ?m"
    proof -
      let ?f = "\<lambda>m. if expected = wm_head ?m then m\<lparr>wm_head := Some new\<rparr> else m"
      let ?hub = "hub\<lparr>lh_disk := Some (hc_write C (lh_update ws ?f s))\<rparr>"
      have local: "route_swap_head C (\<lambda>_. granted) ws expected new token hub =
          (if wm_head ?m = expected then ((Ok200, Some new), ?hub\<lparr>lh_notified := ws # lh_notified ?hub\<rparr>)
           else ((Conflict409, wm_head ?m), ?hub))"
        using v m guard Inr
        by (simp add: route_swap_head_def s(1) hub_read_granted [OF ok s(2)] lh_run_granted [OF ok s(2,1)] lh_reads
            status_err_def map_err_def lh_swap_head_def Let_def)
      have server: "handle_swap_head (publish_headers token) ws expected new st =
          (if wm_head ?m = expected
           then ((Ok200, Some new), st\<lparr>app_db := ?db\<lparr>db_heads := AList.update ws new (db_heads ?db)\<rparr>,
              app_waiters := notify ws (app_waiters st)\<rparr>)
           else ((Conflict409, wm_head ?m), st))"
        using v m Inr manifest_exists_agrees [OF ws, of ws new] ws [of ws]
        by (auto simp: handle_swap_head_def swap_head_def workspace_agrees_def)
      have wf: "meta_wf (?f ?m)" using meta_wf_lookup [OF s(2), of ws] by (simp add: meta_wf_def)
      show ?thesis
        unfolding local server answers_agree_def
        using ws [of ws] wf
        by (auto simp: workspace_agrees_def same_elsewhere_def get_head_def workspace_format_def migration_token_def update_conv'
            intro!: agree_update [OF s(2) ws blobs, where ws = ws and f = ?f])
    qed
    from valid missing swap show ?thesis by blast
  qed
qed

lemma upload_agrees:
  assumes ok: "hub_codec_ok C" and agree: "hubs_agree C st hub"
  shows "answers_agree C (server_publish P \<lparr>pq_workspace = ws, pq_token = token, pq_action = PutObject path hash body, pq_now = now\<rparr> st)
    (local_publish P C \<lparr>pq_workspace = ws, pq_token = token, pq_action = PutObject path hash body, pq_now = now\<rparr> hub)"
proof -
  obtain s where s: "lh_disk hub = Some (hc_write C s)" "hub_wf s"
    and ws: "\<And>ws. workspace_agrees (app_db st) ws (lh_meta ws s)"
    and blobs: "\<And>h. blob_exists st h = lh_blob_exists h hub"
    using agree unfolding hubs_agree_def by blast
  note guard = guards_agree [OF ok s(2,1) ws, where token = token and ws = ws]
  have written: "hubs_agree C (write_blob BlobWritten now hash body st)
      (if lh_blob_exists hash hub then hub else lh_store_blob BlobWritten hash body hub)"
    unfolding hubs_agree_def
    using s ws blobs by (auto simp: write_blob_def lh_store_blob_def blob_exists_def lh_blob_exists_def update_conv' intro!: exI [of _ s])
  show ?thesis
    using agree guard written
    by (cases "publication_access (app_db st) ws (publish_headers token)")
      (auto simp: answers_agree_def server_publish_def local_publish_def handle_upload_def upload_admit_def route_upload_def
        local_upload_admit_def get_param_def flag_param_def healthy_io_def ok_or_def ensure_def upload_file_def)
qed

lemma set_format_agrees:
  assumes ok: "hub_codec_ok C" and agree: "hubs_agree C st hub" and v: "parse_u32 version = Some v"
  shows "answers_agree C (server_publish P \<lparr>pq_workspace = ws, pq_token = token, pq_action = PutFormat version, pq_now = now\<rparr> st)
    (local_publish P C \<lparr>pq_workspace = ws, pq_token = token, pq_action = PutFormat version, pq_now = now\<rparr> hub)"
proof -
  obtain s where s: "lh_disk hub = Some (hc_write C s)" "hub_wf s"
    and ws: "\<And>ws. workspace_agrees (app_db st) ws (lh_meta ws s)"
    and blobs: "\<And>h. blob_exists st h = lh_blob_exists h hub"
    using agree unfolding hubs_agree_def by blast
  let ?m = "lh_meta ws s" and ?db = "app_db st"
  note guard = guards_agree [OF ok s(2,1) ws, where token = token and ws = ws]
  have wf: "meta_wf ?m" by (rule meta_wf_lookup [OF s(2)])
  show ?thesis
  proof (cases "publication_access ?db ws (publish_headers token) = Inr () \<and> v = 3")
    case False
    then show ?thesis using agree guard v
      by (cases "publication_access ?db ws (publish_headers token)")
        (auto simp: answers_agree_def server_publish_def local_publish_def handle_set_format_def route_set_format_def
          get_param_def parse_param_def ok_or_def ensure_def is_supported_format_version_def supported_format_version_def)
  next
    case True
    have manifested: "head_manifested ws ?db = is_some_and (wm_head ?m) (\<lambda>head. canonical_manifest head ?m)"
      using ws [of ws] manifest_exists_agrees [OF ws]
      by (auto simp: head_manifested_def workspace_agrees_def is_some_and_def split: option.split)
    have local: "local_publish P C \<lparr>pq_workspace = ws, pq_token = token, pq_action = PutFormat version, pq_now = now\<rparr> hub =
        ((if head_manifested ws ?db then Ok200 else Internal500, None),
         hub\<lparr>lh_disk := Some (hc_write C (snd (lh_set_format ws 3 s)))\<rparr>)"
      using True guard v manifested
      by (simp add: local_publish_def route_set_format_def get_param_def parse_param_def ok_or_def ensure_def
          is_supported_format_version_def supported_format_version_def lh_run_granted [OF ok s(2,1)] lh_set_format_def Let_def)
    let ?f = "\<lambda>m. if head_manifested ws ?db then m\<lparr>wm_format_version := 3, wm_files := [], wm_migration_fence := None,
      wm_fence_locked_at := 0\<rparr> else m"
    have upd: "snd (lh_set_format ws 3 s) = lh_update ws ?f s"
      by (simp add: lh_set_format_def manifested Let_def)
    have server: "server_publish P \<lparr>pq_workspace = ws, pq_token = token, pq_action = PutFormat version, pq_now = now\<rparr> st =
        ((if head_manifested ws ?db then Ok200 else Internal500, None),
         if head_manifested ws ?db then st\<lparr>app_db := ?db\<lparr>db_formats := AList.update ws 3 (db_formats ?db),
            db_files := filter (\<lambda>((w, _), _). w \<noteq> ws) (db_files ?db),
            db_fences := filter (\<lambda>(w, _). w \<noteq> ws) (db_fences ?db)\<rparr>\<rparr> else st)"
      using True v
      by (simp add: server_publish_def handle_set_format_def is_supported_format_version_def supported_format_version_def
          set_workspace_format_def ensure_def Let_def)
    have "hubs_agree C (if head_manifested ws ?db then st\<lparr>app_db := ?db\<lparr>db_formats := AList.update ws 3 (db_formats ?db),
            db_files := filter (\<lambda>((w, _), _). w \<noteq> ws) (db_files ?db),
            db_fences := filter (\<lambda>(w, _). w \<noteq> ws) (db_fences ?db)\<rparr>\<rparr> else st)
        (hub\<lparr>lh_disk := Some (hc_write C (lh_update ws ?f s))\<rparr>)"
      using ws [of ws] wf
      by (auto simp: workspace_agrees_def same_elsewhere_def get_head_def workspace_format_def migration_token_def update_conv'
          meta_wf_def map_of_filter_key intro!: agree_update [OF s(2) ws blobs, where ws = ws and f = ?f])
    then show ?thesis unfolding answers_agree_def local server upd by simp
  qed
qed

lemma fence_agrees:
  assumes ok: "hub_codec_ok C" and agree: "hubs_agree C st hub"
  shows "answers_agree C (server_publish P \<lparr>pq_workspace = ws, pq_token = token, pq_action = PutFence, pq_now = now\<rparr> st)
    (local_publish P C \<lparr>pq_workspace = ws, pq_token = token, pq_action = PutFence, pq_now = now\<rparr> hub)"
proof -
  obtain s where s: "lh_disk hub = Some (hc_write C s)" "hub_wf s"
    and ws: "\<And>ws. workspace_agrees (app_db st) ws (lh_meta ws s)"
    and blobs: "\<And>h. blob_exists st h = lh_blob_exists h hub"
    using agree unfolding hubs_agree_def by blast
  let ?m = "lh_meta ws s" and ?db = "app_db st"
  have wf: "meta_wf ?m" by (rule meta_wf_lookup [OF s(2)])
  have fields: "workspace_format ws ?db = wm_format_version ?m" "migration_token ws ?db = wm_migration_fence ?m"
    using ws [of ws] by (simp_all add: workspace_agrees_def)
  have reads: "status_err (hub_with_read C granted (lh_get_format ws) (lh_disk hub)) = Inr (wm_format_version ?m)"
    by (simp add: s(1) hub_read_granted [OF ok s(2)] lh_reads status_err_def map_err_def)
  note defs = answers_agree_def server_publish_def local_publish_def handle_begin_migration_def publish_client_format
    route_begin_migration_def get_param_def ok_or_def reads
  consider (bad) "\<forall>t. token = Some t \<longrightarrow> \<not> is_valid_hash t"
    | (new) t where "token = Some t" "is_valid_hash t" "wm_format_version ?m < 3" "wm_migration_fence ?m = None"
    | (old) t where "token = Some t" "is_valid_hash t" "wm_format_version ?m \<ge> 3 \<or> wm_migration_fence ?m \<noteq> None"
    by (metis not_le)
  then show ?thesis
  proof cases
    case bad
    then show ?thesis using agree by (cases token) (simp_all add: defs)
  next
    case (new t)
    let ?f = "\<lambda>m. m\<lparr>wm_migration_fence := Some t, wm_fence_locked_at := now\<rparr>"
    have "hubs_agree C (st\<lparr>app_db := ?db\<lparr>db_fences := db_fences ?db @ [(ws, t)]\<rparr>\<rparr>)
        (hub\<lparr>lh_disk := Some (hc_write C (lh_update ws ?f s))\<rparr>)"
      using ws [of ws] wf new
      by (auto simp: workspace_agrees_def same_elsewhere_def get_head_def workspace_format_def migration_token_def
          meta_wf_def map_add_def intro!: agree_update [OF s(2) ws blobs, where ws = ws and f = ?f] split: option.split)
    then show ?thesis using new fields
      by (simp add: defs begin_migration_def lh_run_granted [OF ok s(2,1)] lh_begin_migration_def Let_def)
  next
    case (old t)
    have same: "hubs_agree C st (hub\<lparr>lh_disk := Some (hc_write C (lh_update ws (\<lambda>m. m) s))\<rparr>)"
      using ws [of ws] wf by (auto intro!: agree_update [OF s(2) ws blobs, where ws = ws and f = "\<lambda>m. m"])
    show ?thesis
    proof (cases "wm_format_version ?m \<ge> 3")
      case True
      then show ?thesis using old(1,2) agree fields by (simp add: defs begin_migration_def)
    next
      case False
      then show ?thesis using old same fields
        by (auto simp: defs begin_migration_def lh_run_granted [OF ok s(2,1)] lh_begin_migration_def Let_def)
    qed
  qed
qed

text \<open>A canonical manifest always fits the server's bound on its stored form.\<close>

lemma encoded_manifest_fits: "manifest_ok sid hs \<Longrightarrow> length (encode_manifest hs) \<le> max_manifest_bytes"
  using length_encode_manifest [of hs]
  by (cases hs) (auto simp: manifest_ok_def manifest_max_entries_def max_manifest_bytes_def)

lemma row_hashes_encoded:
  assumes "manifest_ok sid hs"
  shows "row_hashes sid \<lparr>mf_manifest = encode_manifest hs, mf_created_at_ms = t\<rparr> = Some hs"
  using utf8_encode_manifest [of hs] assms canonical_manifest_encode [OF assms]
  by (simp add: row_hashes_def manifest_ok_def)

lemma store_agrees:
  assumes ok: "hub_codec_ok C" and agree: "hubs_agree C st hub" and hs: "manifest_ok sid hs"
    and room: "fst (manifest_store now ws sid hs st) \<noteq> InsufficientStorage507"
  shows "\<exists>outcome hub'. lh_run C granted (lh_store_manifest now ws sid hs) hub = (Inr outcome, hub')
    \<and> hubs_agree C (snd (manifest_store now ws sid hs st)) hub'
    \<and> fst (manifest_store now ws sid hs st) = (case outcome of Stored \<Rightarrow> Ok200 | Unchanged \<Rightarrow> Ok200
        | ManifestConflict \<Rightarrow> BadRequest400 | Capacity \<Rightarrow> InsufficientStorage507)"
proof -
  obtain s where s: "lh_disk hub = Some (hc_write C s)" "hub_wf s"
    and ws: "\<And>ws. workspace_agrees (app_db st) ws (lh_meta ws s)"
    and blobs: "\<And>h. blob_exists st h = lh_blob_exists h hub"
    using agree unfolding hubs_agree_def by blast
  let ?m = "lh_meta ws s" and ?db = "app_db st"
  have wf: "meta_wf ?m" by (rule meta_wf_lookup [OF s(2)])
  have entry: "manifests_agree sid (map_of (db_manifests ?db) (ws, sid)) (map_of (wm_manifests ?m) sid)"
    using ws [of ws] by (simp add: workspace_agrees_def)
  have checks: "validate_manifest_hashes sid hs = Inr ()" "length (encode_manifest hs) \<le> max_manifest_bytes"
    using hs by (simp_all add: validate_manifest_hashes_iff encoded_manifest_fits)
  note defs = manifest_store_def store_canonical_manifest_def checks map_err_def
    lh_run_granted [OF ok s(2,1)] lh_store_manifest_def Let_def
  show ?thesis
  proof (cases "map_of (wm_manifests ?m) sid")
    case None
    let ?row = "\<lparr>mf_manifest = encode_manifest hs, mf_created_at_ms = now\<rparr>"
    let ?f = "\<lambda>m. m\<lparr>wm_manifests := btree_insert sid \<lparr>mv_hashes = hs, mv_created_at_ms = now\<rparr> (wm_manifests m)\<rparr>"
    have new: "map_of (db_manifests ?db) (ws, sid) = None"
      using entry None by (simp add: manifests_agree_def split: option.splits)
    have "manifests_agree sid' (map_of (db_manifests ?db @ [((ws, sid), ?row)]) (ws, sid'))
        (map_of (wm_manifests (?f ?m)) sid')" for sid'
    proof (cases "sid' = sid")
      case True
      then show ?thesis using new wf hs
        by (simp add: manifests_agree_def meta_wf_def btree_insert_lookup row_hashes_encoded map_add_def)
    next
      case False
      then have "map_of (db_manifests ?db @ [((ws, sid), ?row)]) (ws, sid') = map_of (db_manifests ?db) (ws, sid')"
        by (simp add: map_add_def split: option.split)
      then show ?thesis using ws [of ws] wf False
        by (simp add: workspace_agrees_def meta_wf_def btree_insert_lookup del: map_of_append)
    qed
    then have agree': "workspace_agrees (?db\<lparr>db_manifests := db_manifests ?db @ [((ws, sid), ?row)]\<rparr>) ws (?f ?m)"
      using ws [of ws]
      by (simp add: workspace_agrees_def get_head_def workspace_format_def migration_token_def)
    have "hubs_agree C (st\<lparr>app_db := ?db\<lparr>db_manifests := db_manifests ?db @ [((ws, sid), ?row)]\<rparr>\<rparr>)
        (hub\<lparr>lh_disk := Some (hc_write C (lh_update ws ?f s))\<rparr>)"
    proof (rule agree_update [OF s(2) ws blobs, where ws = ws and f = ?f])
      show "meta_wf (?f ?m)" using wf by (simp add: meta_wf_def btree_insert_sorted)
    qed (use agree' in \<open>simp_all add: same_elsewhere_def get_head_def workspace_format_def migration_token_def map_add_def split: option.split\<close>)
    then show ?thesis using room new None by (auto simp: defs split: if_splits)
  next
    case (Some e)
    then obtain r where r: "map_of (db_manifests ?db) (ws, sid) = Some r" "row_hashes sid r = Some (mv_hashes e)"
      using entry by (auto simp: manifests_agree_def split: option.splits)
    then have "utf8_ok (mf_manifest r)" "canonical_manifest_hashes sid (mf_manifest r) = Inr (mv_hashes e)"
      by (auto simp: row_hashes_def split: if_splits sum.splits)
    moreover have "hubs_agree C st (hub\<lparr>lh_disk := Some (hc_write C (lh_update ws (\<lambda>m. m) s))\<rparr>)"
      using ws [of ws] wf by (auto intro!: agree_update [OF s(2) ws blobs, where ws = ws and f = "\<lambda>m. m"])
    ultimately show ?thesis using Some r by (auto simp: defs)
  qed
qed

lemma manifest_agrees:
  assumes ok: "hub_codec_ok C" and agree: "hubs_agree C st hub"
    and room: "fst (handle_manifest now (publish_headers token) ws sid body st) \<noteq> InsufficientStorage507"
  shows "answers_agree C (server_publish P \<lparr>pq_workspace = ws, pq_token = token, pq_action = PutManifest sid body, pq_now = now\<rparr> st)
    (local_publish P C \<lparr>pq_workspace = ws, pq_token = token, pq_action = PutManifest sid body, pq_now = now\<rparr> hub)"
proof -
  obtain s where s: "lh_disk hub = Some (hc_write C s)" "hub_wf s"
    and ws: "\<And>ws. workspace_agrees (app_db st) ws (lh_meta ws s)"
    and blobs: "\<And>h. blob_exists st h = lh_blob_exists h hub"
    using agree unfolding hubs_agree_def by blast
  note guard = guards_agree [OF ok s(2,1) ws, where token = token and ws = ws]
  note defs = answers_agree_def server_publish_def local_publish_def handle_manifest_def route_manifest_def manifest_admit_def
    get_param_def ok_or_def guard max_manifest_bytes_def max_local_manifest_bytes_def
  have bl: "list_all (\<lambda>h. lh_blob_exists h hub) hs = list_all (blob_exists st) hs" for hs
    using blobs by (simp add: list_all_iff)
  show ?thesis
  proof (cases "manifest_admit (publish_headers token) ws sid body (app_db st)")
    case (Inl e)
    then show ?thesis using agree
      by (cases "publication_access (app_db st) ws (publish_headers token)")
        (auto simp: defs ensure_def map_err_def split: if_splits sum.splits)
  next
    case (Inr hs)
    then have access: "publication_access (app_db st) ws (publish_headers token) = Inr ()"
      and parts: "length body \<le> 64 * 1024 * 1024" "utf8_ok body" "canonical_manifest_hashes sid body = Inr hs"
      by (auto simp: manifest_admit_def rbind_eq_Inr map_err_def max_manifest_bytes_def split: sum.splits)
    show ?thesis
    proof (cases "list_all (blob_exists st) hs")
      case False
      then show ?thesis using access parts Inr agree bl by (simp add: defs map_err_def ensure_def)
    next
      case True
      then have "fst (manifest_store now ws sid hs st) \<noteq> InsufficientStorage507"
        using room Inr by (simp add: handle_manifest_def)
      from store_agrees [OF ok agree canonical_manifest_ok [OF parts(3)] this]
      show ?thesis using access parts Inr True bl
        by (auto simp: defs map_err_def ensure_def split_beta)
    qed
  qed
qed

subsection \<open>Sequences of requests\<close>

fun publish_all :: "('r \<Rightarrow> 's \<Rightarrow> 'a \<times> 's) \<Rightarrow> 'r list \<Rightarrow> 's \<Rightarrow> 'a list \<times> 's" where
  "publish_all serve [] st = ([], st)"
| "publish_all serve (r # rs) st =
     (let (a, st1) = serve r st; (as, st2) = publish_all serve rs st1 in (a # as, st2))"

definition request_wf :: "publish_request \<Rightarrow> bool" where
  "request_wf r = (case pq_action r of PutFormat version \<Rightarrow> parse_u32 version \<noteq> None | _ \<Rightarrow> True)"

lemma publish_agrees:
  assumes "hub_codec_ok C" and "hubs_agree C st hub" and "request_wf r"
    and "fst (fst (server_publish P r st)) \<noteq> InsufficientStorage507"
  shows "answers_agree C (server_publish P r st) (local_publish P C r hub)"
proof -
  obtain ws token action now where r: "r = \<lparr>pq_workspace = ws, pq_token = token, pq_action = action, pq_now = now\<rparr>"
    by (cases r)
  show ?thesis
  proof (cases action)
    case (PutObject path hash body)
    then show ?thesis unfolding r PutObject by (intro upload_agrees [OF assms(1,2)])
  next
    case (PutManifest sid body)
    then have "fst (handle_manifest now (publish_headers token) ws sid body st) \<noteq> InsufficientStorage507"
      using assms(4) by (simp add: r server_publish_def split_beta Let_def)
    then show ?thesis unfolding r PutManifest by (rule manifest_agrees [OF assms(1,2)])
  next
    case (PutHead expected new)
    then show ?thesis using swap_agrees [OF assms(1,2)] by (simp add: r server_publish_def local_publish_def)
  next
    case (PutFormat version)
    then obtain v where "parse_u32 version = Some v" using assms(3) by (auto simp: r request_wf_def)
    then show ?thesis unfolding r PutFormat by (rule set_format_agrees [OF assms(1,2)])
  next
    case PutFence
    then show ?thesis unfolding r PutFence by (intro fence_agrees [OF assms(1,2)])
  qed
qed

definition new_local_hub :: "'t hub_codec \<Rightarrow> 't local_hub" where
  "new_local_hub C = \<lparr>lh_disk = Some (hc_write C hub_state_default), lh_blobs = [], lh_notified = []\<rparr>"

lemma new_hubs_agree: "hubs_agree C init_app_state (new_local_hub C)"
  unfolding hubs_agree_def
  by (auto simp: new_local_hub_def init_app_state_def hub_db_new_def blob_exists_def lh_blob_exists_def
      workspace_agrees_def lh_meta_def hub_state_default_def workspace_meta_default_def get_head_def
      workspace_format_def migration_token_def manifests_agree_def hub_wf_def intro!: exI [of _ hub_state_default])

lemma publish_all_agree:
  assumes "hub_codec_ok C" and "hubs_agree C st hub" and "\<forall>r\<in>set rs. request_wf r"
    and "\<forall>a\<in>set (fst (publish_all (server_publish P) rs st)). fst a \<noteq> InsufficientStorage507"
  shows "fst (publish_all (local_publish P C) rs hub) = fst (publish_all (server_publish P) rs st)
    \<and> hubs_agree C (snd (publish_all (server_publish P) rs st)) (snd (publish_all (local_publish P C) rs hub))"
  using assms(2-4)
proof (induction rs arbitrary: st hub)
  case (Cons r rs)
  obtain a st1 where server: "server_publish P r st = (a, st1)" by (metis surj_pair)
  obtain b hub1 where local: "local_publish P C r hub = (b, hub1)" by (metis surj_pair)
  have "answers_agree C (server_publish P r st) (local_publish P C r hub)"
    using Cons.prems by (intro publish_agrees [OF assms(1)]) (auto simp: server split_beta)
  then have "b = a" "hubs_agree C st1 hub1" by (simp_all add: answers_agree_def server local)
  moreover from Cons.IH [OF this(2)] Cons.prems
  have "fst (publish_all (local_publish P C) rs hub1) = fst (publish_all (server_publish P) rs st1)
    \<and> hubs_agree C (snd (publish_all (server_publish P) rs st1)) (snd (publish_all (local_publish P C) rs hub1))"
    by (auto simp: server split_beta)
  ultimately show ?case by (simp add: server local split_beta)
qed simp

text \<open>
  C40. The in-process hub answers like the SQLite hub. From two empty hubs, every sequence of
  publication requests, object uploads, manifests, head swaps, format changes and migration fences, of any
  workspaces and migration tokens, gets the same answers from both, as long as the server does not
  answer that its storage is full, a bound the in-process hub does not have; and at the end they agree on
  the heads, manifests, formats and fences of all workspaces and on the blobs there are.
\<close>

theorem hubs_answer_alike:
  assumes "hub_codec_ok C" and "\<forall>r\<in>set rs. request_wf r"
    and "\<forall>a\<in>set (fst (publish_all (server_publish P) rs init_app_state)). fst a \<noteq> InsufficientStorage507"
  shows "fst (publish_all (local_publish P C) rs (new_local_hub C)) = fst (publish_all (server_publish P) rs init_app_state)
    \<and> hubs_agree C (snd (publish_all (server_publish P) rs init_app_state))
        (snd (publish_all (local_publish P C) rs (new_local_hub C)))"
  by (rule publish_all_agree [OF assms(1) new_hubs_agree assms(2,3)])

text \<open>An object is published, the workspace moves to format 3, a stale swap is refused.\<close>

definition plain_hub_codec :: "hub_state_v1 hub_codec" where
  "plain_hub_codec = \<lparr>hc_write = \<lambda>s. s, hc_read = Some\<rparr>"

definition sample_publication :: "publish_request list" where
  "sample_publication = map (\<lambda>a. \<lparr>pq_workspace = ''w'', pq_token = None, pq_action = a, pq_now = 5\<rparr>)
     [PutObject ''a'' published_id [], PutManifest published_id (encode_manifest [published_id]),
      PutHead None published_id, PutFormat ''3'', PutHead None published_id, PutFence]"

lemma sample_publication_answers:
  "fst (publish_all (server_publish sample_prims) sample_publication init_app_state) =
     [(Ok200, None), (Ok200, None), (Ok200, Some published_id), (Ok200, None),
      (Conflict409, Some published_id), (BadRequest400, None)]"
  by code_simp

theorem hubs_answer_alike_witness:
  "fst (publish_all (local_publish sample_prims plain_hub_codec) sample_publication (new_local_hub plain_hub_codec)) =
     [(Ok200, None), (Ok200, None), (Ok200, Some published_id), (Ok200, None),
      (Conflict409, Some published_id), (BadRequest400, None)]"
proof -
  have "hub_codec_ok plain_hub_codec" by (simp add: hub_codec_ok_def plain_hub_codec_def)
  moreover have "\<forall>r\<in>set sample_publication. request_wf r" by code_simp
  moreover have "\<forall>a\<in>set (fst (publish_all (server_publish sample_prims) sample_publication init_app_state)).
      fst a \<noteq> InsufficientStorage507"
    by (simp add: sample_publication_answers)
  ultimately show ?thesis using hubs_answer_alike [of plain_hub_codec sample_publication sample_prims]
    by (simp add: sample_publication_answers)
qed

section \<open>Edges\<close>

text \<open>
  The in-process hub reads the size of a legacy upload as a signed number and stores it unchecked. After
  an upload with a negative size every sync of the workspace fails with 500, and so does its export; the
  server refuses such a size.
\<close>

definition negative_upload :: "(string \<times> string) list" where
  "negative_upload = [(''workspace_id'', ''w''), (''path'', ''a''), (''hash'', published_id), (''size'', ''-1''),
     (''mtime'', ''0''), (''mode'', ''0'')]"

lemma negative_size_blocks_sync:
  "let (s, hub) = route_upload sample_prims plain_hub_codec healthy_io [] negative_upload None (new_local_hub plain_hub_codec)
   in s = Ok200 \<and> route_sync_peek sample_prims plain_hub_codec (\<lambda>_. granted) ''w'' [] hub = Inl Internal500
      \<and> \<not> is_ok (rbind (read_hub_state plain_hub_codec (lh_disk hub)) hub_export_for_migration)"
  by code_simp

end
