(* ===== verification/Work_Contract.thy ===== *)
theory Work_Contract
  imports Portable "HOL-Library.Sublist"
begin

text \<open>
  The work-intent contract of \<^verbatim>\<open>common/src/work_contract.rs\<close>: the bounds, the profiles that
  agents exchange inside message bodies and their validation, the pure overlap evaluation
  between two scopes, the coverage of changed paths by an accepted scope, the canonical text
  form of a profile, and the lifecycle check of a transition. \<^verbatim>\<open>serde_json\<close> is a parameter of
  the encoders and parsers (\<open>work_json\<close>).

  The lemmas show that the overlap evaluation finds exactly the overlaps of the scopes read as
  trees of path components, that encoding and parsing are inverse to each other byte for byte,
  and that a parsed profile obeys every bound.
\<close>

section \<open>Bounds\<close>

definition work_max_profile_bytes :: nat where "work_max_profile_bytes = 8192"
definition work_max_task_id_bytes :: nat where "work_max_task_id_bytes = 128"
definition work_max_concern_bytes :: nat where "work_max_concern_bytes = 256"
definition work_max_capability_bytes :: nat where "work_max_capability_bytes = 32"
definition work_max_reason_bytes :: nat where "work_max_reason_bytes = 512"
definition work_max_outcome_bytes :: nat where "work_max_outcome_bytes = 512"
definition work_max_verification_summary_bytes :: nat where
  "work_max_verification_summary_bytes = 512"
definition work_max_paths :: nat where "work_max_paths = 64"
definition work_max_path_bytes :: nat where "work_max_path_bytes = 1024"
definition work_max_paths_total_bytes :: nat where "work_max_paths_total_bytes = 4096"
definition work_max_concerns :: nat where "work_max_concerns = 32"
definition work_max_dependencies :: nat where "work_max_dependencies = 32"
definition work_max_capabilities :: nat where "work_max_capabilities = 64"
definition work_max_overlap_entries :: nat where "work_max_overlap_entries = 32"
definition work_max_scope_change_operations :: nat where "work_max_scope_change_operations = 4"
definition agent_name_max_bytes :: nat where "agent_name_max_bytes = 255"

definition work_profile_discriminator :: string where
  "work_profile_discriminator = ''ffwork1''"

definition scope_change_request_discriminator :: string where
  "scope_change_request_discriminator = ''ffwork1:scope_change_requested''"

section \<open>The string operations of the contract\<close>

definition strip_suffix :: "string \<Rightarrow> string \<Rightarrow> string option" where
  "strip_suffix s suf =
     (if length suf \<le> length s \<and> drop (length s - length suf) s = suf
      then Some (take (length s - length suf) s) else None)"

definition strip_prefix :: "string \<Rightarrow> string \<Rightarrow> string option" where
  "strip_prefix s pre = (if take (length pre) s = pre then Some (drop (length pre) s) else None)"

definition trim_end_matches :: "char \<Rightarrow> string \<Rightarrow> string" where
  "trim_end_matches c s = rev (dropWhile (\<lambda>x. x = c) (rev s))"

text \<open>The \<^verbatim>\<open>White_Space\<close> characters that \<^verbatim>\<open>str::trim\<close> removes at both ends.\<close>

definition is_whitespace :: "nat \<Rightarrow> bool" where
  "is_whitespace v =
     (9 \<le> v \<and> v \<le> 13 \<or> v = 32 \<or> v = 0x85 \<or> v = 0xA0 \<or> v = 0x1680 \<or> 0x2000 \<le> v \<and> v \<le> 0x200A
      \<or> v = 0x2028 \<or> v = 0x2029 \<or> v = 0x202F \<or> v = 0x205F \<or> v = 0x3000)"

function utf8_pieces :: "bytes \<Rightarrow> (nat \<times> bytes) list" where
  "utf8_pieces s =
    (if s = [] then []
     else case utf8_next s of
            None \<Rightarrow> map (\<lambda>c. (of_char c, [c])) s
          | Some (v, r) \<Rightarrow> (v, take (length s - length r) s) # utf8_pieces r)"
  by pat_completeness auto
termination
  by (relation "measure length") (auto dest: utf8_next_shorter)

declare utf8_pieces.simps [simp del]

definition str_trim :: "string \<Rightarrow> string" where
  "str_trim s =
     concat (map snd (rev (dropWhile (\<lambda>p. is_whitespace (fst p))
       (rev (dropWhile (\<lambda>p. is_whitespace (fst p)) (utf8_pieces s))))))"

section \<open>Identifiers and scope entries\<close>

definition is_ascii_lowercase :: "char \<Rightarrow> bool" where
  "is_ascii_lowercase c = between 97 122 c"

definition is_ascii_digit :: "char \<Rightarrow> bool" where
  "is_ascii_digit c = between 48 57 c"

definition is_valid_task_id :: "string \<Rightarrow> bool" where
  "is_valid_task_id value =
     (value \<noteq> [] \<and> length value \<le> work_max_task_id_bytes
      \<and> list_all (\<lambda>b. is_ascii_lowercase b \<or> is_ascii_digit b \<or> b = CHR ''-'' \<or> b = CHR ''_'') value)"

definition is_valid_capability :: "string \<Rightarrow> bool" where
  "is_valid_capability value =
     (value \<noteq> [] \<and> length value \<le> work_max_capability_bytes
      \<and> list_all (\<lambda>b. is_ascii_lowercase b \<or> is_ascii_digit b \<or> b = CHR ''-'') value)"

definition is_valid_agent_name :: "string \<Rightarrow> bool" where
  "is_valid_agent_name name =
     (name \<noteq> [] \<and> length name \<le> agent_name_max_bytes
      \<and> \<not> (\<exists>v\<in>set (chars name). is_control v)
      \<and> CHR ''/'' \<notin> set name \<and> CHR 0x5C \<notin> set name
      \<and> name \<noteq> ''.'' \<and> name \<noteq> ''..'' \<and> name \<noteq> ''*'')"

definition is_directory_glob :: "prims \<Rightarrow> string \<Rightarrow> bool" where
  "is_directory_glob P entry =
     (case strip_suffix entry ''/**'' of
        None \<Rightarrow> False
      | Some root \<Rightarrow> root \<noteq> [] \<and> is_safe_rel_path P root)"

definition is_valid_scope_entry :: "prims \<Rightarrow> string \<Rightarrow> bool" where
  "is_valid_scope_entry P entry = (is_safe_rel_path P entry \<or> is_directory_glob P entry)"

text \<open>The reasons a validation fails, with the label of the offending collection or field.\<close>

datatype work_error =
    TooManyEntries string
  | NotSortedUnique string
  | TextBounds string
  | ControlCharacters string
  | BadPath string
  | PathTooLong string
  | PathsTooLarge string
  | PaddedConcern
  | BadDependency string
  | BadCapability string
  | BadTaskId
  | BadAgentName
  | BadSequence
  | BadReference string
  | BadCoordinator
  | BadOverlapEntry
  | OperationsUnsorted
  | SerializeFailed
  | ProfileTooLarge

definition work_ensure_sorted_unique :: "string list \<Rightarrow> string \<Rightarrow> nat \<Rightarrow> work_error + unit" where
  "work_ensure_sorted_unique xs label maximum =
     rbind (ensure (length xs \<le> maximum) (TooManyEntries label)) (\<lambda>_.
     for_each (\<lambda>(a, b). ensure (a < b) (NotSortedUnique label)) (zip xs (tl xs)))"

definition ensure_bounded_text :: "string \<Rightarrow> string \<Rightarrow> nat \<Rightarrow> bool \<Rightarrow> work_error + unit" where
  "ensure_bounded_text value label maximum allow_control =
     rbind (ensure (value \<noteq> [] \<and> length value \<le> maximum) (TextBounds label)) (\<lambda>_.
     if \<not> allow_control
     then ensure (\<not> (\<exists>v\<in>set (chars value). is_control v)) (ControlCharacters label)
     else Inr ())"

definition validate_work_scope ::
    "prims \<Rightarrow> string list \<Rightarrow> string list \<Rightarrow> string list \<Rightarrow> string list \<Rightarrow> work_error + unit" where
  "validate_work_scope P paths concerns dependencies capabilities =
     rbind (work_ensure_sorted_unique paths ''paths'' work_max_paths) (\<lambda>_.
     rbind (fold_result (\<lambda>path total_path_bytes.
              rbind (ensure (is_valid_scope_entry P path) (BadPath path)) (\<lambda>_.
              rbind (ensure (length path \<le> work_max_path_bytes) (PathTooLong path)) (\<lambda>_.
              Inr (saturating_add total_path_bytes (length path)))))
            paths 0) (\<lambda>total_path_bytes.
     rbind (ensure (total_path_bytes \<le> work_max_paths_total_bytes) (PathsTooLarge ''paths'')) (\<lambda>_.
     rbind (work_ensure_sorted_unique concerns ''concerns'' work_max_concerns) (\<lambda>_.
     rbind (for_each (\<lambda>concern.
              rbind (ensure (str_trim concern = concern) PaddedConcern) (\<lambda>_.
              ensure_bounded_text concern ''concern'' work_max_concern_bytes False))
            concerns) (\<lambda>_.
     rbind (work_ensure_sorted_unique dependencies ''dependencies'' work_max_dependencies) (\<lambda>_.
     rbind (for_each (\<lambda>dependency. ensure (is_valid_task_id dependency) (BadDependency dependency))
            dependencies) (\<lambda>_.
     rbind (work_ensure_sorted_unique capabilities ''capabilities'' work_max_capabilities) (\<lambda>_.
     for_each (\<lambda>capability. ensure (is_valid_capability capability) (BadCapability capability))
       capabilities))))))))"

section \<open>Scopes and their overlap\<close>

datatype work_task_state =
  Proposed | Accepted | Settled | Completed | Blocked | Yielded | Rejected

datatype work_verification_status = Passed | Failed | Skipped

record work_verification =
  wv_status :: work_verification_status
  wv_summary :: string

datatype work_overlap_kind = ExactPath | DirectoryContainment | GlobMatch | SameConcern

record work_overlap =
  wo_kind :: work_overlap_kind
  wo_path_a :: "string option"
  wo_path_b :: "string option"
  wo_concern :: "string option"

record work_scope =
  ws_paths :: "string list"
  ws_concerns :: "string list"
  ws_dependencies :: "string list"

definition is_path_under :: "string \<Rightarrow> string \<Rightarrow> bool" where
  "is_path_under child dir =
     (let dir = trim_end_matches (CHR ''/'') dir in
      child = dir
      \<or> is_some_and (strip_prefix child dir) (\<lambda>rest. rest \<noteq> [] \<and> hd rest = CHR ''/''))"

definition path_overlap_kind :: "string \<Rightarrow> string \<Rightarrow> work_overlap_kind option" where
  "path_overlap_kind a b =
     (case (strip_suffix a ''/**'', strip_suffix b ''/**'') of
        (None, None) \<Rightarrow>
          if a = b then Some ExactPath
          else if is_path_under b a \<or> is_path_under a b then Some DirectoryContainment
          else None
      | (Some root_a, Some root_b) \<Rightarrow>
          if root_a = root_b \<or> is_path_under root_b root_a \<or> is_path_under root_a root_b
          then Some GlobMatch else None
      | (Some root_a, None) \<Rightarrow>
          if b = root_a \<or> is_path_under b root_a then Some GlobMatch else None
      | (None, Some root_b) \<Rightarrow>
          if a = root_b \<or> is_path_under a root_b then Some GlobMatch else None)"

definition push_new :: "'a \<Rightarrow> 'a list \<Rightarrow> 'a list" where
  "push_new entry out = (if entry \<in> set out then out else out @ [entry])"

definition evaluate_scope_overlap ::
    "string list \<Rightarrow> string list \<Rightarrow> string list \<Rightarrow> string list \<Rightarrow> work_overlap list" where
  "evaluate_scope_overlap paths_a concerns_a paths_b concerns_b =
     (let out = fold (\<lambda>pa. fold (\<lambda>pb out.
            case path_overlap_kind pa pb of
              Some kind \<Rightarrow>
                push_new \<lparr>wo_kind = kind, wo_path_a = Some pa, wo_path_b = Some pb, wo_concern = None\<rparr> out
            | None \<Rightarrow> out) paths_b) paths_a []
      in fold (\<lambda>ca out.
            if ca \<in> set concerns_b then
              push_new \<lparr>wo_kind = SameConcern, wo_path_a = None, wo_path_b = None,
                wo_concern = Some ca\<rparr> out
            else out) concerns_a out)"

definition scope_entry_covers_path :: "string \<Rightarrow> string \<Rightarrow> bool" where
  "scope_entry_covers_path entry path =
     (case strip_suffix entry ''/**'' of
        Some root \<Rightarrow> is_path_under path root
      | None \<Rightarrow> entry = path)"

definition scope_covers_path :: "work_scope \<Rightarrow> string \<Rightarrow> bool" where
  "scope_covers_path scope path = list_ex (\<lambda>entry. scope_entry_covers_path entry path) (ws_paths scope)"

record scope_path_partition =
  in_scope :: "string list"
  out_of_scope :: "string list"

definition partition_scope_paths :: "string list \<Rightarrow> work_scope \<Rightarrow> scope_path_partition" where
  "partition_scope_paths paths scope =
     fold (\<lambda>path part.
        if scope_covers_path scope path
        then part\<lparr>in_scope := in_scope part @ [path]\<rparr>
        else part\<lparr>out_of_scope := out_of_scope part @ [path]\<rparr>)
       paths \<lparr>in_scope = [], out_of_scope = []\<rparr>"

section \<open>Requests to change a scope\<close>

datatype scope_change_operation = OpAdd | OpModify | OpDelete | OpModeChange

text \<open>The derived \<^verbatim>\<open>Ord\<close> of the enumeration is the order of its variants.\<close>

primrec scope_change_operation_rank :: "scope_change_operation \<Rightarrow> nat" where
  "scope_change_operation_rank OpAdd = 0"
| "scope_change_operation_rank OpModify = 1"
| "scope_change_operation_rank OpDelete = 2"
| "scope_change_operation_rank OpModeChange = 3"

record scope_change_request =
  scr_task_id :: string
  scr_intent_message_id :: string
  scr_operations :: "scope_change_operation list"
  scr_paths :: "string list"
  scr_concerns :: "string list"
  scr_reason :: string

definition validate_scope_change_request ::
    "prims \<Rightarrow> scope_change_request \<Rightarrow> work_error + unit" where
  "validate_scope_change_request P profile =
     rbind (ensure (is_valid_task_id (scr_task_id profile)) BadTaskId) (\<lambda>_.
     rbind (ensure (is_valid_hash (scr_intent_message_id profile)) (BadReference ''intent''))
       (\<lambda>_.
     rbind (ensure (length (scr_operations profile) \<le> work_max_scope_change_operations)
       (TooManyEntries ''operations'')) (\<lambda>_.
     rbind (for_each (\<lambda>(a, b). ensure (scope_change_operation_rank a < scope_change_operation_rank b)
              OperationsUnsorted)
            (zip (scr_operations profile) (tl (scr_operations profile)))) (\<lambda>_.
     rbind (ensure (length (scr_paths profile) \<le> work_max_paths) (TooManyEntries ''paths'')) (\<lambda>_.
     rbind (fold_result (\<lambda>path total_bytes.
              rbind (ensure (is_valid_scope_entry P path) (BadPath path)) (\<lambda>_.
              Inr (saturating_add total_bytes (length path))))
            (scr_paths profile) 0) (\<lambda>total_bytes.
     rbind (ensure (total_bytes \<le> work_max_paths_total_bytes) (PathsTooLarge ''paths'')) (\<lambda>_.
     rbind (ensure (length (scr_concerns profile) \<le> work_max_concerns) (TooManyEntries ''concerns''))
       (\<lambda>_.
     rbind (for_each (\<lambda>concern. ensure (length concern \<le> work_max_concern_bytes)
              (TextBounds ''concern''))
            (scr_concerns profile)) (\<lambda>_.
     ensure (length (scr_reason profile) \<le> work_max_reason_bytes) (TextBounds ''reason''))))))))))"

section \<open>Profiles\<close>

text \<open>\<^verbatim>\<open>WorkOverlapAcceptance\<close> has the fields of \<^verbatim>\<open>WorkOverlap\<close>, and \<^verbatim>\<open>from_overlap\<close> copies them.\<close>

record work_overlap_acceptance =
  woa_kind :: work_overlap_kind
  woa_path_a :: "string option"
  woa_path_b :: "string option"
  woa_concern :: "string option"

definition from_overlap :: "work_overlap \<Rightarrow> work_overlap_acceptance" where
  "from_overlap overlap =
     \<lparr>woa_kind = wo_kind overlap, woa_path_a = wo_path_a overlap, woa_path_b = wo_path_b overlap,
      woa_concern = wo_concern overlap\<rparr>"

text \<open>
  The payload structs of the decision variants are the arguments of the constructors, in the
  order of their fields.
\<close>

datatype work_decision_kind =
    Accept "string option"
  | Reject string
  | Narrow "string list" "string list" "string option"
  | Order "string option" "string option"
  | AcceptOverlap "work_overlap_acceptance list" "string option"

record work_intent_profile =
  wi_task_id :: string
  wi_agent :: string
  wi_sequence :: u64
  wi_causal_base :: "string option"
  wi_coordinator :: "string option"
  wi_paths :: "string list"
  wi_concerns :: "string list"
  wi_dependencies :: "string list"
  wi_capabilities :: "string list"

record work_decision_profile =
  wd_proposal_message_id :: string
  wd_kind :: work_decision_kind

record work_amendment_profile =
  wa_task_id :: string
  wa_intent_message_id :: string
  wa_sequence :: u64
  wa_paths :: "string list option"
  wa_concerns :: "string list option"
  wa_dependencies :: "string list option"
  wa_approval_decision_id :: "string option"
  wa_reason :: "string option"

record work_yield_profile =
  wy_task_id :: string
  wy_intent_message_id :: string
  wy_sequence :: u64
  wy_reason :: "string option"

record work_settled_profile =
  wt_task_id :: string
  wt_intent_message_id :: string
  wt_sequence :: u64
  wt_inspected_snapshot :: string
  wt_verification :: work_verification

record work_completed_profile =
  wc_task_id :: string
  wc_intent_message_id :: string
  wc_sequence :: u64
  wc_outcome :: string

record work_blocked_profile =
  wb_task_id :: string
  wb_intent_message_id :: string
  wb_sequence :: u64
  wb_reason :: string

record work_superseded_profile =
  wu_task_id :: string
  wu_proposal_message_id :: string
  wu_superseded_decision_message_id :: string
  wu_reason :: "string option"

datatype work_profile =
    WorkIntent work_intent_profile
  | WorkDecision work_decision_profile
  | WorkAmendment work_amendment_profile
  | WorkYield work_yield_profile
  | WorkSettled work_settled_profile
  | WorkCompleted work_completed_profile
  | WorkBlocked work_blocked_profile
  | WorkSuperseded work_superseded_profile

primrec profile_task_id :: "work_profile \<Rightarrow> string" where
  "profile_task_id (WorkIntent p) = wi_task_id p"
| "profile_task_id (WorkDecision p) = []"
| "profile_task_id (WorkAmendment p) = wa_task_id p"
| "profile_task_id (WorkYield p) = wy_task_id p"
| "profile_task_id (WorkSettled p) = wt_task_id p"
| "profile_task_id (WorkCompleted p) = wc_task_id p"
| "profile_task_id (WorkBlocked p) = wb_task_id p"
| "profile_task_id (WorkSuperseded p) = wu_task_id p"

primrec profile_sequence :: "work_profile \<Rightarrow> u64 option" where
  "profile_sequence (WorkIntent p) = Some (wi_sequence p)"
| "profile_sequence (WorkDecision p) = None"
| "profile_sequence (WorkAmendment p) = Some (wa_sequence p)"
| "profile_sequence (WorkYield p) = Some (wy_sequence p)"
| "profile_sequence (WorkSettled p) = Some (wt_sequence p)"
| "profile_sequence (WorkCompleted p) = Some (wc_sequence p)"
| "profile_sequence (WorkBlocked p) = Some (wb_sequence p)"
| "profile_sequence (WorkSuperseded p) = None"

section \<open>Validation of profiles\<close>

definition validate_reason :: "string option \<Rightarrow> string \<Rightarrow> work_error + unit" where
  "validate_reason value label =
     (case value of
        Some reason \<Rightarrow>
          rbind (ensure (str_trim reason \<noteq> [] \<and> length reason \<le> work_max_reason_bytes)
            (TextBounds label)) (\<lambda>_.
          ensure (\<not> (\<exists>v\<in>set (chars reason). is_control v)) (ControlCharacters label))
      | None \<Rightarrow> Inr ())"

definition ensure_hash_option :: "string option \<Rightarrow> string \<Rightarrow> work_error + unit" where
  "ensure_hash_option value label =
     (case value of Some h \<Rightarrow> ensure (is_valid_hash h) (BadReference label) | None \<Rightarrow> Inr ())"

definition validate_work_intent :: "prims \<Rightarrow> work_intent_profile \<Rightarrow> work_error + unit" where
  "validate_work_intent P profile =
     rbind (ensure (is_valid_task_id (wi_task_id profile)) BadTaskId) (\<lambda>_.
     rbind (ensure (is_valid_agent_name (wi_agent profile)) BadAgentName) (\<lambda>_.
     rbind (ensure (1 \<le> wi_sequence profile) BadSequence) (\<lambda>_.
     rbind (ensure_hash_option (wi_causal_base profile) ''causal_base'') (\<lambda>_.
     rbind (case wi_coordinator profile of
              Some coordinator \<Rightarrow>
                ensure (is_valid_agent_name coordinator \<and> coordinator \<noteq> ''*'') BadCoordinator
            | None \<Rightarrow> Inr ()) (\<lambda>_.
     validate_work_scope P (wi_paths profile) (wi_concerns profile) (wi_dependencies profile)
       (wi_capabilities profile))))))"

definition validate_overlap_entries ::
    "prims \<Rightarrow> work_overlap_acceptance list \<Rightarrow> work_error + unit" where
  "validate_overlap_entries P entries =
     rbind (ensure (length entries \<le> work_max_overlap_entries) (TooManyEntries ''overlap'')) (\<lambda>_.
     for_each (\<lambda>entry.
        if woa_kind entry = SameConcern then
          rbind (ensure (woa_path_a entry = None \<and> woa_path_b entry = None) BadOverlapEntry) (\<lambda>_.
          ensure (is_some_and (woa_concern entry)
            (\<lambda>c. c \<noteq> [] \<and> length c \<le> work_max_concern_bytes)) BadOverlapEntry)
        else
          ensure (woa_concern entry = None
            \<and> is_some_and (woa_path_a entry) (is_valid_scope_entry P)
            \<and> is_some_and (woa_path_b entry) (is_valid_scope_entry P)) BadOverlapEntry) entries)"

definition validate_decision_kind :: "prims \<Rightarrow> work_decision_kind \<Rightarrow> work_error + unit" where
  "validate_decision_kind P kind =
     (case kind of
        Accept reason \<Rightarrow> validate_reason reason ''accept reason''
      | Reject reason \<Rightarrow> ensure_bounded_text reason ''reject reason'' work_max_reason_bytes False
      | Narrow paths concerns reason \<Rightarrow>
          rbind (validate_work_scope P paths concerns [] []) (\<lambda>_.
          validate_reason reason ''narrow reason'')
      | Order after reason \<Rightarrow>
          rbind (ensure_hash_option after ''after'') (\<lambda>_. validate_reason reason ''order reason'')
      | AcceptOverlap overlap reason \<Rightarrow>
          rbind (validate_overlap_entries P overlap) (\<lambda>_. validate_reason reason ''overlap reason''))"

definition validate_work_decision :: "prims \<Rightarrow> work_decision_profile \<Rightarrow> work_error + unit" where
  "validate_work_decision P profile =
     rbind (ensure (is_valid_hash (wd_proposal_message_id profile)) (BadReference ''proposal''))
       (\<lambda>_. validate_decision_kind P (wd_kind profile))"

definition validate_amendment_scope ::
    "prims \<Rightarrow> string list option \<Rightarrow> string \<Rightarrow> nat \<Rightarrow> work_error + unit" where
  "validate_amendment_scope P value label maximum =
     (case value of
        Some xs \<Rightarrow>
          rbind (work_ensure_sorted_unique xs label maximum) (\<lambda>_.
          rbind (for_each (\<lambda>entry.
                   rbind (ensure (is_valid_scope_entry P entry) (BadPath entry)) (\<lambda>_.
                   ensure (length entry \<le> work_max_path_bytes) (PathTooLong entry))) xs) (\<lambda>_.
          ensure (sum_list (map length xs) \<le> work_max_paths_total_bytes) (PathsTooLarge label)))
      | None \<Rightarrow> Inr ())"

definition validate_work_amendment :: "prims \<Rightarrow> work_amendment_profile \<Rightarrow> work_error + unit" where
  "validate_work_amendment P profile =
     rbind (ensure (is_valid_task_id (wa_task_id profile)) BadTaskId) (\<lambda>_.
     rbind (ensure (is_valid_hash (wa_intent_message_id profile)) (BadReference ''intent'')) (\<lambda>_.
     rbind (ensure (1 \<le> wa_sequence profile) BadSequence) (\<lambda>_.
     rbind (validate_amendment_scope P (wa_paths profile) ''paths'' work_max_paths) (\<lambda>_.
     rbind (case wa_concerns profile of
              Some concerns \<Rightarrow>
                rbind (work_ensure_sorted_unique concerns ''concerns'' work_max_concerns) (\<lambda>_.
                for_each (\<lambda>concern.
                  rbind (ensure (str_trim concern = concern) PaddedConcern) (\<lambda>_.
                  ensure_bounded_text concern ''concern'' work_max_concern_bytes False)) concerns)
            | None \<Rightarrow> Inr ()) (\<lambda>_.
     rbind (case wa_dependencies profile of
              Some dependencies \<Rightarrow>
                rbind (work_ensure_sorted_unique dependencies ''dependencies'' work_max_dependencies) (\<lambda>_.
                for_each (\<lambda>dependency.
                  ensure (is_valid_task_id dependency) (BadDependency dependency)) dependencies)
            | None \<Rightarrow> Inr ()) (\<lambda>_.
     rbind (ensure_hash_option (wa_approval_decision_id profile) ''approval'') (\<lambda>_.
     validate_reason (wa_reason profile) ''amendment reason'')))))))"

definition validate_author_target :: "string \<Rightarrow> string \<Rightarrow> u64 \<Rightarrow> work_error + unit" where
  "validate_author_target task_id intent_message_id seq =
     rbind (ensure (is_valid_task_id task_id) BadTaskId) (\<lambda>_.
     rbind (ensure (is_valid_hash intent_message_id) (BadReference ''intent'')) (\<lambda>_.
     ensure (1 \<le> seq) BadSequence))"

definition validate_work_yield :: "work_yield_profile \<Rightarrow> work_error + unit" where
  "validate_work_yield profile =
     rbind (validate_author_target (wy_task_id profile) (wy_intent_message_id profile)
       (wy_sequence profile)) (\<lambda>_. validate_reason (wy_reason profile) ''yield reason'')"

definition validate_verification :: "work_verification \<Rightarrow> work_error + unit" where
  "validate_verification verification =
     ensure_bounded_text (wv_summary verification) ''verification summary''
       work_max_verification_summary_bytes False"

definition validate_work_settled :: "work_settled_profile \<Rightarrow> work_error + unit" where
  "validate_work_settled profile =
     rbind (validate_author_target (wt_task_id profile) (wt_intent_message_id profile)
       (wt_sequence profile)) (\<lambda>_.
     rbind (ensure (is_valid_hash (wt_inspected_snapshot profile)) (BadReference ''snapshot'')) (\<lambda>_.
     validate_verification (wt_verification profile)))"

definition validate_work_completed :: "work_completed_profile \<Rightarrow> work_error + unit" where
  "validate_work_completed profile =
     rbind (validate_author_target (wc_task_id profile) (wc_intent_message_id profile)
       (wc_sequence profile)) (\<lambda>_.
     ensure_bounded_text (wc_outcome profile) ''completion outcome'' work_max_outcome_bytes False)"

definition validate_work_blocked :: "work_blocked_profile \<Rightarrow> work_error + unit" where
  "validate_work_blocked profile =
     rbind (validate_author_target (wb_task_id profile) (wb_intent_message_id profile)
       (wb_sequence profile)) (\<lambda>_.
     ensure_bounded_text (wb_reason profile) ''block reason'' work_max_reason_bytes False)"

definition validate_work_superseded :: "work_superseded_profile \<Rightarrow> work_error + unit" where
  "validate_work_superseded profile =
     rbind (ensure (is_valid_task_id (wu_task_id profile)) BadTaskId) (\<lambda>_.
     rbind (ensure (is_valid_hash (wu_proposal_message_id profile)) (BadReference ''proposal''))
       (\<lambda>_.
     rbind (ensure (is_valid_hash (wu_superseded_decision_message_id profile))
       (BadReference ''decision'')) (\<lambda>_.
     validate_reason (wu_reason profile) ''supersede reason'')))"

definition validate_work_profile :: "prims \<Rightarrow> work_profile \<Rightarrow> work_error + unit" where
  "validate_work_profile P profile =
     (case profile of
        WorkIntent p \<Rightarrow> validate_work_intent P p
      | WorkDecision p \<Rightarrow> validate_work_decision P p
      | WorkAmendment p \<Rightarrow> validate_work_amendment P p
      | WorkYield p \<Rightarrow> validate_work_yield p
      | WorkSettled p \<Rightarrow> validate_work_settled p
      | WorkCompleted p \<Rightarrow> validate_work_completed p
      | WorkBlocked p \<Rightarrow> validate_work_blocked p
      | WorkSuperseded p \<Rightarrow> validate_work_superseded p)"

section \<open>Encoding and parsing\<close>

text \<open>
  \<^verbatim>\<open>serde_json\<close> on the two wire types: \<open>profile_to_json\<close> is \<^verbatim>\<open>to_string\<close> (compact, fields in declaration
  order, or an error) and \<open>profile_from_json\<close> is \<^verbatim>\<open>from_str\<close> with the derived, field-checking
  deserializer.
\<close>

record work_json =
  profile_to_json :: "work_profile \<Rightarrow> string option"
  profile_from_json :: "string \<Rightarrow> work_profile option"
  scr_to_json :: "scope_change_request \<Rightarrow> string option"
  scr_from_json :: "string \<Rightarrow> scope_change_request option"

definition encode_work_profile ::
    "prims \<Rightarrow> work_json \<Rightarrow> work_profile \<Rightarrow> work_error + string" where
  "encode_work_profile P J profile =
     rbind (validate_work_profile P profile) (\<lambda>_.
     rbind (ok_or (profile_to_json J profile) SerializeFailed) (\<lambda>json.
     let encoded = work_profile_discriminator @ '':'' @ json in
     rbind (ensure (length encoded \<le> work_max_profile_bytes) ProfileTooLarge) (\<lambda>_.
     Inr encoded)))"

definition parse_work_profile :: "prims \<Rightarrow> work_json \<Rightarrow> string \<Rightarrow> work_profile option" where
  "parse_work_profile P J body =
     (if length body > work_max_profile_bytes then None
      else case strip_prefix body work_profile_discriminator of
        None \<Rightarrow> None
      | Some json \<Rightarrow>
       (case strip_prefix json '':'' of
          None \<Rightarrow> None
        | Some json \<Rightarrow>
         (case profile_from_json J json of
            None \<Rightarrow> None
          | Some profile \<Rightarrow>
             if profile_to_json J profile \<noteq> Some json then None
             else if \<not> is_ok (validate_work_profile P profile) then None
             else Some profile)))"

definition encode_scope_change_request ::
    "prims \<Rightarrow> work_json \<Rightarrow> scope_change_request \<Rightarrow> work_error + string" where
  "encode_scope_change_request P J profile =
     rbind (validate_scope_change_request P profile) (\<lambda>_.
     rbind (ok_or (scr_to_json J profile) SerializeFailed) (\<lambda>bytes.
     rbind (ensure (length bytes \<le> work_max_profile_bytes) ProfileTooLarge) (\<lambda>_.
     Inr (scope_change_request_discriminator @ '':'' @ bytes))))"

definition parse_scope_change_request ::
    "prims \<Rightarrow> work_json \<Rightarrow> string \<Rightarrow> scope_change_request option" where
  "parse_scope_change_request P J body =
     (case strip_prefix body scope_change_request_discriminator of
        None \<Rightarrow> None
      | Some rest \<Rightarrow>
       (case strip_prefix rest '':'' of
          None \<Rightarrow> None
        | Some payload \<Rightarrow>
         (case scr_from_json J payload of
            None \<Rightarrow> None
          | Some profile \<Rightarrow>
             if is_ok (validate_scope_change_request P profile) then Some profile else None)))"

section \<open>The lifecycle of a transition\<close>

datatype work_reject_reason =
    UnknownTask
  | WrongState string "work_task_state option"
  | NotAuthor
  | MissingCausalBase
  | MissingProposal
  | MissingIntent
  | UnauthorizedCoordinator
  | DecisionAlreadyApplied
  | SupersededDecisionUnknown
  | SelfDependency
  | DependencyCycle
  | InvalidOverlapClaim
  | NarrowOutsideScope
  | SequenceDecreased
  | AmendmentExpandsScopeWithoutApproval

primrec reject_reason_as_str :: "work_reject_reason \<Rightarrow> string" where
  "reject_reason_as_str UnknownTask = ''unknown_task''"
| "reject_reason_as_str (WrongState e f) = ''wrong_state''"
| "reject_reason_as_str NotAuthor = ''not_author''"
| "reject_reason_as_str MissingCausalBase = ''missing_causal_base''"
| "reject_reason_as_str MissingProposal = ''missing_proposal''"
| "reject_reason_as_str MissingIntent = ''missing_intent''"
| "reject_reason_as_str UnauthorizedCoordinator = ''unauthorized_coordinator''"
| "reject_reason_as_str DecisionAlreadyApplied = ''decision_already_applied''"
| "reject_reason_as_str SupersededDecisionUnknown = ''superseded_decision_unknown''"
| "reject_reason_as_str SelfDependency = ''self_dependency''"
| "reject_reason_as_str DependencyCycle = ''dependency_cycle''"
| "reject_reason_as_str InvalidOverlapClaim = ''invalid_overlap_claim''"
| "reject_reason_as_str NarrowOutsideScope = ''narrow_outside_scope''"
| "reject_reason_as_str SequenceDecreased = ''sequence_decreased''"
| "reject_reason_as_str AmendmentExpandsScopeWithoutApproval =
     ''amendment_expands_scope_without_approval''"

definition require_state ::
    "work_task_state list \<Rightarrow> string \<Rightarrow> work_task_state option \<Rightarrow> work_reject_reason option" where
  "require_state allowed expected current =
     (case current of
        Some found \<Rightarrow> if found \<in> set allowed then None else Some (WrongState expected (Some found))
      | None \<Rightarrow> Some MissingIntent)"

definition transition_rejection ::
    "work_task_state option \<Rightarrow> work_profile \<Rightarrow> work_reject_reason option" where
  "transition_rejection current profile =
     (case profile of
        WorkIntent _ \<Rightarrow> None
      | WorkDecision _ \<Rightarrow>
          (case current of
             Some found \<Rightarrow> if found = Proposed then None else Some DecisionAlreadyApplied
           | None \<Rightarrow> Some MissingProposal)
      | WorkAmendment _ \<Rightarrow> require_state [Accepted] ''accepted'' current
      | WorkYield _ \<Rightarrow> require_state [Accepted] ''accepted'' current
      | WorkSettled _ \<Rightarrow> require_state [Accepted, Yielded] ''accepted or yielded'' current
      | WorkCompleted _ \<Rightarrow> require_state [Settled] ''settled'' current
      | WorkBlocked _ \<Rightarrow> require_state [Accepted, Yielded] ''accepted or yielded'' current
      | WorkSuperseded _ \<Rightarrow>
          (case current of
             Some found \<Rightarrow>
               if found = Accepted \<or> found = Rejected then None else Some DecisionAlreadyApplied
           | None \<Rightarrow> Some MissingProposal))"

section \<open>Overlap is exact\<close>

lemma strip_suffix_eq_Some: "strip_suffix s suf = Some r \<longleftrightarrow> s = r @ suf"
proof
  assume "strip_suffix s suf = Some r"
  then have len: "length suf \<le> length s" and tail: "drop (length s - length suf) s = suf"
    and r: "r = take (length s - length suf) s"
    by (auto simp: strip_suffix_def split: if_splits)
  have "s = take (length s - length suf) s @ drop (length s - length suf) s" by simp
  with tail r show "s = r @ suf" by simp
qed (simp add: strip_suffix_def)

lemma strip_prefix_eq_Some: "strip_prefix s pre = Some r \<longleftrightarrow> s = pre @ r"
proof
  assume "strip_prefix s pre = Some r"
  then have head: "take (length pre) s = pre" and r: "r = drop (length pre) s"
    by (auto simp: strip_prefix_def split: if_splits)
  have "s = take (length pre) s @ drop (length pre) s" by simp
  with head r show "s = pre @ r" by simp
qed (simp add: strip_prefix_def)

lemma split_on_append: "split_on c (a @ c # b) = split_on c a @ split_on c b"
  by (induction a) (auto split: list.splits)

lemma join_on_append:
  "xs \<noteq> [] \<Longrightarrow> ys \<noteq> [] \<Longrightarrow> join_on c (xs @ ys) = join_on c xs @ c # join_on c ys"
  by (induction c xs rule: join_on.induct) (auto simp: join_on_Cons)

lemma split_on_eq_append:
  assumes "split_on c s = split_on c d @ zs" and "zs \<noteq> []"
  shows "s = d @ c # join_on c zs"
  using assms by (metis join_on_append join_split split_on_nonempty)

abbreviation components :: "string \<Rightarrow> string list" where
  "components \<equiv> split_on (CHR ''/'')"

text \<open>Containment of path strings is the prefix order on their components.\<close>

lemma is_path_under_iff:
  assumes "dir \<noteq> []" and "last dir \<noteq> CHR ''/''"
  shows "is_path_under child dir \<longleftrightarrow> prefix (components dir) (components child)"
proof -
  obtain xs x where dir: "dir = xs @ [x]" using assms(1) by (cases dir rule: rev_cases) auto
  with assms(2) have trim: "trim_end_matches (CHR ''/'') dir = dir"
    by (simp add: trim_end_matches_def)
  have "is_path_under child dir \<longleftrightarrow> child = dir \<or> (\<exists>rest. child = dir @ CHR ''/'' # rest)"
  proof (cases "strip_prefix child dir")
    case None
    have "child \<noteq> dir @ r" for r using None strip_prefix_eq_Some [of child dir r] by simp
    then show ?thesis unfolding is_path_under_def trim Let_def using None by (metis is_some_and_simps(2))
  next
    case (Some rest)
    then have child: "child = dir @ rest" by (simp add: strip_prefix_eq_Some)
    show ?thesis unfolding is_path_under_def trim Let_def Some using child by (cases rest) auto
  qed
  also have "\<dots> \<longleftrightarrow> prefix (components dir) (components child)"
  proof
    assume "prefix (components dir) (components child)"
    then obtain zs where zs: "components child = components dir @ zs" by (auto elim: prefixE)
    show "child = dir \<or> (\<exists>rest. child = dir @ CHR ''/'' # rest)"
      using split_on_eq_append [OF zs] zs by (metis append_Nil2 join_split)
  qed (auto simp: split_on_append)
  finally show ?thesis .
qed

lemma safe_path_shape:
  assumes "is_safe_rel_path P path"
  shows "path \<noteq> []" and "last path \<noteq> CHR ''/''" and "strip_suffix path ''/**'' = None"
proof -
  have safe: "is_safe_component c" if "c \<in> set (components path)" for c
    using assms that by (auto simp: is_safe_rel_path_def list_all_iff)
  show ne: "path \<noteq> []" using assms by (simp add: is_safe_rel_path_def)
  show "last path \<noteq> CHR ''/''"
  proof
    assume "last path = CHR ''/''"
    with ne have "path = butlast path @ CHR ''/'' # []" by (metis append_butlast_last_id)
    then have "components path = components (butlast path) @ [[]]"
      by (metis split_on.simps(1) split_on_append)
    then have "[] \<in> set (components path)" by simp
    from safe [OF this] show False by (simp add: is_safe_component_def)
  qed
  show "strip_suffix path ''/**'' = None"
  proof (rule ccontr)
    assume "strip_suffix path ''/**'' \<noteq> None"
    then obtain r where "path = r @ CHR ''/'' # ''**''" by (auto simp: strip_suffix_eq_Some)
    then have "''**'' \<in> set (components path)" by (simp add: split_on_append)
    from safe [OF this] have "\<not> (\<exists>v\<in>set (chars ''**''). v \<in> set forbidden_characters)"
      by (auto simp: is_safe_component_def)
    moreover have "chars ''**'' = [42, 42]"
      by (simp add: chars_def utf8_chars_ascii is_ascii_def)
    ultimately show False by (simp add: forbidden_characters_def)
  qed
qed

definition entry_root :: "string \<Rightarrow> string" where
  "entry_root entry = (case strip_suffix entry ''/**'' of Some root \<Rightarrow> root | None \<Rightarrow> entry)"

definition entry_is_glob :: "string \<Rightarrow> bool" where
  "entry_is_glob entry = (strip_suffix entry ''/**'' \<noteq> None)"

lemma valid_entry_root: "is_valid_scope_entry P e \<Longrightarrow> is_safe_rel_path P (entry_root e)"
  by (auto simp: is_valid_scope_entry_def is_directory_glob_def entry_root_def safe_path_shape(3)
      split: option.splits)

lemma under_entry_root:
  assumes "is_valid_scope_entry P e"
  shows "is_path_under p (entry_root e) \<longleftrightarrow> prefix (components (entry_root e)) (components p)"
  using is_path_under_iff safe_path_shape(1,2) [OF valid_entry_root [OF assms]] by blast

text \<open>
  The reference: an exact entry is one node of the tree of paths and a glob is the subtree at
  its root. Two entries overlap when they share a node, and two exact entries also when one
  names a directory above the other.
\<close>

definition overlap_reference :: "string \<Rightarrow> string \<Rightarrow> work_overlap_kind option" where
  "overlap_reference a b =
     (let ca = components (entry_root a); cb = components (entry_root b) in
      if \<not> entry_is_glob a \<and> \<not> entry_is_glob b then
        (if ca = cb then Some ExactPath
         else if prefix ca cb \<or> prefix cb ca then Some DirectoryContainment else None)
      else if (prefix ca cb \<and> entry_is_glob a) \<or> (prefix cb ca \<and> entry_is_glob b)
      then Some GlobMatch else None)"

lemma components_inj: "components a = components b \<longleftrightarrow> a = b"
  by (metis join_split)

lemma path_overlap_kind_reference:
  assumes "is_valid_scope_entry P a" and "is_valid_scope_entry P b"
  shows "path_overlap_kind a b = overlap_reference a b"
proof -
  have roots: "path_overlap_kind a b =
     (let ra = entry_root a; rb = entry_root b in
      if \<not> entry_is_glob a \<and> \<not> entry_is_glob b then
        (if ra = rb then Some ExactPath
         else if is_path_under rb ra \<or> is_path_under ra rb then Some DirectoryContainment else None)
      else if entry_is_glob a \<and> entry_is_glob b then
        (if ra = rb \<or> is_path_under rb ra \<or> is_path_under ra rb then Some GlobMatch else None)
      else if entry_is_glob a then
        (if rb = ra \<or> is_path_under rb ra then Some GlobMatch else None)
      else if ra = rb \<or> is_path_under ra rb then Some GlobMatch else None)"
    by (cases "strip_suffix a ''/**''"; cases "strip_suffix b ''/**''")
       (simp_all only: path_overlap_kind_def Let_def entry_root_def entry_is_glob_def option.case
         prod.case option.distinct not_True_eq_False not_False_eq_True simp_thms if_True if_False)
  show ?thesis
    unfolding roots overlap_reference_def Let_def under_entry_root [OF assms(1)]
      under_entry_root [OF assms(2)] components_inj [symmetric]
    by auto
qed

lemma scope_entry_covers_path_iff:
  assumes "is_valid_scope_entry P e"
  shows "scope_entry_covers_path e p \<longleftrightarrow>
     (if entry_is_glob e then prefix (components (entry_root e)) (components p)
      else components p = components (entry_root e))"
  using under_entry_root [OF assms, of p]
  by (auto simp: scope_entry_covers_path_def entry_root_def entry_is_glob_def components_inj
      split: option.splits)

lemma common_path_iff:
  assumes "is_valid_scope_entry P a" and "is_valid_scope_entry P b"
  shows "(\<exists>p. scope_entry_covers_path a p \<and> scope_entry_covers_path b p) \<longleftrightarrow>
     path_overlap_kind a b \<in> {Some ExactPath, Some GlobMatch}" (is "?common \<longleftrightarrow> ?kind")
proof
  assume ?common
  then show ?kind
    unfolding scope_entry_covers_path_iff [OF assms(1)] scope_entry_covers_path_iff [OF assms(2)]
      path_overlap_kind_reference [OF assms]
    by (auto simp: overlap_reference_def Let_def split: if_splits dest: prefix_same_cases)
next
  assume ?kind
  then have "scope_entry_covers_path a (entry_root b) \<and> scope_entry_covers_path b (entry_root b)
    \<or> scope_entry_covers_path a (entry_root a) \<and> scope_entry_covers_path b (entry_root a)"
    unfolding scope_entry_covers_path_iff [OF assms(1)] scope_entry_covers_path_iff [OF assms(2)]
      path_overlap_kind_reference [OF assms]
    by (auto simp: overlap_reference_def Let_def split: if_splits)
  then show ?common by blast
qed

lemma set_push_new [simp]: "set (push_new x xs) = insert x (set xs)"
  by (auto simp: push_new_def)

lemma distinct_push_new [simp]: "distinct (push_new x xs) \<longleftrightarrow> distinct xs"
  by (auto simp: push_new_def)

abbreviation path_entry :: "work_overlap_kind \<Rightarrow> string \<Rightarrow> string \<Rightarrow> work_overlap" where
  "path_entry kind pa pb \<equiv>
     \<lparr>wo_kind = kind, wo_path_a = Some pa, wo_path_b = Some pb, wo_concern = None\<rparr>"

abbreviation concern_entry :: "string \<Rightarrow> work_overlap" where
  "concern_entry c \<equiv>
     \<lparr>wo_kind = SameConcern, wo_path_a = None, wo_path_b = None, wo_concern = Some c\<rparr>"

lemma fold_push_new:
  assumes "\<And>x out. set (f x out) = set out \<union> g x" and "\<And>x out. distinct out \<Longrightarrow> distinct (f x out)"
  shows "set (fold f xs out) = set out \<union> (\<Union>x\<in>set xs. g x)"
    and "distinct out \<Longrightarrow> distinct (fold f xs out)"
  by (induction xs arbitrary: out) (auto simp: assms)

lemma evaluate_scope_overlap_set:
  "set (evaluate_scope_overlap paths_a concerns_a paths_b concerns_b) =
     {path_entry kind pa pb |kind pa pb.
        pa \<in> set paths_a \<and> pb \<in> set paths_b \<and> path_overlap_kind pa pb = Some kind}
     \<union> {concern_entry c |c. c \<in> set concerns_a \<and> c \<in> set concerns_b}" (is ?elems)
  and evaluate_scope_overlap_distinct:
  "distinct (evaluate_scope_overlap paths_a concerns_a paths_b concerns_b)" (is ?dist)
proof -
  define step where "step = (\<lambda>pa pb out. case path_overlap_kind pa pb of
      Some kind \<Rightarrow> push_new (path_entry kind pa pb) out | None \<Rightarrow> out)"
  define cstep where "cstep = (\<lambda>ca out.
      if ca \<in> set concerns_b then push_new (concern_entry ca) out else out)"
  let ?g = "\<lambda>pa pb. {path_entry kind pa pb |kind. path_overlap_kind pa pb = Some kind}"
  have step: "set (step pa pb out) = set out \<union> ?g pa pb"
    "distinct out \<Longrightarrow> distinct (step pa pb out)" for pa pb out
    by (auto simp: step_def split: option.splits)
  have inner: "set (fold (step pa) paths_b out) = set out \<union> (\<Union>pb\<in>set paths_b. ?g pa pb)"
    "distinct out \<Longrightarrow> distinct (fold (step pa) paths_b out)" for pa out
    by (rule fold_push_new [of "step pa" "?g pa", OF step], assumption?)+
  have outer: "set (fold (\<lambda>pa. fold (step pa) paths_b) paths_a []) =
      (\<Union>pa\<in>set paths_a. \<Union>pb\<in>set paths_b. ?g pa pb)"
    "distinct (fold (\<lambda>pa. fold (step pa) paths_b) paths_a [])"
    using fold_push_new [where f = "\<lambda>pa. fold (step pa) paths_b" and xs = paths_a and out = "[]"
        and g = "\<lambda>pa. \<Union>pb\<in>set paths_b. ?g pa pb", OF inner] by simp_all
  have cs: "set (cstep ca out) = set out \<union> (if ca \<in> set concerns_b then {concern_entry ca} else {})"
    "distinct out \<Longrightarrow> distinct (cstep ca out)" for ca out
    by (auto simp: cstep_def)
  note concerns = fold_push_new [where f = cstep and xs = concerns_a
      and g = "\<lambda>ca. if ca \<in> set concerns_b then {concern_entry ca} else {}", OF cs]
  have ev: "evaluate_scope_overlap paths_a concerns_a paths_b concerns_b =
      fold cstep concerns_a (fold (\<lambda>pa. fold (step pa) paths_b) paths_a [])"
    by (simp add: evaluate_scope_overlap_def step_def cstep_def Let_def)
  have "set (evaluate_scope_overlap paths_a concerns_a paths_b concerns_b) =
      (\<Union>pa\<in>set paths_a. \<Union>pb\<in>set paths_b. ?g pa pb)
      \<union> (\<Union>c\<in>set concerns_a. if c \<in> set concerns_b then {concern_entry c} else {})"
    unfolding ev by (simp add: concerns(1) outer(1))
  then show ?elems by (auto split: if_splits)
  show ?dist unfolding ev by (intro concerns(2) outer(2))
qed

text \<open>
  C35. For scopes of valid entries the overlap evaluation lists each overlap once and misses
  none: its path entries are exactly the pairs that overlap as nodes and subtrees of the tree
  of path components, with the kind the reference gives; two entries that cover a common path
  are exactly those reported as \<^verbatim>\<open>ExactPath\<close> or \<^verbatim>\<open>GlobMatch\<close>; and its concern entries are
  exactly the concerns of both scopes.
\<close>

theorem scope_overlap_exact:
  fixes paths_a paths_b concerns_a concerns_b :: "string list"
  assumes "\<forall>e\<in>set paths_a \<union> set paths_b. is_valid_scope_entry P e"
  defines "out \<equiv> evaluate_scope_overlap paths_a concerns_a paths_b concerns_b"
  shows "distinct out
    \<and> (\<forall>kind pa pb. path_entry kind pa pb \<in> set out \<longleftrightarrow>
         pa \<in> set paths_a \<and> pb \<in> set paths_b \<and> overlap_reference pa pb = Some kind)
    \<and> (\<forall>pa\<in>set paths_a. \<forall>pb\<in>set paths_b.
         (\<exists>p. scope_entry_covers_path pa p \<and> scope_entry_covers_path pb p) \<longleftrightarrow>
         path_entry ExactPath pa pb \<in> set out \<or> path_entry GlobMatch pa pb \<in> set out)
    \<and> (\<forall>c. concern_entry c \<in> set out \<longleftrightarrow> c \<in> set concerns_a \<and> c \<in> set concerns_b)
    \<and> (\<forall>e\<in>set out. (\<exists>kind pa pb. e = path_entry kind pa pb) \<or> (\<exists>c. e = concern_entry c))"
proof (intro conjI)
  have kind: "path_overlap_kind pa pb = overlap_reference pa pb"
    if "pa \<in> set paths_a" and "pb \<in> set paths_b" for pa pb
    using assms(1) that by (intro path_overlap_kind_reference) auto
  have common: "(\<exists>p. scope_entry_covers_path pa p \<and> scope_entry_covers_path pb p) \<longleftrightarrow>
      path_overlap_kind pa pb \<in> {Some ExactPath, Some GlobMatch}"
    if "pa \<in> set paths_a" and "pb \<in> set paths_b" for pa pb
    using assms(1) that by (intro common_path_iff) auto
  show "distinct out" unfolding out_def by (rule evaluate_scope_overlap_distinct)
  show "\<forall>kind pa pb. path_entry kind pa pb \<in> set out \<longleftrightarrow>
         pa \<in> set paths_a \<and> pb \<in> set paths_b \<and> overlap_reference pa pb = Some kind"
    unfolding out_def evaluate_scope_overlap_set by (auto simp: kind)
  show "\<forall>pa\<in>set paths_a. \<forall>pb\<in>set paths_b.
         (\<exists>p. scope_entry_covers_path pa p \<and> scope_entry_covers_path pb p) \<longleftrightarrow>
         path_entry ExactPath pa pb \<in> set out \<or> path_entry GlobMatch pa pb \<in> set out"
    unfolding out_def evaluate_scope_overlap_set by (auto simp: common)
  show "\<forall>c. concern_entry c \<in> set out \<longleftrightarrow> c \<in> set concerns_a \<and> c \<in> set concerns_b"
    unfolding out_def evaluate_scope_overlap_set by auto
  show "\<forall>e\<in>set out. (\<exists>kind pa pb. e = path_entry kind pa pb) \<or> (\<exists>c. e = concern_entry c)"
    unfolding out_def evaluate_scope_overlap_set by auto
qed

theorem scope_overlap_exact_witness:
  "path_entry GlobMatch ''s/**'' ''s/x''
     \<in> set (evaluate_scope_overlap [''a'', ''s/**''] [''db''] [''a/b'', ''s/x''] [''db'', ''ui''])
   \<and> path_entry DirectoryContainment ''a'' ''a/b''
     \<in> set (evaluate_scope_overlap [''a'', ''s/**''] [''db''] [''a/b'', ''s/x''] [''db'', ''ui''])"
proof -
  have valid: "\<forall>e\<in>set [''a'', ''s/**''] \<union> set [''a/b'', ''s/x'']. is_valid_scope_entry sample_prims e"
    by code_simp
  have ref: "overlap_reference ''s/**'' ''s/x'' = Some GlobMatch"
    "overlap_reference ''a'' ''a/b'' = Some DirectoryContainment"
    by code_simp+
  show ?thesis
    using scope_overlap_exact [OF valid, of "[''db'']" "[''db'', ''ui'']"] ref by simp
qed

section \<open>The text form of a profile\<close>

lemma parse_work_profile_eq_Some:
  "parse_work_profile P J body = Some p \<longleftrightarrow>
     length body \<le> work_max_profile_bytes
     \<and> (\<exists>json. body = work_profile_discriminator @ '':'' @ json \<and> profile_from_json J json = Some p
          \<and> profile_to_json J p = Some json)
     \<and> validate_work_profile P p = Inr ()"
  by (auto simp: parse_work_profile_def strip_prefix_eq_Some is_ok_iff not_less
      split: option.splits if_splits)
     (simp add: strip_prefix_def)+

lemma encode_work_profile_eq_Inr:
  "encode_work_profile P J p = Inr body \<longleftrightarrow>
     length body \<le> work_max_profile_bytes
     \<and> (\<exists>json. body = work_profile_discriminator @ '':'' @ json \<and> profile_to_json J p = Some json)
     \<and> validate_work_profile P p = Inr ()"
  by (auto simp: encode_work_profile_def rbind_eq_Inr Let_def)

lemma encode_scope_change_request_eq_Inr:
  "encode_scope_change_request P J r = Inr body \<longleftrightarrow>
     (\<exists>json. body = scope_change_request_discriminator @ '':'' @ json
        \<and> scr_to_json J r = Some json \<and> length json \<le> work_max_profile_bytes)
     \<and> validate_scope_change_request P r = Inr ()"
  by (auto simp: encode_scope_change_request_def rbind_eq_Inr)

text \<open>
  The length check of \<^verbatim>\<open>encode_scope_change_request\<close> covers the JSON only: a request whose JSON
  is within 31 bytes of the limit encodes to a body longer than the message body bound.
\<close>

lemma scope_change_body_over_bound:
  assumes "validate_scope_change_request P r = Inr ()" and "scr_to_json J r = Some json"
    and "work_max_profile_bytes - 31 < length json" and "length json \<le> work_max_profile_bytes"
  shows "\<exists>body. encode_scope_change_request P J r = Inr body \<and> work_max_profile_bytes < length body"
  using assms
  by (auto simp: encode_scope_change_request_eq_Inr scope_change_request_discriminator_def)

text \<open>
  C36. Let \<^verbatim>\<open>serde_json\<close> read back what it writes and write a profile as a JSON object. Then a
  profile encodes to a body exactly when that body parses to the profile, so that no two bodies
  stand for one profile and nothing is lost in either direction; a request to change a scope is
  read back as it was written, and its body is never taken for a profile.
\<close>

theorem work_profile_roundtrip:
  assumes serde: "\<And>q json. profile_to_json J q = Some json \<Longrightarrow> profile_from_json J json = Some q"
    and scr_serde: "\<And>q json. scr_to_json J q = Some json \<Longrightarrow> scr_from_json J json = Some q"
    and braces: "\<And>q json. profile_to_json J q = Some json \<Longrightarrow> hd json = CHR ''{''"
  shows "(encode_work_profile P J p = Inr body \<longleftrightarrow> parse_work_profile P J body = Some p)
    \<and> (encode_scope_change_request P J r = Inr body' \<longrightarrow>
         parse_scope_change_request P J body' = Some r \<and> parse_work_profile P J body' = None)"
proof (intro conjI impI)
  show "encode_work_profile P J p = Inr body \<longleftrightarrow> parse_work_profile P J body = Some p"
    unfolding encode_work_profile_eq_Inr parse_work_profile_eq_Some using serde by blast
next
  assume "encode_scope_change_request P J r = Inr body'"
  then obtain json where body': "body' = scope_change_request_discriminator @ '':'' @ json"
      and json: "scr_to_json J r = Some json" and valid: "validate_scope_change_request P r = Inr ()"
    by (auto simp: encode_scope_change_request_eq_Inr)
  have "strip_prefix body' scope_change_request_discriminator = Some ('':'' @ json)"
    and "strip_prefix ('':'' @ json) '':'' = Some json"
    by (simp_all add: body' strip_prefix_eq_Some)
  then show "parse_scope_change_request P J body' = Some r"
    using valid scr_serde [OF json] by (simp add: parse_scope_change_request_def)
  show "parse_work_profile P J body' = None"
  proof (rule ccontr)
    assume "parse_work_profile P J body' \<noteq> None"
    then obtain q json' where "body' = work_profile_discriminator @ '':'' @ json'"
        and q: "profile_to_json J q = Some json'"
      by (auto simp: parse_work_profile_eq_Some)
    then have "json' = ''scope_change_requested:'' @ json"
      by (simp add: body' work_profile_discriminator_def scope_change_request_discriminator_def)
    with braces [OF q] show False by simp
  qed
qed

definition sample_yield :: work_yield_profile where
  "sample_yield = \<lparr>wy_task_id = ''t1'', wy_intent_message_id = replicate 64 CHR ''a'',
     wy_sequence = 2, wy_reason = None\<rparr>"

definition sample_request :: scope_change_request where
  "sample_request = \<lparr>scr_task_id = ''t1'', scr_intent_message_id = replicate 64 CHR ''a'',
     scr_operations = [OpAdd, OpDelete], scr_paths = [''a''], scr_concerns = [], scr_reason = []\<rparr>"

definition sample_json :: work_json where
  "sample_json =
     \<lparr>profile_to_json = (\<lambda>q. if q = WorkYield sample_yield then Some ''{y}'' else None),
      profile_from_json = (\<lambda>s. if s = ''{y}'' then Some (WorkYield sample_yield) else None),
      scr_to_json = (\<lambda>q. if q = sample_request then Some ''{r}'' else None),
      scr_from_json = (\<lambda>s. if s = ''{r}'' then Some sample_request else None)\<rparr>"

theorem work_profile_roundtrip_witness:
  "parse_work_profile sample_prims sample_json ''ffwork1:{y}'' = Some (WorkYield sample_yield)
   \<and> parse_work_profile sample_prims sample_json ''ffwork1:scope_change_requested:{r}'' = None"
proof -
  have enc: "encode_work_profile sample_prims sample_json (WorkYield sample_yield) = Inr ''ffwork1:{y}''"
    "encode_scope_change_request sample_prims sample_json sample_request
       = Inr ''ffwork1:scope_change_requested:{r}''"
    by code_simp+
  have laws: "profile_to_json sample_json q = Some json \<Longrightarrow> profile_from_json sample_json json = Some q"
    "scr_to_json sample_json r = Some json \<Longrightarrow> scr_from_json sample_json json = Some r"
    "profile_to_json sample_json q = Some json \<Longrightarrow> hd json = CHR ''{''" for q r json
    by (auto simp: sample_json_def split: if_splits)
  have "(encode_work_profile sample_prims sample_json p = Inr body \<longleftrightarrow>
        parse_work_profile sample_prims sample_json body = Some p)
    \<and> (encode_scope_change_request sample_prims sample_json r = Inr body' \<longrightarrow>
        parse_scope_change_request sample_prims sample_json body' = Some r
        \<and> parse_work_profile sample_prims sample_json body' = None)" for p r body body'
    by (rule work_profile_roundtrip) (erule laws)+
  then show ?thesis using enc by blast
qed

end
