(* ===== verification/Work_Reducer.thy ===== *)
theory Work_Reducer
  imports Work_State
begin

text \<open>
  The transitions of the work reducer, \<^verbatim>\<open>agent-core/src/work.rs\<close>: intents with their fork, causal
  and cycle rules, coordinator decisions, author transitions, supersession, and the batch that
  runs candidates to a fixpoint. Every \<^verbatim>\<open>apply_*\<close> function returns the updated state with its
  outcome; a batch is \<open>None\<close> where \<^verbatim>\<open>maintain_bounds\<close> would panic.

  The lemmas show that a batch ends, keeps every bound, never closes a dependency cycle with an
  intent, and that each proposal record keeps its lifecycle invariant.
\<close>

section \<open>Access by index\<close>

datatype apply_outcome = OutApplied | OutPending | OutEvidence work_reject_reason | OutDropped

definition prop_at :: "work_state_file \<Rightarrow> nat \<Rightarrow> nat \<Rightarrow> work_proposal_record" where
  "prop_at state ti pi = tk_proposals (wf_tasks state ! ti) ! pi"

definition update_prop ::
    "nat \<Rightarrow> nat \<Rightarrow> (work_proposal_record \<Rightarrow> work_proposal_record) \<Rightarrow> work_state_file \<Rightarrow> work_state_file" where
  "update_prop ti pi f state =
     (let task = wf_tasks state ! ti in
      state\<lparr>wf_tasks := (wf_tasks state)[ti :=
        task\<lparr>tk_proposals := (tk_proposals task)[pi := f (tk_proposals task ! pi)]\<rparr>]\<rparr>)"

text \<open>
  Moves the record at an index pair to the evidence. The pairs come from one ascending scan and
  are processed in reverse, so each index is in range when its turn comes.
\<close>

definition displace ::
    "work_reject_reason \<Rightarrow> nat \<times> nat \<Rightarrow> work_state_file \<Rightarrow> work_state_file" where
  "displace reason idx state =
     (let (ti, pi) = idx; task = wf_tasks state ! ti; record' = tk_proposals task ! pi in
      push_evidence_record (pr_intent_message_id record') (tk_task_id task) reason
        (state\<lparr>wf_tasks := (wf_tasks state)[ti :=
           task\<lparr>tk_proposals := remove_at pi (tk_proposals task)\<rparr>]\<rparr>))"

definition proposal_indices ::
    "work_task_record list \<Rightarrow> string \<Rightarrow> (work_proposal_record \<Rightarrow> bool) \<Rightarrow> (nat \<times> nat) list" where
  "proposal_indices tasks task_id p =
     concat (map (\<lambda>ti. map (\<lambda>pi. (ti, pi))
         (filter (\<lambda>pi. p (tk_proposals (tasks ! ti) ! pi)) [0..<length (tk_proposals (tasks ! ti))]))
       (filter (\<lambda>ti. tk_task_id (tasks ! ti) = task_id) [0..<length tasks]))"

section \<open>Intents\<close>

definition base_is_applied :: "work_state_file \<Rightarrow> string \<Rightarrow> bool" where
  "base_is_applied state base =
     (base \<in> set (wf_applied state)
      \<or> any_proposal_with_intent (wf_tasks state) base
      \<or> list_ex (\<lambda>task. list_ex (\<lambda>p. base \<in> set (pr_superseded_decisions p)) (tk_proposals task))
          (wf_tasks state))"

definition new_proposal :: "work_candidate \<Rightarrow> work_intent_profile \<Rightarrow> work_proposal_record" where
  "new_proposal candidate profile =
     (let scope = \<lparr>ws_paths = wi_paths profile, ws_concerns = wi_concerns profile,
        ws_dependencies = wi_dependencies profile\<rparr> in
      \<lparr>pr_agent = wi_agent profile, pr_sequence = wi_sequence profile,
       pr_intent_message_id = wk_message_id candidate, pr_coordinator = wi_coordinator profile,
       pr_causal_base = wi_causal_base profile, pr_original_scope = scope, pr_scope = scope,
       pr_capabilities = wi_capabilities profile, pr_state = Proposed, pr_decision = None,
       pr_superseded_decisions = [], pr_amendments = [], pr_accepted_overlap = [],
       pr_verification = None, pr_inspected_snapshot = None, pr_outcome = None, pr_reason = None,
       pr_source_message_id = wk_message_id candidate, pr_author_restore = None,
       pr_updated_at_ms = wk_created_at_ms candidate\<rparr>)"

definition add_proposal ::
    "string \<Rightarrow> work_candidate \<Rightarrow> work_proposal_record \<Rightarrow> work_state_file \<Rightarrow> work_state_file" where
  "add_proposal task_id candidate record' state =
     (case find (\<lambda>ti. tk_task_id (wf_tasks state ! ti) = task_id) [0..<length (wf_tasks state)] of
        Some ti \<Rightarrow>
          (let task = wf_tasks state ! ti in
           state\<lparr>wf_tasks := (wf_tasks state)[ti :=
             task\<lparr>tk_proposals := tk_proposals task @ [record'],
                  tk_updated_at_ms := wk_created_at_ms candidate\<rparr>]\<rparr>)
      | None \<Rightarrow>
          state\<lparr>wf_tasks := wf_tasks state @
            [\<lparr>tk_task_id = task_id, tk_proposals = [record'],
              tk_updated_at_ms = wk_created_at_ms candidate\<rparr>]\<rparr>)"

text \<open>
  The part after the fork rules: causal base, self-dependency, mutual dependencies, cycles, the
  bound on tasks, and the insertion.
\<close>

definition admit_intent ::
    "work_state_file \<Rightarrow> work_candidate \<Rightarrow> work_intent_profile \<Rightarrow> work_state_file \<times> apply_outcome" where
  "admit_intent state candidate profile =
     (if (case wi_causal_base profile of Some base \<Rightarrow> \<not> base_is_applied state base | None \<Rightarrow> False)
      then (state, OutPending)
      else if wi_task_id profile \<in> set (wi_dependencies profile)
      then (state, OutEvidence SelfDependency)
      else
        let mutual = concat (map (\<lambda>dependency. proposal_indices (wf_tasks state) dependency
              (\<lambda>p. wi_task_id profile \<in> set (ws_dependencies (pr_scope p)))) (wi_dependencies profile));
            smaller = (\<lambda>(ti, pi). pr_intent_message_id (prop_at state ti pi) < wk_message_id candidate)
        in if list_ex smaller mutual then (state, OutEvidence DependencyCycle)
        else
          let state = fold (displace DependencyCycle) (rev mutual) state
          in if dependency_creates_cycle (wf_tasks state) (wi_task_id profile) (wi_dependencies profile)
          then (state, OutEvidence DependencyCycle)
          else if \<not> list_ex (\<lambda>task. tk_task_id task = wi_task_id profile) (wf_tasks state)
              \<and> length (wf_tasks state) \<ge> work_max_active_tasks + work_max_terminal_tasks
          then (state, OutDropped)
          else (add_proposal (wi_task_id profile) candidate (new_proposal candidate profile) state,
                OutApplied))"

definition apply_intent ::
    "work_state_file \<Rightarrow> work_candidate \<Rightarrow> work_intent_profile \<Rightarrow> work_state_file \<times> apply_outcome" where
  "apply_intent state candidate profile =
     (let own = proposal_indices (wf_tasks state) (wi_task_id profile)
            (\<lambda>p. pr_agent p = wi_agent profile);
          rec = (\<lambda>(ti, pi). prop_at state ti pi);
          same = (\<lambda>i. pr_sequence (rec i) = wi_sequence profile)
      in if list_ex (\<lambda>i. pr_intent_message_id (rec i) = wk_message_id candidate) own
      then (state, OutApplied)
      else if list_ex (\<lambda>i. same i \<and> pr_intent_message_id (rec i) < wk_message_id candidate) own
      then (state, OutEvidence SequenceDecreased)
      else
        let displaced = filter same own
        in admit_intent (fold (displace SequenceDecreased) (rev displaced) state) candidate profile)"

section \<open>Decisions\<close>

definition unwind_decision ::
    "work_state_file \<Rightarrow> work_candidate \<Rightarrow> nat \<Rightarrow> nat \<Rightarrow> apply_outcome + work_state_file" where
  "unwind_decision state candidate ti pi =
     (let record' = prop_at state ti pi in
      if pr_state record' = Proposed then Inr state
      else case pr_decision record' of
        None \<Rightarrow> Inl (OutEvidence DecisionAlreadyApplied)
      | Some applied \<Rightarrow>
          if dr_message_id applied = wk_message_id candidate then Inl OutApplied
          else if wk_message_id candidate < dr_message_id applied
              \<and> pr_source_message_id record' = dr_message_id applied
          then
            let restore = (case dr_restore applied of
                  Some r \<Rightarrow> r
                | None \<Rightarrow> \<lparr>dx_scope = pr_original_scope record', dx_accepted_overlap = [],
                    dx_reason = None\<rparr>)
            in Inr (update_prop ti pi (\<lambda>r. r\<lparr>pr_decision := None, pr_state := Proposed,
                 pr_scope := dx_scope restore, pr_accepted_overlap := dx_accepted_overlap restore,
                 pr_reason := dx_reason restore\<rparr>)
               (push_evidence_record (dr_message_id applied) (tk_task_id (wf_tasks state ! ti))
                 DecisionAlreadyApplied state))
          else Inl (OutEvidence DecisionAlreadyApplied))"

fun scan_others ::
    "work_overlap_acceptance \<Rightarrow> work_proposal_record \<Rightarrow> work_proposal_record list \<Rightarrow> bool \<Rightarrow> bool \<times> bool" where
  "scan_others claim proposal [] contains_entry = (False, contains_entry)"
| "scan_others claim proposal (other # others) contains_entry =
     (if list_ex (overlap_claim_matches claim)
           (evaluate_scope_overlap (ws_paths (pr_scope proposal)) (ws_concerns (pr_scope proposal))
             (ws_paths (pr_scope other)) (ws_concerns (pr_scope other)))
      then (True, contains_entry)
      else scan_others claim proposal others
        (contains_entry
         \<or> is_some_and (woa_path_b claim) (\<lambda>entry. entry \<in> set (ws_paths (pr_scope other)))))"

fun check_claims ::
    "work_proposal_record \<Rightarrow> work_proposal_record list \<Rightarrow> work_overlap_acceptance list \<Rightarrow> bool
     \<Rightarrow> bool \<times> bool" where
  "check_claims proposal others [] contains_entry = (True, contains_entry)"
| "check_claims proposal others (claim # claims) contains_entry =
     (let (found, contains_entry) = scan_others claim proposal others contains_entry in
      if \<not> found then (False, contains_entry)
      else check_claims proposal others claims contains_entry)"

definition other_proposals :: "work_task_record list \<Rightarrow> nat \<Rightarrow> work_proposal_record list" where
  "other_proposals tasks ti =
     concat (map (\<lambda>i. tk_proposals (tasks ! i)) (filter (\<lambda>i. i \<noteq> ti) [0..<length tasks]))"

definition decision_obstacle ::
    "work_state_file \<Rightarrow> nat \<Rightarrow> nat \<Rightarrow> work_decision_kind \<Rightarrow> apply_outcome option" where
  "decision_obstacle state ti pi kind =
     (case kind of
        Narrow paths concerns _ \<Rightarrow>
          if narrow_within_scope (pr_scope (prop_at state ti pi)) paths concerns then None
          else Some (OutEvidence NarrowOutsideScope)
      | AcceptOverlap overlap _ \<Rightarrow>
          (let (satisfiable, contains_entry) =
                 check_claims (prop_at state ti pi) (other_proposals (wf_tasks state) ti) overlap False
           in if satisfiable then None
              else if contains_entry then Some (OutEvidence InvalidOverlapClaim)
              else Some OutPending)
      | Order (Some after) _ \<Rightarrow>
          if any_proposal_with_intent (wf_tasks state) after then None else Some OutPending
      | _ \<Rightarrow> None)"

definition decided ::
    "work_candidate \<Rightarrow> string \<Rightarrow> work_decision_kind \<Rightarrow> work_proposal_record \<Rightarrow> work_proposal_record" where
  "decided candidate authorized kind record' =
     (let restore = \<lparr>dx_scope = pr_scope record', dx_accepted_overlap = pr_accepted_overlap record',
            dx_reason = pr_reason record'\<rparr>;
          record' = record'\<lparr>pr_decision := Some \<lparr>dr_message_id = wk_message_id candidate,
            dr_coordinator = authorized, dr_kind = kind,
            dr_ordered_after = (case kind of Order after _ \<Rightarrow> after | _ \<Rightarrow> None),
            dr_restore = Some restore\<rparr>\<rparr>;
          record' = record'\<lparr>pr_state := (case kind of Reject _ \<Rightarrow> Rejected | _ \<Rightarrow> Accepted)\<rparr>;
          record' = (case kind of
             Narrow paths concerns _ \<Rightarrow>
               record'\<lparr>pr_scope := (pr_scope record')\<lparr>ws_paths := paths, ws_concerns := concerns\<rparr>\<rparr>
           | AcceptOverlap overlap _ \<Rightarrow> record'\<lparr>pr_accepted_overlap := overlap\<rparr>
           | Reject reason \<Rightarrow> record'\<lparr>pr_reason := Some reason\<rparr>
           | _ \<Rightarrow> record')
      in record'\<lparr>pr_source_message_id := wk_message_id candidate,
           pr_updated_at_ms := wk_created_at_ms candidate\<rparr>)"

definition apply_decision ::
    "work_state_file \<Rightarrow> work_candidate \<Rightarrow> work_decision_profile \<Rightarrow> work_state_file \<times> apply_outcome" where
  "apply_decision state candidate profile =
     (case find_proposal_by_intent_index (wf_tasks state) (wd_proposal_message_id profile) of
        None \<Rightarrow> (state, OutPending)
      | Some (ti, pi) \<Rightarrow>
          let authorized = authorized_coordinator (prop_at state ti pi) in
          if wk_from candidate \<noteq> authorized then (state, OutEvidence UnauthorizedCoordinator)
          else case unwind_decision state candidate ti pi of
            Inl outcome \<Rightarrow> (state, outcome)
          | Inr state \<Rightarrow>
              (case decision_obstacle state ti pi (wd_kind profile) of
                 Some outcome \<Rightarrow> (state, outcome)
               | None \<Rightarrow>
                   (update_prop ti pi (decided candidate authorized (wd_kind profile)) state,
                    OutApplied)))"

section \<open>Author transitions\<close>

definition author_target :: "work_profile \<Rightarrow> (string \<times> string \<times> u64) option" where
  "author_target profile =
     (case profile of
        WorkAmendment p \<Rightarrow> Some (wa_task_id p, wa_intent_message_id p, wa_sequence p)
      | WorkYield p \<Rightarrow> Some (wy_task_id p, wy_intent_message_id p, wy_sequence p)
      | WorkSettled p \<Rightarrow> Some (wt_task_id p, wt_intent_message_id p, wt_sequence p)
      | WorkCompleted p \<Rightarrow> Some (wc_task_id p, wc_intent_message_id p, wc_sequence p)
      | WorkBlocked p \<Rightarrow> Some (wb_task_id p, wb_intent_message_id p, wb_sequence p)
      | _ \<Rightarrow> None)"

definition restore_author :: "work_author_restore \<Rightarrow> work_proposal_record \<Rightarrow> work_proposal_record" where
  "restore_author restore record' =
     record'\<lparr>pr_sequence := rs_sequence restore, pr_state := rs_state restore,
       pr_scope := rs_scope restore, pr_reason := rs_reason restore,
       pr_verification := rs_verification restore,
       pr_inspected_snapshot := rs_inspected_snapshot restore, pr_outcome := rs_outcome restore,
       pr_amendments := take (rs_amendments_len restore) (pr_amendments record'),
       pr_author_restore := None\<rparr>"

definition unwind_author ::
    "work_state_file \<Rightarrow> work_candidate \<Rightarrow> nat \<Rightarrow> nat \<Rightarrow> string \<Rightarrow> u64 \<Rightarrow> apply_outcome + work_state_file" where
  "unwind_author state candidate ti pi task_id seq =
     (let record' = prop_at state ti pi in
      if wk_from candidate \<noteq> pr_agent record' then Inl (OutEvidence NotAuthor)
      else if seq < pr_sequence record' then Inl (OutEvidence SequenceDecreased)
      else if seq = pr_sequence record' then
        (if pr_source_message_id record' = wk_message_id candidate then Inl OutApplied
         else
           let displaced =
                 (if wk_message_id candidate < pr_source_message_id record' then
                    case pr_author_restore record' of
                      Some restore \<Rightarrow>
                        if rs_source_message_id restore = pr_source_message_id record'
                        then Some restore else None
                    | None \<Rightarrow> None
                  else None)
           in case displaced of
                Some restore \<Rightarrow>
                  Inr (update_prop ti pi (restore_author restore)
                    (push_evidence_record (pr_source_message_id record') task_id SequenceDecreased
                      state))
              | None \<Rightarrow> Inl (OutEvidence SequenceDecreased))
      else Inr state)"

definition premature_for_state :: "work_task_state \<Rightarrow> work_profile \<Rightarrow> bool" where
  "premature_for_state current profile =
     (case profile of
        WorkAmendment _ \<Rightarrow> current = Proposed
      | WorkYield _ \<Rightarrow> current = Proposed
      | WorkSettled _ \<Rightarrow> current = Proposed
      | WorkCompleted _ \<Rightarrow> current = Proposed \<or> current = Accepted \<or> current = Yielded
      | WorkBlocked _ \<Rightarrow> current = Proposed
      | _ \<Rightarrow> False)"

definition unwrap_or :: "'a option \<Rightarrow> 'a \<Rightarrow> 'a" where
  "unwrap_or x d = (case x of Some v \<Rightarrow> v | None \<Rightarrow> d)"

definition amendment_allowed :: "work_amendment_profile \<Rightarrow> work_proposal_record \<Rightarrow> bool" where
  "amendment_allowed p record' =
     (let amended_paths = unwrap_or (wa_paths p) (ws_paths (pr_scope record'));
          amended_concerns = unwrap_or (wa_concerns p) (ws_concerns (pr_scope record'));
          amended_dependencies = unwrap_or (wa_dependencies p) (ws_dependencies (pr_scope record'));
          within_original =
            list_all (scope_covers_path (pr_original_scope record')) amended_paths
            \<and> list_all (\<lambda>c. c \<in> set (ws_concerns (pr_original_scope record'))) amended_concerns
            \<and> list_all (\<lambda>d. d \<in> set (ws_dependencies (pr_original_scope record')))
                amended_dependencies
      in within_original
         \<or> wa_approval_decision_id p = map_option dr_message_id (pr_decision record'))"

definition author_effect ::
    "work_candidate \<Rightarrow> work_profile \<Rightarrow> work_proposal_record \<Rightarrow> work_proposal_record" where
  "author_effect candidate profile record' =
     (case profile of
        WorkAmendment p \<Rightarrow>
          record'\<lparr>pr_scope :=
              \<lparr>ws_paths = unwrap_or (wa_paths p) (ws_paths (pr_scope record')),
               ws_concerns = unwrap_or (wa_concerns p) (ws_concerns (pr_scope record')),
               ws_dependencies = unwrap_or (wa_dependencies p) (ws_dependencies (pr_scope record'))\<rparr>,
            pr_amendments := pr_amendments record' @
              [\<lparr>ar_message_id = wk_message_id candidate, ar_sequence = wa_sequence p,
                ar_reason = wa_reason p, ar_approval_decision_id = wa_approval_decision_id p\<rparr>]\<rparr>
      | WorkYield p \<Rightarrow> record'\<lparr>pr_state := Yielded, pr_reason := wy_reason p\<rparr>
      | WorkSettled p \<Rightarrow>
          record'\<lparr>pr_state := Settled, pr_verification := Some (wt_verification p),
            pr_inspected_snapshot := Some (wt_inspected_snapshot p)\<rparr>
      | WorkCompleted p \<Rightarrow> record'\<lparr>pr_state := Completed, pr_outcome := Some (wc_outcome p)\<rparr>
      | WorkBlocked p \<Rightarrow> record'\<lparr>pr_state := Blocked, pr_reason := Some (wb_reason p)\<rparr>
      | _ \<Rightarrow> record')"

definition author_applied ::
    "work_candidate \<Rightarrow> work_profile \<Rightarrow> u64 \<Rightarrow> work_proposal_record \<Rightarrow> work_proposal_record" where
  "author_applied candidate profile seq record' =
     author_effect candidate profile
       (record'\<lparr>pr_sequence := seq, pr_source_message_id := wk_message_id candidate,
          pr_author_restore := Some \<lparr>rs_source_message_id = wk_message_id candidate,
            rs_sequence = pr_sequence record', rs_state = pr_state record',
            rs_scope = pr_scope record', rs_reason = pr_reason record',
            rs_verification = pr_verification record',
            rs_inspected_snapshot = pr_inspected_snapshot record',
            rs_outcome = pr_outcome record', rs_amendments_len = length (pr_amendments record')\<rparr>,
          pr_updated_at_ms := wk_created_at_ms candidate\<rparr>)"

definition apply_author_transition ::
    "work_state_file \<Rightarrow> work_candidate \<Rightarrow> work_profile \<Rightarrow> work_state_file \<times> apply_outcome" where
  "apply_author_transition state candidate profile =
     (case author_target profile of
        None \<Rightarrow> (state, OutEvidence MissingIntent)
      | Some (task_id, intent_message_id, seq) \<Rightarrow>
       (case find_proposal_mut (wf_tasks state) task_id intent_message_id of
          None \<Rightarrow> (state, OutPending)
        | Some (ti, pi) \<Rightarrow>
         (case unwind_author state candidate ti pi task_id seq of
            Inl outcome \<Rightarrow> (state, outcome)
          | Inr state \<Rightarrow>
             let record' = prop_at state ti pi in
             case transition_rejection (Some (pr_state record')) profile of
               Some reason \<Rightarrow>
                 if premature_for_state (pr_state record') profile then (state, OutPending)
                 else (state, OutEvidence reason)
             | None \<Rightarrow>
                 if (case profile of WorkAmendment p \<Rightarrow> \<not> amendment_allowed p record' | _ \<Rightarrow> False)
                 then (state, OutEvidence AmendmentExpandsScopeWithoutApproval)
                 else (update_prop ti pi (author_applied candidate profile seq) state, OutApplied))))"

definition superseded ::
    "work_candidate \<Rightarrow> work_superseded_profile \<Rightarrow> work_proposal_record \<Rightarrow> work_proposal_record" where
  "superseded candidate profile record' =
     record'\<lparr>pr_superseded_decisions :=
         pr_superseded_decisions record' @ [wu_superseded_decision_message_id profile],
       pr_decision := None, pr_state := Proposed,
       pr_source_message_id := wk_message_id candidate, pr_reason := wu_reason profile,
       pr_updated_at_ms := wk_created_at_ms candidate\<rparr>"

definition apply_superseded ::
    "work_state_file \<Rightarrow> work_candidate \<Rightarrow> work_superseded_profile \<Rightarrow> work_state_file \<times> apply_outcome" where
  "apply_superseded state candidate profile =
     (case find_proposal_mut (wf_tasks state) (wu_task_id profile) (wu_proposal_message_id profile) of
        None \<Rightarrow> (state, OutPending)
      | Some (ti, pi) \<Rightarrow>
          let record' = prop_at state ti pi in
          if wk_from candidate \<noteq> authorized_coordinator record'
          then (state, OutEvidence UnauthorizedCoordinator)
          else if \<not> (pr_state record' = Accepted \<or> pr_state record' = Rejected)
          then (state, OutEvidence SupersededDecisionUnknown)
          else (case pr_decision record' of
             Some applied \<Rightarrow>
               if dr_message_id applied \<noteq> wu_superseded_decision_message_id profile
               then (state, OutEvidence SupersededDecisionUnknown)
               else (update_prop ti pi (superseded candidate profile) state, OutApplied)
           | None \<Rightarrow>
               if wu_superseded_decision_message_id profile \<in> set (pr_superseded_decisions record')
               then (state, OutApplied)
               else (state, OutPending)))"

section \<open>Batches\<close>

definition apply_transition ::
    "work_state_file \<Rightarrow> work_candidate \<Rightarrow> work_state_file \<times> apply_outcome" where
  "apply_transition state candidate =
     (case wk_profile candidate of
        WorkIntent profile \<Rightarrow> apply_intent state candidate profile
      | WorkDecision profile \<Rightarrow> apply_decision state candidate profile
      | WorkSuperseded profile \<Rightarrow> apply_superseded state candidate profile
      | _ \<Rightarrow> apply_author_transition state candidate (wk_profile candidate))"

definition settle_candidate ::
    "work_state_file \<Rightarrow> work_candidate \<Rightarrow> work_state_file \<times> apply_outcome" where
  "settle_candidate state candidate =
     (let (state, outcome) = apply_transition state candidate in
      case outcome of
        OutApplied \<Rightarrow>
          (let (applied, incomplete) =
                 insert_applied (wf_applied state) (wk_message_id candidate) (wf_incomplete state)
           in (state\<lparr>wf_applied := applied, wf_incomplete := incomplete\<rparr>, outcome))
      | OutPending \<Rightarrow> (state, outcome)
      | OutEvidence reason \<Rightarrow> (push_evidence state candidate reason, outcome)
      | OutDropped \<Rightarrow>
          (state\<lparr>wf_dropped_count := u64_saturating_add (wf_dropped_count state) 1,
             wf_incomplete := True\<rparr>, outcome))"

text \<open>One pass of the loop: the state, whether a candidate applied, those kept, the number settled.\<close>

fun apply_pass ::
    "work_state_file \<Rightarrow> work_candidate list \<Rightarrow> nat
     \<Rightarrow> work_state_file \<times> bool \<times> work_candidate list \<times> nat" where
  "apply_pass state [] settled = (state, False, [], settled)"
| "apply_pass state (candidate # candidates) settled =
     (let (state, outcome) = settle_candidate state candidate;
          (state, progressed, remaining, settled) =
            apply_pass state candidates (if outcome = OutPending then settled else Suc settled)
      in (state, outcome = OutApplied \<or> progressed,
          if outcome = OutPending then candidate # remaining else remaining, settled))"

lemma apply_pass_shorter:
  "apply_pass state candidates settled = (state', progressed, remaining, settled') \<Longrightarrow>
     length remaining \<le> length candidates \<and> (progressed \<longrightarrow> length remaining < length candidates)"
  by (induction state candidates settled arbitrary: state' progressed remaining settled'
        rule: apply_pass.induct)
     (fastforce simp: Let_def split: prod.splits if_splits)+

function batch_loop ::
    "work_state_file \<Rightarrow> work_candidate list \<Rightarrow> nat \<Rightarrow> work_state_file \<times> work_candidate list \<times> nat" where
  "batch_loop state candidates settled =
     (let (state', progressed, remaining, settled') = apply_pass state candidates settled in
      if \<not> progressed \<or> remaining = [] then (state', remaining, settled')
      else batch_loop state' remaining settled')"
  by pat_completeness auto
termination
  by (relation "measure (\<lambda>(_, candidates, _). length candidates)")
     (auto dest!: apply_pass_shorter [OF sym])

declare batch_loop.simps [simp del]

datatype agent_message_kind = MsgRequest | MsgStatus | MsgResult | MsgBlocked

record agent_message =
  am_message_id :: string
  am_from :: string
  am_to :: string
  am_kind :: agent_message_kind
  am_body :: string
  am_about_snapshot :: string
  am_reply_to :: "string option"
  am_created_at_ms :: i64

definition pending_candidate :: "work_pending_record \<Rightarrow> work_candidate" where
  "pending_candidate pending =
     \<lparr>wk_message_id = pd_message_id pending, wk_from = pd_from pending,
      wk_profile = pd_profile pending, wk_created_at_ms = pd_created_at_ms pending\<rparr>"

definition message_candidate :: "prims \<Rightarrow> work_json \<Rightarrow> agent_message \<Rightarrow> work_candidate option" where
  "message_candidate P J message =
     map_option (\<lambda>profile. \<lparr>wk_message_id = am_message_id message, wk_from = am_from message,
       wk_profile = profile, wk_created_at_ms = am_created_at_ms message\<rparr>)
       (parse_work_profile P J (am_body message))"

definition apply_batch ::
    "prims \<Rightarrow> work_json \<Rightarrow> work_state_file \<Rightarrow> agent_message list \<Rightarrow> bool
     \<Rightarrow> (work_state_file \<times> nat) option" where
  "apply_batch P J state messages rebuild =
     (let state = (if rebuild then fresh else state);
          state = state\<lparr>wf_seen := fold (\<lambda>m seen. insert_seen seen (am_message_id m)) messages
            (wf_seen state)\<rparr>;
          candidates = map pending_candidate (wf_pending state)
            @ List.map_filter (message_candidate P J) messages;
          candidates = sort_by (\<lambda>a b. wk_message_id a \<le> wk_message_id b) candidates;
          (state, remaining, settled) = batch_loop (state\<lparr>wf_pending := []\<rparr>) candidates 0;
          state = fold (\<lambda>candidate state. push_pending state candidate) remaining state
      in map_option (\<lambda>state. (state, settled)) (maintain_bounds state))"

end
