(* ===== verification/Work_Bounds.thy ===== *)
theory Work_Bounds
  imports Work_Reducer
begin

text \<open>
  The retention bounds of the work reducer: every loop of \<^verbatim>\<open>push_pending\<close> and \<^verbatim>\<open>maintain_bounds\<close> ends
  below its limit, and a batch takes a bounded projection to a bounded projection. The eviction of
  terminal tasks removes by indices taken before the first removal; the last lemmas show what that
  does when two or more tasks are evicted at once.
\<close>

section \<open>The retention loops\<close>

lemma trim_pending_props:
  "length (wf_pending (trim_pending s)) \<le> work_max_pending
   \<and> wf_seen (trim_pending s) = wf_seen s \<and> wf_applied (trim_pending s) = wf_applied s
   \<and> wf_tasks (trim_pending s) = wf_tasks s \<and> wf_evidence (trim_pending s) = wf_evidence s
   \<and> set (wf_pending (trim_pending s)) \<subseteq> set (wf_pending s)"
proof (induction s rule: trim_pending.induct)
  case (1 s)
  show ?case
  proof (cases "length (wf_pending s) > work_max_pending")
    case False
    then show ?thesis by (subst (1 2 3 4 5 6) trim_pending.simps) simp
  next
    case True
    then obtain i where i: "max_index (\<lambda>a b. pd_message_id b < pd_message_id a) (wf_pending s) = Some i"
      by (cases "max_index (\<lambda>a b. pd_message_id b < pd_message_id a) (wf_pending s)") auto
    define t where "t = s\<lparr>wf_pending := remove_at i (wf_pending s),
        wf_dropped_count := u64_saturating_add (wf_dropped_count s) 1, wf_incomplete := True\<rparr>"
    have eq: "trim_pending s = trim_pending t"
      using True i by (subst trim_pending.simps) (simp add: t_def)
    show ?thesis
      unfolding eq using 1 [OF True i] set_remove_at [of i "wf_pending s"]
      by (auto simp: t_def)
  qed
qed

lemma trim_proposals_props:
  "length (snd (trim_proposals inc ps)) \<le> work_max_proposals_per_task
   \<and> set (snd (trim_proposals inc ps)) \<subseteq> set ps \<and> (inc \<longrightarrow> fst (trim_proposals inc ps))"
proof (induction inc ps rule: trim_proposals.induct)
  case (1 inc ps)
  show ?case
  proof (cases "length ps > work_max_proposals_per_task")
    case False
    then show ?thesis by (subst (1 2 3) trim_proposals.simps) simp
  next
    case True
    then obtain i where i: "min_index proposal_gt ps = Some i"
      by (cases "min_index proposal_gt ps") auto
    then have eq: "trim_proposals inc ps =
        trim_proposals (inc \<or> \<not> is_terminal (pr_state (ps ! i))) (remove_at i ps)"
      using True by (subst trim_proposals.simps) simp
    show ?thesis unfolding eq using 1 [OF True i] set_remove_at [of i ps] by blast
  qed
qed

lemma trim_amendments_props:
  "length (snd (trim_amendments st inc as)) \<le> work_max_amendments
   \<and> set (snd (trim_amendments st inc as)) \<subseteq> set as \<and> (inc \<longrightarrow> fst (trim_amendments st inc as))"
proof (induction st inc as rule: trim_amendments.induct)
  case (1 st inc as)
  let ?gt = "\<lambda>a b. ar_message_id b < ar_message_id a"
  show ?case
  proof (cases "length as > work_max_amendments")
    case False
    then show ?thesis by (subst (1 2 3) trim_amendments.simps) simp
  next
    case True
    then obtain i where i: "max_index ?gt as = Some i"
      by (cases "max_index ?gt as") auto
    then have eq: "trim_amendments st inc as =
        trim_amendments st (inc \<or> \<not> is_terminal st) (remove_at i as)"
      using True by (subst trim_amendments.simps) simp
    show ?thesis unfolding eq using 1 [OF True i] set_remove_at [of i as] by blast
  qed
qed

lemma trim_evidence_props:
  "length (trim_evidence es) \<le> work_max_evidence \<and> set (trim_evidence es) \<subseteq> set es"
proof (induction es rule: trim_evidence.induct)
  case (1 es)
  let ?gt = "\<lambda>a b. ev_message_id b < ev_message_id a"
  show ?case
  proof (cases "length es > work_max_evidence")
    case False
    then show ?thesis by (subst (1 2) trim_evidence.simps) simp
  next
    case True
    then obtain i where i: "max_index ?gt es = Some i"
      by (cases "max_index ?gt es") auto
    then have eq: "trim_evidence es = trim_evidence (remove_at i es)"
      using True by (subst trim_evidence.simps) simp
    show ?thesis unfolding eq using 1 [OF True i] set_remove_at [of i es] by blast
  qed
qed

lemma map_accum_props:
  "length (snd (map_accum f s xs)) = length xs
   \<and> (\<forall>i<length xs. \<exists>s'. snd (map_accum f s xs) ! i = snd (f s' (xs ! i)))"
proof (induction xs arbitrary: s)
  case (Cons x xs)
  obtain s1 y where f: "f s x = (s1, y)" by fastforce
  obtain s2 ys where m: "map_accum f s1 xs = (s2, ys)" by fastforce
  have "\<exists>s'. (y # ys) ! i = snd (f s' ((x # xs) ! i))" if "i < Suc (length xs)" for i
  proof (cases i)
    case 0
    then show ?thesis using f by (auto intro!: exI [of _ s])
  next
    case (Suc j)
    with that Cons [of s1] m show ?thesis by auto
  qed
  with f m Cons [of s1] show ?case by auto
qed simp

lemma map_accum_in_set:
  assumes "y \<in> set (snd (map_accum f s xs))"
  obtains s' x where "x \<in> set xs" and "y = snd (f s' x)"
  using assms map_accum_props [of f s xs] unfolding in_set_conv_nth by (metis nth_mem)

definition task_bounded :: "work_task_record \<Rightarrow> bool" where
  "task_bounded task \<longleftrightarrow> length (tk_proposals task) \<le> work_max_proposals_per_task
     \<and> (\<forall>p\<in>set (tk_proposals task). length (pr_amendments p) \<le> work_max_amendments)"

lemma trim_task_bounded: "task_bounded (snd (trim_task inc task))"
proof -
  obtain inc1 ps where p: "trim_proposals inc (tk_proposals task) = (inc1, ps)" by fastforce
  obtain inc2 qs where q: "map_accum trim_proposal inc1 ps = (inc2, qs)" by fastforce
  have "length (pr_amendments r) \<le> work_max_amendments" if "r \<in> set qs" for r
  proof -
    from that q have "r \<in> set (snd (map_accum trim_proposal inc1 ps))" by simp
    then obtain s x where "r = snd (trim_proposal s x)" by (rule map_accum_in_set)
    then show ?thesis
      using trim_amendments_props [of "pr_state x" s "pr_amendments x"]
      by (simp add: trim_proposal_def split: prod.splits)
  qed
  then show ?thesis
    using p q trim_proposals_props [of inc "tk_proposals task"]
      map_accum_props [of trim_proposal inc1 ps]
    by (simp add: trim_task_def task_bounded_def)
qed

lemma remove_all_at_props:
  "remove_all_at is xs = Some ys \<Longrightarrow> length ys = length xs - length is \<and> set ys \<subseteq> set xs"
proof (induction "is" arbitrary: xs)
  case (Cons i "is")
  then have i: "i < length xs" and rest: "remove_all_at is (remove_at i xs) = Some ys"
    by (auto simp: vec_remove_def split: if_splits)
  show ?case using Cons.IH [OF rest] i set_remove_at [of i xs] by auto
qed simp

lemma evict_terminal_props:
  assumes "evict_terminal tasks = Some tasks'"
  shows "length tasks' \<le> length tasks \<and> set tasks' \<subseteq> set tasks"
  using assms remove_all_at_props
  by (fastforce simp: evict_terminal_def Let_def split: if_splits)

text \<open>With at most one task over the limit the eviction is in range.\<close>

lemma terminal_indices_length: "length (terminal_indices tasks) \<le> length tasks"
  unfolding terminal_indices_def by (metis diff_zero length_filter_le length_upt)

definition terminal_tasks :: "work_task_record list \<Rightarrow> work_task_record list" where
  "terminal_tasks tasks = filter (\<lambda>task. is_terminal (task_state task)) tasks"

lemma terminal_count: "length (terminal_indices tasks) = length (terminal_tasks tasks)"
proof -
  have "map ((!) tasks) (terminal_indices tasks) = terminal_tasks tasks"
    unfolding terminal_indices_def terminal_tasks_def filter_map [of "\<lambda>task. is_terminal (task_state task)" "(!) tasks", unfolded comp_def, symmetric]
    by (simp add: map_nth)
  then show ?thesis by (metis length_map)
qed

lemma terminal_remove:
  assumes "i < length tasks" and "is_terminal (task_state (tasks ! i))"
  shows "length (terminal_tasks (remove_at i tasks)) + 1 = length (terminal_tasks tasks)"
proof -
  have "tasks = take i tasks @ tasks ! i # drop (Suc i) tasks" using assms(1) by (rule id_take_nth_drop)
  then have "terminal_tasks tasks = terminal_tasks (take i tasks) @ tasks ! i # terminal_tasks (drop (Suc i) tasks)"
    using assms(2) unfolding terminal_tasks_def by (metis filter.simps(2) filter_append)
  then show ?thesis by (simp add: remove_at_def terminal_tasks_def)
qed

lemma evict_terminal_total:
  assumes "length (terminal_tasks tasks) \<le> Suc work_max_terminal_tasks"
  shows "\<exists>tasks'. evict_terminal tasks = Some tasks' \<and> length (terminal_tasks tasks') \<le> work_max_terminal_tasks"
proof (cases "length (terminal_indices tasks) > work_max_terminal_tasks")
  case False
  then show ?thesis by (simp add: evict_terminal_def Let_def terminal_count)
next
  case True
  let ?evict = "sort_by (evict_le tasks) (terminal_indices tasks)"
  from True assms have one: "length (terminal_indices tasks) - work_max_terminal_tasks = Suc 0" by (simp add: terminal_count)
  have "?evict \<noteq> []" using True by (metis length_sort_by list.size(3) not_less_zero)
  then have first: "rev (take (Suc 0) ?evict) = [hd ?evict]" by (cases ?evict) auto
  have "hd ?evict \<in> set (terminal_indices tasks)"
    using \<open>?evict \<noteq> []\<close> by (metis hd_in_set set_sort_by)
  then have hd: "hd ?evict < length tasks" "is_terminal (task_state (tasks ! hd ?evict))" by (simp_all add: terminal_indices_def)
  then have "evict_terminal tasks = Some (remove_at (hd ?evict) tasks)"
    using True by (simp add: evict_terminal_def Let_def one first vec_remove_def)
  with terminal_remove [OF hd] assms show ?thesis by simp
qed

section \<open>Sorted id lists\<close>

lemma insert_applied_props:
  assumes "sorted xs" and "distinct xs" and "length xs \<le> work_max_applied"
    and "insert_applied xs m inc = (ys, inc')"
  shows "sorted ys \<and> distinct ys \<and> length ys \<le> work_max_applied \<and> m \<in> set ys \<and> (inc \<longrightarrow> inc')"
  using assms
  by (auto simp: insert_applied_def Let_def work_max_applied_def dest: in_set_dropD
      split: if_splits)

lemma insert_seen_props:
  assumes "sorted xs" and "distinct xs" and "length xs \<le> work_max_seen"
  shows "sorted (insert_seen xs m) \<and> distinct (insert_seen xs m)
    \<and> length (insert_seen xs m) \<le> work_max_seen"
  using assms by (auto simp: insert_seen_def sorted_wrt_take)

section \<open>What a transition leaves alone\<close>

definition task_limit :: nat where
  "task_limit = work_max_active_tasks + work_max_terminal_tasks"

definition same_books :: "work_state_file \<Rightarrow> work_state_file \<Rightarrow> bool" where
  "same_books s t \<longleftrightarrow> wf_seen t = wf_seen s \<and> wf_applied t = wf_applied s \<and> wf_pending t = wf_pending s"

lemma same_books_trans: "same_books s t \<Longrightarrow> same_books t u \<Longrightarrow> same_books s u"
  by (simp add: same_books_def)

lemma same_books_refl [simp]: "same_books s s"
  by (simp add: same_books_def)

lemma push_evidence_record_frame [simp]:
  "same_books s (push_evidence_record m t r s)"
  "wf_tasks (push_evidence_record m t r s) = wf_tasks s"
  by (simp_all add: push_evidence_record_def same_books_def)

lemma update_prop_frame [simp]:
  "same_books s (update_prop ti pi f s)"
  "length (wf_tasks (update_prop ti pi f s)) = length (wf_tasks s)"
  by (simp_all add: update_prop_def same_books_def Let_def)

lemma update_prop_evidence_frame [simp]:
  "same_books s (update_prop ti pi f (push_evidence_record m t r s))"
  by (simp add: update_prop_def push_evidence_record_def same_books_def Let_def)

lemma displace_frame [simp]:
  "same_books s (displace r i s)" "length (wf_tasks (displace r i s)) = length (wf_tasks s)"
  by (simp_all add: displace_def push_evidence_record_def same_books_def Let_def split: prod.split)

lemma fold_displace_frame [simp]:
  "same_books s (fold (displace r) is s)"
  "length (wf_tasks (fold (displace r) is s)) = length (wf_tasks s)"
  by (induction "is" arbitrary: s) (auto intro: same_books_trans [OF displace_frame(1)])

lemma add_proposal_frame [simp]:
  "same_books s (add_proposal t c p s)"
  "length (wf_tasks (add_proposal t c p s)) =
     (if list_ex (\<lambda>task. tk_task_id task = t) (wf_tasks s) then length (wf_tasks s)
      else Suc (length (wf_tasks s)))"
proof -
  show "same_books s (add_proposal t c p s)"
    by (simp add: add_proposal_def same_books_def Let_def split: option.split)
  show "length (wf_tasks (add_proposal t c p s)) =
     (if list_ex (\<lambda>task. tk_task_id task = t) (wf_tasks s) then length (wf_tasks s)
      else Suc (length (wf_tasks s)))"
    by (auto simp: add_proposal_def Let_def find_None_iff find_Some_iff list_ex_iff in_set_conv_nth
        split: option.split) (metis nth_mem)+
qed

definition grows_within :: "work_state_file \<Rightarrow> work_state_file \<times> apply_outcome \<Rightarrow> bool" where
  "grows_within s r \<longleftrightarrow> same_books s (fst r)
     \<and> length (wf_tasks (fst r)) \<le> length (wf_tasks s) + (if snd r = OutApplied then 1 else 0)
     \<and> (length (wf_tasks s) \<le> task_limit \<longrightarrow> length (wf_tasks (fst r)) \<le> task_limit)"

lemma grows_within_same:
  "same_books s t \<Longrightarrow> length (wf_tasks t) = length (wf_tasks s) \<Longrightarrow> grows_within s (t, out)"
  by (simp add: grows_within_def)

lemma grows_within_after:
  "same_books s t \<Longrightarrow> length (wf_tasks t) = length (wf_tasks s) \<Longrightarrow> grows_within t r \<Longrightarrow> grows_within s r"
  by (auto simp: grows_within_def intro: same_books_trans)

lemma admit_intent_grows: "grows_within s (admit_intent s c p)"
proof -
  let ?mutual = "concat (map (\<lambda>d. proposal_indices (wf_tasks s) d
      (\<lambda>q. wi_task_id p \<in> set (ws_dependencies (pr_scope q)))) (wi_dependencies p))"
  let ?t = "fold (displace DependencyCycle) (rev ?mutual) s"
  have s: "grows_within s (s, out)" and t: "grows_within s (?t, out)" for out
    by (simp_all add: grows_within_same)
  have add: "grows_within s (add_proposal (wi_task_id p) c (new_proposal c p) ?t, OutApplied)"
    if "list_ex (\<lambda>task. tk_task_id task = wi_task_id p) (wf_tasks ?t)
      \<or> length (wf_tasks ?t) < work_max_active_tasks + work_max_terminal_tasks"
    using that by (intro grows_within_after [of s ?t]) (auto simp: grows_within_def task_limit_def)
  show ?thesis
    using s t add by (auto simp: admit_intent_def Let_def not_le simp del: fold_displace_frame)
qed

lemma apply_intent_grows: "grows_within s (apply_intent s c p)"
  using admit_intent_grows [of "fold (displace SequenceDecreased) _ s" c p]
  by (auto simp: apply_intent_def Let_def grows_within_same
      intro: grows_within_after [OF fold_displace_frame])

lemma unwind_decision_frame:
  "unwind_decision s c ti pi = Inr t \<Longrightarrow> same_books s t \<and> length (wf_tasks t) = length (wf_tasks s)"
  by (auto simp: unwind_decision_def Let_def split: if_splits option.splits)

lemma unwind_author_frame:
  "unwind_author s c ti pi k seq = Inr t \<Longrightarrow> same_books s t \<and> length (wf_tasks t) = length (wf_tasks s)"
  by (auto simp: unwind_author_def Let_def split: if_splits option.splits)

lemma apply_decision_grows: "grows_within s (apply_decision s c p)"
  by (auto simp: apply_decision_def Let_def grows_within_same split: option.split sum.split
      dest!: unwind_decision_frame intro: grows_within_after [OF _ _ grows_within_same])

lemma apply_author_grows: "grows_within s (apply_author_transition s c p)"
  by (auto simp: apply_author_transition_def Let_def grows_within_same split: option.split sum.split
      dest!: unwind_author_frame intro: grows_within_after [OF _ _ grows_within_same])

lemma apply_superseded_grows: "grows_within s (apply_superseded s c p)"
  by (auto simp: apply_superseded_def Let_def grows_within_same split: option.split)

lemma apply_transition_grows: "grows_within s (apply_transition s c)"
  by (simp add: apply_transition_def apply_intent_grows apply_decision_grows apply_author_grows
      apply_superseded_grows split: work_profile.split)

section \<open>A batch keeps the projection bounded\<close>

definition ids_bounded :: "work_state_file \<Rightarrow> bool" where
  "ids_bounded s \<longleftrightarrow> length (wf_tasks s) \<le> task_limit
     \<and> sorted (wf_applied s) \<and> distinct (wf_applied s) \<and> length (wf_applied s) \<le> work_max_applied
     \<and> sorted (wf_seen s) \<and> distinct (wf_seen s) \<and> length (wf_seen s) \<le> work_max_seen"

definition work_bounded :: "work_state_file \<Rightarrow> bool" where
  "work_bounded s \<longleftrightarrow> ids_bounded s \<and> length (wf_pending s) \<le> work_max_pending
     \<and> length (wf_evidence s) \<le> work_max_evidence \<and> (\<forall>task\<in>set (wf_tasks s). task_bounded task)"

lemma settle_candidate_ids:
  assumes "ids_bounded s"
  shows "ids_bounded (fst (settle_candidate s c))
    \<and> length (wf_tasks (fst (settle_candidate s c)))
        \<le> length (wf_tasks s) + (if snd (settle_candidate s c) = OutPending then 0 else 1)
    \<and> wf_pending (fst (settle_candidate s c)) = wf_pending s"
proof -
  obtain t out where t: "apply_transition s c = (t, out)" by fastforce
  have grow: "grows_within s (t, out)" using apply_transition_grows [of s c] t by simp
  with assms have ids: "ids_bounded t" by (simp add: ids_bounded_def grows_within_def same_books_def)
  obtain applied inc where i: "insert_applied (wf_applied t) (wk_message_id c) (wf_incomplete t)
      = (applied, inc)" by fastforce
  from ids i have "sorted applied \<and> distinct applied \<and> length applied \<le> work_max_applied"
    using insert_applied_props [of "wf_applied t"] by (simp add: ids_bounded_def)
  with ids grow i t show ?thesis
    by (cases out) (auto simp: settle_candidate_def ids_bounded_def grows_within_def same_books_def
        push_evidence_def push_evidence_record_def)
qed

lemma apply_pass_ids:
  assumes "apply_pass s cs n = (t, progressed, rest, m)" and "ids_bounded s"
  shows "ids_bounded t \<and> wf_pending t = wf_pending s
    \<and> length (wf_tasks t) + length rest \<le> length (wf_tasks s) + length cs
    \<and> m + length rest = n + length cs"
  using assms
proof (induction s cs n arbitrary: t progressed rest m rule: apply_pass.induct)
  case (2 s c cs n)
  obtain u out where u: "settle_candidate s c = (u, out)" by fastforce
  obtain t' p' r' m' where rec: "apply_pass u cs (if out = OutPending then n else Suc n) = (t', p', r', m')"
    by (metis prod_cases4)
  have eq: "t = t'" "rest = (if out = OutPending then c # r' else r')" "m = m'"
    using 2(2) u rec by auto
  have step: "ids_bounded u" "length (wf_tasks u) \<le> length (wf_tasks s) + (if out = OutPending then 0 else 1)"
    "wf_pending u = wf_pending s"
    using settle_candidate_ids [OF 2(3), of c] u by auto
  show ?case
    using 2(1) [OF u [symmetric] HOL.refl rec step(1)] step eq by auto
qed simp

lemma batch_loop_ids:
  assumes "batch_loop s cs n = (t, rest, m)" and "ids_bounded s"
  shows "ids_bounded t \<and> wf_pending t = wf_pending s
    \<and> length (wf_tasks t) + length rest \<le> length (wf_tasks s) + length cs
    \<and> m + length rest = n + length cs"
  using assms
proof (induction s cs n rule: batch_loop.induct)
  case (1 s cs n)
  obtain t' p' r' m' where pass: "apply_pass s cs n = (t', p', r', m')" by (metis prod_cases4)
  note ids = apply_pass_ids [OF pass 1(3)]
  show ?case
  proof (cases "\<not> p' \<or> r' = []")
    case True
    with 1(2) pass ids show ?thesis by (subst (asm) batch_loop.simps) auto
  next
    case False
    with 1(2) pass have "batch_loop t' r' m' = (t, rest, m)" by (subst (asm) batch_loop.simps) auto
    from 1(1) [OF pass [symmetric] HOL.refl HOL.refl HOL.refl False this] ids show ?thesis by auto
  qed
qed

lemma fold_push_pending:
  assumes "length (wf_pending s) \<le> work_max_pending"
  shows "length (wf_pending (fold (\<lambda>c s. push_pending s c) cs s)) \<le> work_max_pending
    \<and> (ids_bounded s \<longrightarrow> ids_bounded (fold (\<lambda>c s. push_pending s c) cs s))
    \<and> wf_tasks (fold (\<lambda>c s. push_pending s c) cs s) = wf_tasks s"
  using assms
proof (induction cs arbitrary: s)
  case (Cons c cs)
  have "length (wf_pending (push_pending s c)) \<le> work_max_pending
      \<and> (ids_bounded s \<longrightarrow> ids_bounded (push_pending s c)) \<and> wf_tasks (push_pending s c) = wf_tasks s"
    by (simp add: push_pending_def trim_pending_props ids_bounded_def)
  with Cons.IH [of "push_pending s c"] show ?case by simp
qed simp

lemma fold_insert_seen:
  assumes "sorted xs" and "distinct xs" and "length xs \<le> work_max_seen"
  shows "sorted (fold (\<lambda>m seen. insert_seen seen (f m)) ms xs)
    \<and> distinct (fold (\<lambda>m seen. insert_seen seen (f m)) ms xs)
    \<and> length (fold (\<lambda>m seen. insert_seen seen (f m)) ms xs) \<le> work_max_seen"
  using assms by (induction ms arbitrary: xs) (auto simp: insert_seen_props)

lemma maintain_bounds_bounded:
  assumes "maintain_bounds s = Some t" and "ids_bounded s" and "length (wf_pending s) \<le> work_max_pending"
  shows "work_bounded t"
proof -
  obtain inc tasks where m: "map_accum trim_task (wf_incomplete s) (wf_tasks s) = (inc, tasks)"
    by fastforce
  with assms(1) obtain tasks' where ev: "evict_terminal tasks = Some tasks'"
      and t: "t = s\<lparr>wf_incomplete := inc, wf_tasks := tasks',
        wf_evidence := trim_evidence (wf_evidence s)\<rparr>"
    by (auto simp: maintain_bounds_def split: option.splits)
  have len: "length tasks = length (wf_tasks s)"
    using map_accum_props [of trim_task "wf_incomplete s" "wf_tasks s"] m by simp
  have bounded: "task_bounded task" if "task \<in> set tasks" for task
  proof -
    have "task \<in> set (snd (map_accum trim_task (wf_incomplete s) (wf_tasks s)))" using that m by simp
    then show ?thesis by (rule map_accum_in_set) (simp add: trim_task_bounded)
  qed
  show ?thesis
    using evict_terminal_props [OF ev] bounded len assms(2,3) trim_evidence_props [of "wf_evidence s"]
    by (auto simp: t work_bounded_def ids_bounded_def)
qed

lemma maintain_bounds_total:
  assumes "length (wf_tasks s) \<le> Suc work_max_terminal_tasks"
  shows "\<exists>t. maintain_bounds s = Some t \<and> length (terminal_tasks (wf_tasks t)) \<le> work_max_terminal_tasks"
proof -
  obtain inc tasks where m: "map_accum trim_task (wf_incomplete s) (wf_tasks s) = (inc, tasks)"
    by fastforce
  have "length tasks = length (wf_tasks s)"
    using map_accum_props [of trim_task "wf_incomplete s" "wf_tasks s"] m by simp
  then have "length (terminal_tasks tasks) \<le> Suc work_max_terminal_tasks"
    using terminal_indices_length [of tasks] assms by (simp add: terminal_count)
  from evict_terminal_total [OF this] m show ?thesis by (auto simp: maintain_bounds_def)
qed


definition work_message :: "string \<Rightarrow> string \<Rightarrow> string \<Rightarrow> i64 \<Rightarrow> agent_message" where
  "work_message m from' body t = \<lparr>am_message_id = m, am_from = from', am_to = ''*'', am_kind = MsgStatus,
     am_body = body, am_about_snapshot = [], am_reply_to = None, am_created_at_ms = t\<rparr>"

definition sample_message :: agent_message where
  "sample_message = work_message ''m1'' ''ann'' ''ffwork1:{y}'' 5"


section \<open>Eviction of several terminal tasks\<close>

text \<open>
  A projection of 514 terminal tasks whose least recent task is the last one: the two indices to
  evict are 513 and 0. The loop removes index 0 first and then finds index 513 out of range.
\<close>

definition sample_proposal :: "u64 \<Rightarrow> work_task_state \<Rightarrow> work_proposal_record" where
  "sample_proposal seq st =
     \<lparr>pr_agent = ''a'', pr_sequence = seq, pr_intent_message_id = ''m'', pr_coordinator = None,
      pr_causal_base = None,
      pr_original_scope = \<lparr>ws_paths = [], ws_concerns = [], ws_dependencies = []\<rparr>,
      pr_scope = \<lparr>ws_paths = [], ws_concerns = [], ws_dependencies = []\<rparr>,
      pr_capabilities = [], pr_state = st, pr_decision = None, pr_superseded_decisions = [],
      pr_amendments = [], pr_accepted_overlap = [], pr_verification = None,
      pr_inspected_snapshot = None, pr_outcome = None, pr_reason = None,
      pr_source_message_id = ''m'', pr_author_restore = None, pr_updated_at_ms = 0\<rparr>"

definition sample_task :: "u64 \<Rightarrow> work_task_record" where
  "sample_task seq =
     \<lparr>tk_task_id = ''t'', tk_proposals = [sample_proposal seq Completed], tk_updated_at_ms = 0\<rparr>"

definition crowded_tasks :: "work_task_record list" where
  "crowded_tasks = map (\<lambda>i. sample_task (word_of_nat (Suc i))) [0..<513] @ [sample_task 0]"

lemma crowded_nth:
  "i < 513 \<Longrightarrow> crowded_tasks ! i = sample_task (word_of_nat (Suc i))"
  "crowded_tasks ! 513 = sample_task 0"
  by (simp_all add: crowded_tasks_def nth_append)

lemma sample_task_facts:
  "highest_sequence (sample_task seq) = seq" "task_state (sample_task seq) = Completed"
  by (simp_all add: highest_sequence_def sample_task_def sample_proposal_def task_state_def max_by_def)

lemma crowded_terminal: "terminal_indices crowded_tasks = [0..<514]"
proof -
  have "crowded_tasks ! i = sample_task (if i < 513 then word_of_nat (Suc i) else 0)" if "i < 514" for i
    using that crowded_nth by (cases "i = 513") auto
  then show ?thesis
    unfolding terminal_indices_def
    by (intro filter_True [THEN trans]) (auto simp: crowded_tasks_def is_terminal_def sample_task_facts)
qed

lemma crowded_le:
  "i < 513 \<Longrightarrow> \<not> evict_le crowded_tasks i 513"
  "i < j \<Longrightarrow> j < 513 \<Longrightarrow> evict_le crowded_tasks i j"
proof -
  have w: "unat (word_of_nat (Suc k) :: u64) = Suc k" if "k < 513" for k
    using that by (intro unat_word_of_nat) simp
  show "\<not> evict_le crowded_tasks i 513" if "i < 513"
    using w [OF that] that
    by (auto simp: evict_le_def Let_def crowded_nth sample_task_facts word_less_nat_alt
        simp del: of_nat_Suc)
  show "evict_le crowded_tasks i j" if "i < j" "j < 513"
    using w [of i] w [of j] that
    by (auto simp: evict_le_def Let_def crowded_nth sample_task_facts word_less_nat_alt
        simp del: of_nat_Suc)
qed

lemma crowded_sorted:
  "k \<le> 513 \<Longrightarrow> foldr (insort_by (evict_le crowded_tasks)) [k..<513] [513] = 513 # [k..<513]"
proof (induction "513 - k" arbitrary: k)
  case (Suc n)
  then have k: "k < 513" and IH: "foldr (insort_by (evict_le crowded_tasks)) [Suc k..<513] [513]
      = 513 # [Suc k..<513]" by simp_all
  have "insort_by (evict_le crowded_tasks) k [Suc k..<513] = k # [Suc k..<513]"
  proof (cases "Suc k < 513")
    case True
    then show ?thesis
      by (subst (1 2) upt_conv_Cons) (simp_all add: crowded_le(2))
  qed simp
  with k IH crowded_le(1) [OF k] show ?case
    by (subst (1 2) upt_conv_Cons) simp_all
qed simp

lemma evict_two_out_of_range: "evict_terminal crowded_tasks = None"
proof -
  have upto: "[0..<514] = [0..<513] @ [513]" using upt_Suc_append [of 0 513] by simp
  have cons: "[0..<513] = 0 # [Suc 0..<513]" by (rule upt_conv_Cons) simp
  have "sort_by (evict_le crowded_tasks) [0..<514] = 513 # 0 # [Suc 0..<513]"
    unfolding sort_by_def upto foldr_append using crowded_sorted [of 0] cons by simp
  then have order: "rev (take 2 (sort_by (evict_le crowded_tasks) [0..<514])) = [0, 513]" by simp
  have len: "length crowded_tasks = 514" by (simp add: crowded_tasks_def)
  have "remove_all_at [0, 513] crowded_tasks = None" by (simp add: vec_remove_def len)
  then show ?thesis
    by (simp only: evict_terminal_def crowded_terminal Let_def work_max_terminal_tasks_def
        length_upt) (simp add: order del: upt_Suc)
qed

section \<open>The cap on active tasks\<close>

text \<open>
  A proposal for a new task is admitted while there are fewer than 576 tasks, whatever their state: with 64 active
  tasks the result is 65 active tasks.
\<close>

lemma active_cap_not_enforced:
  assumes "terminal_tasks (wf_tasks s) = []" and "length (wf_tasks s) = work_max_active_tasks"
    and "wi_causal_base profile = None" and "wi_dependencies profile = []"
    and "\<forall>task\<in>set (wf_tasks s). tk_task_id task \<noteq> wi_task_id profile"
  shows "\<exists>t. admit_intent s candidate profile = (t, OutApplied) \<and> terminal_tasks (wf_tasks t) = []
    \<and> length (wf_tasks t) = Suc work_max_active_tasks"
proof -
  have none: "find (\<lambda>ti. tk_task_id (wf_tasks s ! ti) = wi_task_id profile) [0..<length (wf_tasks s)] = None"
    using assms(5) by (auto simp: find_None_iff)
  let ?new = "\<lparr>tk_task_id = wi_task_id profile, tk_proposals = [new_proposal candidate profile],
              tk_updated_at_ms = wk_created_at_ms candidate\<rparr>"
  have "\<not> is_terminal (task_state ?new)"
    by (simp add: task_state_def max_by_def new_proposal_def Let_def is_terminal_def)
  moreover have "add_proposal (wi_task_id profile) candidate (new_proposal candidate profile) s = s\<lparr>wf_tasks := wf_tasks s @ [?new]\<rparr>"
    using none by (simp add: add_proposal_def)
  moreover have "\<not> list_ex (\<lambda>task. tk_task_id task = wi_task_id profile) (wf_tasks s)" using assms(5) by (auto simp: list_ex_iff)
  moreover have "\<not> work_max_active_tasks + work_max_terminal_tasks \<le> length (wf_tasks s)"
    using assms(2) by (simp add: work_max_active_tasks_def work_max_terminal_tasks_def)
  ultimately show ?thesis
    using assms(1-4) by (simp add: admit_intent_def dependency_creates_cycle_def terminal_tasks_def)
qed

end
