(* ===== verification/Work_Safety.thy ===== *)
theory Work_Safety
  imports Work_Bounds
begin

text \<open>
  What the work reducer guarantees about the projection: the cycle search decides reachability in
  the graph of dependencies and intents never close a cycle, and every record of a reachable
  projection obeys the lifecycle (no acceptance without an authorized decision, no settlement
  without verification, no completion without settlement).
\<close>

section \<open>The graph of dependencies\<close>

definition dependency_edges :: "work_task_record list \<Rightarrow> (string \<times> string) set" where
  "dependency_edges tasks = {(t, d). d \<in> set (next_dependencies tasks t)}"

lemma dependency_edges_iff:
  "(t, d) \<in> dependency_edges tasks \<longleftrightarrow>
     (\<exists>task\<in>set tasks. tk_task_id task = t \<and>
        (\<exists>p\<in>set (tk_proposals task). d \<in> set (ws_dependencies (pr_scope p))))"
  by (auto simp: dependency_edges_def next_dependencies_def)

text \<open>A path that leaves a set of visited nodes passes the frontier.\<close>

lemma path_leaves_visited:
  assumes "(v, t) \<in> E\<^sup>*" and "v \<in> V" and "t \<notin> V" and "\<And>x y. x \<in> V \<Longrightarrow> (x, y) \<in> E \<Longrightarrow> y \<in> V \<union> S"
  shows "\<exists>x\<in>S - V. (x, t) \<in> E\<^sup>*"
  using assms(1,2)
proof (induction rule: converse_rtrancl_induct)
  case base
  with assms(3) show ?case by simp
next
  case (step v w)
  then show ?case using assms(4) [of v w] by blast
qed

lemma cycle_search_iff:
  assumes "t \<notin> set visited"
    and "dependency_edges tasks `` set visited \<subseteq> set visited \<union> set stack"
  shows "cycle_search tasks t stack visited \<longleftrightarrow> (\<exists>x\<in>set stack. (x, t) \<in> (dependency_edges tasks)\<^sup>*)"
  using assms
proof (induction tasks t stack visited rule: cycle_search.induct)
  case (2 tasks t current stack visited)
  let ?E = "dependency_edges tasks"
  consider (found) "current = t" | (seen) "current \<noteq> t" "current \<in> set visited"
    | (new) "current \<noteq> t" "current \<notin> set visited" by blast
  then show ?case
  proof cases
    case found
    then show ?thesis by (auto simp: cycle_search.simps)
  next
    case seen
    have "?E `` set visited \<subseteq> set visited \<union> set stack"
      using 2(4) seen(2) by auto
    note IH = 2(1) [OF seen 2(3) this]
    have "\<exists>x\<in>set stack. (x, t) \<in> ?E\<^sup>*" if "(current, t) \<in> ?E\<^sup>*"
    proof -
      have "\<exists>x\<in>set (current # stack) - set visited. (x, t) \<in> ?E\<^sup>*"
        by (rule path_leaves_visited [OF that seen(2) 2(3)]) (use 2(4) in blast)
      with seen(2) show ?thesis by auto
    qed
    with IH seen show ?thesis by (auto simp: cycle_search.simps)
  next
    case new
    have edge: "(current, y) \<in> ?E \<longleftrightarrow> y \<in> set (next_dependencies tasks current)" for y
      by (simp add: dependency_edges_def)
    have frontier: "?E `` set (current # visited)
        \<subseteq> set (current # visited) \<union> set (rev (next_dependencies tasks current) @ stack)"
      using 2(4) edge by auto
    have "t \<notin> set (current # visited)" using new 2(3) by simp
    note IH = 2(2) [OF new this frontier]
    have "(current, t) \<in> ?E\<^sup>* \<longleftrightarrow> (\<exists>y\<in>set (next_dependencies tasks current). (y, t) \<in> ?E\<^sup>*)"
      using new(1) edge by (metis converse_rtranclE converse_rtrancl_into_rtrancl)
    with IH new show ?thesis by (auto simp: cycle_search.simps)
  qed
qed simp

lemma dependency_creates_cycle_iff:
  "dependency_creates_cycle tasks t deps \<longleftrightarrow>
     (\<exists>d\<in>set deps. d \<noteq> t \<and> (d, t) \<in> (dependency_edges tasks)\<^sup>*)"
proof -
  have "cycle_search tasks t [d] [] \<longleftrightarrow> (d, t) \<in> (dependency_edges tasks)\<^sup>*" for d
    using cycle_search_iff [of t "[]" tasks "[d]"] by simp
  then show ?thesis by (auto simp: dependency_creates_cycle_def list_ex_iff)
qed

lemma acyclic_add_star:
  assumes "acyclic E" and "\<And>d. d \<in> D \<Longrightarrow> (d, t) \<notin> E\<^sup>*"
  shows "acyclic (E \<union> {t} \<times> D)"
proof (rule acyclicI, rule allI, rule notI)
  fix x
  assume cycle: "(x, x) \<in> (E \<union> {t} \<times> D)\<^sup>+"
  have split: "(a, b) \<in> E\<^sup>+ \<or> (\<exists>d\<in>D. (a, t) \<in> E\<^sup>* \<and> (d, b) \<in> (E \<union> {t} \<times> D)\<^sup>*)"
    if "(a, b) \<in> (E \<union> {t} \<times> D)\<^sup>+" for a b
    using that
  proof (induction rule: converse_trancl_induct)
    case (base y)
    then show ?case by auto
  next
    case (step y z)
    from step(1) show ?case
    proof
      assume "(y, z) \<in> E"
      with step(3) show ?thesis
        by (metis converse_rtrancl_into_rtrancl trancl_into_trancl2)
    next
      assume "(y, z) \<in> {t} \<times> D"
      with step(2) show ?thesis by (auto intro: trancl_into_rtrancl)
    qed
  qed
  have out: "(d, b) \<in> E\<^sup>*" if "(d, b) \<in> (E \<union> {t} \<times> D)\<^sup>*" "d \<in> D" for d b
    using that(1)
  proof (induction rule: rtrancl_induct)
    case (step y z)
    from step(2) show ?case
    proof
      assume "(y, z) \<in> {t} \<times> D"
      with step(3) assms(2) [OF that(2)] show ?thesis by auto
    qed (use step(3) in auto)
  qed simp
  from split [OF cycle] show False
  proof
    assume "(x, x) \<in> E\<^sup>+"
    with assms(1) show False by (simp add: acyclic_def)
  next
    assume "\<exists>d\<in>D. (x, t) \<in> E\<^sup>* \<and> (d, x) \<in> (E \<union> {t} \<times> D)\<^sup>*"
    then obtain d where d: "d \<in> D" "(x, t) \<in> E\<^sup>*" "(d, x) \<in> (E \<union> {t} \<times> D)\<^sup>*" by blast
    with out [OF d(3,1)] have "(d, t) \<in> E\<^sup>*" by simp
    with assms(2) [OF d(1)] show False by simp
  qed
qed

section \<open>Intents never close a cycle\<close>

lemma displace_edges:
  "dependency_edges (wf_tasks (displace r i s)) \<subseteq> dependency_edges (wf_tasks s)"
proof
  fix e
  assume e: "e \<in> dependency_edges (wf_tasks (displace r i s))"
  obtain ti pi where i: "i = (ti, pi)" by fastforce
  let ?task = "wf_tasks s ! ti"
  let ?new = "?task\<lparr>tk_proposals := remove_at pi (tk_proposals ?task)\<rparr>"
  have tasks: "wf_tasks (displace r i s) = (wf_tasks s)[ti := ?new]"
    by (simp add: displace_def i Let_def push_evidence_record_def)
  show "e \<in> dependency_edges (wf_tasks s)"
  proof (cases "ti < length (wf_tasks s)")
    case True
    then have "?task \<in> set (wf_tasks s)" by simp
    moreover have "set (tk_proposals ?new) \<subseteq> set (tk_proposals ?task)"
      using set_remove_at [of pi] by simp
    moreover have "set (wf_tasks (displace r i s)) \<subseteq> insert ?new (set (wf_tasks s))"
      unfolding tasks by (rule set_update_subset_insert)
    ultimately show ?thesis
      using e by (cases e) (fastforce simp: dependency_edges_iff)
  qed (use e tasks in \<open>simp add: list_update_beyond\<close>)
qed

lemma fold_displace_edges:
  "dependency_edges (wf_tasks (fold (displace r) is s)) \<subseteq> dependency_edges (wf_tasks s)"
proof (induction "is" arbitrary: s)
  case (Cons i "is")
  then show ?case using displace_edges [of r i s] by fastforce
qed simp

lemma add_proposal_tasks:
  "task \<in> set (wf_tasks (add_proposal t c p s)) \<Longrightarrow>
     task \<in> set (wf_tasks s) \<or> tk_task_id task = t \<and>
       (tk_proposals task = [p] \<or> (\<exists>old\<in>set (wf_tasks s). tk_task_id old = t \<and>
          tk_proposals task = tk_proposals old @ [p]))"
  by (auto simp: add_proposal_def Let_def find_Some_iff split: option.splits
      dest!: set_update_subset_insert [THEN subsetD])

lemma add_proposal_edges:
  "dependency_edges (wf_tasks (add_proposal t c p s))
     \<subseteq> dependency_edges (wf_tasks s) \<union> {t} \<times> set (ws_dependencies (pr_scope p))"
  by (auto simp: dependency_edges_iff dest!: add_proposal_tasks)

lemma acyclic_edge_back:
  assumes "(d, t) \<in> E\<^sup>*" and "d \<in> D" and "E \<subseteq> F"
  shows "\<not> acyclic (F \<union> {t} \<times> D)"
proof -
  have "(d, t) \<in> (F \<union> {t} \<times> D)\<^sup>*"
    by (rule rtrancl_mono [THEN subsetD, OF _ assms(1)]) (use assms(3) in blast)
  then have "(t, t) \<in> (F \<union> {t} \<times> D)\<^sup>+"
    using assms(2) by (auto intro: rtrancl_into_trancl2)
  then show ?thesis by (auto simp: acyclic_def)
qed

lemma proposal_indices_edge:
  assumes "(ti, pi) \<in> set (proposal_indices tasks d (\<lambda>q. t \<in> set (ws_dependencies (pr_scope q))))"
  shows "(d, t) \<in> dependency_edges tasks"
  using assms by (fastforce simp: proposal_indices_def dependency_edges_iff)

lemma admit_intent_cycles:
  defines "new \<equiv> \<lambda>p. {wi_task_id p} \<times> set (wi_dependencies p)"
  assumes "acyclic (dependency_edges (wf_tasks s))"
  shows "acyclic (dependency_edges (wf_tasks (fst (admit_intent s c p))))"
    and "snd (admit_intent s c p) = OutEvidence DependencyCycle \<Longrightarrow>
      \<not> acyclic (dependency_edges (wf_tasks s) \<union> new p)"
    and "snd (admit_intent s c p) = OutEvidence SelfDependency \<Longrightarrow>
      wi_task_id p \<in> set (wi_dependencies p)"
proof -
  let ?E = "dependency_edges (wf_tasks s)"
  let ?mutual = "concat (map (\<lambda>d. proposal_indices (wf_tasks s) d
      (\<lambda>q. wi_task_id p \<in> set (ws_dependencies (pr_scope q)))) (wi_dependencies p))"
  let ?t = "fold (displace DependencyCycle) (rev ?mutual) s"
  let ?cycle = "dependency_creates_cycle (wf_tasks ?t) (wi_task_id p) (wi_dependencies p)"
  have sub: "dependency_edges (wf_tasks ?t) \<subseteq> ?E" by (rule fold_displace_edges)
  with assms(2) have t: "acyclic (dependency_edges (wf_tasks ?t))" by (simp add: acyclic_subset)
  have added: "acyclic (dependency_edges (wf_tasks
      (add_proposal (wi_task_id p) c (new_proposal c p) ?t)))"
    if "\<not> ?cycle" "wi_task_id p \<notin> set (wi_dependencies p)"
  proof (rule acyclic_subset)
    show "acyclic (dependency_edges (wf_tasks ?t) \<union> {wi_task_id p} \<times> set (wi_dependencies p))"
      using that by (intro acyclic_add_star t) (auto simp: dependency_creates_cycle_iff)
    show "dependency_edges (wf_tasks (add_proposal (wi_task_id p) c (new_proposal c p) ?t))
        \<subseteq> dependency_edges (wf_tasks ?t) \<union> {wi_task_id p} \<times> set (wi_dependencies p)"
      using add_proposal_edges [of "wi_task_id p" c "new_proposal c p" ?t]
      by (simp add: new_proposal_def Let_def)
  qed
  show "acyclic (dependency_edges (wf_tasks (fst (admit_intent s c p))))"
    using assms(2) t added by (simp add: admit_intent_def Let_def)
  have mutual: "\<not> acyclic (?E \<union> new p)" if "(ti, pi) \<in> set ?mutual" for ti pi
    using that proposal_indices_edge acyclic_edge_back [OF r_into_rtrancl, of _ "wi_task_id p" ?E]
    unfolding new_def by fastforce
  have cycle: "\<not> acyclic (?E \<union> new p)" if ?cycle
    using that acyclic_edge_back [OF _ _ sub] unfolding new_def
    by (auto simp: dependency_creates_cycle_iff)
  show "\<not> acyclic (?E \<union> new p)" if "snd (admit_intent s c p) = OutEvidence DependencyCycle"
    using that mutual cycle
    by (auto simp: admit_intent_def Let_def list_ex_iff simp del: set_concat split: if_splits)
  show "wi_task_id p \<in> set (wi_dependencies p)"
    if "snd (admit_intent s c p) = OutEvidence SelfDependency"
    using that by (auto simp: admit_intent_def Let_def split: if_splits)
qed

text \<open>
  C38. The cycle search of \<^verbatim>\<open>dependency_creates_cycle\<close> decides reachability, so an intent never
  closes a cycle of dependencies: from an acyclic projection every intent, whatever its outcome,
  leads to an acyclic one. An intent is turned away for a cycle only if its dependencies would
  close one, and for a self-dependency only if it names its own task.
\<close>

theorem intent_keeps_acyclic:
  assumes "acyclic (dependency_edges (wf_tasks s))"
  shows "(\<forall>tasks t deps. dependency_creates_cycle tasks t deps \<longleftrightarrow>
        (\<exists>d\<in>set deps. d \<noteq> t \<and> (d, t) \<in> (dependency_edges tasks)\<^sup>*))
    \<and> acyclic (dependency_edges (wf_tasks (fst (apply_intent s c p))))
    \<and> (snd (apply_intent s c p) = OutEvidence DependencyCycle \<longrightarrow>
        \<not> acyclic (dependency_edges (wf_tasks s) \<union> {wi_task_id p} \<times> set (wi_dependencies p)))
    \<and> (snd (apply_intent s c p) = OutEvidence SelfDependency \<longrightarrow>
        wi_task_id p \<in> set (wi_dependencies p))"
proof -
  define own where "own = proposal_indices (wf_tasks s) (wi_task_id p) (\<lambda>q. pr_agent q = wi_agent p)"
  define u where "u = fold (displace SequenceDecreased)
      (rev (filter (\<lambda>i. pr_sequence (case i of (ti, pi) \<Rightarrow> prop_at s ti pi) = wi_sequence p) own)) s"
  have "apply_intent s c p = admit_intent u c p \<or>
      apply_intent s c p \<in> {(s, OutApplied), (s, OutEvidence SequenceDecreased)}"
    by (simp add: apply_intent_def Let_def own_def [symmetric] u_def)
  moreover have sub: "dependency_edges (wf_tasks u) \<subseteq> dependency_edges (wf_tasks s)"
    unfolding u_def by (rule fold_displace_edges)
  moreover have u: "acyclic (dependency_edges (wf_tasks u))" using assms sub by (rule acyclic_subset)
  moreover have "\<not> acyclic (dependency_edges (wf_tasks s) \<union> {wi_task_id p} \<times> set (wi_dependencies p))"
    if "snd (admit_intent u c p) = OutEvidence DependencyCycle"
  proof
    assume "acyclic (dependency_edges (wf_tasks s) \<union> {wi_task_id p} \<times> set (wi_dependencies p))"
    then have "acyclic (dependency_edges (wf_tasks u) \<union> {wi_task_id p} \<times> set (wi_dependencies p))"
      by (rule acyclic_subset) (use sub in blast)
    with admit_intent_cycles(2) [OF u that] show False by simp
  qed
  ultimately show ?thesis
    using assms admit_intent_cycles(1,3) [OF u] dependency_creates_cycle_iff by auto
qed

definition sample_intent :: "string \<Rightarrow> string list \<Rightarrow> work_intent_profile" where
  "sample_intent t deps = \<lparr>wi_task_id = t, wi_agent = ''ann'', wi_sequence = 1, wi_causal_base = None,
     wi_coordinator = Some ''bob'', wi_paths = [''src/**''], wi_concerns = [], wi_dependencies = deps,
     wi_capabilities = []\<rparr>"

definition sample_candidate :: "string \<Rightarrow> string \<Rightarrow> work_profile \<Rightarrow> work_candidate" where
  "sample_candidate m from' profile =
     \<lparr>wk_message_id = m, wk_from = from', wk_profile = profile, wk_created_at_ms = 7\<rparr>"

theorem intent_keeps_acyclic_witness:
  "snd (apply_intent fresh (sample_candidate ''m1'' ''ann'' (WorkIntent (sample_intent ''a'' [''b''])))
      (sample_intent ''a'' [''b''])) = OutApplied
   \<and> acyclic (dependency_edges (wf_tasks (fst (apply_intent fresh
      (sample_candidate ''m1'' ''ann'' (WorkIntent (sample_intent ''a'' [''b''])))
      (sample_intent ''a'' [''b''])))))"
proof -
  have "acyclic (dependency_edges (wf_tasks fresh))"
    by (simp add: fresh_def dependency_edges_def next_dependencies_def acyclic_def)
  note acyclic = intent_keeps_acyclic [OF this]
  have "snd (apply_intent fresh (sample_candidate ''m1'' ''ann'' (WorkIntent (sample_intent ''a'' [''b''])))
      (sample_intent ''a'' [''b''])) = OutApplied" by code_simp
  with acyclic show ?thesis by blast
qed

section \<open>The lifecycle of a record\<close>

text \<open>
  A message id is the digest of its message, so it stands for one sender and one profile: \<open>M\<close> maps
  ids to them.
\<close>

type_synonym message_log = "string \<Rightarrow> string \<times> work_profile"

definition is_reject :: "work_decision_kind \<Rightarrow> bool" where
  "is_reject kind = (case kind of Reject _ \<Rightarrow> True | _ \<Rightarrow> False)"

definition evidence_ok ::
    "work_task_state \<Rightarrow> work_verification option \<Rightarrow> string option \<Rightarrow> string option \<Rightarrow> bool" where
  "evidence_ok st verification snapshot outcome \<longleftrightarrow>
     (verification \<noteq> None \<longleftrightarrow> st \<in> {Settled, Completed})
     \<and> (snapshot \<noteq> None \<longleftrightarrow> st \<in> {Settled, Completed})
     \<and> (outcome \<noteq> None \<longleftrightarrow> st = Completed)"

definition decision_ok :: "message_log \<Rightarrow> work_proposal_record \<Rightarrow> bool" where
  "decision_ok M p \<longleftrightarrow> (case pr_decision p of
     None \<Rightarrow> pr_state p = Proposed
   | Some d \<Rightarrow> pr_state p \<noteq> Proposed
       \<and> dr_coordinator d = authorized_coordinator p
       \<and> M (dr_message_id d) = (authorized_coordinator p,
           WorkDecision \<lparr>wd_proposal_message_id = pr_intent_message_id p, wd_kind = dr_kind d\<rparr>)
       \<and> (pr_state p = Rejected \<longleftrightarrow> is_reject (dr_kind d))
       \<and> (pr_source_message_id p = dr_message_id d \<longrightarrow> pr_state p \<in> {Accepted, Rejected}))"

definition restore_ok :: "message_log \<Rightarrow> work_proposal_record \<Rightarrow> bool" where
  "restore_ok M p \<longleftrightarrow> (\<forall>r. pr_author_restore p = Some r \<longrightarrow>
     author_target (snd (M (rs_source_message_id r))) \<noteq> None
     \<and> (rs_source_message_id r = pr_source_message_id p \<longrightarrow>
          rs_state r \<in> {Accepted, Yielded, Settled}
          \<and> evidence_ok (rs_state r) (rs_verification r) (rs_inspected_snapshot r) (rs_outcome r)
          \<and> (\<exists>d. pr_decision p = Some d \<and> \<not> is_reject (dr_kind d))))"

definition record_ok :: "message_log \<Rightarrow> work_proposal_record \<Rightarrow> bool" where
  "record_ok M p \<longleftrightarrow> decision_ok M p \<and> restore_ok M p
     \<and> evidence_ok (pr_state p) (pr_verification p) (pr_inspected_snapshot p) (pr_outcome p)"

lemmas record_ok_defs = record_ok_def decision_ok_def restore_ok_def evidence_ok_def

definition candidate_ok :: "message_log \<Rightarrow> work_candidate \<Rightarrow> bool" where
  "candidate_ok M c \<longleftrightarrow> M (wk_message_id c) = (wk_from c, wk_profile c)"

definition all_records :: "(work_proposal_record \<Rightarrow> bool) \<Rightarrow> work_state_file \<Rightarrow> bool" where
  "all_records R s \<longleftrightarrow> (\<forall>task\<in>set (wf_tasks s). \<forall>p\<in>set (tk_proposals task). R p)"

lemma new_proposal_ok: "record_ok M (new_proposal c p)"
  by (simp add: record_ok_defs new_proposal_def Let_def)

lemma decided_ok:
  assumes "record_ok M p" and "pr_state p = Proposed"
    and "M (wk_message_id c) = (authorized_coordinator p,
      WorkDecision \<lparr>wd_proposal_message_id = pr_intent_message_id p, wd_kind = kind\<rparr>)"
  shows "record_ok M (decided c (authorized_coordinator p) kind p)"
  using assms
  by (cases kind)
     (auto simp: record_ok_defs decided_def Let_def is_reject_def authorized_coordinator_def
       author_target_def split: option.splits)

lemma authorized_coordinator_cong:
  "pr_coordinator q = pr_coordinator p \<Longrightarrow> pr_agent q = pr_agent p \<Longrightarrow>
     authorized_coordinator q = authorized_coordinator p"
  by (simp add: authorized_coordinator_def split: option.split)

text \<open>What a decision tells about its record.\<close>

lemma record_ok_decision:
  assumes "record_ok M p" and "pr_decision p = Some d"
  shows "pr_state p \<noteq> Proposed" and "dr_coordinator d = authorized_coordinator p"
    and "M (dr_message_id d) = (authorized_coordinator p,
      WorkDecision \<lparr>wd_proposal_message_id = pr_intent_message_id p, wd_kind = dr_kind d\<rparr>)"
    and "pr_state p = Rejected \<longleftrightarrow> is_reject (dr_kind d)"
    and "pr_source_message_id p = dr_message_id d \<Longrightarrow> pr_state p \<in> {Accepted, Rejected}"
    and "author_target (snd (M (dr_message_id d))) = None"
  using assms unfolding record_ok_def decision_ok_def by (auto simp: author_target_def)

lemma record_ok_restore:
  assumes "record_ok M p" and "pr_author_restore p = Some r"
  shows "author_target (snd (M (rs_source_message_id r))) \<noteq> None"
  using assms unfolding record_ok_def restore_ok_def by blast

lemma record_ok_evidence:
  "record_ok M p \<Longrightarrow> evidence_ok (pr_state p) (pr_verification p) (pr_inspected_snapshot p) (pr_outcome p)"
  by (simp add: record_ok_def)

lemma undecided_ok:
  assumes "record_ok M p" and "pr_decision p = Some d" and "pr_source_message_id p = dr_message_id d"
  shows "record_ok M (p\<lparr>pr_decision := None, pr_state := Proposed, pr_scope := sc,
    pr_accepted_overlap := ov, pr_reason := re\<rparr>)"
proof -
  have st: "pr_state p \<in> {Accepted, Rejected}" using record_ok_decision(5) [OF assms] .
  have "rs_source_message_id r \<noteq> dr_message_id d" if "pr_author_restore p = Some r" for r
    using record_ok_restore [OF assms(1) that] record_ok_decision(6) [OF assms(1,2)]
    by auto
  then show ?thesis
    using st record_ok_evidence [OF assms(1)] record_ok_restore [OF assms(1)] assms(3)
    by (auto simp: record_ok_defs)
qed

lemma restore_author_ok:
  assumes "record_ok M p" and "pr_author_restore p = Some r"
    and "rs_source_message_id r = pr_source_message_id p"
  shows "record_ok M (restore_author r p)"
proof -
  from assms obtain d where d: "pr_decision p = Some d" "\<not> is_reject (dr_kind d)"
      and r: "rs_state r \<in> {Accepted, Yielded, Settled}"
        "evidence_ok (rs_state r) (rs_verification r) (rs_inspected_snapshot r) (rs_outcome r)"
    unfolding record_ok_def restore_ok_def by blast
  note dec = record_ok_decision [OF assms(1) d(1)]
  have src: "pr_source_message_id p \<noteq> dr_message_id d"
    using record_ok_restore [OF assms(1,2)] dec(6) assms(3) by auto
  have auth: "authorized_coordinator (restore_author r p) = authorized_coordinator p"
    by (rule authorized_coordinator_cong) (simp_all add: restore_author_def)
  have "decision_ok M (restore_author r p)"
    unfolding decision_ok_def auth using d dec(2,3) src r(1) by (auto simp: restore_author_def)
  then show ?thesis using r(2) by (simp add: record_ok_def restore_ok_def restore_author_def)
qed

lemma author_applied_fields:
  "pr_decision (author_applied c profile seq p) = pr_decision p"
  "pr_coordinator (author_applied c profile seq p) = pr_coordinator p"
  "pr_agent (author_applied c profile seq p) = pr_agent p"
  "pr_intent_message_id (author_applied c profile seq p) = pr_intent_message_id p"
  "pr_source_message_id (author_applied c profile seq p) = wk_message_id c"
  "\<exists>r. pr_author_restore (author_applied c profile seq p) = Some r
     \<and> rs_source_message_id r = wk_message_id c \<and> rs_state r = pr_state p
     \<and> rs_verification r = pr_verification p \<and> rs_inspected_snapshot r = pr_inspected_snapshot p
     \<and> rs_outcome r = pr_outcome p"
  by (simp_all add: author_applied_def author_effect_def split: work_profile.split)

lemma author_applied_evidence:
  fixes c :: work_candidate and seq :: u64
  assumes "evidence_ok (pr_state p) (pr_verification p) (pr_inspected_snapshot p) (pr_outcome p)"
    and "author_target profile \<noteq> None"
    and "transition_rejection (Some (pr_state p)) profile = None"
  defines "q \<equiv> author_applied c profile seq p"
  shows "pr_state q \<notin> {Proposed, Rejected}
    \<and> evidence_ok (pr_state q) (pr_verification q) (pr_inspected_snapshot q) (pr_outcome q)"
  using assms(1-3) unfolding q_def author_applied_def author_effect_def
  by (cases profile)
     (auto simp: evidence_ok_def transition_rejection_def require_state_def author_target_def
       split: if_splits)

lemma author_applied_ok:
  assumes "record_ok M p" and "author_target profile \<noteq> None"
    and "transition_rejection (Some (pr_state p)) profile = None"
    and "M (wk_message_id c) = (from', profile)"
  shows "record_ok M (author_applied c profile seq p)" (is "record_ok M ?q")
proof -
  have st: "pr_state p \<in> {Accepted, Yielded, Settled}"
    using assms(2,3) by (auto simp: transition_rejection_def require_state_def author_target_def
        split: work_profile.splits if_splits)
  then obtain d where d: "pr_decision p = Some d"
    using assms(1) by (auto simp: record_ok_def decision_ok_def split: option.splits)
  note dec = record_ok_decision [OF assms(1) d]
  have id: "wk_message_id c \<noteq> dr_message_id d"
    using dec(6) assms(2,4) by auto
  have rej: "\<not> is_reject (dr_kind d)" using dec(4) st by auto
  have ev: "pr_state ?q \<notin> {Proposed, Rejected}"
      "evidence_ok (pr_state ?q) (pr_verification ?q) (pr_inspected_snapshot ?q) (pr_outcome ?q)"
    using author_applied_evidence [OF record_ok_evidence [OF assms(1)] assms(2,3)] by auto
  have auth: "authorized_coordinator ?q = authorized_coordinator p"
    by (rule authorized_coordinator_cong) (simp_all add: author_applied_fields)
  have "decision_ok M ?q"
    unfolding decision_ok_def auth author_applied_fields d using dec(2,3) id rej ev(1) by auto
  moreover have "restore_ok M ?q"
    unfolding restore_ok_def author_applied_fields(1,5) d
    using author_applied_fields(6) [of c profile seq p] st rej assms(2,4) record_ok_evidence [OF assms(1)]
    by auto
  ultimately show ?thesis using ev(2) by (simp add: record_ok_def)
qed

lemma superseded_ok:
  assumes "record_ok M p" and "pr_state p \<in> {Accepted, Rejected}"
    and "M (wk_message_id c) = (from', WorkSuperseded profile)"
  shows "record_ok M (superseded c profile p)"
proof -
  have "rs_source_message_id r \<noteq> wk_message_id c" if "pr_author_restore p = Some r" for r
    using record_ok_restore [OF assms(1) that] assms(3) by (auto simp: author_target_def)
  then show ?thesis
    using assms(2) record_ok_evidence [OF assms(1)] record_ok_restore [OF assms(1)]
    by (auto simp: record_ok_defs superseded_def)
qed

section \<open>Every record of a reachable projection\<close>

lemma first_some_eq_Some: "first_some f xs = Some y \<Longrightarrow> \<exists>x\<in>set xs. f x = Some y"
  by (induction xs) (auto split: option.splits)

lemma find_proposal_from_Some:
  "find_proposal_from ti p task = Some (ti', pi) \<Longrightarrow>
     ti' = ti \<and> pi < length (tk_proposals task) \<and> p (tk_proposals task ! pi)"
  by (auto simp: find_proposal_from_def find_Some_iff)

lemma find_proposal_mut_Some:
  assumes "find_proposal_mut (wf_tasks s) t m = Some (ti, pi)"
  shows "ti < length (wf_tasks s) \<and> pi < length (tk_proposals (wf_tasks s ! ti))
    \<and> pr_intent_message_id (prop_at s ti pi) = m"
  using assms unfolding find_proposal_mut_def prop_at_def
  by (auto dest!: first_some_eq_Some find_proposal_from_Some split: if_splits)

lemma find_proposal_by_intent_index_Some:
  assumes "find_proposal_by_intent_index (wf_tasks s) m = Some (ti, pi)"
  shows "ti < length (wf_tasks s) \<and> pi < length (tk_proposals (wf_tasks s ! ti))
    \<and> pr_intent_message_id (prop_at s ti pi) = m"
  using assms unfolding find_proposal_by_intent_index_def prop_at_def
  by (auto dest!: first_some_eq_Some find_proposal_from_Some)

lemma all_records_prop_at:
  "all_records R s \<Longrightarrow> ti < length (wf_tasks s) \<Longrightarrow> pi < length (tk_proposals (wf_tasks s ! ti)) \<Longrightarrow>
     R (prop_at s ti pi)"
  unfolding all_records_def prop_at_def by (metis nth_mem)

lemma all_records_update:
  assumes "all_records R s" and "R (f (prop_at s ti pi))"
  shows "all_records R (update_prop ti pi f s)"
proof (cases "ti < length (wf_tasks s)")
  case True
  let ?task = "wf_tasks s ! ti"
  have old: "R p" if "p \<in> set (tk_proposals ?task)" for p
    using assms(1) True that by (auto simp: all_records_def)
  have "R p" if "p \<in> set ((tk_proposals ?task)[pi := f (tk_proposals ?task ! pi)])" for p
    using set_update_subset_insert [THEN subsetD, OF that] old assms(2) by (auto simp: prop_at_def)
  then show ?thesis
    using assms(1) by (auto simp: all_records_def update_prop_def Let_def
        dest!: set_update_subset_insert [THEN subsetD])
qed (use assms(1) in \<open>simp add: update_prop_def Let_def all_records_def list_update_beyond\<close>)

lemma prop_at_update [simp]:
  "ti < length (wf_tasks s) \<Longrightarrow> pi < length (tk_proposals (wf_tasks s ! ti)) \<Longrightarrow>
     prop_at (update_prop ti pi f s) ti pi = f (prop_at s ti pi)"
  by (simp add: prop_at_def update_prop_def Let_def)

lemma evidence_tasks [simp]:
  "prop_at (push_evidence_record m t r s) = prop_at s"
  "all_records R (push_evidence_record m t r s) = all_records R s"
  by (simp_all add: prop_at_def all_records_def fun_eq_iff)

lemma all_records_displace: "all_records R s \<Longrightarrow> all_records R (fold (displace r) is s)"
proof (induction "is" arbitrary: s)
  case (Cons i "is")
  obtain ti pi where i: "i = (ti, pi)" by fastforce
  let ?task = "wf_tasks s ! ti"
  have "all_records R (displace r i s)"
  proof (cases "ti < length (wf_tasks s)")
    case True
    then have "\<forall>p\<in>set (remove_at pi (tk_proposals ?task)). R p"
      using Cons.prems set_remove_at [of pi "tk_proposals ?task"] unfolding all_records_def
      by (metis nth_mem subsetD)
    with Cons.prems show ?thesis
      by (auto simp: displace_def i Let_def push_evidence_record_def all_records_def
          dest!: set_update_subset_insert [THEN subsetD])
  qed (use Cons.prems in
      \<open>simp add: displace_def i Let_def push_evidence_record_def all_records_def list_update_beyond\<close>)
  then show ?case using Cons.IH by simp
qed simp

lemma all_records_add: "all_records R s \<Longrightarrow> R p \<Longrightarrow> all_records R (add_proposal t c p s)"
  unfolding all_records_def by (auto dest!: add_proposal_tasks)

lemma apply_intent_ok: "all_records (record_ok M) s \<Longrightarrow> all_records (record_ok M) (fst (apply_intent s c p))"
  by (simp add: apply_intent_def admit_intent_def Let_def all_records_displace all_records_add
      new_proposal_ok)

lemma unwind_decision_ok:
  assumes "all_records (record_ok M) s" and "ti < length (wf_tasks s)"
    and "pi < length (tk_proposals (wf_tasks s ! ti))" and "unwind_decision s c ti pi = Inr t"
  shows "all_records (record_ok M) t \<and> pr_state (prop_at t ti pi) = Proposed
    \<and> record_ok M (prop_at t ti pi)
    \<and> pr_intent_message_id (prop_at t ti pi) = pr_intent_message_id (prop_at s ti pi)
    \<and> authorized_coordinator (prop_at t ti pi) = authorized_coordinator (prop_at s ti pi)"
proof (cases "pr_state (prop_at s ti pi) = Proposed")
  case True
  then show ?thesis
    using assms all_records_prop_at by (auto simp: unwind_decision_def)
next
  case False
  have ok: "record_ok M (prop_at s ti pi)" using all_records_prop_at [OF assms(1-3)] .
  from False assms(4) obtain d sc ov re m k where d: "pr_decision (prop_at s ti pi) = Some d"
      "pr_source_message_id (prop_at s ti pi) = dr_message_id d"
      and t: "t = update_prop ti pi (\<lambda>r. r\<lparr>pr_decision := None, pr_state := Proposed, pr_scope := sc,
        pr_accepted_overlap := ov, pr_reason := re\<rparr>) (push_evidence_record m k DecisionAlreadyApplied s)"
    by (auto simp: unwind_decision_def Let_def split: option.splits if_splits)
  note un = undecided_ok [OF ok d, where sc = sc and ov = ov and re = re]
  have at: "prop_at t ti pi = (prop_at s ti pi)\<lparr>pr_decision := None, pr_state := Proposed,
      pr_scope := sc, pr_accepted_overlap := ov, pr_reason := re\<rparr>"
    using assms(2,3) by (simp add: t)
  have "authorized_coordinator (prop_at t ti pi) = authorized_coordinator (prop_at s ti pi)"
    unfolding at by (rule authorized_coordinator_cong) simp_all
  moreover have "all_records (record_ok M) t"
    unfolding t using assms(1) un by (intro all_records_update) simp_all
  ultimately show ?thesis using un at by simp
qed

lemma apply_decision_ok:
  assumes "all_records (record_ok M) s" and "M (wk_message_id c) = (wk_from c, WorkDecision profile)"
  shows "all_records (record_ok M) (fst (apply_decision s c profile))"
proof (cases "find_proposal_by_intent_index (wf_tasks s) (wd_proposal_message_id profile)")
  case None
  with assms(1) show ?thesis by (simp add: apply_decision_def)
next
  case (Some i)
  obtain ti pi where i: "i = (ti, pi)" by fastforce
  note at = find_proposal_by_intent_index_Some [OF Some [unfolded i]]
  show ?thesis
  proof (cases "wk_from c = authorized_coordinator (prop_at s ti pi)")
    case False
    with assms(1) Some show ?thesis by (simp add: apply_decision_def i)
  next
    case from': True
    show ?thesis
    proof (cases "unwind_decision s c ti pi")
      case (Inl out)
      with assms(1) Some from' show ?thesis by (simp add: apply_decision_def i)
    next
      case (Inr t)
      note un = unwind_decision_ok [OF assms(1) _ _ Inr]
      have "record_ok M (decided c (authorized_coordinator (prop_at t ti pi)) (wd_kind profile)
          (prop_at t ti pi))"
        using un at assms(2) from' by (intro decided_ok) auto
      then show ?thesis
        using un at Some from' Inr
        by (auto simp: apply_decision_def i all_records_update split: option.split)
    qed
  qed
qed

lemma unwind_author_ok:
  assumes "all_records (record_ok M) s" and "ti < length (wf_tasks s)"
    and "pi < length (tk_proposals (wf_tasks s ! ti))" and "unwind_author s c ti pi k seq = Inr t"
  shows "all_records (record_ok M) t \<and> record_ok M (prop_at t ti pi)"
proof -
  have ok: "record_ok M (prop_at s ti pi)" using all_records_prop_at [OF assms(1-3)] .
  show ?thesis
  proof (cases "t = s")
    case False
    with assms(4) obtain r m where r: "pr_author_restore (prop_at s ti pi) = Some r"
        "rs_source_message_id r = pr_source_message_id (prop_at s ti pi)"
        and t: "t = update_prop ti pi (restore_author r) (push_evidence_record m k SequenceDecreased s)"
      by (auto simp: unwind_author_def Let_def split: option.splits if_splits)
    note restored = restore_author_ok [OF ok r]
    have "all_records (record_ok M) t"
      unfolding t using assms(1) restored by (intro all_records_update) simp_all
    then show ?thesis using restored assms(2,3) by (simp add: t)
  qed (use assms(1) ok in simp)
qed

lemma apply_author_ok:
  assumes "all_records (record_ok M) s" and "M (wk_message_id c) = (wk_from c, profile)"
  shows "all_records (record_ok M) (fst (apply_author_transition s c profile))"
proof (cases "author_target profile")
  case None
  with assms(1) show ?thesis by (simp add: apply_author_transition_def)
next
  case (Some target)
  obtain k m seq where target: "target = (k, m, seq)" by (metis prod_cases3)
  show ?thesis
  proof (cases "find_proposal_mut (wf_tasks s) k m")
    case None
    with assms(1) Some show ?thesis by (simp add: apply_author_transition_def target)
  next
    case found: (Some i)
    obtain ti pi where i: "i = (ti, pi)" by fastforce
    note at = find_proposal_mut_Some [OF found [unfolded i]]
    show ?thesis
    proof (cases "unwind_author s c ti pi k seq")
      case (Inl out)
      with assms(1) Some found show ?thesis by (simp add: apply_author_transition_def target i)
    next
      case (Inr t)
      from unwind_author_ok [OF assms(1) _ _ Inr] at
      have t: "all_records (record_ok M) t" "record_ok M (prop_at t ti pi)" by auto
      have "all_records (record_ok M) (update_prop ti pi (author_applied c profile seq) t)"
        if "transition_rejection (Some (pr_state (prop_at t ti pi))) profile = None"
        using t Some that assms(2) by (intro all_records_update author_applied_ok) auto
      with Some found Inr t show ?thesis
        by (auto simp: apply_author_transition_def target i Let_def split: option.split)
    qed
  qed
qed

lemma apply_superseded_ok:
  assumes "all_records (record_ok M) s" and "M (wk_message_id c) = (wk_from c, WorkSuperseded profile)"
  shows "all_records (record_ok M) (fst (apply_superseded s c profile))"
proof (cases "find_proposal_mut (wf_tasks s) (wu_task_id profile) (wu_proposal_message_id profile)")
  case None
  with assms(1) show ?thesis by (simp add: apply_superseded_def)
next
  case (Some i)
  obtain ti pi where i: "i = (ti, pi)" by fastforce
  note at = find_proposal_mut_Some [OF Some [unfolded i]]
  then have "record_ok M (prop_at s ti pi)" using all_records_prop_at [OF assms(1)] by blast
  then have "all_records (record_ok M) (update_prop ti pi (superseded c profile) s)"
    if "pr_state (prop_at s ti pi) \<in> {Accepted, Rejected}"
    using that assms by (intro all_records_update superseded_ok) auto
  with Some assms(1) show ?thesis
    by (auto simp: apply_superseded_def i Let_def split: option.split)
qed

lemma apply_transition_ok:
  assumes "all_records (record_ok M) s" and "candidate_ok M c"
  shows "all_records (record_ok M) (fst (apply_transition s c))"
  using assms
  by (cases "wk_profile c")
     (simp_all add: apply_transition_def candidate_ok_def apply_intent_ok apply_decision_ok
       apply_author_ok apply_superseded_ok)

definition projection_ok :: "message_log \<Rightarrow> work_state_file \<Rightarrow> bool" where
  "projection_ok M s \<longleftrightarrow> all_records (record_ok M) s
     \<and> (\<forall>pd\<in>set (wf_pending s). candidate_ok M (pending_candidate pd))"

lemma settle_candidate_ok:
  assumes "all_records (record_ok M) s" and "candidate_ok M c"
  shows "all_records (record_ok M) (fst (settle_candidate s c))
    \<and> wf_pending (fst (settle_candidate s c)) = wf_pending s"
proof -
  obtain t out where t: "apply_transition s c = (t, out)" by fastforce
  then have "wf_pending t = wf_pending s"
    using apply_transition_grows [of s c] by (simp add: grows_within_def same_books_def)
  moreover
  have "all_records (record_ok M) t" using apply_transition_ok [OF assms] t by simp
  ultimately show ?thesis
    using t by (cases out)
      (auto simp: settle_candidate_def all_records_def push_evidence_def push_evidence_record_def
        split: prod.splits)
qed

lemma apply_pass_ok:
  assumes "apply_pass s cs n = (t, progressed, rest, m)" and "all_records (record_ok M) s"
    and "\<forall>c\<in>set cs. candidate_ok M c"
  shows "all_records (record_ok M) t \<and> set rest \<subseteq> set cs \<and> wf_pending t = wf_pending s"
  using assms
proof (induction s cs n arbitrary: t progressed rest m rule: apply_pass.induct)
  case (2 s c cs n)
  obtain u out where u: "settle_candidate s c = (u, out)" by fastforce
  obtain t' p' r' m' where rec: "apply_pass u cs (if out = OutPending then n else Suc n) = (t', p', r', m')"
    by (metis prod_cases4)
  have "all_records (record_ok M) u" "wf_pending u = wf_pending s"
    using settle_candidate_ok [of M s c] 2(3,4) u by simp_all
  then show ?case
    using 2(1) [OF u [symmetric] HOL.refl rec] 2(2,4) u rec by (auto split: if_splits)
qed simp

lemma batch_loop_ok:
  assumes "batch_loop s cs n = (t, rest, m)" and "all_records (record_ok M) s"
    and "\<forall>c\<in>set cs. candidate_ok M c"
  shows "all_records (record_ok M) t \<and> set rest \<subseteq> set cs \<and> wf_pending t = wf_pending s"
  using assms
proof (induction s cs n rule: batch_loop.induct)
  case (1 s cs n)
  obtain t' p' r' m' where pass: "apply_pass s cs n = (t', p', r', m')" by (metis prod_cases4)
  note ok = apply_pass_ok [OF pass 1(3,4)]
  show ?case
  proof (cases "\<not> p' \<or> r' = []")
    case True
    with 1(2) pass ok show ?thesis by (subst (asm) batch_loop.simps) auto
  next
    case False
    with 1(2) pass have rec: "batch_loop t' r' m' = (t, rest, m)"
      by (subst (asm) batch_loop.simps) auto
    have "\<forall>c\<in>set r'. candidate_ok M c" using ok 1(4) by blast
    from 1(1) [OF pass [symmetric] HOL.refl HOL.refl HOL.refl False rec _ this] ok
    show ?thesis by auto
  qed
qed

lemma push_pending_ok:
  assumes "projection_ok M s" and "candidate_ok M c"
  shows "projection_ok M (push_pending s c)"
proof -
  let ?s = "s\<lparr>wf_pending := wf_pending s @
    [\<lparr>pd_message_id = wk_message_id c, pd_from = wk_from c, pd_profile = wk_profile c,
      pd_created_at_ms = wk_created_at_ms c\<rparr>]\<rparr>"
  have "wf_tasks (push_pending s c) = wf_tasks s"
    and "set (wf_pending (push_pending s c)) \<subseteq> set (wf_pending ?s)"
    using trim_pending_props [of ?s] by (simp_all add: push_pending_def)
  then show ?thesis
    using assms by (auto simp: projection_ok_def all_records_def candidate_ok_def pending_candidate_def)
qed

lemma fold_push_pending_ok:
  "projection_ok M s \<Longrightarrow> \<forall>c\<in>set cs. candidate_ok M c \<Longrightarrow>
     projection_ok M (fold (\<lambda>c s. push_pending s c) cs s)"
  by (induction cs arbitrary: s) (auto simp: push_pending_ok)

lemma trim_proposal_ok: "record_ok M p \<Longrightarrow> record_ok M (snd (trim_proposal inc p))"
proof -
  assume ok: "record_ok M p"
  obtain inc' as where "trim_amendments (pr_state p) inc (pr_amendments p) = (inc', as)" by fastforce
  then have eq: "snd (trim_proposal inc p) = p\<lparr>pr_amendments := as\<rparr>" by (simp add: trim_proposal_def)
  have "authorized_coordinator (p\<lparr>pr_amendments := as\<rparr>) = authorized_coordinator p"
    by (rule authorized_coordinator_cong) simp_all
  with ok show ?thesis unfolding eq
    by (auto simp: record_ok_def decision_ok_def restore_ok_def split: option.splits)
qed

lemma maintain_bounds_ok:
  assumes "maintain_bounds s = Some t" and "projection_ok M s"
  shows "projection_ok M t"
proof -
  obtain inc tasks where m: "map_accum trim_task (wf_incomplete s) (wf_tasks s) = (inc, tasks)"
    by fastforce
  with assms(1) obtain tasks' where ev: "evict_terminal tasks = Some tasks'"
      and t: "wf_tasks t = tasks'" "wf_pending t = wf_pending s"
    by (auto simp: maintain_bounds_def split: option.splits)
  have "record_ok M p" if "task \<in> set tasks" "p \<in> set (tk_proposals task)" for task p
  proof -
    have "task \<in> set (snd (map_accum trim_task (wf_incomplete s) (wf_tasks s)))" using that m by simp
    then obtain i old where old: "old \<in> set (wf_tasks s)" "task = snd (trim_task i old)"
      by (rule map_accum_in_set)
    obtain i1 ps where ps: "trim_proposals i (tk_proposals old) = (i1, ps)" by fastforce
    have "p \<in> set (snd (map_accum trim_proposal i1 ps))"
      using that(2) ps by (simp add: old(2) trim_task_def split: prod.splits)
    then obtain i2 q where q: "q \<in> set ps" "p = snd (trim_proposal i2 q)" by (rule map_accum_in_set)
    have "q \<in> set (tk_proposals old)"
      using trim_proposals_props [of i "tk_proposals old"] ps q(1) by auto
    then have "record_ok M q" using assms(2) old(1) by (auto simp: projection_ok_def all_records_def)
    then show ?thesis unfolding q(2) by (rule trim_proposal_ok)
  qed
  then show ?thesis
    using evict_terminal_props [OF ev] assms(2) t by (auto simp: projection_ok_def all_records_def)
qed

definition message_ok :: "prims \<Rightarrow> work_json \<Rightarrow> message_log \<Rightarrow> agent_message \<Rightarrow> bool" where
  "message_ok P J M m \<longleftrightarrow> (\<forall>profile. parse_work_profile P J (am_body m) = Some profile \<longrightarrow>
     M (am_message_id m) = (am_from m, profile))"

lemma apply_batch_ok:
  assumes "apply_batch P J s messages rebuild = Some (t, n)" and "projection_ok M s"
    and "\<forall>m\<in>set messages. message_ok P J M m"
  shows "projection_ok M t"
proof -
  define s0 where "s0 = (if rebuild then fresh else s)"
  define s1 where "s1 = s0\<lparr>wf_seen := fold (\<lambda>m seen. insert_seen seen (am_message_id m)) messages
      (wf_seen s0)\<rparr>"
  define cs where "cs = sort_by (\<lambda>a b. wk_message_id a \<le> wk_message_id b)
      (map pending_candidate (wf_pending s1) @ List.map_filter (message_candidate P J) messages)"
  obtain u rest k where loop: "batch_loop (s1\<lparr>wf_pending := []\<rparr>) cs 0 = (u, rest, k)"
    by (metis prod_cases3)
  have bounds: "maintain_bounds (fold (\<lambda>c s. push_pending s c) rest u) = Some t"
    using assms(1) loop unfolding apply_batch_def s0_def [symmetric] Let_def s1_def [symmetric]
      cs_def [symmetric] by auto
  have ok0: "projection_ok M s0"
    using assms(2) by (simp add: s0_def projection_ok_def all_records_def fresh_def)
  have "candidate_ok M c" if "m \<in> set messages" "message_candidate P J m = Some c" for m c
    using assms(3) that by (auto simp: message_candidate_def candidate_ok_def message_ok_def)
  then have cs: "\<forall>c\<in>set cs. candidate_ok M c"
    using ok0 by (auto simp: cs_def s1_def projection_ok_def List.map_filter_def)
  have "all_records (record_ok M) (s1\<lparr>wf_pending := []\<rparr>)"
    using ok0 by (simp add: s1_def projection_ok_def all_records_def)
  from batch_loop_ok [OF loop this cs] cs
  have "projection_ok M u" "\<forall>c\<in>set rest. candidate_ok M c" by (auto simp: projection_ok_def)
  from maintain_bounds_ok [OF bounds fold_push_pending_ok [OF this]] show ?thesis .
qed

inductive work_reachable :: "prims \<Rightarrow> work_json \<Rightarrow> message_log \<Rightarrow> work_state_file \<Rightarrow> bool"
  for P :: prims and J :: work_json and M :: message_log where
  initial: "work_reachable P J M fresh"
| batch: "work_reachable P J M s \<Longrightarrow> \<forall>m\<in>set messages. message_ok P J M m \<Longrightarrow>
     apply_batch P J s messages rebuild = Some (t, n) \<Longrightarrow> work_reachable P J M t"

lemma reachable_projection_ok: "work_reachable P J M s \<Longrightarrow> projection_ok M s"
proof (induction rule: work_reachable.induct)
  case initial
  show ?case by (simp add: projection_ok_def all_records_def fresh_def)
next
  case (batch s messages rebuild t n)
  then show ?case by (blast intro: apply_batch_ok)
qed


definition intent_id :: string where "intent_id = replicate 64 CHR ''a''"
definition decision_id :: string where "decision_id = replicate 64 CHR ''b''"

definition sample_decision :: work_decision_profile where
  "sample_decision = \<lparr>wd_proposal_message_id = intent_id, wd_kind = Accept None\<rparr>"

definition story_json :: work_json where
  "story_json =
     \<lparr>profile_to_json = (\<lambda>q. if q = WorkIntent (sample_intent ''a'' []) then Some ''{i}''
        else if q = WorkDecision sample_decision then Some ''{d}'' else None),
      profile_from_json = (\<lambda>s. if s = ''{i}'' then Some (WorkIntent (sample_intent ''a'' []))
        else if s = ''{d}'' then Some (WorkDecision sample_decision) else None),
      scr_to_json = (\<lambda>_. None), scr_from_json = (\<lambda>_. None)\<rparr>"

definition story_log :: message_log where
  "story_log m = (if m = intent_id then (''ann'', WorkIntent (sample_intent ''a'' []))
     else (''bob'', WorkDecision sample_decision))"

definition story :: "agent_message list" where
  "story = [work_message decision_id ''bob'' ''ffwork1:{d}'' 2,
     work_message intent_id ''ann'' ''ffwork1:{i}'' 1]"

definition story_state :: work_state_file where
  "story_state = fst (the (apply_batch sample_prims story_json fresh story False))"

definition story_record :: work_proposal_record where
  "story_record = prop_at story_state 0 0"


section \<open>Behaviour at the edges\<close>

text \<open>
  The lemmas of this section record what the reducer does where its documentation says otherwise
  or where the effect is surprising.
\<close>

text \<open>A narrowing decision may name a directory glob above an exact path of the scope.\<close>

lemma narrow_may_widen:
  "narrow_within_scope \<lparr>ws_paths = [''s/a''], ws_concerns = [], ws_dependencies = []\<rparr> [''s/**''] []
   \<and> \<not> scope_covers_path \<lparr>ws_paths = [''s/a''], ws_concerns = [], ws_dependencies = []\<rparr> ''s/b''
   \<and> scope_covers_path \<lparr>ws_paths = [''s/**''], ws_concerns = [], ws_dependencies = []\<rparr> ''s/b''"
  by code_simp

text \<open>The author named by an intent is not compared with its sender.\<close>

lemma intent_sender_unchecked:
  "let (s, out) = apply_intent fresh
      (sample_candidate ''m1'' ''eve'' (WorkIntent (sample_intent ''a'' []))) (sample_intent ''a'' [])
   in out = OutApplied \<and> pr_agent (prop_at s 0 0) = ''ann''"
  by code_simp

text \<open>
  A smaller fork of an intent removes the applied record before its own causal base is checked, so
  a fork that stays pending leaves the task without a record.
\<close>

definition applied_once :: work_state_file where
  "applied_once = fst (apply_intent fresh
     (sample_candidate ''m5'' ''ann'' (WorkIntent (sample_intent ''a'' []))) (sample_intent ''a'' []))"

definition based_intent :: work_intent_profile where
  "based_intent = (sample_intent ''a'' [])\<lparr>wi_causal_base := Some ''unknown''\<rparr>"

lemma pending_fork_displaces:
  "length (tk_proposals (wf_tasks applied_once ! 0)) = 1
   \<and> apply_intent applied_once (sample_candidate ''m1'' ''ann'' (WorkIntent based_intent)) based_intent
     = (fold (displace SequenceDecreased) [(0, 0)] applied_once, OutPending)
   \<and> tk_proposals (wf_tasks (fold (displace SequenceDecreased) [(0, 0)] applied_once) ! 0) = []"
  by code_simp

text \<open>An amendment may add a dependency that closes a cycle.\<close>

definition amended_tasks :: "work_task_record list" where
  "amended_tasks =
     [\<lparr>tk_task_id = ''a'', tk_proposals = [(sample_proposal 1 Proposed)
         \<lparr>pr_scope := \<lparr>ws_paths = [], ws_concerns = [], ws_dependencies = [''b'']\<rparr>\<rparr>],
       tk_updated_at_ms = 0\<rparr>,
      \<lparr>tk_task_id = ''b'', tk_proposals = [(sample_proposal 1 Accepted)
         \<lparr>pr_intent_message_id := ''n'', pr_decision := Some \<lparr>dr_message_id = ''d'',
            dr_coordinator = ''a'', dr_kind = Accept None, dr_ordered_after = None,
            dr_restore = None\<rparr>\<rparr>],
       tk_updated_at_ms = 0\<rparr>]"

definition closing_amendment :: work_amendment_profile where
  "closing_amendment = \<lparr>wa_task_id = ''b'', wa_intent_message_id = ''n'', wa_sequence = 2,
     wa_paths = None, wa_concerns = None, wa_dependencies = Some [''a''],
     wa_approval_decision_id = Some ''d'', wa_reason = None\<rparr>"

lemma amendment_closes_cycle:
  "let (s, out) = apply_author_transition (fresh\<lparr>wf_tasks := amended_tasks\<rparr>)
      (sample_candidate ''x'' ''a'' (WorkAmendment closing_amendment)) (WorkAmendment closing_amendment)
   in out = OutApplied \<and> next_dependencies (wf_tasks s) ''a'' = [''b'']
      \<and> next_dependencies (wf_tasks s) ''b'' = [''a'']"
  by code_simp

text \<open>A transition that was evidenced is evidenced again when it is delivered again.\<close>

lemma redelivery_adds_evidence:
  "let c = sample_candidate ''m9'' ''eve''
         (WorkDecision \<lparr>wd_proposal_message_id = ''m5'', wd_kind = Accept None\<rparr>);
       s = fst (settle_candidate applied_once c)
   in length (wf_evidence s) = 1 \<and> length (wf_evidence (fst (settle_candidate s c))) = 2"
  by code_simp

end
