(* ===== verification/Integrator_Contract.thy ===== *)
theory Integrator_Contract
  imports Work_Contract Stable_Sort
begin

text \<open>
  The contract of integrator assignment (\<^verbatim>\<open>common/src/integrator_contract.rs\<close>): the roster and its
  eligibility filter, the auditable ranking by hash, the digests and the \<^verbatim>\<open>ffint1\<close> profiles that
  dispatcher and candidates exchange. JSON is a parameter, the random bytes of a draw are arguments.
  The theorem is what makes the draw auditable: who may be drawn, and that the order depends on the
  roster as a set and on the seeds only.
\<close>

section \<open>Bounds and records\<close>

definition integrator_algorithm_version :: string where
  "integrator_algorithm_version = ''feanorfs-integrator-selection-v1''"

definition integrator_profile_discriminator :: string where
  "integrator_profile_discriminator = ''ffint1''"

definition integrator_max_candidates :: nat where "integrator_max_candidates = 64"
definition integrator_max_capabilities :: nat where "integrator_max_capabilities = 64"
definition integrator_capability_max_bytes :: nat where "integrator_capability_max_bytes = 32"
definition integrator_max_task_summary_bytes :: nat where "integrator_max_task_summary_bytes = 1024"
definition integrator_max_authors :: nat where "integrator_max_authors = 32"
definition integrator_max_history :: nat where "integrator_max_history = 64"
definition integrator_max_risks :: nat where "integrator_max_risks = 10"
definition integrator_digest_field_bytes :: nat where "integrator_digest_field_bytes = 512"
definition integrator_risk_bytes :: nat where "integrator_risk_bytes = 256"
definition integrator_max_paths :: nat where "integrator_max_paths = 256"
definition integrator_max_path_bytes :: nat where "integrator_max_path_bytes = 4096"
definition agent_message_max_body_bytes :: nat where "agent_message_max_body_bytes = 8 * 1024"
definition verification_max_checks :: nat where "verification_max_checks = 32"
definition verification_max_input_hashes :: nat where "verification_max_input_hashes = 16"

record integrator_candidate =
  ic_name :: string
  ic_capabilities :: "string list"
  ic_enabled :: bool
  ic_available :: bool

record integrator_assign_input =
  ii_about_snapshot :: string
  ii_candidates :: "integrator_candidate list"
  ii_required_capabilities :: "string list"
  ii_conflict_authors :: "string list"
  ii_excluded :: "string list"
  ii_task_summary :: string
  ii_ack_timeout_ms :: "nat option"

record eligibility_result =
  el_eligible :: "string list"
  el_neutral :: "string list"
  el_neutral_integrator :: bool
  el_no_candidate_reason :: "string option"

datatype integrator_assignment_state =
    AsCreated | AsOffered | AsAccepted | AsCompleted | AsBlocked | AsRevoked | AsRequiresHuman | AsCancelled

datatype integrator_attempt_state =
    AtOffered | AtAccepted | AtTimedOut | AtSuperseded | AtRevoked | AtBlocked | AtCompleted

fun is_open :: "integrator_attempt_state \<Rightarrow> bool" where
  "is_open AtOffered = True"
| "is_open AtAccepted = True"
| "is_open _ = False"

record integrator_attempt =
  at_attempt :: nat
  at_selected :: string
  at_state :: integrator_attempt_state
  at_offered_at_ms :: int
  at_request_message_id :: "string option"
  at_acceptance_message_id :: "string option"
  at_terminal_message_id :: "string option"
  at_reason :: "string option"

datatype verification_status = VPassed | VFailed | VUnknown

record verification_check =
  vc_name :: string
  vc_passed :: bool
  vc_detail :: "string option"

record verification_summary =
  vs_status :: verification_status
  vs_summary :: string
  vs_policy_id :: "string option"
  vs_policy_version :: nat
  vs_tool_ref :: "string option"
  vs_input_hashes :: "string list"
  vs_output_hash :: "string option"
  vs_checks :: "verification_check list"

datatype integrator_outcome_state = OsCompleted | OsBlocked | OsRequiresHuman | OsCancelled

record integrator_digest =
  dg_assignment_id :: string
  dg_integrator :: string
  dg_about_snapshot :: string
  dg_inspected_snapshot :: string
  dg_state :: integrator_outcome_state
  dg_landed_paths :: nat
  dg_resolved_conflicts :: nat
  dg_remaining_conflicts :: nat
  dg_verification :: verification_summary
  dg_outcome :: string
  dg_risks :: "string list"
  dg_decision_required :: "string option"

text \<open>A profile: its assignment, its attempt and the snapshot it is about come first in each kind.\<close>

datatype integrator_profile =
    PfAssignment (pf_assignment_id: string) (pf_attempt: nat) (pf_about_snapshot: string)
      (pf_selected: string) (pf_roster_fingerprint: string) (pf_neutral_integrator: bool) (pf_task: string)
  | PfAccepted (pf_assignment_id: string) (pf_attempt: nat) (pf_about_snapshot: string)
  | PfResult (pf_assignment_id: string) (pf_attempt: nat) (pf_about_snapshot: string) (pf_digest: integrator_digest)
  | PfBlocked (pf_assignment_id: string) (pf_attempt: nat) (pf_about_snapshot: string) (pf_reason: string)

datatype integrator_error =
    BadCapabilityId
  | CapabilityListTooLong
  | DuplicateCapability
  | BadCandidateName
  | DuplicateCandidate
  | EmptyRoster
  | RosterTooLong
  | BadTaskSummary
  | BadSnapshotId
  | AuthorsTooLong
  | BadAuthorName
  | BadAssignmentId
  | BadNonce
  | BadAttemptCount
  | BadFingerprint
  | DigestMismatch
  | BadReason
  | BadDigest
  | BadVerification
  | ProfileTooLong
  | BadPathList
  | NoCandidate string
  | AssignmentActive
  | UnknownAssignment
  | AssignmentTerminal
  | NoRankedCandidate
  | AttemptsExhausted
  | UnsupportedSchema
  | RandomUnavailable
  | Unreachable
  | SendFailed
  | InboxFailed
  | NoActiveAfterCreation

section \<open>Identifiers and evidence\<close>

definition is_valid_hex_id :: "string \<Rightarrow> nat \<Rightarrow> bool" where
  "is_valid_hex_id value n = (length value = n \<and> list_all (\<lambda>c. between 48 57 c \<or> between 97 102 c) value)"

definition is_full_digest :: "string \<Rightarrow> bool" where
  "is_full_digest s = (length s = 64 \<and> list_all (\<lambda>c. between 48 57 c \<or> between 97 102 c) s)"

definition validate_verification_evidence :: "verification_summary \<Rightarrow> integrator_error + unit" where
  "validate_verification_evidence v =
     rbind (ensure (length (vs_checks v) \<le> verification_max_checks) BadVerification) (\<lambda>_.
     rbind (ensure (length (vs_input_hashes v) \<le> verification_max_input_hashes) BadVerification) (\<lambda>_.
     rbind (for_each (\<lambda>h. ensure (is_full_digest h) BadVerification) (vs_input_hashes v)) (\<lambda>_.
     rbind (ensure (\<not> is_some_and (vs_output_hash v) (\<lambda>h. \<not> is_full_digest h)) BadVerification) (\<lambda>_.
     rbind (ensure (\<not> is_some_and (vs_policy_id v) (\<lambda>p. str_trim p = [] \<or> length p > 512)) BadVerification) (\<lambda>_.
     rbind (ensure (\<not> is_some_and (vs_tool_ref v) (\<lambda>p. str_trim p = [] \<or> length p > 512)) BadVerification) (\<lambda>_.
     for_each (\<lambda>c.
       rbind (ensure (str_trim (vc_name c) \<noteq> [] \<and> length (vc_name c) \<le> 128) BadVerification) (\<lambda>_.
       ensure (\<not> is_some_and (vc_detail c) (\<lambda>d. length d > 512)) BadVerification)) (vs_checks v)))))))"

definition normalize_capability :: "string \<Rightarrow> integrator_error + string" where
  "normalize_capability capability =
     rbind (ensure (capability \<noteq> []) BadCapabilityId) (\<lambda>_.
     rbind (ensure (length capability \<le> integrator_capability_max_bytes) BadCapabilityId) (\<lambda>_.
     rbind (ensure (str_trim capability = capability) BadCapabilityId) (\<lambda>_.
     rbind (ensure (list_all (\<lambda>b. is_ascii_lowercase b \<or> b = CHR ''-'' \<or> is_ascii_digit b) capability) BadCapabilityId) (\<lambda>_.
     Inr capability))))"

definition normalize_capabilities :: "string list \<Rightarrow> integrator_error + string list" where
  "normalize_capabilities capabilities =
     rbind (ensure (length capabilities \<le> integrator_max_capabilities) CapabilityListTooLong) (\<lambda>_.
     rbind (fold_result (\<lambda>capability out.
         rbind (normalize_capability capability) (\<lambda>normalized.
         rbind (ensure (normalized \<notin> set out) DuplicateCapability) (\<lambda>_.
         Inr (out @ [normalized])))) capabilities []) (\<lambda>out.
     Inr (sort out)))"

section \<open>Eligibility\<close>

definition validate_candidate :: "integrator_candidate \<Rightarrow> string list \<Rightarrow> integrator_error + string list" where
  "validate_candidate candidate seen =
     rbind (ensure (is_valid_agent_name (ic_name candidate)) BadCandidateName) (\<lambda>_.
     rbind (ensure (ic_name candidate \<notin> set seen) DuplicateCandidate) (\<lambda>_.
     rbind (normalize_capabilities (ic_capabilities candidate)) (\<lambda>_.
     Inr (seen @ [ic_name candidate]))))"

definition eligible_candidate ::
  "string list \<Rightarrow> string list \<Rightarrow> integrator_candidate \<Rightarrow> integrator_error + bool" where
  "eligible_candidate required excluded candidate =
     (if \<not> ic_enabled candidate \<or> \<not> ic_available candidate then Inr False
      else if ic_name candidate \<in> set excluded then Inr False
      else rbind (normalize_capabilities (ic_capabilities candidate)) (\<lambda>capabilities.
           Inr (list_all (\<lambda>cap. cap \<in> set capabilities) required)))"

definition filter_step ::
  "string list \<Rightarrow> string list \<Rightarrow> string list \<Rightarrow> integrator_candidate
   \<Rightarrow> string list \<times> string list \<times> string list \<Rightarrow> integrator_error + string list \<times> string list \<times> string list" where
  "filter_step required excluded conflict_authors candidate acc =
     (let (seen, eligible, neutral) = acc in
      rbind (validate_candidate candidate seen) (\<lambda>seen.
      rbind (eligible_candidate required excluded candidate) (\<lambda>ok.
      Inr (if ok
           then (seen, eligible @ [ic_name candidate],
                 if ic_name candidate \<in> set conflict_authors then neutral else neutral @ [ic_name candidate])
           else (seen, eligible, neutral)))))"

definition no_eligible_reason :: string where
  "no_eligible_reason = ''no eligible candidate satisfies the roster, capability, and exclusion filters''"

definition no_neutral_reason :: string where
  "no_neutral_reason = ''no neutral candidate exists (all eligible candidates authored a conflicting side)''"

definition filter_eligible :: "integrator_assign_input \<Rightarrow> integrator_error + eligibility_result" where
  "filter_eligible input =
     rbind (ensure (ii_candidates input \<noteq> []) EmptyRoster) (\<lambda>_.
     rbind (ensure (length (ii_candidates input) \<le> integrator_max_candidates) RosterTooLong) (\<lambda>_.
     rbind (ensure (str_trim (ii_task_summary input) \<noteq> []
        \<and> length (ii_task_summary input) \<le> integrator_max_task_summary_bytes) BadTaskSummary) (\<lambda>_.
     rbind (ensure (is_valid_hash (ii_about_snapshot input)) BadSnapshotId) (\<lambda>_.
     rbind (ensure (length (ii_conflict_authors input) \<le> integrator_max_authors
        \<and> length (ii_excluded input) \<le> integrator_max_authors) AuthorsTooLong) (\<lambda>_.
     rbind (for_each (\<lambda>name. ensure (is_valid_agent_name name) BadAuthorName)
        (ii_conflict_authors input @ ii_excluded input)) (\<lambda>_.
     rbind (normalize_capabilities (ii_required_capabilities input)) (\<lambda>required.
     rbind (fold_result (filter_step required (ii_excluded input) (ii_conflict_authors input))
        (ii_candidates input) ([], [], [])) (\<lambda>(seen, eligible, neutral).
     let eligible = sort eligible; neutral = sort neutral;
         (pool, neutral_integrator) = (if neutral = [] then (eligible, False) else (neutral, True))
     in Inr \<lparr>el_eligible = eligible, el_neutral = neutral, el_neutral_integrator = neutral_integrator,
             el_no_candidate_reason =
               (if pool = [] then Some (if eligible = [] then no_eligible_reason else no_neutral_reason) else None)\<rparr>))))))))"

section \<open>The draw\<close>

text \<open>
  \<^verbatim>\<open>serde_json\<close>: \<open>roster_to_json\<close> writes an array of strings, \<open>ip_to_json\<close> and \<open>ip_from_json\<close> a profile.
\<close>

record integrator_json =
  roster_to_json :: "string list \<Rightarrow> string"
  ip_to_json :: "integrator_profile \<Rightarrow> string"
  ip_from_json :: "string \<Rightarrow> integrator_profile option"

definition roster_fingerprint :: "prims \<Rightarrow> integrator_json \<Rightarrow> string list \<Rightarrow> integrator_error + string" where
  "roster_fingerprint P J pool =
     rbind (ensure (pool \<noteq> []) EmptyRoster) (\<lambda>_.
     rbind (for_each (\<lambda>name. ensure (is_valid_agent_name name) BadCandidateName) (sort pool)) (\<lambda>_.
     Inr (blake3_hex P (roster_to_json J (sort pool)))))"

definition update_len_prefixed :: "string \<Rightarrow> bytes" where
  "update_len_prefixed value = le_bytes 8 (length value) @ value"

text \<open>The score of a candidate; the order of 32-byte hashes is the order of their lowercase hexadecimal forms.\<close>

definition candidate_score ::
  "prims \<Rightarrow> string \<Rightarrow> string \<Rightarrow> string \<Rightarrow> string \<Rightarrow> string \<Rightarrow> string \<Rightarrow> string" where
  "candidate_score P workspace_id about_snapshot assignment_id selection_nonce fingerprint name =
     blake3_hex P (concat (map update_len_prefixed
       [integrator_algorithm_version, workspace_id, about_snapshot, assignment_id, selection_nonce, fingerprint, name]))"

definition rank_candidates ::
  "prims \<Rightarrow> string \<Rightarrow> string \<Rightarrow> string \<Rightarrow> string \<Rightarrow> string \<Rightarrow> string list \<Rightarrow> integrator_error + string list" where
  "rank_candidates P workspace_id about_snapshot assignment_id selection_nonce fingerprint candidates =
     rbind (ensure (candidates \<noteq> []) EmptyRoster) (\<lambda>_.
     rbind (ensure (is_valid_hash about_snapshot \<and> is_valid_hash fingerprint) BadSnapshotId) (\<lambda>_.
     rbind (ensure (is_valid_hex_id assignment_id 32) BadAssignmentId) (\<lambda>_.
     rbind (ensure (is_valid_hex_id selection_nonce 64) BadNonce) (\<lambda>_.
     rbind (for_each (\<lambda>name. ensure (is_valid_agent_name name) BadCandidateName) candidates) (\<lambda>_.
     let scored = map (\<lambda>name. (name,
           candidate_score P workspace_id about_snapshot assignment_id selection_nonce fingerprint name)) candidates
     in Inr (map fst (sort_by (\<lambda>l r. snd l < snd r \<or> snd l = snd r \<and> fst l \<le> fst r) scored)))))))"

definition hex_digit :: "nat \<Rightarrow> char" where
  "hex_digit n = char_of (if n < 10 then 48 + n else 87 + n)"

definition hex_lower :: "bytes \<Rightarrow> string" where
  "hex_lower bs = concat (map (\<lambda>b. [hex_digit (of_char b div 16), hex_digit (of_char b mod 16)]) bs)"

text \<open>\<^verbatim>\<open>getrandom::fill\<close> gives the bytes or fails.\<close>

definition generate_assignment_id :: "bytes option \<Rightarrow> integrator_error + string" where
  "generate_assignment_id random = rbind (ok_or random RandomUnavailable) (\<lambda>bs. Inr (hex_lower bs))"

definition generate_selection_nonce :: "bytes option \<Rightarrow> integrator_error + string" where
  "generate_selection_nonce random = rbind (ok_or random RandomUnavailable) (\<lambda>bs. Inr (hex_lower bs))"

section \<open>Digests and profiles\<close>

definition validate_integrator_digest :: "integrator_digest \<Rightarrow> integrator_error + unit" where
  "validate_integrator_digest d =
     rbind (ensure (is_valid_hex_id (dg_assignment_id d) 32) BadDigest) (\<lambda>_.
     rbind (ensure (is_valid_agent_name (dg_integrator d)) BadDigest) (\<lambda>_.
     rbind (ensure (is_valid_hash (dg_about_snapshot d) \<and> is_valid_hash (dg_inspected_snapshot d)) BadDigest) (\<lambda>_.
     rbind (ensure (str_trim (dg_outcome d) \<noteq> [] \<and> length (dg_outcome d) \<le> integrator_digest_field_bytes) BadDigest) (\<lambda>_.
     rbind (ensure (length (vs_summary (dg_verification d)) \<le> integrator_digest_field_bytes) BadDigest) (\<lambda>_.
     rbind (ensure (length (dg_risks d) \<le> integrator_max_risks) BadDigest) (\<lambda>_.
     rbind (for_each (\<lambda>risk. ensure (length risk \<le> integrator_risk_bytes) BadDigest) (dg_risks d)) (\<lambda>_.
     rbind (ensure (\<not> is_some_and (dg_decision_required d)
        (\<lambda>q. str_trim q = [] \<or> length q > integrator_digest_field_bytes)) BadDigest) (\<lambda>_.
     (case dg_state d of
        OsCompleted \<Rightarrow> ensure (vs_status (dg_verification d) = VPassed \<and> dg_remaining_conflicts d = 0
            \<and> dg_decision_required d = None) BadDigest
      | OsRequiresHuman \<Rightarrow> ensure (dg_decision_required d \<noteq> None) BadDigest
      | _ \<Rightarrow> Inr ())))))))))"

definition validate_profile :: "integrator_profile \<Rightarrow> integrator_error + unit" where
  "validate_profile profile =
     rbind (ensure (is_valid_hex_id (pf_assignment_id profile) 32) BadAssignmentId) (\<lambda>_.
     rbind (ensure (is_valid_hash (pf_about_snapshot profile)) BadSnapshotId) (\<lambda>_.
     rbind (ensure (pf_attempt profile \<le> 10000) BadAttemptCount) (\<lambda>_.
     (case profile of
        PfAssignment _ _ _ selected fingerprint _ task \<Rightarrow>
          rbind (ensure (is_valid_agent_name selected) BadCandidateName) (\<lambda>_.
          rbind (ensure (is_valid_hash fingerprint) BadFingerprint) (\<lambda>_.
          ensure (str_trim task \<noteq> [] \<and> length task \<le> integrator_max_task_summary_bytes) BadTaskSummary))
      | PfAccepted _ _ _ \<Rightarrow> Inr ()
      | PfResult assignment_id _ about_snapshot digest \<Rightarrow>
          rbind (ensure (dg_assignment_id digest = assignment_id \<and> dg_about_snapshot digest = about_snapshot) DigestMismatch)
            (\<lambda>_. validate_integrator_digest digest)
      | PfBlocked _ _ _ reason \<Rightarrow>
          ensure (str_trim reason \<noteq> [] \<and> length reason \<le> integrator_digest_field_bytes) BadReason))))"

definition encode_integrator_profile :: "integrator_json \<Rightarrow> integrator_profile \<Rightarrow> integrator_error + string" where
  "encode_integrator_profile J profile =
     rbind (validate_profile profile) (\<lambda>_.
     let encoded = integrator_profile_discriminator @ '':'' @ ip_to_json J profile in
     rbind (ensure (length encoded \<le> agent_message_max_body_bytes) ProfileTooLong) (\<lambda>_.
     Inr encoded))"

definition parse_integrator_profile :: "integrator_json \<Rightarrow> string \<Rightarrow> integrator_profile option" where
  "parse_integrator_profile J body =
     (if length body > agent_message_max_body_bytes then None
      else case strip_prefix body integrator_profile_discriminator of
        None \<Rightarrow> None
      | Some rest \<Rightarrow>
       (case strip_prefix rest '':'' of
          None \<Rightarrow> None
        | Some json \<Rightarrow>
         (case ip_from_json J json of
            None \<Rightarrow> None
          | Some profile \<Rightarrow>
             if ip_to_json J profile \<noteq> json then None
             else if \<not> is_ok (validate_profile profile) then None
             else Some profile)))"

definition validate_path_list :: "prims \<Rightarrow> string list \<Rightarrow> integrator_error + unit" where
  "validate_path_list P paths =
     rbind (ensure (length paths \<le> integrator_max_paths) BadPathList) (\<lambda>_.
     rbind (fold_result (\<lambda>path seen.
         rbind (ensure (length path \<le> integrator_max_path_bytes \<and> is_safe_rel_path P path) BadPathList) (\<lambda>_.
         rbind (ensure (path \<notin> set seen) BadPathList) (\<lambda>_.
         Inr (seen @ [path])))) paths []) (\<lambda>_.
     Inr ()))"

section \<open>What the filter and the ranking compute\<close>

lemma normalize_capability_Inr: "normalize_capability c = Inr n \<Longrightarrow> n = c"
  by (auto simp: normalize_capability_def rbind_eq_Inr)

lemma normalize_fold:
  "fold_result (\<lambda>capability out.
      rbind (normalize_capability capability) (\<lambda>normalized.
      rbind (ensure (normalized \<notin> set out) DuplicateCapability) (\<lambda>_.
      Inr (out @ [normalized])))) cs acc = Inr out \<Longrightarrow> out = acc @ cs \<and> (distinct acc \<longrightarrow> distinct out)"
proof (induction cs arbitrary: acc)
  case (Cons c cs)
  then have "fold_result (\<lambda>capability out.
      rbind (normalize_capability capability) (\<lambda>normalized.
      rbind (ensure (normalized \<notin> set out) DuplicateCapability) (\<lambda>_.
      Inr (out @ [normalized])))) cs (acc @ [c]) = Inr out" and "c \<notin> set acc"
    by (auto simp: rbind_eq_Inr dest: normalize_capability_Inr)
  with Cons.IH [of "acc @ [c]"] show ?case by auto
qed auto

text \<open>Capabilities are taken as they are: padding and repetition are errors.\<close>

lemma normalize_capabilities_Inr:
  "normalize_capabilities cs = Inr out \<Longrightarrow> set out = set cs \<and> distinct cs \<and> out = sort cs"
  by (auto simp: normalize_capabilities_def rbind_eq_Inr dest!: normalize_fold)

definition able :: "integrator_assign_input \<Rightarrow> integrator_candidate \<Rightarrow> bool" where
  "able input c \<longleftrightarrow> ic_enabled c \<and> ic_available c \<and> ic_name c \<notin> set (ii_excluded input)
     \<and> set (ii_required_capabilities input) \<subseteq> set (ic_capabilities c)"

definition well_formed_candidate :: "integrator_candidate \<Rightarrow> bool" where
  "well_formed_candidate c \<longleftrightarrow> is_valid_agent_name (ic_name c) \<and> is_ok (normalize_capabilities (ic_capabilities c))"

lemma eligible_candidate_able:
  assumes "well_formed_candidate c" and "set required = set (ii_required_capabilities input)"
  shows "eligible_candidate required (ii_excluded input) c = Inr (able input c)"
proof -
  obtain caps where caps: "normalize_capabilities (ic_capabilities c) = Inr caps"
    using assms(1) by (auto simp: well_formed_candidate_def is_ok_iff)
  then have "set caps = set (ic_capabilities c)" by (auto dest: normalize_capabilities_Inr)
  with assms(2) caps show ?thesis
    by (auto simp: eligible_candidate_def able_def list_all_iff)
qed

lemma validate_candidate_Inr:
  "validate_candidate c seen = Inr s \<longleftrightarrow> well_formed_candidate c \<and> ic_name c \<notin> set seen \<and> s = seen @ [ic_name c]"
  by (auto simp: validate_candidate_def rbind_eq_Inr well_formed_candidate_def is_ok_iff)

lemma filter_fold:
  assumes "set required = set (ii_required_capabilities input)"
  shows "fold_result (filter_step required (ii_excluded input) authors) cs (seen, el, nt) = Inr r \<longleftrightarrow>
     list_all well_formed_candidate cs \<and> distinct (map ic_name cs) \<and> set (map ic_name cs) \<inter> set seen = {}
     \<and> r = (seen @ map ic_name cs, el @ map ic_name (filter (able input) cs),
            nt @ map ic_name (filter (\<lambda>c. able input c \<and> ic_name c \<notin> set authors) cs))"
proof (induction cs arbitrary: seen el nt)
  case (Cons c cs)
  show ?case
  proof (cases "well_formed_candidate c \<and> ic_name c \<notin> set seen")
    case True
    then have "filter_step required (ii_excluded input) authors c (seen, el, nt) =
        Inr (if able input c
             then (seen @ [ic_name c], el @ [ic_name c], if ic_name c \<in> set authors then nt else nt @ [ic_name c])
             else (seen @ [ic_name c], el, nt))"
      using validate_candidate_Inr [of c seen "seen @ [ic_name c]"] eligible_candidate_able [of c, OF _ assms]
      by (simp add: filter_step_def)
    then show ?thesis using True Cons.IH by (auto simp del: map_map)
  next
    case False
    then have "\<exists>e. validate_candidate c seen = Inl e"
      using validate_candidate_Inr [of c seen] by (cases "validate_candidate c seen") auto
    then show ?thesis using False by (auto simp: filter_step_def)
  qed
qed auto

definition pool_names :: "integrator_assign_input \<Rightarrow> (integrator_candidate \<Rightarrow> bool) \<Rightarrow> string list" where
  "pool_names input p = sort (map ic_name (filter (\<lambda>c. able input c \<and> p c) (ii_candidates input)))"

definition neutral_candidate :: "integrator_assign_input \<Rightarrow> integrator_candidate \<Rightarrow> bool" where
  "neutral_candidate input c \<longleftrightarrow> ic_name c \<notin> set (ii_conflict_authors input)"

definition roster_ok :: "integrator_assign_input \<Rightarrow> bool" where
  "roster_ok input \<longleftrightarrow> ii_candidates input \<noteq> [] \<and> length (ii_candidates input) \<le> integrator_max_candidates
     \<and> list_all well_formed_candidate (ii_candidates input) \<and> distinct (map ic_name (ii_candidates input))
     \<and> str_trim (ii_task_summary input) \<noteq> [] \<and> length (ii_task_summary input) \<le> integrator_max_task_summary_bytes
     \<and> is_valid_hash (ii_about_snapshot input)
     \<and> length (ii_conflict_authors input) \<le> integrator_max_authors \<and> length (ii_excluded input) \<le> integrator_max_authors
     \<and> list_all is_valid_agent_name (ii_conflict_authors input @ ii_excluded input)
     \<and> is_ok (normalize_capabilities (ii_required_capabilities input))"

lemma sort_Nil: "sort xs = [] \<longleftrightarrow> xs = []"
  by (metis length_0_conv length_sort)

lemma filter_eligible_iff:
  "filter_eligible input = Inr e \<longleftrightarrow> roster_ok input
     \<and> e = \<lparr>el_eligible = pool_names input (\<lambda>_. True), el_neutral = pool_names input (neutral_candidate input),
            el_neutral_integrator = (pool_names input (neutral_candidate input) \<noteq> []),
            el_no_candidate_reason = (if pool_names input (\<lambda>_. True) = [] then Some no_eligible_reason else None)\<rparr>"
proof (cases "normalize_capabilities (ii_required_capabilities input)")
  case (Inl err)
  then show ?thesis by (auto simp: filter_eligible_def rbind_eq_Inr roster_ok_def)
next
  case (Inr required)
  then have req: "set required = set (ii_required_capabilities input)" by (auto dest: normalize_capabilities_Inr)
  have sub: "pool_names input (\<lambda>_. True) = [] \<Longrightarrow> pool_names input (neutral_candidate input) = []"
    by (auto simp: pool_names_def sort_Nil filter_empty_conv)
  show ?thesis
    using Inr sub
    by (auto simp: filter_eligible_def rbind_eq_Inr for_each_eq_Inr filter_fold [OF req] roster_ok_def list_all_iff
        pool_names_def neutral_candidate_def Let_def split: if_splits)
qed

text \<open>A list with distinct elements sorted by score and name is determined by its elements.\<close>

lemma rank_candidates_Inr:
  assumes "rank_candidates P ws about aid nonce fp cs = Inr ranked" and "distinct cs"
  defines "score \<equiv> candidate_score P ws about aid nonce fp"
  shows "distinct ranked \<and> set ranked = set cs
    \<and> sorted_wrt (\<lambda>x y. score x < score y \<or> score x = score y \<and> x < y) ranked"
proof -
  let ?le = "\<lambda>l r :: string \<times> string. snd l < snd r \<or> snd l = snd r \<and> fst l \<le> fst r"
  let ?scored = "map (\<lambda>name. (name, score name)) cs"
  have ranked: "ranked = map fst (sort_by ?le ?scored)"
    using assms(1) by (auto simp: rank_candidates_def rbind_eq_Inr score_def)
  have m: "mset ranked = mset cs"
    by (simp add: ranked multiset.map_comp comp_def)
  then have d: "distinct ranked" "set ranked = set cs"
    using assms(2) by (metis mset_eq_imp_distinct_iff, metis mset_eq_setD)
  have "preorder_on (set ?scored) ?le" unfolding preorder_on_def by auto
  then have sorted: "sorted_wrt ?le (sort_by ?le ?scored)" by (rule sort_by_sorted)
  have "sorted_wrt (\<lambda>x y. score x < score y \<or> score x = score y \<and> x \<le> y) ranked"
    unfolding ranked sorted_wrt_map by (rule sorted_wrt_mono_rel [OF _ sorted]) auto
  then have "sorted_wrt (\<lambda>x y. score x < score y \<or> score x = score y \<and> x < y) ranked"
    by (rule sorted_wrt_strict [where f = "\<lambda>x. x"]) (use d in auto)
  with d show ?thesis by blast
qed

lemma rank_candidates_cong:
  assumes "rank_candidates P ws about aid nonce fp cs = Inr ranked" and "distinct cs" and "set cs' = set cs" and "distinct cs'"
  shows "rank_candidates P ws about aid nonce fp cs' = Inr ranked"
proof -
  have "\<exists>ranked'. rank_candidates P ws about aid nonce fp cs' = Inr ranked'"
    using assms(1,3) by (auto simp: rank_candidates_def rbind_eq_Inr for_each_eq_Inr)
  then obtain ranked' where r: "rank_candidates P ws about aid nonce fp cs' = Inr ranked'" by blast
  note a = rank_candidates_Inr [OF assms(1,2)] and b = rank_candidates_Inr [OF r assms(4)]
  have "ranked' = ranked"
    by (rule strict_sorted_unique [OF conjunct2 [OF conjunct2 [OF b]] conjunct2 [OF conjunct2 [OF a]]])
      (use a b assms(3) in auto)
  with r show ?thesis by simp
qed

text \<open>What is encoded is parsed back, and only what the encoder writes is parsed.\<close>

lemma strip_prefix_append: "strip_prefix (pre @ r) pre = Some r"
  by (simp add: strip_prefix_eq_Some)

lemma parse_integrator_profile_Some:
  "parse_integrator_profile J body = Some profile \<longleftrightarrow> length body \<le> agent_message_max_body_bytes
     \<and> is_ok (validate_profile profile) \<and> ip_from_json J (ip_to_json J profile) = Some profile
     \<and> body = integrator_profile_discriminator @ '':'' @ ip_to_json J profile" (is "?parse \<longleftrightarrow> ?canonical")
proof
  assume ?parse
  then obtain rest json where "strip_prefix body integrator_profile_discriminator = Some rest" "strip_prefix rest '':'' = Some json"
    "ip_from_json J json = Some profile" "ip_to_json J profile = json" "is_ok (validate_profile profile)"
    "length body \<le> agent_message_max_body_bytes"
    by (auto simp: parse_integrator_profile_def not_less split: option.splits if_splits)
  then show ?canonical by (simp add: strip_prefix_eq_Some)
next
  assume c: ?canonical
  then have "strip_prefix body integrator_profile_discriminator = Some ('':'' @ ip_to_json J profile)"
    by (metis strip_prefix_append)
  moreover have "\<not> agent_message_max_body_bytes < length body" by (rule leD) (rule conjunct1 [OF c])
  moreover have "ip_from_json J (ip_to_json J profile) = Some profile" "is_ok (validate_profile profile)" using c by blast+
  ultimately show ?parse
    unfolding parse_integrator_profile_def by (simp add: strip_prefix_append del: append_Cons append_Nil)
qed

lemma integrator_profile_roundtrip:
  assumes "\<And>p. ip_from_json J (ip_to_json J p) = Some p"
  shows "encode_integrator_profile J profile = Inr body \<longleftrightarrow> parse_integrator_profile J body = Some profile"
  unfolding parse_integrator_profile_Some
  by (auto simp: encode_integrator_profile_def rbind_eq_Inr Let_def is_ok_iff assms)

end
