(* ===== verification/Integrator.thy ===== *)
theory Integrator
  imports Integrator_Contract Work_Reducer
begin

text \<open>
  The dispatcher of integrator assignments (\<^verbatim>\<open>agent-core/src/integrator.rs\<close>): the draw, the offers to the
  ranked candidates, the replies, the fall-back on a timeout or a blocker, and revocation. Every operation is a
  sequence of writes of the state file with messages sent in between; it is modelled as a function to its
  result and the log of its writes, so that a crash or a failed write is any prefix of the log. The
  dispatcher's lock makes one operation at a time. Sending, the inbox, reachability of snapshots, the clock and
  random bytes are arguments.

  The theorem is the life cycle of an assignment in every history of operations and crashes.
\<close>

section \<open>State\<close>

definition integrator_state_schema_version :: nat where "integrator_state_schema_version = 2"
definition integrator_max_attempts :: nat where "integrator_max_attempts = 64"

record persisted_assignment =
  pa_assignment_id :: string
  pa_selection_nonce :: string
  pa_about_snapshot :: string
  pa_roster_fingerprint :: string
  pa_ranked :: "string list"
  pa_neutral_integrator :: bool
  pa_eligible :: "string list"
  pa_task_summary :: string
  pa_required_capabilities :: "string list"
  pa_ack_timeout_ms :: "nat option"
  pa_conflict_authors :: "string list"
  pa_excluded :: "string list"
  pa_state :: integrator_assignment_state
  pa_attempts :: "integrator_attempt list"
  pa_created_at_ms :: int
  pa_updated_at_ms :: int
  pa_inbox_cursor :: "string option"
  pa_digest :: "integrator_digest option"

record integrator_state_file =
  sf_schema_version :: nat
  sf_active :: "persisted_assignment option"
  sf_history :: "persisted_assignment list"

definition integrator_state_new :: integrator_state_file where
  "integrator_state_new = \<lparr>sf_schema_version = integrator_state_schema_version, sf_active = None, sf_history = []\<rparr>"

text \<open>The state file and what has been written to it, in order.\<close>

record dispatcher_log =
  lg_disk :: integrator_state_file
  lg_writes :: "integrator_state_file list"

type_synonym 'a dispatch = "dispatcher_log \<Rightarrow> (integrator_error + 'a) \<times> dispatcher_log"

definition dbind :: "'a dispatch \<Rightarrow> ('a \<Rightarrow> 'b dispatch) \<Rightarrow> 'b dispatch" where
  "dbind m f log = (case m log of (Inl e, log) \<Rightarrow> (Inl e, log) | (Inr x, log) \<Rightarrow> f x log)"

definition dreturn :: "'a \<Rightarrow> 'a dispatch" where
  "dreturn x log = (Inr x, log)"

definition dlift :: "integrator_error + 'a \<Rightarrow> 'a dispatch" where
  "dlift r log = (r, log)"

definition store_load :: "integrator_state_file dispatch" where
  "store_load log =
     (if sf_schema_version (lg_disk log) = integrator_state_schema_version then Inr (lg_disk log) else Inl UnsupportedSchema,
      log)"

definition store_update ::
  "(integrator_state_file \<Rightarrow> integrator_error + integrator_state_file) \<Rightarrow> unit dispatch" where
  "store_update f log =
     (if sf_schema_version (lg_disk log) \<noteq> integrator_state_schema_version then (Inl UnsupportedSchema, log)
      else case f (lg_disk log) of
        Inl e \<Rightarrow> (Inl e, log)
      | Inr d \<Rightarrow>
          let d = d\<lparr>sf_schema_version := integrator_state_schema_version\<rparr>
          in (Inr (), \<lparr>lg_disk = d, lg_writes = lg_writes log @ [d]\<rparr>))"

text \<open>\<^verbatim>\<open>if let Some(active) = &mut state.active { *active = assignment.clone(); }\<close>\<close>

definition put_active :: "persisted_assignment \<Rightarrow> unit dispatch" where
  "put_active a = store_update (\<lambda>d. Inr (if sf_active d = None then d else d\<lparr>sf_active := Some a\<rparr>))"

definition update_last :: "('a \<Rightarrow> 'a) \<Rightarrow> 'a list \<Rightarrow> 'a list" where
  "update_last f xs = (if xs = [] then [] else butlast xs @ [f (last xs)])"

section \<open>Offers\<close>

definition assignment_request :: "persisted_assignment \<Rightarrow> nat \<Rightarrow> string \<Rightarrow> integrator_profile" where
  "assignment_request a attempt selected =
     PfAssignment (pa_assignment_id a) attempt (pa_about_snapshot a) selected (pa_roster_fingerprint a)
       (pa_neutral_integrator a) (pa_task_summary a)"

definition send_assignment_request ::
  "integrator_json \<Rightarrow> string option \<Rightarrow> persisted_assignment \<Rightarrow> nat \<Rightarrow> string \<Rightarrow> integrator_error + string" where
  "send_assignment_request J sent a attempt selected =
     rbind (encode_integrator_profile J (assignment_request a attempt selected)) (\<lambda>_. ok_or sent SendFailed)"

definition supersede :: "string option \<Rightarrow> persisted_assignment \<Rightarrow> persisted_assignment" where
  "supersede reason a =
     (case reason of
        None \<Rightarrow> a
      | Some r \<Rightarrow> a\<lparr>pa_attempts := update_last (\<lambda>p.
          if is_open (at_state p) then p\<lparr>at_state := AtSuperseded, at_reason := Some r\<rparr> else p) (pa_attempts a)\<rparr>)"

definition push_attempt :: "int \<Rightarrow> persisted_assignment \<Rightarrow> persisted_assignment" where
  "push_attempt now a =
     (let index = length (pa_attempts a) in
      a\<lparr>pa_attempts := pa_attempts a @
          [\<lparr>at_attempt = index, at_selected = pa_ranked a ! index, at_state = AtOffered, at_offered_at_ms = now,
            at_request_message_id = None, at_acceptance_message_id = None, at_terminal_message_id = None,
            at_reason = None\<rparr>],
        pa_state := AsOffered, pa_updated_at_ms := now\<rparr>)"

definition record_request :: "string \<Rightarrow> persisted_assignment \<Rightarrow> persisted_assignment" where
  "record_request message_id a =
     a\<lparr>pa_attempts := update_last (\<lambda>p. p\<lparr>at_request_message_id := Some message_id\<rparr>) (pa_attempts a),
       pa_inbox_cursor := Some message_id\<rparr>"

definition offer_next ::
  "integrator_json \<Rightarrow> int \<Rightarrow> string option \<Rightarrow> string option \<Rightarrow> persisted_assignment \<Rightarrow> persisted_assignment dispatch" where
  "offer_next J now sent supersede_reason a =
     (let index = length (pa_attempts a) in
      dbind (dlift (ensure (index < length (pa_ranked a)) NoRankedCandidate)) (\<lambda>_.
      dbind (dlift (ensure (index < integrator_max_attempts) AttemptsExhausted)) (\<lambda>_.
      let a1 = push_attempt now (supersede supersede_reason a) in
      dbind (put_active a1) (\<lambda>_.
      dbind (dlift (send_assignment_request J sent a1 index (pa_ranked a ! index))) (\<lambda>message_id.
      let a2 = record_request message_id a1 in
      dbind (put_active a2) (\<lambda>_. dreturn a2))))))"

section \<open>Assignment\<close>

text \<open>The draw: who is in the pool, and in which order they are asked.\<close>

definition selection_pool :: "eligibility_result \<Rightarrow> string list" where
  "selection_pool e = (if el_neutral_integrator e then el_neutral e else el_eligible e)"

definition integrator_draw ::
  "prims \<Rightarrow> integrator_json \<Rightarrow> string \<Rightarrow> bytes option \<Rightarrow> bytes option \<Rightarrow> integrator_assign_input
   \<Rightarrow> eligibility_result \<Rightarrow> integrator_error + string \<times> string \<times> string \<times> string list \<times> string list" where
  "integrator_draw P J workspace_id id_bytes nonce_bytes input e =
     rbind (normalize_capabilities (ii_required_capabilities input)) (\<lambda>requirements.
     rbind (generate_assignment_id id_bytes) (\<lambda>assignment_id.
     rbind (generate_selection_nonce nonce_bytes) (\<lambda>nonce.
     rbind (roster_fingerprint P J (selection_pool e)) (\<lambda>fingerprint.
     rbind (rank_candidates P workspace_id (ii_about_snapshot input) assignment_id nonce fingerprint (selection_pool e)) (\<lambda>ranked.
     Inr (assignment_id, nonce, fingerprint, ranked, requirements))))))"

record assign_env =
  ae_format_version :: nat
  ae_reachable :: "string \<Rightarrow> bool"
  ae_id_bytes :: "bytes option"
  ae_nonce_bytes :: "bytes option"
  ae_created_ms :: int
  ae_offered_ms :: int
  ae_sent :: "string option"

definition assign_guard :: "assign_env \<Rightarrow> integrator_assign_input \<Rightarrow> integrator_error + eligibility_result" where
  "assign_guard env input =
     rbind (filter_eligible input) (\<lambda>e.
     rbind (case el_no_candidate_reason e of Some reason \<Rightarrow> Inl (NoCandidate reason) | None \<Rightarrow> Inr ()) (\<lambda>_.
     rbind (ensure (ae_format_version env \<ge> 3) UnsupportedSchema) (\<lambda>_.
     rbind (ensure (ae_reachable env (ii_about_snapshot input)) Unreachable) (\<lambda>_.
     Inr e))))"

definition new_assignment ::
  "assign_env \<Rightarrow> integrator_assign_input \<Rightarrow> eligibility_result \<Rightarrow> string \<times> string \<times> string \<times> string list \<times> string list
   \<Rightarrow> persisted_assignment" where
  "new_assignment env input e draw =
     (let (assignment_id, nonce, fingerprint, ranked, requirements) = draw in
      \<lparr>pa_assignment_id = assignment_id, pa_selection_nonce = nonce, pa_about_snapshot = ii_about_snapshot input,
       pa_roster_fingerprint = fingerprint, pa_ranked = ranked, pa_neutral_integrator = el_neutral_integrator e,
       pa_eligible = selection_pool e, pa_task_summary = ii_task_summary input,
       pa_required_capabilities = requirements, pa_ack_timeout_ms = ii_ack_timeout_ms input,
       pa_conflict_authors = ii_conflict_authors input, pa_excluded = ii_excluded input,
       pa_state = AsCreated, pa_attempts = [], pa_created_at_ms = ae_created_ms env,
       pa_updated_at_ms = ae_created_ms env, pa_inbox_cursor = None, pa_digest = None\<rparr>)"

definition create_and_offer ::
  "integrator_json \<Rightarrow> assign_env \<Rightarrow> persisted_assignment \<Rightarrow> persisted_assignment dispatch" where
  "create_and_offer J env a =
     dbind (store_update (\<lambda>d. rbind (ensure (sf_active d = None) AssignmentActive) (\<lambda>_.
        Inr (d\<lparr>sf_active := Some a\<rparr>)))) (\<lambda>_.
     dbind (offer_next J (ae_offered_ms env) (ae_sent env) None a) (\<lambda>a.
     dbind (put_active a) (\<lambda>_. dreturn a)))"

definition integrator_assign ::
  "prims \<Rightarrow> integrator_json \<Rightarrow> string \<Rightarrow> assign_env \<Rightarrow> integrator_assign_input \<Rightarrow> persisted_assignment dispatch" where
  "integrator_assign P J workspace_id env input =
     dbind (dlift (assign_guard env input)) (\<lambda>e.
     dbind store_load (\<lambda>_.
     dbind (dlift (integrator_draw P J workspace_id (ae_id_bytes env) (ae_nonce_bytes env) input e)) (\<lambda>draw.
     create_and_offer J env (new_assignment env input e draw))))"

text \<open>Terminal assignments go to the history, newest first.\<close>

definition archive_le :: "persisted_assignment \<Rightarrow> persisted_assignment \<Rightarrow> bool" where
  "archive_le l r = (pa_updated_at_ms r < pa_updated_at_ms l
     \<or> pa_updated_at_ms r = pa_updated_at_ms l \<and> pa_assignment_id r \<le> pa_assignment_id l)"

definition archive :: "persisted_assignment \<Rightarrow> integrator_state_file \<Rightarrow> integrator_state_file" where
  "archive a d =
     d\<lparr>sf_history := take integrator_max_history (sort_by archive_le (sf_history d @ [a])), sf_active := None\<rparr>"

definition find_assignment :: "string option \<Rightarrow> integrator_state_file \<Rightarrow> integrator_error + persisted_assignment" where
  "find_assignment assignment_id d =
     (case assignment_id of
        None \<Rightarrow> ok_or (sf_active d) UnknownAssignment
      | Some wanted \<Rightarrow>
          rbind (ensure (is_valid_hex_id wanted 32) BadAssignmentId) (\<lambda>_.
          ok_or (case sf_active d of
              Some a \<Rightarrow> if pa_assignment_id a = wanted then Some a else find (\<lambda>a. pa_assignment_id a = wanted) (sf_history d)
            | None \<Rightarrow> find (\<lambda>a. pa_assignment_id a = wanted) (sf_history d)) UnknownAssignment))"

definition integrator_status :: "string option \<Rightarrow> persisted_assignment dispatch" where
  "integrator_status assignment_id = dbind store_load (\<lambda>d. dlift (find_assignment assignment_id d))"

definition integrator_revoke ::
  "integrator_json \<Rightarrow> int \<Rightarrow> string option \<Rightarrow> string \<Rightarrow> string \<Rightarrow> persisted_assignment dispatch" where
  "integrator_revoke J now sent assignment_id reason =
     dbind (dlift (ensure (is_valid_hex_id assignment_id 32) BadAssignmentId)) (\<lambda>_.
     let reason = str_trim reason in
     dbind (dlift (ensure (reason \<noteq> [] \<and> length reason \<le> integrator_digest_field_bytes) BadReason)) (\<lambda>_.
     dbind store_load (\<lambda>d.
     dbind (dlift (case sf_active d of
         Some a \<Rightarrow> if pa_assignment_id a = assignment_id then Inr a else Inl UnknownAssignment
       | None \<Rightarrow> Inl UnknownAssignment)) (\<lambda>a.
     dbind (dlift (ensure (pa_state a \<in> {AsCreated, AsOffered, AsAccepted, AsRequiresHuman}) AssignmentTerminal)) (\<lambda>_.
     let a1 = a\<lparr>pa_attempts := update_last (\<lambda>p. p\<lparr>at_state := AtRevoked, at_reason := Some reason\<rparr>) (pa_attempts a),
               pa_updated_at_ms := now\<rparr>
     in if pa_state a = AsAccepted \<and> length (pa_attempts a1) < length (pa_ranked a1)
        then offer_next J now sent (Some reason) a1
        else
          let a2 = a1\<lparr>pa_state := AsCancelled\<rparr> in
          dbind store_load (\<lambda>d.
          dbind (store_update (\<lambda>_. Inr (archive a2 d))) (\<lambda>_. dreturn a2)))))))"

section \<open>Replies\<close>

definition is_assignment_request ::
  "integrator_json \<Rightarrow> persisted_assignment \<Rightarrow> integrator_attempt \<Rightarrow> string \<Rightarrow> agent_message \<Rightarrow> bool" where
  "is_assignment_request J a attempt dispatcher message =
     (am_from message = dispatcher \<and> am_to message = at_selected attempt \<and> am_kind message = MsgRequest
      \<and> am_about_snapshot message = pa_about_snapshot a \<and> am_reply_to message = None
      \<and> parse_integrator_profile J (am_body message)
          = Some (assignment_request a (at_attempt attempt) (at_selected attempt)))"

datatype pending_offer_recovery = Published string | Absent | Uncertain string

definition recover_bounded_reason :: string where
  "recover_bounded_reason =
     ''offer recovery scan was bounded or lost its cursor; refusing to republish blindly''"

definition recover_multiple_reason :: string where
  "recover_multiple_reason = ''multiple matching assignment requests exist; human review is required''"

definition recover_pending_offer ::
  "integrator_json \<Rightarrow> bool \<times> agent_message list \<Rightarrow> persisted_assignment \<Rightarrow> integrator_attempt \<Rightarrow> string
   \<Rightarrow> pending_offer_recovery" where
  "recover_pending_offer J signals a attempt dispatcher =
     (let (cursor_reset, messages) = signals in
      if cursor_reset then Uncertain recover_bounded_reason
      else case map am_message_id (filter (is_assignment_request J a attempt dispatcher) messages) of
        [] \<Rightarrow> Absent
      | [message_id] \<Rightarrow> Published message_id
      | _ \<Rightarrow> Uncertain recover_multiple_reason)"

fun profile_apply_order :: "integrator_profile \<Rightarrow> nat" where
  "profile_apply_order (PfAccepted _ _ _) = 0"
| "profile_apply_order (PfResult _ _ _ _) = 1"
| "profile_apply_order (PfBlocked _ _ _ _) = 1"
| "profile_apply_order (PfAssignment _ _ _ _ _ _ _) = 2"

fun expected_kind :: "integrator_profile \<Rightarrow> agent_message_kind option" where
  "expected_kind (PfAccepted _ _ _) = Some MsgStatus"
| "expected_kind (PfResult _ _ _ _) = Some MsgResult"
| "expected_kind (PfBlocked _ _ _ _) = Some MsgBlocked"
| "expected_kind (PfAssignment _ _ _ _ _ _ _) = None"

definition profile_message_matches ::
  "persisted_assignment \<Rightarrow> integrator_profile \<Rightarrow> agent_message \<Rightarrow> string \<Rightarrow> bool" where
  "profile_message_matches a profile message dispatcher =
     (case expected_kind profile of
        None \<Rightarrow> False
      | Some kind \<Rightarrow>
          (case find (\<lambda>p. at_attempt p = pf_attempt profile) (pa_attempts a) of
             None \<Rightarrow> False
           | Some attempt \<Rightarrow>
               pf_assignment_id profile = pa_assignment_id a
               \<and> pf_about_snapshot profile = pa_about_snapshot a
               \<and> am_about_snapshot message = pa_about_snapshot a
               \<and> am_from message = at_selected attempt
               \<and> am_to message = dispatcher
               \<and> am_kind message = kind
               \<and> am_reply_to message = at_request_message_id attempt
               \<and> (case profile of
                    PfResult _ _ _ digest \<Rightarrow> dg_assignment_id digest = pa_assignment_id a
                      \<and> dg_about_snapshot digest = pa_about_snapshot a \<and> dg_integrator digest = at_selected attempt
                  | _ \<Rightarrow> True)))"

fun outcome_attempt_state :: "integrator_outcome_state \<Rightarrow> integrator_attempt_state" where
  "outcome_attempt_state OsCompleted = AtCompleted"
| "outcome_attempt_state _ = AtBlocked"

fun outcome_assignment_state :: "integrator_outcome_state \<Rightarrow> integrator_assignment_state" where
  "outcome_assignment_state OsCompleted = AsCompleted"
| "outcome_assignment_state OsBlocked = AsBlocked"
| "outcome_assignment_state OsRequiresHuman = AsRequiresHuman"
| "outcome_assignment_state OsCancelled = AsCancelled"

text \<open>The first attempt of the number is updated in place.\<close>

fun update_attempt :: "nat \<Rightarrow> (integrator_attempt \<Rightarrow> integrator_attempt) \<Rightarrow> integrator_attempt list \<Rightarrow> integrator_attempt list" where
  "update_attempt n f [] = []"
| "update_attempt n f (p # ps) = (if at_attempt p = n then f p # ps else p # update_attempt n f ps)"

definition apply_profile ::
  "persisted_assignment \<Rightarrow> integrator_profile \<Rightarrow> agent_message \<Rightarrow> string \<Rightarrow> int \<Rightarrow> persisted_assignment option" where
  "apply_profile a profile message dispatcher now =
     (if \<not> profile_message_matches a profile message dispatcher then None
      else if pf_attempt profile \<noteq> length (pa_attempts a) - 1 \<or> pa_state a = AsRevoked then None
      else case find (\<lambda>p. at_attempt p = pf_attempt profile) (pa_attempts a) of
        None \<Rightarrow> None
      | Some attempt \<Rightarrow>
          if \<not> is_open (at_state attempt) then None
          else case profile of
            PfAccepted _ _ _ \<Rightarrow>
              if pa_state a \<noteq> AsOffered then None
              else Some (a\<lparr>pa_attempts := update_attempt (pf_attempt profile) (\<lambda>p. p\<lparr>at_state := AtAccepted,
                     at_acceptance_message_id := Some (am_message_id message)\<rparr>) (pa_attempts a),
                   pa_state := AsAccepted, pa_updated_at_ms := now\<rparr>)
          | PfResult _ _ _ digest \<Rightarrow>
              if pa_state a \<noteq> AsAccepted then None
              else if am_reply_to message \<noteq> at_request_message_id attempt then None
              else if dg_assignment_id digest \<noteq> pa_assignment_id a then None
              else Some (a\<lparr>pa_attempts := update_attempt (pf_attempt profile) (\<lambda>p. p\<lparr>
                     at_state := outcome_attempt_state (dg_state digest),
                     at_terminal_message_id := Some (am_message_id message), at_reason := Some (dg_outcome digest)\<rparr>) (pa_attempts a),
                   pa_digest := Some digest, pa_state := outcome_assignment_state (dg_state digest), pa_updated_at_ms := now\<rparr>)
          | PfBlocked _ _ _ reason \<Rightarrow>
              if pa_state a \<notin> {AsOffered, AsAccepted} then None
              else Some (a\<lparr>pa_attempts := update_attempt (pf_attempt profile) (\<lambda>p. p\<lparr>at_state := AtBlocked,
                     at_reason := Some reason, at_terminal_message_id := Some (am_message_id message)\<rparr>) (pa_attempts a),
                   pa_state := AsBlocked, pa_updated_at_ms := now\<rparr>)
          | PfAssignment _ _ _ _ _ _ _ \<Rightarrow> None)"

section \<open>Observation\<close>

record observe_options =
  oo_ack_timeout_ms :: "nat option"
  oo_fallback_on_blocked :: bool

text \<open>
  What a pass gets from outside: the clock at each reading, the signals since the cursor, the message
  identifier of each request it sends, the inbox as whether the cursor was lost, the messages and the new
  cursor, and whether a snapshot could be reached. \<open>None\<close> is an error.
\<close>

record observe_env =
  oe_clock :: "nat \<Rightarrow> int"
  oe_signals :: "(bool \<times> agent_message list) option"
  oe_resent :: "string option"
  oe_inbox :: "(bool \<times> agent_message list \<times> string) option"
  oe_reachable :: "string \<Rightarrow> bool"
  oe_sent :: "string option"

record observe_result =
  or_assignment_id :: "string option"
  or_state :: "integrator_assignment_state option"
  or_messages_processed :: nat
  or_cursor :: "string option"
  or_cursor_reset :: bool
  or_action :: string

definition observe_none :: observe_result where
  "observe_none = \<lparr>or_assignment_id = None, or_state = None, or_messages_processed = 0, or_cursor = None,
     or_cursor_reset = False, or_action = ''none''\<rparr>"

definition dispatcher_human :: string where "dispatcher_human = ''human''"

fun assignment_action :: "integrator_assignment_state \<Rightarrow> string" where
  "assignment_action AsAccepted = ''accepted''"
| "assignment_action AsCompleted = ''completed''"
| "assignment_action AsBlocked = ''blocked''"
| "assignment_action AsRequiresHuman = ''requires_human''"
| "assignment_action AsCancelled = ''cancelled''"
| "assignment_action AsRevoked = ''revoked''"
| "assignment_action AsCreated = ''created''"
| "assignment_action AsOffered = ''offered''"

text \<open>An offer that was recorded but whose request may not have been sent. \<open>Inl\<close> ends the pass.\<close>

definition needs_send :: "persisted_assignment \<Rightarrow> bool" where
  "needs_send a = (pa_attempts a \<noteq> [] \<and> at_state (last (pa_attempts a)) = AtOffered
     \<and> at_request_message_id (last (pa_attempts a)) = None)"

definition observe_recover ::
  "integrator_json \<Rightarrow> observe_env \<Rightarrow> persisted_assignment \<Rightarrow> (observe_result + persisted_assignment \<times> string) dispatch" where
  "observe_recover J env a =
     (if \<not> needs_send a then dreturn (Inr (a, ''none''))
      else
        let attempt = last (pa_attempts a);
            continue = (\<lambda>message_id action.
              let a1 = record_request message_id a in
              dbind (put_active a1) (\<lambda>_. dreturn (Inr (a1, action))))
        in
        dbind (dlift (ok_or (oe_signals env) InboxFailed)) (\<lambda>signals.
        (case recover_pending_offer J signals a attempt dispatcher_human of
           Published message_id \<Rightarrow> continue message_id ''recovered_offer''
         | Absent \<Rightarrow>
             dbind (dlift (send_assignment_request J (oe_resent env) a (at_attempt attempt) (at_selected attempt)))
               (\<lambda>message_id. continue message_id ''offered'')
         | Uncertain reason \<Rightarrow>
             let a1 = a\<lparr>pa_state := AsRequiresHuman, pa_updated_at_ms := oe_clock env 0,
                        pa_attempts := update_last (\<lambda>p. p\<lparr>at_reason := Some reason\<rparr>) (pa_attempts a)\<rparr> in
             dbind (store_update (\<lambda>d. Inr (archive a1 d))) (\<lambda>_.
             dreturn (Inl \<lparr>or_assignment_id = Some (pa_assignment_id a), or_state = Some AsRequiresHuman,
               or_messages_processed = 0, or_cursor = pa_inbox_cursor a, or_cursor_reset = True,
               or_action = ''requires_human''\<rparr>)))))"

definition reply_le :: "agent_message \<times> integrator_profile \<Rightarrow> agent_message \<times> integrator_profile \<Rightarrow> bool" where
  "reply_le l r =
     (let key = (\<lambda>(m, p). (profile_apply_order p, sint (am_created_at_ms m), am_message_id m)) in
      (case (key l, key r) of ((o1, c1, i1), (o2, c2, i2)) \<Rightarrow>
         o1 < o2 \<or> o1 = o2 \<and> (c1 < c2 \<or> c1 = c2 \<and> i1 \<le> i2)))"

definition observe_reply ::
  "observe_env \<Rightarrow> nat \<Rightarrow> agent_message \<times> integrator_profile \<Rightarrow> persisted_assignment \<Rightarrow> persisted_assignment option" where
  "observe_reply env n reply a =
     (let (message, profile) = reply in
      if \<not> profile_message_matches a profile message dispatcher_human then None
      else if (case profile of PfResult _ _ _ digest \<Rightarrow> \<not> oe_reachable env (dg_inspected_snapshot digest) | _ \<Rightarrow> False) then None
      else apply_profile a profile message dispatcher_human (oe_clock env n))"

fun observe_replies ::
  "observe_env \<Rightarrow> nat \<Rightarrow> (agent_message \<times> integrator_profile) list \<Rightarrow> persisted_assignment \<Rightarrow> nat \<Rightarrow> string
   \<Rightarrow> (persisted_assignment \<times> nat \<times> string) dispatch" where
  "observe_replies env n [] a processed action = dreturn (a, processed, action)"
| "observe_replies env n (r # rs) a processed action =
     (case observe_reply env n r a of
        None \<Rightarrow> observe_replies env (Suc n) rs a processed action
      | Some a1 \<Rightarrow>
          dbind (put_active a1) (\<lambda>_. observe_replies env (Suc n) rs a1 (Suc processed) (assignment_action (pa_state a1))))"

definition elapsed_ms :: "int \<Rightarrow> int \<Rightarrow> nat" where
  "elapsed_ms now offered_at = nat (max 0 (max (- (2 ^ 63)) (min (2 ^ 63 - 1) (now - offered_at))))"

definition observe_timeout ::
  "integrator_json \<Rightarrow> observe_options \<Rightarrow> observe_env \<Rightarrow> persisted_assignment \<Rightarrow> string
   \<Rightarrow> (persisted_assignment \<times> string) dispatch" where
  "observe_timeout J options env a action =
     (case (if pa_state a = AsOffered
            then (if oo_ack_timeout_ms options = None then pa_ack_timeout_ms a else oo_ack_timeout_ms options) else None) of
        None \<Rightarrow> dreturn (a, action)
      | Some timeout \<Rightarrow>
          let offered_at = (if pa_attempts a = [] then 0 else at_offered_at_ms (last (pa_attempts a))) in
          if elapsed_ms (oe_clock env 1) offered_at < timeout then dreturn (a, action)
          else
            let a1 = a\<lparr>pa_attempts := update_last (\<lambda>p. p\<lparr>at_state := AtTimedOut\<rparr>) (pa_attempts a)\<rparr> in
            dbind (if length (pa_attempts a1) < length (pa_ranked a1)
                   then dbind (offer_next J (oe_clock env 2) (oe_sent env) (Some ''acknowledgement timed out'') a1)
                          (\<lambda>a2. dreturn (a2, ''offered_next''))
                   else dreturn (a1\<lparr>pa_state := AsCancelled, pa_attempts := update_last (\<lambda>p.
                          p\<lparr>at_reason := Some ''no candidate acknowledged within the timeout''\<rparr>) (pa_attempts a1)\<rparr>, ''cancelled''))
              (\<lambda>(a3, action). dbind (put_active a3) (\<lambda>_. dreturn (a3, action))))"

definition observe_blocked ::
  "integrator_json \<Rightarrow> observe_options \<Rightarrow> observe_env \<Rightarrow> persisted_assignment \<Rightarrow> string
   \<Rightarrow> (persisted_assignment \<times> string) dispatch" where
  "observe_blocked J options env a action =
     (if pa_state a \<noteq> AsBlocked \<or> \<not> oo_fallback_on_blocked options then dreturn (a, action)
      else
        dbind (if length (pa_attempts a) < length (pa_ranked a)
               then
                 let reason = (if pa_attempts a = [] then ''candidate reported a blocker''
                       else case at_reason (last (pa_attempts a)) of
                         Some r \<Rightarrow> r | None \<Rightarrow> ''candidate reported a blocker'')
                 in dbind (offer_next J (oe_clock env 2) (oe_sent env) (Some reason) a) (\<lambda>a2. dreturn (a2, ''offered_next''))
               else dreturn (a\<lparr>pa_attempts := update_last (\<lambda>p.
                      p\<lparr>at_reason := Some ''no candidate could complete the assignment''\<rparr>) (pa_attempts a)\<rparr>, ''blocked''))
          (\<lambda>(a3, action). dbind (put_active a3) (\<lambda>_. dreturn (a3, action))))"

definition is_terminal :: "integrator_assignment_state \<Rightarrow> bool" where
  "is_terminal st = (st \<in> {AsCompleted, AsBlocked, AsRequiresHuman, AsCancelled})"

definition observe_finish ::
  "persisted_assignment \<Rightarrow> nat \<Rightarrow> string option \<Rightarrow> string \<Rightarrow> observe_result dispatch" where
  "observe_finish a processed cursor action =
     (let result = \<lparr>or_assignment_id = Some (pa_assignment_id a), or_state = Some (pa_state a),
            or_messages_processed = processed, or_cursor = cursor, or_cursor_reset = False, or_action = action\<rparr> in
      if is_terminal (pa_state a)
      then dbind (store_update (\<lambda>d. Inr (archive a d))) (\<lambda>_. dreturn (result\<lparr>or_action := assignment_action (pa_state a)\<rparr>))
      else dbind (put_active a) (\<lambda>_. dreturn result))"

definition cursor_reset_reason :: string where
  "cursor_reset_reason = ''inbox cursor reset: older coordination signals may have been missed; stop automatic mutation and recover dispatcher state''"

definition observe_inbox ::
  "integrator_json \<Rightarrow> observe_options \<Rightarrow> observe_env \<Rightarrow> persisted_assignment \<Rightarrow> string \<Rightarrow> observe_result dispatch" where
  "observe_inbox J options env a action =
     dbind (dlift (ok_or (oe_inbox env) InboxFailed)) (\<lambda>(cursor_reset, messages, cursor).
     if cursor_reset then
       let a1 = a\<lparr>pa_state := AsRequiresHuman, pa_updated_at_ms := oe_clock env 0,
                  pa_attempts := update_last (\<lambda>p. p\<lparr>at_reason := Some cursor_reset_reason\<rparr>) (pa_attempts a)\<rparr> in
       dbind (put_active a1) (\<lambda>_.
       dreturn \<lparr>or_assignment_id = Some (pa_assignment_id a), or_state = Some AsRequiresHuman, or_messages_processed = 0,
         or_cursor = pa_inbox_cursor a, or_cursor_reset = True, or_action = ''requires_human''\<rparr>)
     else
       let replies = sort_by reply_le (List.map_filter (\<lambda>m. map_option (\<lambda>p. (m, p)) (parse_integrator_profile J (am_body m))) messages) in
       dbind (observe_replies env 3 replies a 0 action) (\<lambda>(a1, processed, action).
       let a2 = (if cursor = [] then a1 else a1\<lparr>pa_inbox_cursor := Some cursor\<rparr>);
           next_cursor = (if cursor = [] then pa_inbox_cursor a else Some cursor) in
       dbind (observe_timeout J options env a2 action) (\<lambda>(a3, action).
       dbind (observe_blocked J options env a3 action) (\<lambda>(a4, action).
       observe_finish a4 processed next_cursor action))))"

definition integrator_observe ::
  "integrator_json \<Rightarrow> observe_options \<Rightarrow> observe_env \<Rightarrow> observe_result dispatch" where
  "integrator_observe J options env =
     dbind store_load (\<lambda>d.
     (case sf_active d of
        None \<Rightarrow> dreturn observe_none
      | Some a \<Rightarrow>
          dbind (observe_recover J env a) (\<lambda>r.
          (case r of Inl result \<Rightarrow> dreturn result | Inr (a1, action) \<Rightarrow> observe_inbox J options env a1 action))))"

definition integrator_resume ::
  "integrator_json \<Rightarrow> observe_options \<Rightarrow> observe_env \<Rightarrow> observe_result dispatch" where
  "integrator_resume J options env =
     dbind store_load (\<lambda>d. if sf_active d = None then dreturn observe_none else integrator_observe J options env)"

section \<open>The draw is auditable\<close>

lemma sort_mset_cong: "mset xs = mset ys \<Longrightarrow> sort xs = sort ys"
  by (metis mset_sort properties_for_sort sorted_sort)

lemma pool_names_cong:
  assumes "mset cs = mset (ii_candidates input)"
  shows "pool_names (input\<lparr>ii_candidates := cs\<rparr>) p = pool_names input p"
proof -
  have able: "able (input\<lparr>ii_candidates := cs\<rparr>) = able input" by (simp add: able_def fun_eq_iff)
  have "mset (map ic_name (filter (\<lambda>c. able input c \<and> p c) cs))
      = mset (map ic_name (filter (\<lambda>c. able input c \<and> p c) (ii_candidates input)))"
    by (simp add: mset_filter assms)
  then show ?thesis by (simp add: pool_names_def able sort_mset_cong)
qed

lemma neutral_candidate_update [simp]: "neutral_candidate (input\<lparr>ii_candidates := cs\<rparr>) = neutral_candidate input"
  by (simp add: neutral_candidate_def fun_eq_iff)

lemma roster_ok_cong:
  assumes "mset cs = mset (ii_candidates input)"
  shows "roster_ok (input\<lparr>ii_candidates := cs\<rparr>) = roster_ok input"
proof -
  have "set cs = set (ii_candidates input)" "length cs = length (ii_candidates input)" "cs = [] \<longleftrightarrow> ii_candidates input = []"
    using assms by (metis mset_eq_setD, metis mset_eq_length, metis mset_zero_iff)
  moreover have "mset (map ic_name cs) = mset (map ic_name (ii_candidates input))" using assms by simp
  then have "distinct (map ic_name cs) = distinct (map ic_name (ii_candidates input))"
    by (rule mset_eq_imp_distinct_iff)
  ultimately show ?thesis by (simp add: roster_ok_def list_all_iff)
qed

lemma pool_names_set:
  "roster_ok input \<Longrightarrow> distinct (pool_names input p)
   \<and> set (pool_names input p) = ic_name ` {c \<in> set (ii_candidates input). able input c \<and> p c}"
  by (auto simp: pool_names_def roster_ok_def distinct_map_filter)

lemma draw_pool:
  assumes "filter_eligible input = Inr e"
  shows "distinct (selection_pool e) \<and> set (selection_pool e) \<subseteq> ic_name ` set (ii_candidates input)
    \<and> length (selection_pool e) \<le> integrator_max_candidates"
proof -
  have roster: "roster_ok input" using assms by (simp add: filter_eligible_iff)
  have "distinct (selection_pool e) \<and> set (selection_pool e) \<subseteq> ic_name ` set (ii_candidates input)"
    using assms pool_names_set [OF roster] by (auto simp: filter_eligible_iff selection_pool_def)
  moreover from this have "length (selection_pool e) \<le> length (ii_candidates input)"
    by (metis List.finite_set card_image_le card_length card_mono distinct_card finite_imageI le_trans)
  ultimately show ?thesis using roster by (simp add: roster_ok_def)
qed

lemma draw_ranked:
  assumes "filter_eligible input = Inr e"
    and "integrator_draw P J workspace_id id_bytes nonce_bytes input e = Inr (aid, nonce, fp, ranked, requirements)"
  shows "distinct ranked \<and> ranked \<noteq> [] \<and> length ranked \<le> integrator_max_candidates"
proof -
  have rank: "rank_candidates P workspace_id (ii_about_snapshot input) aid nonce fp (selection_pool e) = Inr ranked"
    using assms(2) by (auto simp: integrator_draw_def rbind_eq_Inr)
  note pool = draw_pool [OF assms(1)]
  then have "distinct (selection_pool e)" by blast
  note r = rank_candidates_Inr [OF rank this]
  have "selection_pool e \<noteq> []" using rank by (auto simp: rank_candidates_def rbind_eq_Inr)
  moreover have "length ranked = length (selection_pool e)" using r pool by (metis distinct_card)
  ultimately show ?thesis using r pool by auto
qed

text \<open>
  C21. The draw of an integrator is auditable. The ranking lists, each once, the candidates that are enabled,
  available, not excluded and have every required capability; only those that authored no conflicting side
  if there is any such candidate. They are in the order of their scores, ties by name. And the draw is a
  function of the seeds and of the roster as a set: whoever repeats it with the candidates in another order
  gets the same identifiers, fingerprint and ranking.
\<close>

theorem integrator_draw_auditable:
  assumes "filter_eligible input = Inr e"
    and "integrator_draw P J workspace_id id_bytes nonce_bytes input e = Inr (aid, nonce, fp, ranked, requirements)"
  defines "score \<equiv> candidate_score P workspace_id (ii_about_snapshot input) aid nonce fp"
  defines "pool \<equiv> {c \<in> set (ii_candidates input). ic_enabled c \<and> ic_available c \<and> ic_name c \<notin> set (ii_excluded input)
      \<and> set (ii_required_capabilities input) \<subseteq> set (ic_capabilities c)}"
  defines "neutral \<equiv> {c \<in> pool. ic_name c \<notin> set (ii_conflict_authors input)}"
  shows "distinct ranked \<and> ranked \<noteq> []
    \<and> set ranked = ic_name ` (if neutral \<noteq> {} then neutral else pool)
    \<and> sorted_wrt (\<lambda>x y. score x < score y \<or> score x = score y \<and> x < y) ranked
    \<and> (\<forall>cs. mset cs = mset (ii_candidates input) \<longrightarrow>
         filter_eligible (input\<lparr>ii_candidates := cs\<rparr>) = Inr e
         \<and> integrator_draw P J workspace_id id_bytes nonce_bytes (input\<lparr>ii_candidates := cs\<rparr>) e
             = Inr (aid, nonce, fp, ranked, requirements))"
proof -
  have roster: "roster_ok input" and e: "e = \<lparr>el_eligible = pool_names input (\<lambda>_. True),
      el_neutral = pool_names input (neutral_candidate input),
      el_neutral_integrator = (pool_names input (neutral_candidate input) \<noteq> []),
      el_no_candidate_reason = (if pool_names input (\<lambda>_. True) = [] then Some no_eligible_reason else None)\<rparr>"
    using assms(1) unfolding filter_eligible_iff by blast+
  have n: "distinct (pool_names input (neutral_candidate input))" "set (pool_names input (neutral_candidate input)) = ic_name ` neutral"
    and a: "distinct (pool_names input (\<lambda>_. True))" "set (pool_names input (\<lambda>_. True)) = ic_name ` pool"
    using pool_names_set [OF roster] by (auto simp: neutral_def pool_def able_def neutral_candidate_def)
  have drawn: "distinct (selection_pool e)" "set (selection_pool e) = ic_name ` (if neutral \<noteq> {} then neutral else pool)"
    using n a by (auto simp: selection_pool_def e)
  have rank: "rank_candidates P workspace_id (ii_about_snapshot input) aid nonce fp (selection_pool e) = Inr ranked"
    using assms(2) by (auto simp: integrator_draw_def rbind_eq_Inr)
  then have "ranked \<noteq> []" using rank_candidates_Inr [OF rank drawn(1)]
    by (auto simp: rank_candidates_def rbind_eq_Inr)
  moreover have "filter_eligible (input\<lparr>ii_candidates := cs\<rparr>) = Inr e"
    if "mset cs = mset (ii_candidates input)" for cs
    unfolding filter_eligible_iff roster_ok_cong [OF that] e
    using roster that by (simp add: pool_names_cong)
  moreover have "integrator_draw P J workspace_id id_bytes nonce_bytes (input\<lparr>ii_candidates := cs\<rparr>) e
      = Inr (aid, nonce, fp, ranked, requirements)" for cs
    using assms(2) by (simp add: integrator_draw_def)
  ultimately show ?thesis
    using rank_candidates_Inr [OF rank drawn(1)] drawn(2) unfolding score_def by blast
qed

section \<open>The life cycle of an assignment\<close>

lemma dbind_if: "dbind (if c then m else n) f = (if c then dbind m f else dbind n f)"
  by simp

text \<open>
  A rule of inference per operation of the log: what an operation writes satisfies the invariant if what was
  there did, and its result the postcondition.
\<close>

locale logged_writes =
  fixes I :: "integrator_state_file \<Rightarrow> bool"
  assumes schema: "I d \<Longrightarrow> I (d\<lparr>sf_schema_version := v\<rparr>)"
begin

definition log_ok :: "dispatcher_log \<Rightarrow> bool" where
  "log_ok log \<longleftrightarrow> I (lg_disk log) \<and> (\<forall>d\<in>set (lg_writes log). I d)"

definition valid :: "('a \<Rightarrow> bool) \<Rightarrow> 'a dispatch \<Rightarrow> bool" where
  "valid Q m \<longleftrightarrow> (\<forall>log r log'. log_ok log \<and> m log = (r, log') \<longrightarrow> log_ok log' \<and> (\<forall>x. r = Inr x \<longrightarrow> Q x))"

lemma valid_bind: "valid R m \<Longrightarrow> (\<And>x. R x \<Longrightarrow> valid Q (f x)) \<Longrightarrow> valid Q (dbind m f)"
  unfolding valid_def
proof (intro allI impI)
  fix log r log'
  assume m: "\<forall>log r log'. log_ok log \<and> m log = (r, log') \<longrightarrow> log_ok log' \<and> (\<forall>x. r = Inr x \<longrightarrow> R x)"
    and f: "\<And>x. R x \<Longrightarrow> \<forall>log r log'. log_ok log \<and> f x log = (r, log') \<longrightarrow> log_ok log' \<and> (\<forall>x. r = Inr x \<longrightarrow> Q x)"
    and run: "log_ok log \<and> dbind m f log = (r, log')"
  obtain u log1 where u: "m log = (u, log1)" by force
  with m run have log1: "log_ok log1" "\<And>x. u = Inr x \<Longrightarrow> R x" by blast+
  show "log_ok log' \<and> (\<forall>x. r = Inr x \<longrightarrow> Q x)"
  proof (cases u)
    case (Inl e)
    then show ?thesis using run u log1 by (auto simp: dbind_def)
  next
    case (Inr x)
    then have "f x log1 = (r, log')" using run u by (simp add: dbind_def)
    with f [of x] log1 Inr show ?thesis by blast
  qed
qed

lemma valid_return: "Q x \<Longrightarrow> valid Q (dreturn x)"
  by (simp add: valid_def dreturn_def)

lemma valid_lift: "(\<And>x. r = Inr x \<Longrightarrow> Q x) \<Longrightarrow> valid Q (dlift r)"
  by (simp add: valid_def dlift_def)

lemma valid_load: "(\<And>d. I d \<Longrightarrow> Q d) \<Longrightarrow> valid Q store_load"
  by (auto simp: valid_def store_load_def log_ok_def)

lemma valid_update: "(\<And>d d'. I d \<Longrightarrow> f d = Inr d' \<Longrightarrow> I d') \<Longrightarrow> Q () \<Longrightarrow> valid Q (store_update f)"
  unfolding valid_def
proof (intro allI impI)
  fix log r log'
  assume f: "\<And>d d'. I d \<Longrightarrow> f d = Inr d' \<Longrightarrow> I d'" and q: "Q ()" and run: "log_ok log \<and> store_update f log = (r, log')"
  show "log_ok log' \<and> (\<forall>x. r = Inr x \<longrightarrow> Q x)"
  proof (cases "f (lg_disk log)")
    case (Inl e)
    then show ?thesis using run q by (auto simp: store_update_def split: if_splits)
  next
    case (Inr d)
    then have "I (d\<lparr>sf_schema_version := integrator_state_schema_version\<rparr>)"
      using f run schema by (auto simp: log_ok_def)
    then show ?thesis using run Inr q by (auto simp: store_update_def log_ok_def Let_def split: if_splits)
  qed
qed

lemma valid_if: "(c \<Longrightarrow> valid Q m) \<Longrightarrow> (\<not> c \<Longrightarrow> valid Q n) \<Longrightarrow> valid Q (if c then m else n)"
  by simp

lemma valid_writes:
  assumes "valid Q m" and "I d" and "m \<lparr>lg_disk = d, lg_writes = []\<rparr> = (r, log)" and "d' \<in> set (lg_writes log)"
  shows "I d'"
proof -
  have "log_ok \<lparr>lg_disk = d, lg_writes = []\<rparr>" using assms(2) by (simp add: log_ok_def)
  with assms(1,3) have "log_ok log" unfolding valid_def by blast
  with assms(4) show ?thesis by (simp add: log_ok_def)
qed

end

definition base_ok :: "persisted_assignment \<Rightarrow> bool" where
  "base_ok a \<longleftrightarrow> distinct (pa_ranked a) \<and> pa_ranked a \<noteq> [] \<and> length (pa_ranked a) \<le> integrator_max_candidates
     \<and> length (pa_attempts a) \<le> length (pa_ranked a)
     \<and> map at_attempt (pa_attempts a) = [0..<length (pa_attempts a)]
     \<and> map at_selected (pa_attempts a) = take (length (pa_attempts a)) (pa_ranked a)
     \<and> list_all (\<lambda>p. \<not> is_open (at_state p)) (butlast (pa_attempts a))"

definition verified_digest :: "persisted_assignment \<Rightarrow> integrator_digest \<Rightarrow> bool" where
  "verified_digest a d \<longleftrightarrow> dg_integrator d = at_selected (last (pa_attempts a)) \<and> dg_assignment_id d = pa_assignment_id a
     \<and> dg_about_snapshot d = pa_about_snapshot a \<and> dg_state d = OsCompleted
     \<and> vs_status (dg_verification d) = VPassed \<and> dg_remaining_conflicts d = 0 \<and> dg_decision_required d = None"

definition stage_ok :: "persisted_assignment \<Rightarrow> bool" where
  "stage_ok a \<longleftrightarrow>
     (case pa_state a of
        AsCreated \<Rightarrow> pa_attempts a = []
      | AsOffered \<Rightarrow> pa_attempts a \<noteq> [] \<and> at_state (last (pa_attempts a)) = AtOffered
      | AsAccepted \<Rightarrow> pa_attempts a \<noteq> [] \<and> at_state (last (pa_attempts a)) = AtAccepted
          \<and> at_acceptance_message_id (last (pa_attempts a)) \<noteq> None
      | AsCompleted \<Rightarrow> pa_attempts a \<noteq> [] \<and> at_state (last (pa_attempts a)) = AtCompleted
          \<and> (\<exists>d. pa_digest a = Some d \<and> verified_digest a d)
      | AsBlocked \<Rightarrow> pa_attempts a \<noteq> [] \<and> at_state (last (pa_attempts a)) = AtBlocked
      | AsRevoked \<Rightarrow> False
      | AsRequiresHuman \<Rightarrow> True
      | AsCancelled \<Rightarrow> pa_attempts a = [] \<or> \<not> is_open (at_state (last (pa_attempts a))))"

definition assignment_ok :: "persisted_assignment \<Rightarrow> bool" where
  "assignment_ok a \<longleftrightarrow> base_ok a \<and> stage_ok a"

definition file_ok :: "integrator_state_file \<Rightarrow> bool" where
  "file_ok d \<longleftrightarrow> (\<forall>a. sf_active d = Some a \<longrightarrow> assignment_ok a) \<and> (\<forall>a\<in>set (sf_history d). assignment_ok a)
     \<and> length (sf_history d) \<le> integrator_max_history"

interpretation dispatcher: logged_writes file_ok
  by unfold_locales (simp add: file_ok_def)

subsection \<open>Updates of the last attempt\<close>

lemma update_last_simps [simp]:
  "update_last f xs = [] \<longleftrightarrow> xs = []"
  "length (update_last f xs) = length xs"
  "butlast (update_last f xs) = butlast xs"
  by (simp_all add: update_last_def)

lemma last_update_last [simp]: "xs \<noteq> [] \<Longrightarrow> last (update_last f xs) = f (last xs)"
  by (simp add: update_last_def)

lemma map_update_last:
  assumes "\<And>p. g (f p) = g p"
  shows "map g (update_last f xs) = map g xs"
proof (cases xs rule: rev_cases)
  case (snoc ys y)
  then show ?thesis using assms by (simp add: update_last_def)
qed (simp add: update_last_def)

lemma base_ok_update_last:
  assumes "base_ok a" and "\<And>p. at_attempt (f p) = at_attempt p" and "\<And>p. at_selected (f p) = at_selected p"
    and "pa_ranked b = pa_ranked a" and "pa_attempts b = update_last f (pa_attempts a)"
  shows "base_ok b"
  using assms map_update_last [of at_attempt f, OF assms(2)] map_update_last [of at_selected f, OF assms(3)]
  by (simp add: base_ok_def)

lemma base_ok_same: "base_ok a \<Longrightarrow> pa_ranked b = pa_ranked a \<Longrightarrow> pa_attempts b = pa_attempts a \<Longrightarrow> base_ok b"
  by (simp add: base_ok_def)

text \<open>Attempts are numbered from zero, so the attempt with the last number is the last one.\<close>

lemma attempt_snoc:
  assumes "map at_attempt xs = [0..<length xs]" and "xs \<noteq> []"
  obtains ys p where "xs = ys @ [p]" "at_attempt p = length ys" "\<forall>y\<in>set ys. at_attempt y \<noteq> length ys"
proof -
  obtain ys p where xs: "xs = ys @ [p]" using assms(2) by (cases xs rule: rev_cases) auto
  with assms(1) have "map at_attempt ys = [0..<length ys]" "at_attempt p = length ys" by auto
  moreover from this(1) have "at_attempt ` set ys = {0..<length ys}" by (metis list.set_map set_upt)
  then have "\<forall>y\<in>set ys. at_attempt y \<noteq> length ys" by force
  ultimately show thesis using that xs by blast
qed

lemma last_attempt:
  assumes "map at_attempt xs = [0..<length xs]" and "xs \<noteq> []"
  shows "find (\<lambda>p. at_attempt p = length xs - 1) xs = Some (last xs)"
    "update_attempt (length xs - 1) f xs = update_last f xs"
proof -
  obtain ys p where x: "xs = ys @ [p]" "at_attempt p = length ys" "\<forall>y\<in>set ys. at_attempt y \<noteq> length ys"
    using assms by (rule attempt_snoc)
  have "find (\<lambda>p. at_attempt p = n) (ys @ [p]) = Some p \<and> update_attempt n f (ys @ [p]) = ys @ [f p]"
    if "\<forall>y\<in>set ys. at_attempt y \<noteq> n" "at_attempt p = n" for n ys
    using that by (induction ys) auto
  from this [of ys "length ys"] x show "find (\<lambda>p. at_attempt p = length xs - 1) xs = Some (last xs)"
    "update_attempt (length xs - 1) f xs = update_last f xs" by (simp_all add: update_last_def)
qed

lemma parse_integrator_profile_valid: "parse_integrator_profile J body = Some p \<Longrightarrow> is_ok (validate_profile p)"
  by (auto simp: parse_integrator_profile_def split: if_splits option.splits)

lemma validated_digest:
  "is_ok (validate_profile (PfResult i n s d)) \<Longrightarrow> dg_state d = OsCompleted \<Longrightarrow>
   vs_status (dg_verification d) = VPassed \<and> dg_remaining_conflicts d = 0 \<and> dg_decision_required d = None"
  by (auto simp: validate_profile_def validate_integrator_digest_def is_ok_iff rbind_eq_Inr)

lemma apply_profile_ok:
  assumes "assignment_ok a" and "is_ok (validate_profile profile)"
    and "apply_profile a profile message dispatcher now = Some b"
  shows "assignment_ok b"
proof -
  let ?n = "length (pa_attempts a) - 1" and ?p = "last (pa_attempts a)"
  have base: "base_ok a" using assms(1) by (simp add: assignment_ok_def)
  then have num: "map at_attempt (pa_attempts a) = [0..<length (pa_attempts a)]" by (simp add: base_ok_def)
  have match: "profile_message_matches a profile message dispatcher" and n: "pf_attempt profile = ?n"
    using assms(3) by (auto simp: apply_profile_def split: if_splits)
  then have ne: "pa_attempts a \<noteq> []"
    by (auto simp: profile_message_matches_def split: option.splits)
  note found = last_attempt [OF num ne]
  have result: "dg_integrator d = at_selected ?p \<and> dg_assignment_id d = pa_assignment_id a \<and> dg_about_snapshot d = pa_about_snapshot a"
    if "profile = PfResult i k s' d" for i k s' d
    using match n found(1) that by (simp add: profile_message_matches_def)
  show ?thesis
  proof (cases profile)
    case (PfAssignment i k s' sel fp neutral task)
    then show ?thesis using match by (simp add: profile_message_matches_def)
  next
    case (PfAccepted i k s')
    then have b: "b = a\<lparr>pa_attempts := update_last (\<lambda>p. p\<lparr>at_state := AtAccepted,
          at_acceptance_message_id := Some (am_message_id message)\<rparr>) (pa_attempts a), pa_state := AsAccepted, pa_updated_at_ms := now\<rparr>"
      using assms(3) n found by (auto simp: apply_profile_def split: if_splits)
    then show ?thesis using ne base_ok_update_last [OF base, where b = b]
      by (simp add: assignment_ok_def stage_ok_def b)
  next
    case (PfResult i k s' d)
    let ?f = "\<lambda>p. p\<lparr>at_state := outcome_attempt_state (dg_state d),
          at_terminal_message_id := Some (am_message_id message), at_reason := Some (dg_outcome d)\<rparr>"
    have b: "b = a\<lparr>pa_attempts := update_last ?f (pa_attempts a), pa_digest := Some d,
          pa_state := outcome_assignment_state (dg_state d), pa_updated_at_ms := now\<rparr>"
      using assms(3) n found PfResult by (auto simp: apply_profile_def split: if_splits)
    have "stage_ok b"
      using ne result [OF PfResult] validated_digest [of i k s' d] assms(2)
      by (cases "dg_state d") (simp_all add: stage_ok_def b verified_digest_def PfResult)
    moreover have "base_ok b" by (rule base_ok_update_last [OF base, where f = ?f]) (simp_all add: b)
    ultimately show ?thesis by (simp add: assignment_ok_def)
  next
    case (PfBlocked i k s' reason)
    let ?f = "\<lambda>p. p\<lparr>at_state := AtBlocked, at_reason := Some reason, at_terminal_message_id := Some (am_message_id message)\<rparr>"
    have b: "b = a\<lparr>pa_attempts := update_last ?f (pa_attempts a), pa_state := AsBlocked, pa_updated_at_ms := now\<rparr>"
      using assms(3) n found PfBlocked by (auto simp: apply_profile_def split: if_splits)
    have "base_ok b" by (rule base_ok_update_last [OF base, where f = ?f]) (simp_all add: b)
    then show ?thesis using ne by (simp add: assignment_ok_def stage_ok_def b)
  qed
qed

subsection \<open>Operations\<close>

lemma assignment_ok_note:
  assumes "assignment_ok a" and "\<And>p. at_attempt (f p) = at_attempt p" and "\<And>p. at_selected (f p) = at_selected p"
    and "\<And>p. at_state (f p) = at_state p" and "\<And>p. at_acceptance_message_id (f p) = at_acceptance_message_id p"
    and "pa_ranked b = pa_ranked a" and "pa_attempts b = update_last f (pa_attempts a)" and "pa_state b = pa_state a"
    and "pa_digest b = pa_digest a" and "pa_assignment_id b = pa_assignment_id a" and "pa_about_snapshot b = pa_about_snapshot a"
  shows "assignment_ok b"
proof -
  have "base_ok b" by (rule base_ok_update_last [OF _ assms(2,3,6,7)]) (use assms(1) in \<open>simp add: assignment_ok_def\<close>)
  moreover have "stage_ok b" using assms(1) unfolding assignment_ok_def stage_ok_def verified_digest_def
    by (cases "pa_state a") (auto simp: assms(3-11))
  ultimately show ?thesis by (simp add: assignment_ok_def)
qed

lemma record_request_ok: "assignment_ok a \<Longrightarrow> assignment_ok (record_request message_id a)"
  by (rule assignment_ok_note [where f = "\<lambda>p. p\<lparr>at_request_message_id := Some message_id\<rparr>"])
    (simp_all add: record_request_def)

lemma requires_human_ok:
  assumes "base_ok a"
  shows "assignment_ok (a\<lparr>pa_state := AsRequiresHuman, pa_updated_at_ms := now,
    pa_attempts := update_last (\<lambda>p. p\<lparr>at_reason := reason\<rparr>) (pa_attempts a)\<rparr>)"
  using base_ok_update_last [OF assms, where f = "\<lambda>p. p\<lparr>at_reason := reason\<rparr>"
      and b = "a\<lparr>pa_state := AsRequiresHuman, pa_updated_at_ms := now,
        pa_attempts := update_last (\<lambda>p. p\<lparr>at_reason := reason\<rparr>) (pa_attempts a)\<rparr>"]
  by (simp add: assignment_ok_def stage_ok_def)

lemma put_active_valid: "assignment_ok a \<Longrightarrow> Q () \<Longrightarrow> dispatcher.valid Q (put_active a)"
  unfolding put_active_def by (rule dispatcher.valid_update) (auto simp: file_ok_def split: if_splits)

lemma archive_ok: "assignment_ok a \<Longrightarrow> file_ok d \<Longrightarrow> file_ok (archive a d)"
  by (auto simp: file_ok_def archive_def dest!: in_set_takeD)

lemma supersede_ok:
  assumes "base_ok a" and "reason \<noteq> None \<or> pa_attempts a = []"
  shows "base_ok (supersede reason a) \<and> list_all (\<lambda>p. \<not> is_open (at_state p)) (pa_attempts (supersede reason a))
    \<and> length (pa_attempts (supersede reason a)) = length (pa_attempts a) \<and> pa_ranked (supersede reason a) = pa_ranked a"
proof (cases reason)
  case None
  then show ?thesis using assms by (simp add: supersede_def)
next
  case (Some r)
  let ?f = "\<lambda>p. if is_open (at_state p) then p\<lparr>at_state := AtSuperseded, at_reason := Some r\<rparr> else p"
  have s: "pa_attempts (supersede reason a) = update_last ?f (pa_attempts a)" "pa_ranked (supersede reason a) = pa_ranked a"
    by (simp_all add: supersede_def Some)
  have "base_ok (supersede reason a)" by (rule base_ok_update_last [OF assms(1), where f = ?f]) (simp_all add: s)
  moreover have "list_all (\<lambda>p. \<not> is_open (at_state p)) (update_last ?f (pa_attempts a))"
    using assms(1) by (simp add: base_ok_def update_last_def)
  ultimately show ?thesis by (simp add: s)
qed

lemma push_attempt_ok:
  assumes "base_ok a" and "list_all (\<lambda>p. \<not> is_open (at_state p)) (pa_attempts a)"
    and "length (pa_attempts a) < length (pa_ranked a)"
  shows "assignment_ok (push_attempt now a)"
  using assms by (simp add: assignment_ok_def base_ok_def stage_ok_def push_attempt_def Let_def take_Suc_conv_app_nth)

lemma offer_next_valid:
  assumes "base_ok a" and "reason \<noteq> None \<or> pa_attempts a = []"
  shows "dispatcher.valid assignment_ok (offer_next J now sent reason a)"
proof -
  note s = supersede_ok [OF assms]
  have offered: "assignment_ok (push_attempt now (supersede reason a))" if "length (pa_attempts a) < length (pa_ranked a)"
    using s that by (intro push_attempt_ok) auto
  show ?thesis unfolding offer_next_def Let_def
    by (rule dispatcher.valid_bind [where R = "\<lambda>_. length (pa_attempts a) < length (pa_ranked a)"],
        rule dispatcher.valid_lift, simp)
      (rule dispatcher.valid_bind [where R = "\<lambda>_. True"] dispatcher.valid_lift put_active_valid dispatcher.valid_return
        record_request_ok offered TrueI | assumption)+
qed

lemma create_and_offer_valid:
  assumes "base_ok a" and "pa_attempts a = []" and "pa_state a = AsCreated"
  shows "dispatcher.valid (\<lambda>_. True) (create_and_offer J env a)"
proof -
  have ok: "assignment_ok a" using assms by (simp add: assignment_ok_def stage_ok_def)
  show ?thesis unfolding create_and_offer_def
    by (rule dispatcher.valid_bind [where R = "\<lambda>_. True"], rule dispatcher.valid_update)
      (use ok in \<open>auto simp: file_ok_def rbind_eq_Inr assms
        intro!: dispatcher.valid_bind [OF offer_next_valid [OF assms(1)]] dispatcher.valid_bind [OF put_active_valid [where Q = "\<lambda>_. True"]]
          dispatcher.valid_return\<close>)
qed

lemma assign_valid: "dispatcher.valid (\<lambda>_. True) (integrator_assign P J workspace_id env input)"
  unfolding integrator_assign_def
proof (rule dispatcher.valid_bind [where R = "\<lambda>e. filter_eligible input = Inr e"])
  show "dispatcher.valid (\<lambda>e. filter_eligible input = Inr e) (dlift (assign_guard env input))"
    by (rule dispatcher.valid_lift) (auto simp: assign_guard_def rbind_eq_Inr)
next
  fix e assume e: "filter_eligible input = Inr e"
  let ?draw = "integrator_draw P J workspace_id (ae_id_bytes env) (ae_nonce_bytes env) input e"
  have "base_ok (new_assignment env input e draw)" "pa_attempts (new_assignment env input e draw) = []"
    "pa_state (new_assignment env input e draw) = AsCreated" if "?draw = Inr draw" for draw
    using draw_ranked [OF e] that by (cases draw; auto simp: new_assignment_def base_ok_def)+
  then have rest: "dispatcher.valid (\<lambda>_. True) (dbind (dlift ?draw) (\<lambda>draw. create_and_offer J env (new_assignment env input e draw)))"
    by (intro dispatcher.valid_bind [where R = "\<lambda>draw. ?draw = Inr draw"] dispatcher.valid_lift create_and_offer_valid) auto
  show "dispatcher.valid (\<lambda>_. True) (dbind store_load (\<lambda>_.
      dbind (dlift ?draw) (\<lambda>draw. create_and_offer J env (new_assignment env input e draw))))"
    by (rule dispatcher.valid_bind [where R = "\<lambda>_. True"], rule dispatcher.valid_load, simp, rule rest)
qed

lemma revoke_valid: "dispatcher.valid (\<lambda>_. True) (integrator_revoke J now sent assignment_id reason)"
proof -
  let ?r = "str_trim reason"
  have "dispatcher.valid (\<lambda>_. True) (let a1 = a\<lparr>pa_attempts := update_last (\<lambda>p. p\<lparr>at_state := AtRevoked, at_reason := Some ?r\<rparr>) (pa_attempts a),
               pa_updated_at_ms := now\<rparr>
     in if pa_state a = AsAccepted \<and> length (pa_attempts a1) < length (pa_ranked a1)
        then offer_next J now sent (Some ?r) a1
        else
          let a2 = a1\<lparr>pa_state := AsCancelled\<rparr> in
          dbind store_load (\<lambda>d.
          dbind (store_update (\<lambda>_. Inr (archive a2 d))) (\<lambda>_. dreturn a2)))" if a: "assignment_ok a" for a
  proof -
    let ?f = "\<lambda>p. p\<lparr>at_state := AtRevoked, at_reason := Some ?r\<rparr>"
    let ?a1 = "a\<lparr>pa_attempts := update_last ?f (pa_attempts a), pa_updated_at_ms := now\<rparr>"
    have base: "base_ok ?a1" by (rule base_ok_update_last [where f = ?f]) (use a in \<open>simp_all add: assignment_ok_def\<close>)
    then have "base_ok (?a1\<lparr>pa_state := AsCancelled\<rparr>)" by (rule base_ok_same) simp_all
    then have cancelled: "assignment_ok (?a1\<lparr>pa_state := AsCancelled\<rparr>)"
      by (cases "pa_attempts a = []") (simp_all add: assignment_ok_def stage_ok_def)
    have "dispatcher.valid (\<lambda>_. True) (offer_next J now sent (Some ?r) ?a1)"
      using offer_next_valid [OF base, of "Some ?r" J now sent] by (simp add: dispatcher.valid_def)
    moreover have "dispatcher.valid (\<lambda>_. True) (dbind store_load (\<lambda>d.
        dbind (store_update (\<lambda>_. Inr (archive (?a1\<lparr>pa_state := AsCancelled\<rparr>) d))) (\<lambda>_. dreturn (?a1\<lparr>pa_state := AsCancelled\<rparr>))))"
      by (rule dispatcher.valid_bind [where R = file_ok], rule dispatcher.valid_load, assumption)
        (rule dispatcher.valid_bind [where R = "\<lambda>_. True"], rule dispatcher.valid_update,
          auto intro: dispatcher.valid_return archive_ok [OF cancelled])
    ultimately show ?thesis by (simp add: Let_def)
  qed
  then show ?thesis unfolding integrator_revoke_def Let_def
    by (intro dispatcher.valid_bind [where R = "\<lambda>_. True"] dispatcher.valid_lift TrueI
        dispatcher.valid_bind [where R = file_ok] dispatcher.valid_load
        dispatcher.valid_bind [where R = assignment_ok]) (auto simp: file_ok_def split: option.splits if_splits)
qed

lemma put_then_return: "assignment_ok a \<Longrightarrow> Q x \<Longrightarrow> dispatcher.valid Q (dbind (put_active a) (\<lambda>_. dreturn x))"
  by (rule dispatcher.valid_bind [where R = "\<lambda>_. True"]) (auto intro: put_active_valid dispatcher.valid_return)

lemma archive_then_return:
  "assignment_ok a \<Longrightarrow> Q x \<Longrightarrow> dispatcher.valid Q (dbind (store_update (\<lambda>d. Inr (archive a d))) (\<lambda>_. dreturn x))"
  by (rule dispatcher.valid_bind [where R = "\<lambda>_. True"])
    (auto intro: dispatcher.valid_update dispatcher.valid_return archive_ok)

lemma recover_valid:
  assumes "assignment_ok a"
  shows "dispatcher.valid (\<lambda>r. \<forall>a1 action. r = Inr (a1, action) \<longrightarrow> assignment_ok a1) (observe_recover J env a)"
proof (cases "needs_send a")
  case False
  then show ?thesis using assms by (auto simp: observe_recover_def intro: dispatcher.valid_return)
next
  case True
  have base: "base_ok a" using assms by (simp add: assignment_ok_def)
  have continue: "dispatcher.valid (\<lambda>r. \<forall>a1 action. r = Inr (a1, action) \<longrightarrow> assignment_ok a1)
      (dbind (put_active (record_request message_id a)) (\<lambda>_. dreturn (Inr (record_request message_id a, act))))" for message_id act
    by (rule put_then_return) (use record_request_ok [OF assms] in auto)
  have "dispatcher.valid (\<lambda>r. \<forall>a1 action. r = Inr (a1, action) \<longrightarrow> assignment_ok a1)
      (case recover_pending_offer J signals a (last (pa_attempts a)) dispatcher_human of
         Published message_id \<Rightarrow> dbind (put_active (record_request message_id a))
           (\<lambda>_. dreturn (Inr (record_request message_id a, ''recovered_offer'')))
       | Absent \<Rightarrow> dbind (dlift (send_assignment_request J (oe_resent env) a (at_attempt (last (pa_attempts a)))
             (at_selected (last (pa_attempts a))))) (\<lambda>message_id. dbind (put_active (record_request message_id a))
               (\<lambda>_. dreturn (Inr (record_request message_id a, ''offered''))))
       | Uncertain reason \<Rightarrow> dbind (store_update (\<lambda>d. Inr (archive (a\<lparr>pa_state := AsRequiresHuman,
             pa_updated_at_ms := oe_clock env 0,
             pa_attempts := update_last (\<lambda>p. p\<lparr>at_reason := Some reason\<rparr>) (pa_attempts a)\<rparr>) d))) (\<lambda>_. dreturn (Inl x)))" for signals x
  proof (cases "recover_pending_offer J signals a (last (pa_attempts a)) dispatcher_human")
    case Absent
    show ?thesis unfolding Absent pending_offer_recovery.case
      by (rule dispatcher.valid_bind [where R = "\<lambda>_. True"], rule dispatcher.valid_lift, simp, rule continue)
  next
    case (Uncertain reason)
    show ?thesis unfolding Uncertain pending_offer_recovery.case
      by (rule archive_then_return [OF requires_human_ok [OF base]]) simp
  next
    case (Published message_id)
    show ?thesis unfolding Published pending_offer_recovery.case by (rule continue)
  qed
  then show ?thesis using True unfolding observe_recover_def Let_def
    by (simp only: not_True_eq_False if_False if_True)
      (rule dispatcher.valid_bind [where R = "\<lambda>_. True"], rule dispatcher.valid_lift, simp, assumption)
qed

lemma observe_reply_ok:
  assumes "assignment_ok a" and "is_ok (validate_profile (snd reply))" and "observe_reply env n reply a = Some b"
  shows "assignment_ok b"
  using assms by (cases reply) (auto simp: observe_reply_def split: if_splits intro: apply_profile_ok)

lemma replies_valid:
  assumes "assignment_ok a" and "\<forall>r\<in>set replies. is_ok (validate_profile (snd r))"
  shows "dispatcher.valid (\<lambda>(b, _, _). assignment_ok b) (observe_replies env n replies a processed action)"
  using assms
proof (induction replies arbitrary: n a processed action)
  case Nil
  then show ?case by (auto intro: dispatcher.valid_return)
next
  case (Cons r rs)
  show ?case
  proof (cases "observe_reply env n r a")
    case None
    then show ?thesis using Cons by simp
  next
    case (Some b)
    then have "assignment_ok b" using Cons.prems observe_reply_ok [of a r env n b] by simp
    then show ?thesis using Some Cons
      by (auto intro!: dispatcher.valid_bind [where R = "\<lambda>_. True"] put_active_valid)
  qed
qed

lemma offered_then_put:
  assumes "base_ok a"
  shows "dispatcher.valid (\<lambda>(b, _). assignment_ok b)
    (dbind (dbind (offer_next J now sent (Some reason) a) (\<lambda>a2. dreturn (a2, act)))
      (\<lambda>(a3, action). dbind (put_active a3) (\<lambda>_. dreturn (a3, action))))"
proof (rule dispatcher.valid_bind [where R = "\<lambda>(b, _). assignment_ok b"])
  show "dispatcher.valid (\<lambda>(b, _). assignment_ok b) (dbind (offer_next J now sent (Some reason) a) (\<lambda>a2. dreturn (a2, act)))"
    by (rule dispatcher.valid_bind [OF offer_next_valid [OF assms]]) (auto intro: dispatcher.valid_return)
qed (auto intro: put_then_return)

lemma timeout_valid:
  assumes "assignment_ok a"
  shows "dispatcher.valid (\<lambda>(b, _). assignment_ok b) (observe_timeout J options env a action)"
proof -
  let ?f = "\<lambda>p. p\<lparr>at_state := AtTimedOut\<rparr>"
  let ?g = "\<lambda>p. p\<lparr>at_reason := Some ''no candidate acknowledged within the timeout''\<rparr>"
  let ?a1 = "a\<lparr>pa_attempts := update_last ?f (pa_attempts a)\<rparr>"
  let ?a2 = "?a1\<lparr>pa_state := AsCancelled, pa_attempts := update_last ?g (pa_attempts ?a1)\<rparr>"
  have base: "base_ok ?a1" by (rule base_ok_update_last [where f = ?f]) (use assms in \<open>simp_all add: assignment_ok_def\<close>)
  then have "base_ok ?a2" by (rule base_ok_update_last [where f = ?g]) simp_all
  then have "assignment_ok ?a2" by (cases "pa_attempts a = []") (simp_all add: assignment_ok_def stage_ok_def)
  then have cancelled: "dispatcher.valid (\<lambda>(b, _). assignment_ok b)
      (dbind (dreturn (?a2, act)) (\<lambda>(a3, action). dbind (put_active a3) (\<lambda>_. dreturn (a3, action))))" for act
    by (intro dispatcher.valid_bind [where R = "\<lambda>(b, _). assignment_ok b"] dispatcher.valid_return)
      (auto intro: put_then_return)
  show ?thesis
  proof (cases "if pa_state a = AsOffered
      then (if oo_ack_timeout_ms options = None then pa_ack_timeout_ms a else oo_ack_timeout_ms options) else None")
    case None
    show ?thesis unfolding observe_timeout_def None option.case
      by (rule dispatcher.valid_return) (use assms in simp)
  next
    case (Some timeout)
    show ?thesis unfolding observe_timeout_def Some option.case Let_def dbind_if
      by (intro dispatcher.valid_if cancelled offered_then_put [OF base] dispatcher.valid_return) (use assms in simp)
  qed
qed

lemma blocked_valid:
  assumes "assignment_ok a"
  shows "dispatcher.valid (\<lambda>(b, _). assignment_ok b) (observe_blocked J options env a action)"
proof -
  let ?g = "\<lambda>p. p\<lparr>at_reason := Some ''no candidate could complete the assignment''\<rparr>"
  let ?a1 = "a\<lparr>pa_attempts := update_last ?g (pa_attempts a)\<rparr>"
  have base: "base_ok a" using assms by (simp add: assignment_ok_def)
  have "assignment_ok ?a1" by (rule assignment_ok_note [OF assms, where f = ?g]) simp_all
  then have stays: "dispatcher.valid (\<lambda>(b, _). assignment_ok b)
      (dbind (dreturn (?a1, act)) (\<lambda>(a3, action). dbind (put_active a3) (\<lambda>_. dreturn (a3, action))))" for act
    by (intro dispatcher.valid_bind [where R = "\<lambda>(b, _). assignment_ok b"] dispatcher.valid_return)
      (auto intro: put_then_return)
  show ?thesis unfolding observe_blocked_def Let_def dbind_if
    by (intro dispatcher.valid_if stays offered_then_put [OF base] dispatcher.valid_return) (use assms in simp)
qed

lemma finish_valid: "assignment_ok a \<Longrightarrow> dispatcher.valid (\<lambda>_. True) (observe_finish a processed cursor action)"
  unfolding observe_finish_def Let_def by (auto intro: archive_then_return put_then_return)

lemma inbox_valid:
  assumes "assignment_ok a"
  shows "dispatcher.valid (\<lambda>_. True) (observe_inbox J options env a action)"
proof -
  have base: "base_ok a" using assms by (simp add: assignment_ok_def)
  have cursor: "assignment_ok (if c then b else b\<lparr>pa_inbox_cursor := x\<rparr>)" if "assignment_ok b" for b c x
    using that by (auto simp: assignment_ok_def base_ok_def stage_ok_def verified_digest_def split: integrator_assignment_state.splits)
  have replies: "\<forall>r\<in>set (sort_by reply_le (List.map_filter (\<lambda>m. map_option (\<lambda>p. (m, p)) (parse_integrator_profile J (am_body m))) ms)).
      is_ok (validate_profile (snd r))" for ms
    by (auto simp: List.map_filter_def dest: parse_integrator_profile_valid)
  have "dispatcher.valid (\<lambda>_. True) (dbind (observe_timeout J options env b act) (\<lambda>(a3, action).
      dbind (observe_blocked J options env a3 action) (\<lambda>(a4, action). observe_finish a4 processed c action)))"
    if "assignment_ok b" for b act processed c
    using that
    by (auto intro!: dispatcher.valid_bind [OF timeout_valid] dispatcher.valid_bind [OF blocked_valid] finish_valid)
  note rest = this
  have "dispatcher.valid (\<lambda>_. True)
      (if reset then dbind (put_active (a\<lparr>pa_state := AsRequiresHuman, pa_updated_at_ms := oe_clock env 0,
            pa_attempts := update_last (\<lambda>p. p\<lparr>at_reason := Some cursor_reset_reason\<rparr>) (pa_attempts a)\<rparr>)) (\<lambda>_. dreturn x)
       else dbind (observe_replies env 3 (sort_by reply_le (List.map_filter (\<lambda>m.
            map_option (\<lambda>p. (m, p)) (parse_integrator_profile J (am_body m))) ms)) a 0 action) (\<lambda>(a1, processed, action).
         dbind (observe_timeout J options env (if cur = [] then a1 else a1\<lparr>pa_inbox_cursor := Some cur\<rparr>) action) (\<lambda>(a3, action).
         dbind (observe_blocked J options env a3 action) (\<lambda>(a4, action). observe_finish a4 processed c action))))" for reset ms cur c x
    using put_then_return [OF requires_human_ok [OF base], of "\<lambda>_. True"]
      dispatcher.valid_bind [OF replies_valid [OF assms replies]] rest cursor
    by (auto intro!: dispatcher.valid_bind [OF replies_valid [OF assms replies]] rest cursor)
  then show ?thesis unfolding observe_inbox_def Let_def
    by (intro dispatcher.valid_bind [where R = "\<lambda>_. True"] dispatcher.valid_lift TrueI) (simp only: split_beta)
qed

lemma observe_valid: "dispatcher.valid (\<lambda>_. True) (integrator_observe J options env)"
  unfolding integrator_observe_def
proof (rule dispatcher.valid_bind [where R = file_ok], rule dispatcher.valid_load, assumption)
  fix d assume d: "file_ok d"
  show "dispatcher.valid (\<lambda>_. True) (case sf_active d of None \<Rightarrow> dreturn observe_none
      | Some a \<Rightarrow> dbind (observe_recover J env a) (\<lambda>r.
          (case r of Inl result \<Rightarrow> dreturn result | Inr (a1, action) \<Rightarrow> observe_inbox J options env a1 action)))"
    using d by (auto simp: file_ok_def intro!: dispatcher.valid_return dispatcher.valid_bind [OF recover_valid] inbox_valid
        split: option.split sum.split)
qed

subsection \<open>Histories\<close>

text \<open>
  The states of the file that can be found on disk: after a write of any operation, whether the operation went on
  or the process ended there.
\<close>

definition start_log :: "integrator_state_file \<Rightarrow> dispatcher_log" where
  "start_log d = \<lparr>lg_disk = d, lg_writes = []\<rparr>"

inductive dispatcher_reachable :: "prims \<Rightarrow> integrator_json \<Rightarrow> string \<Rightarrow> integrator_state_file \<Rightarrow> bool"
  for P J workspace_id where
  fresh_store: "dispatcher_reachable P J workspace_id integrator_state_new"
| assigning: "dispatcher_reachable P J workspace_id d \<Longrightarrow>
    d' \<in> set (lg_writes (snd (integrator_assign P J workspace_id aenv input (start_log d)))) \<Longrightarrow>
    dispatcher_reachable P J workspace_id d'"
| observing: "dispatcher_reachable P J workspace_id d \<Longrightarrow>
    d' \<in> set (lg_writes (snd (integrator_observe J options oenv (start_log d)))) \<Longrightarrow>
    dispatcher_reachable P J workspace_id d'"
| revoking: "dispatcher_reachable P J workspace_id d \<Longrightarrow>
    d' \<in> set (lg_writes (snd (integrator_revoke J now sent assignment_id reason (start_log d)))) \<Longrightarrow>
    dispatcher_reachable P J workspace_id d'"

lemma reachable_file_ok: "dispatcher_reachable P J workspace_id d \<Longrightarrow> file_ok d"
proof (induction rule: dispatcher_reachable.induct)
  case fresh_store
  show ?case by (simp add: file_ok_def integrator_state_new_def)
next
  case (assigning d d' aenv input)
  then show ?case using dispatcher.valid_writes [OF assign_valid] unfolding start_log_def by (metis surjective_pairing)
next
  case (observing d d' options oenv)
  then show ?case using dispatcher.valid_writes [OF observe_valid] unfolding start_log_def by (metis surjective_pairing)
next
  case (revoking d d' now sent assignment_id reason)
  then show ?case using dispatcher.valid_writes [OF revoke_valid] unfolding start_log_def by (metis surjective_pairing)
qed

text \<open>
  C30. The life cycle of an integrator assignment. Whatever sequence of assignments, observations and revocations
  ran, with any replies, timeouts, failed sends and crashes between two writes, every assignment on disk, active
  or archived, asked its ranked candidates in order, each at most once, at most 64 of them; at most one
  attempt is open, the last; an accepted assignment has the acceptance of the candidate it asked last; and a
  completed one has that candidate's digest for this assignment and snapshot, with verification passed, no
  remaining conflicts and no decision left open. The history keeps at most 64 assignments.
\<close>

theorem integrator_lifecycle:
  assumes "dispatcher_reachable P J workspace_id d" and "sf_active d = Some a \<or> a \<in> set (sf_history d)"
  shows "distinct (pa_ranked a) \<and> length (pa_ranked a) \<le> 64
    \<and> map at_selected (pa_attempts a) = take (length (pa_attempts a)) (pa_ranked a)
    \<and> length (pa_attempts a) \<le> length (pa_ranked a)
    \<and> (\<forall>p\<in>set (butlast (pa_attempts a)). \<not> is_open (at_state p))
    \<and> (pa_state a = AsAccepted \<longrightarrow> pa_attempts a \<noteq> [] \<and> at_state (last (pa_attempts a)) = AtAccepted
        \<and> at_acceptance_message_id (last (pa_attempts a)) \<noteq> None)
    \<and> (pa_state a = AsCompleted \<longrightarrow> pa_attempts a \<noteq> [] \<and> at_state (last (pa_attempts a)) = AtCompleted
        \<and> (\<exists>g. pa_digest a = Some g \<and> dg_integrator g = at_selected (last (pa_attempts a))
             \<and> dg_assignment_id g = pa_assignment_id a \<and> dg_about_snapshot g = pa_about_snapshot a
             \<and> vs_status (dg_verification g) = VPassed \<and> dg_remaining_conflicts g = 0 \<and> dg_decision_required g = None))
    \<and> length (sf_history d) \<le> 64"
proof -
  have all: "file_ok d" by (rule reachable_file_ok [OF assms(1)])
  with assms(2) have "base_ok a" "stage_ok a" by (auto simp: file_ok_def assignment_ok_def)
  with all show ?thesis
    by (auto simp: base_ok_def stage_ok_def verified_digest_def file_ok_def list_all_iff integrator_max_candidates_def
        integrator_max_history_def)
qed

text \<open>One candidate, who accepts and reports a verified result in the same pass.\<close>

definition sample_int_digest :: integrator_digest where
  "sample_int_digest = \<lparr>dg_assignment_id = replicate 32 CHR ''0'', dg_integrator = ''ann'',
     dg_about_snapshot = replicate 64 CHR ''a'', dg_inspected_snapshot = replicate 64 CHR ''b'', dg_state = OsCompleted,
     dg_landed_paths = 1, dg_resolved_conflicts = 1, dg_remaining_conflicts = 0,
     dg_verification = \<lparr>vs_status = VPassed, vs_summary = ''ok'', vs_policy_id = None, vs_policy_version = 0, vs_tool_ref = None,
       vs_input_hashes = [], vs_output_hash = None, vs_checks = []\<rparr>,
     dg_outcome = ''merged'', dg_risks = [], dg_decision_required = None\<rparr>"

definition sample_accepted :: integrator_profile where
  "sample_accepted = PfAccepted (replicate 32 CHR ''0'') 0 (replicate 64 CHR ''a'')"

definition sample_result :: integrator_profile where
  "sample_result = PfResult (replicate 32 CHR ''0'') 0 (replicate 64 CHR ''a'') sample_int_digest"

definition sample_integrator_json :: integrator_json where
  "sample_integrator_json = \<lparr>roster_to_json = concat,
     ip_to_json = (\<lambda>p. case p of PfAccepted _ _ _ \<Rightarrow> ''a'' | PfResult _ _ _ _ \<Rightarrow> ''r'' | PfBlocked _ _ _ _ \<Rightarrow> ''b'' | _ \<Rightarrow> ''o''),
     ip_from_json = (\<lambda>s. if s = ''a'' then Some sample_accepted else if s = ''r'' then Some sample_result else None)\<rparr>"

definition sample_assign_env :: assign_env where
  "sample_assign_env = \<lparr>ae_format_version = 3, ae_reachable = (\<lambda>_. True), ae_id_bytes = Some (replicate 16 (char_of (0::nat))),
     ae_nonce_bytes = Some (replicate 32 (char_of (0::nat))), ae_created_ms = 1, ae_offered_ms = 2, ae_sent = Some ''req''\<rparr>"

definition sample_assign_input :: integrator_assign_input where
  "sample_assign_input = \<lparr>ii_about_snapshot = replicate 64 CHR ''a'',
     ii_candidates = [\<lparr>ic_name = ''ann'', ic_capabilities = [''rust''], ic_enabled = True, ic_available = True\<rparr>,
                      \<lparr>ic_name = ''bob'', ic_capabilities = [], ic_enabled = True, ic_available = True\<rparr>],
     ii_required_capabilities = [''rust''], ii_conflict_authors = [], ii_excluded = [], ii_task_summary = ''merge'',
     ii_ack_timeout_ms = None\<rparr>"

definition reply_message :: "string \<Rightarrow> agent_message_kind \<Rightarrow> string \<Rightarrow> agent_message" where
  "reply_message mid kind body = \<lparr>am_message_id = mid, am_from = ''ann'', am_to = ''human'', am_kind = kind,
     am_body = ''ffint1:'' @ body, am_about_snapshot = replicate 64 CHR ''a'', am_reply_to = Some ''req'', am_created_at_ms = 5\<rparr>"

definition sample_observe_env :: "bool \<Rightarrow> observe_env" where
  "sample_observe_env reachable = \<lparr>oe_clock = (\<lambda>_. 9), oe_signals = None, oe_resent = None,
     oe_inbox = Some (False, [reply_message ''m2'' MsgResult ''r'', reply_message ''m1'' MsgStatus ''a''], ''cur''),
     oe_reachable = (\<lambda>_. reachable), oe_sent = None\<rparr>"

definition plain_options :: observe_options where
  "plain_options = \<lparr>oo_ack_timeout_ms = None, oo_fallback_on_blocked = False\<rparr>"

definition flat_prims :: prims where
  "flat_prims = sample_prims\<lparr>blake3_hex := \<lambda>_. replicate 64 CHR ''0''\<rparr>"

definition sample_eligibility :: eligibility_result where
  "sample_eligibility = \<lparr>el_eligible = [''ann''], el_neutral = [''ann''], el_neutral_integrator = True,
     el_no_candidate_reason = None\<rparr>"

definition sample_draw :: "string \<times> string \<times> string \<times> string list \<times> string list" where
  "sample_draw = (replicate 32 CHR ''0'', replicate 64 CHR ''0'', replicate 64 CHR ''0'', [''ann''], [''rust''])"

lemma sample_guard: "assign_guard sample_assign_env sample_assign_input = Inr sample_eligibility"
  by code_simp

lemma sample_draw_parts:
  "normalize_capabilities (ii_required_capabilities sample_assign_input) = Inr [''rust'']"
  "generate_assignment_id (ae_id_bytes sample_assign_env) = Inr (replicate 32 CHR ''0'')"
  "generate_selection_nonce (ae_nonce_bytes sample_assign_env) = Inr (replicate 64 CHR ''0'')"
  "roster_fingerprint flat_prims sample_integrator_json [''ann''] = Inr (replicate 64 CHR ''0'')"
  "selection_pool sample_eligibility = [''ann'']"
  "is_valid_hash (ii_about_snapshot sample_assign_input)" "is_valid_hash (replicate 64 CHR ''0'')"
  "is_valid_hex_id (replicate 32 CHR ''0'') 32" "is_valid_hex_id (replicate 64 CHR ''0'') 64" "is_valid_agent_name ''ann''"
  by code_simp+

lemma sample_drawn: "integrator_draw flat_prims sample_integrator_json ''w'' (ae_id_bytes sample_assign_env)
    (ae_nonce_bytes sample_assign_env) sample_assign_input sample_eligibility = Inr sample_draw"
  unfolding integrator_draw_def sample_draw_parts rbind_simps
  by (simp add: rank_candidates_def sample_draw_parts(6-10) for_each_def sort_by_def sample_draw_def)

lemma sample_assigned:
  "integrator_assign flat_prims sample_integrator_json ''w'' sample_assign_env sample_assign_input (start_log integrator_state_new) =
   create_and_offer sample_integrator_json sample_assign_env
     (new_assignment sample_assign_env sample_assign_input sample_eligibility sample_draw) (start_log integrator_state_new)"
  by (simp add: integrator_assign_def dbind_def dlift_def store_load_def sample_guard sample_drawn start_log_def
      integrator_state_new_def)

definition assigned_disk :: integrator_state_file where
  "assigned_disk = last (lg_writes (snd (create_and_offer sample_integrator_json sample_assign_env
     (new_assignment sample_assign_env sample_assign_input sample_eligibility sample_draw) (start_log integrator_state_new))))"

definition completed_disk :: integrator_state_file where
  "completed_disk = last (lg_writes (snd (integrator_observe sample_integrator_json plain_options (sample_observe_env True)
     (start_log assigned_disk))))"

lemma completed_disk_facts:
  "lg_writes (snd (create_and_offer sample_integrator_json sample_assign_env
     (new_assignment sample_assign_env sample_assign_input sample_eligibility sample_draw) (start_log integrator_state_new))) \<noteq> []"
  "lg_writes (snd (integrator_observe sample_integrator_json plain_options (sample_observe_env True)
     (start_log assigned_disk))) \<noteq> []"
  "pa_state (hd (sf_history completed_disk)) = AsCompleted"
  "sf_history completed_disk \<noteq> []"
  by code_simp+

theorem integrator_lifecycle_witness:
  "\<exists>g. pa_digest (hd (sf_history completed_disk)) = Some g \<and> vs_status (dg_verification g) = VPassed
     \<and> dg_integrator g = at_selected (last (pa_attempts (hd (sf_history completed_disk))))"
proof -
  have "dispatcher_reachable flat_prims sample_integrator_json ''w'' assigned_disk"
    by (rule assigning [OF fresh_store, where aenv = sample_assign_env and input = sample_assign_input])
      (simp add: sample_assigned assigned_disk_def completed_disk_facts(1))
  then have "dispatcher_reachable flat_prims sample_integrator_json ''w'' completed_disk"
    by (rule observing [where options = plain_options and oenv = "sample_observe_env True"])
      (simp add: completed_disk_def completed_disk_facts(2))
  moreover have "hd (sf_history completed_disk) \<in> set (sf_history completed_disk)"
    using completed_disk_facts(4) by simp
  ultimately show ?thesis
    using integrator_lifecycle [OF _ disjI2, of flat_prims sample_integrator_json "''w''" completed_disk] completed_disk_facts(3)
    by blast
qed

theorem integrator_draw_auditable_witness:
  "filter_eligible (sample_assign_input\<lparr>ii_candidates := rev (ii_candidates sample_assign_input)\<rparr>) = Inr sample_eligibility
   \<and> integrator_draw flat_prims sample_integrator_json ''w'' (ae_id_bytes sample_assign_env) (ae_nonce_bytes sample_assign_env)
       (sample_assign_input\<lparr>ii_candidates := rev (ii_candidates sample_assign_input)\<rparr>) sample_eligibility = Inr sample_draw"
proof -
  have e: "filter_eligible sample_assign_input = Inr sample_eligibility" by code_simp
  let ?again = "\<lambda>cs. filter_eligible (sample_assign_input\<lparr>ii_candidates := cs\<rparr>) = Inr sample_eligibility
     \<and> integrator_draw flat_prims sample_integrator_json ''w'' (ae_id_bytes sample_assign_env) (ae_nonce_bytes sample_assign_env)
         (sample_assign_input\<lparr>ii_candidates := cs\<rparr>) sample_eligibility = Inr sample_draw"
  from integrator_draw_auditable [OF e sample_drawn [unfolded sample_draw_def]]
  have "\<forall>cs. mset cs = mset (ii_candidates sample_assign_input) \<longrightarrow> ?again cs"
    unfolding sample_draw_def by (elim conjE) assumption
  then show ?thesis by simp
qed

section \<open>Edges\<close>

text \<open>
  An assignment that was created but not offered before the process ended is never offered: no pass adds an
  attempt to it, whatever it gets from outside.
\<close>

lemma created_never_offered:
  assumes "sf_active d = Some a" and "pa_state a = AsCreated" and "pa_attempts a = []"
    and "d' \<in> set (lg_writes (snd (integrator_observe J options env (start_log d))))"
  shows "\<exists>b. sf_active d' = Some b \<and> pa_attempts b = [] \<and> pa_state b \<in> {AsCreated, AsRequiresHuman}"
proof -
  have none: "observe_reply env n r a = None" for n r
    using assms(3) by (cases r) (simp add: observe_reply_def profile_message_matches_def split: option.split)
  have "observe_replies env n rs a processed action = dreturn (a, processed, action)" for n rs processed action
    by (induction rs arbitrary: n) (simp_all add: none)
  then show ?thesis using assms
    by (cases "oe_inbox env")
      (auto simp: integrator_observe_def observe_recover_def needs_send_def observe_inbox_def observe_timeout_def observe_blocked_def
        observe_finish_def is_terminal_def dbind_def dlift_def dreturn_def put_active_def store_update_def store_load_def
        start_log_def ok_or_def update_last_def Let_def split: if_splits)
qed

text \<open>
  A result whose snapshot could not be looked up in a pass is passed over, and the cursor moves on: the
  assignment stays accepted and the message is not seen again.
\<close>

definition unreachable_disk :: integrator_state_file where
  "unreachable_disk = lg_disk (snd (integrator_observe sample_integrator_json plain_options (sample_observe_env False)
     (start_log assigned_disk)))"

lemma unreachable_result_lost:
  "map_option pa_state (sf_active unreachable_disk) = Some AsAccepted
   \<and> map_option pa_inbox_cursor (sf_active unreachable_disk) = Some (Some ''cur'')"
  by code_simp

end
