(* ===== verification/Resolution_Contract.thy ===== *)
theory Resolution_Contract
  imports Integrator_Contract Tree_Codec
begin

text \<open>
  The contract of automatic conflict resolution (\<^verbatim>\<open>common/src/resolution_contract.rs\<close>): the identity of a
  conflict and the bytes its fingerprint hashes, the job given to a resolver, the closed set of results, the
  answer of a human, and the \<^verbatim>\<open>ffres1\<close> profiles that carry them between machines. JSON is a parameter.

  The theorems: the hashed bytes determine the identity, up to one pair of values of one field, so that two valid
  jobs with one fingerprint are about the same assignment of the same conflict; and a profile that is encoded is
  parsed back.
\<close>

section \<open>Bounds\<close>

definition resolution_schema_version :: u32 where "resolution_schema_version = 1"

definition resolution_fingerprint_domain :: string where
  "resolution_fingerprint_domain = ''feanorfs-conflict-identity-v1''"

definition resolution_job_discriminator :: string where "resolution_job_discriminator = ''ffres1''"

definition resolution_max_attempt :: u32 where "resolution_max_attempt = 10000"
definition resolution_max_intent_ids :: nat where "resolution_max_intent_ids = 32"
definition resolution_max_causal_refs :: nat where "resolution_max_causal_refs = 64"
definition resolution_max_id_bytes :: nat where "resolution_max_id_bytes = 512"
definition resolution_max_leg_bytes :: u64 where "resolution_max_leg_bytes = 8 * 1024 * 1024 * 1024"
definition resolution_max_candidate_bytes :: u64 where "resolution_max_candidate_bytes = 64 * 1024 * 1024"
definition resolution_max_diagnostics :: nat where "resolution_max_diagnostics = 16"
definition resolution_diagnostic_bytes :: nat where "resolution_diagnostic_bytes = 512"
definition resolution_max_reason_bytes :: nat where "resolution_max_reason_bytes = 1024"
definition resolution_max_question_bytes :: nat where "resolution_max_question_bytes = 2048"
definition resolution_max_verification_summary_bytes :: nat where
  "resolution_max_verification_summary_bytes = 2048"
definition resolution_max_output_paths :: nat where "resolution_max_output_paths = 64"
definition resolution_max_artifacts :: nat where "resolution_max_artifacts = 3"
definition resolution_max_timeout_ms :: u64 where "resolution_max_timeout_ms = 24 * 60 * 60 * 1000"
definition resolution_max_profile_bytes :: nat where "resolution_max_profile_bytes = 8 * 1024"

definition resolution_verification_policy_id :: string where
  "resolution_verification_policy_id = ''feanorfs-inline-verify-v1''"

definition resolution_verification_config_ref :: string where
  "resolution_verification_config_ref = ''feanorfs-resolver-inline-config-v1''"

definition resolution_default_verification_timeout_ms :: u64 where
  "resolution_default_verification_timeout_ms = 10 * 60 * 1000"

section \<open>Identity\<close>

record conflict_leg =
  leg_present :: bool
  leg_deleted :: bool
  leg_hash :: string
  leg_size :: u64
  leg_mode :: u32

record conflict_identity =
  ci_schema_version :: u32
  ci_workspace_id :: string
  ci_current_snapshot :: string
  ci_about_snapshot :: string
  ci_tree_root :: string
  ci_path :: string
  ci_base :: conflict_leg
  ci_ours :: conflict_leg
  ci_theirs :: conflict_leg
  ci_kind :: conflict_kind
  ci_task_id :: "string option"
  ci_intent_message_ids :: "string list"
  ci_assignment_id :: "string option"
  ci_attempt :: "u32 option"
  ci_designated_owner :: "string option"
  ci_verification_policy :: "string option"

definition is_automatic :: "conflict_identity \<Rightarrow> bool" where
  "is_automatic identity =
     (ci_task_id identity \<noteq> None \<or> ci_intent_message_ids identity \<noteq> [] \<or> ci_assignment_id identity \<noteq> None
      \<or> ci_attempt identity \<noteq> None \<or> ci_designated_owner identity \<noteq> None \<or> ci_verification_policy identity \<noteq> None)"

definition derive_conflict_kind :: "conflict_leg \<Rightarrow> conflict_leg \<Rightarrow> conflict_leg \<Rightarrow> conflict_kind" where
  "derive_conflict_kind base ours theirs =
     (let we_deleted = leg_present ours \<and> leg_deleted ours;
          they_deleted = leg_present theirs \<and> leg_deleted theirs
      in if we_deleted \<and> \<not> they_deleted \<and> \<not> leg_deleted base then DeleteEdit
         else if \<not> we_deleted \<and> they_deleted \<and> \<not> leg_deleted base then EditDelete
         else EditEdit)"

text \<open>The bytes given to the hasher. A length is written as the 64-bit number that \<^verbatim>\<open>as u64\<close> makes of it.\<close>

definition fp_push_bytes :: "string \<Rightarrow> bytes" where
  "fp_push_bytes value = le_bytes 8 (length value) @ value"

definition fp_push_u64 :: "u64 \<Rightarrow> bytes" where "fp_push_u64 value = le_bytes 8 (unat value)"
definition fp_push_u32 :: "u32 \<Rightarrow> bytes" where "fp_push_u32 value = le_bytes 4 (unat value)"

fun fp_push_opt_bytes :: "string option \<Rightarrow> bytes" where
  "fp_push_opt_bytes (Some value) = CHR 0x01 # fp_push_bytes value"
| "fp_push_opt_bytes None = [CHR 0x00]"

definition fp_bool :: "bool \<Rightarrow> char" where
  "fp_bool b = (if b then CHR 0x01 else CHR 0x00)"

definition fp_push_leg :: "conflict_leg \<Rightarrow> bytes" where
  "fp_push_leg leg = [fp_bool (leg_present leg), fp_bool (leg_deleted leg)] @ fp_push_bytes (leg_hash leg)
     @ fp_push_u64 (leg_size leg) @ fp_push_u32 (leg_mode leg)"

definition fp_push_ids :: "string list \<Rightarrow> bytes" where
  "fp_push_ids ids = fp_push_u64 (word_of_nat (length ids)) @ concat (map fp_push_bytes ids)"

definition fp_push_automatic :: "conflict_identity \<Rightarrow> bytes" where
  "fp_push_automatic identity =
     (if is_automatic identity
      then CHR 0x01 # fp_push_opt_bytes (ci_task_id identity)
        @ fp_push_ids (ci_intent_message_ids identity)
        @ fp_push_opt_bytes (ci_assignment_id identity)
        @ fp_push_u32 (case ci_attempt identity of Some attempt \<Rightarrow> attempt | None \<Rightarrow> 0)
        @ fp_push_opt_bytes (ci_designated_owner identity)
        @ fp_push_opt_bytes (ci_verification_policy identity)
      else [CHR 0x00])"

definition conflict_identity_bytes :: "conflict_identity \<Rightarrow> bytes" where
  "conflict_identity_bytes identity =
     fp_push_bytes resolution_fingerprint_domain
     @ fp_push_u32 resolution_schema_version
     @ fp_push_bytes (ci_workspace_id identity)
     @ fp_push_bytes (ci_current_snapshot identity)
     @ fp_push_bytes (ci_about_snapshot identity)
     @ fp_push_bytes (ci_tree_root identity)
     @ fp_push_bytes (ci_path identity)
     @ fp_push_leg (ci_base identity)
     @ fp_push_leg (ci_ours identity)
     @ fp_push_leg (ci_theirs identity)
     @ fp_push_bytes (conflict_kind_as_db_str (ci_kind identity))
     @ fp_push_automatic identity"

definition compute_conflict_identity_fingerprint :: "prims \<Rightarrow> conflict_identity \<Rightarrow> string" where
  "compute_conflict_identity_fingerprint P identity = blake3_hex P (conflict_identity_bytes identity)"

text \<open>An error names what was refused.\<close>

datatype resolution_error = ResolutionSchema | Invalid string

definition validate_leg :: "conflict_leg \<Rightarrow> string \<Rightarrow> resolution_error + unit" where
  "validate_leg leg label =
     rbind (ensure (leg_mode leg = 0 \<or> leg_mode leg = executable_mode) (Invalid (label @ '': leg mode''))) (\<lambda>_.
     if \<not> leg_present leg
     then ensure (\<not> leg_deleted leg \<and> leg_hash leg = [] \<and> leg_size leg = 0) (Invalid (label @ '': absent leg content''))
     else
       rbind (ensure (leg_size leg \<le> resolution_max_leg_bytes) (Invalid (label @ '': leg too large''))) (\<lambda>_.
       if leg_deleted leg
       then ensure (leg_hash leg = [] \<and> leg_size leg = 0 \<and> leg_mode leg = 0) (Invalid (label @ '': deleted leg content''))
       else ensure (is_valid_hash (leg_hash leg)) (Invalid (label @ '': leg hash''))))"

text \<open>The loop over hashes that must be sorted and unique; the first argument is the previous one.\<close>

fun check_sorted_hashes :: "string \<Rightarrow> string option \<Rightarrow> string list \<Rightarrow> resolution_error + unit" where
  "check_sorted_hashes label previous [] = Inr ()"
| "check_sorted_hashes label previous (value # values) =
     rbind (ensure (is_valid_hash value) (Invalid (label @ '': entry not hash''))) (\<lambda>_.
     rbind (ensure (case previous of None \<Rightarrow> True | Some prev \<Rightarrow> prev < value) (Invalid (label @ '': entries unsorted''))) (\<lambda>_.
     check_sorted_hashes label (Some value) values))"

definition validate_sorted_unique_hashes :: "string list \<Rightarrow> nat \<Rightarrow> string \<Rightarrow> resolution_error + unit" where
  "validate_sorted_unique_hashes values limit label =
     rbind (ensure (length values \<le> limit) (Invalid (label @ '': list too long''))) (\<lambda>_. check_sorted_hashes label None values)"

definition check_opt :: "('a \<Rightarrow> bool) \<Rightarrow> 'a option \<Rightarrow> 'e \<Rightarrow> 'e + unit" where
  "check_opt p x e = (case x of None \<Rightarrow> Inr () | Some v \<Rightarrow> ensure (p v) e)"

definition bounded_text :: "nat \<Rightarrow> string \<Rightarrow> bool" where
  "bounded_text limit s = (str_trim s \<noteq> [] \<and> length s \<le> limit)"

definition validate_conflict_identity :: "prims \<Rightarrow> conflict_identity \<Rightarrow> resolution_error + unit" where
  "validate_conflict_identity P identity =
     rbind (ensure (ci_schema_version identity = resolution_schema_version) ResolutionSchema) (\<lambda>_.
     rbind (ensure (bounded_text resolution_max_id_bytes (ci_workspace_id identity)) (Invalid ''workspace id bound'')) (\<lambda>_.
     rbind (ensure (is_valid_hash (ci_current_snapshot identity) \<and> is_valid_hash (ci_about_snapshot identity)
        \<and> is_valid_hash (ci_tree_root identity)) (Invalid ''identity hashes'')) (\<lambda>_.
     rbind (ensure (is_safe_rel_path P (ci_path identity)) (Invalid ''conflict path'')) (\<lambda>_.
     rbind (validate_leg (ci_base identity) ''base'') (\<lambda>_.
     rbind (validate_leg (ci_ours identity) ''ours'') (\<lambda>_.
     rbind (validate_leg (ci_theirs identity) ''theirs'') (\<lambda>_.
     rbind (ensure (ci_kind identity
        = derive_conflict_kind (ci_base identity) (ci_ours identity) (ci_theirs identity)) (Invalid ''kind not derived'')) (\<lambda>_.
     rbind (validate_sorted_unique_hashes (ci_intent_message_ids identity) resolution_max_intent_ids
        ''accepted intent'') (\<lambda>_.
     rbind (check_opt is_valid_task_id (ci_task_id identity) (Invalid ''identity task'')) (\<lambda>_.
     rbind (check_opt (\<lambda>a. is_valid_hex_id a 32) (ci_assignment_id identity) (Invalid ''identity assignment'')) (\<lambda>_.
     rbind (check_opt (\<lambda>a. a \<le> resolution_max_attempt) (ci_attempt identity) (Invalid ''identity attempt'')) (\<lambda>_.
     rbind (check_opt is_valid_agent_name (ci_designated_owner identity) (Invalid ''identity owner'')) (\<lambda>_.
     check_opt (bounded_text resolution_max_id_bytes) (ci_verification_policy identity) (Invalid ''identity policy''))))))))))))))"

section \<open>Jobs\<close>

datatype artifact_role = Original | LocalLeg | CloudLeg

record artifact_descriptor =
  ad_role :: artifact_role
  ad_path :: string

record candidate_destination =
  cd_path :: string
  cd_create_new :: bool

record verification_policy_ref =
  vp_policy_id :: string
  vp_command_config_ref :: string
  vp_timeout_ms :: u64
  vp_freshness_required :: bool

datatype prevention_reason = Exhausted (prevention_detail: string) | Violated (prevention_detail: string)

datatype owner_designation_method = CausalEligible | IntegratorFallback

record owner_designation_evidence =
  de_method :: owner_designation_method
  de_nonce :: "string option"
  de_roster_fingerprint :: "string option"
  de_eligible :: "string list"
  de_ranked :: "string list"
  de_reasoning :: string
  de_attempt :: u32

record resolution_job =
  rj_schema_version :: u32
  rj_job_id :: string
  rj_task_id :: string
  rj_assignment_id :: string
  rj_attempt :: u32
  rj_workspace_id :: string
  rj_owner :: string
  rj_conflict :: conflict_identity
  rj_conflict_fingerprint :: string
  rj_current_snapshot :: string
  rj_about_snapshot :: string
  rj_tree_root :: string
  rj_accepted_intents :: "string list"
  rj_causal_refs :: "string list"
  rj_artifacts :: "artifact_descriptor list"
  rj_candidate_destination :: candidate_destination
  rj_allowed_output_paths :: "string list"
  rj_verification :: verification_policy_ref
  rj_prevention :: prevention_reason
  rj_last_resort_reason :: string
  rj_designation :: owner_designation_evidence

definition portable_path_within :: "prims \<Rightarrow> string \<Rightarrow> bool" where
  "portable_path_within P path = (is_safe_rel_path P path \<and> length path \<le> max_portable_path_bytes)"

definition validate_candidate_destination :: "prims \<Rightarrow> candidate_destination \<Rightarrow> resolution_error + unit" where
  "validate_candidate_destination P destination =
     rbind (ensure (cd_create_new destination) (Invalid ''destination not new'')) (\<lambda>_.
     ensure (portable_path_within P (cd_path destination)) (Invalid ''destination path''))"

definition validate_designation_evidence :: "owner_designation_evidence \<Rightarrow> resolution_error + unit" where
  "validate_designation_evidence evidence =
     rbind (ensure (de_attempt evidence \<le> resolution_max_attempt) (Invalid ''designation attempt'')) (\<lambda>_.
     rbind (ensure (length (de_eligible evidence) \<le> resolution_max_intent_ids) (Invalid ''designation roster'')) (\<lambda>_.
     rbind (ensure (length (de_ranked evidence) \<le> resolution_max_intent_ids) (Invalid ''designation roster'')) (\<lambda>_.
     rbind (for_each (\<lambda>agent. ensure (is_valid_agent_name agent) (Invalid ''designation agent''))
        (de_eligible evidence @ de_ranked evidence)) (\<lambda>_.
     rbind (ensure (length (de_reasoning evidence) \<le> resolution_max_reason_bytes) (Invalid ''designation reasoning'')) (\<lambda>_.
     (case de_method evidence of
        CausalEligible \<Rightarrow> ensure (de_eligible evidence \<noteq> []) (Invalid ''designation no eligible'')
      | IntegratorFallback \<Rightarrow>
          rbind (ensure (is_some_and (de_nonce evidence) is_valid_hash
             \<and> is_some_and (de_roster_fingerprint evidence) is_valid_hash) (Invalid ''designation no nonce'')) (\<lambda>_.
          ensure (de_ranked evidence \<noteq> []) (Invalid ''designation no ranking''))))))))"

fun check_artifacts :: "prims \<Rightarrow> artifact_role list \<Rightarrow> artifact_descriptor list \<Rightarrow> resolution_error + unit" where
  "check_artifacts P roles [] = Inr ()"
| "check_artifacts P roles (artifact # artifacts) =
     rbind (ensure (portable_path_within P (ad_path artifact)) (Invalid ''artifact path'')) (\<lambda>_.
     rbind (ensure (ad_role artifact \<notin> set roles) (Invalid ''duplicate role'')) (\<lambda>_.
     check_artifacts P (roles @ [ad_role artifact]) artifacts))"

text \<open>The header of a job, up to the agreement of its fields with the identity.\<close>

definition validate_job_header :: "prims \<Rightarrow> resolution_job \<Rightarrow> resolution_error + unit" where
  "validate_job_header P job =
     rbind (ensure (rj_schema_version job = resolution_schema_version) ResolutionSchema) (\<lambda>_.
     rbind (ensure (is_valid_hex_id (rj_job_id job) 32) (Invalid ''job id'')) (\<lambda>_.
     rbind (ensure (is_valid_hex_id (rj_assignment_id job) 32) (Invalid ''job assignment id'')) (\<lambda>_.
     rbind (ensure (is_valid_task_id (rj_task_id job)) (Invalid ''job task'')) (\<lambda>_.
     rbind (ensure (rj_attempt job \<le> resolution_max_attempt) (Invalid ''job attempt'')) (\<lambda>_.
     rbind (ensure (bounded_text resolution_max_id_bytes (rj_workspace_id job)) (Invalid ''job workspace'')) (\<lambda>_.
     rbind (ensure (is_valid_agent_name (rj_owner job)) (Invalid ''job owner'')) (\<lambda>_.
     rbind (validate_conflict_identity P (rj_conflict job)) (\<lambda>_.
     rbind (ensure (is_valid_hash (rj_conflict_fingerprint job)
        \<and> rj_conflict_fingerprint job = compute_conflict_identity_fingerprint P (rj_conflict job)) (Invalid ''job fingerprint'')) (\<lambda>_.
     rbind (ensure (rj_current_snapshot job = ci_current_snapshot (rj_conflict job)
        \<and> rj_about_snapshot job = ci_about_snapshot (rj_conflict job)
        \<and> rj_tree_root job = ci_tree_root (rj_conflict job)) (Invalid ''job snapshots'')) (\<lambda>_.
     rbind (ensure (is_automatic (rj_conflict job)) (Invalid ''job not automatic'')) (\<lambda>_.
     ensure (ci_assignment_id (rj_conflict job) = Some (rj_assignment_id job)
        \<and> ci_attempt (rj_conflict job) = Some (rj_attempt job)
        \<and> ci_designated_owner (rj_conflict job) = Some (rj_owner job)
        \<and> ci_task_id (rj_conflict job) = Some (rj_task_id job)) (Invalid ''job header''))))))))))))"

text \<open>The lists of a job, its policy and its designation.\<close>

definition validate_job_body :: "prims \<Rightarrow> resolution_job \<Rightarrow> resolution_error + unit" where
  "validate_job_body P job =
     rbind (validate_sorted_unique_hashes (rj_accepted_intents job) resolution_max_intent_ids ''accepted intents'') (\<lambda>_.
     rbind (ensure (rj_accepted_intents job \<noteq> []) (Invalid ''job no intent'')) (\<lambda>_.
     rbind (validate_sorted_unique_hashes (rj_causal_refs job) resolution_max_causal_refs ''causal refs'') (\<lambda>_.
     rbind (ensure (rj_causal_refs job \<noteq> []) (Invalid ''job no causal refs'')) (\<lambda>_.
     rbind (ensure (length (rj_artifacts job) \<le> resolution_max_artifacts) (Invalid ''job artifacts'')) (\<lambda>_.
     rbind (ensure (rj_artifacts job \<noteq> []) (Invalid ''job no artifact'')) (\<lambda>_.
     rbind (check_artifacts P [] (rj_artifacts job)) (\<lambda>_.
     rbind (validate_candidate_destination P (rj_candidate_destination job)) (\<lambda>_.
     rbind (ensure (length (rj_allowed_output_paths job) \<le> resolution_max_output_paths) (Invalid ''output paths bound'')) (\<lambda>_.
     rbind (ensure (rj_allowed_output_paths job \<noteq> []) (Invalid ''no output path'')) (\<lambda>_.
     rbind (for_each (\<lambda>path. ensure (portable_path_within P path) (Invalid ''output path'')) (rj_allowed_output_paths job)) (\<lambda>_.
     rbind (ensure (bounded_text resolution_max_id_bytes (vp_policy_id (rj_verification job))
        \<and> bounded_text resolution_max_id_bytes (vp_command_config_ref (rj_verification job))) (Invalid ''policy bound'')) (\<lambda>_.
     rbind (ensure (vp_timeout_ms (rj_verification job) > 0
        \<and> vp_timeout_ms (rj_verification job) \<le> resolution_max_timeout_ms) (Invalid ''timeout bound'')) (\<lambda>_.
     rbind (ensure (bounded_text resolution_max_reason_bytes (rj_last_resort_reason job)) (Invalid ''last resort reason'')) (\<lambda>_.
     rbind (ensure (bounded_text resolution_max_reason_bytes (prevention_detail (rj_prevention job))) (Invalid ''prevention detail'')) (\<lambda>_.
     rbind (validate_designation_evidence (rj_designation job)) (\<lambda>_.
     ensure (rj_owner job \<in> set (de_eligible (rj_designation job))) (Invalid ''owner not eligible'')))))))))))))))))"

definition validate_resolution_job :: "prims \<Rightarrow> resolution_job \<Rightarrow> resolution_error + unit" where
  "validate_resolution_job P job = rbind (validate_job_header P job) (\<lambda>_. validate_job_body P job)"

section \<open>Results and answers\<close>

record candidate_descriptor =
  ca_path :: string
  ca_hash :: string
  ca_size :: u64
  ca_mode :: u32
  ca_deleted :: bool

datatype resolution_outcome =
    CandidateReady | NoChangeRequired | RBlocked | RequiresHuman | RFailed | RStale

datatype human_resolution_reason =
    SemanticAmbiguity | UnavoidableDataLoss | MissingOrAuthFailedLeg | SecurityCompatibilityBoundaryChange
  | RequiredVerificationUnavailable | IndeterminateOwnership | BoundedResolverExhaustion
  | UnsupportedSizeSafetyBound | ExplicitProductDecision

datatype human_resolution_option = Defer | KeepUnresolved | SubmitCandidate

record resolution_result =
  rr_schema_version :: u32
  rr_outcome :: resolution_outcome
  rr_job_id :: string
  rr_assignment_id :: string
  rr_attempt :: u32
  rr_owner :: string
  rr_conflict_fingerprint :: string
  rr_candidate :: "candidate_descriptor option"
  rr_verification :: verification_summary
  rr_diagnostics :: "string list"
  rr_question :: "string option"
  rr_human_reason :: "human_resolution_reason option"
  rr_question_generation :: u32
  rr_safe_options :: "human_resolution_option list"

record human_resolution_answer =
  ha_schema_version :: u32
  ha_job_id :: string
  ha_assignment_id :: string
  ha_attempt :: u32
  ha_conflict_fingerprint :: string
  ha_question_generation :: u32
  ha_chosen_option :: human_resolution_option
  ha_candidate :: "candidate_descriptor option"
  ha_verification :: "verification_summary option"

definition validate_candidate_descriptor :: "prims \<Rightarrow> candidate_descriptor \<Rightarrow> resolution_error + unit" where
  "validate_candidate_descriptor P candidate =
     rbind (ensure (portable_path_within P (ca_path candidate)) (Invalid ''candidate path'')) (\<lambda>_.
     rbind (ensure (ca_size candidate \<le> resolution_max_candidate_bytes) (Invalid ''candidate size'')) (\<lambda>_.
     rbind (ensure (ca_mode candidate = 0 \<or> ca_mode candidate = executable_mode) (Invalid ''candidate mode'')) (\<lambda>_.
     if ca_deleted candidate
     then ensure (ca_hash candidate = [] \<and> ca_size candidate = 0 \<and> ca_mode candidate = 0) (Invalid ''deleted candidate content'')
     else ensure (is_valid_hash (ca_hash candidate)) (Invalid ''candidate hash''))))"

definition no_human_content :: "resolution_result \<Rightarrow> bool" where
  "no_human_content result =
     (rr_candidate result = None \<and> rr_question result = None \<and> rr_human_reason result = None)"

definition validate_outcome :: "prims \<Rightarrow> resolution_result \<Rightarrow> resolution_error + unit" where
  "validate_outcome P result =
     (case rr_outcome result of
        CandidateReady \<Rightarrow>
          rbind (ensure (rr_candidate result \<noteq> None) (Invalid ''result no candidate'')) (\<lambda>_.
          rbind (ensure (rr_question result = None \<and> rr_human_reason result = None) (Invalid ''result extra question'')) (\<lambda>_.
          rbind (ensure (vs_status (rr_verification result) = VPassed) (Invalid ''result not passed'')) (\<lambda>_.
          (case rr_candidate result of None \<Rightarrow> Inr () | Some candidate \<Rightarrow> validate_candidate_descriptor P candidate))))
      | NoChangeRequired \<Rightarrow>
          rbind (ensure (no_human_content result) (Invalid ''result extra content'')) (\<lambda>_.
          ensure (vs_status (rr_verification result) = VPassed) (Invalid ''result not passed''))
      | RBlocked \<Rightarrow> ensure (no_human_content result) (Invalid ''result extra content'')
      | RequiresHuman \<Rightarrow>
          rbind (ensure (rr_question result \<noteq> None \<and> rr_human_reason result \<noteq> None) (Invalid ''result no question'')) (\<lambda>_.
          rbind (ensure (rr_candidate result = None) (Invalid ''result extra candidate'')) (\<lambda>_.
          ensure (length (rr_safe_options result) \<le> 4
             \<and> list_ex (\<lambda>o'. o' = Defer \<or> o' = KeepUnresolved) (rr_safe_options result)) (Invalid ''result safe options'')))
      | RFailed \<Rightarrow> ensure (no_human_content result) (Invalid ''result extra content'')
      | RStale \<Rightarrow> ensure (no_human_content result) (Invalid ''result extra content''))"

definition validate_resolution_result :: "prims \<Rightarrow> resolution_result \<Rightarrow> resolution_error + unit" where
  "validate_resolution_result P result =
     rbind (ensure (rr_schema_version result = resolution_schema_version) ResolutionSchema) (\<lambda>_.
     rbind (ensure (is_valid_hex_id (rr_job_id result) 32 \<and> is_valid_hex_id (rr_assignment_id result) 32) (Invalid ''result ids'')) (\<lambda>_.
     rbind (ensure (rr_attempt result \<le> resolution_max_attempt) (Invalid ''result attempt'')) (\<lambda>_.
     rbind (ensure (is_valid_agent_name (rr_owner result)) (Invalid ''result owner'')) (\<lambda>_.
     rbind (ensure (is_valid_hash (rr_conflict_fingerprint result)) (Invalid ''result fingerprint'')) (\<lambda>_.
     rbind (ensure (length (vs_summary (rr_verification result)) \<le> resolution_max_verification_summary_bytes)
        (Invalid ''result summary'')) (\<lambda>_.
     rbind (ensure (length (rr_diagnostics result) \<le> resolution_max_diagnostics) (Invalid ''result diagnostics'')) (\<lambda>_.
     rbind (for_each (\<lambda>d. ensure (length d \<le> resolution_diagnostic_bytes) (Invalid ''result diagnostics'')) (rr_diagnostics result)) (\<lambda>_.
     rbind (check_opt (bounded_text resolution_max_question_bytes) (rr_question result) (Invalid ''result question'')) (\<lambda>_.
     validate_outcome P result)))))))))"

definition validate_human_resolution_answer :: "prims \<Rightarrow> human_resolution_answer \<Rightarrow> resolution_error + unit" where
  "validate_human_resolution_answer P answer =
     rbind (ensure (ha_schema_version answer = resolution_schema_version) ResolutionSchema) (\<lambda>_.
     rbind (ensure (is_valid_hex_id (ha_job_id answer) 32) (Invalid ''answer ids'')) (\<lambda>_.
     rbind (ensure (is_valid_hex_id (ha_assignment_id answer) 32) (Invalid ''answer ids'')) (\<lambda>_.
     rbind (ensure (ha_attempt answer \<le> resolution_max_attempt) (Invalid ''answer attempt'')) (\<lambda>_.
     rbind (ensure (is_valid_hash (ha_conflict_fingerprint answer)) (Invalid ''answer fingerprint'')) (\<lambda>_.
     (case ha_chosen_option answer of
        SubmitCandidate \<Rightarrow>
          rbind (ok_or (ha_candidate answer) (Invalid ''answer no candidate'')) (\<lambda>candidate.
          rbind (validate_candidate_descriptor P candidate) (\<lambda>_.
          ensure (ha_verification answer \<noteq> None) (Invalid ''answer no evidence'')))
      | _ \<Rightarrow> ensure (ha_candidate answer = None \<and> ha_verification answer = None) (Invalid ''answer extra content'')))))))"

section \<open>Profiles\<close>

datatype resolution_revoke_reason = RevokeSuperseded | RevokeCancelled

record resolution_assignment_profile =
  ap_schema_version :: u32
  ap_job :: resolution_job
  ap_question_generation :: "u32 option"

record resolution_revoke_profile =
  rv_schema_version :: u32
  rv_job_id :: string
  rv_assignment_id :: string
  rv_attempt :: u32
  rv_conflict_fingerprint :: string
  rv_reason :: resolution_revoke_reason

datatype resolution_profile =
    RpAssignment resolution_assignment_profile
  | RpResult resolution_result
  | RpRevoke resolution_revoke_profile
  | RpHumanAnswer human_resolution_answer

definition validate_resolution_profile :: "prims \<Rightarrow> resolution_profile \<Rightarrow> resolution_error + unit" where
  "validate_resolution_profile P profile =
     (case profile of
        RpAssignment a \<Rightarrow>
          rbind (ensure (ap_schema_version a = resolution_schema_version) ResolutionSchema) (\<lambda>_.
          rbind (validate_resolution_job P (ap_job a)) (\<lambda>_.
          check_opt (\<lambda>g. g \<le> resolution_max_attempt) (ap_question_generation a) (Invalid ''question generation'')))
      | RpResult result \<Rightarrow> validate_resolution_result P result
      | RpRevoke r \<Rightarrow>
          rbind (ensure (rv_schema_version r = resolution_schema_version) ResolutionSchema) (\<lambda>_.
          rbind (ensure (is_valid_hex_id (rv_job_id r) 32 \<and> is_valid_hex_id (rv_assignment_id r) 32) (Invalid ''revoke ids'')) (\<lambda>_.
          rbind (ensure (rv_attempt r \<le> resolution_max_attempt) (Invalid ''revoke attempt'')) (\<lambda>_.
          ensure (is_valid_hash (rv_conflict_fingerprint r)) (Invalid ''revoke fingerprint''))))
      | RpHumanAnswer answer \<Rightarrow> validate_human_resolution_answer P answer)"

text \<open>\<^verbatim>\<open>serde_json\<close> for the profiles.\<close>

record resolution_json =
  rp_to_json :: "resolution_profile \<Rightarrow> string"
  rp_from_json :: "string \<Rightarrow> resolution_profile option"

definition encode_resolution_profile ::
  "prims \<Rightarrow> resolution_json \<Rightarrow> resolution_profile \<Rightarrow> resolution_error + string" where
  "encode_resolution_profile P J profile =
     rbind (validate_resolution_profile P profile) (\<lambda>_.
     rbind (ensure (length (rp_to_json J profile) \<le> resolution_max_profile_bytes) (Invalid ''profile bound'')) (\<lambda>_.
     Inr (resolution_job_discriminator @ '':'' @ rp_to_json J profile)))"

definition parse_resolution_profile :: "prims \<Rightarrow> resolution_json \<Rightarrow> string \<Rightarrow> resolution_profile option" where
  "parse_resolution_profile P J body =
     (case strip_prefix body resolution_job_discriminator of
        None \<Rightarrow> None
      | Some rest \<Rightarrow>
         (case strip_prefix rest '':'' of
            None \<Rightarrow> None
          | Some json \<Rightarrow>
              if length json > resolution_max_profile_bytes then None
              else case rp_from_json J json of
                None \<Rightarrow> None
              | Some profile \<Rightarrow> if is_ok (validate_resolution_profile P profile) then Some profile else None))"

text \<open>Why a guarded publication is refused.\<close>

datatype resolution_stale_kind =
    HeadChanged | ConflictMissing | LegsChanged | IdentityMismatch | AssignmentRevoked | VerificationExpired
  | CandidateMissing | CandidateHashMismatch | CandidateSizeMismatch | CandidateModeMismatch
  | CandidatePathMismatch | CandidateSymlink | CandidatePermissionDenied | CandidateInvalidType | CandidateIoError


section \<open>The hashed bytes determine the identity\<close>

text \<open>A code of which no word is a proper prefix of another: what follows a word can be cancelled.\<close>

locale prefix_code =
  fixes code :: "'a \<Rightarrow> bytes" and coded :: "'a \<Rightarrow> bool"
  assumes cancel: "coded x \<Longrightarrow> coded y \<Longrightarrow> code x @ r = code y @ s \<Longrightarrow> x = y \<and> r = s"
begin

lemma code_eq: "coded x \<Longrightarrow> coded y \<Longrightarrow> code x @ r = code y @ s \<longleftrightarrow> x = y \<and> r = s"
  using cancel by blast

lemma code_inj: "coded x \<Longrightarrow> coded y \<Longrightarrow> code x = code y \<longleftrightarrow> x = y"
  using cancel [of x y "[]" "[]"] by auto

lemma concat_code_eq:
  "length xs = length ys \<Longrightarrow> list_all coded xs \<Longrightarrow> list_all coded ys
    \<Longrightarrow> concat (map code xs) @ r = concat (map code ys) @ s \<longleftrightarrow> xs = ys \<and> r = s"
proof (induction xs ys rule: list_induct2)
  case (Cons x xs y ys)
  then show ?case using code_eq [of x y] by auto
qed simp

end

text \<open>Every field of the canonical tree format is such a code.\<close>

sublocale wire \<subseteq> field: prefix_code put wf
  by unfold_locales (rule put_prefix_inj)

definition short :: "string \<Rightarrow> bool" where "short s \<longleftrightarrow> length s < 2 ^ 64"

definition short_opt :: "string option \<Rightarrow> bool" where "short_opt x \<longleftrightarrow> (\<forall>s. x = Some s \<longrightarrow> short s)"

lemma short_opt_simps [simp]: "short_opt None" "short_opt (Some s) = short s"
  by (simp_all add: short_opt_def)

lemma le_bytes_inj: "k < 256 ^ n \<Longrightarrow> l < 256 ^ n \<Longrightarrow> le_bytes n k = le_bytes n l \<Longrightarrow> k = l"
  by (metis le_value_le_bytes mod_less)

interpretation u64_code: prefix_code fp_push_u64 "\<lambda>_. True"
  by unfold_locales (simp add: fp_push_u64_def, metis word_of_le_value_64)

interpretation u32_code: prefix_code fp_push_u32 "\<lambda>_. True"
  by unfold_locales (simp add: fp_push_u32_def, metis word_of_le_value_32)

interpretation bytes_code: prefix_code fp_push_bytes short
proof unfold_locales
  fix x y r s assume a: "short x" "short y" "fp_push_bytes x @ r = fp_push_bytes y @ s"
  then have l: "le_bytes 8 (length x) = le_bytes 8 (length y)" and x: "x @ r = y @ s"
    by (simp_all add: fp_push_bytes_def)
  have "length x = length y" by (rule le_bytes_inj [OF _ _ l]) (use a in \<open>simp_all add: short_def\<close>)
  with x show "x = y \<and> r = s" by simp
qed

interpretation opt_code: prefix_code fp_push_opt_bytes short_opt
proof unfold_locales
  fix x y r s assume "short_opt x" "short_opt y" "fp_push_opt_bytes x @ r = fp_push_opt_bytes y @ s"
  then show "x = y \<and> r = s" by (cases x; cases y) (auto simp: bytes_code.code_eq)
qed

lemma fp_bool_inj [simp]: "fp_bool x = fp_bool y \<longleftrightarrow> x = y"
  by (auto simp: fp_bool_def)

interpretation leg_code: prefix_code fp_push_leg "\<lambda>l. short (leg_hash l)"
proof unfold_locales
  fix x y r s assume "short (leg_hash x)" "short (leg_hash y)" "fp_push_leg x @ r = fp_push_leg y @ s"
  then show "x = y \<and> r = s"
    by (simp add: fp_push_leg_def bytes_code.code_eq u64_code.code_eq u32_code.code_eq)
qed

interpretation ids_code: prefix_code fp_push_ids "\<lambda>ids. length ids < 2 ^ 64 \<and> list_all short ids"
proof unfold_locales
  fix xs ys r s assume a: "length xs < 2 ^ 64 \<and> list_all short xs" "length ys < 2 ^ 64 \<and> list_all short ys"
    "fp_push_ids xs @ r = fp_push_ids ys @ s"
  then have w: "(word_of_nat (length xs) :: u64) = word_of_nat (length ys)"
    and c: "concat (map fp_push_bytes xs) @ r = concat (map fp_push_bytes ys) @ s"
    by (simp_all add: fp_push_ids_def u64_code.code_eq)
  have "length xs = length ys"
    using arg_cong [OF w, of unat] a by (simp add: unat_word_of_nat)
  with a c show "xs = ys \<and> r = s" by (simp add: bytes_code.concat_code_eq)
qed

lemma conflict_kind_as_db_str_inj: "conflict_kind_as_db_str k = conflict_kind_as_db_str l \<longleftrightarrow> k = l"
  by (metis conflict_kind_db_roundtrip sum.inject(2))

lemma short_kind [simp]: "short (conflict_kind_as_db_str k)"
  by (cases k) (simp_all add: short_def)

definition short_identity :: "conflict_identity \<Rightarrow> bool" where
  "short_identity i \<longleftrightarrow> short (ci_workspace_id i) \<and> short (ci_current_snapshot i) \<and> short (ci_about_snapshot i)
     \<and> short (ci_tree_root i) \<and> short (ci_path i)
     \<and> short (leg_hash (ci_base i)) \<and> short (leg_hash (ci_ours i)) \<and> short (leg_hash (ci_theirs i))
     \<and> short_opt (ci_task_id i) \<and> length (ci_intent_message_ids i) < 2 ^ 64 \<and> list_all short (ci_intent_message_ids i)
     \<and> short_opt (ci_assignment_id i) \<and> short_opt (ci_designated_owner i) \<and> short_opt (ci_verification_policy i)"

definition attempt_value :: "conflict_identity \<Rightarrow> u32" where
  "attempt_value i = (case ci_attempt i of Some a \<Rightarrow> a | None \<Rightarrow> 0)"

definition same_plain_fields :: "conflict_identity \<Rightarrow> conflict_identity \<Rightarrow> bool" where
  "same_plain_fields i j \<longleftrightarrow> ci_workspace_id i = ci_workspace_id j \<and> ci_current_snapshot i = ci_current_snapshot j
     \<and> ci_about_snapshot i = ci_about_snapshot j \<and> ci_tree_root i = ci_tree_root j \<and> ci_path i = ci_path j
     \<and> ci_base i = ci_base j \<and> ci_ours i = ci_ours j \<and> ci_theirs i = ci_theirs j \<and> ci_kind i = ci_kind j"

definition same_automatic_fields :: "conflict_identity \<Rightarrow> conflict_identity \<Rightarrow> bool" where
  "same_automatic_fields i j \<longleftrightarrow> ci_task_id i = ci_task_id j \<and> ci_intent_message_ids i = ci_intent_message_ids j
     \<and> ci_assignment_id i = ci_assignment_id j \<and> attempt_value i = attempt_value j
     \<and> ci_designated_owner i = ci_designated_owner j \<and> ci_verification_policy i = ci_verification_policy j"

lemma fp_push_automatic_eq:
  assumes "short_identity i" and "short_identity j"
  shows "fp_push_automatic i = fp_push_automatic j \<longleftrightarrow>
     is_automatic i = is_automatic j \<and> (is_automatic i \<longrightarrow> same_automatic_fields i j)"
  using assms
  by (simp add: fp_push_automatic_def short_identity_def opt_code.code_eq opt_code.code_inj u32_code.code_eq
      ids_code.code_eq same_automatic_fields_def flip: attempt_value_def)

lemma conflict_identity_bytes_fields:
  assumes "short_identity i" and "short_identity j"
  shows "conflict_identity_bytes i = conflict_identity_bytes j \<longleftrightarrow>
     same_plain_fields i j \<and> is_automatic i = is_automatic j \<and> (is_automatic i \<longrightarrow> same_automatic_fields i j)"
  using assms fp_push_automatic_eq [OF assms]
  by (simp add: conflict_identity_bytes_def short_identity_def bytes_code.code_eq leg_code.code_eq
      conflict_kind_as_db_str_inj same_plain_fields_def)

lemma not_automatic:
  "\<not> is_automatic x \<longleftrightarrow> ci_task_id x = None \<and> ci_intent_message_ids x = [] \<and> ci_assignment_id x = None
     \<and> ci_attempt x = None \<and> ci_designated_owner x = None \<and> ci_verification_policy x = None"
  by (auto simp: is_automatic_def)

text \<open>An identity without an attempt beside other automatic fields has the bytes of the one with attempt 0.\<close>

definition same_up_to_attempt :: "conflict_identity \<Rightarrow> conflict_identity \<Rightarrow> bool" where
  "same_up_to_attempt i j \<longleftrightarrow> i = j \<or> is_automatic i \<and> is_automatic j
     \<and> {ci_attempt i, ci_attempt j} = {None, Some 0} \<and> i\<lparr>ci_attempt := None\<rparr> = j\<lparr>ci_attempt := None\<rparr>"

lemma same_attempt_value:
  "attempt_value i = attempt_value j \<longleftrightarrow>
     ci_attempt i = ci_attempt j \<or> {ci_attempt i, ci_attempt j} = {None, Some 0}"
  by (cases "ci_attempt i"; cases "ci_attempt j") (auto simp: attempt_value_def doubleton_eq_iff)

lemma conflict_identity_bytes_eq:
  assumes "short_identity i" and "short_identity j" and "ci_schema_version i = ci_schema_version j"
  shows "conflict_identity_bytes i = conflict_identity_bytes j \<longleftrightarrow> same_up_to_attempt i j"
proof (cases "is_automatic i \<and> is_automatic j")
  case True
  then show ?thesis
    unfolding conflict_identity_bytes_fields [OF assms(1,2)] same_up_to_attempt_def same_automatic_fields_def
      same_attempt_value same_plain_fields_def
    using assms(3) by (cases i; cases j) auto
next
  case False
  then show ?thesis
    unfolding conflict_identity_bytes_fields [OF assms(1,2)] same_up_to_attempt_def same_plain_fields_def
    using assms(3) not_automatic [of i] not_automatic [of j] by (auto intro: conflict_identity.equality)
qed

section \<open>What validation gives\<close>

lemma check_opt_eq_Inr [result_simps]: "check_opt p x e = Inr () \<longleftrightarrow> (\<forall>v. x = Some v \<longrightarrow> p v)"
  by (cases x) (simp_all add: check_opt_def)

lemma check_sorted_hashes_Inr:
  "check_sorted_hashes label previous xs = Inr () \<longleftrightarrow>
     list_all is_valid_hash xs \<and> sorted_wrt (<) xs \<and> (\<forall>p x. previous = Some p \<longrightarrow> x \<in> set xs \<longrightarrow> p < x)"
proof (induction xs arbitrary: previous)
  case (Cons x xs)
  show ?case
    by (cases previous) (auto simp: Cons.IH rbind_eq_Inr intro: less_trans)
qed simp

lemma validate_sorted_unique_hashes_Inr [result_simps]:
  "validate_sorted_unique_hashes xs limit label = Inr () \<longleftrightarrow>
     length xs \<le> limit \<and> list_all is_valid_hash xs \<and> sorted_wrt (<) xs"
  by (auto simp: validate_sorted_unique_hashes_def rbind_eq_Inr check_sorted_hashes_Inr)

lemma short_hash: "is_valid_hash h \<Longrightarrow> short h"
  by (simp add: is_valid_hash_def short_def)

lemma short_bounded: "length s \<le> 4096 \<Longrightarrow> short s"
  by (simp add: short_def)

lemma validate_leg_short: "validate_leg l label = Inr () \<Longrightarrow> short (leg_hash l)"
  by (auto simp: validate_leg_def rbind_eq_Inr short_hash short_bounded split: if_splits)

lemma validate_identity_short:
  assumes "validate_conflict_identity P i = Inr ()"
  shows "short_identity i \<and> ci_schema_version i = resolution_schema_version"
proof -
  note v = assms [unfolded validate_conflict_identity_def bounded_text_def rbind_eq_Inr ensure_eq_Inr, simplified]
  have "length (ci_path i) \<le> 4096"
    using v by (simp add: is_safe_rel_path_def max_portable_path_bytes_def)
  moreover have "list_all short (ci_intent_message_ids i)"
    using v by (auto simp: list_all_iff short_hash validate_sorted_unique_hashes_Inr)
  moreover have "length (ci_intent_message_ids i) < 2 ^ 64"
    using v by (simp add: resolution_max_intent_ids_def validate_sorted_unique_hashes_Inr)
  ultimately show ?thesis
    using v by (auto simp: short_identity_def short_hash short_bounded validate_leg_short short_opt_def
        resolution_max_id_bytes_def is_valid_task_id_def work_max_task_id_bytes_def is_valid_hex_id_def
        is_valid_agent_name_def agent_name_max_bytes_def check_opt_eq_Inr)
qed

text \<open>Two inputs of the hash function that are not a collision.\<close>

definition no_collision :: "prims \<Rightarrow> bytes \<Rightarrow> bytes \<Rightarrow> bool" where
  "no_collision P x y \<longleftrightarrow> (blake3_hex P x = blake3_hex P y \<longrightarrow> x = y)"

lemma fingerprint_eq:
  assumes "validate_conflict_identity P i = Inr ()" and "validate_conflict_identity P j = Inr ()"
    and "no_collision P (conflict_identity_bytes i) (conflict_identity_bytes j)"
  shows "compute_conflict_identity_fingerprint P i = compute_conflict_identity_fingerprint P j
     \<longleftrightarrow> same_up_to_attempt i j"
proof -
  note i = validate_identity_short [OF assms(1)] and j = validate_identity_short [OF assms(2)]
  have "compute_conflict_identity_fingerprint P i = compute_conflict_identity_fingerprint P j
     \<longleftrightarrow> conflict_identity_bytes i = conflict_identity_bytes j"
    using assms(3) by (auto simp: compute_conflict_identity_fingerprint_def no_collision_def)
  with conflict_identity_bytes_eq [of i j] i j show ?thesis by simp
qed

lemma validate_job_Inr:
  assumes "validate_resolution_job P job = Inr ()"
  shows "validate_conflict_identity P (rj_conflict job) = Inr ()"
    and "rj_conflict_fingerprint job = compute_conflict_identity_fingerprint P (rj_conflict job)"
    and "is_automatic (rj_conflict job)"
    and "ci_assignment_id (rj_conflict job) = Some (rj_assignment_id job)"
    and "ci_attempt (rj_conflict job) = Some (rj_attempt job)"
    and "ci_designated_owner (rj_conflict job) = Some (rj_owner job)"
    and "ci_task_id (rj_conflict job) = Some (rj_task_id job)"
    and "rj_current_snapshot job = ci_current_snapshot (rj_conflict job)"
    and "rj_about_snapshot job = ci_about_snapshot (rj_conflict job)"
    and "rj_tree_root job = ci_tree_root (rj_conflict job)"
    and "is_valid_hash (rj_conflict_fingerprint job)"
    and "is_valid_hex_id (rj_job_id job) 32" and "is_valid_hex_id (rj_assignment_id job) 32"
    and "is_valid_agent_name (rj_owner job)"
    and "rj_attempt job \<le> resolution_max_attempt"
  using assms by (auto simp: validate_resolution_job_def validate_job_header_def rbind_eq_Inr)

lemma same_up_to_attempt_some:
  "same_up_to_attempt i j \<Longrightarrow> ci_attempt i \<noteq> None \<Longrightarrow> ci_attempt j \<noteq> None \<Longrightarrow> i = j"
  by (auto simp: same_up_to_attempt_def doubleton_eq_iff)

lemma jobs_same_conflict:
  assumes "validate_resolution_job P a = Inr ()" and "validate_resolution_job P b = Inr ()"
    and "no_collision P (conflict_identity_bytes (rj_conflict a)) (conflict_identity_bytes (rj_conflict b))"
    and "rj_conflict_fingerprint a = rj_conflict_fingerprint b"
  shows "rj_conflict a = rj_conflict b \<and> rj_assignment_id a = rj_assignment_id b \<and> rj_attempt a = rj_attempt b
    \<and> rj_owner a = rj_owner b \<and> rj_task_id a = rj_task_id b \<and> rj_current_snapshot a = rj_current_snapshot b"
proof -
  note a = validate_job_Inr [OF assms(1)] and b = validate_job_Inr [OF assms(2)]
  have "same_up_to_attempt (rj_conflict a) (rj_conflict b)"
    using assms(4) a(2) b(2) fingerprint_eq [OF a(1) b(1) assms(3)] by simp
  then have "rj_conflict a = rj_conflict b" by (rule same_up_to_attempt_some) (simp_all add: a b)
  with a(4-8) b(4-8) show ?thesis by simp
qed

section \<open>Profiles on the wire\<close>

lemma strip_colon: "strip_prefix (CHR '':'' # json) '':'' = Some json"
  by (simp add: strip_prefix_def)

lemma parse_resolution_profile_Some:
  "parse_resolution_profile P J body = Some profile \<longleftrightarrow>
     (\<exists>json. body = resolution_job_discriminator @ '':'' @ json \<and> length json \<le> resolution_max_profile_bytes
        \<and> rp_from_json J json = Some profile \<and> validate_resolution_profile P profile = Inr ())"
  by (auto simp: parse_resolution_profile_def strip_prefix_append strip_colon is_ok_iff not_less
      dest!: strip_prefix_eq_Some [THEN iffD1] split: option.splits if_splits)

lemma parse_encode_resolution:
  assumes "rp_from_json J (rp_to_json J profile) = Some profile"
    and "encode_resolution_profile P J profile = Inr body"
  shows "parse_resolution_profile P J body = Some profile"
  unfolding parse_resolution_profile_Some
  using assms by (auto simp: encode_resolution_profile_def rbind_eq_Inr)

text \<open>
  The bound is checked on the JSON alone: with the discriminator in front the body of a message can be longer than a
  message may be.
\<close>

lemma resolution_body_over_bound:
  assumes "validate_resolution_profile P profile = Inr ()"
    and "resolution_max_profile_bytes - 7 < length (rp_to_json J profile)"
    and "length (rp_to_json J profile) \<le> resolution_max_profile_bytes"
  shows "\<exists>body. encode_resolution_profile P J profile = Inr body \<and> agent_message_max_body_bytes < length body"
  using assms by (simp add: encode_resolution_profile_def resolution_max_profile_bytes_def
      agent_message_max_body_bytes_def resolution_job_discriminator_def)

section \<open>An example\<close>

text \<open>
  For worked examples: the fixtures of the contract's own tests, with any function in the place of Blake3.
\<close>

definition digest_prims :: "(bytes \<Rightarrow> string) \<Rightarrow> prims" where
  "digest_prims h = sample_prims\<lparr>blake3_hex := h\<rparr>"

definition hex64 :: "char \<Rightarrow> string" where "hex64 c = replicate 64 c"

definition sample_leg :: "char \<Rightarrow> u64 \<Rightarrow> conflict_leg" where
  "sample_leg c size' = \<lparr>leg_present = True, leg_deleted = False, leg_hash = hex64 c, leg_size = size', leg_mode = 0\<rparr>"

definition sample_identity :: conflict_identity where
  "sample_identity =
     \<lparr>ci_schema_version = 1, ci_workspace_id = ''fixture-workspace'', ci_current_snapshot = hex64 (CHR ''a''),
      ci_about_snapshot = hex64 (CHR ''a''), ci_tree_root = hex64 (CHR ''4''), ci_path = ''src/main.rs'',
      ci_base = sample_leg (CHR ''1'') 120, ci_ours = sample_leg (CHR ''2'') 121, ci_theirs = sample_leg (CHR ''3'') 122,
      ci_kind = EditEdit, ci_task_id = Some ''parser-impl'',
      ci_intent_message_ids = [hex64 (CHR ''5''), hex64 (CHR ''6'')],
      ci_assignment_id = Some ''0123456789abcdef0123456789abcdef'', ci_attempt = Some 0,
      ci_designated_owner = Some ''agent-b'', ci_verification_policy = Some resolution_verification_policy_id\<rparr>"

definition sample_job :: resolution_job where
  "sample_job =
     (let job_id = ''fedcba9876543210fedcba9876543210''; reason = ''no bounded prevention path remains for this conflict'' in
      \<lparr>rj_schema_version = 1, rj_job_id = job_id, rj_task_id = ''parser-impl'',
       rj_assignment_id = ''0123456789abcdef0123456789abcdef'', rj_attempt = 0, rj_workspace_id = ''fixture-workspace'',
       rj_owner = ''agent-b'', rj_conflict = sample_identity,
       rj_conflict_fingerprint = hex64 (CHR ''e''),
       rj_current_snapshot = hex64 (CHR ''a''), rj_about_snapshot = hex64 (CHR ''a''), rj_tree_root = hex64 (CHR ''4''),
       rj_accepted_intents = [hex64 (CHR ''5''), hex64 (CHR ''6'')], rj_causal_refs = [hex64 (CHR ''7'')],
       rj_artifacts = [\<lparr>ad_role = Original, ad_path = ''conflicts/1/src/main.rs.original''\<rparr>],
       rj_candidate_destination = \<lparr>cd_path = ''orchestrator/resolution/jobs/'' @ job_id @ ''/candidate-0.bin'', cd_create_new = True\<rparr>,
       rj_allowed_output_paths = [''src/main.rs''],
       rj_verification = \<lparr>vp_policy_id = resolution_verification_policy_id, vp_command_config_ref = resolution_verification_config_ref,
         vp_timeout_ms = resolution_default_verification_timeout_ms, vp_freshness_required = True\<rparr>,
       rj_prevention = Exhausted reason, rj_last_resort_reason = reason,
       rj_designation = \<lparr>de_method = CausalEligible, de_nonce = None, de_roster_fingerprint = None, de_eligible = [''agent-b''],
         de_ranked = [], de_reasoning = ''author of the older intent'', de_attempt = 0\<rparr>\<rparr>)"

text \<open>A result that resolves the conflict by deleting the path.\<close>

definition sample_result :: resolution_result where
  "sample_result =
     \<lparr>rr_schema_version = 1, rr_outcome = CandidateReady, rr_job_id = rj_job_id sample_job,
      rr_assignment_id = rj_assignment_id sample_job, rr_attempt = 0, rr_owner = ''agent-b'',
      rr_conflict_fingerprint = rj_conflict_fingerprint sample_job,
      rr_candidate = Some \<lparr>ca_path = cd_path (rj_candidate_destination sample_job), ca_hash = [], ca_size = 0, ca_mode = 0, ca_deleted = True\<rparr>,
      rr_verification = \<lparr>vs_status = VPassed, vs_summary = ''passed'', vs_policy_id = None, vs_policy_version = 0, vs_tool_ref = None,
        vs_input_hashes = [], vs_output_hash = None, vs_checks = []\<rparr>,
      rr_diagnostics = [], rr_question = None, rr_human_reason = None, rr_question_generation = 0, rr_safe_options = []\<rparr>"

definition const_prims :: prims where
  "const_prims = digest_prims (\<lambda>_. hex64 (CHR ''e''))"

lemma blake3_digest [simp]: "blake3_hex (digest_prims h) = h"
  by (simp add: digest_prims_def)

lemma hex64_valid:
  "c \<in> set ''0123456789abcdef'' \<Longrightarrow> is_valid_hash (hex64 c)"
  by (auto simp: is_valid_hash_def hex64_def list_all_iff is_hash_char_def)

lemma hex64_less: "c < d \<Longrightarrow> hex64 c < hex64 d"
  by (simp add: hex64_def eval_nat_numeral)

lemma sample_paths:
  "is_safe_rel_path (digest_prims h) ''src/main.rs''"
  "is_safe_rel_path (digest_prims h) ''conflicts/1/src/main.rs.original''"
  "is_safe_rel_path (digest_prims h) ''orchestrator/resolution/jobs/fedcba9876543210fedcba9876543210/candidate-0.bin''"
  by code_simp+

lemma sample_atoms:
  "is_valid_agent_name ''agent-b''" "is_valid_agent_name ''agent-c''" "is_valid_task_id ''parser-impl''"
  "is_valid_hex_id ''0123456789abcdef0123456789abcdef'' 32" "is_valid_hex_id ''fedcba9876543210fedcba9876543210'' 32"
  "str_trim ''fixture-workspace'' \<noteq> []" "str_trim resolution_verification_policy_id \<noteq> []" "str_trim resolution_verification_config_ref \<noteq> []"
  "str_trim ''no bounded prevention path remains for this conflict'' \<noteq> []"
  by code_simp+

lemmas sample_valid = sample_atoms sample_paths hex64_valid hex64_less validate_leg_def sample_leg_def bounded_text_def check_opt_def
  validate_sorted_unique_hashes_def derive_conflict_kind_def resolution_schema_version_def resolution_max_id_bytes_def
  resolution_max_leg_bytes_def resolution_max_intent_ids_def resolution_max_attempt_def executable_mode_def
  portable_path_within_def max_portable_path_bytes_def resolution_max_causal_refs_def resolution_max_artifacts_def
  resolution_max_output_paths_def resolution_max_timeout_ms_def resolution_default_verification_timeout_ms_def
  resolution_max_reason_bytes_def resolution_verification_policy_id_def [THEN arg_cong, of length]
  resolution_verification_config_ref_def [THEN arg_cong, of length]

lemma sample_identity_valid:
  "validate_conflict_identity (digest_prims h) sample_identity = Inr ()"
  "validate_conflict_identity (digest_prims h) (sample_identity\<lparr>ci_attempt := None\<rparr>) = Inr ()"
  "validate_conflict_identity (digest_prims h) (sample_identity\<lparr>ci_designated_owner := Some ''agent-c''\<rparr>) = Inr ()"
  by (simp_all add: validate_conflict_identity_def sample_identity_def sample_valid)

lemma sample_job_valid: "validate_resolution_job const_prims sample_job = Inr ()"
proof -
  have "validate_job_header const_prims sample_job = Inr ()"
    by (simp add: validate_job_header_def sample_job_def Let_def const_prims_def sample_identity_valid
      compute_conflict_identity_fingerprint_def sample_valid) (simp add: sample_identity_def is_automatic_def)
  moreover have "validate_job_body const_prims sample_job = Inr ()"
    by (simp add: validate_job_body_def sample_job_def Let_def const_prims_def validate_candidate_destination_def
      validate_designation_evidence_def sample_valid)
  ultimately show ?thesis by (simp add: validate_resolution_job_def)
qed

text \<open>
  C23: the fingerprint of a valid conflict identity determines it: the hashed bytes are equal exactly when all fields are, with one exception, an
  attempt that is absent in one and 0 in the other. Two valid jobs with one fingerprint are the same attempt of the same assignment.
\<close>

theorem conflict_fingerprint_exact:
  assumes "validate_conflict_identity P i = Inr ()" and "validate_conflict_identity P j = Inr ()"
    and "no_collision P (conflict_identity_bytes i) (conflict_identity_bytes j)"
  shows "(compute_conflict_identity_fingerprint P i = compute_conflict_identity_fingerprint P j \<longleftrightarrow> same_up_to_attempt i j)
     \<and> (\<forall>a b. validate_resolution_job P a = Inr () \<longrightarrow> validate_resolution_job P b = Inr () \<longrightarrow> rj_conflict a = i \<longrightarrow> rj_conflict b = j
          \<longrightarrow> rj_conflict_fingerprint a = rj_conflict_fingerprint b
          \<longrightarrow> i = j \<and> rj_assignment_id a = rj_assignment_id b \<and> rj_attempt a = rj_attempt b \<and> rj_owner a = rj_owner b)"
  using fingerprint_eq [OF assms] jobs_same_conflict assms(3) by blast

theorem conflict_fingerprint_exact_witness:
  "(compute_conflict_identity_fingerprint (digest_prims (\<lambda>bs. bs)) sample_identity
      = compute_conflict_identity_fingerprint (digest_prims (\<lambda>bs. bs)) (sample_identity\<lparr>ci_attempt := None\<rparr>))
   \<and> compute_conflict_identity_fingerprint (digest_prims (\<lambda>bs. bs)) sample_identity
      \<noteq> compute_conflict_identity_fingerprint (digest_prims (\<lambda>bs. bs)) (sample_identity\<lparr>ci_designated_owner := Some ''agent-c''\<rparr>)"
proof -
  have n: "no_collision (digest_prims (\<lambda>bs. bs)) x y" for x y by (simp add: no_collision_def)
  from conflict_fingerprint_exact [OF sample_identity_valid(1,2) n] conflict_fingerprint_exact [OF sample_identity_valid(1,3) n]
  show ?thesis by (auto simp: same_up_to_attempt_def is_automatic_def sample_identity_def)
qed

end
