(* ===== verification/Durable_Process.thy ===== *)
theory Durable_Process
  imports Prelude
begin

text \<open>
  Operations that take several steps on durable state. An operation is a tree of atomic actions on a world; between
  two actions the rest of the system may change the world as a rely relation permits, and the process may
  die at any point, after which another operation starts from the world it left. \<open>safe\<close> is what an operation has to
  satisfy from a world on: an invariant of every world it meets or leaves, and a guarantee on every action. The
  locale \<open>crash_safe\<close> is the contract of a set of operations; its lemma is that in every run, with any number
  of crashes, the invariant holds and every action keeps the guarantee.
\<close>

section \<open>Processes\<close>

datatype ('w, 'e, 'a) proc = Done "'e + 'a" | Act "'w \<Rightarrow> ('w, 'e, 'a) proc \<times> 'w"

primrec ptry :: "('w, 'e, 'a) proc \<Rightarrow> ('e + 'a \<Rightarrow> ('w, 'f, 'b) proc) \<Rightarrow> ('w, 'f, 'b) proc" where
  "ptry (Done r) k = k r"
| "ptry (Act f) k = Act (map_prod (\<lambda>p. ptry p k) id \<circ> f)"

definition pbind :: "('w, 'e, 'a) proc \<Rightarrow> ('a \<Rightarrow> ('w, 'e, 'b) proc) \<Rightarrow> ('w, 'e, 'b) proc" where
  "pbind p k = ptry p (\<lambda>r. case r of Inl e \<Rightarrow> Done (Inl e) | Inr x \<Rightarrow> k x)"

text \<open>One action with a result.\<close>

definition act :: "('w \<Rightarrow> ('e + 'a) \<times> 'w) \<Rightarrow> ('w, 'e, 'a) proc" where
  "act f = Act (\<lambda>w. let (r, w') = f w in (Done r, w'))"

text \<open>An action that only reads.\<close>

definition look :: "('w \<Rightarrow> 'e + 'a) \<Rightarrow> ('w, 'e, 'a) proc" where
  "look f = act (\<lambda>w. (f w, w))"

fun pfor :: "('x \<Rightarrow> ('w, 'e, unit) proc) \<Rightarrow> 'x list \<Rightarrow> ('w, 'e, unit) proc" where
  "pfor f [] = Done (Inr ())"
| "pfor f (x # xs) = pbind (f x) (\<lambda>_. pfor f xs)"

text \<open>The run of an operation that nothing interrupts.\<close>

primrec run :: "('w, 'e, 'a) proc \<Rightarrow> 'w \<Rightarrow> ('e + 'a) \<times> 'w" where
  "run (Done r) w = (r, w)"
| "run (Act f) w = (\<lambda>(h, w'). h w') ((map_prod run id \<circ> f) w)"

lemma run_Act [simp]: "run (Act f) w = (case f w of (p, w') \<Rightarrow> run p w')"
  by (simp add: case_prod_unfold)

lemma run_ptry [simp]: "run (ptry p k) w = (case run p w of (r, w') \<Rightarrow> run (k r) w')"
proof (induction p arbitrary: w)
  case (Act f)
  show ?case
  proof (cases "f w")
    case (Pair p w')
    moreover have "(p, w') \<in> range f" using Pair by (metis rangeI)
    ultimately show ?thesis using Act [of "(p, w')" p w'] by (simp del: run.simps(2))
  qed
qed simp

lemma run_pbind [simp]:
  "run (pbind p k) w = (case run p w of (Inl e, w') \<Rightarrow> (Inl e, w') | (Inr x, w') \<Rightarrow> run (k x) w')"
  by (auto simp: pbind_def split: prod.splits sum.splits)

lemma run_act [simp]: "run (act f) w = f w"
  by (simp add: act_def case_prod_unfold Let_def)

lemma run_look [simp]: "run (look f) w = (f w, w)"
  by (simp add: look_def)

declare run.simps(2) [simp del]

section \<open>Safety under interference and crashes\<close>

primrec safe ::
  "('w \<Rightarrow> 'w \<Rightarrow> bool) \<Rightarrow> ('w \<Rightarrow> 'w \<Rightarrow> bool) \<Rightarrow> ('w \<Rightarrow> bool) \<Rightarrow> ('w, 'e, 'a) proc
   \<Rightarrow> ('e + 'a \<Rightarrow> 'w \<Rightarrow> bool) \<Rightarrow> 'w \<Rightarrow> bool" where
  "safe R G I (Done r) = (\<lambda>Q w. I w \<and> Q r w)"
| "safe R G I (Act f) = (\<lambda>Q w. \<forall>w'. R w w' \<longrightarrow> I w' \<and> G w' (snd (f w'))
     \<and> (case (map_prod (safe R G I) id \<circ> f) w' of (h, w'') \<Rightarrow> h Q w''))"

lemma safe_Act [simp]:
  "safe R G I (Act f) Q w \<longleftrightarrow>
     (\<forall>w'. R w w' \<longrightarrow> I w' \<and> G w' (snd (f w')) \<and> safe R G I (fst (f w')) Q (snd (f w')))"
  by (simp add: case_prod_unfold)

declare safe.simps(2) [simp del]

lemma safe_mono:
  "safe R G I p Q w \<Longrightarrow> (\<And>r w. I w \<Longrightarrow> Q r w \<Longrightarrow> Q' r w) \<Longrightarrow> safe R G I p Q' w"
proof (induction p arbitrary: w)
  case (Act f)
  show ?case
    using Act.prems(1) Act.IH [of "f w'" "fst (f w')" for w'] Act.prems(2) by (auto simp: prod_eq_iff fsts.simps)
qed simp

lemma safe_ptry:
  "safe R G I p (\<lambda>r w. safe R G I (k r) Q w) w \<Longrightarrow> safe R G I (ptry p k) Q w"
proof (induction p arbitrary: w)
  case (Act f)
  show ?case
    using Act.prems Act.IH [of "f w'" "fst (f w')" for w'] by (auto simp: fsts.simps)
qed simp

lemma safe_pbind:
  assumes "safe R G I p (\<lambda>r w. case r of Inl e \<Rightarrow> Q (Inl e) w | Inr x \<Rightarrow> safe R G I (k x) Q w) w"
  shows "safe R G I (pbind p k) Q w"
  unfolding pbind_def
  by (rule safe_ptry, rule safe_mono [OF assms]) (auto split: sum.splits)

lemma safe_act:
  "safe R G I (act f) Q w \<longleftrightarrow>
     (\<forall>w'. R w w' \<longrightarrow> I w' \<and> G w' (snd (f w')) \<and> I (snd (f w')) \<and> Q (fst (f w')) (snd (f w')))"
  by (simp add: act_def case_prod_unfold Let_def)

lemma safe_look:
  assumes "\<And>w. G w w"
  shows "safe R G I (look f) Q w \<longleftrightarrow> (\<forall>w'. R w w' \<longrightarrow> I w' \<and> Q (f w') w')"
  using assms by (simp add: look_def safe_act)

lemma safe_pfor:
  assumes "\<And>x w. x \<in> set xs \<Longrightarrow> I w \<Longrightarrow> safe R G I (f x) (\<lambda>_ _. True) w" and "I w"
  shows "safe R G I (pfor f xs) (\<lambda>_ _. True) w"
  using assms
proof (induction xs arbitrary: w)
  case (Cons x xs)
  have "safe R G I (f x) (\<lambda>_ _. True) w" using Cons.prems by simp
  then have "safe R G I (f x) (\<lambda>r w. case r of Inl e \<Rightarrow> True | Inr _ \<Rightarrow> safe R G I (pfor f xs) (\<lambda>_ _. True) w) w"
    by (rule safe_mono) (auto split: sum.splits intro!: Cons.IH Cons.prems)
  then show ?case by (auto intro: safe_pbind)
qed simp

section \<open>Runs\<close>

text \<open>At most one operation runs; it may die after any action, and the rest of the system moves in between.\<close>

inductive reachable ::
  "('w, 'e, unit) proc set \<Rightarrow> ('w \<Rightarrow> 'w \<Rightarrow> bool) \<Rightarrow> 'w \<Rightarrow> ('w, 'e, unit) proc option \<Rightarrow> 'w \<Rightarrow> bool"
  for ops R w0 where
  init: "reachable ops R w0 None w0"
| start: "reachable ops R w0 None w \<Longrightarrow> p \<in> ops \<Longrightarrow> reachable ops R w0 (Some p) w"
| action: "reachable ops R w0 (Some (Act f)) w \<Longrightarrow> f w = (p, w') \<Longrightarrow> reachable ops R w0 (Some p) w'"
| finish: "reachable ops R w0 (Some (Done r)) w \<Longrightarrow> reachable ops R w0 None w"
| crash: "reachable ops R w0 (Some p) w \<Longrightarrow> reachable ops R w0 None w"
| others: "reachable ops R w0 x w \<Longrightarrow> R w w' \<Longrightarrow> reachable ops R w0 x w'"

text \<open>A schedule: the first actions of an operation, without interference.\<close>

primrec steps :: "nat \<Rightarrow> ('w, 'e, 'a) proc \<Rightarrow> 'w \<Rightarrow> ('w, 'e, 'a) proc \<times> 'w" where
  "steps 0 p w = (p, w)"
| "steps (Suc n) p w = (case p of Done r \<Rightarrow> (p, w) | Act f \<Rightarrow> (case f w of (p', w') \<Rightarrow> steps n p' w'))"

lemma reachable_steps:
  "reachable ops R w0 (Some p) w \<Longrightarrow> reachable ops R w0 (Some (fst (steps n p w))) (snd (steps n p w))"
  by (induction n arbitrary: p w) (auto split: proc.splits prod.splits intro: reachable.action)

lemma reachable_run:
  assumes "reachable ops R w0 (Some p) w"
  shows "reachable ops R w0 None (snd (run p w))"
  using assms
proof (induction p arbitrary: w)
  case (Act f)
  obtain p w' where "f w = (p, w')" by fastforce
  moreover from this have "(p, w') \<in> range f" by (metis rangeI)
  moreover from calculation(1) have "reachable ops R w0 (Some p) w'" by (rule reachable.action [OF Act.prems])
  ultimately show ?case using Act.IH [of "(p, w')" p w'] by simp
qed (auto intro: reachable.finish)

lemma ptry_assoc: "ptry (ptry p k) h = ptry p (\<lambda>r. ptry (k r) h)"
proof (induction p)
  case (Act f)
  have "map_prod (\<lambda>p. ptry (ptry p k) h) id (f w) = map_prod (\<lambda>p. ptry p (\<lambda>r. ptry (k r) h)) id (f w)" for w
    using Act [of "f w" "fst (f w)"] rangeI [of f w] by (cases "f w") auto
  then show ?case by (simp add: fun_eq_iff prod.map_comp comp_def id_def)
qed simp

lemma steps_ptry_act: "steps (Suc n) (ptry (act f) k) w = steps n (k (fst (f w))) (snd (f w))"
  by (simp add: act_def case_prod_unfold Let_def)

lemma ptry_act_Act: "\<exists>g. ptry (act f) k = Act g \<and> (\<forall>w. snd (g w) = snd (f w))"
  by (simp add: act_def case_prod_unfold Let_def)

locale crash_safe =
  fixes ops :: "('w, 'e, unit) proc set"
    and R :: "'w \<Rightarrow> 'w \<Rightarrow> bool" and G :: "'w \<Rightarrow> 'w \<Rightarrow> bool" and I :: "'w \<Rightarrow> bool"
  assumes rely_refl: "R w w"
    and rely_trans: "R w w' \<Longrightarrow> R w' w'' \<Longrightarrow> R w w''"
    and stable: "I w \<Longrightarrow> R w w' \<Longrightarrow> I w'"
    and ops_safe: "p \<in> ops \<Longrightarrow> I w \<Longrightarrow> safe R G I p (\<lambda>_ _. True) w"
begin

lemma reachable_safe:
  assumes "I w0" and "reachable ops R w0 x w"
  shows "I w \<and> (\<forall>p. x = Some p \<longrightarrow> safe R G I p (\<lambda>_ _. True) w)"
  using assms(2)
proof induction
  case (action f w p w')
  then have "safe R G I p (\<lambda>_ _. True) w'" using rely_refl by fastforce
  moreover have "I w'"
  proof (cases p)
    case (Done r)
    with calculation show ?thesis by simp
  next
    case (Act g)
    with calculation show ?thesis using rely_refl by simp
  qed
  ultimately show ?case by simp
next
  case (others x w w')
  have "safe R G I p (\<lambda>_ _. True) w'" if "safe R G I p (\<lambda>_ _. True) w" for p :: "('w, 'e, unit) proc"
    using that others.hyps(2) others.IH stable rely_trans by (cases p) auto
  with others stable show ?case by blast
qed (use assms(1) ops_safe in auto)

lemma reachable_invariant: "I w0 \<Longrightarrow> reachable ops R w0 x w \<Longrightarrow> I w"
  using reachable_safe by blast

lemma reachable_guarantee: "I w0 \<Longrightarrow> reachable ops R w0 (Some (Act f)) w \<Longrightarrow> G w (snd (f w))"
  using reachable_safe [of w0 "Some (Act f)" w] rely_refl by simp

end

end
