(* ===== verification/Resolution_Store.thy ===== *)
theory Resolution_Store
  imports Resolution_Contract Copy_Names Durable_Process
begin

text \<open>
  The store of resolution jobs (\<^verbatim>\<open>agent-core/src/resolution.rs\<close>): the life cycle of an assignment, the state
  file with its eviction, and what submission and a human's answer do to a record. An error that the code
  downcasts (a stale publication, a lost swap) keeps its kind. The evidence of the inline verification policy is
  computed as the code does; the number of a check in it is its place.

  The lemmas say what eviction keeps, that a terminal record never changes, and that the number of a question
  grows.
\<close>

section \<open>Records\<close>

definition resolution_store_schema_version :: u32 where "resolution_store_schema_version = 1"
definition resolution_max_jobs :: nat where "resolution_max_jobs = 64"
definition resolution_max_apply_revalidations :: nat where "resolution_max_apply_revalidations = 3"

datatype assignment_state =
    RsActive | RsUncertain | RsRevoked | RsSuperseded | RsCompleted | RsStale | RsDeferred | RsKeepUnresolved

definition assignment_terminal :: "assignment_state \<Rightarrow> bool" where
  "assignment_terminal s = (s \<in> {RsRevoked, RsSuperseded, RsCompleted, RsStale, RsDeferred, RsKeepUnresolved})"

text \<open>Why the designation of an owner is refused (\<^verbatim>\<open>integrator.rs\<close>).\<close>

datatype designation_refusal_kind = ProjectionIncomplete | NoRoster | NoCapableRoster | ActiveAssignmentExists

datatype engine_error =
    Contract resolution_error
  | UnsupportedStore
  | UnknownJob
  | BadTransition assignment_state assignment_state
  | NotActive assignment_state
  | AlreadySubmitted
  | CandidateExists
  | CandidateTooLarge
  | DuplicateFingerprint
  | DuplicateJob
  | ActiveJobLimit
  | NoQuestion
  | StaleQuestion u32 u32
  | AnswerMismatch
  | ResultMismatch
  | NotSubmittedWithoutCandidate
  | NoResult
  | NotApplicable
  | WrongCandidatePath
  | NoEvidence
  | StalePublication resolution_stale_kind
  | LostCas string
  | CannotComplete assignment_state
  | FormatTooOld
  | NoPrevention
  | NoHead
  | NoConflict
  | LegacyConflict
  | Undesignated
  | DesignationRefused designation_refusal_kind
  | DesignationPanicked
  | TooManyCausalRefs
  | TreeError
  | IoFailed
  | SwapFailed
  | JournalTooLarge
  | LegMismatch
  | LegExists

definition contract :: "resolution_error + 'a \<Rightarrow> engine_error + 'a" where
  "contract r = map_err Contract r"

lemma contract_eq_Inr [simp, result_simps]: "contract r = Inr x \<longleftrightarrow> r = Inr x"
  by (simp add: contract_def)

definition assert_state_transition :: "assignment_state \<Rightarrow> assignment_state \<Rightarrow> engine_error + unit" where
  "assert_state_transition from to =
     ensure ((from, to) \<in> {(RsActive, RsActive), (RsActive, RsUncertain), (RsActive, RsRevoked),
        (RsActive, RsSuperseded), (RsActive, RsDeferred), (RsActive, RsKeepUnresolved),
        (RsUncertain, RsCompleted), (RsUncertain, RsStale), (RsUncertain, RsActive)}) (BadTransition from to)"

record persisted_job =
  ps_schema_version :: u32
  ps_job :: resolution_job
  ps_state :: assignment_state
  ps_created_at_ms :: i64
  ps_verified_at_ms :: "i64 option"
  ps_result :: "resolution_result option"
  ps_question_generation :: u32

record resolution_state_file =
  rs_schema_version :: u32
  rs_jobs :: "persisted_job list"

definition resolution_state_fresh :: resolution_state_file where
  "resolution_state_fresh = \<lparr>rs_schema_version = resolution_store_schema_version, rs_jobs = []\<rparr>"

definition live_job :: "persisted_job \<Rightarrow> bool" where
  "live_job r = (\<not> assignment_terminal (ps_state r))"

definition trim_jobs :: "persisted_job list \<Rightarrow> persisted_job list" where
  "trim_jobs jobs =
     (if length jobs \<le> resolution_max_jobs then jobs
      else
        let terminal = rev (sort_key (\<lambda>r. sint (ps_created_at_ms r)) (filter (\<lambda>r. assignment_terminal (ps_state r)) jobs));
            non_terminal = length jobs - length terminal;
            keep = resolution_max_jobs - non_terminal
        in filter live_job jobs @ take keep terminal)"

definition check_record :: "prims \<Rightarrow> persisted_job \<Rightarrow> engine_error + unit" where
  "check_record P r =
     rbind (contract (validate_resolution_job P (ps_job r))) (\<lambda>_.
     (case ps_result r of None \<Rightarrow> Inr () | Some result \<Rightarrow> contract (validate_resolution_result P result)))"

definition resolution_load :: "prims \<Rightarrow> resolution_state_file \<Rightarrow> engine_error + resolution_state_file" where
  "resolution_load P st =
     rbind (ensure (rs_schema_version st = resolution_store_schema_version) UnsupportedStore) (\<lambda>_.
     rbind (for_each (check_record P) (rs_jobs st)) (\<lambda>_.
     Inr st))"

text \<open>What \<^verbatim>\<open>update\<close> is to write: the changed state under the current schema, trimmed.\<close>

definition resolution_changed ::
  "(persisted_job list \<Rightarrow> engine_error + persisted_job list) \<Rightarrow> resolution_state_file
   \<Rightarrow> engine_error + resolution_state_file" where
  "resolution_changed f st =
     rbind (ensure (rs_schema_version st = resolution_store_schema_version) UnsupportedStore) (\<lambda>_.
     rbind (f (rs_jobs st)) (\<lambda>jobs.
     Inr \<lparr>rs_schema_version = resolution_store_schema_version, rs_jobs = trim_jobs jobs\<rparr>))"

definition find_job :: "string \<Rightarrow> persisted_job list \<Rightarrow> persisted_job option" where
  "find_job job_id jobs = find (\<lambda>r. rj_job_id (ps_job r) = job_id) jobs"

definition load_job :: "prims \<Rightarrow> string \<Rightarrow> resolution_state_file \<Rightarrow> engine_error + persisted_job" where
  "load_job P job_id st =
     rbind (resolution_load P st) (\<lambda>st. ok_or (find_job job_id (rs_jobs st)) UnknownJob)"

text \<open>\<^verbatim>\<open>find_mut\<close> and a change of the record it finds.\<close>

fun modify_job ::
  "string \<Rightarrow> (persisted_job \<Rightarrow> engine_error + persisted_job) \<Rightarrow> persisted_job list \<Rightarrow> engine_error + persisted_job list" where
  "modify_job job_id f [] = Inl UnknownJob"
| "modify_job job_id f (r # rs) =
     (if rj_job_id (ps_job r) = job_id then rbind (f r) (\<lambda>r. Inr (r # rs))
      else rbind (modify_job job_id f rs) (\<lambda>rs. Inr (r # rs)))"

definition set_state :: "assignment_state \<Rightarrow> persisted_job \<Rightarrow> engine_error + persisted_job" where
  "set_state to r = rbind (assert_state_transition (ps_state r) to) (\<lambda>_. Inr (r\<lparr>ps_state := to\<rparr>))"

text \<open>A submission replaces the record that was loaded before.\<close>

definition replace_record :: "persisted_job \<Rightarrow> persisted_job \<Rightarrow> engine_error + persisted_job" where
  "replace_record record' existing =
     rbind (assert_state_transition (ps_state existing) RsActive) (\<lambda>_. Inr record')"

section \<open>Preparation\<close>

definition add_prepared :: "persisted_job \<Rightarrow> persisted_job list \<Rightarrow> engine_error + persisted_job list" where
  "add_prepared record' jobs =
     rbind (ensure (\<not> list_ex (\<lambda>e. rj_job_id (ps_job e) = rj_job_id (ps_job record')) jobs) DuplicateJob) (\<lambda>_.
     rbind (ensure (\<not> list_ex (\<lambda>e. rj_conflict_fingerprint (ps_job e) = rj_conflict_fingerprint (ps_job record')
          \<and> live_job e) jobs) DuplicateFingerprint) (\<lambda>_.
     rbind (ensure (length (filter live_job jobs) < resolution_max_jobs) ActiveJobLimit) (\<lambda>_.
     Inr (jobs @ [record']))))"

definition active_record :: "i64 \<Rightarrow> resolution_job \<Rightarrow> persisted_job" where
  "active_record now job =
     \<lparr>ps_schema_version = resolution_store_schema_version, ps_job = job, ps_state = RsActive, ps_created_at_ms = now,
      ps_verified_at_ms = None, ps_result = None, ps_question_generation = 0\<rparr>"

text \<open>An assignment from another machine (\<^verbatim>\<open>resolution_protocol.rs\<close>): a known job is left as it is. Its schema version is
  the contract's, which equals the store's.\<close>

definition import_job :: "i64 \<Rightarrow> resolution_job \<Rightarrow> persisted_job list \<Rightarrow> engine_error + persisted_job list" where
  "import_job now job jobs =
     Inr (if list_ex (\<lambda>r. rj_job_id (ps_job r) = rj_job_id job) jobs then jobs else jobs @ [active_record now job])"

section \<open>Submission\<close>

definition u32_saturating_add :: "u32 \<Rightarrow> u32 \<Rightarrow> u32" where
  "u32_saturating_add a b = (if unat a + unat b < 2 ^ 32 then a + b else - 1)"

definition next_question_generation :: "persisted_job list \<Rightarrow> string \<Rightarrow> u32" where
  "next_question_generation jobs fingerprint =
     (let generations = map ps_question_generation
            (filter (\<lambda>r. rj_conflict_fingerprint (ps_job r) = fingerprint) jobs)
      in u32_saturating_add (fold max generations 0) 1)"

definition destination_path :: "resolution_job \<Rightarrow> string" where
  "destination_path job = cd_path (rj_candidate_destination job)"

definition path_allowed :: "resolution_job \<Rightarrow> bool" where
  "path_allowed job = list_ex (\<lambda>allowed. allowed = ci_path (rj_conflict job)) (rj_allowed_output_paths job)"

definition verification_checks ::
  "prims \<Rightarrow> resolution_job \<Rightarrow> bytes \<Rightarrow> candidate_descriptor \<Rightarrow> bool list" where
  "verification_checks P job bs candidate =
     (if ca_deleted candidate
      then [bs = [] \<and> ca_hash candidate = [] \<and> ca_size candidate = 0,
            path_allowed job,
            bs = [],
            ca_path candidate = destination_path job]
      else [length bs = unat (ca_size candidate) \<and> blake3_hex P bs = ca_hash candidate,
            path_allowed job,
            length bs \<le> unat resolution_max_candidate_bytes,
            ca_path candidate = destination_path job \<and> (ca_mode candidate = 0 \<or> ca_mode candidate = executable_mode)
              \<and> \<not> ca_deleted candidate])"

definition join_comma :: "string list \<Rightarrow> string" where
  "join_comma xs = (case xs of [] \<Rightarrow> [] | y # ys \<Rightarrow> y @ concat (map (\<lambda>x. '', '' @ x) ys))"

definition verification_details ::
  "prims \<Rightarrow> resolution_job \<Rightarrow> bytes \<Rightarrow> candidate_descriptor \<Rightarrow> string list" where
  "verification_details P job bs candidate =
     (let allowed = ''output path '' @ [CHR 0x27] @ ci_path (rj_conflict job) @ [CHR 0x27]
            @ '' within allowed outputs ['' @ join_comma (rj_allowed_output_paths job) @ '']'';
          consistent = ''descriptor path '' @ ca_path candidate @ '' equals the engine destination '' @ destination_path job
      in if ca_deleted candidate
         then [''deleted candidate observed '' @ decimal (length bs) @ '' bytes; descriptor carries no hash/size'',
               allowed, ''deleted candidate must carry no bytes'', consistent]
         else [''observed '' @ decimal (length bs) @ '' bytes hashing '' @ blake3_hex P bs @ '', descriptor ''
                 @ decimal (unat (ca_size candidate)) @ '' bytes hashing '' @ ca_hash candidate,
               allowed,
               decimal (length bs) @ '' bytes within the '' @ decimal (unat resolution_max_candidate_bytes) @ '' byte bound'',
               consistent])"

definition check_names :: "string list" where
  "check_names = [''candidate_bytes_match_descriptor'', ''candidate_within_allowed_output_paths'',
     ''candidate_size_bounded'', ''candidate_descriptor_consistent'']"

definition inline_verify_candidate ::
  "prims \<Rightarrow> resolution_job \<Rightarrow> bytes \<Rightarrow> candidate_descriptor \<Rightarrow> engine_error + verification_summary" where
  "inline_verify_candidate P job bs candidate =
     (let passed = verification_checks P job bs candidate;
          checks = map (\<lambda>(n, p, d). \<lparr>vc_name = n, vc_passed = p, vc_detail = Some d\<rparr>)
            (zip check_names (zip passed (verification_details P job bs candidate)))
      in if list_all id passed
         then Inr \<lparr>vs_status = VPassed, vs_summary = ''engine inline verification policy executed at submit'',
                 vs_policy_id = Some resolution_verification_policy_id, vs_policy_version = 1, vs_tool_ref = None,
                 vs_input_hashes = [rj_job_id job, rj_conflict_fingerprint job], vs_output_hash = Some (blake3_hex P bs),
                 vs_checks = checks\<rparr>
         else Inl (StalePublication
           (if ca_deleted candidate then CandidateSizeMismatch
            else if \<not> passed ! 0 then CandidateHashMismatch
            else if \<not> passed ! 2 then CandidateSizeMismatch
            else CandidatePathMismatch)))"

fun outcome_debug :: "resolution_outcome \<Rightarrow> string" where
  "outcome_debug CandidateReady = ''CandidateReady''"
| "outcome_debug NoChangeRequired = ''NoChangeRequired''"
| "outcome_debug RBlocked = ''Blocked''"
| "outcome_debug RequiresHuman = ''RequiresHuman''"
| "outcome_debug RFailed = ''Failed''"
| "outcome_debug RStale = ''Stale''"

definition inline_verify_no_candidate :: "resolution_job \<Rightarrow> resolution_result \<Rightarrow> verification_summary" where
  "inline_verify_no_candidate job result =
     \<lparr>vs_status = vs_status (rr_verification result),
      vs_summary = ''engine inline verification policy executed at submit (no candidate bytes)'',
      vs_policy_id = Some resolution_verification_policy_id, vs_policy_version = 1, vs_tool_ref = None,
      vs_input_hashes = [rj_job_id job, rj_conflict_fingerprint job], vs_output_hash = None,
      vs_checks = [\<lparr>vc_name = ''no_candidate_required'', vc_passed = True,
        vc_detail = Some (''outcome '' @ outcome_debug (rr_outcome result) @ '' carries no candidate bytes'')\<rparr>]\<rparr>"

text \<open>
  The checks of a submission against the stored record, and the record it leaves. \<open>read\<close> is what reading the candidate
  file gives.
\<close>

definition result_matches :: "resolution_job \<Rightarrow> resolution_result \<Rightarrow> bool" where
  "result_matches job result =
     (rr_assignment_id result = rj_assignment_id job \<and> rr_attempt result = rj_attempt job
      \<and> rr_owner result = rj_owner job \<and> rr_conflict_fingerprint result = rj_conflict_fingerprint job)"

definition submitted_result ::
  "prims \<Rightarrow> (candidate_descriptor \<Rightarrow> engine_error + bytes) \<Rightarrow> persisted_job list \<Rightarrow> persisted_job \<Rightarrow> resolution_result
   \<Rightarrow> engine_error + resolution_result" where
  "submitted_result P read jobs job result =
     (case rr_outcome result of
        CandidateReady \<Rightarrow>
          rbind (ok_or (rr_candidate result) NoEvidence) (\<lambda>candidate.
          rbind (ensure (ca_path candidate = destination_path (ps_job job)) WrongCandidatePath) (\<lambda>_.
          rbind (read candidate) (\<lambda>bs.
          rbind (inline_verify_candidate P (ps_job job) bs candidate) (\<lambda>summary.
          Inr (result\<lparr>rr_verification := summary\<rparr>)))))
      | RequiresHuman \<Rightarrow>
          Inr (result\<lparr>rr_question_generation :=
            next_question_generation jobs (rj_conflict_fingerprint (ps_job job))\<rparr>)
      | _ \<Rightarrow> Inr (result\<lparr>rr_verification := inline_verify_no_candidate (ps_job job) result\<rparr>))"

definition with_result :: "i64 \<Rightarrow> resolution_result \<Rightarrow> persisted_job \<Rightarrow> persisted_job" where
  "with_result now result job =
     (let r = job\<lparr>ps_verified_at_ms := Some now, ps_result := Some result\<rparr>
      in if rr_outcome result = RequiresHuman then r\<lparr>ps_question_generation := rr_question_generation result\<rparr> else r)"

definition check_submission ::
  "prims \<Rightarrow> string \<Rightarrow> resolution_result \<Rightarrow> resolution_state_file \<Rightarrow> engine_error + persisted_job" where
  "check_submission P job_id result st =
     rbind (contract (validate_resolution_result P result)) (\<lambda>_.
     rbind (ensure (rr_job_id result = job_id) ResultMismatch) (\<lambda>_.
     rbind (load_job P job_id st) (\<lambda>job.
     rbind (ensure (ps_state job = RsActive) (NotActive (ps_state job))) (\<lambda>_.
     rbind (ensure (ps_result job = None) AlreadySubmitted) (\<lambda>_.
     rbind (ensure (result_matches (ps_job job) result) ResultMismatch) (\<lambda>_.
     Inr job))))))"

section \<open>Answers\<close>

definition check_answer ::
  "prims \<Rightarrow> human_resolution_answer \<Rightarrow> resolution_state_file \<Rightarrow> engine_error + persisted_job" where
  "check_answer P answer st =
     rbind (contract (validate_human_resolution_answer P answer)) (\<lambda>_.
     rbind (load_job P (ha_job_id answer) st) (\<lambda>job.
     rbind (ensure (ps_state job = RsActive) (NotActive (ps_state job))) (\<lambda>_.
     rbind (ensure (ha_assignment_id answer = rj_assignment_id (ps_job job) \<and> ha_attempt answer = rj_attempt (ps_job job)
        \<and> ha_conflict_fingerprint answer = rj_conflict_fingerprint (ps_job job)) AnswerMismatch) (\<lambda>_.
     rbind (ok_or (ps_result job) NoResult) (\<lambda>stored.
     rbind (ensure (rr_outcome stored = RequiresHuman) NoQuestion) (\<lambda>_.
     rbind (ensure (ha_question_generation answer = ps_question_generation job)
        (StaleQuestion (ps_question_generation job) (ha_question_generation answer))) (\<lambda>_.
     Inr job)))))))"

definition answered_result :: "resolution_job \<Rightarrow> candidate_descriptor \<Rightarrow> verification_summary \<Rightarrow> resolution_result" where
  "answered_result job candidate summary =
     \<lparr>rr_schema_version = resolution_schema_version, rr_outcome = CandidateReady, rr_job_id = rj_job_id job,
      rr_assignment_id = rj_assignment_id job, rr_attempt = rj_attempt job, rr_owner = rj_owner job,
      rr_conflict_fingerprint = rj_conflict_fingerprint job, rr_candidate = Some candidate, rr_verification = summary,
      rr_diagnostics = [], rr_question = None, rr_human_reason = None, rr_question_generation = 0, rr_safe_options = []\<rparr>"

section \<open>Status\<close>

record job_status =
  js_job_id :: string
  js_assignment_id :: string
  js_attempt :: u32
  js_owner :: string
  js_conflict_fingerprint :: string
  js_state :: assignment_state
  js_outcome :: "resolution_outcome option"
  js_question_generation :: u32
  js_created_at_ms :: i64
  js_verified_at_ms :: "i64 option"

definition job_status_of :: "persisted_job \<Rightarrow> job_status" where
  "job_status_of r =
     \<lparr>js_job_id = rj_job_id (ps_job r), js_assignment_id = rj_assignment_id (ps_job r), js_attempt = rj_attempt (ps_job r),
      js_owner = rj_owner (ps_job r), js_conflict_fingerprint = rj_conflict_fingerprint (ps_job r), js_state = ps_state r,
      js_outcome = map_option rr_outcome (ps_result r), js_question_generation = ps_question_generation r,
      js_created_at_ms = ps_created_at_ms r, js_verified_at_ms = ps_verified_at_ms r\<rparr>"

definition status_le :: "job_status \<Rightarrow> job_status \<Rightarrow> bool" where
  "status_le l r = (sint (js_created_at_ms l) < sint (js_created_at_ms r)
     \<or> sint (js_created_at_ms l) = sint (js_created_at_ms r) \<and> js_job_id l \<le> js_job_id r)"

definition status_projection ::
  "prims \<Rightarrow> string option \<Rightarrow> resolution_state_file \<Rightarrow> engine_error + job_status list" where
  "status_projection P job_id st =
     rbind (resolution_load P st) (\<lambda>st.
     Inr (sort_by status_le (map job_status_of
       (filter (\<lambda>r. case job_id of None \<Rightarrow> True | Some wanted \<Rightarrow> rj_job_id (ps_job r) = wanted) (rs_jobs st)))))"

end
