(* ===== verification/Owner_Designation.thy ===== *)
theory Owner_Designation
  imports Resolution_Store Work_State
begin

text \<open>
  Who is to resolve a conflict (\<^verbatim>\<open>designate_conflict_owner\<close> in \<^verbatim>\<open>agent-core/src/integrator.rs\<close>). The accepted proposals of the work
  projection that cover the path give the roster; when one of their authors is a causal ancestor of all others it
  is the owner, and otherwise the ranking of the integrator draws one.

  The causal walk is a breadth-first search with a bounded depth over message identifiers; the main lemma is
  that it decides reachability within that bound. The lemmas on a designation say what the roster is, who the owner is and
  when its evidence is what the resolution contract accepts.
\<close>

section \<open>Data\<close>

definition designation_max_causal_depth :: nat where "designation_max_causal_depth = 32"

record designation_draw =
  dd_assignment_id :: string
  dd_selection_nonce :: string
  dd_about_snapshot :: string
  dd_roster_fingerprint :: string
  dd_ranked :: "string list"
  dd_neutral_integrator :: bool
  dd_eligible :: "string list"

record designation_evidence =
  dn_method :: owner_designation_method
  dn_nonce :: "string option"
  dn_roster_fingerprint :: "string option"
  dn_eligible :: "string list"
  dn_ranked :: "string list"
  dn_attempt :: u32
  dn_reasoning :: string
  dn_draw :: "designation_draw option"
  dn_selected_intent_message_id :: "string option"
  dn_selected_sequence :: "u64 option"

record owner_designation =
  dz_owner :: string
  dz_method :: owner_designation_method
  dz_assignment_id :: string
  dz_attempt :: u32
  dz_task_id :: "string option"
  dz_intent_message_ids :: "string list"
  dz_evidence :: designation_evidence

text \<open>The code panics when it cuts a text inside a character.\<close>

datatype designation_error = Refused designation_refusal_kind | CutPanic

type_synonym task_proposal = "string \<times> work_proposal_record"

section \<open>Causal ancestry\<close>

definition recorded_causal_refs :: "work_proposal_record \<Rightarrow> string list" where
  "recorded_causal_refs r =
     (case pr_causal_base r of Some base \<Rightarrow> [base] | None \<Rightarrow> [])
     @ pr_superseded_decisions r
     @ (case pr_decision r of
          Some decision \<Rightarrow> (case dr_ordered_after decision of Some after \<Rightarrow> [after] | None \<Rightarrow> [])
        | None \<Rightarrow> [])"

definition declared_ids :: "work_proposal_record \<Rightarrow> string list" where
  "declared_ids r = [pr_intent_message_id r, pr_source_message_id r]
     @ (case pr_decision r of Some decision \<Rightarrow> [dr_message_id decision] | None \<Rightarrow> [])"

text \<open>The records that an identifier leads to, once for every time they declare it.\<close>

definition by_message :: "work_proposal_record list \<Rightarrow> string \<Rightarrow> work_proposal_record list" where
  "by_message records mid = concat (map (\<lambda>r. map (\<lambda>_. r) (filter (\<lambda>i. i = mid) (declared_ids r))) records)"

text \<open>One level of the walk: \<open>None\<close> when the target is met, else what is visited then and the next frontier.\<close>

fun walk_level ::
  "(string \<Rightarrow> work_proposal_record list) \<Rightarrow> (string \<Rightarrow> bool) \<Rightarrow> string list \<Rightarrow> string set \<Rightarrow> string list
   \<Rightarrow> (string set \<times> string list) option" where
  "walk_level idx target [] visited next_ids = Some (visited, next_ids)"
| "walk_level idx target (mid # ids) visited next_ids =
     (if mid \<in> visited then walk_level idx target ids visited next_ids
      else if target mid then None
      else walk_level idx target ids (insert mid visited) (next_ids @ concat (map recorded_causal_refs (idx mid))))"

fun causal_walk ::
  "(string \<Rightarrow> work_proposal_record list) \<Rightarrow> (string \<Rightarrow> bool) \<Rightarrow> nat \<Rightarrow> string set \<Rightarrow> string list \<Rightarrow> bool" where
  "causal_walk idx target 0 visited frontier = False"
| "causal_walk idx target (Suc depth) visited frontier =
     (if frontier = [] then False
      else case walk_level idx target frontier visited [] of
        None \<Rightarrow> True
      | Some (visited, next_ids) \<Rightarrow> causal_walk idx target depth visited next_ids)"

definition causally_references :: "work_proposal_record list \<Rightarrow> work_proposal_record \<Rightarrow> work_proposal_record \<Rightarrow> bool" where
  "causally_references records older newer =
     causal_walk (by_message records) (\<lambda>id. id = pr_intent_message_id older \<or> id = pr_source_message_id older)
       designation_max_causal_depth {} (recorded_causal_refs newer)"

text \<open>The first of the records that is older than all others, when it is the only one; \<^verbatim>\<open>ptr::eq\<close> is equality of places.\<close>

definition older_than_all :: "work_proposal_record list \<Rightarrow> task_proposal list \<Rightarrow> nat \<times> task_proposal \<Rightarrow> bool" where
  "older_than_all records eligible candidate =
     list_all (\<lambda>(j, other). fst candidate = j \<or> causally_references records (snd (snd candidate)) (snd other)) (enumerate 0 eligible)"

fun pick_oldest :: "(nat \<times> 'a \<Rightarrow> bool) \<Rightarrow> (nat \<times> 'a) list \<Rightarrow> 'a option \<Rightarrow> 'a option" where
  "pick_oldest older [] oldest = oldest"
| "pick_oldest older (c # cs) oldest =
     (if older c then (case oldest of Some _ \<Rightarrow> None | None \<Rightarrow> pick_oldest older cs (Some (snd c)))
      else pick_oldest older cs oldest)"

definition strictly_oldest_author :: "work_proposal_record list \<Rightarrow> task_proposal list \<Rightarrow> task_proposal option" where
  "strictly_oldest_author records eligible =
     (if length eligible < 2 then (case eligible of [] \<Rightarrow> None | e # _ \<Rightarrow> Some e)
      else pick_oldest (older_than_all records eligible) (enumerate 0 eligible) None)"

section \<open>The roster\<close>

definition record_capabilities_valid :: "work_proposal_record \<Rightarrow> bool" where
  "record_capabilities_valid r =
     (pr_capabilities r \<noteq> [] \<and> list_all (\<lambda>(a, b). a < b) (zip (pr_capabilities r) (tl (pr_capabilities r)))
      \<and> list_all is_valid_capability (pr_capabilities r))"

definition agent_yielded_or_blocked_in_task :: "work_task_record list \<Rightarrow> string \<Rightarrow> string \<Rightarrow> bool" where
  "agent_yielded_or_blocked_in_task tasks task_id agent =
     list_ex (\<lambda>task. tk_task_id task = task_id
       \<and> list_ex (\<lambda>p. pr_agent p = agent \<and> pr_state p \<in> {Yielded, Blocked}) (tk_proposals task)) tasks"

definition accepted_proposals :: "work_task_record list \<Rightarrow> task_proposal list" where
  "accepted_proposals tasks =
     concat (map (\<lambda>task. map (Pair (tk_task_id task)) (filter (\<lambda>p. pr_state p = Accepted) (tk_proposals task))) tasks)"

definition eligible_proposals :: "work_task_record list \<Rightarrow> task_proposal list \<Rightarrow> task_proposal list" where
  "eligible_proposals tasks covering =
     filter (\<lambda>(task_id, p). record_capabilities_valid p \<and> \<not> agent_yielded_or_blocked_in_task tasks task_id (pr_agent p)) covering"

text \<open>The first eligible proposal of every author.\<close>

definition distinct_authors :: "task_proposal list \<Rightarrow> task_proposal list" where
  "distinct_authors eligible =
     fold (\<lambda>e acc. if list_ex (\<lambda>other. pr_agent (snd other) = pr_agent (snd e)) acc then acc else acc @ [e]) eligible []"

definition refuse_on_active_assignment :: "prims \<Rightarrow> resolution_state_file \<Rightarrow> string \<Rightarrow> designation_error + unit" where
  "refuse_on_active_assignment P st path =
     (case resolution_load P st of
        Inl _ \<Rightarrow> Inl (Refused ProjectionIncomplete)
      | Inr st \<Rightarrow>
          ensure (\<not> list_ex (\<lambda>r. ci_path (rj_conflict (ps_job r)) = path \<and> live_job r) (rs_jobs st))
            (Refused ActiveAssignmentExists))"

section \<open>Designation\<close>

definition refused :: "designation_refusal_kind \<Rightarrow> 'e + 'a \<Rightarrow> designation_error + 'a" where
  "refused kind r = map_err (\<lambda>_. Refused kind) r"

text \<open>\<^verbatim>\<open>String::truncate\<close>: the cut is between two characters, or the code panics.\<close>

definition is_char_boundary :: "string \<Rightarrow> nat \<Rightarrow> bool" where
  "is_char_boundary s n = (n = length s \<or> n < length s \<and> \<not> (128 \<le> (of_char (s ! n) :: nat) \<and> (of_char (s ! n) :: nat) < 192))"

definition bounded_reasoning :: "string \<Rightarrow> designation_error + string" where
  "bounded_reasoning s =
     (if length s > integrator_digest_field_bytes
      then rbind (ensure (is_char_boundary s integrator_digest_field_bytes) CutPanic) (\<lambda>_. Inr (take integrator_digest_field_bytes s))
      else Inr s)"

definition quoted :: "string \<Rightarrow> string" where "quoted s = [CHR 0x27] @ s @ [CHR 0x27]"

definition causal_reasoning :: "work_proposal_record \<Rightarrow> string \<Rightarrow> string" where
  "causal_reasoning oldest path =
     ''causally older accepted state selected: author '' @ quoted (pr_agent oldest) @ '' intent '' @ pr_intent_message_id oldest
     @ '' (sequence '' @ decimal (unat (pr_sequence oldest))
     @ '') is an ancestor of every other eligible accepted proposal for '' @ quoted path"

definition fallback_reasoning :: "string \<Rightarrow> string \<Rightarrow> string" where
  "fallback_reasoning path owner =
     ''no strictly-older eligible author under the transitive causal closure for '' @ quoted path
     @ '' (concurrent or equal bases); auditable ffint1 fallback draw over the eligible roster selected '' @ quoted owner"

definition causal_designation ::
  "task_proposal \<Rightarrow> string \<Rightarrow> task_proposal list \<Rightarrow> string list \<Rightarrow> string \<Rightarrow> designation_error + owner_designation" where
  "causal_designation oldest path eligible roster assignment_id =
     rbind (bounded_reasoning (causal_reasoning (snd oldest) path)) (\<lambda>reasoning.
     Inr \<lparr>dz_owner = pr_agent (snd oldest), dz_method = CausalEligible, dz_assignment_id = assignment_id, dz_attempt = 0,
       dz_task_id = Some (fst oldest),
       dz_intent_message_ids = remdups_adj (sort (map (\<lambda>e. pr_intent_message_id (snd e)) eligible)),
       dz_evidence = \<lparr>dn_method = CausalEligible, dn_nonce = None, dn_roster_fingerprint = None, dn_eligible = roster,
         dn_ranked = [], dn_attempt = 0, dn_reasoning = reasoning, dn_draw = None,
         dn_selected_intent_message_id = Some (pr_intent_message_id (snd oldest)),
         dn_selected_sequence = Some (pr_sequence (snd oldest))\<rparr>\<rparr>)"

text \<open>\<open>head\<close> is the answer of the hub: none, or the workspace's head if it has one.\<close>

definition fallback_designation ::
  "prims \<Rightarrow> integrator_json \<Rightarrow> string \<Rightarrow> string option option \<Rightarrow> bytes option \<Rightarrow> string \<Rightarrow> string \<Rightarrow> string list \<Rightarrow> string
   \<Rightarrow> designation_error + owner_designation" where
  "fallback_designation P J workspace_id head nonce_bytes path task_id roster assignment_id =
     rbind (refused NoRoster (roster_fingerprint P J roster)) (\<lambda>fingerprint.
     rbind (refused NoRoster (generate_selection_nonce nonce_bytes)) (\<lambda>nonce.
     rbind (ok_or head (Refused NoRoster)) (\<lambda>head.
     rbind (ok_or head (Refused NoRoster)) (\<lambda>about_snapshot.
     rbind (refused NoRoster (rank_candidates P workspace_id about_snapshot assignment_id nonce fingerprint roster)) (\<lambda>ranked.
     rbind (bounded_reasoning (fallback_reasoning path (hd ranked))) (\<lambda>reasoning.
     Inr \<lparr>dz_owner = hd ranked, dz_method = IntegratorFallback, dz_assignment_id = assignment_id, dz_attempt = 0,
       dz_task_id = Some task_id, dz_intent_message_ids = [],
       dz_evidence = \<lparr>dn_method = IntegratorFallback, dn_nonce = Some nonce, dn_roster_fingerprint = Some fingerprint,
         dn_eligible = roster, dn_ranked = ranked, dn_attempt = 0, dn_reasoning = reasoning,
         dn_draw = Some \<lparr>dd_assignment_id = assignment_id, dd_selection_nonce = nonce, dd_about_snapshot = about_snapshot,
           dd_roster_fingerprint = fingerprint, dd_ranked = ranked, dd_neutral_integrator = False, dd_eligible = roster\<rparr>,
         dn_selected_intent_message_id = None, dn_selected_sequence = None\<rparr>\<rparr>))))))"

text \<open>\<open>work\<close> is the work projection, or nothing when it cannot be read.\<close>

definition designate_conflict_owner ::
  "prims \<Rightarrow> integrator_json \<Rightarrow> string \<Rightarrow> work_state_file option \<Rightarrow> resolution_state_file \<Rightarrow> string option option
   \<Rightarrow> bytes option \<Rightarrow> bytes option \<Rightarrow> string \<Rightarrow> designation_error + owner_designation" where
  "designate_conflict_owner P J workspace_id work st head id_bytes nonce_bytes path =
     rbind (ensure (is_safe_rel_path P path) (Refused NoRoster)) (\<lambda>_.
     rbind (ok_or work (Refused ProjectionIncomplete)) (\<lambda>state.
     rbind (ensure (\<not> wf_incomplete state) (Refused ProjectionIncomplete)) (\<lambda>_.
     let accepted = accepted_proposals (wf_tasks state) in
     rbind (refuse_on_active_assignment P st path) (\<lambda>_.
     rbind (ensure (accepted \<noteq> []) (Refused NoRoster)) (\<lambda>_.
     let covering = filter (\<lambda>(_, p). scope_covers_path (pr_scope p) path) accepted in
     rbind (ensure (covering \<noteq> []) (Refused NoCapableRoster)) (\<lambda>_.
     let eligible = eligible_proposals (wf_tasks state) covering in
     rbind (ensure (eligible \<noteq> []) (Refused NoCapableRoster)) (\<lambda>_.
     rbind (ensure (list_all (\<lambda>e. fst e = fst (hd eligible)) eligible) (Refused NoCapableRoster)) (\<lambda>_.
     let authors = distinct_authors eligible;
         roster = remdups_adj (sort (map (\<lambda>e. pr_agent (snd e)) authors)) in
     rbind (ensure (length roster \<le> integrator_max_candidates) (Refused NoRoster)) (\<lambda>_.
     rbind (refused NoRoster (generate_assignment_id id_bytes)) (\<lambda>assignment_id.
     (case strictly_oldest_author (concat (map tk_proposals (wf_tasks state))) authors of
        Some oldest \<Rightarrow> causal_designation oldest path eligible roster assignment_id
      | None \<Rightarrow> fallback_designation P J workspace_id head nonce_bytes path (fst (hd eligible)) roster assignment_id)))))))))))"

text \<open>The evidence as the preparation of a job writes it into the job.\<close>

definition wire_evidence :: "owner_designation \<Rightarrow> owner_designation_evidence" where
  "wire_evidence d =
     \<lparr>de_method = dz_method d, de_nonce = dn_nonce (dz_evidence d), de_roster_fingerprint = dn_roster_fingerprint (dz_evidence d),
      de_eligible = dn_eligible (dz_evidence d), de_ranked = dn_ranked (dz_evidence d),
      de_reasoning = dn_reasoning (dz_evidence d), de_attempt = dz_attempt d\<rparr>"

section \<open>The walk decides bounded reachability\<close>

definition reaches :: "'a rel \<Rightarrow> ('a \<Rightarrow> bool) \<Rightarrow> nat \<Rightarrow> 'a set \<Rightarrow> bool" where
  "reaches R target n A \<longleftrightarrow> (\<exists>k<n. \<exists>a\<in>A. \<exists>b. (a, b) \<in> R ^^ k \<and> target b)"

lemma reaches_0 [simp]: "\<not> reaches R target 0 A"
  by (simp add: reaches_def)

lemma reaches_empty [simp]: "\<not> reaches R target n {}"
  by (simp add: reaches_def)

lemma reaches_Un: "reaches R target n (A \<union> B) \<longleftrightarrow> reaches R target n A \<or> reaches R target n B"
  by (auto simp: reaches_def)

lemma reaches_Suc: "reaches R target (Suc n) A \<longleftrightarrow> (\<exists>a\<in>A. target a) \<or> reaches R target n (R `` A)"
proof
  assume "reaches R target (Suc n) A"
  then obtain k a b where k: "k < Suc n" "a \<in> A" "(a, b) \<in> R ^^ k" "target b" by (auto simp: reaches_def)
  show "(\<exists>a\<in>A. target a) \<or> reaches R target n (R `` A)"
  proof (cases k)
    case (Suc m)
    with k(3) obtain c where "(a, c) \<in> R" "(c, b) \<in> R ^^ m" by (metis relpow_Suc_E2)
    with k Suc show ?thesis unfolding reaches_def by (metis Suc_less_eq ImageI)
  qed (use k in auto)
next
  assume "(\<exists>a\<in>A. target a) \<or> reaches R target n (R `` A)"
  then show "reaches R target (Suc n) A"
  proof
    assume "reaches R target n (R `` A)"
    then obtain k a c b where "k < n" "a \<in> A" "(a, c) \<in> R" "(c, b) \<in> R ^^ k" "target b" by (auto simp: reaches_def)
    then have "(a, b) \<in> R ^^ Suc k" by (meson relpow_Suc_I2)
    with \<open>k < n\<close> \<open>a \<in> A\<close> \<open>target b\<close> show ?thesis unfolding reaches_def by (metis Suc_mono)
  qed (force simp: reaches_def)
qed

lemma reaches_leave:
  assumes "R `` V \<subseteq> V \<union> N" and "\<forall>v\<in>V. \<not> target v" and "reaches R target n V"
  shows "reaches R target n N"
proof -
  have "\<exists>j<n. \<exists>c\<in>N. (c, b) \<in> R ^^ j" if "(a, b) \<in> R ^^ k" "a \<in> V" "target b" "k < n" for k a b
    using that
  proof (induction k arbitrary: a)
    case 0
    with assms(2) show ?case by auto
  next
    case (Suc k)
    then obtain c where c: "(a, c) \<in> R" "(c, b) \<in> R ^^ k" by (metis relpow_Suc_E2)
    with assms(1) Suc.prems(2) have "c \<in> V \<or> c \<in> N" by auto
    with Suc c show ?case by (metis Suc_lessD)
  qed
  with assms(3) show ?thesis unfolding reaches_def by metis
qed

definition edges_of :: "(string \<Rightarrow> work_proposal_record list) \<Rightarrow> string rel" where
  "edges_of idx = {(a, b). \<exists>r\<in>set (idx a). b \<in> set (recorded_causal_refs r)}"

lemma edges_of_Image: "edges_of idx `` A = (\<Union>a\<in>A. set (concat (map recorded_causal_refs (idx a))))"
  by (auto simp: edges_of_def)

lemma walk_level_None: "walk_level idx target ids V N = None \<longleftrightarrow> (\<exists>i\<in>set ids. i \<notin> V \<and> target i)"
proof (induction idx target ids V N rule: walk_level.induct)
  case (2 idx target mid ids V N)
  have "(\<exists>i\<in>set ids. i \<notin> insert mid V \<and> target i) \<longleftrightarrow> (\<exists>i\<in>set ids. i \<notin> V \<and> target i)" if "\<not> target mid" using that by auto
  with 2 show ?case by (cases "mid \<in> V"; cases "target mid") simp_all
qed simp

lemma walk_level_Some:
  "walk_level idx target ids V N = Some (V', N') \<Longrightarrow> V' = V \<union> set ids \<and> set N' = set N \<union> edges_of idx `` (set ids - V)"
proof (induction idx target ids V N rule: walk_level.induct)
  case (2 idx target mid ids V N)
  show ?case
  proof (cases "mid \<in> V")
    case False
    then have "set (mid # ids) - V = insert mid (set ids - insert mid V)" by auto
    with 2 False show ?thesis by (auto simp: edges_of_Image split: if_splits)
  qed (use 2 in \<open>auto simp: insert_Diff_if\<close>)
qed simp

lemma causal_walk_exact:
  assumes "\<forall>v\<in>V. \<not> target v" and "edges_of idx `` V \<subseteq> V \<union> set F"
  shows "causal_walk idx target n V F \<longleftrightarrow> reaches (edges_of idx) target n (set F)"
  using assms
proof (induction n arbitrary: V F)
  case (Suc n)
  show ?case
  proof (cases "walk_level idx target F V []")
    case None
    then have "\<exists>i\<in>set F. target i" by (auto simp: walk_level_None)
    with None show ?thesis by (cases F) (auto simp: reaches_Suc)
  next
    case (Some vn)
    obtain V' N where vn: "vn = (V', N)" by (cases vn)
    have V': "V' = V \<union> set F" and N: "set N = edges_of idx `` (set F - V)" using walk_level_Some Some vn by fastforce+
    have fresh: "\<forall>v\<in>V'. \<not> target v" using walk_level_None [of idx target F V "[]"] Some Suc.prems(1) V' by auto
    have closed: "edges_of idx `` V' \<subseteq> V' \<union> set N" using Suc.prems(2) unfolding V' N by (auto simp: Image_Un)
    have "reaches (edges_of idx) target n (edges_of idx `` set F) \<longleftrightarrow> reaches (edges_of idx) target n (set N)"
    proof
      assume r: "reaches (edges_of idx) target n (edges_of idx `` set F)"
      have "edges_of idx `` set F \<subseteq> V' \<union> set N" using closed V' by blast
      with r have "reaches (edges_of idx) target n (V' \<union> set N)" unfolding reaches_def by blast
      with reaches_leave [OF closed fresh] show "reaches (edges_of idx) target n (set N)" by (auto simp: reaches_Un)
    next
      assume "reaches (edges_of idx) target n (set N)"
      then show "reaches (edges_of idx) target n (edges_of idx `` set F)" unfolding N reaches_def by blast
    qed
    with Suc.IH [OF fresh closed] fresh show ?thesis
      using Some by (cases F) (auto simp: vn V' reaches_Suc)
  qed
qed simp

text \<open>What the walk is meant to find: a chain of references from the newer record to the older one, within the bound.\<close>

definition causal_edges :: "work_proposal_record list \<Rightarrow> string rel" where
  "causal_edges records = {(a, b). \<exists>r\<in>set records. a \<in> set (declared_ids r) \<and> b \<in> set (recorded_causal_refs r)}"

definition causal_ancestor :: "work_proposal_record list \<Rightarrow> work_proposal_record \<Rightarrow> work_proposal_record \<Rightarrow> bool" where
  "causal_ancestor records older newer \<longleftrightarrow>
     (\<exists>k<designation_max_causal_depth. \<exists>a\<in>set (recorded_causal_refs newer).
        \<exists>b\<in>{pr_intent_message_id older, pr_source_message_id older}. (a, b) \<in> causal_edges records ^^ k)"

lemma edges_of_by_message: "edges_of (by_message records) = causal_edges records"
  by (auto simp: edges_of_def by_message_def causal_edges_def)

lemma causally_references_exact: "causally_references records older newer \<longleftrightarrow> causal_ancestor records older newer"
  unfolding causally_references_def causal_ancestor_def
  by (subst causal_walk_exact) (auto simp: reaches_def edges_of_by_message)

section \<open>The oldest author\<close>

definition oldest_of :: "work_proposal_record list \<Rightarrow> task_proposal list \<Rightarrow> task_proposal \<Rightarrow> bool" where
  "oldest_of records authors e \<longleftrightarrow> e \<in> set authors \<and> (\<forall>other\<in>set authors. other \<noteq> e \<longrightarrow> causal_ancestor records (snd e) (snd other))"

lemma filter_singleton: "distinct xs \<Longrightarrow> filter p xs = [x] \<longleftrightarrow> (\<forall>y. y \<in> set xs \<and> p y \<longleftrightarrow> y = x)"
proof
  assume d: "distinct xs" and y: "\<forall>y. y \<in> set xs \<and> p y \<longleftrightarrow> y = x"
  have one: "set (filter p xs) = {x}" using y by auto
  with d have "length (filter p xs) = 1" by (metis distinct_card distinct_filter is_singletonI is_singleton_altdef)
  then obtain z where "filter p xs = [z]" by (auto simp: length_Suc_conv)
  with one show "filter p xs = [x]" by simp
next
  assume "filter p xs = [x]"
  then have "set (filter p xs) = {x}" by simp
  then show "\<forall>y. y \<in> set xs \<and> p y \<longleftrightarrow> y = x" by auto
qed

lemma pick_oldest_Some: "pick_oldest older xs (Some y) = Some c \<longleftrightarrow> filter older xs = [] \<and> c = y"
  by (induction xs) auto

lemma pick_oldest_None: "pick_oldest older xs None = Some c \<longleftrightarrow> (\<exists>i. filter older xs = [(i, c)])"
  by (induction xs) (auto simp: pick_oldest_Some)

lemma set_enumerate: "set (enumerate 0 xs) = (\<lambda>j. (j, xs ! j)) ` {..<length xs}"
  by (auto simp: in_set_enumerate_eq image_iff)

lemma older_than_all_iff:
  assumes "distinct authors" and "i < length authors"
  shows "older_than_all records authors (i, authors ! i) \<longleftrightarrow> oldest_of records authors (authors ! i)"
proof -
  have "i = j \<longleftrightarrow> authors ! j = authors ! i" if "j < length authors" for j using assms that by (auto simp: nth_eq_iff_index_eq)
  then have "older_than_all records authors (i, authors ! i) \<longleftrightarrow>
      (\<forall>j<length authors. authors ! j \<noteq> authors ! i \<longrightarrow> causal_ancestor records (snd (authors ! i)) (snd (authors ! j)))"
    by (auto simp: older_than_all_def list_all_iff set_enumerate causally_references_exact)
  with assms(2) show ?thesis by (simp add: oldest_of_def all_set_conv_all_nth)
qed

lemma strictly_oldest_author_iff:
  assumes "distinct authors"
  shows "strictly_oldest_author records authors = Some e \<longleftrightarrow> (\<forall>x. oldest_of records authors x \<longleftrightarrow> x = e)"
proof (cases "length authors < 2")
  case True
  then show ?thesis by (cases authors) (auto simp: strictly_oldest_author_def oldest_of_def)
next
  case False
  let ?p = "older_than_all records authors"
  have "(\<exists>i. filter ?p (enumerate 0 authors) = [(i, e)]) \<longleftrightarrow> (\<forall>x. oldest_of records authors x \<longleftrightarrow> x = e)" (is "?l \<longleftrightarrow> ?r")
  proof
    assume ?l
    then obtain i where i: "\<And>y. y \<in> set (enumerate 0 authors) \<and> ?p y \<longleftrightarrow> y = (i, e)" by (auto simp: filter_singleton)
    have "oldest_of records authors x \<longleftrightarrow> x = e" for x
    proof
      assume o: "oldest_of records authors x"
      then obtain j where "j < length authors" "authors ! j = x" by (auto simp: oldest_of_def in_set_conv_nth)
      with o older_than_all_iff [OF assms, of j records] i [of "(j, x)"] show "x = e" by (auto simp: in_set_enumerate_eq)
    next
      assume "x = e"
      with i [of "(i, e)"] older_than_all_iff [OF assms, of i records] show "oldest_of records authors x" by (auto simp: in_set_enumerate_eq)
    qed
    then show ?r by blast
  next
    assume r: ?r
    then have "oldest_of records authors e" by blast
    then obtain i where i: "i < length authors" "authors ! i = e" by (auto simp: oldest_of_def in_set_conv_nth)
    have "y \<in> set (enumerate 0 authors) \<and> ?p y \<longleftrightarrow> y = (i, e)" for y
    proof -
      obtain j x where "y = (j, x)" by (cases y rule: prod.exhaust)
      moreover have "oldest_of records authors x \<longleftrightarrow> x = e" using r by (rule spec)
      moreover have "authors ! j = e \<longleftrightarrow> j = i" if "j < length authors" using assms i that by (auto simp: nth_eq_iff_index_eq)
      ultimately show ?thesis using i older_than_all_iff [OF assms, of j records] by (auto simp: in_set_enumerate_eq simp del: split_paired_All)
    qed
    then show ?l by (auto simp: filter_singleton)
  qed
  with False show ?thesis by (simp add: strictly_oldest_author_def pick_oldest_None)
qed

section \<open>Who is designated\<close>

abbreviation agent_of :: "task_proposal \<Rightarrow> string" where "agent_of e \<equiv> pr_agent (snd e)"

lemma distinct_authors_first:
  "distinct (map agent_of (distinct_authors es)) \<and> set (distinct_authors es) \<subseteq> set es
   \<and> agent_of ` set (distinct_authors es) = agent_of ` set es"
proof (induction es rule: rev_induct)
  case (snoc e es)
  have "list_ex (\<lambda>other. agent_of other = agent_of e) (distinct_authors es) \<longleftrightarrow> agent_of e \<in> agent_of ` set (distinct_authors es)"
    unfolding list_ex_iff image_iff by metis
  with snoc have "list_ex (\<lambda>other. agent_of other = agent_of e) (distinct_authors es) \<longleftrightarrow> agent_of e \<in> agent_of ` set es" by simp
  moreover have "distinct_authors (es @ [e])
      = (if list_ex (\<lambda>other. agent_of other = agent_of e) (distinct_authors es) then distinct_authors es else distinct_authors es @ [e])"
    by (simp add: distinct_authors_def)
  ultimately show ?case using snoc by auto
qed (simp add: distinct_authors_def)

definition may_resolve :: "work_task_record list \<Rightarrow> string \<Rightarrow> task_proposal set" where
  "may_resolve tasks path = {(task_id, p). (\<exists>task\<in>set tasks. tk_task_id task = task_id \<and> p \<in> set (tk_proposals task))
     \<and> pr_state p = Accepted \<and> scope_covers_path (pr_scope p) path \<and> record_capabilities_valid p
     \<and> \<not> agent_yielded_or_blocked_in_task tasks task_id (pr_agent p)}"

definition eligible_for :: "work_task_record list \<Rightarrow> string \<Rightarrow> task_proposal list" where
  "eligible_for tasks path =
     eligible_proposals tasks (filter (\<lambda>(_, p). scope_covers_path (pr_scope p) path) (accepted_proposals tasks))"

lemma set_eligible_for: "set (eligible_for tasks path) = may_resolve tasks path"
  by (auto simp: eligible_for_def eligible_proposals_def accepted_proposals_def may_resolve_def)

lemma refuse_on_active_assignment_Inr:
  "refuse_on_active_assignment P st path = Inr u \<longleftrightarrow>
     resolution_load P st = Inr st \<and> (\<forall>r\<in>set (rs_jobs st). ci_path (rj_conflict (ps_job r)) = path \<longrightarrow> \<not> live_job r)"
proof -
  have "resolution_load P st = Inr st' \<Longrightarrow> st' = st" for st' by (auto simp: resolution_load_def rbind_eq_Inr)
  then show ?thesis by (cases "resolution_load P st") (auto simp: refuse_on_active_assignment_def list_ex_iff)
qed

lemma designate_cases:
  assumes "designate_conflict_owner P J ws work st head id_bytes nonce_bytes path = Inr d"
  obtains state assignment_id where "work = Some state" and "\<not> wf_incomplete state" and "eligible_for (wf_tasks state) path \<noteq> []"
    and "resolution_load P st = Inr st" and "\<forall>r\<in>set (rs_jobs st). ci_path (rj_conflict (ps_job r)) = path \<longrightarrow> \<not> live_job r"
    and "\<forall>e\<in>set (eligible_for (wf_tasks state) path). fst e = fst (hd (eligible_for (wf_tasks state) path))"
    and "length (sort (map agent_of (distinct_authors (eligible_for (wf_tasks state) path)))) \<le> integrator_max_candidates"
    and "(case strictly_oldest_author (concat (map tk_proposals (wf_tasks state))) (distinct_authors (eligible_for (wf_tasks state) path)) of
        Some oldest \<Rightarrow> causal_designation oldest path (eligible_for (wf_tasks state) path)
          (sort (map agent_of (distinct_authors (eligible_for (wf_tasks state) path)))) assignment_id
      | None \<Rightarrow> fallback_designation P J ws head nonce_bytes path (fst (hd (eligible_for (wf_tasks state) path)))
          (sort (map agent_of (distinct_authors (eligible_for (wf_tasks state) path)))) assignment_id) = Inr d"
proof -
  have adj: "remdups_adj (sort (map agent_of (distinct_authors es))) = sort (map agent_of (distinct_authors es))" for es
    using distinct_authors_first [of es] by (simp add: remdups_adj_distinct)
  from assms show thesis
    unfolding designate_conflict_owner_def Let_def adj eligible_for_def [symmetric]
    by (auto simp: rbind_eq_Inr refuse_on_active_assignment_Inr list_all_iff refused_def intro!: that)
qed

lemma bounded_reasoning_Inr: "bounded_reasoning text = Inr s \<Longrightarrow> length s \<le> resolution_max_reason_bytes"
  by (auto simp: bounded_reasoning_def rbind_eq_Inr integrator_digest_field_bytes_def resolution_max_reason_bytes_def split: if_splits)

lemma causal_designation_Inr:
  assumes "causal_designation oldest path eligible roster assignment_id = Inr d"
  shows "dz_owner d = agent_of oldest \<and> dz_method d = CausalEligible \<and> dz_task_id d = Some (fst oldest) \<and> dn_eligible (dz_evidence d) = roster
    \<and> (list_all is_valid_agent_name roster \<and> roster \<noteq> [] \<longrightarrow>
         (validate_designation_evidence (wire_evidence d) = Inr () \<longleftrightarrow> length roster \<le> resolution_max_intent_ids))"
  using assms
  by (auto simp: causal_designation_def rbind_eq_Inr validate_designation_evidence_def wire_evidence_def for_each_eq_Inr list_all_iff
      resolution_max_attempt_def dest: bounded_reasoning_Inr)

lemma fallback_designation_Inr:
  assumes "fallback_designation P J ws head nonce_bytes path task_id roster assignment_id = Inr d" and "distinct roster"
  defines "e \<equiv> dz_evidence d"
  shows "dz_owner d = hd (dn_ranked e) \<and> dz_method d = IntegratorFallback \<and> dz_task_id d = Some task_id \<and> dn_eligible e = roster
    \<and> (\<exists>about nonce fingerprint. head = Some (Some about) \<and> dn_nonce e = Some nonce \<and> dn_roster_fingerprint e = Some fingerprint
        \<and> rank_candidates P ws about (dz_assignment_id d) nonce fingerprint roster = Inr (dn_ranked e))
    \<and> distinct (dn_ranked e) \<and> set (dn_ranked e) = set roster \<and> dn_ranked e \<noteq> []
    \<and> (list_all is_valid_agent_name roster \<longrightarrow>
         (validate_designation_evidence (wire_evidence d) = Inr () \<longleftrightarrow> length roster \<le> resolution_max_intent_ids))"
proof -
  obtain fingerprint nonce about ranked reasoning where
    rank: "head = Some (Some about)" "rank_candidates P ws about assignment_id nonce fingerprint roster = Inr ranked"
      "bounded_reasoning (fallback_reasoning path (hd ranked)) = Inr reasoning"
    and d: "dz_owner d = hd ranked" "dz_method d = IntegratorFallback" "dz_task_id d = Some task_id" "dz_attempt d = 0"
      "dn_eligible e = roster" "dn_ranked e = ranked" "dn_nonce e = Some nonce" "dn_roster_fingerprint e = Some fingerprint"
      "dz_assignment_id d = assignment_id" "dn_reasoning e = reasoning"
    using assms(1) unfolding e_def fallback_designation_def refused_def by (auto simp: rbind_eq_Inr)
  note r = rank_candidates_Inr [OF rank(2) assms(2)]
  have v: "roster \<noteq> []" "is_valid_hash fingerprint" "is_valid_hash nonce"
    using rank(2) by (auto simp: rank_candidates_def rbind_eq_Inr is_valid_hex_id_def is_valid_hash_def is_hash_char_def list_all_iff)
  then have ranked: "ranked \<noteq> []" using r by auto
  have len: "length ranked = length roster" using r assms(2) by (metis distinct_card)
  have "validate_designation_evidence (wire_evidence d) = Inr () \<longleftrightarrow> length roster \<le> resolution_max_intent_ids"
    if "list_all is_valid_agent_name roster"
    using that v ranked len r d bounded_reasoning_Inr [OF rank(3)]
    by (auto simp: validate_designation_evidence_def wire_evidence_def rbind_eq_Inr for_each_eq_Inr list_all_iff resolution_max_attempt_def
        is_some_and_def e_def)
  with rank(1,2) d r ranked show ?thesis by auto
qed

lemma eligible_roster:
  assumes "eligible_for tasks path \<noteq> []" and "\<forall>e\<in>set (eligible_for tasks path). fst e = fst (hd (eligible_for tasks path))"
  defines "authors \<equiv> distinct_authors (eligible_for tasks path)" and "roster \<equiv> sort (map agent_of (distinct_authors (eligible_for tasks path)))"
  shows "distinct roster \<and> sorted_wrt (<) roster \<and> set roster = agent_of ` may_resolve tasks path \<and> roster \<noteq> [] \<and> distinct authors
    \<and> fst ` may_resolve tasks path = {fst (hd (eligible_for tasks path))}"
proof -
  note da = distinct_authors_first [of "eligible_for tasks path"]
  then have d: "distinct roster" "distinct authors" by (auto simp: authors_def roster_def distinct_map)
  have agents: "set roster = agent_of ` may_resolve tasks path" using da by (simp add: roster_def set_eligible_for)
  have "fst ` set (eligible_for tasks path) = {fst (hd (eligible_for tasks path))}" using assms(2) hd_in_set [OF assms(1)] by blast
  then have task: "fst ` may_resolve tasks path = {fst (hd (eligible_for tasks path))}" by (simp only: set_eligible_for)
  moreover have "roster \<noteq> []"
  proof
    assume "roster = []"
    then have "set roster = {}" by (simp only: set_simps)
    with agents task show False by simp
  qed
  moreover have "sorted roster" by (simp add: roster_def)
  ultimately show ?thesis using d agents by (simp add: strict_sorted_iff)
qed

text \<open>
  C22: an owner is designated only when no live assignment for the path exists. The roster is exactly the authors of accepted proposals that cover
  the path, have valid capabilities and whose author did not yield or block the task; they are of one task, and the owner is one of
  them. It is chosen by ancestry exactly when one author's first proposal is reached, within the bound on the depth, from those of all others and is the
  only such one; otherwise it is the first of the ranking of the whole roster. The evidence is accepted by the resolution contract exactly when
  the roster has at most 32 names.
\<close>

theorem designation_sound:
  assumes "designate_conflict_owner P J ws (Some state) st head id_bytes nonce_bytes path = Inr d"
  defines "records \<equiv> concat (map tk_proposals (wf_tasks state))" and "roster \<equiv> dn_eligible (dz_evidence d)"
    and "authors \<equiv> distinct_authors (eligible_for (wf_tasks state) path)" and "ranked \<equiv> dn_ranked (dz_evidence d)"
  shows "(\<forall>r\<in>set (rs_jobs st). ci_path (rj_conflict (ps_job r)) = path \<longrightarrow> assignment_terminal (ps_state r))
     \<and> sorted_wrt (<) roster \<and> set roster = agent_of ` may_resolve (wf_tasks state) path \<and> dz_owner d \<in> set roster
     \<and> (\<exists>task. dz_task_id d = Some task \<and> fst ` may_resolve (wf_tasks state) path = {task})
     \<and> (dz_method d = CausalEligible \<longleftrightarrow> (\<exists>!e. oldest_of records authors e))
     \<and> (\<forall>e. dz_method d = CausalEligible \<longrightarrow> oldest_of records authors e \<longrightarrow> dz_owner d = agent_of e)
     \<and> (dz_method d = IntegratorFallback \<longrightarrow> distinct ranked \<and> set ranked = set roster \<and> dz_owner d = hd ranked
          \<and> (\<exists>about nonce fingerprint. rank_candidates P ws about (dz_assignment_id d) nonce fingerprint roster = Inr ranked))
     \<and> ((\<forall>a\<in>set roster. is_valid_agent_name a) \<longrightarrow>
          (validate_designation_evidence (wire_evidence d) = Inr () \<longleftrightarrow> length roster \<le> resolution_max_intent_ids))"
  using assms(1)
proof (rule designate_cases)
  fix state' :: work_state_file and aid
  let ?es = "eligible_for (wf_tasks state') path" and ?roster = "sort (map agent_of (distinct_authors (eligible_for (wf_tasks state') path)))"
  assume "Some state = Some state'"
  then have state: "state' = state" by simp
  assume live: "\<forall>r\<in>set (rs_jobs st). ci_path (rj_conflict (ps_job r)) = path \<longrightarrow> \<not> live_job r"
    and ne: "?es \<noteq> []" and one: "\<forall>e\<in>set ?es. fst e = fst (hd ?es)"
    and d: "(case strictly_oldest_author (concat (map tk_proposals (wf_tasks state'))) (distinct_authors ?es) of
        Some oldest \<Rightarrow> causal_designation oldest path ?es ?roster aid
      | None \<Rightarrow> fallback_designation P J ws head nonce_bytes path (fst (hd ?es)) ?roster aid) = Inr d"
  note roster_facts = eligible_roster [OF ne one] and da = distinct_authors_first [of ?es]
  have dist: "distinct authors" and task: "fst ` may_resolve (wf_tasks state) path = {fst (hd ?es)}" and rne: "?roster \<noteq> []"
    using roster_facts unfolding authors_def state by blast+
  note oldest = strictly_oldest_author_iff [OF dist, of records]
  have terminal: "\<forall>r\<in>set (rs_jobs st). ci_path (rj_conflict (ps_job r)) = path \<longrightarrow> assignment_terminal (ps_state r)"
    using live by (simp add: live_job_def)
  show ?thesis
  proof (cases "strictly_oldest_author records authors")
    case (Some e)
    then have e: "\<And>x. oldest_of records authors x \<longleftrightarrow> x = e" using oldest by blast
    from e [of e] have "e \<in> set authors" by (simp add: oldest_of_def)
    then have "e \<in> set ?es" using da by (auto simp: authors_def state)
    with one have "fst e = fst (hd ?es)" by blast
    have "causal_designation e path ?es ?roster aid = Inr d" using d Some by (simp add: authors_def records_def state)
    note c = causal_designation_Inr [OF this]
    then have roster: "roster = ?roster" by (simp add: roster_def)
    have "sorted_wrt (<) roster" "set roster = agent_of ` may_resolve (wf_tasks state) path"
      using roster_facts unfolding roster state by blast+
    moreover have "dz_owner d \<in> set roster" using \<open>e \<in> set authors\<close> c by (auto simp: roster authors_def state)
    moreover have "dz_task_id d = Some (fst (hd ?es))" "dz_method d = CausalEligible" "dz_method d \<noteq> IntegratorFallback"
        "dz_owner d = agent_of e"
      using c \<open>fst e = fst (hd ?es)\<close> by simp_all
    moreover have "\<exists>!e. oldest_of records authors e" unfolding e by (rule ex1_eq(1))
    moreover have "validate_designation_evidence (wire_evidence d) = Inr () \<longleftrightarrow> length roster \<le> resolution_max_intent_ids"
      if "\<forall>a\<in>set roster. is_valid_agent_name a" using c that rne unfolding roster list_all_iff by blast
    ultimately show ?thesis using terminal task e by blast
  next
    case None
    then have "fallback_designation P J ws head nonce_bytes path (fst (hd ?es)) ?roster aid = Inr d"
      using d by (simp add: authors_def records_def state)
    note c = fallback_designation_Inr [OF this conjunct1 [OF roster_facts]]
    then have roster: "roster = ?roster" by (simp add: roster_def)
    have "sorted_wrt (<) roster" "set roster = agent_of ` may_resolve (wf_tasks state) path"
      using roster_facts unfolding roster state by blast+
    moreover have "\<not> (\<exists>!e. oldest_of records authors e)" using None oldest by (metis option.distinct(1))
    moreover have "dz_task_id d = Some (fst (hd ?es))" "dz_method d = IntegratorFallback" "dz_method d \<noteq> CausalEligible"
        "dz_owner d = hd ranked" "distinct ranked" "set ranked = set roster" "ranked \<noteq> []"
      using c by (simp_all add: ranked_def roster)
    moreover from this have "dz_owner d \<in> set roster" by (metis hd_in_set)
    moreover have "\<exists>about nonce fingerprint. rank_candidates P ws about (dz_assignment_id d) nonce fingerprint roster = Inr ranked"
      using c unfolding roster ranked_def by blast
    moreover have "validate_designation_evidence (wire_evidence d) = Inr () \<longleftrightarrow> length roster \<le> resolution_max_intent_ids"
      if "\<forall>a\<in>set roster. is_valid_agent_name a" using c that unfolding roster list_all_iff by blast
    ultimately show ?thesis using terminal task by blast
  qed
qed

section \<open>Examples\<close>

definition sample_accepted :: "string \<Rightarrow> char \<Rightarrow> string option \<Rightarrow> work_proposal_record" where
  "sample_accepted agent c base =
     \<lparr>pr_agent = agent, pr_sequence = 1, pr_intent_message_id = hex64 c, pr_coordinator = None, pr_causal_base = base,
      pr_original_scope = \<lparr>ws_paths = [''src/a''], ws_concerns = [], ws_dependencies = []\<rparr>,
      pr_scope = \<lparr>ws_paths = [''src/a''], ws_concerns = [], ws_dependencies = []\<rparr>, pr_capabilities = [''rust''],
      pr_state = Accepted, pr_decision = None, pr_superseded_decisions = [], pr_amendments = [], pr_accepted_overlap = [],
      pr_verification = None, pr_inspected_snapshot = None, pr_outcome = None, pr_reason = None,
      pr_source_message_id = hex64 c, pr_author_restore = None, pr_updated_at_ms = 0\<rparr>"

definition sample_roster :: work_state_file where
  "sample_roster = fresh\<lparr>wf_tasks := [\<lparr>tk_task_id = ''t'',
     tk_proposals = [sample_accepted ''agent-b'' (CHR ''b'') (Some (hex64 (CHR ''a''))), sample_accepted ''agent-a'' (CHR ''a'') None],
     tk_updated_at_ms = 0\<rparr>]\<rparr>"

definition sample_roster_json :: integrator_json where
  "sample_roster_json = \<lparr>roster_to_json = concat, ip_to_json = (\<lambda>_. []), ip_from_json = (\<lambda>_. None)\<rparr>"

lemma sample_designated:
  "case designate_conflict_owner const_prims sample_roster_json ''ws'' (Some sample_roster) resolution_state_fresh None
     (Some (replicate 16 (CHR 0x00))) None ''src/a'' of
     Inl _ \<Rightarrow> False
   | Inr d \<Rightarrow> dz_owner d = ''agent-a'' \<and> dz_method d = CausalEligible \<and> dn_eligible (dz_evidence d) = [''agent-a'', ''agent-b'']
       \<and> dz_task_id d = Some ''t''"
  by code_simp

theorem designation_sound_witness:
  "\<exists>d. designate_conflict_owner const_prims sample_roster_json ''ws'' (Some sample_roster) resolution_state_fresh None
     (Some (replicate 16 (CHR 0x00))) None ''src/a'' = Inr d \<and> dz_owner d = ''agent-a''
   \<and> fst ` may_resolve (wf_tasks sample_roster) ''src/a'' = {''t''}
   \<and> (\<exists>!e. oldest_of (concat (map tk_proposals (wf_tasks sample_roster)))
        (distinct_authors (eligible_for (wf_tasks sample_roster) ''src/a'')) e)
   \<and> validate_designation_evidence (wire_evidence d) = Inr ()"
proof -
  from sample_designated obtain d where d: "designate_conflict_owner const_prims sample_roster_json ''ws'' (Some sample_roster)
      resolution_state_fresh None (Some (replicate 16 (CHR 0x00))) None ''src/a'' = Inr d"
    and o: "dz_owner d = ''agent-a''" "dz_method d = CausalEligible" "dn_eligible (dz_evidence d) = [''agent-a'', ''agent-b'']" "dz_task_id d = Some ''t''"
    by (auto split: sum.splits)
  have names: "\<forall>a\<in>set (dn_eligible (dz_evidence d)). is_valid_agent_name a" unfolding o(3) by code_simp
  note s = designation_sound [OF d]
  from s have task: "\<exists>task. dz_task_id d = Some task \<and> fst ` may_resolve (wf_tasks sample_roster) ''src/a'' = {task}" by (elim conjE)
  from s have "dz_method d = CausalEligible \<longleftrightarrow> (\<exists>!e. oldest_of (concat (map tk_proposals (wf_tasks sample_roster)))
      (distinct_authors (eligible_for (wf_tasks sample_roster) ''src/a'')) e)" by (elim conjE)
  with o(2) have oldest: "\<exists>!e. oldest_of (concat (map tk_proposals (wf_tasks sample_roster)))
      (distinct_authors (eligible_for (wf_tasks sample_roster) ''src/a'')) e" by (rule iffD1 [rotated])
  from s names have "validate_designation_evidence (wire_evidence d) = Inr () \<longleftrightarrow> length (dn_eligible (dz_evidence d)) \<le> resolution_max_intent_ids"
    by blast
  then have "validate_designation_evidence (wire_evidence d) = Inr ()" by (simp add: o(3) resolution_max_intent_ids_def)
  with d o(1,4) task oldest show ?thesis by (intro exI conjI) simp_all
qed

section \<open>Where the code panics\<close>

text \<open>The reasoning is cut at 512 bytes; for a long path this may be inside a character.\<close>

lemma reasoning_cut_panics:
  "bounded_reasoning (causal_reasoning (sample_accepted ''a'' (CHR ''a'') None) (replicate 313 (CHR ''x'') @ [CHR 0xC3, CHR 0xA9])) = Inl CutPanic"
  by code_simp

end
