(* ===== verification/Resolution_Engine.thy ===== *)
theory Resolution_Engine
  imports Owner_Designation Tree_Build Client_Db
begin

text \<open>
  The engine of automatic resolution (\<^verbatim>\<open>agent-core/src/resolution.rs\<close>, the guarded publication of
  \<^verbatim>\<open>agent-core/src/snapshot.rs\<close>, the identity of a conflict in \<^verbatim>\<open>agent-core/src/conflict_artifacts.rs\<close>).

  The world of the engine is the store of jobs, the files below the job directories, the client's database, and the
  head of the workspace at the hub, which other machines move as well. An operation is a process of atomic
  actions on it: a write of a durable file, a request to the hub, or the checks that lie between two of them
  (they read only what the sync lock protects). Every operation first recovers and then does its work
  (\<open>..._locked\<close>), each part under the sync lock; a lock that cannot be had ends the operation before its part, as a crash does.

  Objects are named by their content, so loading a snapshot and expanding its tree are functions of the
  identifier (\<open>res_engine\<close>). What can go wrong outside is in \<open>res_io\<close>: the n-th request to the hub is answered or
  not, the n-th write commits or not, the swap's answer is lost.
\<close>

section \<open>The world\<close>

datatype candidate_open_error = OpenNotFound | OpenPermissionDenied | OpenSymlink | OpenInvalidType | OpenIo

record candidate_file =
  cf_len :: u64
  cf_content :: bytes
  cf_executable :: bool
  cf_nlink :: nat

record publication_journal =
  jn_job_id :: string
  jn_expected_head :: string
  jn_planned_head :: string
  jn_result :: resolution_result

datatype journal_file = JournalOk publication_journal | JournalUnreadable

record 'v res_world =
  rw_store :: resolution_state_file
  rw_job_files :: "(string \<times> resolution_job) list"
  rw_journals :: "(string \<times> journal_file) list"
  rw_candidates :: "string \<Rightarrow> candidate_open_error + candidate_file"
  rw_artifacts :: "string list"
  rw_db :: "'v local_state"
  rw_head :: "string option"
  rw_head_log :: "string list"

type_synonym tree_state = "(string \<times> file_state) list \<times> concurrent_edit list"

record res_engine =
  eg_prims :: prims
  eg_workspace_id :: string
  eg_format_version :: nat
  eg_sidecars :: sidecars
  eg_state_root :: string
  eg_snapshot :: "string \<Rightarrow> engine_error + snapshot"
  eg_tree_state :: "string \<Rightarrow> engine_error + tree_state"
  eg_seal :: "bytes \<Rightarrow> string \<Rightarrow> string option"
  eg_read_leg :: "string \<Rightarrow> string \<Rightarrow> u64 \<Rightarrow> engine_error + bytes"
  eg_journal_len :: "publication_journal \<Rightarrow> nat"
  eg_roster_json :: integrator_json

datatype swap_io = SwapAnswered | SwapUnsent | SwapReplyLost

record res_io =
  io_reply :: "nat \<Rightarrow> bool"
  io_commit :: "nat \<Rightarrow> commit_outcome"
  io_clock :: "nat \<Rightarrow> i64"
  io_swap :: swap_io

type_synonym ('v, 'a) resolution = "('v res_world, engine_error, 'a) proc"

text \<open>A write of the state file, followed by the load that \<^verbatim>\<open>update\<close> ends with.\<close>

definition store_write ::
  "prims \<Rightarrow> commit_outcome \<Rightarrow> (persisted_job list \<Rightarrow> engine_error + persisted_job list)
   \<Rightarrow> 'v res_world \<Rightarrow> (engine_error + unit) \<times> 'v res_world" where
  "store_write P c f w =
     (case resolution_changed f (rw_store w) of
        Inl e \<Rightarrow> (Inl e, w)
      | Inr st \<Rightarrow>
          (case c of
             Replaced \<Rightarrow> (rbind (resolution_load P st) (\<lambda>_. Inr ()), w\<lparr>rw_store := st\<rparr>)
           | NotReplaced \<Rightarrow> (Inl IoFailed, w)
           | ReplacedUncertain \<Rightarrow> (Inl IoFailed, w\<lparr>rw_store := st\<rparr>)))"

definition write_file ::
  "commit_outcome \<Rightarrow> ('v res_world \<Rightarrow> 'v res_world) \<Rightarrow> 'v res_world \<Rightarrow> (engine_error + unit) \<times> 'v res_world" where
  "write_file c f w =
     (case c of Replaced \<Rightarrow> (Inr (), f w) | NotReplaced \<Rightarrow> (Inl IoFailed, w) | ReplacedUncertain \<Rightarrow> (Inl IoFailed, f w))"

definition remove_journal :: "string \<Rightarrow> 'v res_world \<Rightarrow> 'v res_world" where
  "remove_journal job_id w = w\<lparr>rw_journals := AList.delete job_id (rw_journals w)\<rparr>"

definition job_dir :: "string \<Rightarrow> string" where
  "job_dir job_id = ''orchestrator/resolution/jobs/'' @ job_id"

definition candidate_path_for :: "string \<Rightarrow> u32 \<Rightarrow> string" where
  "candidate_path_for job_id attempt = job_dir job_id @ ''/candidate-'' @ decimal (unat attempt) @ ''.bin''"

text \<open>The job's directory with all in it; a failure leaves it for the next recovery.\<close>

definition remove_job_dir :: "bool \<Rightarrow> string \<Rightarrow> 'v res_world \<Rightarrow> 'v res_world" where
  "remove_job_dir ok job_id w =
     (if ok
      then w\<lparr>rw_job_files := AList.delete job_id (rw_job_files w),
             rw_journals := AList.delete job_id (rw_journals w),
             rw_candidates := (\<lambda>path. if take (length (job_dir job_id) + 1) path = job_dir job_id @ ''/''
               then Inl OpenNotFound else rw_candidates w path)\<rparr>
      else w)"

section \<open>The identity of a conflict\<close>

definition leg_descriptor :: "file_state option \<Rightarrow> conflict_leg" where
  "leg_descriptor state =
     (case state of
        None \<Rightarrow> \<lparr>leg_present = False, leg_deleted = False, leg_hash = [], leg_size = 0, leg_mode = 0\<rparr>
      | Some file \<Rightarrow> \<lparr>leg_present = True, leg_deleted = fs_deleted file, leg_hash = fs_hash file,
                     leg_size = fs_size file, leg_mode = fs_mode file\<rparr>)"

record identity_binding =
  ib_task_id :: "string option"
  ib_intent_message_ids :: "string list"
  ib_assignment_id :: "string option"
  ib_attempt :: "u32 option"
  ib_designated_owner :: "string option"
  ib_verification_policy :: "string option"

definition conflict_identity_from_edit ::
  "string \<Rightarrow> string \<Rightarrow> string \<Rightarrow> string \<Rightarrow> concurrent_edit \<Rightarrow> identity_binding \<Rightarrow> conflict_identity" where
  "conflict_identity_from_edit workspace_id current about root edit binding =
     (let base = leg_descriptor (ce_base edit); ours = leg_descriptor (ce_ours edit); theirs = leg_descriptor (ce_theirs edit)
      in \<lparr>ci_schema_version = resolution_schema_version, ci_workspace_id = workspace_id, ci_current_snapshot = current,
          ci_about_snapshot = about, ci_tree_root = root, ci_path = ce_path edit, ci_base = base, ci_ours = ours,
          ci_theirs = theirs, ci_kind = derive_conflict_kind base ours theirs, ci_task_id = ib_task_id binding,
          ci_intent_message_ids = remdups_adj (sort (ib_intent_message_ids binding)),
          ci_assignment_id = ib_assignment_id binding, ci_attempt = ib_attempt binding,
          ci_designated_owner = ib_designated_owner binding, ci_verification_policy = ib_verification_policy binding\<rparr>)"

definition binding_of :: "conflict_identity \<Rightarrow> identity_binding" where
  "binding_of identity =
     \<lparr>ib_task_id = ci_task_id identity, ib_intent_message_ids = ci_intent_message_ids identity,
      ib_assignment_id = ci_assignment_id identity, ib_attempt = ci_attempt identity,
      ib_designated_owner = ci_designated_owner identity, ib_verification_policy = ci_verification_policy identity\<rparr>"

section \<open>The candidate file\<close>

fun open_stale_kind :: "candidate_open_error \<Rightarrow> engine_error" where
  "open_stale_kind OpenNotFound = StalePublication CandidateMissing"
| "open_stale_kind OpenPermissionDenied = StalePublication CandidatePermissionDenied"
| "open_stale_kind OpenSymlink = StalePublication CandidateSymlink"
| "open_stale_kind OpenInvalidType = StalePublication CandidateInvalidType"
| "open_stale_kind OpenIo = StalePublication CandidateIoError"

definition portable_file_mode :: "bool \<Rightarrow> u32" where
  "portable_file_mode executable = (if executable then executable_mode else 0)"

definition read_candidate_file ::
  "prims \<Rightarrow> string \<Rightarrow> candidate_descriptor \<Rightarrow> 'v res_world \<Rightarrow> engine_error + bytes" where
  "read_candidate_file P relative candidate w =
     (if ca_deleted candidate
      then case rw_candidates w relative of
        Inr file \<Rightarrow> if cf_content file \<noteq> [] then Inl (StalePublication CandidateSizeMismatch) else Inr []
      | Inl OpenNotFound \<Rightarrow> Inr []
      | Inl e \<Rightarrow> Inl (open_stale_kind e)
      else case rw_candidates w relative of
        Inl e \<Rightarrow> Inl (open_stale_kind e)
      | Inr file \<Rightarrow>
          if cf_nlink file > 1 then Inl (StalePublication CandidateIoError)
          else if cf_len file > resolution_max_candidate_bytes then Inl (StalePublication CandidateSizeMismatch)
          else if portable_file_mode (cf_executable file) \<noteq> ca_mode candidate
          then Inl (StalePublication CandidateModeMismatch)
          else
            let bs = take (Suc (unat resolution_max_candidate_bytes)) (cf_content file) in
            if length bs \<noteq> unat (cf_len file) then Inl (StalePublication CandidateSizeMismatch)
            else if blake3_hex P bs \<noteq> ca_hash candidate then Inl (StalePublication CandidateHashMismatch)
            else Inr bs)"

section \<open>Guarded publication\<close>

record resolution_publication =
  pl_identity :: conflict_identity
  pl_fingerprint :: string
  pl_candidate :: "candidate_descriptor option"
  pl_candidate_file :: "string option"
  pl_manual_state :: "file_state option"
  pl_additional :: "(string \<times> file_state) list"
  pl_expected_head :: string
  pl_author :: string

record planned_publication =
  pp_expected_head :: string
  pp_candidate_id :: string

definition tree_state_at :: "res_engine \<Rightarrow> string \<Rightarrow> engine_error + snapshot \<times> tree_state" where
  "tree_state_at E head =
     rbind (eg_snapshot E head) (\<lambda>s. rbind (eg_tree_state E (sn_root s)) (\<lambda>st. Inr (s, st)))"

definition find_conflict :: "string \<Rightarrow> concurrent_edit list \<Rightarrow> concurrent_edit option" where
  "find_conflict path conflicts = find (\<lambda>c. ce_path c = path) conflicts"

definition same_legs :: "concurrent_edit \<Rightarrow> conflict_identity \<Rightarrow> bool" where
  "same_legs edit identity =
     (leg_descriptor (ce_base edit) = ci_base identity \<and> leg_descriptor (ce_ours edit) = ci_ours identity
      \<and> leg_descriptor (ce_theirs edit) = ci_theirs identity)"

definition refreshed_identity :: "string \<Rightarrow> snapshot \<Rightarrow> concurrent_edit \<Rightarrow> conflict_identity \<Rightarrow> conflict_identity" where
  "refreshed_identity head s edit identity =
     (let base = leg_descriptor (ce_base edit); ours = leg_descriptor (ce_ours edit); theirs = leg_descriptor (ce_theirs edit)
      in identity\<lparr>ci_current_snapshot := head, ci_about_snapshot := head, ci_tree_root := sn_root s, ci_base := base,
           ci_ours := ours, ci_theirs := theirs, ci_kind := derive_conflict_kind base ours theirs\<rparr>)"

definition sealed_state :: "res_engine \<Rightarrow> i64 \<Rightarrow> bytes \<Rightarrow> u32 \<Rightarrow> string \<Rightarrow> engine_error + file_state" where
  "sealed_state E now bs mode path =
     rbind (ok_or (eg_seal E bs path) IoFailed) (\<lambda>hash.
     Inr \<lparr>fs_path = path, fs_hash = hash, fs_size = word_of_nat (length bs), fs_mtime = now, fs_deleted = False,
          fs_mode = mode\<rparr>)"

text \<open>\<^verbatim>\<open>io_reply io 2\<close>: the upload of the sealed candidate.\<close>

definition candidate_state ::
  "res_engine \<Rightarrow> res_io \<Rightarrow> resolution_publication \<Rightarrow> 'v res_world \<Rightarrow> engine_error + file_state option" where
  "candidate_state E io plan w =
     (case pl_candidate plan of
        None \<Rightarrow> Inr (pl_manual_state plan)
      | Some candidate \<Rightarrow>
          (case pl_candidate_file plan of
             None \<Rightarrow> Inr (if ca_deleted candidate then None else pl_manual_state plan)
           | Some relative \<Rightarrow>
               rbind (read_candidate_file (eg_prims E) relative candidate w) (\<lambda>bs.
               if ca_deleted candidate then Inr None
               else rbind (sealed_state E (io_clock io 1) bs (ca_mode candidate) (ci_path (pl_identity plan))) (\<lambda>file.
                    rbind (ensure (io_reply io 2) IoFailed) (\<lambda>_. Inr (Some file))))))"

definition published_files ::
  "resolution_publication \<Rightarrow> file_state option \<Rightarrow> (string \<times> file_state) list \<Rightarrow> (string \<times> file_state) list" where
  "published_files plan state files =
     (let path = ci_path (pl_identity plan);
          files = (if pl_candidate plan = None then files
                   else case state of Some file \<Rightarrow> AList.update path file files | None \<Rightarrow> AList.delete path files)
      in fold (\<lambda>(p, file). AList.update p file) (pl_additional plan) files)"

definition resolve_message :: "string \<Rightarrow> string" where
  "resolve_message path = ''resolve '' @ path"

text \<open>\<^verbatim>\<open>SnapshotEngine::write\<close>: the tree is built, the snapshot on it is named, and both are uploaded.\<close>

definition write_snapshot ::
  "res_engine \<Rightarrow> bool \<Rightarrow> i64 \<Rightarrow> (string \<times> file_state) list \<Rightarrow> concurrent_edit list \<Rightarrow> string list \<Rightarrow> string \<Rightarrow> string option
   \<Rightarrow> engine_error + string" where
  "write_snapshot E uploaded now files conflicts parents author message =
     (case flat_to_tree_with_conflicts (eg_prims E) files conflicts of
        Inl _ \<Rightarrow> Inl TreeError
      | Inr bundle \<Rightarrow>
          rbind (ensure uploaded IoFailed) (\<lambda>_.
          Inr (snapshot_id (eg_prims E) \<lparr>sn_root = tb_root bundle, sn_parents = parents, sn_author = author,
            sn_created_at_ms = now, sn_message = message\<rparr>)))"

definition plan_resolution_publication ::
  "res_engine \<Rightarrow> res_io \<Rightarrow> resolution_publication \<Rightarrow> 'v res_world \<Rightarrow> engine_error + planned_publication" where
  "plan_resolution_publication E io plan w =
     rbind (ensure (io_reply io 1) IoFailed) (\<lambda>_.
     rbind (ok_or (rw_head w) (StalePublication HeadChanged)) (\<lambda>head.
     rbind (ensure (head = pl_expected_head plan) (LostCas head)) (\<lambda>_.
     rbind (tree_state_at E head) (\<lambda>(s, files, conflicts).
     rbind (ok_or (find_conflict (ci_path (pl_identity plan)) conflicts) (StalePublication ConflictMissing)) (\<lambda>edit.
     rbind (ensure (same_legs edit (pl_identity plan)) (StalePublication LegsChanged)) (\<lambda>_.
     rbind (ensure (refreshed_identity head s edit (pl_identity plan) = pl_identity plan)
        (StalePublication IdentityMismatch)) (\<lambda>_.
     rbind (ensure (compute_conflict_identity_fingerprint (eg_prims E) (refreshed_identity head s edit (pl_identity plan))
        = pl_fingerprint plan) (StalePublication IdentityMismatch)) (\<lambda>_.
     rbind (candidate_state E io plan w) (\<lambda>state.
     rbind (write_snapshot E (io_reply io 3) (io_clock io 2) (published_files plan state files)
        (filter (\<lambda>c. ce_path c \<noteq> ci_path (pl_identity plan)) conflicts) [head] (pl_author plan)
        (Some (resolve_message (ci_path (pl_identity plan))))) (\<lambda>id.
     Inr \<lparr>pp_expected_head = head, pp_candidate_id = id\<rparr>))))))))))"

definition swap_to :: "string \<Rightarrow> 'v res_world \<Rightarrow> 'v res_world" where
  "swap_to new w = w\<lparr>rw_head := Some new, rw_head_log := new # rw_head_log w\<rparr>"

definition commit_resolution_publication ::
  "res_io \<Rightarrow> planned_publication \<Rightarrow> 'v res_world \<Rightarrow> (engine_error + string) \<times> 'v res_world" where
  "commit_resolution_publication io planned w =
     (let won = (rw_head w = Some (pp_expected_head planned));
          w' = (if won then swap_to (pp_candidate_id planned) w else w)
      in case io_swap io of
           SwapUnsent \<Rightarrow> (Inl SwapFailed, w)
         | SwapReplyLost \<Rightarrow> (Inl SwapFailed, w')
         | SwapAnswered \<Rightarrow>
             (if won then Inr (pp_candidate_id planned)
              else case rw_head w of Some current \<Rightarrow> Inl (LostCas current) | None \<Rightarrow> Inl (StalePublication HeadChanged), w'))"

section \<open>Applying a result\<close>

definition i64_saturating_sub :: "i64 \<Rightarrow> i64 \<Rightarrow> int" where
  "i64_saturating_sub a b = max (- (2 ^ 63)) (min (2 ^ 63 - 1) (sint a - sint b))"

text \<open>An elapsed time before the epoch of the evidence counts as \<^verbatim>\<open>u64::MAX\<close>.\<close>

definition verification_expired :: "i64 \<Rightarrow> i64 \<Rightarrow> u64 \<Rightarrow> bool" where
  "verification_expired now verified_at timeout =
     (let elapsed = i64_saturating_sub now verified_at
      in (if elapsed < 0 then 2 ^ 64 - 1 else elapsed) > int (unat timeout))"

definition check_fresh :: "i64 \<Rightarrow> persisted_job \<Rightarrow> engine_error + unit" where
  "check_fresh now job =
     (if vp_freshness_required (rj_verification (ps_job job))
      then rbind (ok_or (ps_verified_at_ms job) NoEvidence) (\<lambda>verified_at.
           ensure (\<not> verification_expired now verified_at (vp_timeout_ms (rj_verification (ps_job job))))
             (StalePublication VerificationExpired))
      else Inr ())"

definition check_registry :: "res_engine \<Rightarrow> string \<Rightarrow> 'v local_state \<Rightarrow> engine_error + unit" where
  "check_registry E path db =
     rbind (ensure (get_conflict_record (eg_sidecars E) path db \<noteq> None) (StalePublication ConflictMissing)) (\<lambda>_.
     ensure (is_conflict_fingerprinted (eg_sidecars E) path db) (StalePublication IdentityMismatch))"

text \<open>The identity of the job's conflict in the head, recomputed.\<close>

definition check_identity :: "res_engine \<Rightarrow> string \<Rightarrow> resolution_job \<Rightarrow> engine_error + unit" where
  "check_identity E head job =
     rbind (tree_state_at E head) (\<lambda>(s, files, conflicts).
     rbind (ok_or (find_conflict (ci_path (rj_conflict job)) conflicts) (StalePublication ConflictMissing)) (\<lambda>edit.
     let recomputed = conflict_identity_from_edit (eg_workspace_id E) head head (sn_root s) edit (binding_of (rj_conflict job)) in
     rbind (ensure (recomputed = rj_conflict job) (StalePublication IdentityMismatch)) (\<lambda>_.
     ensure (compute_conflict_identity_fingerprint (eg_prims E) recomputed = rj_conflict_fingerprint job)
       (StalePublication IdentityMismatch))))"

definition publish_check ::
  "res_engine \<Rightarrow> res_io \<Rightarrow> string \<Rightarrow> 'v res_world \<Rightarrow> engine_error + persisted_job \<times> resolution_result \<times> string" where
  "publish_check E io job_id w =
     rbind (load_job (eg_prims E) job_id (rw_store w)) (\<lambda>job.
     rbind (ok_or (ps_result job) NoResult) (\<lambda>result.
     rbind (ensure (ps_state job = RsActive) (StalePublication AssignmentRevoked)) (\<lambda>_.
     rbind (check_fresh (io_clock io 0) job) (\<lambda>_.
     rbind (check_registry E (ci_path (rj_conflict (ps_job job))) (rw_db w)) (\<lambda>_.
     rbind (ensure (io_reply io 0) IoFailed) (\<lambda>_.
     rbind (ok_or (rw_head w) (StalePublication HeadChanged)) (\<lambda>head.
     rbind (ensure (head = rj_current_snapshot (ps_job job)) (StalePublication HeadChanged)) (\<lambda>_.
     rbind (check_identity E head (ps_job job)) (\<lambda>_.
     Inr (job, result, head))))))))))"

definition publication_plan :: "persisted_job \<Rightarrow> resolution_result \<Rightarrow> string \<Rightarrow> resolution_publication" where
  "publication_plan job result head =
     \<lparr>pl_identity = rj_conflict (ps_job job), pl_fingerprint = rj_conflict_fingerprint (ps_job job),
      pl_candidate = rr_candidate result,
      pl_candidate_file = (if rr_outcome result = CandidateReady then Some (destination_path (ps_job job)) else None),
      pl_manual_state = None, pl_additional = [], pl_expected_head = head, pl_author = rj_owner (ps_job job)\<rparr>"

definition resolution_max_journal_bytes :: nat where "resolution_max_journal_bytes = 32 * 1024"

definition write_publication_journal ::
  "res_engine \<Rightarrow> commit_outcome \<Rightarrow> string \<Rightarrow> publication_journal \<Rightarrow> 'v res_world \<Rightarrow> (engine_error + unit) \<times> 'v res_world" where
  "write_publication_journal E c job_id journal w =
     (if eg_journal_len E journal > resolution_max_journal_bytes then (Inl JournalTooLarge, w)
      else write_file c (\<lambda>w. w\<lparr>rw_journals := AList.update job_id (JournalOk journal) (rw_journals w)\<rparr>) w)"

definition mark_state ::
  "res_engine \<Rightarrow> commit_outcome \<Rightarrow> string \<Rightarrow> assignment_state \<Rightarrow> 'v res_world \<Rightarrow> (engine_error + unit) \<times> 'v res_world" where
  "mark_state E c job_id to w = store_write (eg_prims E) c (modify_job job_id (set_state to)) w"

definition drop_journal :: "bool \<Rightarrow> string \<Rightarrow> 'v res_world \<Rightarrow> (engine_error + unit) \<times> 'v res_world" where
  "drop_journal ok job_id w = (Inr (), if ok then remove_journal job_id w else w)"

text \<open>After a failed commit the journal is dropped and the record goes back to active, as far as that succeeds.\<close>

definition revert_publication :: "res_engine \<Rightarrow> res_io \<Rightarrow> string \<Rightarrow> engine_error \<Rightarrow> ('v, string) resolution" where
  "revert_publication E io job_id e =
     pbind (act (drop_journal (io_reply io 4) job_id)) (\<lambda>_.
     ptry (act (mark_state E (io_commit io 2) job_id RsActive)) (\<lambda>_. Done (Inl e)))"

definition commit_planned ::
  "res_engine \<Rightarrow> res_io \<Rightarrow> string \<Rightarrow> planned_publication \<Rightarrow> ('v, string) resolution" where
  "commit_planned E io job_id planned =
     ptry (act (commit_resolution_publication io planned)) (\<lambda>r.
     (case r of Inr head \<Rightarrow> Done (Inr head) | Inl e \<Rightarrow> revert_publication E io job_id e))"

definition publish_once :: "res_engine \<Rightarrow> res_io \<Rightarrow> string \<Rightarrow> ('v, string) resolution" where
  "publish_once E io job_id =
     pbind (look (publish_check E io job_id)) (\<lambda>(job, result, head).
     pbind (look (plan_resolution_publication E io (publication_plan job result head))) (\<lambda>planned.
     pbind (act (write_publication_journal E (io_commit io 0) job_id
       \<lparr>jn_job_id = job_id, jn_expected_head = pp_expected_head planned, jn_planned_head = pp_candidate_id planned,
        jn_result = result\<rparr>)) (\<lambda>_.
     pbind (act (mark_state E (io_commit io 1) job_id RsUncertain)) (\<lambda>_.
     commit_planned E io job_id planned))))"

section \<open>Completion\<close>

definition published_hash :: "resolution_result \<Rightarrow> string option" where
  "published_hash result = (if rr_outcome result = CandidateReady then map_option ca_hash (rr_candidate result) else None)"

definition db_write ::
  "commit_outcome \<Rightarrow> ('v local_state \<Rightarrow> local_error + 'v local_state) \<Rightarrow> 'v res_world \<Rightarrow> (engine_error + unit) \<times> 'v res_world" where
  "db_write c f w = (case f (rw_db w) of Inl _ \<Rightarrow> (Inl IoFailed, w) | Inr db \<Rightarrow> write_file c (\<lambda>w. w\<lparr>rw_db := db\<rparr>) w)"

definition already_recorded :: "string \<Rightarrow> string \<Rightarrow> string option \<Rightarrow> 'v local_state \<Rightarrow> bool" where
  "already_recorded path resolver hash db =
     list_ex (\<lambda>h. hist_path h = path \<and> hist_method h = ''candidate'' \<and> hist_resolver h = resolver
       \<and> hist_source_file_hash h = hash) (list_conflict_resolutions db)"

definition record_conflict_resolution_once ::
  "commit_outcome \<Rightarrow> i64 \<Rightarrow> resolution_job \<Rightarrow> string option \<Rightarrow> 'v res_world \<Rightarrow> (engine_error + unit) \<times> 'v res_world" where
  "record_conflict_resolution_once c now job hash w =
     (if already_recorded (ci_path (rj_conflict job)) (rj_owner job) hash (rw_db w) then (Inr (), w)
      else db_write c (record_conflict_resolution (ci_path (rj_conflict job)) Candidate hash (rj_owner job) now) w)"

definition artifact_paths :: "string \<Rightarrow> string \<Rightarrow> string list" where
  "artifact_paths dir path = map (\<lambda>suffix. dir @ ''/'' @ path @ suffix) [''.original'', ''.local'', ''.cloud'']"

text \<open>The materialized legs of the conflict, and the directory when nothing pending is left in it.\<close>

definition cleanup_conflict_artifacts ::
  "res_io \<Rightarrow> resolution_job \<Rightarrow> conflict_record option \<Rightarrow> 'v res_world \<Rightarrow> (engine_error + unit) \<times> 'v res_world" where
  "cleanup_conflict_artifacts io job captured w =
     (Inr (), case captured of
        None \<Rightarrow> w
      | Some r \<Rightarrow>
          let dir = pub_conflict_dir r;
              kept = (if io_reply io 5
                      then filter (\<lambda>a. a \<notin> set (artifact_paths dir (ci_path (rj_conflict job)))) (rw_artifacts w)
                      else rw_artifacts w)
          in w\<lparr>rw_artifacts := (if count_pending_in_dir dir (rw_db w) = 0 \<and> io_reply io 6
                 then filter (\<lambda>a. take (length dir + 1) a \<noteq> dir @ ''/'') kept else kept)\<rparr>)"

definition finish_job ::
  "res_engine \<Rightarrow> res_io \<Rightarrow> persisted_job \<Rightarrow> resolution_result \<Rightarrow> conflict_record option \<Rightarrow> ('v, unit) resolution" where
  "finish_job E io job result captured =
     (let job_id = rj_job_id (ps_job job); path = ci_path (rj_conflict (ps_job job)) in
      pbind (act (record_conflict_resolution_once (io_commit io 3) (io_clock io 3) (ps_job job) (published_hash result))) (\<lambda>_.
      pbind (act (db_write (io_commit io 4) (resolve_conflict_path path))) (\<lambda>_.
      pbind (act (cleanup_conflict_artifacts io (ps_job job) captured)) (\<lambda>_.
      pbind (act (mark_state E (io_commit io 5) job_id RsCompleted)) (\<lambda>_.
      act (\<lambda>w. (Inr (), remove_job_dir (io_reply io 7) job_id w)))))))"

definition complete_publication :: "res_engine \<Rightarrow> res_io \<Rightarrow> string \<Rightarrow> ('v, unit) resolution" where
  "complete_publication E io job_id =
     pbind (look (\<lambda>w. rbind (load_job (eg_prims E) job_id (rw_store w)) (\<lambda>job.
        Inr (job, get_conflict_record (eg_sidecars E) (ci_path (rj_conflict (ps_job job))) (rw_db w))))) (\<lambda>(job, captured).
     if ps_state job \<noteq> RsUncertain then Done (ensure (ps_state job = RsCompleted) (CannotComplete (ps_state job)))
     else (case ps_result job of
             None \<Rightarrow> Done (Inl NoResult)
           | Some result \<Rightarrow> finish_job E io job result captured))"

datatype resolution_apply_outcome = ApplyPublished string | ApplyStale resolution_stale_kind

definition check_applicable :: "res_engine \<Rightarrow> string \<Rightarrow> 'v res_world \<Rightarrow> engine_error + unit" where
  "check_applicable E job_id w =
     rbind (load_job (eg_prims E) job_id (rw_store w)) (\<lambda>job.
     rbind (ok_or (ps_result job) NoResult) (\<lambda>result.
     ensure (rr_outcome result \<in> {CandidateReady, NoChangeRequired}) NotApplicable))"

text \<open>The attempts, each with its own requests and writes.\<close>

fun apply_attempts :: "res_engine \<Rightarrow> string \<Rightarrow> engine_error \<Rightarrow> res_io list \<Rightarrow> ('v, resolution_apply_outcome) resolution" where
  "apply_attempts E job_id last_error [] = Done (Inl last_error)"
| "apply_attempts E job_id last_error (io # ios) =
     pbind (look (check_applicable E job_id)) (\<lambda>_.
     ptry (publish_once E io job_id) (\<lambda>r.
     (case r of
        Inr head \<Rightarrow> pbind (complete_publication E io job_id) (\<lambda>_. Done (Inr (ApplyPublished head)))
      | Inl (StalePublication kind) \<Rightarrow> Done (Inr (ApplyStale kind))
      | Inl (LostCas current) \<Rightarrow> apply_attempts E job_id (LostCas current) ios
      | Inl e \<Rightarrow> Done (Inl e))))"

definition apply_locked ::
  "res_engine \<Rightarrow> string \<Rightarrow> (nat \<Rightarrow> res_io) \<Rightarrow> ('v, resolution_apply_outcome) resolution" where
  "apply_locked E job_id ios =
     apply_attempts E job_id IoFailed (map ios [0..<resolution_max_apply_revalidations])"

section \<open>Recovery\<close>

text \<open>What proves that the swap won: the journal of this very job names the current head.\<close>

definition swap_proved :: "string \<Rightarrow> 'v res_world \<Rightarrow> bool" where
  "swap_proved job_id w =
     (case rw_head w of
        None \<Rightarrow> False
      | Some head \<Rightarrow>
         (case map_of (rw_journals w) job_id of
            Some (JournalOk journal) \<Rightarrow> jn_job_id journal = job_id \<and> rr_job_id (jn_result journal) = job_id
              \<and> head = jn_planned_head journal
          | _ \<Rightarrow> False))"

definition fail_closed_recovery :: "res_engine \<Rightarrow> res_io \<Rightarrow> string \<Rightarrow> ('v, unit) resolution" where
  "fail_closed_recovery E io job_id =
     pbind (act (store_write (eg_prims E) (io_commit io 6) (modify_job job_id (\<lambda>r.
        if ps_state r = RsUncertain then set_state RsStale r else Inr r)))) (\<lambda>_.
     act (drop_journal (io_reply io 8) job_id))"

definition recover_one_uncertain :: "res_engine \<Rightarrow> res_io \<Rightarrow> string \<Rightarrow> ('v, unit) resolution" where
  "recover_one_uncertain E io job_id =
     pbind (look (\<lambda>w. load_job (eg_prims E) job_id (rw_store w))) (\<lambda>job.
     if ps_state job \<noteq> RsUncertain then Done (Inr ())
     else
       pbind (look (\<lambda>w. rbind (ensure (io_reply io 0) IoFailed) (\<lambda>_. Inr (swap_proved job_id w)))) (\<lambda>proved.
       if proved then complete_publication E io job_id else fail_closed_recovery E io job_id))"

text \<open>A journal beside a record that is not uncertain.\<close>

definition sweep_one :: "res_engine \<Rightarrow> res_io \<Rightarrow> string \<Rightarrow> ('v, unit) resolution" where
  "sweep_one E io job_id =
     act (\<lambda>w.
       if map_of (rw_journals w) job_id = None then (Inr (), w)
       else case load_job (eg_prims E) job_id (rw_store w) of
         Inl e \<Rightarrow> (Inl e, w)
       | Inr job \<Rightarrow>
           if ps_state job = RsCompleted then (Inr (), remove_job_dir (io_reply io 7) job_id w)
           else drop_journal (io_reply io 8) job_id w)"

definition job_ids :: "(persisted_job \<Rightarrow> bool) \<Rightarrow> persisted_job list \<Rightarrow> string list" where
  "job_ids p jobs = map (\<lambda>r. rj_job_id (ps_job r)) (filter p jobs)"

text \<open>The part under the sync lock, for the lists that were read before the lock was taken.\<close>

definition recover_locked ::
  "res_engine \<Rightarrow> (string \<Rightarrow> res_io) \<Rightarrow> string list \<Rightarrow> string list \<Rightarrow> ('v, unit) resolution" where
  "recover_locked E ios uncertain sweep =
     pbind (pfor (\<lambda>id. recover_one_uncertain E (ios id) id) uncertain) (\<lambda>_.
     pfor (\<lambda>id. sweep_one E (ios id) id) sweep)"

definition recover_uncertain_publications ::
  "res_engine \<Rightarrow> (string \<Rightarrow> res_io) \<Rightarrow> ('v, unit) resolution" where
  "recover_uncertain_publications E ios =
     pbind (look (\<lambda>w. resolution_load (eg_prims E) (rw_store w))) (\<lambda>st.
     recover_locked E ios (job_ids (\<lambda>r. ps_state r = RsUncertain) (rs_jobs st))
       (job_ids (\<lambda>r. ps_state r \<noteq> RsUncertain) (rs_jobs st)))"

section \<open>Preparation\<close>

definition proposal_ancestry :: "string \<Rightarrow> work_proposal_record \<Rightarrow> string list" where
  "proposal_ancestry path p =
     (if pr_state p \<noteq> Accepted then []
      else if \<not> scope_covers_path (pr_scope p) path then []
      else [pr_intent_message_id p]
        @ (case pr_causal_base p of Some base \<Rightarrow> [base] | None \<Rightarrow> [])
        @ (if pr_source_message_id p \<noteq> pr_intent_message_id p then [pr_source_message_id p] else [])
        @ pr_superseded_decisions p)"

definition path_ancestry_message_ids :: "work_state_file \<Rightarrow> string \<Rightarrow> engine_error + string list" where
  "path_ancestry_message_ids work path =
     (let ids = remdups_adj (sort (concat (map (\<lambda>task. concat (map (proposal_ancestry path) (tk_proposals task))) (wf_tasks work))))
      in rbind (ensure (length ids \<le> resolution_max_causal_refs) TooManyCausalRefs) (\<lambda>_. Inr ids))"

text \<open>A path below the state root, or nothing.\<close>

definition below_state_root :: "string \<Rightarrow> string \<Rightarrow> string" where
  "below_state_root root path = (case strip_prefix path (root @ ''/'') of Some relative \<Rightarrow> normalize_path relative | None \<Rightarrow> [])"

definition artifact_descriptors :: "string \<Rightarrow> string \<Rightarrow> string \<Rightarrow> artifact_descriptor list" where
  "artifact_descriptors root path dir =
     map2 (\<lambda>role artifact. \<lparr>ad_role = role, ad_path = below_state_root root artifact\<rparr>)
       [Original, LocalLeg, CloudLeg] (artifact_paths dir path)"

definition conflict_dir_for :: "res_engine \<Rightarrow> string \<Rightarrow> 'v local_state \<Rightarrow> string" where
  "conflict_dir_for E path db =
     (case get_conflict_record (eg_sidecars E) path db of Some r \<Rightarrow> pub_conflict_dir r | None \<Rightarrow> [])"

definition designated_binding :: "string \<Rightarrow> owner_designation \<Rightarrow> identity_binding" where
  "designated_binding task_id d =
     \<lparr>ib_task_id = Some task_id, ib_intent_message_ids = dz_intent_message_ids d, ib_assignment_id = Some (dz_assignment_id d),
      ib_attempt = Some (dz_attempt d), ib_designated_owner = Some (dz_owner d),
      ib_verification_policy = Some resolution_verification_policy_id\<rparr>"

text \<open>What is drawn at random: the seeds of the designation and the identifier of the job.\<close>

record job_seeds =
  sd_assignment :: "bytes option"
  sd_nonce :: "bytes option"
  sd_job :: "bytes option"

definition designation_of ::
  "res_engine \<Rightarrow> res_io \<Rightarrow> work_state_file option \<Rightarrow> job_seeds \<Rightarrow> string \<Rightarrow> 'v res_world \<Rightarrow> engine_error + owner_designation" where
  "designation_of E io work seeds path w =
     map_err (case_designation_error DesignationRefused DesignationPanicked)
       (designate_conflict_owner (eg_prims E) (eg_roster_json E) (eg_workspace_id E) work (rw_store w)
          (if io_reply io 9 then Some (rw_head w) else None) (sd_assignment seeds) (sd_nonce seeds) path)"

definition new_job ::
  "res_engine \<Rightarrow> string \<Rightarrow> string \<Rightarrow> snapshot \<Rightarrow> concurrent_edit \<Rightarrow> string \<Rightarrow> owner_designation \<Rightarrow> string list \<Rightarrow> string
   \<Rightarrow> prevention_reason \<Rightarrow> string \<Rightarrow> resolution_job" where
  "new_job E path head s edit task_id d ancestry dir prevention job_id =
     (let identity = conflict_identity_from_edit (eg_workspace_id E) head head (sn_root s) edit (designated_binding task_id d)
      in \<lparr>rj_schema_version = resolution_schema_version, rj_job_id = job_id, rj_task_id = task_id,
          rj_assignment_id = dz_assignment_id d, rj_attempt = dz_attempt d, rj_workspace_id = eg_workspace_id E,
          rj_owner = dz_owner d, rj_conflict = identity,
          rj_conflict_fingerprint = compute_conflict_identity_fingerprint (eg_prims E) identity,
          rj_current_snapshot = head, rj_about_snapshot = head, rj_tree_root = sn_root s,
          rj_accepted_intents = (if dz_intent_message_ids d = [] then ancestry else dz_intent_message_ids d),
          rj_causal_refs = ancestry, rj_artifacts = artifact_descriptors (eg_state_root E) path dir,
          rj_candidate_destination =
            \<lparr>cd_path = candidate_path_for job_id (dz_attempt d), cd_create_new = True\<rparr>,
          rj_allowed_output_paths = [path],
          rj_verification = \<lparr>vp_policy_id = resolution_verification_policy_id,
            vp_command_config_ref = resolution_verification_config_ref,
            vp_timeout_ms = resolution_default_verification_timeout_ms, vp_freshness_required = True\<rparr>,
          rj_prevention = prevention, rj_last_resort_reason = prevention_detail prevention, rj_designation = wire_evidence d\<rparr>)"

definition check_prepare ::
  "res_engine \<Rightarrow> res_io \<Rightarrow> string \<Rightarrow> prevention_reason \<Rightarrow> 'v res_world \<Rightarrow> engine_error + string \<times> snapshot \<times> concurrent_edit" where
  "check_prepare E io path prevention w =
     rbind (ensure (eg_format_version E \<ge> 3) FormatTooOld) (\<lambda>_.
     rbind (ensure (str_trim (prevention_detail prevention) \<noteq> []) NoPrevention) (\<lambda>_.
     rbind (ensure (io_reply io 0) IoFailed) (\<lambda>_.
     rbind (ok_or (rw_head w) NoHead) (\<lambda>head.
     rbind (tree_state_at E head) (\<lambda>(s, files, conflicts).
     rbind (ok_or (find_conflict path conflicts) NoConflict) (\<lambda>edit.
     rbind (ensure (is_conflict_fingerprinted (eg_sidecars E) path (rw_db w)) LegacyConflict) (\<lambda>_.
     Inr (head, s, edit))))))))"

definition build_job ::
  "res_engine \<Rightarrow> string \<Rightarrow> prevention_reason \<Rightarrow> work_state_file option \<Rightarrow> job_seeds \<Rightarrow> string \<Rightarrow> snapshot \<Rightarrow> concurrent_edit
   \<Rightarrow> owner_designation \<Rightarrow> 'v res_world \<Rightarrow> engine_error + resolution_job" where
  "build_job E path prevention work seeds head s edit d w =
     rbind (ok_or (dz_task_id d) Undesignated) (\<lambda>task_id.
     rbind (contract (validate_conflict_identity (eg_prims E)
        (conflict_identity_from_edit (eg_workspace_id E) head head (sn_root s) edit (designated_binding task_id d)))) (\<lambda>_.
     rbind (rbind (ok_or work IoFailed) (\<lambda>work. path_ancestry_message_ids work path)) (\<lambda>ancestry.
     rbind (contract (validate_designation_evidence (wire_evidence d))) (\<lambda>_.
     rbind (case generate_assignment_id (sd_job seeds) of Inl _ \<Rightarrow> Inl IoFailed | Inr job_id \<Rightarrow> Inr job_id) (\<lambda>job_id.
     let job = new_job E path head s edit task_id d ancestry (conflict_dir_for E path (rw_db w)) prevention job_id in
     rbind (contract (validate_resolution_job (eg_prims E) job)) (\<lambda>_.
     Inr job))))))"

definition prepare_resolution_job_guarded ::
  "res_engine \<Rightarrow> res_io \<Rightarrow> string \<Rightarrow> prevention_reason \<Rightarrow> work_state_file option \<Rightarrow> job_seeds \<Rightarrow> ('v, resolution_job) resolution" where
  "prepare_resolution_job_guarded E io path prevention work seeds =
     pbind (look (check_prepare E io path prevention)) (\<lambda>(head, s, edit).
     pbind (look (designation_of E io work seeds path)) (\<lambda>d.
     pbind (look (build_job E path prevention work seeds head s edit d)) (\<lambda>job.
     pbind (act (write_file (io_commit io 0) (\<lambda>w. w\<lparr>rw_job_files := AList.update (rj_job_id job) job (rw_job_files w)\<rparr>))) (\<lambda>_.
     pbind (act (store_write (eg_prims E) (io_commit io 1) (add_prepared (active_record (io_clock io 0) job)))) (\<lambda>_.
     Done (Inr job))))))"

definition import_resolution_job :: "res_engine \<Rightarrow> res_io \<Rightarrow> resolution_job \<Rightarrow> ('v, unit) resolution" where
  "import_resolution_job E io job =
     pbind (Done (contract (validate_resolution_job (eg_prims E) job))) (\<lambda>_.
     act (store_write (eg_prims E) (io_commit io 0) (import_job (io_clock io 0) job)))"

section \<open>Submission, answers and the end of an assignment\<close>

definition submit_locked ::
  "res_engine \<Rightarrow> res_io \<Rightarrow> string \<Rightarrow> resolution_result \<Rightarrow> ('v, resolution_result) resolution" where
  "submit_locked E io job_id result =
     pbind (look (\<lambda>w.
        rbind (check_submission (eg_prims E) job_id result (rw_store w)) (\<lambda>job.
        rbind (submitted_result (eg_prims E) (\<lambda>c. read_candidate_file (eg_prims E) (ca_path c) c w)
           (rs_jobs (rw_store w)) job result) (\<lambda>result.
        Inr (job, result))))) (\<lambda>(job, result).
     pbind (act (store_write (eg_prims E) (io_commit io 0)
        (modify_job job_id (replace_record (with_result (io_clock io 0) result job))))) (\<lambda>_.
     Done (Inr result)))"

definition revoke_locked :: "res_engine \<Rightarrow> res_io \<Rightarrow> string \<Rightarrow> bool \<Rightarrow> ('v, unit) resolution" where
  "revoke_locked E io job_id superseded =
     act (mark_state E (io_commit io 0) job_id (if superseded then RsSuperseded else RsRevoked))"

definition answer_locked ::
  "res_engine \<Rightarrow> res_io \<Rightarrow> human_resolution_answer \<Rightarrow> ('v, unit) resolution" where
  "answer_locked E io answer =
     (let job_id = ha_job_id answer in
      pbind (look (\<lambda>w. check_answer (eg_prims E) answer (rw_store w))) (\<lambda>job.
      (case ha_chosen_option answer of
         Defer \<Rightarrow> act (mark_state E (io_commit io 0) job_id RsDeferred)
       | KeepUnresolved \<Rightarrow> act (mark_state E (io_commit io 0) job_id RsKeepUnresolved)
       | SubmitCandidate \<Rightarrow>
           pbind (look (\<lambda>w.
              rbind (ok_or (ha_candidate answer) NoEvidence) (\<lambda>candidate.
              rbind (ensure (ca_path candidate = destination_path (ps_job job)) WrongCandidatePath) (\<lambda>_.
              rbind (read_candidate_file (eg_prims E) (ca_path candidate) candidate w) (\<lambda>bs.
              rbind (inline_verify_candidate (eg_prims E) (ps_job job) bs candidate) (\<lambda>summary.
              let result = answered_result (ps_job job) candidate summary in
              rbind (contract (validate_resolution_result (eg_prims E) result)) (\<lambda>_. Inr result))))))) (\<lambda>result.
           act (store_write (eg_prims E) (io_commit io 0) (modify_job job_id (replace_record
              (job\<lparr>ps_verified_at_ms := Some (io_clock io 0), ps_result := Some result\<rparr>))))))))"

definition defer_locked :: "res_engine \<Rightarrow> res_io \<Rightarrow> string \<Rightarrow> ('v, unit) resolution" where
  "defer_locked E io job_id =
     act (store_write (eg_prims E) (io_commit io 0) (modify_job job_id (\<lambda>r.
        rbind (ensure (ps_state r = RsActive) (NotActive (ps_state r))) (\<lambda>_. set_state RsDeferred r))))"

section \<open>The candidate\<close>

definition check_put_candidate ::
  "res_engine \<Rightarrow> string \<Rightarrow> bytes \<Rightarrow> 'v res_world \<Rightarrow> engine_error + persisted_job" where
  "check_put_candidate E job_id bs w =
     rbind (load_job (eg_prims E) job_id (rw_store w)) (\<lambda>job.
     rbind (ensure (ps_state job = RsActive) (NotActive (ps_state job))) (\<lambda>_.
     rbind (case ps_result job of
              None \<Rightarrow> Inr ()
            | Some result \<Rightarrow> ensure (rr_outcome result = RequiresHuman) NotSubmittedWithoutCandidate) (\<lambda>_.
     rbind (ensure (length bs \<le> unat resolution_max_candidate_bytes) CandidateTooLarge) (\<lambda>_.
     Inr job))))"

text \<open>
  The file is created where nothing is, not even a link; its mode is the creation mode. \<open>failed\<close> is how much was written when
  a write failed.
\<close>

definition create_new_file ::
  "nat option \<Rightarrow> string \<Rightarrow> bytes \<Rightarrow> 'v res_world \<Rightarrow> (engine_error + u32) \<times> 'v res_world" where
  "create_new_file failed path bs w =
     (case rw_candidates w path of
        Inl OpenNotFound \<Rightarrow>
          let written = (case failed of None \<Rightarrow> bs | Some n \<Rightarrow> take n bs);
              file = \<lparr>cf_len = word_of_nat (length written), cf_content = written, cf_executable = False, cf_nlink = 1\<rparr>
          in (if failed = None then Inr (portable_file_mode (cf_executable file)) else Inl IoFailed,
              w\<lparr>rw_candidates := (rw_candidates w)(path := Inr file)\<rparr>)
      | Inl OpenPermissionDenied \<Rightarrow> (Inl IoFailed, w)
      | Inl OpenIo \<Rightarrow> (Inl IoFailed, w)
      | _ \<Rightarrow> (Inl CandidateExists, w))"

definition put_locked ::
  "res_engine \<Rightarrow> nat option \<Rightarrow> string \<Rightarrow> bytes \<Rightarrow> ('v, candidate_descriptor) resolution" where
  "put_locked E failed job_id bs =
     pbind (look (check_put_candidate E job_id bs)) (\<lambda>job.
     pbind (act (create_new_file failed (destination_path (ps_job job)) bs)) (\<lambda>mode.
     Done (Inr \<lparr>ca_path = destination_path (ps_job job), ca_hash = blake3_hex (eg_prims E) bs,
       ca_size = word_of_nat (length bs), ca_mode = mode, ca_deleted = False\<rparr>)))"

fun role_str :: "artifact_role \<Rightarrow> string" where
  "role_str Original = ''original''"
| "role_str LocalLeg = ''local''"
| "role_str CloudLeg = ''cloud''"

definition leg_path :: "string \<Rightarrow> artifact_role \<Rightarrow> string" where
  "leg_path job_id role = job_dir job_id @ ''/leg-'' @ role_str role @ ''.bin''"

definition read_leg :: "res_engine \<Rightarrow> string \<Rightarrow> conflict_leg \<Rightarrow> engine_error + bytes" where
  "read_leg E path leg =
     rbind (eg_read_leg E path (leg_hash leg) (leg_size leg)) (\<lambda>bs.
     rbind (ensure (leg_size leg = 0 \<or> length bs = unat (leg_size leg)) LegMismatch) (\<lambda>_. Inr bs))"

definition materialize_leg :: "res_engine \<Rightarrow> (artifact_role \<Rightarrow> nat option) \<Rightarrow> resolution_job \<Rightarrow> artifact_role \<times> conflict_leg \<Rightarrow> ('v, unit) resolution" where
  "materialize_leg E failed job rl =
     (let (role, leg) = rl in
      if leg_deleted leg \<or> \<not> leg_present leg then Done (Inr ())
      else
        pbind (Done (read_leg E (ci_path (rj_conflict job)) leg)) (\<lambda>bs.
        act (\<lambda>w. case create_new_file (failed role) (leg_path (rj_job_id job) role) bs w of
            (Inl CandidateExists, w) \<Rightarrow> (Inl LegExists, w)
          | (Inl e, w) \<Rightarrow> (Inl e, w)
          | (Inr _, w) \<Rightarrow> (Inr (), w))))"

definition materialize_locked :: "res_engine \<Rightarrow> (artifact_role \<Rightarrow> nat option) \<Rightarrow> string \<Rightarrow> ('v, unit) resolution" where
  "materialize_locked E failed job_id =
     pbind (look (\<lambda>w.
        rbind (load_job (eg_prims E) job_id (rw_store w)) (\<lambda>job.
        rbind (ensure (ps_state job = RsActive) (NotActive (ps_state job))) (\<lambda>_. Inr (ps_job job))))) (\<lambda>job.
     pfor (materialize_leg E failed job)
       [(Original, ci_base (rj_conflict job)), (LocalLeg, ci_ours (rj_conflict job)), (CloudLeg, ci_theirs (rj_conflict job))])"

definition candidate_matches_bytes :: "prims \<Rightarrow> candidate_descriptor \<Rightarrow> bytes \<Rightarrow> bool" where
  "candidate_matches_bytes P candidate bs =
     (if ca_deleted candidate then bs = []
      else unat (ca_size candidate) = length bs \<and> blake3_hex P bs = ca_hash candidate)"

section \<open>The operations in full\<close>

text \<open>Recovery, and then the part under the lock. What is only reported is left out: how many records were recovered, and the paths of the materialized legs, which are \<open>leg_path\<close>.\<close>

definition recovering :: "res_engine \<Rightarrow> (string \<Rightarrow> res_io) \<Rightarrow> ('v, 'a) resolution \<Rightarrow> ('v, 'a) resolution" where
  "recovering E ios p = pbind (recover_uncertain_publications E ios) (\<lambda>_. p)"

definition prepare_resolution_job ::
  "res_engine \<Rightarrow> (string \<Rightarrow> res_io) \<Rightarrow> res_io \<Rightarrow> string \<Rightarrow> prevention_reason \<Rightarrow> work_state_file option
   \<Rightarrow> job_seeds \<Rightarrow> ('v, resolution_job) resolution" where
  "prepare_resolution_job E ios io path prevention work seeds =
     recovering E ios (prepare_resolution_job_guarded E io path prevention work seeds)"

definition submit_resolution_result ::
  "res_engine \<Rightarrow> (string \<Rightarrow> res_io) \<Rightarrow> res_io \<Rightarrow> string \<Rightarrow> resolution_result \<Rightarrow> ('v, resolution_result) resolution" where
  "submit_resolution_result E ios io job_id result = recovering E ios (submit_locked E io job_id result)"

definition revoke_resolution_assignment ::
  "res_engine \<Rightarrow> (string \<Rightarrow> res_io) \<Rightarrow> res_io \<Rightarrow> string \<Rightarrow> bool \<Rightarrow> ('v, unit) resolution" where
  "revoke_resolution_assignment E ios io job_id superseded = recovering E ios (revoke_locked E io job_id superseded)"

definition apply_resolution_job ::
  "res_engine \<Rightarrow> (string \<Rightarrow> res_io) \<Rightarrow> string \<Rightarrow> (nat \<Rightarrow> res_io) \<Rightarrow> ('v, resolution_apply_outcome) resolution" where
  "apply_resolution_job E ios job_id attempts = recovering E ios (apply_locked E job_id attempts)"

definition put_resolution_candidate ::
  "res_engine \<Rightarrow> (string \<Rightarrow> res_io) \<Rightarrow> nat option \<Rightarrow> string \<Rightarrow> bytes \<Rightarrow> ('v, candidate_descriptor) resolution" where
  "put_resolution_candidate E ios failed job_id bs = recovering E ios (put_locked E failed job_id bs)"

definition materialize_resolution_legs ::
  "res_engine \<Rightarrow> (string \<Rightarrow> res_io) \<Rightarrow> (artifact_role \<Rightarrow> nat option) \<Rightarrow> string \<Rightarrow> ('v, unit) resolution" where
  "materialize_resolution_legs E ios failed job_id = recovering E ios (materialize_locked E failed job_id)"

definition answer_resolution ::
  "res_engine \<Rightarrow> (string \<Rightarrow> res_io) \<Rightarrow> res_io \<Rightarrow> human_resolution_answer \<Rightarrow> ('v, unit) resolution" where
  "answer_resolution E ios io answer = recovering E ios (answer_locked E io answer)"

definition defer_resolution :: "res_engine \<Rightarrow> (string \<Rightarrow> res_io) \<Rightarrow> res_io \<Rightarrow> string \<Rightarrow> ('v, unit) resolution" where
  "defer_resolution E ios io job_id = recovering E ios (defer_locked E io job_id)"

definition resolution_status :: "res_engine \<Rightarrow> (string \<Rightarrow> res_io) \<Rightarrow> string option \<Rightarrow> ('v, job_status list) resolution" where
  "resolution_status E ios job_id =
     recovering E ios (look (\<lambda>w. status_projection (eg_prims E) job_id (rw_store w)))"

lemmas handler_defs = prepare_resolution_job_def submit_resolution_result_def revoke_resolution_assignment_def
  apply_resolution_job_def put_resolution_candidate_def materialize_resolution_legs_def answer_resolution_def
  defer_resolution_def resolution_status_def

end
