(* ===== verification/Resolution_Safety.thy ===== *)
theory Resolution_Safety
  imports Resolution_Engine
begin

text \<open>
  What the engine of automatic resolution keeps in every run: under any interleaving with other machines that move the
  head, any tampering with candidate files, any failure of a request or a write, and a crash after any action. The
  contract \<open>crash_safe\<close> is interpreted for the operations of the engine with the invariant \<open>res_inv\<close> and the guarantee
  \<open>res_guarantee\<close>.
\<close>

section \<open>What a publication is\<close>

text \<open>
  The file map after the resolution: unchanged when no change is required, without the path for a deletion, and else with the sealed
  form of content that hashes to the candidate's hash at the path.
\<close>

definition resolved_files ::
  "res_engine \<Rightarrow> string \<Rightarrow> candidate_descriptor option \<Rightarrow> (string \<times> file_state) list \<Rightarrow> (string \<times> file_state) list \<Rightarrow> bool" where
  "resolved_files E path candidate files files' \<longleftrightarrow>
     (case candidate of
        None \<Rightarrow> files' = files
      | Some c \<Rightarrow>
          if ca_deleted c then files' = AList.delete path files
          else \<exists>bs file now. blake3_hex (eg_prims E) bs = ca_hash c \<and> sealed_state E now bs (ca_mode c) path = Inr file
            \<and> files' = AList.update path file files)"

text \<open>
  The snapshot \<open>h\<close> resolves the conflict of the job: its only parent is the snapshot the job was prepared on, where the
  conflict has the legs of the job's identity, and it differs in that conflict and the file at its path only.
\<close>

definition resolves :: "res_engine \<Rightarrow> resolution_job \<Rightarrow> resolution_result \<Rightarrow> string \<Rightarrow> bool" where
  "resolves E job result h \<longleftrightarrow>
     (\<exists>s files conflicts edit files' bundle now.
        tree_state_at E (rj_current_snapshot job) = Inr (s, files, conflicts)
        \<and> find_conflict (ci_path (rj_conflict job)) conflicts = Some edit \<and> same_legs edit (rj_conflict job)
        \<and> resolved_files E (ci_path (rj_conflict job)) (rr_candidate result) files files'
        \<and> flat_to_tree_with_conflicts (eg_prims E) files'
            (filter (\<lambda>c. ce_path c \<noteq> ci_path (rj_conflict job)) conflicts) = Inr bundle
        \<and> h = snapshot_id (eg_prims E) \<lparr>sn_root = tb_root bundle, sn_parents = [rj_current_snapshot job],
            sn_author = rj_owner job, sn_created_at_ms = now, sn_message = Some (resolve_message (ci_path (rj_conflict job)))\<rparr>)"

lemma published_resolved:
  assumes "candidate_state E io (publication_plan job result head) w = Inr state"
    and "rr_candidate result \<noteq> None \<longrightarrow> rr_outcome result = CandidateReady"
  shows "resolved_files E (ci_path (rj_conflict (ps_job job))) (rr_candidate result) files
     (published_files (publication_plan job result head) state files)"
proof (cases "rr_candidate result")
  case None
  then show ?thesis by (simp add: resolved_files_def published_files_def publication_plan_def)
next
  case (Some c)
  then have o: "rr_outcome result = CandidateReady" using assms(2) by simp
  have plan: "pl_candidate (publication_plan job result head) = Some c"
    "pl_candidate_file (publication_plan job result head) = Some (destination_path (ps_job job))"
    "pl_additional (publication_plan job result head) = []"
    "pl_identity (publication_plan job result head) = rj_conflict (ps_job job)"
    using Some o by (simp_all add: publication_plan_def)
  from assms(1) obtain bs where r: "read_candidate_file (eg_prims E) (destination_path (ps_job job)) c w = Inr bs"
    and st: "if ca_deleted c then state = None
      else \<exists>file. sealed_state E (io_clock io 1) bs (ca_mode c) (ci_path (rj_conflict (ps_job job))) = Inr file \<and> state = Some file"
    by (auto simp: candidate_state_def plan rbind_eq_Inr split: if_splits)
  have "blake3_hex (eg_prims E) bs = ca_hash c" if "\<not> ca_deleted c"
    using r that by (auto simp: read_candidate_file_def Let_def split: sum.splits if_splits)
  with st show ?thesis
    unfolding resolved_files_def Some published_files_def plan by (cases "ca_deleted c") (auto, blast)
qed

lemma plan_resolves:
  assumes "plan_resolution_publication E io (publication_plan job result (rj_current_snapshot (ps_job job))) w = Inr planned"
    and "rr_candidate result \<noteq> None \<longrightarrow> rr_outcome result = CandidateReady"
  shows "resolves E (ps_job job) result (pp_candidate_id planned) \<and> pp_expected_head planned = rj_current_snapshot (ps_job job)"
proof -
  let ?plan = "publication_plan job result (rj_current_snapshot (ps_job job))"
  have fields: "pl_identity ?plan = rj_conflict (ps_job job)" "pl_expected_head ?plan = rj_current_snapshot (ps_job job)"
    "pl_author ?plan = rj_owner (ps_job job)"
    by (simp_all add: publication_plan_def)
  from assms(1) obtain s files conflicts edit state where
    t: "tree_state_at E (rj_current_snapshot (ps_job job)) = Inr (s, files, conflicts)"
    and e: "find_conflict (ci_path (rj_conflict (ps_job job))) conflicts = Some edit" "same_legs edit (rj_conflict (ps_job job))"
    and c: "candidate_state E io ?plan w = Inr state"
    and wr: "write_snapshot E (io_reply io 3) (io_clock io 2) (published_files ?plan state files)
        (filter (\<lambda>c. ce_path c \<noteq> ci_path (rj_conflict (ps_job job))) conflicts) [rj_current_snapshot (ps_job job)] (rj_owner (ps_job job))
        (Some (resolve_message (ci_path (rj_conflict (ps_job job))))) = Inr (pp_candidate_id planned)"
    and h: "pp_expected_head planned = rj_current_snapshot (ps_job job)"
    by (auto simp: plan_resolution_publication_def rbind_eq_Inr fields)
  from wr obtain bd where
    "flat_to_tree_with_conflicts (eg_prims E) (published_files ?plan state files)
        (filter (\<lambda>c. ce_path c \<noteq> ci_path (rj_conflict (ps_job job))) conflicts) = Inr bd"
    "pp_candidate_id planned = snapshot_id (eg_prims E) \<lparr>sn_root = tb_root bd, sn_parents = [rj_current_snapshot (ps_job job)],
       sn_author = rj_owner (ps_job job), sn_created_at_ms = io_clock io 2,
       sn_message = Some (resolve_message (ci_path (rj_conflict (ps_job job))))\<rparr>"
    by (auto simp: write_snapshot_def rbind_eq_Inr split: sum.splits)
  with t e published_resolved [OF c assms(2)] h show ?thesis unfolding resolves_def by blast
qed

section \<open>Invariant and guarantee\<close>

definition applicable :: "resolution_result \<Rightarrow> bool" where
  "applicable result \<longleftrightarrow> rr_outcome result \<in> {CandidateReady, NoChangeRequired}"

definition published_as :: "res_engine \<Rightarrow> string list \<Rightarrow> resolution_job \<Rightarrow> resolution_result \<Rightarrow> bool" where
  "published_as E log job result \<longleftrightarrow> (\<exists>h\<in>set log. resolves E job result h)"

definition record_inv :: "res_engine \<Rightarrow> (string \<times> journal_file) list \<Rightarrow> string list \<Rightarrow> persisted_job \<Rightarrow> bool" where
  "record_inv E journals log r \<longleftrightarrow> check_record (eg_prims E) r = Inr ()
     \<and> (ps_state r = RsUncertain \<longrightarrow> (\<exists>result. ps_result r = Some result \<and> applicable result
        \<and> (\<forall>j. map_of journals (rj_job_id (ps_job r)) = Some (JournalOk j) \<longrightarrow> resolves E (ps_job r) result (jn_planned_head j))))
     \<and> (ps_state r = RsCompleted \<longrightarrow> (\<exists>result. ps_result r = Some result \<and> applicable result \<and> published_as E log (ps_job r) result))"

definition ids_of :: "persisted_job list \<Rightarrow> string list" where
  "ids_of jobs = map (\<lambda>r. rj_job_id (ps_job r)) jobs"

text \<open>The entries that completed publications make in the history of the database.\<close>

definition candidate_history :: "'v local_state \<Rightarrow> conflict_resolution_v1 list" where
  "candidate_history db = filter (\<lambda>e. res_method e = Candidate) (conflict_resolutions db)"

definition history_key :: "conflict_resolution_v1 \<Rightarrow> string \<times> string \<times> string option" where
  "history_key e = (res_path e, res_resolver e, res_source_file_hash e)"

definition history_inv :: "res_engine \<Rightarrow> string list \<Rightarrow> 'v local_state \<Rightarrow> bool" where
  "history_inv E log db \<longleftrightarrow> distinct (map history_key (candidate_history db))
     \<and> (\<forall>e\<in>set (candidate_history db). \<exists>job result. published_as E log job result \<and> res_path e = ci_path (rj_conflict job)
          \<and> res_resolver e = rj_owner job \<and> res_source_file_hash e = published_hash result)"

text \<open>A store as a write leaves it: under the current schema, and beyond its bound only with live records.\<close>

definition trimmed :: "persisted_job list \<Rightarrow> bool" where
  "trimmed jobs \<longleftrightarrow> (resolution_max_jobs < length jobs \<longrightarrow> (\<forall>r\<in>set jobs. live_job r))"

definition res_inv :: "res_engine \<Rightarrow> 'v res_world \<Rightarrow> bool" where
  "res_inv E w \<longleftrightarrow> rs_schema_version (rw_store w) = resolution_store_schema_version \<and> trimmed (rs_jobs (rw_store w))
     \<and> distinct (ids_of (rs_jobs (rw_store w)))
     \<and> (\<forall>r\<in>set (rs_jobs (rw_store w)). record_inv E (rw_journals w) (rw_head_log w) r)
     \<and> (\<forall>h. rw_head w = Some h \<longrightarrow> h \<in> set (rw_head_log w))
     \<and> history_inv E (rw_head_log w) (rw_db w)"

text \<open>
  Another machine's assignment is stored without the sync lock, so it may arrive between any two actions of an operation. The write of
  the state file itself is exclusive.
\<close>

definition import_step :: "prims \<Rightarrow> resolution_state_file \<Rightarrow> resolution_state_file \<Rightarrow> bool" where
  "import_step P st st' \<longleftrightarrow> (\<exists>now job. validate_resolution_job P job = Inr () \<and> resolution_changed (import_job now job) st = Inr st')"

text \<open>
  The rest of the system: other machines move the head; assignments arrive; other programs of this machine change the database, but do not
  write history entries of candidates; anyone may tamper with candidate files and artifacts.
\<close>

definition res_rely :: "res_engine \<Rightarrow> 'v res_world \<Rightarrow> 'v res_world \<Rightarrow> bool" where
  "res_rely E w w' \<longleftrightarrow> (import_step (eg_prims E))\<^sup>*\<^sup>* (rw_store w) (rw_store w')
     \<and> rw_journals w' = rw_journals w \<and> rw_job_files w' = rw_job_files w
     \<and> candidate_history (rw_db w') = candidate_history (rw_db w)
     \<and> set (rw_head_log w) \<subseteq> set (rw_head_log w')
     \<and> (rw_head w' = rw_head w \<or> (\<forall>h. rw_head w' = Some h \<longrightarrow> h \<in> set (rw_head_log w')))"

text \<open>
  How the records may change: one only along the transitions, and a terminal one not at all; a record disappears when it is terminal, or
  when the store was over its bound; and a new one is active.
\<close>

definition record_step :: "persisted_job \<Rightarrow> persisted_job \<Rightarrow> bool" where
  "record_step r r' \<longleftrightarrow> ps_job r' = ps_job r
     \<and> (r' = r \<or> assert_state_transition (ps_state r) (ps_state r') = Inr ())"

definition jobs_step :: "persisted_job list \<Rightarrow> persisted_job list \<Rightarrow> bool" where
  "jobs_step jobs jobs' \<longleftrightarrow>
     (\<forall>r\<in>set jobs. (\<exists>r'\<in>set jobs'. record_step r r')
        \<or> (assignment_terminal (ps_state r) \<or> resolution_max_jobs < length jobs) \<and> rj_job_id (ps_job r) \<notin> set (ids_of jobs'))
     \<and> (\<forall>r'\<in>set jobs'. (\<exists>r\<in>set jobs. record_step r r') \<or> ps_state r' = RsActive \<and> ps_result r' = None)"

text \<open>An uncertain record whose publication is the reason of an action.\<close>

definition because :: "res_engine \<Rightarrow> 'v res_world \<Rightarrow> (persisted_job \<Rightarrow> resolution_result \<Rightarrow> bool) \<Rightarrow> bool" where
  "because E w p \<longleftrightarrow> (\<exists>r\<in>set (rs_jobs (rw_store w)). \<exists>result. ps_state r = RsUncertain \<and> ps_result r = Some result
     \<and> applicable result \<and> p r result)"

definition head_step :: "res_engine \<Rightarrow> 'v res_world \<Rightarrow> 'v res_world \<Rightarrow> bool" where
  "head_step E w w' \<longleftrightarrow> rw_head w' = rw_head w \<and> rw_head_log w' = rw_head_log w
     \<or> because E w (\<lambda>r result. rw_head w = Some (rj_current_snapshot (ps_job r))
          \<and> (\<exists>h. rw_head w' = Some h \<and> rw_head_log w' = h # rw_head_log w \<and> resolves E (ps_job r) result h))"

definition db_step :: "res_engine \<Rightarrow> 'v res_world \<Rightarrow> 'v res_world \<Rightarrow> bool" where
  "db_step E w w' \<longleftrightarrow> rw_db w' = rw_db w
     \<or> because E w (\<lambda>r result. published_as E (rw_head_log w) (ps_job r) result
          \<and> (rw_db w' = remove_record (ci_path (rj_conflict (ps_job r))) (rw_db w)
             \<or> (\<exists>e. rw_db w' = push_resolution e (rw_db w) \<and> res_path e = ci_path (rj_conflict (ps_job r)))))"

definition res_guarantee :: "res_engine \<Rightarrow> 'v res_world \<Rightarrow> 'v res_world \<Rightarrow> bool" where
  "res_guarantee E w w' \<longleftrightarrow> jobs_step (rs_jobs (rw_store w)) (rs_jobs (rw_store w')) \<and> head_step E w w' \<and> db_step E w w'"

section \<open>Eviction\<close>

lemma mset_filter_split: "mset (filter p xs) + mset (filter (\<lambda>x. \<not> p x) xs) = mset xs"
  by simp

lemma trim_jobs_keeps_live: "r \<in> set jobs \<Longrightarrow> live_job r \<Longrightarrow> r \<in> set (trim_jobs jobs)"
  by (auto simp: trim_jobs_def Let_def)

lemma trim_jobs_subset: "set (trim_jobs jobs) \<subseteq> set jobs"
  by (auto simp: trim_jobs_def Let_def live_job_def dest: in_set_takeD)

lemma distinct_map_take: "distinct (map f xs) \<Longrightarrow> distinct (map f (take n xs))"
  by (simp add: take_map [symmetric])

lemma trim_jobs_distinct:
  assumes "distinct (ids_of jobs)"
  shows "distinct (ids_of (trim_jobs jobs))"
proof -
  define sorted_terminal where "sorted_terminal =
    rev (sort_key (\<lambda>r. sint (ps_created_at_ms r)) (filter (\<lambda>r. assignment_terminal (ps_state r)) jobs))"
  let ?id = "\<lambda>r. rj_job_id (ps_job r)"
  have inj: "inj_on ?id (set jobs)" and d: "distinct jobs"
    using assms by (auto simp: ids_of_def distinct_map)
  have "distinct sorted_terminal" "set sorted_terminal \<subseteq> set jobs" "\<forall>r\<in>set sorted_terminal. \<not> live_job r"
    using d by (auto simp: sorted_terminal_def live_job_def)
  then have "distinct (map ?id (filter live_job jobs @ take n sorted_terminal))" for n
    using d by (auto simp: distinct_map intro: inj_on_subset [OF inj] dest!: in_set_takeD inj_onD [OF inj])
  then show ?thesis
    using assms unfolding trim_jobs_def Let_def ids_of_def by (simp add: sorted_terminal_def [symmetric] del: map_append)
qed

lemma trim_jobs_bounded: "length (trim_jobs jobs) \<le> max resolution_max_jobs (length (filter live_job jobs))"
proof (cases "length jobs \<le> resolution_max_jobs")
  case False
  have eq: "length (filter live_job jobs) + length (filter (\<lambda>r. assignment_terminal (ps_state r)) jobs) = length jobs"
    using sum_length_filter_compl [of live_job jobs] by (simp add: live_job_def)
  with False show ?thesis by (simp add: trim_jobs_def Let_def)
qed (simp add: trim_jobs_def)

lemma trim_evicts:
  assumes "distinct (ids_of jobs)" and "r \<in> set jobs" and "r \<notin> set (trim_jobs jobs)"
  shows "assignment_terminal (ps_state r) \<and> resolution_max_jobs < length jobs \<and> rj_job_id (ps_job r) \<notin> set (ids_of (trim_jobs jobs))"
proof -
  have "assignment_terminal (ps_state r)" using assms(2,3) trim_jobs_keeps_live by (auto simp: live_job_def)
  moreover have "resolution_max_jobs < length jobs" using assms(2,3) by (auto simp: trim_jobs_def not_le split: if_splits)
  moreover have "rj_job_id (ps_job r) \<notin> set (ids_of (trim_jobs jobs))"
    using assms trim_jobs_subset [of jobs] by (auto simp: ids_of_def distinct_map dest: inj_onD)
  ultimately show ?thesis by blast
qed

lemma find_job_split:
  assumes "distinct (ids_of (us @ r # vs))"
  shows "find_job (rj_job_id (ps_job r)) (us @ r # vs) = Some r"
  using assms by (induction us) (auto simp: find_job_def ids_of_def)

lemma find_job_Some: "find_job job_id jobs = Some r \<Longrightarrow> r \<in> set jobs \<and> rj_job_id (ps_job r) = job_id"
  unfolding find_job_def by (induction jobs) (auto split: if_splits)

lemma trim_jobs_trimmed: "trimmed (trim_jobs jobs)"
proof (cases "length jobs \<le> resolution_max_jobs")
  case False
  have eq: "length (filter live_job jobs) + length (filter (\<lambda>r. assignment_terminal (ps_state r)) jobs) = length jobs"
    using sum_length_filter_compl [of live_job jobs] by (simp add: live_job_def)
  show ?thesis
  proof (cases "length (filter live_job jobs) < resolution_max_jobs")
    case True
    with trim_jobs_bounded [of jobs] show ?thesis by (simp add: trimmed_def)
  next
    case less: False
    with False eq have "trim_jobs jobs = filter live_job jobs" by (simp add: trim_jobs_def Let_def)
    then show ?thesis by (simp add: trimmed_def)
  qed
qed (simp add: trim_jobs_def trimmed_def)

section \<open>Stability\<close>

lemma published_as_mono: "published_as E log job result \<Longrightarrow> set log \<subseteq> set log' \<Longrightarrow> published_as E log' job result"
  by (auto simp: published_as_def)

lemma record_inv_mono: "record_inv E js log r \<Longrightarrow> set log \<subseteq> set log' \<Longrightarrow> record_inv E js log' r"
  by (auto simp: record_inv_def intro: published_as_mono)

lemma history_inv_mono:
  "history_inv E log db \<Longrightarrow> set log \<subseteq> set log' \<Longrightarrow> candidate_history db' = candidate_history db \<Longrightarrow> history_inv E log' db'"
  by (fastforce simp: history_inv_def intro: published_as_mono)

lemma res_rely_refl: "res_rely E w w"
  by (simp add: res_rely_def)

lemma res_rely_trans: "res_rely E w w' \<Longrightarrow> res_rely E w' w'' \<Longrightarrow> res_rely E w w''"
  unfolding res_rely_def by (auto intro: rtranclp_trans)

text \<open>What an import leaves of the records: the live ones, and nothing new but valid active ones without a result.\<close>

definition imports_only :: "prims \<Rightarrow> persisted_job list \<Rightarrow> persisted_job list \<Rightarrow> bool" where
  "imports_only P jobs jobs' \<longleftrightarrow> distinct (ids_of jobs') \<and> trimmed jobs' \<and> (\<forall>r\<in>set jobs. live_job r \<longrightarrow> r \<in> set jobs')
     \<and> (\<forall>r\<in>set jobs'. r \<in> set jobs \<or> ps_state r = RsActive \<and> ps_result r = None \<and> check_record P r = Inr ())"

lemma check_active [simp]: "check_record P (active_record now job) = contract (validate_resolution_job P job)"
  by (cases "validate_resolution_job P job") (simp_all add: check_record_def active_record_def contract_def)

lemma import_step_only:
  assumes "import_step P st st'" and "distinct (ids_of (rs_jobs st))"
  shows "imports_only P (rs_jobs st) (rs_jobs st') \<and> rs_schema_version st' = resolution_store_schema_version"
proof -
  from assms(1) obtain now job jobs where job: "validate_resolution_job P job = Inr ()" "import_job now job (rs_jobs st) = Inr jobs"
    "st' = \<lparr>rs_schema_version = resolution_store_schema_version, rs_jobs = trim_jobs jobs\<rparr>"
    by (auto simp: import_step_def resolution_changed_def rbind_eq_Inr)
  have jobs: "jobs = rs_jobs st \<or> jobs = rs_jobs st @ [active_record now job] \<and> rj_job_id job \<notin> set (ids_of (rs_jobs st))"
    using job(2) by (auto simp: import_job_def list_ex_iff ids_of_def split: if_splits)
  then have "distinct (ids_of jobs)" using assms(2) by (auto simp: ids_of_def active_record_def)
  then have "distinct (ids_of (trim_jobs jobs))" by (rule trim_jobs_distinct)
  moreover have "r \<in> set (trim_jobs jobs)" if "r \<in> set (rs_jobs st)" "live_job r" for r
    by (rule trim_jobs_keeps_live) (use that jobs in auto)
  moreover have "r \<in> set (rs_jobs st) \<or> ps_state r = RsActive \<and> ps_result r = None \<and> check_record P r = Inr ()" if "r \<in> set (trim_jobs jobs)" for r
  proof -
    have "r \<in> set jobs" using that trim_jobs_subset by blast
    with jobs consider "r \<in> set (rs_jobs st)" | "r = active_record now job" by auto
    then show ?thesis by cases (use job(1) in \<open>simp_all add: active_record_def [of now job] check_active [of P now job, unfolded active_record_def]\<close>)
  qed
  ultimately show ?thesis using trim_jobs_trimmed by (simp add: imports_only_def job(3))
qed

lemma imports_only_trans:
  "imports_only P a b \<Longrightarrow> imports_only P b c \<Longrightarrow> imports_only P a c"
  unfolding imports_only_def by blast

lemma imports_keep:
  assumes "(import_step P)\<^sup>*\<^sup>* st st'" and "distinct (ids_of (rs_jobs st))" and "trimmed (rs_jobs st)"
    and "rs_schema_version st = resolution_store_schema_version"
  shows "imports_only P (rs_jobs st) (rs_jobs st') \<and> rs_schema_version st' = resolution_store_schema_version"
  using assms(1)
proof induction
  case base
  show ?case using assms(2-4) by (simp add: imports_only_def)
next
  case (step st' st'')
  then have "distinct (ids_of (rs_jobs st'))" by (simp add: imports_only_def)
  with import_step_only [OF step.hyps(2)] step.IH imports_only_trans show ?case by blast
qed

lemma rely_jobs:
  "res_inv E w \<Longrightarrow> res_rely E w w' \<Longrightarrow> imports_only (eg_prims E) (rs_jobs (rw_store w)) (rs_jobs (rw_store w'))
     \<and> rs_schema_version (rw_store w') = resolution_store_schema_version"
  by (intro imports_keep) (simp_all add: res_inv_def res_rely_def)

lemma res_inv_stable:
  assumes "res_inv E w" and "res_rely E w w'"
  shows "res_inv E w'"
proof -
  note jobs = rely_jobs [OF assms]
  have "record_inv E (rw_journals w') (rw_head_log w') r" if "r \<in> set (rs_jobs (rw_store w'))" for r
  proof (cases "r \<in> set (rs_jobs (rw_store w))")
    case True
    with assms show ?thesis by (auto simp: res_inv_def res_rely_def intro: record_inv_mono)
  next
    case False
    with that jobs show ?thesis by (auto simp: imports_only_def record_inv_def)
  qed
  with jobs assms show ?thesis
    by (auto simp: res_inv_def res_rely_def imports_only_def intro: history_inv_mono)
qed

lemma find_job_eq:
  assumes "distinct (ids_of jobs)"
  shows "find_job job_id jobs = Some r \<longleftrightarrow> r \<in> set jobs \<and> rj_job_id (ps_job r) = job_id"
  using find_job_Some [of job_id jobs r] find_job_split assms by (metis split_list)

text \<open>A live record is found unchanged; one that has a result or is not active was there before.\<close>

lemma rely_find_live:
  assumes "res_inv E w" and "res_rely E w w'" and "find_job job_id (rs_jobs (rw_store w)) = Some r" and "live_job r"
  shows "find_job job_id (rs_jobs (rw_store w')) = Some r"
  using assms rely_jobs [OF assms(1,2)] by (auto simp: find_job_eq res_inv_def imports_only_def)

lemma rely_found_old:
  assumes "res_inv E w" and "res_rely E w w'" and "find_job job_id (rs_jobs (rw_store w')) = Some r"
    and "ps_result r \<noteq> None \<or> ps_state r \<noteq> RsActive"
  shows "find_job job_id (rs_jobs (rw_store w)) = Some r"
  using assms rely_jobs [OF assms(1,2)] by (auto simp: find_job_eq res_inv_def imports_only_def)

lemma live_states [simp]: "ps_state r = RsActive \<Longrightarrow> live_job r" "ps_state r = RsUncertain \<Longrightarrow> live_job r"
  by (simp_all add: live_job_def assignment_terminal_def)

lemma record_step_refl [simp]: "record_step r r"
  by (simp add: record_step_def)

lemma jobs_step_refl [simp]: "jobs_step jobs jobs"
  unfolding jobs_step_def using record_step_refl by blast

lemma res_guarantee_refl [simp]: "res_guarantee E w w"
  by (simp add: res_guarantee_def head_step_def db_step_def)

abbreviation rsafe :: "res_engine \<Rightarrow> ('v, 'a) resolution \<Rightarrow> (engine_error + 'a \<Rightarrow> 'v res_world \<Rightarrow> bool) \<Rightarrow> 'v res_world \<Rightarrow> bool" where
  "rsafe E \<equiv> safe (res_rely E) (res_guarantee E) (res_inv E)"

lemmas rsafe_look = safe_look [of "res_guarantee E" for E, OF res_guarantee_refl]

text \<open>An action that keeps guarantee and invariant from a world.\<close>

definition stays :: "res_engine \<Rightarrow> ('v res_world \<Rightarrow> 'r \<times> 'v res_world) \<Rightarrow> 'v res_world \<Rightarrow> bool" where
  "stays E f w \<longleftrightarrow> res_guarantee E w (snd (f w)) \<and> res_inv E (snd (f w))"

lemma rsafe_action:
  assumes "res_inv E w"
    and "\<And>w'. res_rely E w w' \<Longrightarrow> res_inv E w' \<Longrightarrow> stays E f w' \<and> Q (fst (f w')) (snd (f w'))"
  shows "rsafe E (act f) Q w"
  using assms res_inv_stable by (fastforce simp: safe_act stays_def)

lemma rsafe_seq:
  assumes "res_inv E w" and "\<And>w'. res_rely E w w' \<Longrightarrow> res_inv E w' \<Longrightarrow> stays E f w'"
    and "\<And>w' e. res_rely E w w' \<Longrightarrow> res_inv E w' \<Longrightarrow> fst (f w') = Inl e \<Longrightarrow> Q (Inl e) (snd (f w'))"
    and "\<And>w' x. res_rely E w w' \<Longrightarrow> res_inv E w' \<Longrightarrow> res_inv E (snd (f w')) \<Longrightarrow> fst (f w') = Inr x \<Longrightarrow> rsafe E (k x) Q (snd (f w'))"
  shows "rsafe E (pbind (act f) k) Q w"
  by (rule safe_pbind, rule rsafe_action [OF assms(1)]) (use assms(2-4) in \<open>auto simp: stays_def split: sum.splits\<close>)

lemma rsafe_read:
  assumes "res_inv E w"
    and "\<And>w' e. res_rely E w w' \<Longrightarrow> res_inv E w' \<Longrightarrow> f w' = Inl e \<Longrightarrow> Q (Inl e) w'"
    and "\<And>w' x. res_rely E w w' \<Longrightarrow> res_inv E w' \<Longrightarrow> f w' = Inr x \<Longrightarrow> rsafe E (k x) Q w'"
  shows "rsafe E (pbind (look f) k) Q w"
proof -
  have "res_inv E w'" if "res_rely E w w'" for w' using res_inv_stable [OF assms(1) that] .
  then show ?thesis by (intro safe_pbind) (use assms(2,3) in \<open>auto simp: rsafe_look split: sum.splits\<close>)
qed

lemma rsafe_try:
  fixes f :: "'v res_world \<Rightarrow> (engine_error + 'a) \<times> 'v res_world"
  assumes "res_inv E w" and "\<And>w'. res_rely E w w' \<Longrightarrow> res_inv E w' \<Longrightarrow> stays E f w'"
    and "\<And>w'. res_rely E w w' \<Longrightarrow> res_inv E w' \<Longrightarrow> res_inv E (snd (f w')) \<Longrightarrow> rsafe E (k (fst (f w'))) Q (snd (f w'))"
  shows "rsafe E (ptry (act f) k) Q w"
  by (rule safe_ptry, rule rsafe_action [OF assms(1)]) (use assms(2,3) in \<open>auto simp: stays_def\<close>)

section \<open>Writes of the store\<close>

text \<open>A change of one record, with the eviction that follows.\<close>

lemma modify_step:
  assumes "distinct (ids_of (us @ r # vs))" and "record_step r r'"
  shows "jobs_step (us @ r # vs) (trim_jobs (us @ r' # vs))" and "distinct (ids_of (us @ r' # vs))"
proof -
  let ?old = "us @ r # vs" and ?new = "us @ r' # vs"
  have same: "ids_of ?new = ids_of ?old" using assms(2) by (simp add: ids_of_def record_step_def)
  then show d: "distinct (ids_of ?new)" using assms(1) by simp
  have len: "length ?new = length ?old" by simp
  show "jobs_step ?old (trim_jobs ?new)"
    unfolding jobs_step_def
  proof (intro conjI ballI)
    fix x assume x: "x \<in> set ?old"
    define y where "y = (if x = r then r' else x)"
    have y: "y \<in> set ?new" "record_step x y" using x assms(2) by (auto simp: y_def)
    have "rj_job_id (ps_job y) = rj_job_id (ps_job x)" using y(2) by (simp add: record_step_def)
    moreover have "y = x \<or> x = r" by (simp add: y_def)
    ultimately show "(\<exists>z\<in>set (trim_jobs ?new). record_step x z)
       \<or> (assignment_terminal (ps_state x) \<or> resolution_max_jobs < length ?old) \<and> rj_job_id (ps_job x) \<notin> set (ids_of (trim_jobs ?new))"
      using y trim_evicts [OF d y(1)] len by metis
  next
    fix y assume "y \<in> set (trim_jobs ?new)"
    then have "y \<in> set ?new" using trim_jobs_subset by blast
    then show "(\<exists>x\<in>set ?old. record_step x y) \<or> ps_state y = RsActive \<and> ps_result y = None"
      using assms(2) by (auto intro: record_step_refl)
  qed
qed

lemma push_step:
  assumes "distinct (ids_of (jobs @ [n]))" and "ps_state n = RsActive" and "ps_result n = None"
  shows "jobs_step jobs (trim_jobs (jobs @ [n]))"
  unfolding jobs_step_def
proof (intro conjI ballI)
  fix x assume "x \<in> set jobs"
  then show "(\<exists>z\<in>set (trim_jobs (jobs @ [n])). record_step x z)
     \<or> (assignment_terminal (ps_state x) \<or> resolution_max_jobs < length jobs) \<and> rj_job_id (ps_job x) \<notin> set (ids_of (trim_jobs (jobs @ [n])))"
    using trim_evicts [OF assms(1), of x] record_step_refl [of x] by (cases "x \<in> set (trim_jobs (jobs @ [n]))") (blast, auto)
next
  fix y assume "y \<in> set (trim_jobs (jobs @ [n]))"
  then have "y \<in> set jobs \<or> y = n" using trim_jobs_subset [of "jobs @ [n]"] by auto
  then show "(\<exists>x\<in>set jobs. record_step x y) \<or> ps_state y = RsActive \<and> ps_result y = None"
    using assms(2,3) by (auto intro: record_step_refl)
qed

lemma modify_job_Inr:
  "modify_job job_id f jobs = Inr jobs' \<Longrightarrow>
     \<exists>us r vs r'. jobs = us @ r # vs \<and> rj_job_id (ps_job r) = job_id \<and> f r = Inr r' \<and> jobs' = us @ r' # vs"
proof (induction jobs arbitrary: jobs')
  case (Cons a jobs)
  show ?case
  proof (cases "rj_job_id (ps_job a) = job_id")
    case True
    with Cons.prems obtain r' where "f a = Inr r'" "jobs' = r' # jobs" by (auto simp: rbind_eq_Inr)
    with True show ?thesis by (metis append_Nil)
  next
    case False
    with Cons.prems obtain rest where "modify_job job_id f jobs = Inr rest" "jobs' = a # rest" by (auto simp: rbind_eq_Inr)
    with Cons.IH show ?thesis by (metis append_Cons)
  qed
qed simp

lemma load_job_Inr:
  "load_job P job_id st = Inr r \<longleftrightarrow> resolution_load P st = Inr st \<and> find_job job_id (rs_jobs st) = Some r"
  by (auto simp: load_job_def resolution_load_def rbind_eq_Inr)

lemma loaded_valid:
  "resolution_load P st = Inr st \<Longrightarrow> r \<in> set (rs_jobs st) \<Longrightarrow> validate_resolution_job P (ps_job r) = Inr ()
     \<and> (\<forall>result. ps_result r = Some result \<longrightarrow> validate_resolution_result P result = Inr ())"
  by (auto simp: resolution_load_def rbind_eq_Inr for_each_eq_Inr check_record_def split: option.splits)

lemma store_write_cases:
  obtains "snd (store_write P c f w) = w"
  | jobs where "f (rs_jobs (rw_store w)) = Inr jobs"
      "snd (store_write P c f w) = w\<lparr>rw_store := \<lparr>rs_schema_version = resolution_store_schema_version, rs_jobs = trim_jobs jobs\<rparr>\<rparr>"
proof (cases "resolution_changed f (rw_store w)")
  case (Inl e)
  with that(1) show ?thesis by (simp add: store_write_def)
next
  case (Inr st)
  then obtain jobs where "f (rs_jobs (rw_store w)) = Inr jobs"
    "st = \<lparr>rs_schema_version = resolution_store_schema_version, rs_jobs = trim_jobs jobs\<rparr>"
    by (auto simp: resolution_changed_def rbind_eq_Inr)
  with that Inr show ?thesis by (cases c) (simp_all add: store_write_def)
qed

lemma store_write_safe:
  assumes "res_inv E w"
    and "\<And>jobs. f (rs_jobs (rw_store w)) = Inr jobs \<Longrightarrow> distinct (ids_of jobs)
        \<and> jobs_step (rs_jobs (rw_store w)) (trim_jobs jobs) \<and> (\<forall>r\<in>set jobs. record_inv E (rw_journals w) (rw_head_log w) r)"
  shows "stays E (store_write P c f) w"
proof (cases rule: store_write_cases [of P c f w])
  case (2 jobs)
  with assms trim_jobs_subset [of jobs] trim_jobs_distinct [of jobs] trim_jobs_trimmed [of jobs] show ?thesis
    by (auto simp: stays_def res_inv_def res_guarantee_def head_step_def db_step_def)
qed (use assms(1) in \<open>simp add: stays_def\<close>)

text \<open>The usual case: one record is changed.\<close>

lemma modify_safe:
  assumes "res_inv E w"
    and "\<And>r r'. r \<in> set (rs_jobs (rw_store w)) \<Longrightarrow> find_job job_id (rs_jobs (rw_store w)) = Some r \<Longrightarrow> f r = Inr r'
        \<Longrightarrow> record_inv E (rw_journals w) (rw_head_log w) r \<Longrightarrow> record_step r r' \<and> record_inv E (rw_journals w) (rw_head_log w) r'"
  shows "stays E (store_write P c (modify_job job_id f)) w"
proof (rule store_write_safe [OF assms(1)])
  fix jobs assume "modify_job job_id f (rs_jobs (rw_store w)) = Inr jobs"
  from modify_job_Inr [OF this] obtain us r vs r' where split: "rs_jobs (rw_store w) = us @ r # vs" "rj_job_id (ps_job r) = job_id"
    "f r = Inr r'" "jobs = us @ r' # vs" by blast
  have d: "distinct (ids_of (us @ r # vs))" and inv: "\<forall>r\<in>set (us @ r # vs). record_inv E (rw_journals w) (rw_head_log w) r"
    using assms(1) by (simp_all add: res_inv_def split)
  have "find_job job_id (rs_jobs (rw_store w)) = Some r" using find_job_split [OF d] by (simp add: split)
  with assms(2) [of r r'] split inv have s: "record_step r r'" "record_inv E (rw_journals w) (rw_head_log w) r'" by auto
  show "distinct (ids_of jobs) \<and> jobs_step (rs_jobs (rw_store w)) (trim_jobs jobs)
     \<and> (\<forall>r\<in>set jobs. record_inv E (rw_journals w) (rw_head_log w) r)"
    using modify_step [OF d s(1)] inv s(2) by (auto simp: split)
qed

section \<open>Actions of a publication\<close>

text \<open>A record leaves the uncertain state, or another one is entered, without a claim on the journals.\<close>

lemma set_state_Inr: "set_state to r = Inr r' \<longleftrightarrow> assert_state_transition (ps_state r) to = Inr () \<and> r' = r\<lparr>ps_state := to\<rparr>"
  by (auto simp: set_state_def rbind_eq_Inr)

lemma transition_from: "assert_state_transition a b = Inr () \<Longrightarrow> a = RsActive \<or> a = RsUncertain"
  by (auto simp: assert_state_transition_def)

lemma check_record_state [simp]: "check_record P (r\<lparr>ps_state := s\<rparr>) = check_record P r"
  by (simp add: check_record_def)

lemma record_inv_set:
  "record_inv E js log r \<Longrightarrow> to \<noteq> RsUncertain \<Longrightarrow> to \<noteq> RsCompleted \<Longrightarrow> record_inv E js log (r\<lparr>ps_state := to\<rparr>)"
  by (simp add: record_inv_def)

lemma record_inv_plain:
  "check_record (eg_prims E) r = Inr () \<Longrightarrow> ps_state r \<noteq> RsUncertain \<Longrightarrow> ps_state r \<noteq> RsCompleted \<Longrightarrow> record_inv E js log r"
  by (simp add: record_inv_def)

lemma mark_plain_safe:
  assumes "res_inv E w" and "to \<noteq> RsUncertain" and "to \<noteq> RsCompleted"
  shows "stays E (mark_state E c job_id to) w"
  unfolding mark_state_def
  by (rule modify_safe [OF assms(1)]) (use assms(2,3) in \<open>auto simp: set_state_Inr record_step_def intro: record_inv_set\<close>)

lemma record_inv_delete: "record_inv E js log r \<Longrightarrow> record_inv E (AList.delete k js) log r"
  by (auto simp: record_inv_def delete_conv' split: if_splits)

lemma drop_journal_safe:
  "res_inv E w \<Longrightarrow> stays E (drop_journal ok job_id) w"
  by (auto simp: stays_def drop_journal_def remove_journal_def res_inv_def res_guarantee_def head_step_def db_step_def intro: record_inv_delete)

lemma remove_job_dir_safe:
  "res_inv E w \<Longrightarrow> stays E (\<lambda>w. (r, remove_job_dir ok job_id w)) w"
  by (auto simp: stays_def remove_job_dir_def res_inv_def res_guarantee_def head_step_def db_step_def intro: record_inv_delete)

lemma revert_safe: "res_inv E w \<Longrightarrow> rsafe E (revert_publication E io job_id e) (\<lambda>r _. r = Inl e) w"
  unfolding revert_publication_def
proof (rule rsafe_seq)
  fix w' assume "res_inv E (snd (drop_journal (io_reply io 4) job_id w'))"
  then show "rsafe E (ptry (act (mark_state E (io_commit io 2) job_id RsActive)) (\<lambda>_. Done (Inl e))) (\<lambda>r _. r = Inl e)
      (snd (drop_journal (io_reply io 4) job_id w'))"
    by (rule rsafe_try) (simp_all add: mark_plain_safe)
qed (auto simp: drop_journal_safe drop_journal_def)

text \<open>The journal of an active job is written for what the plan resolves; that is what makes the uncertain record justified.\<close>

lemma write_journal_safe:
  assumes "res_inv E w" and "\<forall>r\<in>set (rs_jobs (rw_store w)). rj_job_id (ps_job r) = job_id \<longrightarrow> ps_state r \<noteq> RsUncertain"
  shows "stays E (write_publication_journal E c job_id j) w"
proof -
  have "res_inv E (w\<lparr>rw_journals := AList.update job_id (JournalOk j) (rw_journals w)\<rparr>)"
    using assms by (auto simp: res_inv_def record_inv_def update_conv')
  then show ?thesis
    using assms(1) by (cases c) (auto simp: stays_def write_publication_journal_def write_file_def res_guarantee_def
        head_step_def db_step_def)
qed

lemma write_journal_Inr:
  "fst (write_publication_journal E c job_id j w) = Inr () \<Longrightarrow>
     snd (write_publication_journal E c job_id j w) = w\<lparr>rw_journals := AList.update job_id (JournalOk j) (rw_journals w)\<rparr>"
  by (cases c) (auto simp: write_publication_journal_def write_file_def split: if_splits)

lemma mark_uncertain_safe:
  assumes "res_inv E w" and "find_job job_id (rs_jobs (rw_store w)) = Some r" and "ps_result r = Some result" and "applicable result"
    and "map_of (rw_journals w) job_id = Some (JournalOk j)" and "resolves E (ps_job r) result (jn_planned_head j)"
  shows "stays E (mark_state E c job_id RsUncertain) w"
  unfolding mark_state_def
proof (rule modify_safe [OF assms(1)])
  fix x x' assume "find_job job_id (rs_jobs (rw_store w)) = Some x" "set_state RsUncertain x = Inr x'"
    "record_inv E (rw_journals w) (rw_head_log w) x"
  moreover have "rj_job_id (ps_job r) = job_id" using find_job_Some [OF assms(2)] by blast
  ultimately show "record_step x x' \<and> record_inv E (rw_journals w) (rw_head_log w) x'"
    using assms(2-6) by (auto simp: set_state_Inr record_step_def record_inv_def)
qed

text \<open>The store after a successful write holds the changed record, unless it was over its bound and the record is terminal.\<close>

lemma modify_job_finds:
  assumes "modify_job job_id f jobs = Inr jobs'" and "distinct (ids_of jobs)" and "\<And>r r'. f r = Inr r' \<Longrightarrow> record_step r r'"
    and "find_job job_id jobs = Some r" and "f r = Inr r'" and "live_job r'"
  shows "find_job job_id (trim_jobs jobs') = Some r'"
proof -
  from modify_job_Inr [OF assms(1)] obtain us x vs x' where split: "jobs = us @ x # vs" "rj_job_id (ps_job x) = job_id"
    "f x = Inr x'" "jobs' = us @ x' # vs" by blast
  have "x = r" using find_job_split [of us x vs] assms(2,4) split by simp
  with split assms(5) have x': "x' = r'" by simp
  have step: "record_step x x'" using assms(3) split(3) by blast
  note d = modify_step(2) [OF assms(2) [unfolded split(1)] step]
  have "r' \<in> set (trim_jobs jobs')" using trim_jobs_keeps_live [of r' jobs'] assms(6) by (simp add: split x')
  then obtain as bs where t: "trim_jobs jobs' = as @ r' # bs" by (meson split_list)
  have "rj_job_id (ps_job r') = job_id" using step split(2) x' by (simp add: record_step_def)
  with find_job_split [of as r' bs] trim_jobs_distinct [OF d] show ?thesis
    by (simp add: t [unfolded split(4)] split(4))
qed

lemma mark_uncertain_Inr:
  assumes "fst (mark_state E c job_id RsUncertain w) = Inr ()" and "res_inv E w" and "find_job job_id (rs_jobs (rw_store w)) = Some r"
  shows "\<exists>st. snd (mark_state E c job_id RsUncertain w) = w\<lparr>rw_store := st\<rparr>
     \<and> find_job job_id (rs_jobs st) = Some (r\<lparr>ps_state := RsUncertain\<rparr>)"
proof -
  from assms(1) obtain jobs where m: "modify_job job_id (set_state RsUncertain) (rs_jobs (rw_store w)) = Inr jobs"
    and w: "snd (mark_state E c job_id RsUncertain w) = w\<lparr>rw_store := \<lparr>rs_schema_version = resolution_store_schema_version, rs_jobs = trim_jobs jobs\<rparr>\<rparr>"
    by (cases c) (auto simp: mark_state_def store_write_def resolution_changed_def rbind_eq_Inr split: sum.splits)
  have d: "distinct (ids_of (rs_jobs (rw_store w)))" using assms(2) by (simp add: res_inv_def)
  have "set_state RsUncertain r = Inr (r\<lparr>ps_state := RsUncertain\<rparr>)"
  proof -
    from modify_job_Inr [OF m] obtain us x vs x' where "rs_jobs (rw_store w) = us @ x # vs" "rj_job_id (ps_job x) = job_id"
      "set_state RsUncertain x = Inr x'" by blast
    moreover from this d have "x = r" using find_job_split [of us x vs] assms(3) by simp
    ultimately show ?thesis by (simp add: set_state_Inr)
  qed
  then have "find_job job_id (trim_jobs jobs) = Some (r\<lparr>ps_state := RsUncertain\<rparr>)"
    by (intro modify_job_finds [OF m d _ assms(3)]) (auto simp: set_state_Inr record_step_def live_job_def assignment_terminal_def)
  with w show ?thesis by auto
qed

section \<open>Publication\<close>

text \<open>The uncertain record that a running publication is about.\<close>

definition in_flight :: "res_engine \<Rightarrow> string \<Rightarrow> string \<Rightarrow> 'v res_world \<Rightarrow> bool" where
  "in_flight E job_id h w \<longleftrightarrow> (\<exists>r result. find_job job_id (rs_jobs (rw_store w)) = Some r \<and> ps_state r = RsUncertain
     \<and> ps_result r = Some result \<and> applicable result \<and> resolves E (ps_job r) result h)"

lemma in_flight_stable: "in_flight E job_id h w \<Longrightarrow> res_inv E w \<Longrightarrow> res_rely E w w' \<Longrightarrow> in_flight E job_id h w'"
  unfolding in_flight_def using rely_find_live live_states(2) by blast

lemma swap_safe:
  assumes "res_inv E w" and "find_job job_id (rs_jobs (rw_store w)) = Some r" and "ps_state r = RsUncertain"
    and "ps_result r = Some result" and "applicable result" and "resolves E (ps_job r) result h"
    and "rw_head w = Some (rj_current_snapshot (ps_job r))"
  shows "res_guarantee E w (swap_to h w) \<and> res_inv E (swap_to h w)"
proof
  have "r \<in> set (rs_jobs (rw_store w))" using find_job_Some [OF assms(2)] by blast
  then show "res_guarantee E w (swap_to h w)"
    using assms(3-7) unfolding res_guarantee_def head_step_def because_def by (auto simp: swap_to_def db_step_def)
  have "set (rw_head_log w) \<subseteq> set (h # rw_head_log w)" by auto
  then show "res_inv E (swap_to h w)"
    using assms(1) by (auto simp: res_inv_def swap_to_def intro: record_inv_mono history_inv_mono)
qed

text \<open>A plan for a job that is in the store and uncertain.\<close>

definition planned_for :: "res_engine \<Rightarrow> string \<Rightarrow> planned_publication \<Rightarrow> 'v res_world \<Rightarrow> bool" where
  "planned_for E job_id planned w \<longleftrightarrow> (\<exists>r result. find_job job_id (rs_jobs (rw_store w)) = Some r \<and> ps_state r = RsUncertain
     \<and> ps_result r = Some result \<and> applicable result \<and> resolves E (ps_job r) result (pp_candidate_id planned)
     \<and> pp_expected_head planned = rj_current_snapshot (ps_job r))"

lemma planned_for_stable: "planned_for E job_id planned w \<Longrightarrow> res_inv E w \<Longrightarrow> res_rely E w w' \<Longrightarrow> planned_for E job_id planned w'"
  unfolding planned_for_def using rely_find_live live_states(2) by blast

lemma commit_safe:
  assumes "res_inv E w" and "planned_for E job_id planned w"
  shows "stays E (commit_resolution_publication io planned) w"
proof -
  have "res_guarantee E w (swap_to (pp_candidate_id planned) w) \<and> res_inv E (swap_to (pp_candidate_id planned) w)"
    if "rw_head w = Some (pp_expected_head planned)"
  proof -
    from assms(2) obtain r result where r: "find_job job_id (rs_jobs (rw_store w)) = Some r" "ps_state r = RsUncertain"
      "ps_result r = Some result" "applicable result" "resolves E (ps_job r) result (pp_candidate_id planned)"
      "pp_expected_head planned = rj_current_snapshot (ps_job r)" unfolding planned_for_def by blast
    show ?thesis by (rule swap_safe [OF assms(1) r(1-5)]) (use that r(6) in simp)
  qed
  with assms(1) show ?thesis
    by (cases "io_swap io") (auto simp: stays_def commit_resolution_publication_def Let_def)
qed

lemma commit_Inr:
  "fst (commit_resolution_publication io planned w) = Inr h \<Longrightarrow> planned_for E job_id planned w \<Longrightarrow>
     h = pp_candidate_id planned \<and> in_flight E job_id h (snd (commit_resolution_publication io planned w))
     \<and> h \<in> set (rw_head_log (snd (commit_resolution_publication io planned w)))"
  by (cases "io_swap io")
    (auto simp: commit_resolution_publication_def Let_def swap_to_def in_flight_def planned_for_def split: if_splits option.splits)

text \<open>What a publication that reports success leaves: its snapshot was the head, and its record is still uncertain.\<close>

definition published_now :: "res_engine \<Rightarrow> string \<Rightarrow> 'v res_world \<Rightarrow> bool" where
  "published_now E job_id w \<longleftrightarrow> (\<exists>h\<in>set (rw_head_log w). in_flight E job_id h w)"

lemma published_now_stable: "published_now E job_id w \<Longrightarrow> res_inv E w \<Longrightarrow> res_rely E w w' \<Longrightarrow> published_now E job_id w'"
  unfolding published_now_def using in_flight_stable [of E job_id _ w w'] by (meson res_rely_def subsetD)

lemma commit_planned_safe:
  assumes "res_inv E w" and "planned_for E job_id planned w"
  shows "rsafe E (commit_planned E io job_id planned) (\<lambda>r w. \<forall>h. r = Inr h \<longrightarrow> published_now E job_id w) w"
  unfolding commit_planned_def
proof (rule rsafe_try [OF assms(1)])
  fix w' assume w': "res_rely E w w'" "res_inv E w'"
  then have p: "planned_for E job_id planned w'" using planned_for_stable [OF assms(2,1)] by blast
  then show "stays E (commit_resolution_publication io planned) w'" using commit_safe w'(2) by blast
  assume i: "res_inv E (snd (commit_resolution_publication io planned w'))"
  show "rsafe E (case fst (commit_resolution_publication io planned w') of Inl e \<Rightarrow> revert_publication E io job_id e | Inr head \<Rightarrow> Done (Inr head))
      (\<lambda>r w. \<forall>h. r = Inr h \<longrightarrow> published_now E job_id w) (snd (commit_resolution_publication io planned w'))"
  proof (cases "fst (commit_resolution_publication io planned w')")
    case (Inl e)
    show ?thesis unfolding Inl sum.case by (rule safe_mono [OF revert_safe [OF i]]) simp
  next
    case (Inr h)
    have "published_now E job_id (snd (commit_resolution_publication io planned w'))"
      using commit_Inr [OF Inr p] unfolding published_now_def by blast
    with i Inr show ?thesis by simp
  qed
qed

lemma applicable_candidate:
  "validate_resolution_result P result = Inr () \<Longrightarrow> applicable result \<Longrightarrow> rr_candidate result \<noteq> None \<longrightarrow> rr_outcome result = CandidateReady"
  by (auto simp: validate_resolution_result_def validate_outcome_def rbind_eq_Inr applicable_def no_human_content_def)

text \<open>What the checks before a plan establish.\<close>

definition ready :: "string \<Rightarrow> persisted_job \<Rightarrow> resolution_result \<Rightarrow> 'v res_world \<Rightarrow> bool" where
  "ready job_id job result w \<longleftrightarrow> find_job job_id (rs_jobs (rw_store w)) = Some job \<and> ps_state job = RsActive
     \<and> ps_result job = Some result \<and> applicable result"

lemma ready_stable: "ready job_id job result w \<Longrightarrow> res_inv E w \<Longrightarrow> res_rely E w w' \<Longrightarrow> ready job_id job result w'"
  unfolding ready_def using rely_find_live live_states(1) by blast

definition has_applicable :: "string \<Rightarrow> 'v res_world \<Rightarrow> bool" where
  "has_applicable job_id w \<longleftrightarrow> (\<forall>job result. find_job job_id (rs_jobs (rw_store w)) = Some job \<longrightarrow> ps_result job = Some result \<longrightarrow> applicable result)"

lemma has_applicable_stable: "has_applicable job_id w \<Longrightarrow> res_inv E w \<Longrightarrow> res_rely E w w' \<Longrightarrow> has_applicable job_id w'"
  unfolding has_applicable_def using rely_found_old by (metis option.distinct(1))

lemma publish_check_Inr:
  assumes "publish_check E io job_id w = Inr (job, result, head)" and "has_applicable job_id w"
  shows "ready job_id job result w \<and> head = rj_current_snapshot (ps_job job)
     \<and> (rr_candidate result \<noteq> None \<longrightarrow> rr_outcome result = CandidateReady)"
proof -
  from assms(1) have l: "load_job (eg_prims E) job_id (rw_store w) = Inr job" and r: "ps_result job = Some result" "ps_state job = RsActive"
    and h: "head = rj_current_snapshot (ps_job job)"
    by (auto simp: publish_check_def rbind_eq_Inr)
  from l have f: "resolution_load (eg_prims E) (rw_store w) = Inr (rw_store w)" "find_job job_id (rs_jobs (rw_store w)) = Some job"
    by (auto simp: load_job_Inr)
  then have "validate_resolution_result (eg_prims E) result = Inr ()" using loaded_valid [OF f(1)] find_job_Some [OF f(2)] r(1) by blast
  with f(2) r h assms(2) applicable_candidate show ?thesis by (auto simp: ready_def has_applicable_def)
qed

lemma publish_once_safe:
  assumes "res_inv E w" and "has_applicable job_id w"
  shows "rsafe E (publish_once E io job_id) (\<lambda>r w. \<forall>h. r = Inr h \<longrightarrow> published_now E job_id w) w" (is "rsafe E _ ?Q w")
  unfolding publish_once_def
proof (rule rsafe_read [OF assms(1)])
  fix w1 x assume w1: "res_rely E w w1" "res_inv E w1" "publish_check E io job_id w1 = Inr x"
  obtain job result head where x: "x = (job, result, head)" by (cases x)
  note c = publish_check_Inr [OF w1(3) [unfolded x] has_applicable_stable [OF assms(2,1) w1(1)]]
  let ?j = "\<lambda>planned. \<lparr>jn_job_id = job_id, jn_expected_head = pp_expected_head planned, jn_planned_head = pp_candidate_id planned, jn_result = result\<rparr>"
  have plan: "rsafe E (pbind (act (write_publication_journal E (io_commit io 0) job_id (?j planned))) (\<lambda>_.
      pbind (act (mark_state E (io_commit io 1) job_id RsUncertain)) (\<lambda>_. commit_planned E io job_id planned))) ?Q w2"
    if w2: "res_rely E w1 w2" "res_inv E w2"
      and p: "resolves E (ps_job job) result (pp_candidate_id planned)" "pp_expected_head planned = rj_current_snapshot (ps_job job)" for w2 planned
  proof (rule rsafe_seq [OF w2(2)])
    fix w3 assume w3: "res_rely E w2 w3" "res_inv E w3"
    have r3: "ready job_id job result w3" using c ready_stable [OF _ w1(2) w2(1)] ready_stable [OF _ w2(2) w3(1)] by blast
    have ids: "r = job" if "r \<in> set (rs_jobs (rw_store w3))" "rj_job_id (ps_job r) = job_id" for r
      using that r3 w3(2) find_job_Some [of job_id "rs_jobs (rw_store w3)" job]
      by (auto simp: ready_def res_inv_def ids_of_def distinct_map dest: inj_onD)
    show "stays E (write_publication_journal E (io_commit io 0) job_id (?j planned)) w3"
      by (rule write_journal_safe [OF w3(2)]) (use ids r3 in \<open>auto simp: ready_def\<close>)
    fix u :: unit assume i: "res_inv E (snd (write_publication_journal E (io_commit io 0) job_id (?j planned) w3))"
      and ok: "fst (write_publication_journal E (io_commit io 0) job_id (?j planned) w3) = Inr u"
    define w4 where "w4 = snd (write_publication_journal E (io_commit io 0) job_id (?j planned) w3)"
    have w4: "w4 = w3\<lparr>rw_journals := AList.update job_id (JournalOk (?j planned)) (rw_journals w3)\<rparr>"
      using write_journal_Inr ok by (auto simp: w4_def)
    show "rsafe E (pbind (act (mark_state E (io_commit io 1) job_id RsUncertain)) (\<lambda>_. commit_planned E io job_id planned)) ?Q
        (snd (write_publication_journal E (io_commit io 0) job_id (?j planned) w3))"
      unfolding w4_def [symmetric]
    proof (rule rsafe_seq)
      show "res_inv E w4" using i by (simp add: w4_def)
      fix w5 assume w5: "res_rely E w4 w5" "res_inv E w5"
      have "ready job_id job result w4" using r3 by (simp add: ready_def w4)
      then have "ready job_id job result w5" by (rule ready_stable) (use i w5(1) in \<open>simp_all add: w4_def\<close>)
      then have r5: "find_job job_id (rs_jobs (rw_store w5)) = Some job" "ps_result job = Some result" "applicable result"
        "map_of (rw_journals w5) job_id = Some (JournalOk (?j planned))"
        using w5(1) by (auto simp: ready_def w4 res_rely_def update_conv')
      then show "stays E (mark_state E (io_commit io 1) job_id RsUncertain) w5"
        using mark_uncertain_safe [OF w5(2) r5] p(1) by simp
      fix v :: unit assume i6: "res_inv E (snd (mark_state E (io_commit io 1) job_id RsUncertain w5))"
        and ok6: "fst (mark_state E (io_commit io 1) job_id RsUncertain w5) = Inr v"
      from mark_uncertain_Inr [OF _ w5(2) r5(1)] ok6 obtain st where
        "snd (mark_state E (io_commit io 1) job_id RsUncertain w5) = w5\<lparr>rw_store := st\<rparr>"
        "find_job job_id (rs_jobs st) = Some (job\<lparr>ps_state := RsUncertain\<rparr>)" by auto
      then have "planned_for E job_id planned (snd (mark_state E (io_commit io 1) job_id RsUncertain w5))"
        using r5 p by (auto simp: planned_for_def)
      with i6 show "rsafe E (commit_planned E io job_id planned) ?Q (snd (mark_state E (io_commit io 1) job_id RsUncertain w5))"
        by (rule commit_planned_safe)
    qed simp
  qed simp
  show "rsafe E (case x of (job, result, head) \<Rightarrow> pbind (look (plan_resolution_publication E io (publication_plan job result head))) (\<lambda>planned.
      pbind (act (write_publication_journal E (io_commit io 0) job_id
       \<lparr>jn_job_id = job_id, jn_expected_head = pp_expected_head planned, jn_planned_head = pp_candidate_id planned, jn_result = result\<rparr>)) (\<lambda>_.
      pbind (act (mark_state E (io_commit io 1) job_id RsUncertain)) (\<lambda>_. commit_planned E io job_id planned)))) ?Q w1"
    unfolding x case_prod_conv
  proof (rule rsafe_read [OF w1(2)])
    fix w2 planned assume w2: "res_rely E w1 w2" "res_inv E w2"
      and pl: "plan_resolution_publication E io (publication_plan job result head) w2 = Inr planned"
    have "resolves E (ps_job job) result (pp_candidate_id planned) \<and> pp_expected_head planned = rj_current_snapshot (ps_job job)"
      by (rule plan_resolves [where w = w2 and io = io]) (use c pl in simp_all)
    then show "rsafe E (pbind (act (write_publication_journal E (io_commit io 0) job_id (?j planned))) (\<lambda>_.
      pbind (act (mark_state E (io_commit io 1) job_id RsUncertain)) (\<lambda>_. commit_planned E io job_id planned))) ?Q w2"
      using plan [OF w2] by blast
  qed simp
qed simp

section \<open>Completion\<close>

text \<open>The uncertain record whose publication is known to have won.\<close>

definition proven :: "res_engine \<Rightarrow> persisted_job \<Rightarrow> resolution_result \<Rightarrow> 'v res_world \<Rightarrow> bool" where
  "proven E r result w \<longleftrightarrow> find_job (rj_job_id (ps_job r)) (rs_jobs (rw_store w)) = Some r \<and> ps_state r = RsUncertain
     \<and> ps_result r = Some result \<and> applicable result \<and> published_as E (rw_head_log w) (ps_job r) result"

lemma proven_stable: "proven E r result w \<Longrightarrow> res_inv E w \<Longrightarrow> res_rely E w w' \<Longrightarrow> proven E r result w'"
  unfolding proven_def using rely_find_live live_states(2) published_as_mono by (metis res_rely_def)

lemma proven_member: "proven E r result w \<Longrightarrow> r \<in> set (rs_jobs (rw_store w))"
  using find_job_Some by (auto simp: proven_def)

lemma proven_db: "proven E r result (w\<lparr>rw_db := db\<rparr>) = proven E r result w"
  by (simp add: proven_def)

lemma proven_because: "proven E r result w \<Longrightarrow> p r result \<Longrightarrow> because E w p"
  unfolding because_def using proven_member [of E r result w] unfolding proven_def by blast

lemma published_now_proven:
  assumes "published_now E job_id w" and "find_job job_id (rs_jobs (rw_store w)) = Some r"
  shows "\<exists>result. proven E r result w"
proof -
  have "rj_job_id (ps_job r) = job_id" using find_job_Some [OF assms(2)] by blast
  with assms show ?thesis unfolding published_now_def in_flight_def proven_def published_as_def by fastforce
qed

lemma write_file_cases:
  obtains "write_file c f w = (Inr (), f w)" | "write_file c f w = (Inl IoFailed, f w)" | "write_file c f w = (Inl IoFailed, w)"
  using that by (cases c) (simp_all add: write_file_def)

text \<open>A write of the database that the publication is the reason of.\<close>

lemma db_write_safe:
  assumes "res_inv E w" and "proven E r result w" and "f (rw_db w) = Inr db" and "history_inv E (rw_head_log w) db"
    and "db = remove_record (ci_path (rj_conflict (ps_job r))) (rw_db w)
      \<or> (\<exists>e. db = push_resolution e (rw_db w) \<and> res_path e = ci_path (rj_conflict (ps_job r)))"
  shows "stays E (db_write c f) w \<and> proven E r result (snd (db_write c f w))"
proof -
  have "res_inv E (w\<lparr>rw_db := db\<rparr>)" using assms(1,4) by (simp add: res_inv_def)
  moreover have "res_guarantee E w (w\<lparr>rw_db := db\<rparr>)"
    using assms(2,5) by (auto simp: res_guarantee_def head_step_def db_step_def proven_def intro!: proven_because [OF assms(2)])
  ultimately show ?thesis
    using assms(1-3) proven_db [of E r result db w]
    by (cases rule: write_file_cases [of c "\<lambda>w. w\<lparr>rw_db := db\<rparr>" w]) (simp_all add: stays_def db_write_def)
qed

lemma method_is_candidate [simp]: "method_as_db_str m = ''candidate'' \<longleftrightarrow> m = Candidate"
  by (cases m) simp_all

lemma already_recorded_iff:
  "already_recorded path resolver hash db \<longleftrightarrow> (path, resolver, hash) \<in> set (map history_key (candidate_history db))"
  by (auto simp: already_recorded_def list_conflict_resolutions_def list_ex_iff candidate_history_def history_key_def
      public_resolution_def image_iff)

lemma candidate_history_push:
  "candidate_history (push_resolution e db) = candidate_history db @ (if res_method e = Candidate then [e] else [])"
  by (simp add: candidate_history_def push_resolution_def)

lemma candidate_history_remove [simp]: "candidate_history (remove_record p db) = candidate_history db"
  by (simp add: candidate_history_def remove_record_def)

text \<open>The history gets one entry per key, and only for what was published.\<close>

lemma record_once_safe:
  assumes "res_inv E w" and "proven E r result w"
  shows "stays E (record_conflict_resolution_once c now (ps_job r) (published_hash result)) w
     \<and> proven E r result (snd (record_conflict_resolution_once c now (ps_job r) (published_hash result) w))"
proof (cases "already_recorded (ci_path (rj_conflict (ps_job r))) (rj_owner (ps_job r)) (published_hash result) (rw_db w)")
  case True
  with assms show ?thesis by (simp add: record_conflict_resolution_once_def stays_def)
next
  case False
  let ?e = "\<lparr>res_path = ci_path (rj_conflict (ps_job r)), res_method = Candidate, res_source_file_hash = published_hash result,
    res_resolved_at = now, res_resolver = rj_owner (ps_job r)\<rparr>"
  have "history_inv E (rw_head_log w) (rw_db w)" using assms(1) by (simp add: res_inv_def)
  moreover have "\<exists>job result'. published_as E (rw_head_log w) job result' \<and> res_path ?e = ci_path (rj_conflict job)
      \<and> res_resolver ?e = rj_owner job \<and> res_source_file_hash ?e = published_hash result'"
    by (rule exI [of _ "ps_job r"], rule exI [of _ result]) (use assms(2) in \<open>simp add: proven_def\<close>)
  moreover have "history_key ?e \<notin> set (map history_key (candidate_history (rw_db w)))"
    using False unfolding already_recorded_iff by (simp add: history_key_def)
  ultimately have "history_inv E (rw_head_log w) (push_resolution ?e (rw_db w))"
    unfolding history_inv_def candidate_history_push by simp
  then have "stays E (db_write c f) w \<and> proven E r result (snd (db_write c f w))" if "f (rw_db w) = Inr (push_resolution ?e (rw_db w))" for f
    by (rule db_write_safe [where f = f and db = "push_resolution ?e (rw_db w)", OF assms that]) auto
  with False show ?thesis
    by (simp add: record_conflict_resolution_once_def record_conflict_resolution_def stays_def)
qed

lemma resolve_path_safe:
  assumes "res_inv E w" and "proven E r result w"
  shows "stays E (db_write c (resolve_conflict_path (ci_path (rj_conflict (ps_job r))))) w
     \<and> proven E r result (snd (db_write c (resolve_conflict_path (ci_path (rj_conflict (ps_job r)))) w))"
proof (rule db_write_safe [OF assms])
  show "history_inv E (rw_head_log w) (remove_record (ci_path (rj_conflict (ps_job r))) (rw_db w))"
    by (rule history_inv_mono [of E "rw_head_log w" "rw_db w"]) (use assms(1) in \<open>simp_all add: res_inv_def\<close>)
qed (simp_all add: resolve_conflict_path_def)

lemma cleanup_safe:
  assumes "res_inv E w" and "proven E r result w"
  shows "stays E (cleanup_conflict_artifacts io job captured) w
     \<and> proven E r result (snd (cleanup_conflict_artifacts io job captured w))"
  using assms by (cases captured) (simp_all add: cleanup_conflict_artifacts_def Let_def stays_def res_inv_def res_guarantee_def
      head_step_def db_step_def proven_def)

lemma mark_completed_safe:
  assumes "res_inv E w" and "proven E r result w"
  shows "stays E (mark_state E c (rj_job_id (ps_job r)) RsCompleted) w"
  unfolding mark_state_def
  by (rule modify_safe [OF assms(1)])
    (use assms(2) in \<open>auto simp: set_state_Inr record_step_def record_inv_def proven_def\<close>)

lemma rsafe_ignore: "rsafe E p Q w \<Longrightarrow> rsafe E p (\<lambda>_ _. True) w"
  by (rule safe_mono) simp_all

text \<open>A step of the completion, which keeps the proof of the publication.\<close>

lemma rsafe_proven:
  assumes "res_inv E w" and "proven E r result w"
    and "\<And>w. res_inv E w \<Longrightarrow> proven E r result w \<Longrightarrow> stays E f w \<and> proven E r result (snd (f w))"
    and "\<And>w x. res_inv E w \<Longrightarrow> proven E r result w \<Longrightarrow> rsafe E (k x) (\<lambda>_ _. True) w"
  shows "rsafe E (pbind (act f) k) (\<lambda>_ _. True) w"
proof (rule rsafe_seq [OF assms(1)])
  fix w' assume w': "res_rely E w w'" "res_inv E w'"
  have p: "proven E r result w'" by (rule proven_stable [OF assms(2,1) w'(1)])
  show "stays E f w'" using assms(3) [OF w'(2) p] by simp
  fix x assume i: "res_inv E (snd (f w'))"
  show "rsafe E (k x) (\<lambda>_ _. True) (snd (f w'))" using assms(3) [OF w'(2) p] by (blast intro: assms(4) [OF i])
qed simp

lemma finish_job_safe:
  assumes "res_inv E w" and "proven E r result w"
  shows "rsafe E (finish_job E io r result captured) (\<lambda>_ _. True) w"
  unfolding finish_job_def Let_def
proof (rule rsafe_proven [OF assms record_once_safe], assumption+)
  fix w1 :: "'a res_world" and u1 :: unit assume w1: "res_inv E w1" "proven E r result w1"
  show "rsafe E (pbind (act (db_write (io_commit io 4) (resolve_conflict_path (ci_path (rj_conflict (ps_job r)))))) (\<lambda>_.
      pbind (act (cleanup_conflict_artifacts io (ps_job r) captured)) (\<lambda>_.
      pbind (act (mark_state E (io_commit io 5) (rj_job_id (ps_job r)) RsCompleted)) (\<lambda>_.
      act (\<lambda>w. (Inr (), remove_job_dir (io_reply io 7) (rj_job_id (ps_job r)) w)))))) (\<lambda>_ _. True) w1"
  proof (rule rsafe_proven [OF w1 resolve_path_safe], assumption+)
    fix w2 :: "'a res_world" and u2 :: unit assume w2: "res_inv E w2" "proven E r result w2"
    show "rsafe E (pbind (act (cleanup_conflict_artifacts io (ps_job r) captured)) (\<lambda>_.
        pbind (act (mark_state E (io_commit io 5) (rj_job_id (ps_job r)) RsCompleted)) (\<lambda>_.
        act (\<lambda>w. (Inr (), remove_job_dir (io_reply io 7) (rj_job_id (ps_job r)) w))))) (\<lambda>_ _. True) w2"
    proof (rule rsafe_proven [OF w2 cleanup_safe], assumption+)
      fix w3 :: "'a res_world" and u3 :: unit assume w3: "res_inv E w3" "proven E r result w3"
      show "rsafe E (pbind (act (mark_state E (io_commit io 5) (rj_job_id (ps_job r)) RsCompleted)) (\<lambda>_.
        act (\<lambda>w. (Inr (), remove_job_dir (io_reply io 7) (rj_job_id (ps_job r)) w)))) (\<lambda>_ _. True) w3"
      proof (rule rsafe_seq [OF w3(1)])
        fix w4 assume "res_rely E w3 w4" "res_inv E w4"
        then show "stays E (mark_state E (io_commit io 5) (rj_job_id (ps_job r)) RsCompleted) w4"
          using mark_completed_safe proven_stable [OF w3(2,1)] by blast
      next
        fix w4 assume "res_inv E (snd (mark_state E (io_commit io 5) (rj_job_id (ps_job r)) RsCompleted w4))"
        then show "rsafe E (act (\<lambda>w. (Inr (), remove_job_dir (io_reply io 7) (rj_job_id (ps_job r)) w))) (\<lambda>_ _. True)
            (snd (mark_state E (io_commit io 5) (rj_job_id (ps_job r)) RsCompleted w4))"
          by (rule rsafe_action) (simp add: remove_job_dir_safe)
      qed simp
    qed
  qed
qed

text \<open>Completion is called for a record that is proven, or was completed before.\<close>

definition completable :: "res_engine \<Rightarrow> string \<Rightarrow> 'v res_world \<Rightarrow> bool" where
  "completable E job_id w \<longleftrightarrow> (\<forall>r. find_job job_id (rs_jobs (rw_store w)) = Some r \<longrightarrow> ps_state r = RsUncertain
     \<longrightarrow> (\<exists>result. proven E r result w))"

lemma completable_stable: "completable E job_id w \<Longrightarrow> res_inv E w \<Longrightarrow> res_rely E w w' \<Longrightarrow> completable E job_id w'"
  unfolding completable_def using proven_stable rely_found_old by (metis assignment_state.distinct(1))

lemma complete_publication_safe:
  assumes "res_inv E w" and "completable E job_id w"
  shows "rsafe E (complete_publication E io job_id) (\<lambda>_ _. True) w"
  unfolding complete_publication_def
proof (rule rsafe_read [OF assms(1)])
  fix w' x assume w': "res_rely E w w'" "res_inv E w'"
    and x: "rbind (load_job (eg_prims E) job_id (rw_store w')) (\<lambda>job.
        Inr (job, get_conflict_record (eg_sidecars E) (ci_path (rj_conflict (ps_job job))) (rw_db w'))) = Inr x"
  from x obtain r captured where r: "x = (r, captured)" "find_job job_id (rs_jobs (rw_store w')) = Some r"
    by (auto simp: rbind_eq_Inr load_job_Inr)
  show "rsafe E (case x of (job, captured) \<Rightarrow>
      if ps_state job \<noteq> RsUncertain then Done (ensure (ps_state job = RsCompleted) (CannotComplete (ps_state job)))
      else (case ps_result job of None \<Rightarrow> Done (Inl NoResult) | Some result \<Rightarrow> finish_job E io job result captured)) (\<lambda>_ _. True) w'"
  proof (cases "ps_state r = RsUncertain")
    case True
    with completable_stable [OF assms(2,1) w'(1)] r obtain result where p: "proven E r result w'" by (auto simp: completable_def)
    then have "ps_result r = Some result" by (simp add: proven_def)
    with True p w'(2) r(1) show ?thesis by (simp add: finish_job_safe)
  qed (use r(1) w'(2) in simp)
qed simp

section \<open>Applying\<close>

lemma check_applicable_Inr:
  "check_applicable E job_id w = Inr u \<Longrightarrow> has_applicable job_id w"
  by (auto simp: check_applicable_def rbind_eq_Inr load_job_Inr has_applicable_def applicable_def)

lemma published_now_completable: "published_now E job_id w \<Longrightarrow> completable E job_id w"
  using published_now_proven by (auto simp: completable_def)

lemma apply_attempts_safe: "res_inv E w \<Longrightarrow> rsafe E (apply_attempts E job_id e ios) (\<lambda>_ _. True) w"
proof (induction ios arbitrary: e w)
  case (Cons io ios)
  show ?case
    unfolding apply_attempts.simps
  proof (rule rsafe_read [OF Cons.prems])
    fix w1 :: "'a res_world" and u assume w1: "res_inv E w1" "check_applicable E job_id w1 = Inr u"
    let ?k = "\<lambda>r. case r of
        Inr head \<Rightarrow> pbind (complete_publication E io job_id) (\<lambda>_. Done (Inr (ApplyPublished head)))
      | Inl (StalePublication kind) \<Rightarrow> Done (Inr (ApplyStale kind))
      | Inl (LostCas current) \<Rightarrow> apply_attempts E job_id (LostCas current) ios
      | Inl e \<Rightarrow> Done (Inl e)"
    have k: "rsafe E (?k r) (\<lambda>_ _. True) w2"
      if i: "res_inv E w2" and p: "\<forall>h. r = Inr h \<longrightarrow> published_now E job_id w2" for r and w2 :: "'a res_world"
    proof (cases r)
      case (Inl e)
      with i Cons.IH show ?thesis by (cases e) simp_all
    next
      case (Inr h)
      have "rsafe E (complete_publication E io job_id) (\<lambda>_ _. True) w2"
        by (rule complete_publication_safe [OF i published_now_completable]) (use p Inr in simp)
      then have "rsafe E (complete_publication E io job_id) (\<lambda>r w. case r of Inl e \<Rightarrow> True
          | Inr x \<Rightarrow> rsafe E (Done (Inr (ApplyPublished h))) (\<lambda>_ _. True) w) w2"
        by (rule safe_mono) (simp split: sum.splits)
      with Inr show ?thesis by (simp add: safe_pbind)
    qed
    show "rsafe E (ptry (publish_once E io job_id) ?k) (\<lambda>_ _. True) w1"
      by (rule safe_ptry, rule safe_mono [OF publish_once_safe [OF w1(1) check_applicable_Inr [OF w1(2)]]]) (rule k)
  qed simp
qed simp

lemma apply_safe: "res_inv E w \<Longrightarrow> rsafe E (apply_locked E job_id ios) (\<lambda>_ _. True) w"
  unfolding apply_locked_def by (rule apply_attempts_safe)

section \<open>Recovery\<close>

text \<open>The head is in the log, and the journal of an uncertain record names what resolves its conflict: so the swap won.\<close>

lemma swap_proved_completable:
  assumes "res_inv E w" and "swap_proved job_id w"
  shows "completable E job_id w"
  unfolding completable_def
proof (intro allI impI)
  fix r assume r: "find_job job_id (rs_jobs (rw_store w)) = Some r" "ps_state r = RsUncertain"
  note r' = find_job_Some [OF r(1)]
  from assms(2) obtain j where j: "map_of (rw_journals w) job_id = Some (JournalOk j)" "rw_head w = Some (jn_planned_head j)"
    by (auto simp: swap_proved_def split: option.splits journal_file.splits)
  from assms(1) r' have "record_inv E (rw_journals w) (rw_head_log w) r" by (simp add: res_inv_def)
  with r(2) r' j(1) obtain result where "ps_result r = Some result" "applicable result" "resolves E (ps_job r) result (jn_planned_head j)"
    by (auto simp: record_inv_def)
  moreover have "jn_planned_head j \<in> set (rw_head_log w)" using assms(1) j(2) by (simp add: res_inv_def)
  ultimately show "\<exists>result. proven E r result w"
    using r r' unfolding proven_def published_as_def by blast
qed

lemma fail_closed_safe: "res_inv E w \<Longrightarrow> rsafe E (fail_closed_recovery E io job_id) (\<lambda>_ _. True) w"
  unfolding fail_closed_recovery_def
proof (rule rsafe_seq)
  fix w' assume "res_inv E w'"
  then show "stays E (store_write (eg_prims E) (io_commit io 6) (modify_job job_id (\<lambda>r.
        if ps_state r = RsUncertain then set_state RsStale r else Inr r))) w'"
    by (rule modify_safe) (auto simp: set_state_Inr record_step_def intro: record_inv_set split: if_splits)
next
  fix w' :: "'a res_world" assume "res_inv E (snd (store_write (eg_prims E) (io_commit io 6) (modify_job job_id (\<lambda>r.
        if ps_state r = RsUncertain then set_state RsStale r else Inr r)) w'))" (is "res_inv E ?w")
  then show "rsafe E (act (drop_journal (io_reply io 8) job_id)) (\<lambda>_ _. True) ?w"
    by (rule rsafe_action) (simp add: drop_journal_safe)
qed simp_all

lemma recover_one_safe: "res_inv E w \<Longrightarrow> rsafe E (recover_one_uncertain E io job_id) (\<lambda>_ _. True) w"
  unfolding recover_one_uncertain_def
proof (rule rsafe_read)
  fix w1 :: "'a res_world" and job assume w1: "res_inv E w1" "load_job (eg_prims E) job_id (rw_store w1) = Inr job"
  show "rsafe E (if ps_state job \<noteq> RsUncertain then Done (Inr ())
     else
       pbind (look (\<lambda>w. rbind (ensure (io_reply io 0) IoFailed) (\<lambda>_. Inr (swap_proved job_id w)))) (\<lambda>proved.
       if proved then complete_publication E io job_id else fail_closed_recovery E io job_id)) (\<lambda>_ _. True) w1"
  proof (cases "ps_state job = RsUncertain")
    case True
    have "rsafe E (pbind (look (\<lambda>w. rbind (ensure (io_reply io 0) IoFailed) (\<lambda>_. Inr (swap_proved job_id w)))) (\<lambda>proved.
       if proved then complete_publication E io job_id else fail_closed_recovery E io job_id)) (\<lambda>_ _. True) w1"
    proof (rule rsafe_read [OF w1(1)])
      fix w2 :: "'a res_world" and proved assume w2: "res_inv E w2"
        and "rbind (ensure (io_reply io 0) IoFailed) (\<lambda>_. Inr (swap_proved job_id w2)) = Inr proved"
      then show "rsafe E (if proved then complete_publication E io job_id else fail_closed_recovery E io job_id) (\<lambda>_ _. True) w2"
        using complete_publication_safe [OF w2 swap_proved_completable [OF w2]] fail_closed_safe [OF w2] by (auto simp: rbind_eq_Inr)
    qed simp
    with True show ?thesis by simp
  qed (use w1(1) in simp)
qed simp_all

lemma sweep_one_safe: "res_inv E w \<Longrightarrow> rsafe E (sweep_one E io job_id) (\<lambda>_ _. True) w"
  unfolding sweep_one_def
proof (rule rsafe_action)
  fix w' assume i: "res_inv E w'"
  have "stays E (\<lambda>w. (Inr (), w)) w'" for f :: "'a res_world \<Rightarrow> (engine_error + unit) \<times> 'a res_world"
    using i by (simp add: stays_def)
  with i drop_journal_safe [OF i, of "io_reply io 8" job_id] remove_job_dir_safe [OF i, of _ "io_reply io 7" job_id]
  show "stays E (\<lambda>w. if map_of (rw_journals w) job_id = None then (Inr (), w)
       else case load_job (eg_prims E) job_id (rw_store w) of
         Inl e \<Rightarrow> (Inl e, w)
       | Inr job \<Rightarrow>
           if ps_state job = RsCompleted then (Inr (), remove_job_dir (io_reply io 7) job_id w)
           else drop_journal (io_reply io 8) job_id w) w' \<and> True"
    by (auto simp: stays_def split: sum.splits)
qed simp_all

lemma recover_locked_safe: "res_inv E w \<Longrightarrow> rsafe E (recover_locked E ios uncertain sweep) (\<lambda>_ _. True) w"
proof -
  assume i: "res_inv E w"
  have "rsafe E (pfor (\<lambda>id. recover_one_uncertain E (ios id) id) uncertain) (\<lambda>_ _. True) w"
    using i by (intro safe_pfor recover_one_safe)
  then have "rsafe E (pfor (\<lambda>id. recover_one_uncertain E (ios id) id) uncertain)
      (\<lambda>r w. case r of Inl e \<Rightarrow> True | Inr x \<Rightarrow> rsafe E (pfor (\<lambda>id. sweep_one E (ios id) id) sweep) (\<lambda>_ _. True) w) w"
    by (rule safe_mono) (auto split: sum.splits intro: safe_pfor sweep_one_safe)
  then show ?thesis unfolding recover_locked_def by (rule safe_pbind)
qed

lemma recover_safe: "res_inv E w \<Longrightarrow> rsafe E (recover_uncertain_publications E ios) (\<lambda>_ _. True) w"
  unfolding recover_uncertain_publications_def by (rule rsafe_read) (simp_all add: recover_locked_safe)

section \<open>Preparation and submission\<close>

lemma push_job_safe:
  assumes "res_inv E w" and "\<And>jobs'. f (rs_jobs (rw_store w)) = Inr jobs' \<Longrightarrow> jobs' = rs_jobs (rw_store w)
      \<or> jobs' = rs_jobs (rw_store w) @ [active_record now job] \<and> rj_job_id job \<notin> set (ids_of (rs_jobs (rw_store w)))"
    and "validate_resolution_job (eg_prims E) job = Inr ()"
  shows "stays E (store_write P c f) w"
proof (rule store_write_safe [OF assms(1)])
  fix jobs' assume "f (rs_jobs (rw_store w)) = Inr jobs'"
  from assms(2) [OF this] show "distinct (ids_of jobs') \<and> jobs_step (rs_jobs (rw_store w)) (trim_jobs jobs')
      \<and> (\<forall>r\<in>set jobs'. record_inv E (rw_journals w) (rw_head_log w) r)"
  proof
    assume eq: "jobs' = rs_jobs (rw_store w)"
    have d: "distinct (ids_of jobs')" "\<forall>r\<in>set jobs'. record_inv E (rw_journals w) (rw_head_log w) r"
      using assms(1) by (simp_all add: res_inv_def eq)
    moreover have "jobs_step jobs' (trim_jobs jobs')"
      unfolding jobs_step_def using trim_evicts [OF d(1)] trim_jobs_subset [of jobs'] record_step_refl by blast
    ultimately show ?thesis by (simp add: eq)
  next
    assume new: "jobs' = rs_jobs (rw_store w) @ [active_record now job] \<and> rj_job_id job \<notin> set (ids_of (rs_jobs (rw_store w)))"
    then have "distinct (ids_of (rs_jobs (rw_store w) @ [active_record now job]))"
      using assms(1) by (auto simp: res_inv_def ids_of_def active_record_def)
    moreover have "record_inv E (rw_journals w) (rw_head_log w) (active_record now job)"
      by (rule record_inv_plain) (simp add: assms(3), simp_all add: active_record_def)
    ultimately show ?thesis
      using push_step [of "rs_jobs (rw_store w)" "active_record now job"] new assms(1)
      by (auto simp: res_inv_def active_record_def)
  qed
qed

lemma add_prepared_push:
  "add_prepared (active_record now job) jobs = Inr jobs' \<Longrightarrow> jobs' = jobs @ [active_record now job] \<and> rj_job_id job \<notin> set (ids_of jobs)"
  by (auto simp: add_prepared_def rbind_eq_Inr list_ex_iff ids_of_def active_record_def)

lemma store_prepared_safe:
  fixes w :: "'v res_world"
  assumes "res_inv E w" and "validate_resolution_job (eg_prims E) job = Inr ()"
  shows "rsafe E (pbind (act (write_file c (\<lambda>w. w\<lparr>rw_job_files := AList.update job_id job (rw_job_files w)\<rparr>))) (\<lambda>_.
     pbind (act (store_write P c' (add_prepared (active_record now job)))) (\<lambda>_. Done (Inr job)))) (\<lambda>_ _. True) w"
proof (rule rsafe_seq [OF assms(1)])
  let ?created = "write_file c (\<lambda>w :: 'v res_world. w\<lparr>rw_job_files := AList.update job_id job (rw_job_files w)\<rparr>)"
  let ?add = "store_write P c' (add_prepared (active_record now job)) :: 'v res_world \<Rightarrow> _"
  fix w2 :: "'v res_world" assume w2: "res_inv E w2"
  then show "stays E ?created w2"
    by (cases c) (simp_all add: write_file_def stays_def res_inv_def res_guarantee_def head_step_def db_step_def)
  fix u :: unit assume "res_inv E (snd (?created w2))"
  then show "rsafe E (pbind (act ?add) (\<lambda>_. Done (Inr job))) (\<lambda>_ _. True) (snd (?created w2))"
  proof (rule rsafe_seq)
    fix w3 :: "'v res_world" assume "res_inv E w3"
    then show "stays E ?add w3" by (rule push_job_safe [OF _ _ assms(2)]) (blast dest: add_prepared_push)
  qed simp_all
qed simp

lemma build_job_valid: "build_job E path prevention work seeds head s edit d w = Inr job \<Longrightarrow> validate_resolution_job (eg_prims E) job = Inr ()"
  by (auto simp: build_job_def rbind_eq_Inr Let_def)

lemma prepare_safe:
  "res_inv E w \<Longrightarrow> rsafe E (prepare_resolution_job_guarded E io path prevention work seeds) (\<lambda>_ _. True) w"
  unfolding prepare_resolution_job_guarded_def
  by (rule rsafe_read, assumption, simp, unfold case_prod_unfold, (rule rsafe_read, assumption, simp)+,
      rule store_prepared_safe, assumption, erule build_job_valid)

lemma import_safe: "res_inv E w \<Longrightarrow> rsafe E (import_resolution_job E io job) (\<lambda>_ _. True) w"
proof (cases "contract (validate_resolution_job (eg_prims E) job)")
  case (Inr u)
  assume i: "res_inv E w"
  have "rsafe E (act (store_write (eg_prims E) (io_commit io 0) (import_job (io_clock io 0) job))) (\<lambda>_ _. True) w"
  proof (rule rsafe_action [OF i])
    fix w' assume "res_inv E w'"
    then have "stays E (store_write (eg_prims E) (io_commit io 0) (import_job (io_clock io 0) job)) w'"
      by (rule push_job_safe [where now = "io_clock io 0" and job = job])
        (use Inr in \<open>auto simp: import_job_def list_ex_iff ids_of_def split: if_splits\<close>)
    then show "stays E (store_write (eg_prims E) (io_commit io 0) (import_job (io_clock io 0) job)) w' \<and> True" by simp
  qed
  with Inr show ?thesis by (simp only: import_resolution_job_def pbind_def ptry.simps sum.case)
qed (simp only: import_resolution_job_def pbind_def ptry.simps sum.case safe.simps(1))

text \<open>A record that was loaded as active is replaced by one of the same job.\<close>

lemma replace_safe:
  assumes "res_inv E w" and "find_job job_id (rs_jobs (rw_store w)) = Some job" and "ps_state job = RsActive"
    and "ps_job r' = ps_job job" and "ps_state r' = RsActive" and "check_record (eg_prims E) r' = Inr ()"
  shows "rsafe E (act (store_write P c (modify_job job_id (replace_record r')))) (\<lambda>_ _. True) w"
proof (rule rsafe_action [OF assms(1)])
  fix w' assume w': "res_rely E w w'" "res_inv E w'"
  have "find_job job_id (rs_jobs (rw_store w')) = Some job" using rely_find_live [OF assms(1) w'(1) assms(2)] assms(3) by simp
  then have "stays E (store_write P c (modify_job job_id (replace_record r'))) w'"
    by (intro modify_safe [OF w'(2)])
      (use assms(3-6) in \<open>auto simp: replace_record_def rbind_eq_Inr record_step_def intro: record_inv_plain\<close>)
  then show "stays E (store_write P c (modify_job job_id (replace_record r'))) w' \<and> True" by simp
qed

lemma rsafe_then_done:
  assumes "rsafe E p (\<lambda>_ _. True) w"
  shows "rsafe E (pbind p (\<lambda>x. Done (f x))) (\<lambda>_ _. True) w"
  by (rule safe_pbind, rule safe_mono [OF assms]) (simp split: sum.splits)

lemma check_submission_Inr:
  "check_submission P job_id result st = Inr job \<Longrightarrow> find_job job_id (rs_jobs st) = Some job \<and> ps_state job = RsActive
     \<and> validate_resolution_result P result = Inr () \<and> resolution_load P st = Inr st"
  by (auto simp: check_submission_def rbind_eq_Inr load_job_Inr)

text \<open>The verification that the engine puts in, and the number of a question, leave a valid result valid.\<close>

lemma submitted_valid:
  assumes "submitted_result P read jobs job result = Inr x" and "validate_resolution_result P result = Inr ()"
  shows "validate_resolution_result P x = Inr ()"
proof -
  have shape: "(\<exists>s. x = result\<lparr>rr_verification := s\<rparr> \<and> length (vs_summary s) \<le> resolution_max_verification_summary_bytes
      \<and> (vs_status s = VPassed \<or> vs_status s = vs_status (rr_verification result)))
    \<or> (\<exists>n. x = result\<lparr>rr_question_generation := n\<rparr> \<and> rr_outcome result = RequiresHuman)"
    using assms(1) by (cases "rr_outcome result")
      (auto simp: submitted_result_def rbind_eq_Inr inline_verify_candidate_def inline_verify_no_candidate_def Let_def
        resolution_max_verification_summary_bytes_def split: if_splits)
  have outcome: "validate_outcome P x = validate_outcome P result"
    if "x = result\<lparr>rr_verification := s\<rparr>" "vs_status s = VPassed \<or> vs_status s = vs_status (rr_verification result)" for s
    using that assms(2) by (cases "rr_outcome result")
      (auto simp: validate_resolution_result_def validate_outcome_def rbind_eq_Inr no_human_content_def)
  from shape show ?thesis
  proof
    assume "\<exists>s. x = result\<lparr>rr_verification := s\<rparr> \<and> length (vs_summary s) \<le> resolution_max_verification_summary_bytes
      \<and> (vs_status s = VPassed \<or> vs_status s = vs_status (rr_verification result))"
    then obtain s where s: "x = result\<lparr>rr_verification := s\<rparr>" "length (vs_summary s) \<le> resolution_max_verification_summary_bytes"
      "vs_status s = VPassed \<or> vs_status s = vs_status (rr_verification result)" by blast
    with outcome [OF s(1,3)] assms(2) show ?thesis by (auto simp: validate_resolution_result_def rbind_eq_Inr)
  next
    assume "\<exists>n. x = result\<lparr>rr_question_generation := n\<rparr> \<and> rr_outcome result = RequiresHuman"
    then obtain n where "x = result\<lparr>rr_question_generation := n\<rparr>" "rr_outcome result = RequiresHuman" by blast
    with assms(2) show ?thesis by (simp add: validate_resolution_result_def validate_outcome_def)
  qed
qed

lemma check_with_result:
  "check_record P job = Inr () \<Longrightarrow> validate_resolution_result P result = Inr () \<Longrightarrow> check_record P (with_result now result job) = Inr ()"
  by (auto simp: check_record_def with_result_def Let_def rbind_eq_Inr)

lemma loaded_check: "resolution_load P st = Inr st \<Longrightarrow> find_job job_id (rs_jobs st) = Some r \<Longrightarrow> check_record P r = Inr ()"
  by (auto simp: resolution_load_def rbind_eq_Inr for_each_eq_Inr dest!: find_job_Some)

lemma with_result_fields [simp]:
  "ps_job (with_result now result job) = ps_job job" "ps_state (with_result now result job) = ps_state job"
  by (simp_all add: with_result_def Let_def)

lemma submit_safe: "res_inv E w \<Longrightarrow> rsafe E (submit_locked E io job_id result) (\<lambda>_ _. True) w"
  unfolding submit_locked_def
proof (rule rsafe_read)
  fix w1 :: "'a res_world" and x assume i: "res_inv E w1" and x: "rbind (check_submission (eg_prims E) job_id result (rw_store w1)) (\<lambda>job.
        rbind (submitted_result (eg_prims E) (\<lambda>c. read_candidate_file (eg_prims E) (ca_path c) c w1) (rs_jobs (rw_store w1)) job result) (\<lambda>result.
        Inr (job, result))) = Inr x"
  from x obtain job result' where "x = (job, result')" "find_job job_id (rs_jobs (rw_store w1)) = Some job" "ps_state job = RsActive"
    "check_record (eg_prims E) (with_result (io_clock io 0) result' job) = Inr ()"
    by (auto simp: rbind_eq_Inr dest!: check_submission_Inr intro!: check_with_result intro: loaded_check submitted_valid)
  then show "rsafe E (case x of (job, result) \<Rightarrow> pbind (act (store_write (eg_prims E) (io_commit io 0)
        (modify_job job_id (replace_record (with_result (io_clock io 0) result job))))) (\<lambda>_. Done (Inr result))) (\<lambda>_ _. True) w1"
    by (simp add: rsafe_then_done replace_safe [OF i])
qed simp_all

lemma mark_plain_op_safe:
  assumes "res_inv E w" and "to \<noteq> RsUncertain" and "to \<noteq> RsCompleted"
  shows "rsafe E (act (mark_state E c job_id to)) (\<lambda>_ _. True) w"
  by (rule rsafe_action [OF assms(1)]) (simp add: mark_plain_safe assms(2,3))

lemma revoke_safe: "res_inv E w \<Longrightarrow> rsafe E (revoke_locked E io job_id superseded) (\<lambda>_ _. True) w"
  unfolding revoke_locked_def by (rule mark_plain_op_safe) simp_all

lemma check_answer_Inr:
  "check_answer P answer st = Inr job \<Longrightarrow> find_job (ha_job_id answer) (rs_jobs st) = Some job \<and> ps_state job = RsActive
     \<and> resolution_load P st = Inr st"
  by (auto simp: check_answer_def rbind_eq_Inr load_job_Inr)

lemma answer_safe: "res_inv E w \<Longrightarrow> rsafe E (answer_locked E io answer) (\<lambda>_ _. True) w"
  unfolding answer_locked_def Let_def
proof (rule rsafe_read)
  fix w1 :: "'a res_world" and job assume w1: "res_inv E w1" "check_answer (eg_prims E) answer (rw_store w1) = Inr job"
  note job = check_answer_Inr [OF w1(2)]
  let ?check = "\<lambda>w. rbind (ok_or (ha_candidate answer) NoEvidence) (\<lambda>candidate.
              rbind (ensure (ca_path candidate = destination_path (ps_job job)) WrongCandidatePath) (\<lambda>_.
              rbind (read_candidate_file (eg_prims E) (ca_path candidate) candidate w) (\<lambda>bs.
              rbind (inline_verify_candidate (eg_prims E) (ps_job job) bs candidate) (\<lambda>summary.
              rbind (contract (validate_resolution_result (eg_prims E) (answered_result (ps_job job) candidate summary))) (\<lambda>_.
              Inr (answered_result (ps_job job) candidate summary))))))"
  let ?k = "\<lambda>result. act (store_write (eg_prims E) (io_commit io 0) (modify_job (ha_job_id answer) (replace_record
              (job\<lparr>ps_verified_at_ms := Some (io_clock io 0), ps_result := Some result\<rparr>))))"
  have "rsafe E (pbind (look ?check) ?k) (\<lambda>_ _. True) w1"
  proof (rule rsafe_read [OF w1(1)])
    fix w2 :: "'a res_world" and x assume w2: "res_rely E w1 w2" "res_inv E w2" "?check w2 = Inr x"
    have "validate_resolution_result (eg_prims E) x = Inr ()" using w2(3) by (auto simp: rbind_eq_Inr)
    moreover have "check_record (eg_prims E) job = Inr ()" using loaded_check job by blast
    ultimately have "check_record (eg_prims E) (job\<lparr>ps_verified_at_ms := Some (io_clock io 0), ps_result := Some x\<rparr>) = Inr ()"
      by (auto simp: check_record_def rbind_eq_Inr)
    then show "rsafe E (?k x) (\<lambda>_ _. True) w2"
      using job rely_find_live [OF w1(1) w2(1)] by (intro replace_safe [where job = job, OF w2(2)]) auto
  qed simp
  then show "rsafe E (case ha_chosen_option answer of
         Defer \<Rightarrow> act (mark_state E (io_commit io 0) (ha_job_id answer) RsDeferred)
       | KeepUnresolved \<Rightarrow> act (mark_state E (io_commit io 0) (ha_job_id answer) RsKeepUnresolved)
       | SubmitCandidate \<Rightarrow> pbind (look ?check) ?k) (\<lambda>_ _. True) w1"
    using w1(1) by (cases "ha_chosen_option answer") (simp_all add: mark_plain_op_safe)
qed simp_all

lemma defer_safe: "res_inv E w \<Longrightarrow> rsafe E (defer_locked E io job_id) (\<lambda>_ _. True) w"
  unfolding defer_locked_def
proof (rule rsafe_action)
  fix w' :: "'a res_world" assume "res_inv E w'"
  then have "stays E (store_write (eg_prims E) (io_commit io 0) (modify_job job_id (\<lambda>r.
        rbind (ensure (ps_state r = RsActive) (NotActive (ps_state r))) (\<lambda>_. set_state RsDeferred r)))) w'"
    by (rule modify_safe) (auto simp: rbind_eq_Inr set_state_Inr record_step_def intro: record_inv_set)
  then show "stays E (store_write (eg_prims E) (io_commit io 0) (modify_job job_id (\<lambda>r.
        rbind (ensure (ps_state r = RsActive) (NotActive (ps_state r))) (\<lambda>_. set_state RsDeferred r)))) w' \<and> True" by simp
qed simp_all

section \<open>Candidate files\<close>

lemma res_inv_candidates [simp]: "res_inv E (w\<lparr>rw_candidates := c\<rparr>) = res_inv E w"
  by (simp add: res_inv_def)

lemma res_guarantee_candidates [simp]: "res_guarantee E w (w\<lparr>rw_candidates := c\<rparr>)"
  by (simp add: res_guarantee_def head_step_def db_step_def)

lemma world_eta: "\<exists>c. w = w\<lparr>rw_candidates := c\<rparr>" for w :: "'v res_world"
  by (rule exI [of _ "rw_candidates w"]) simp

lemma create_new_file_world: "\<exists>c. snd (create_new_file failed path bs w) = w\<lparr>rw_candidates := c\<rparr>"
  using world_eta [of w]
  by (cases "rw_candidates w path")
    (auto simp: create_new_file_def Let_def split: candidate_open_error.splits)

lemma put_safe: "res_inv E w \<Longrightarrow> rsafe E (put_locked E failed job_id bs) (\<lambda>_ _. True) w"
  unfolding put_locked_def
proof (rule rsafe_read)
  fix w1 :: "'a res_world" and job assume "res_inv E w1"
  then have "rsafe E (act (create_new_file failed (destination_path (ps_job job)) bs)) (\<lambda>_ _. True) w1"
  proof (rule rsafe_action)
    fix w' :: "'a res_world" assume "res_inv E w'"
    with create_new_file_world [of failed "destination_path (ps_job job)" bs w']
    show "stays E (create_new_file failed (destination_path (ps_job job)) bs) w' \<and> True" by (auto simp: stays_def)
  qed
  then show "rsafe E (pbind (act (create_new_file failed (destination_path (ps_job job)) bs)) (\<lambda>mode.
     Done (Inr \<lparr>ca_path = destination_path (ps_job job), ca_hash = blake3_hex (eg_prims E) bs,
       ca_size = word_of_nat (length bs), ca_mode = mode, ca_deleted = False\<rparr>))) (\<lambda>_ _. True) w1"
    by (rule rsafe_then_done)
qed simp_all

lemma materialize_leg_safe: "res_inv E w \<Longrightarrow> rsafe E (materialize_leg E failed job rl) (\<lambda>_ _. True) w"
proof -
  assume i: "res_inv E w"
  obtain role leg where rl: "rl = (role, leg)" by (cases rl)
  let ?f = "\<lambda>bs w :: 'a res_world. case create_new_file (failed role) (leg_path (rj_job_id job) role) bs w of
            (Inl CandidateExists, w) \<Rightarrow> (Inl LegExists, w) | (Inl e, w) \<Rightarrow> (Inl e, w) | (Inr _, w) \<Rightarrow> (Inr (), w)"
  have "rsafe E (act (?f bs)) (\<lambda>_ _. True) w" for bs
  proof (rule rsafe_action [OF i])
    fix w' :: "'a res_world" assume i': "res_inv E w'"
    have "snd (?f bs w') = snd (create_new_file (failed role) (leg_path (rj_job_id job) role) bs w')"
      by (auto split: prod.splits sum.splits engine_error.splits)
    with create_new_file_world [of "failed role" "leg_path (rj_job_id job) role" bs w'] i'
    show "stays E (?f bs) w' \<and> True" by (auto simp: stays_def)
  qed
  with i show ?thesis
    by (auto simp: materialize_leg_def rl pbind_def split: sum.splits)
qed

lemma materialize_safe: "res_inv E w \<Longrightarrow> rsafe E (materialize_locked E failed job_id) (\<lambda>_ _. True) w"
  unfolding materialize_locked_def
  by (rule rsafe_read) (simp_all only: safe_pfor materialize_leg_safe)

section \<open>Every run\<close>

definition void :: "('v, 'a) resolution \<Rightarrow> ('v, unit) resolution" where
  "void p = pbind p (\<lambda>_. Done (Inr ()))"

text \<open>
  What the engine runs: the operations, and their parts under the lock on their own, since another operation may
  run between the recovery and what follows it. Recovery reads its lists of jobs before it takes the lock; another
  operation may change the records in between, so its locked part is an operation for any lists.
\<close>

inductive_set resolution_ops :: "res_engine \<Rightarrow> ('v, unit) resolution set" for E where
  op_recover: "recover_uncertain_publications E ios \<in> resolution_ops E"
| op_recover_locked: "recover_locked E ios uncertain sweep \<in> resolution_ops E"
| op_prepare: "void (prepare_resolution_job_guarded E io path prevention work seeds) \<in> resolution_ops E"
| op_import: "import_resolution_job E io job \<in> resolution_ops E"
| op_materialize: "materialize_locked E failed job_id \<in> resolution_ops E"
| op_put: "void (put_locked E failed job_id bs) \<in> resolution_ops E"
| op_submit: "void (submit_locked E io job_id result) \<in> resolution_ops E"
| op_answer: "answer_locked E io a \<in> resolution_ops E"
| op_defer: "defer_locked E io job_id \<in> resolution_ops E"
| op_revoke: "revoke_locked E io job_id superseded \<in> resolution_ops E"
| op_apply: "void (apply_locked E job_id attempts) \<in> resolution_ops E"
| full_prepare: "void (prepare_resolution_job E ios io path prevention work seeds) \<in> resolution_ops E"
| full_materialize: "materialize_resolution_legs E ios failed job_id \<in> resolution_ops E"
| full_put: "void (put_resolution_candidate E ios failed job_id bs) \<in> resolution_ops E"
| full_submit: "void (submit_resolution_result E ios io job_id result) \<in> resolution_ops E"
| full_answer: "answer_resolution E ios io a \<in> resolution_ops E"
| full_defer: "defer_resolution E ios io job_id \<in> resolution_ops E"
| full_revoke: "revoke_resolution_assignment E ios io job_id superseded \<in> resolution_ops E"
| full_apply: "void (apply_resolution_job E ios job_id attempts) \<in> resolution_ops E"
| full_status: "void (resolution_status E ios wanted) \<in> resolution_ops E"

lemma void_safe: "rsafe E p (\<lambda>_ _. True) w \<Longrightarrow> rsafe E (void p) (\<lambda>_ _. True) w"
  unfolding void_def by (rule rsafe_then_done)

lemma recovering_safe:
  assumes "res_inv E w" and "\<And>w. res_inv E w \<Longrightarrow> rsafe E p (\<lambda>_ _. True) w"
  shows "rsafe E (recovering E ios p) (\<lambda>_ _. True) w"
  unfolding recovering_def
  by (rule safe_pbind, rule safe_mono [OF recover_safe [OF assms(1)]]) (auto split: sum.splits intro: assms(2))

lemma status_safe: "res_inv E w \<Longrightarrow> rsafe E (look f) (\<lambda>_ _. True) w"
  by (auto simp: rsafe_look intro: res_inv_stable)

lemmas part_safe = prepare_safe import_safe materialize_safe put_safe submit_safe answer_safe defer_safe revoke_safe
  apply_safe status_safe

lemma op_safe: "p \<in> resolution_ops E \<Longrightarrow> res_inv E w \<Longrightarrow> rsafe E p (\<lambda>_ _. True) w"
  by (erule resolution_ops.cases) (auto simp only: handler_defs intro!: void_safe recovering_safe recover_safe recover_locked_safe part_safe)

interpretation resolution: crash_safe "resolution_ops E" "res_rely E" "res_guarantee E" "res_inv E" for E
  by standard (fact res_rely_refl res_rely_trans res_inv_stable op_safe)+

end
