(* ===== verification/Resolution_Recovery.thy ===== *)
theory Resolution_Recovery
  imports Resolution_Safety
begin

text \<open>
  Recovery comes to an end and settles every uncertain publication: when the hub answers and the writes succeed, a run of
  \<open>recover_uncertain_publications\<close> returns, completes exactly the records whose journal names the head and declares the other
  uncertain ones stale, leaves every other record alone, and no journal of a job behind. A store with more than 64 records (all live then, which
  only imported assignments can bring about) evicts a record once it is settled, until 64 are left.
\<close>

definition reliable :: "res_io \<Rightarrow> bool" where
  "reliable io \<longleftrightarrow> (\<forall>n. io_reply io n) \<and> (\<forall>n. io_commit io n = Replaced)"

text \<open>A store that loads and is trimmed, which the invariant gives for every store.\<close>

definition store_ok :: "res_engine \<Rightarrow> 'v res_world \<Rightarrow> bool" where
  "store_ok E w \<longleftrightarrow> resolution_load (eg_prims E) (rw_store w) = Inr (rw_store w) \<and> distinct (ids_of (rs_jobs (rw_store w)))
     \<and> trimmed (rs_jobs (rw_store w))"

lemma res_inv_store_ok: "res_inv E w \<Longrightarrow> store_ok E w"
  by (simp add: store_ok_def res_inv_def record_inv_def resolution_load_def rbind_eq_Inr for_each_eq_Inr)

definition settle :: "string \<Rightarrow> assignment_state \<Rightarrow> persisted_job list \<Rightarrow> persisted_job list" where
  "settle job_id to jobs = map (\<lambda>r. if rj_job_id (ps_job r) = job_id then r\<lparr>ps_state := to\<rparr> else r) jobs"

lemma settle_other: "job_id \<notin> set (ids_of jobs) \<Longrightarrow> settle job_id to jobs = jobs"
  unfolding settle_def ids_of_def by (rule map_idI) auto

lemma modify_settle:
  assumes "distinct (ids_of jobs)" and "find_job job_id jobs = Some r" and "f r = Inr (r\<lparr>ps_state := to\<rparr>)"
  shows "modify_job job_id f jobs = Inr (settle job_id to jobs)"
  using assms
proof (induction jobs)
  case (Cons a jobs)
  show ?case
  proof (cases "rj_job_id (ps_job a) = job_id")
    case True
    with Cons.prems have "job_id \<notin> set (ids_of jobs)" "a = r" by (auto simp: ids_of_def find_job_def)
    with True Cons.prems(3) settle_other [of job_id jobs to] show ?thesis by (simp add: settle_def)
  next
    case False
    with Cons show ?thesis by (simp add: settle_def find_job_def ids_of_def)
  qed
qed (simp add: find_job_def)

lemma ids_settle [simp]: "ids_of (settle job_id to jobs) = ids_of jobs"
  by (simp add: ids_of_def settle_def)

text \<open>The records after one of them is settled and the store trimmed.\<close>

definition settle_trim :: "string \<Rightarrow> assignment_state \<Rightarrow> persisted_job list \<Rightarrow> persisted_job list" where
  "settle_trim job_id to jobs =
     (if length jobs \<le> resolution_max_jobs then settle job_id to jobs else filter (\<lambda>r. rj_job_id (ps_job r) \<noteq> job_id) jobs)"

lemma filter_id_length:
  assumes "distinct (ids_of jobs)" and "find_job job_id jobs = Some r"
  shows "length (filter (\<lambda>r. rj_job_id (ps_job r) \<noteq> job_id) jobs) + 1 = length jobs
    \<and> filter (\<lambda>r. rj_job_id (ps_job r) = job_id) jobs = [r]"
proof -
  from find_job_Some [OF assms(2)] obtain us vs where split: "jobs = us @ r # vs" and id: "rj_job_id (ps_job r) = job_id"
    by (meson split_list)
  have "x \<in> set us \<union> set vs \<Longrightarrow> rj_job_id (ps_job x) \<noteq> job_id" for x
    using assms(1) id by (auto simp: split ids_of_def image_iff)
  then have "filter (\<lambda>r. rj_job_id (ps_job r) \<noteq> job_id) us = us" "filter (\<lambda>r. rj_job_id (ps_job r) \<noteq> job_id) vs = vs"
    "filter (\<lambda>r. rj_job_id (ps_job r) = job_id) us = []" "filter (\<lambda>r. rj_job_id (ps_job r) = job_id) vs = []"
    by (simp_all add: filter_id_conv filter_empty_conv)
  with id show ?thesis by (simp add: split)
qed

lemma trim_settle:
  assumes "distinct (ids_of jobs)" and "trimmed jobs" and "find_job job_id jobs = Some r" and "assignment_terminal to"
  shows "trim_jobs (settle job_id to jobs) = settle_trim job_id to jobs"
proof (cases "length jobs \<le> resolution_max_jobs")
  case True
  then show ?thesis by (simp add: trim_jobs_def settle_def settle_trim_def)
next
  case False
  then have live: "\<forall>r\<in>set jobs. live_job r" using assms(2) by (simp add: trimmed_def)
  note f = filter_id_length [OF assms(1,3)]
  have kept: "filter live_job (settle job_id to jobs) = filter (\<lambda>r. rj_job_id (ps_job r) \<noteq> job_id) jobs"
    using live assms(4) by (induction jobs) (auto simp: settle_def live_job_def)
  have gone: "length (filter (\<lambda>r. assignment_terminal (ps_state r)) (settle job_id to jobs)) = 1"
  proof -
    have "length (filter (\<lambda>r. assignment_terminal (ps_state r)) (settle job_id to jobs)) + length (filter live_job (settle job_id to jobs))
        = length (settle job_id to jobs)"
      unfolding live_job_def by (rule sum_length_filter_compl)
    with f kept show ?thesis by (simp add: settle_def)
  qed
  have "\<not> length (settle job_id to jobs) \<le> resolution_max_jobs" using False by (simp add: settle_def)
  moreover have "resolution_max_jobs - (length (settle job_id to jobs) - 1) = 0" using False by (simp add: settle_def)
  ultimately show ?thesis using False unfolding trim_jobs_def Let_def settle_trim_def by (simp add: kept gone)
qed

lemma settle_trim_ids: "set (ids_of (settle_trim job_id to jobs)) \<subseteq> set (ids_of jobs)"
  by (auto simp: settle_trim_def settle_def ids_of_def)

lemma settle_trim_length: "length (settle_trim job_id to jobs) \<le> length jobs"
  by (simp add: settle_trim_def settle_def)

lemma settle_trim_ok:
  assumes "distinct (ids_of jobs)" and "trimmed jobs"
  shows "distinct (ids_of (settle_trim job_id to jobs)) \<and> trimmed (settle_trim job_id to jobs)"
proof (cases "length jobs \<le> resolution_max_jobs")
  case True
  with assms(1) show ?thesis by (simp add: settle_trim_def trimmed_def) (simp add: settle_def)
next
  case False
  have "distinct (ids_of (filter (\<lambda>r. rj_job_id (ps_job r) \<noteq> job_id) jobs))"
    using assms(1) unfolding ids_of_def by (rule distinct_map_filter)
  with False assms(2) show ?thesis by (simp add: settle_trim_def trimmed_def)
qed

text \<open>Which records are in the store after it: what does not have the identifier stays; what has it is settled, or evicted from a store over its bound.\<close>

lemma settle_trim_mem:
  "r \<in> set jobs \<Longrightarrow> rj_job_id (ps_job r) \<noteq> job_id \<Longrightarrow> r \<in> set (settle_trim job_id to jobs)"
  "r \<in> set jobs \<Longrightarrow> rj_job_id (ps_job r) = job_id \<Longrightarrow> r\<lparr>ps_state := to\<rparr> \<in> set (settle_trim job_id to jobs)
     \<or> resolution_max_jobs < length jobs \<and> job_id \<notin> set (ids_of (settle_trim job_id to jobs))"
  "r' \<in> set (settle_trim job_id to jobs) \<Longrightarrow> \<exists>r\<in>set jobs. r' = (if rj_job_id (ps_job r) = job_id then r\<lparr>ps_state := to\<rparr> else r)"
  by (force simp: settle_trim_def settle_def ids_of_def split: if_splits)+

definition settled :: "string \<Rightarrow> assignment_state \<Rightarrow> 'v res_world \<Rightarrow> 'v res_world" where
  "settled job_id to w = w\<lparr>rw_store :=
     \<lparr>rs_schema_version = resolution_store_schema_version, rs_jobs = settle_trim job_id to (rs_jobs (rw_store w))\<rparr>\<rparr>"

lemma load_settle:
  assumes "resolution_load P st = Inr st"
  shows "resolution_load P \<lparr>rs_schema_version = resolution_store_schema_version, rs_jobs = settle_trim job_id to (rs_jobs st)\<rparr>
    = Inr \<lparr>rs_schema_version = resolution_store_schema_version, rs_jobs = settle_trim job_id to (rs_jobs st)\<rparr>"
  using assms by (auto simp: resolution_load_def rbind_eq_Inr for_each_eq_Inr settle_trim_def settle_def)

lemma settled_ok: "store_ok E w \<Longrightarrow> store_ok E (settled job_id to w)"
  by (simp add: store_ok_def settled_def load_settle settle_trim_ok)

lemma write_settles:
  assumes "store_ok E w" and "find_job job_id (rs_jobs (rw_store w)) = Some r" and "f r = Inr (r\<lparr>ps_state := to\<rparr>)"
    and "assignment_terminal to"
  shows "store_write (eg_prims E) Replaced (modify_job job_id f) w = (Inr (), settled job_id to w)"
proof -
  have l: "resolution_load (eg_prims E) (rw_store w) = Inr (rw_store w)" and d: "distinct (ids_of (rs_jobs (rw_store w)))"
    and b: "trimmed (rs_jobs (rw_store w))" using assms(1) by (simp_all add: store_ok_def)
  have "rs_schema_version (rw_store w) = resolution_store_schema_version"
    using l by (auto simp: resolution_load_def rbind_eq_Inr)
  then show ?thesis
    using modify_settle [where f = f, OF d assms(2,3)] load_settle [OF l] trim_settle [OF d b assms(2,4)]
    by (simp add: store_write_def resolution_changed_def settled_def)
qed

text \<open>What the database knows after the completion: the history has the entry, and the path is not in conflict.\<close>

definition recorded :: "resolution_job \<Rightarrow> resolution_result \<Rightarrow> 'v local_state \<Rightarrow> bool" where
  "recorded job result db \<longleftrightarrow> already_recorded (ci_path (rj_conflict job)) (rj_owner job) (published_hash result) db
     \<and> map_of (conflict_registry db) (ci_path (rj_conflict job)) = None"

text \<open>A later database has all that an earlier one recorded.\<close>

definition db_grows :: "'v local_state \<Rightarrow> 'v local_state \<Rightarrow> bool" where
  "db_grows db db' \<longleftrightarrow> (\<forall>job result. recorded job result db \<longrightarrow> recorded job result db')"

lemma db_grows_refl [simp]: "db_grows db db"
  by (simp add: db_grows_def)

lemma db_grows_trans: "db_grows a b \<Longrightarrow> db_grows b c \<Longrightarrow> db_grows a c"
  by (simp add: db_grows_def)

lemma record_once_run:
  assumes "reliable io"
  shows "\<exists>db. record_conflict_resolution_once (io_commit io n) now job hash w = (Inr (), w\<lparr>rw_db := db\<rparr>)
     \<and> already_recorded (ci_path (rj_conflict job)) (rj_owner job) hash db
     \<and> conflict_registry db = conflict_registry (rw_db w)
     \<and> (\<forall>p o' h. already_recorded p o' h (rw_db w) \<longrightarrow> already_recorded p o' h db)"
proof (cases "already_recorded (ci_path (rj_conflict job)) (rj_owner job) hash (rw_db w)")
  case True
  have "w = w\<lparr>rw_db := rw_db w\<rparr>" by simp
  with True show ?thesis by (intro exI [of _ "rw_db w"]) (simp add: record_conflict_resolution_once_def)
next
  case False
  let ?e = "\<lparr>res_path = ci_path (rj_conflict job), res_method = Candidate, res_source_file_hash = hash,
    res_resolved_at = now, res_resolver = rj_owner job\<rparr>"
  have "io_commit io n = Replaced" using assms by (simp add: reliable_def)
  with False show ?thesis
    by (intro exI [of _ "push_resolution ?e (rw_db w)"])
      (auto simp: record_conflict_resolution_once_def db_write_def record_conflict_resolution_def write_file_def
        already_recorded_iff candidate_history_push history_key_def push_resolution_registry)
qed

lemma finish_run:
  assumes "reliable io" and "store_ok E w" and "find_job (rj_job_id (ps_job r)) (rs_jobs (rw_store w)) = Some r"
    and "ps_state r = RsUncertain"
  shows "\<exists>w'. run (finish_job E io r result captured) w = (Inr (), w') \<and> store_ok E w' \<and> rw_head w' = rw_head w
     \<and> rw_store w' = rw_store (settled (rj_job_id (ps_job r)) RsCompleted w)
     \<and> rw_journals w' = AList.delete (rj_job_id (ps_job r)) (rw_journals w)
     \<and> recorded (ps_job r) result (rw_db w') \<and> db_grows (rw_db w) (rw_db w')"
proof -
  from record_once_run [OF assms(1), of 3 "io_clock io 3" "ps_job r" "published_hash result" w] obtain db where
    step1: "record_conflict_resolution_once (io_commit io 3) (io_clock io 3) (ps_job r) (published_hash result) w = (Inr (), w\<lparr>rw_db := db\<rparr>)"
    and rec: "already_recorded (ci_path (rj_conflict (ps_job r))) (rj_owner (ps_job r)) (published_hash result) db"
    and reg: "conflict_registry db = conflict_registry (rw_db w)"
    and mono: "\<forall>p o' h. already_recorded p o' h (rw_db w) \<longrightarrow> already_recorded p o' h db" by blast
  let ?db = "remove_record (ci_path (rj_conflict (ps_job r))) db"
  have ok: "io_commit io 4 = Replaced" "io_commit io 5 = Replaced" "io_reply io 7" using assms(1) by (simp_all add: reliable_def)
  then have step2: "db_write (io_commit io 4) (resolve_conflict_path (ci_path (rj_conflict (ps_job r)))) (w\<lparr>rw_db := db\<rparr>)
      = (Inr (), w\<lparr>rw_db := ?db\<rparr>)"
    by (simp add: db_write_def resolve_conflict_path_def write_file_def)
  obtain arts where step3: "cleanup_conflict_artifacts io (ps_job r) captured (w\<lparr>rw_db := ?db\<rparr>)
      = (Inr (), w\<lparr>rw_db := ?db, rw_artifacts := arts\<rparr>)" (is "_ = (Inr (), ?w3)")
  proof (cases captured)
    case None
    then show ?thesis by (intro that [of "rw_artifacts w"]) (simp add: cleanup_conflict_artifacts_def)
  next
    case (Some c)
    show ?thesis by (rule that) (simp add: cleanup_conflict_artifacts_def Some Let_def)
  qed
  have "store_ok E ?w3" using assms(2) by (simp add: store_ok_def)
  moreover have "find_job (rj_job_id (ps_job r)) (rs_jobs (rw_store ?w3)) = Some r" using assms(3) by simp
  moreover have "set_state RsCompleted r = Inr (r\<lparr>ps_state := RsCompleted\<rparr>)"
    using assms(4) by (simp add: set_state_def assert_state_transition_def)
  ultimately have step4: "mark_state E (io_commit io 5) (rj_job_id (ps_job r)) RsCompleted ?w3 = (Inr (), settled (rj_job_id (ps_job r)) RsCompleted ?w3)"
    using ok(2) write_settles [of E ?w3 "rj_job_id (ps_job r)" r "set_state RsCompleted" RsCompleted] by (simp add: mark_state_def assignment_terminal_def)
  have "already_recorded p o' h ?db = already_recorded p o' h db" for p o' h by (simp add: already_recorded_iff)
  with rec mono have "recorded (ps_job r) result ?db" "db_grows (rw_db w) ?db"
    by (auto simp: recorded_def db_grows_def remove_record_registry btree_remove_lookup reg)
  then show ?thesis
    using step1 step2 step3 step4 ok(3) settled_ok [OF assms(2), of "rj_job_id (ps_job r)" RsCompleted]
    by (simp add: finish_job_def Let_def remove_job_dir_def settled_def store_ok_def)
qed

section \<open>One record\<close>

definition verdict :: "string \<Rightarrow> 'v res_world \<Rightarrow> assignment_state" where
  "verdict job_id w = (if swap_proved job_id w then RsCompleted else RsStale)"

lemma recover_one_run:
  assumes "reliable io" and "store_ok E w" and "find_job job_id (rs_jobs (rw_store w)) = Some r"
    and "ps_state r = RsUncertain" and "ps_result r = Some result"
  shows "\<exists>w'. run (recover_one_uncertain E io job_id) w = (Inr (), w') \<and> store_ok E w' \<and> rw_head w' = rw_head w
     \<and> rs_jobs (rw_store w') = settle_trim job_id (verdict job_id w) (rs_jobs (rw_store w))
     \<and> rw_journals w' = AList.delete job_id (rw_journals w)
     \<and> db_grows (rw_db w) (rw_db w') \<and> (swap_proved job_id w \<longrightarrow> recorded (ps_job r) result (rw_db w'))"
proof -
  have load: "load_job (eg_prims E) job_id (rw_store w) = Inr r" using assms(2,3) by (simp add: load_job_Inr store_ok_def)
  have ok: "io_reply io 0" "io_reply io 8" "io_commit io 6 = Replaced" using assms(1) by (simp_all add: reliable_def)
  have id: "rj_job_id (ps_job r) = job_id" using find_job_Some [OF assms(3)] by blast
  show ?thesis
  proof (cases "swap_proved job_id w")
    case True
    let ?captured = "get_conflict_record (eg_sidecars E) (ci_path (rj_conflict (ps_job r))) (rw_db w)"
    from True load ok(1) assms(4,5) have "run (recover_one_uncertain E io job_id) w = run (finish_job E io r result ?captured) w"
      by (simp add: recover_one_uncertain_def complete_publication_def)
    with finish_run [OF assms(1,2) assms(3) [folded id] assms(4), of result ?captured] True show ?thesis
      by (auto simp: settled_def verdict_def id)
  next
    case False
    have "store_write (eg_prims E) Replaced (modify_job job_id (\<lambda>r. if ps_state r = RsUncertain then set_state RsStale r else Inr r)) w
        = (Inr (), settled job_id RsStale w)"
      by (rule write_settles [OF assms(2,3)]) (simp_all add: assms(4) set_state_def assert_state_transition_def assignment_terminal_def)
    with False load ok assms(4) have "run (recover_one_uncertain E io job_id) w = (Inr (), remove_journal job_id (settled job_id RsStale w))"
      by (simp add: recover_one_uncertain_def fail_closed_recovery_def drop_journal_def)
    moreover have "store_ok E (remove_journal job_id (settled job_id RsStale w))"
      using settled_ok [OF assms(2), of job_id RsStale] by (simp add: store_ok_def remove_journal_def)
    ultimately show ?thesis using False by (simp add: remove_journal_def settled_def verdict_def)
  qed
qed

section \<open>All records\<close>

definition judged :: "string list \<Rightarrow> 'v res_world \<Rightarrow> persisted_job \<Rightarrow> persisted_job" where
  "judged ids w r = (if rj_job_id (ps_job r) \<in> set ids then r\<lparr>ps_state := verdict (rj_job_id (ps_job r)) w\<rparr> else r)"

text \<open>
  The records after a number of them were settled: every other one is as it was; a settled one is in the store with its verdict, or was
  evicted from a store over its bound; nothing else is there; and within the bound nothing is lost or reordered.
\<close>

definition judges :: "string list \<Rightarrow> 'v res_world \<Rightarrow> persisted_job list \<Rightarrow> persisted_job list \<Rightarrow> bool" where
  "judges ids w jobs jobs' \<longleftrightarrow>
     (\<forall>r\<in>set jobs. judged ids w r \<in> set jobs'
        \<or> rj_job_id (ps_job r) \<in> set ids \<and> resolution_max_jobs < length jobs \<and> rj_job_id (ps_job r) \<notin> set (ids_of jobs'))
     \<and> (\<forall>r'\<in>set jobs'. \<exists>r\<in>set jobs. r' = judged ids w r)
     \<and> (length jobs \<le> resolution_max_jobs \<longrightarrow> jobs' = map (judged ids w) jobs)
     \<and> length jobs' \<le> length jobs"

lemma judged_id [simp]: "ps_job (judged ids w r) = ps_job r"
  by (simp add: judged_def)

lemma judges_one: "judges [mid] w jobs (settle_trim mid (verdict mid w) jobs)"
proof -
  have "judged [mid] w r = (if rj_job_id (ps_job r) = mid then r\<lparr>ps_state := verdict mid w\<rparr> else r)" for r
    by (simp add: judged_def)
  moreover have "settle_trim mid (verdict mid w) jobs = map (judged [mid] w) jobs" if "length jobs \<le> resolution_max_jobs"
    using that calculation by (simp add: settle_trim_def settle_def)
  moreover have "judged [mid] w r \<in> set (settle_trim mid (verdict mid w) jobs) \<or> rj_job_id (ps_job r) \<in> set [mid]
      \<and> resolution_max_jobs < length jobs \<and> rj_job_id (ps_job r) \<notin> set (ids_of (settle_trim mid (verdict mid w) jobs))"
    if "r \<in> set jobs" for r
    using settle_trim_mem(1,2) [OF that] calculation(1) by (cases "rj_job_id (ps_job r) = mid") auto
  ultimately show ?thesis
    using settle_trim_mem(3) settle_trim_length [of mid "verdict mid w" jobs] unfolding judges_def by metis
qed

lemma judges_ids: "judges ids w jobs jobs' \<Longrightarrow> set (ids_of jobs') \<subseteq> set (ids_of jobs)"
  by (force simp: judges_def ids_of_def)

lemma judged_comp:
  assumes "mid \<notin> set ids" and "\<forall>i\<in>set ids. swap_proved i w1 = swap_proved i w"
  shows "judged ids w1 (judged [mid] w r) = judged (mid # ids) w r"
  using assms by (auto simp: judged_def verdict_def)

lemma judges_comp:
  assumes "judges [mid] w jobs jobs1" and "judges ids w1 jobs1 jobs2" and "mid \<notin> set ids"
    and "\<forall>i\<in>set ids. swap_proved i w1 = swap_proved i w"
  shows "judges (mid # ids) w jobs jobs2"
  unfolding judges_def
proof (intro conjI ballI impI)
  note comp = judged_comp [OF assms(3,4)]
  fix r assume r: "r \<in> set jobs"
  show "judged (mid # ids) w r \<in> set jobs2 \<or> rj_job_id (ps_job r) \<in> set (mid # ids) \<and> resolution_max_jobs < length jobs
      \<and> rj_job_id (ps_job r) \<notin> set (ids_of jobs2)"
  proof (cases "judged [mid] w r \<in> set jobs1")
    case True
    with assms(2) have "judged ids w1 (judged [mid] w r) \<in> set jobs2 \<or> rj_job_id (ps_job r) \<in> set ids
        \<and> resolution_max_jobs < length jobs1 \<and> rj_job_id (ps_job r) \<notin> set (ids_of jobs2)"
      unfolding judges_def by (metis judged_id)
    moreover have "length jobs1 \<le> length jobs" using assms(1) by (simp add: judges_def)
    ultimately show ?thesis by (auto simp: comp)
  next
    case False
    with assms(1) r have "rj_job_id (ps_job r) = mid" "resolution_max_jobs < length jobs" "rj_job_id (ps_job r) \<notin> set (ids_of jobs1)"
      by (auto simp: judges_def)
    with judges_ids [OF assms(2)] show ?thesis by auto
  qed
next
  fix r2 assume "r2 \<in> set jobs2"
  with assms(2) obtain r1 where r1: "r1 \<in> set jobs1" "r2 = judged ids w1 r1" unfolding judges_def by blast
  with assms(1) obtain r where "r \<in> set jobs" "r1 = judged [mid] w r" unfolding judges_def by blast
  with r1 show "\<exists>r\<in>set jobs. r2 = judged (mid # ids) w r" using judged_comp [OF assms(3,4)] by auto
next
  assume "length jobs \<le> resolution_max_jobs"
  with assms(1,2) have "jobs1 = map (judged [mid] w) jobs" "jobs2 = map (judged ids w1) jobs1" by (simp_all add: judges_def)
  then show "jobs2 = map (judged (mid # ids) w) jobs" using judged_comp [OF assms(3,4)] by simp
next
  show "length jobs2 \<le> length jobs" using assms(1,2) unfolding judges_def by linarith
qed

lemma find_job_settle:
  assumes "job_id \<noteq> other" and "distinct (ids_of jobs)" and "trimmed jobs" and "find_job job_id jobs = Some r"
  shows "find_job job_id (settle_trim other to jobs) = Some r"
  using assms settle_trim_ok [OF assms(2,3), of other to] settle_trim_mem(1) [of r jobs other to] by (auto simp: find_job_eq)

lemma swap_proved_cong:
  "rw_head w' = rw_head w \<Longrightarrow> map_of (rw_journals w') job_id = map_of (rw_journals w) job_id \<Longrightarrow> swap_proved job_id w' = swap_proved job_id w"
  by (simp only: swap_proved_def)

text \<open>The jobs that recovery goes over: each is in the store, uncertain and has a result.\<close>

definition unsettled :: "string list \<Rightarrow> 'v res_world \<Rightarrow> bool" where
  "unsettled ids w \<longleftrightarrow> distinct ids \<and> (\<forall>id\<in>set ids. \<exists>r result. find_job id (rs_jobs (rw_store w)) = Some r
     \<and> ps_state r = RsUncertain \<and> ps_result r = Some result)"

lemma recover_all_run:
  assumes "\<And>id. reliable (ios id)" and "store_ok E w" and "unsettled ids w"
  shows "\<exists>w'. run (pfor (\<lambda>id. recover_one_uncertain E (ios id) id) ids) w = (Inr (), w') \<and> store_ok E w' \<and> rw_head w' = rw_head w
     \<and> judges ids w (rs_jobs (rw_store w)) (rs_jobs (rw_store w'))
     \<and> (\<forall>id. map_of (rw_journals w') id = (if id \<in> set ids then None else map_of (rw_journals w) id))
     \<and> db_grows (rw_db w) (rw_db w')
     \<and> (\<forall>id r result. id \<in> set ids \<longrightarrow> swap_proved id w \<longrightarrow> find_job id (rs_jobs (rw_store w)) = Some r \<longrightarrow> ps_result r = Some result
          \<longrightarrow> recorded (ps_job r) result (rw_db w'))"
  using assms(2,3)
proof (induction ids arbitrary: w)
  case (Cons id ids)
  from Cons.prems(2) obtain r result where r: "find_job id (rs_jobs (rw_store w)) = Some r" "ps_state r = RsUncertain"
    "ps_result r = Some result" and d: "id \<notin> set ids" "distinct ids" by (auto simp: unsettled_def)
  from recover_one_run [OF assms(1) Cons.prems(1) r] obtain w1 where w1: "run (recover_one_uncertain E (ios id) id) w = (Inr (), w1)"
    "store_ok E w1" "rw_head w1 = rw_head w" "rs_jobs (rw_store w1) = settle_trim id (verdict id w) (rs_jobs (rw_store w))"
    "rw_journals w1 = AList.delete id (rw_journals w)" "db_grows (rw_db w) (rw_db w1)"
    "swap_proved id w \<longrightarrow> recorded (ps_job r) result (rw_db w1)" by blast
  have ok: "distinct (ids_of (rs_jobs (rw_store w)))" "trimmed (rs_jobs (rw_store w))" using Cons.prems(1) by (simp_all add: store_ok_def)
  have find: "find_job i (rs_jobs (rw_store w1)) = find_job i (rs_jobs (rw_store w))" if i: "i \<in> set ids" for i
  proof -
    from Cons.prems(2) i obtain x where "find_job i (rs_jobs (rw_store w)) = Some x" by (auto simp: unsettled_def)
    moreover from i d(1) have "i \<noteq> id" by blast
    ultimately show ?thesis using find_job_settle [OF _ ok] by (simp add: w1(4))
  qed
  have proved: "swap_proved i w1 = swap_proved i w" if "i \<in> set ids" for i
    by (rule swap_proved_cong [OF w1(3)]) (use that d(1) in \<open>auto simp: w1(5) delete_conv'\<close>)
  have "unsettled ids w1" using Cons.prems(2) d(2) find by (auto simp: unsettled_def)
  from Cons.IH [OF w1(2) this] obtain w2 where w2: "run (pfor (\<lambda>id. recover_one_uncertain E (ios id) id) ids) w1 = (Inr (), w2)"
    "store_ok E w2" "rw_head w2 = rw_head w1" "judges ids w1 (rs_jobs (rw_store w1)) (rs_jobs (rw_store w2))"
    "\<forall>id. map_of (rw_journals w2) id = (if id \<in> set ids then None else map_of (rw_journals w1) id)"
    "db_grows (rw_db w1) (rw_db w2)"
    "\<forall>id r result. id \<in> set ids \<longrightarrow> swap_proved id w1 \<longrightarrow> find_job id (rs_jobs (rw_store w1)) = Some r \<longrightarrow> ps_result r = Some result
          \<longrightarrow> recorded (ps_job r) result (rw_db w2)" by blast
  have jobs: "judges (id # ids) w (rs_jobs (rw_store w)) (rs_jobs (rw_store w2))"
    by (rule judges_comp [OF _ w2(4) d(1)]) (use judges_one proved in \<open>auto simp: w1(4)\<close>)
  have journals: "map_of (rw_journals w2) i = (if i \<in> set (id # ids) then None else map_of (rw_journals w) i)" for i
    using w2(5) by (simp add: w1(5) delete_conv')
  have recs: "recorded (ps_job x) y (rw_db w2)" if "i \<in> set (id # ids)" "swap_proved i w" "find_job i (rs_jobs (rw_store w)) = Some x"
      "ps_result x = Some y" for i x y
  proof (cases "i = id")
    case True
    with that r w1(7) have "recorded (ps_job x) y (rw_db w1)" by simp
    with w2(6) show ?thesis by (simp add: db_grows_def)
  next
    case False
    with that w2(7) find proved show ?thesis by simp
  qed
  show ?case
    by (rule exI [of _ w2]) (use w1 w2 jobs journals recs db_grows_trans [OF w1(6) w2(6)] in simp)
qed (simp add: judges_def judged_def [abs_def])

text \<open>The sweep only removes journals.\<close>

lemma sweep_one_run:
  assumes "reliable io" and "load_job (eg_prims E) job_id (rw_store w) = Inr r"
  shows "\<exists>w'. run (sweep_one E io job_id) w = (Inr (), w') \<and> rw_store w' = rw_store w \<and> rw_head w' = rw_head w
     \<and> rw_db w' = rw_db w \<and> (\<forall>i. map_of (rw_journals w') i = (if i = job_id then None else map_of (rw_journals w) i))"
proof (cases "map_of (rw_journals w) job_id")
  case None
  then show ?thesis by (simp add: sweep_one_def)
next
  case (Some j)
  moreover have "io_reply io 7" "io_reply io 8" using assms(1) by (simp_all add: reliable_def)
  ultimately show ?thesis
    using assms(2) by (cases "ps_state r = RsCompleted")
      (simp_all add: sweep_one_def remove_job_dir_def drop_journal_def remove_journal_def delete_conv')
qed

lemma sweep_run:
  assumes "\<And>id. reliable (ios id)" and "store_ok E w" and "\<forall>id\<in>set ids. find_job id (rs_jobs (rw_store w)) \<noteq> None"
  shows "\<exists>w'. run (pfor (\<lambda>id. sweep_one E (ios id) id) ids) w = (Inr (), w') \<and> rw_store w' = rw_store w \<and> rw_head w' = rw_head w
     \<and> rw_db w' = rw_db w \<and> (\<forall>id. map_of (rw_journals w') id = (if id \<in> set ids then None else map_of (rw_journals w) id))"
  using assms(2,3)
proof (induction ids arbitrary: w)
  case (Cons id ids)
  from Cons.prems obtain r where "load_job (eg_prims E) id (rw_store w) = Inr r" by (auto simp: load_job_Inr store_ok_def)
  from sweep_one_run [OF assms(1) this] obtain w1 where w1: "run (sweep_one E (ios id) id) w = (Inr (), w1)" "rw_store w1 = rw_store w" "rw_head w1 = rw_head w"
    "rw_db w1 = rw_db w" "\<forall>i. map_of (rw_journals w1) i = (if i = id then None else map_of (rw_journals w) i)"
    by blast
  have "store_ok E w1" using Cons.prems(1) by (simp add: store_ok_def w1(2))
  from Cons.IH [OF this] Cons.prems(2) obtain w2 where w2: "run (pfor (\<lambda>id. sweep_one E (ios id) id) ids) w1 = (Inr (), w2)"
    "rw_store w2 = rw_store w1" "rw_head w2 = rw_head w1" "rw_db w2 = rw_db w1"
    "\<forall>i. map_of (rw_journals w2) i = (if i \<in> set ids then None else map_of (rw_journals w1) i)" by (auto simp: w1(2))
  show ?case by (rule exI [of _ w2]) (use w1 w2 in simp)
qed simp

lemma uncertain_unsettled:
  assumes "res_inv E w" and "store_ok E w"
  shows "unsettled (job_ids (\<lambda>r. ps_state r = RsUncertain) (rs_jobs (rw_store w))) w"
proof -
  have d: "distinct (ids_of (rs_jobs (rw_store w)))" using assms(2) by (simp add: store_ok_def)
  have "\<exists>result. find_job (rj_job_id (ps_job r)) (rs_jobs (rw_store w)) = Some r \<and> ps_result r = Some result"
    if r: "r \<in> set (rs_jobs (rw_store w))" "ps_state r = RsUncertain" for r
  proof -
    from r(1) obtain us vs where "rs_jobs (rw_store w) = us @ r # vs" by (meson split_list)
    then have "find_job (rj_job_id (ps_job r)) (rs_jobs (rw_store w)) = Some r" using find_job_split [of us r vs] d by simp
    moreover have "record_inv E (rw_journals w) (rw_head_log w) r" using assms(1) r(1) by (simp add: res_inv_def)
    ultimately show ?thesis using r(2) by (auto simp: record_inv_def)
  qed
  moreover have "distinct (job_ids (\<lambda>r. ps_state r = RsUncertain) (rs_jobs (rw_store w)))"
    using d unfolding job_ids_def ids_of_def by (rule distinct_map_filter)
  ultimately show ?thesis unfolding unsettled_def job_ids_def by fastforce
qed

lemma recovery_run:
  assumes "\<And>id. reliable (ios id)" and "res_inv E w"
  shows "\<exists>w'. run (recover_uncertain_publications E ios) w = (Inr (), w') \<and> rw_head w' = rw_head w
     \<and> judges (job_ids (\<lambda>r. ps_state r = RsUncertain) (rs_jobs (rw_store w))) w (rs_jobs (rw_store w)) (rs_jobs (rw_store w'))
     \<and> (\<forall>r\<in>set (rs_jobs (rw_store w)). map_of (rw_journals w') (rj_job_id (ps_job r)) = None)
     \<and> (\<forall>r\<in>set (rs_jobs (rw_store w)). \<forall>result. ps_state r = RsUncertain \<longrightarrow> swap_proved (rj_job_id (ps_job r)) w
          \<longrightarrow> ps_result r = Some result \<longrightarrow> recorded (ps_job r) result (rw_db w'))"
proof -
  let ?jobs = "rs_jobs (rw_store w)"
  let ?ids = "job_ids (\<lambda>r. ps_state r = RsUncertain) ?jobs"
  let ?others = "job_ids (\<lambda>r. ps_state r \<noteq> RsUncertain) ?jobs"
  have store: "store_ok E w" by (rule res_inv_store_ok [OF assms(2)])
  then have d: "distinct (ids_of ?jobs)" and load: "resolution_load (eg_prims E) (rw_store w) = Inr (rw_store w)"
    by (simp_all add: store_ok_def)
  have found: "find_job (rj_job_id (ps_job r)) ?jobs = Some r" if "r \<in> set ?jobs" for r
    using that by (simp add: find_job_eq [OF d])
  from recover_all_run [where ios = ios, OF assms(1) store uncertain_unsettled [OF assms(2) store]] obtain w1 where
    w1: "run (pfor (\<lambda>id. recover_one_uncertain E (ios id) id) ?ids) w = (Inr (), w1)" "store_ok E w1" "rw_head w1 = rw_head w"
    "judges ?ids w ?jobs (rs_jobs (rw_store w1))"
    "\<forall>id. map_of (rw_journals w1) id = (if id \<in> set ?ids then None else map_of (rw_journals w) id)"
    "\<forall>id r result. id \<in> set ?ids \<longrightarrow> swap_proved id w \<longrightarrow> find_job id ?jobs = Some r \<longrightarrow> ps_result r = Some result
          \<longrightarrow> recorded (ps_job r) result (rw_db w1)" by blast
  have "find_job id (rs_jobs (rw_store w1)) \<noteq> None" if id: "id \<in> set ?others" for id
  proof -
    from id obtain r where r: "r \<in> set ?jobs" "ps_state r \<noteq> RsUncertain" "rj_job_id (ps_job r) = id" by (auto simp: job_ids_def)
    have "id \<notin> set ?ids"
    proof
      assume "id \<in> set ?ids"
      then obtain x where "x \<in> set ?jobs" "ps_state x = RsUncertain" "rj_job_id (ps_job x) = id" by (auto simp: job_ids_def)
      with found [of x] found [of r] r show False by simp
    qed
    with w1(4) r have "judged ?ids w r \<in> set (rs_jobs (rw_store w1))" unfolding judges_def by blast
    with w1(2) have "find_job id (rs_jobs (rw_store w1)) = Some (judged ?ids w r)" by (simp add: find_job_eq store_ok_def r(3))
    then show ?thesis by simp
  qed
  then obtain w2 where w2: "run (pfor (\<lambda>id. sweep_one E (ios id) id) ?others) w1 = (Inr (), w2)" "rw_store w2 = rw_store w1"
    "rw_head w2 = rw_head w1" "rw_db w2 = rw_db w1"
    "\<forall>id. map_of (rw_journals w2) id = (if id \<in> set ?others then None else map_of (rw_journals w1) id)"
    using sweep_run [where ios = ios and ids = ?others, OF assms(1) w1(2)] by blast
  have swept: "map_of (rw_journals w2) (rj_job_id (ps_job r)) = None" if "r \<in> set ?jobs" for r
    using that w1(5) w2(5) by (auto simp: job_ids_def)
  have "run (recover_uncertain_publications E ios) w = (Inr (), w2)"
    by (simp add: recover_uncertain_publications_def recover_locked_def load w1(1) w2(1))
  moreover have "recorded (ps_job r) result (rw_db w2)"
    if "r \<in> set ?jobs" "ps_state r = RsUncertain" "swap_proved (rj_job_id (ps_job r)) w" "ps_result r = Some result" for r result
  proof -
    have "rj_job_id (ps_job r) \<in> set ?ids" using that by (auto simp: job_ids_def)
    with that found w1(6) w2(4) show ?thesis by simp
  qed
  ultimately show ?thesis using swept w1(3,4) w2(2,3) by auto
qed

text \<open>The records that recovery judges are the uncertain ones.\<close>

lemma judged_uncertain:
  assumes "distinct (ids_of jobs)" and "r \<in> set jobs"
  shows "judged (job_ids (\<lambda>r. ps_state r = RsUncertain) jobs) w r =
    (if ps_state r = RsUncertain then r\<lparr>ps_state := verdict (rj_job_id (ps_job r)) w\<rparr> else r)"
proof -
  have "rj_job_id (ps_job r) \<in> set (job_ids (\<lambda>r. ps_state r = RsUncertain) jobs) \<longleftrightarrow> ps_state r = RsUncertain"
    using assms by (auto simp: job_ids_def ids_of_def distinct_map dest: inj_onD)
  then show ?thesis by (simp add: judged_def)
qed

lemma judges_uncertain:
  assumes "distinct (ids_of jobs)" and "judges (job_ids (\<lambda>r. ps_state r = RsUncertain) jobs) w jobs jobs'"
  shows "\<forall>r\<in>set jobs. ps_state r \<noteq> RsUncertain \<longrightarrow> r \<in> set jobs'"
    and "\<forall>r\<in>set jobs. ps_state r = RsUncertain \<longrightarrow> r\<lparr>ps_state := verdict (rj_job_id (ps_job r)) w\<rparr> \<in> set jobs'
       \<or> resolution_max_jobs < length jobs \<and> rj_job_id (ps_job r) \<notin> set (ids_of jobs')"
    and "\<forall>r'\<in>set jobs'. ps_state r' \<noteq> RsUncertain"
    and "length jobs \<le> resolution_max_jobs \<longrightarrow>
       jobs' = map (\<lambda>r. if ps_state r = RsUncertain then r\<lparr>ps_state := verdict (rj_job_id (ps_job r)) w\<rparr> else r) jobs"
proof -
  let ?ids = "job_ids (\<lambda>r. ps_state r = RsUncertain) jobs"
  note u = judged_uncertain [OF assms(1), where w = w]
  have mem: "rj_job_id (ps_job r) \<in> set ?ids \<longleftrightarrow> ps_state r = RsUncertain" if "r \<in> set jobs" for r
    using assms(1) that by (auto simp: job_ids_def ids_of_def distinct_map dest: inj_onD)
  show "\<forall>r\<in>set jobs. ps_state r \<noteq> RsUncertain \<longrightarrow> r \<in> set jobs'" using assms(2) u mem unfolding judges_def by metis
  show "\<forall>r\<in>set jobs. ps_state r = RsUncertain \<longrightarrow> r\<lparr>ps_state := verdict (rj_job_id (ps_job r)) w\<rparr> \<in> set jobs'
       \<or> resolution_max_jobs < length jobs \<and> rj_job_id (ps_job r) \<notin> set (ids_of jobs')"
    using assms(2) u unfolding judges_def by metis
  show "\<forall>r'\<in>set jobs'. ps_state r' \<noteq> RsUncertain"
  proof
    fix r' assume "r' \<in> set jobs'"
    with assms(2) obtain r where "r \<in> set jobs" "r' = judged ?ids w r" unfolding judges_def by blast
    then show "ps_state r' \<noteq> RsUncertain" using u by (simp add: verdict_def)
  qed
  show "length jobs \<le> resolution_max_jobs \<longrightarrow>
       jobs' = map (\<lambda>r. if ps_state r = RsUncertain then r\<lparr>ps_state := verdict (rj_job_id (ps_job r)) w\<rparr> else r) jobs"
    using assms(2) u unfolding judges_def by (simp cong: map_cong)
qed

end
