(* ===== verification/Resolution_Run.thy ===== *)
theory Resolution_Run
  imports Resolution_Recovery
begin

text \<open>
  Runs of the engine: what its contract gives for every history that starts with an empty store, worked through on one publication,
  and what goes wrong when the answer of the swap is lost or another machine is faster than recovery.
\<close>

section \<open>A publication\<close>

text \<open>One conflict at one path of a workspace without other files, and a result that deletes the path.\<close>

definition sample_file :: "char \<Rightarrow> u64 \<Rightarrow> file_state" where
  "sample_file c n = \<lparr>fs_path = ''src/main.rs'', fs_hash = hex64 c, fs_size = n, fs_mtime = 0, fs_deleted = False, fs_mode = 0\<rparr>"

definition sample_edit :: concurrent_edit where
  "sample_edit = \<lparr>ce_path = ''src/main.rs'', ce_base = Some (sample_file (CHR ''1'') 120), ce_ours = Some (sample_file (CHR ''2'') 121),
     ce_theirs = Some (sample_file (CHR ''3'') 122), ce_local_available = True, ce_cloud_available = True\<rparr>"

definition sample_engine :: res_engine where
  "sample_engine = \<lparr>eg_prims = const_prims, eg_workspace_id = ''fixture-workspace'', eg_format_version = 3,
     eg_sidecars = (\<lambda>_ _. Some ''src/main.rs''), eg_state_root = ''/state'',
     eg_snapshot = (\<lambda>_. Inr \<lparr>sn_root = hex64 (CHR ''4''), sn_parents = [], sn_author = ''agent-a'', sn_created_at_ms = 0, sn_message = None\<rparr>),
     eg_tree_state = (\<lambda>_. Inr ([], [sample_edit])), eg_seal = (\<lambda>_ _. None), eg_read_leg = (\<lambda>_ _ _. Inl IoFailed),
     eg_journal_len = (\<lambda>_. 0),
     eg_roster_json = \<lparr>roster_to_json = concat, ip_to_json = (\<lambda>_. []), ip_from_json = (\<lambda>_. None)\<rparr>\<rparr>"

definition sample_world :: "nat res_world" where
  "sample_world = \<lparr>rw_store = resolution_state_fresh, rw_job_files = [], rw_journals = [], rw_candidates = (\<lambda>_. Inl OpenNotFound),
     rw_artifacts = [], rw_db = local_state_default\<lparr>conflict_registry := [(''src/main.rs'', \<lparr>cr_path = ''src/main.rs'', cr_kind = EditEdit,
       cr_conflict_dir = ''/state/conflicts/1'', cr_opened_at = 0, cr_status = Pending, cr_fingerprint = Some ''f''\<rparr>)]\<rparr>,
     rw_head = Some (hex64 (CHR ''a'')), rw_head_log = [hex64 (CHR ''a'')]\<rparr>"

definition steady :: "swap_io \<Rightarrow> res_io" where
  "steady s = \<lparr>io_reply = (\<lambda>_. True), io_commit = (\<lambda>_. Replaced), io_clock = (\<lambda>_. 0), io_swap = s\<rparr>"

definition sample_final :: resolution_result where
  "sample_final = (case submitted_result const_prims (\<lambda>_. Inr []) [] (active_record 0 sample_job) sample_result of
     Inr result \<Rightarrow> result | Inl _ \<Rightarrow> sample_result)"

definition sample_submitted :: persisted_job where
  "sample_submitted = with_result 0 sample_final (active_record 0 sample_job)"

definition with_record :: "persisted_job \<Rightarrow> nat res_world \<Rightarrow> nat res_world" where
  "with_record r w = w\<lparr>rw_store := \<lparr>rs_schema_version = resolution_store_schema_version, rs_jobs = [r]\<rparr>\<rparr>"

lemma sample_submission:
  "submitted_result const_prims (\<lambda>_. Inr []) jobs (active_record 0 sample_job) sample_result = Inr sample_final"
proof -
  have "list_all id (verification_checks const_prims sample_job [] (the (rr_candidate sample_result)))"
    by (simp add: verification_checks_def sample_result_def path_allowed_def destination_path_def)
      (simp add: sample_job_def Let_def sample_identity_def)
  then have "\<exists>s. inline_verify_candidate const_prims sample_job [] (the (rr_candidate sample_result)) = Inr s"
    by (simp add: inline_verify_candidate_def Let_def)
  then show ?thesis
    by (auto simp: sample_final_def submitted_result_def sample_result_def active_record_def destination_path_def)
qed

lemma submitted_ready:
  assumes "submitted_result P read jobs job result = Inr x" and "rr_outcome result = CandidateReady"
  shows "\<exists>s. x = result\<lparr>rr_verification := s\<rparr> \<and> vs_status s = VPassed
     \<and> vs_summary s = ''engine inline verification policy executed at submit''"
proof -
  from assms obtain candidate bs s where s: "inline_verify_candidate P (ps_job job) bs candidate = Inr s" "x = result\<lparr>rr_verification := s\<rparr>"
    by (auto simp: submitted_result_def rbind_eq_Inr)
  then show ?thesis by (auto simp: inline_verify_candidate_def Let_def split: if_splits)
qed

lemma sample_final_fields:
  "sample_final = sample_result\<lparr>rr_verification := rr_verification sample_final\<rparr>"
  "vs_status (rr_verification sample_final) = VPassed"
  "vs_summary (rr_verification sample_final) = ''engine inline verification policy executed at submit''"
proof -
  have "rr_outcome sample_result = CandidateReady" by (simp add: sample_result_def)
  from submitted_ready [OF sample_submission this] obtain s where s: "sample_final = sample_result\<lparr>rr_verification := s\<rparr>"
    "vs_status s = VPassed" "vs_summary s = ''engine inline verification policy executed at submit''" by blast
  have "rr_verification sample_final = s" by (simp add: s(1))
  with s show "sample_final = sample_result\<lparr>rr_verification := rr_verification sample_final\<rparr>"
    "vs_status (rr_verification sample_final) = VPassed"
    "vs_summary (rr_verification sample_final) = ''engine inline verification policy executed at submit''" by simp_all
qed

lemma contract_Inr [simp]: "contract (Inr x) = Inr x"
  by (simp add: contract_def)

lemma sample_final_simps [simp]:
  "rr_outcome sample_final = CandidateReady" "rr_candidate sample_final = rr_candidate sample_result"
  "rr_job_id sample_final = ''fedcba9876543210fedcba9876543210''"
  by (subst sample_final_fields(1), simp add: sample_result_def sample_job_def Let_def)+

lemma sample_job_simps [simp]:
  "rj_job_id sample_job = ''fedcba9876543210fedcba9876543210''" "rj_conflict sample_job = sample_identity"
  "rj_conflict_fingerprint sample_job = hex64 (CHR ''e'')" "rj_current_snapshot sample_job = hex64 (CHR ''a'')"
  "rj_owner sample_job = ''agent-b''" "rj_assignment_id sample_job = ''0123456789abcdef0123456789abcdef''" "rj_attempt sample_job = 0"
  "destination_path sample_job = ''orchestrator/resolution/jobs/fedcba9876543210fedcba9876543210/candidate-0.bin''"
  by (simp_all add: sample_job_def Let_def destination_path_def)

lemma sample_result_valid:
  "validate_resolution_result const_prims sample_result = Inr ()" "validate_resolution_result const_prims sample_final = Inr ()"
proof -
  have "validate_outcome const_prims r = Inr ()"
    if "rr_candidate r = rr_candidate sample_result" "rr_outcome r = CandidateReady" "rr_question r = None" "rr_human_reason r = None"
      "vs_status (rr_verification r) = VPassed" for r
    using that sample_paths(3) [of "\<lambda>_. hex64 (CHR ''e'')"]
    by (simp add: validate_outcome_def validate_candidate_descriptor_def sample_result_def portable_path_within_def const_prims_def
        max_portable_path_bytes_def resolution_max_candidate_bytes_def sample_job_def Let_def)
  then have v: "validate_resolution_result const_prims (sample_result\<lparr>rr_verification := s\<rparr>) = Inr ()"
    if "vs_status s = VPassed" "length (vs_summary s) \<le> 2048" for s
    using that by (simp add: validate_resolution_result_def sample_result_def resolution_max_verification_summary_bytes_def
        resolution_max_diagnostics_def sample_valid)
  from v [of "rr_verification sample_result"] show "validate_resolution_result const_prims sample_result = Inr ()"
    by (simp add: sample_result_def)
  from v [OF sample_final_fields(2)] show "validate_resolution_result const_prims sample_final = Inr ()"
    by (subst sample_final_fields(1)) (simp add: sample_final_fields(3))
qed

lemma sample_load:
  assumes "ps_job r = sample_job" and "ps_result r = None \<or> ps_result r = Some sample_final"
  shows "resolution_load const_prims \<lparr>rs_schema_version = resolution_store_schema_version, rs_jobs = [r]\<rparr>
     = Inr \<lparr>rs_schema_version = resolution_store_schema_version, rs_jobs = [r]\<rparr>"
  using assms by (auto simp: resolution_load_def check_record_def sample_job_valid sample_result_valid)

lemma sample_engine_simps [simp]:
  "eg_prims sample_engine = const_prims" "eg_sidecars sample_engine = (\<lambda>_ _. Some ''src/main.rs'')" "eg_workspace_id sample_engine = ''fixture-workspace''"
  "eg_journal_len sample_engine j = 0"
  by (simp_all add: sample_engine_def)

lemma steady_simps [simp]: "io_reply (steady s) n" "io_commit (steady s) n = Replaced" "io_clock (steady s) n = 0" "io_swap (steady s) = s"
  by (simp_all add: steady_def)

lemma sample_import:
  "run (import_resolution_job sample_engine (steady s) sample_job) sample_world = (Inr (), with_record (active_record 0 sample_job) sample_world)"
  by (simp add: import_resolution_job_def sample_job_valid store_write_def resolution_changed_def import_job_def sample_world_def
      resolution_state_fresh_def trim_jobs_def resolution_max_jobs_def with_record_def sample_load active_record_def)

lemma sample_world_simps [simp]:
  "rw_store (with_record r w) = \<lparr>rs_schema_version = resolution_store_schema_version, rs_jobs = [r]\<rparr>"
  "rw_candidates (with_record r w) = rw_candidates w" "rw_head (with_record r w) = rw_head w" "rw_db (with_record r w) = rw_db w"
  "rw_journals (with_record r w) = rw_journals w" "rw_head_log (with_record r w) = rw_head_log w"
  by (simp_all add: with_record_def)

lemma sample_world_head [simp]:
  "rw_head sample_world = Some (hex64 (CHR ''a''))" "rw_head_log sample_world = [hex64 (CHR ''a'')]" "rw_journals sample_world = []"
  by (simp_all add: sample_world_def)

lemma with_record_twice [simp]: "with_record r (with_record r' w) = with_record r w"
  by (simp add: with_record_def)

text \<open>A write of the store that holds one record of the job.\<close>

lemma sample_write:
  assumes "ps_job r = sample_job" and "f r = Inr r'" and "ps_job r' = sample_job" and "ps_result r' = None \<or> ps_result r' = Some sample_final"
    and "job_id = ''fedcba9876543210fedcba9876543210''"
  shows "store_write const_prims Replaced (modify_job job_id f) (with_record r w) = (Inr (), with_record r' w)"
  using assms sample_load [of r'] by (simp add: store_write_def resolution_changed_def trim_jobs_def resolution_max_jobs_def) (simp add: with_record_def)

lemma sample_submit:
  "run (submit_locked sample_engine (steady s) ''fedcba9876543210fedcba9876543210'' sample_result)
     (with_record (active_record 0 sample_job) sample_world) = (Inr sample_final, with_record sample_submitted sample_world)"
proof -
  have "check_submission const_prims ''fedcba9876543210fedcba9876543210'' sample_result
      \<lparr>rs_schema_version = resolution_store_schema_version, rs_jobs = [active_record 0 sample_job]\<rparr> = Inr (active_record 0 sample_job)"
    by (simp add: check_submission_def sample_result_valid load_job_def sample_load find_job_def active_record_def result_matches_def)
      (simp add: sample_result_def)
  moreover have "submitted_result const_prims (\<lambda>c. read_candidate_file const_prims (ca_path c) c (with_record (active_record 0 sample_job) sample_world))
      [active_record 0 sample_job] (active_record 0 sample_job) sample_result = Inr sample_final"
    using sample_submission [of "[active_record 0 sample_job]"]
    by (simp add: submitted_result_def sample_result_def read_candidate_file_def sample_world_def)
  moreover have "store_write const_prims Replaced (modify_job ''fedcba9876543210fedcba9876543210'' (replace_record sample_submitted))
      (with_record (active_record 0 sample_job) sample_world) = (Inr (), with_record sample_submitted sample_world)"
    by (rule sample_write) (simp_all add: replace_record_def assert_state_transition_def active_record_def sample_submitted_def with_result_def)
  ultimately show ?thesis by (simp add: submit_locked_def sample_submitted_def)
qed

lemma sample_publish_check:
  "publish_check sample_engine (steady s) ''fedcba9876543210fedcba9876543210'' (with_record sample_submitted sample_world)
     = Inr (sample_submitted, sample_final, hex64 (CHR ''a''))"
proof -
  have job: "ps_job sample_submitted = sample_job" "ps_state sample_submitted = RsActive" "ps_result sample_submitted = Some sample_final"
    "ps_verified_at_ms sample_submitted = Some 0"
    by (simp_all add: sample_submitted_def with_result_def active_record_def)
  have "load_job const_prims ''fedcba9876543210fedcba9876543210'' \<lparr>rs_schema_version = resolution_store_schema_version, rs_jobs = [sample_submitted]\<rparr>
      = Inr sample_submitted"
    by (simp add: load_job_def sample_load job find_job_def)
  moreover have "check_fresh 0 sample_submitted = Inr ()"
    by (simp add: check_fresh_def job verification_expired_def i64_saturating_sub_def)
  moreover have "check_registry sample_engine (ci_path sample_identity) (rw_db sample_world) = Inr ()"
    by (simp add: check_registry_def sample_world_def sample_identity_def get_conflict_record_def is_conflict_fingerprinted_def
        is_pending_def sidecar_matches_record_def)
  moreover have "check_identity sample_engine (hex64 (CHR ''a'')) sample_job = Inr ()"
  proof -
    have "conflict_identity_from_edit ''fixture-workspace'' (hex64 (CHR ''a'')) (hex64 (CHR ''a'')) (hex64 (CHR ''4'')) sample_edit
        (binding_of sample_identity) = sample_identity"
      using less_imp_neq [OF hex64_less, of "CHR ''5''" "CHR ''6''"] less_imp_le [OF hex64_less, of "CHR ''5''" "CHR ''6''"]
      by (simp add: conflict_identity_from_edit_def sample_edit_def sample_file_def leg_descriptor_def Let_def binding_of_def
          sample_identity_def sample_leg_def derive_conflict_kind_def resolution_schema_version_def)
    then show ?thesis
      by (simp add: check_identity_def tree_state_at_def sample_engine_def find_conflict_def sample_edit_def [THEN arg_cong, of ce_path]
          sample_identity_def [THEN arg_cong, of ci_path] Let_def compute_conflict_identity_fingerprint_def const_prims_def)
  qed
  ultimately show ?thesis
    by (simp add: publish_check_def job)
qed

definition sample_journal :: publication_journal where
  "sample_journal = \<lparr>jn_job_id = ''fedcba9876543210fedcba9876543210'', jn_expected_head = hex64 (CHR ''a''),
     jn_planned_head = hex64 (CHR ''e''), jn_result = sample_final\<rparr>"

text \<open>The world when the journal is written and the record uncertain, and after the swap.\<close>

definition sample_uncertain :: "nat res_world" where
  "sample_uncertain = with_record (sample_submitted\<lparr>ps_state := RsUncertain\<rparr>)
     (sample_world\<lparr>rw_journals := [(''fedcba9876543210fedcba9876543210'', JournalOk sample_journal)]\<rparr>)"

definition sample_swapped :: "nat res_world" where
  "sample_swapped = swap_to (hex64 (CHR ''e'')) sample_uncertain"

lemma empty_tree: "is_ok (flat_to_tree_with_conflicts const_prims [] [])"
  by code_simp

lemma sample_plan:
  "plan_resolution_publication sample_engine (steady s) (publication_plan sample_submitted sample_final (hex64 (CHR ''a'')))
     (with_record sample_submitted sample_world) = Inr \<lparr>pp_expected_head = hex64 (CHR ''a''), pp_candidate_id = hex64 (CHR ''e'')\<rparr>"
proof -
  let ?plan = "publication_plan sample_submitted sample_final (hex64 (CHR ''a''))"
  have plan: "pl_identity ?plan = sample_identity" "pl_fingerprint ?plan = hex64 (CHR ''e'')" "pl_expected_head ?plan = hex64 (CHR ''a'')"
    "pl_candidate ?plan = rr_candidate sample_result" "pl_author ?plan = ''agent-b''" "pl_additional ?plan = []"
    "pl_candidate_file ?plan = Some (destination_path sample_job)"
    by (simp_all add: publication_plan_def sample_submitted_def active_record_def)
  have tree: "tree_state_at sample_engine (hex64 (CHR ''a'')) = Inr (\<lparr>sn_root = hex64 (CHR ''4''), sn_parents = [], sn_author = ''agent-a'',
      sn_created_at_ms = 0, sn_message = None\<rparr>, [], [sample_edit])"
    by (simp add: tree_state_at_def sample_engine_def)
  have path: "ce_path sample_edit = ''src/main.rs''" "ci_path sample_identity = ''src/main.rs''"
    by (simp_all add: sample_edit_def sample_identity_def)
  have legs: "same_legs sample_edit sample_identity"
    by (simp add: same_legs_def sample_edit_def sample_identity_def leg_descriptor_def sample_file_def sample_leg_def)
  then have same: "refreshed_identity (hex64 (CHR ''a'')) \<lparr>sn_root = hex64 (CHR ''4''), sn_parents = [], sn_author = ''agent-a'',
      sn_created_at_ms = 0, sn_message = None\<rparr> sample_edit sample_identity = sample_identity"
    by (simp add: same_legs_def refreshed_identity_def Let_def) (simp add: sample_identity_def sample_leg_def derive_conflict_kind_def)
  have cand: "candidate_state sample_engine (steady s) ?plan (with_record sample_submitted sample_world) = Inr None"
    by (simp add: candidate_state_def plan sample_result_def read_candidate_file_def) (simp add: sample_world_def)
  have files: "published_files ?plan None [] = []" by (simp add: published_files_def plan sample_result_def)
  obtain bd where "flat_to_tree_with_conflicts const_prims [] [] = Inr bd" using empty_tree by (auto simp: is_ok_iff)
  then have "write_snapshot sample_engine True 0 [] [] [hex64 (CHR ''a'')] ''agent-b'' (Some (resolve_message ''src/main.rs'')) = Inr (hex64 (CHR ''e''))"
    by (simp add: write_snapshot_def snapshot_id_def) (simp add: const_prims_def)
  then show ?thesis
    by (simp add: plan_resolution_publication_def plan tree path find_conflict_def legs same cand files compute_conflict_identity_fingerprint_def)
      (simp add: const_prims_def)
qed

section \<open>Schedules of the publication\<close>

lemmas schedule_simps = pbind_def look_def ptry_assoc steps_ptry_act

lemma sample_submitted_simps [simp]:
  "ps_job sample_submitted = sample_job" "ps_state sample_submitted = RsActive" "ps_result sample_submitted = Some sample_final"
  by (simp_all add: sample_submitted_def with_result_def active_record_def)

lemma sample_load_job:
  "ps_job r = sample_job \<Longrightarrow> ps_result r = Some sample_final \<Longrightarrow>
     load_job const_prims ''fedcba9876543210fedcba9876543210'' \<lparr>rs_schema_version = resolution_store_schema_version, rs_jobs = [r]\<rparr> = Inr r"
  by (simp add: load_job_def sample_load find_job_def)

lemma sample_applicable: "check_applicable sample_engine ''fedcba9876543210fedcba9876543210'' (with_record sample_submitted sample_world) = Inr ()"
  by (simp add: check_applicable_def sample_load_job)

lemma sample_journal_written:
  "write_publication_journal sample_engine Replaced ''fedcba9876543210fedcba9876543210''
     \<lparr>jn_job_id = ''fedcba9876543210fedcba9876543210'', jn_expected_head = hex64 (CHR ''a''), jn_planned_head = hex64 (CHR ''e''), jn_result = sample_final\<rparr>
     (with_record sample_submitted sample_world)
   = (Inr (), with_record sample_submitted (sample_world\<lparr>rw_journals := [(''fedcba9876543210fedcba9876543210'', JournalOk sample_journal)]\<rparr>))"
  by (simp add: write_publication_journal_def write_file_def sample_journal_def) (simp add: with_record_def)

lemma sample_marked:
  "mark_state sample_engine Replaced ''fedcba9876543210fedcba9876543210'' RsUncertain
     (with_record sample_submitted (sample_world\<lparr>rw_journals := [(''fedcba9876543210fedcba9876543210'', JournalOk sample_journal)]\<rparr>))
   = (Inr (), sample_uncertain)"
  unfolding mark_state_def sample_uncertain_def sample_engine_simps
  by (rule sample_write) (simp_all add: set_state_def assert_state_transition_def)

abbreviation sample_apply :: "swap_io \<Rightarrow> (nat, unit) resolution" where
  "sample_apply s \<equiv> void (apply_locked sample_engine ''fedcba9876543210fedcba9876543210'' (\<lambda>_. steady s))"

lemma sample_steps:
  "\<exists>k. steps 5 (sample_apply s) (with_record sample_submitted sample_world)
     = (ptry (act (commit_resolution_publication (steady s) \<lparr>pp_expected_head = hex64 (CHR ''a''), pp_candidate_id = hex64 (CHR ''e'')\<rparr>)) k, sample_uncertain)"
proof -
  have attempts: "map f [0..<resolution_max_apply_revalidations] = f 0 # map f [1..<3]" for f :: "nat \<Rightarrow> res_io"
    by (simp add: resolution_max_apply_revalidations_def upt_conv_Cons)
  have five: "(5 :: nat) = Suc (Suc (Suc (Suc (Suc 0))))" by simp
  show ?thesis
    unfolding five void_def apply_locked_def attempts apply_attempts.simps publish_once_def commit_planned_def
    by (simp only: schedule_simps sample_applicable sample_publish_check sample_plan sample_journal_written sample_marked steady_simps
        fst_conv snd_conv sum.case ptry.simps prod.case planned_publication.simps steps.simps(1)) blast
qed

lemma sample_reach:
  "reachable (resolution_ops sample_engine) (res_rely sample_engine) sample_world None (with_record sample_submitted sample_world)"
proof -
  let ?R = "reachable (resolution_ops sample_engine) (res_rely sample_engine) sample_world"
  have "?R (Some (import_resolution_job sample_engine (steady SwapAnswered) sample_job)) sample_world"
    by (intro reachable.start reachable.init resolution_ops.op_import)
  from reachable_run [OF this] have "?R None (with_record (active_record 0 sample_job) sample_world)" by (simp add: sample_import)
  then have "?R (Some (void (submit_locked sample_engine (steady SwapAnswered) ''fedcba9876543210fedcba9876543210'' sample_result)))
      (with_record (active_record 0 sample_job) sample_world)"
    by (intro reachable.start resolution_ops.op_submit)
  from reachable_run [OF this] show ?thesis by (simp add: void_def sample_submit)
qed

text \<open>The action that swaps the head, when it is sent.\<close>

lemma sample_swap_action:
  "\<exists>f. reachable (resolution_ops sample_engine) (res_rely sample_engine) sample_world (Some (Act f)) sample_uncertain
     \<and> snd (f sample_uncertain) = (if s = SwapUnsent then sample_uncertain else sample_swapped)"
proof -
  let ?R = "reachable (resolution_ops sample_engine) (res_rely sample_engine) sample_world"
  let ?commit = "commit_resolution_publication (steady s) \<lparr>pp_expected_head = hex64 (CHR ''a''), pp_candidate_id = hex64 (CHR ''e'')\<rparr>"
  have "?R (Some (sample_apply s)) (with_record sample_submitted sample_world)"
    by (intro reachable.start sample_reach resolution_ops.op_apply)
  from reachable_steps [OF this, of 5] sample_steps [of s] obtain k where "?R (Some (ptry (act ?commit) k)) sample_uncertain" by auto
  moreover obtain g where "ptry (act ?commit) k = Act g" "\<forall>w. snd (g w) = snd (?commit w)" using ptry_act_Act by blast
  moreover have "snd (?commit sample_uncertain) = (if s = SwapUnsent then sample_uncertain else sample_swapped)"
    by (cases s) (simp_all add: commit_resolution_publication_def sample_uncertain_def sample_swapped_def)
  ultimately show ?thesis by auto
qed

lemma sample_crash: "reachable (resolution_ops sample_engine) (res_rely sample_engine) sample_world None sample_swapped"
proof -
  from sample_swap_action [of SwapAnswered] obtain f where
    f: "reachable (resolution_ops sample_engine) (res_rely sample_engine) sample_world (Some (Act f)) sample_uncertain" "snd (f sample_uncertain) = sample_swapped"
    by auto
  obtain p w where "f sample_uncertain = (p, w)" by fastforce
  with f(2) reachable.action [OF f(1)] reachable.crash show ?thesis by auto
qed

section \<open>Every run of the engine\<close>

text \<open>A machine that has not resolved anything yet.\<close>

definition fresh_world :: "'v res_world \<Rightarrow> bool" where
  "fresh_world w \<longleftrightarrow> rw_store w = resolution_state_fresh \<and> candidate_history (rw_db w) = []
     \<and> (\<forall>h. rw_head w = Some h \<longrightarrow> h \<in> set (rw_head_log w))"

lemma fresh_world_inv: "fresh_world w \<Longrightarrow> res_inv E w"
  by (simp add: fresh_world_def res_inv_def resolution_state_fresh_def ids_of_def history_inv_def trimmed_def)

lemma fresh_sample: "fresh_world sample_world"
  by (simp add: fresh_world_def) (simp add: sample_world_def candidate_history_def local_state_default_def)


text \<open>
  C15: every action of every operation, in every such history, keeps to the contract. A record with the same identifier is of the same job and
  moves along the life cycle only, and a live one is not lost while the store is within its bound. The head moves only from the snapshot that an
  uncertain job was prepared on to one that resolves its conflict. The registry of conflicts and the history change only for a publication
  that is known to have won.
\<close>

theorem resolution_actions_guarded:
  assumes "fresh_world w0" and "reachable (resolution_ops E) (res_rely E) w0 (Some (Act f)) w" and "w' = snd (f w)"
  shows "(\<forall>r\<in>set (rs_jobs (rw_store w)). \<forall>r'\<in>set (rs_jobs (rw_store w')). rj_job_id (ps_job r') = rj_job_id (ps_job r) \<longrightarrow>
        ps_job r' = ps_job r \<and> (r' = r \<or> assert_state_transition (ps_state r) (ps_state r') = Inr ()))
     \<and> (length (rs_jobs (rw_store w)) \<le> resolution_max_jobs \<longrightarrow>
        (\<forall>r\<in>set (rs_jobs (rw_store w)). live_job r \<longrightarrow> (\<exists>r'\<in>set (rs_jobs (rw_store w')). ps_job r' = ps_job r)))
     \<and> (rw_head w' = rw_head w \<or> (\<exists>r\<in>set (rs_jobs (rw_store w)). \<exists>result h. ps_state r = RsUncertain \<and> ps_result r = Some result
          \<and> rw_head w = Some (rj_current_snapshot (ps_job r)) \<and> rw_head w' = Some h \<and> resolves E (ps_job r) result h))
     \<and> (rw_db w' = rw_db w \<or> (\<exists>r\<in>set (rs_jobs (rw_store w)). \<exists>result. ps_state r = RsUncertain \<and> ps_result r = Some result
          \<and> (\<exists>h\<in>set (rw_head_log w). resolves E (ps_job r) result h)))"
proof -
  note i = fresh_world_inv [OF assms(1), of E]
  have g: "jobs_step (rs_jobs (rw_store w)) (rs_jobs (rw_store w'))" "head_step E w w'" "db_step E w w'"
    using resolution.reachable_guarantee [OF i assms(2)] by (simp_all add: res_guarantee_def assms(3))
  have "reachable (resolution_ops E) (res_rely E) w0 (Some (fst (f w))) w'"
    by (rule reachable.action [OF assms(2)]) (simp add: assms(3))
  then have "distinct (ids_of (rs_jobs (rw_store w')))"
    using resolution.reachable_invariant [OF i] by (simp add: res_inv_def)
  then have uniq: "x = y" if "x \<in> set (rs_jobs (rw_store w'))" "y \<in> set (rs_jobs (rw_store w'))" "rj_job_id (ps_job x) = rj_job_id (ps_job y)" for x y
    using that by (auto simp: ids_of_def distinct_map dest: inj_onD)
  have kept: "ps_job r' = ps_job r \<and> (r' = r \<or> assert_state_transition (ps_state r) (ps_state r') = Inr ())"
    if r: "r \<in> set (rs_jobs (rw_store w))" "r' \<in> set (rs_jobs (rw_store w'))" "rj_job_id (ps_job r') = rj_job_id (ps_job r)" for r r'
  proof -
    from r(2,3) have "rj_job_id (ps_job r) \<in> set (ids_of (rs_jobs (rw_store w')))" by (metis ids_of_def image_eqI list.set_map)
    with g(1) r(1) obtain x where x: "x \<in> set (rs_jobs (rw_store w'))" "record_step r x" unfolding jobs_step_def by blast
    then have "x = r'" using uniq r by (metis record_step_def)
    with x(2) show ?thesis by (simp add: record_step_def)
  qed
  have live: "\<exists>r'\<in>set (rs_jobs (rw_store w')). ps_job r' = ps_job r"
    if "length (rs_jobs (rw_store w)) \<le> resolution_max_jobs" "r \<in> set (rs_jobs (rw_store w))" "live_job r" for r
    using g(1) that unfolding jobs_step_def live_job_def record_step_def by (metis leD)
  show ?thesis
    using kept live g(2,3) unfolding head_step_def db_step_def because_def published_as_def by blast
qed


lemma sample_swapped_simps:
  "rs_jobs (rw_store sample_swapped) = [sample_submitted\<lparr>ps_state := RsUncertain\<rparr>]"
  "swap_proved ''fedcba9876543210fedcba9876543210'' sample_swapped"
  "resolution_load const_prims (rw_store sample_swapped) = Inr (rw_store sample_swapped)"
  "rw_head sample_swapped = Some (hex64 (CHR ''e''))" "rw_head_log sample_swapped = [hex64 (CHR ''e''), hex64 (CHR ''a'')]"
  by (simp_all add: sample_swapped_def swap_to_def sample_uncertain_def swap_proved_def sample_journal_def sample_load)

lemma steady_reliable: "reliable (steady s)"
  by (simp add: reliable_def)


theorem resolution_actions_guarded_witness:
  "\<exists>f. reachable (resolution_ops sample_engine) (res_rely sample_engine) sample_world (Some (Act f)) sample_uncertain
     \<and> rw_head (snd (f sample_uncertain)) \<noteq> rw_head sample_uncertain
     \<and> resolves sample_engine sample_job sample_final (hex64 (CHR ''e''))"
proof -
  from sample_swap_action [of SwapAnswered] obtain f where
    f: "reachable (resolution_ops sample_engine) (res_rely sample_engine) sample_world (Some (Act f)) sample_uncertain" "snd (f sample_uncertain) = sample_swapped"
    by auto
  have "rw_head sample_swapped \<noteq> rw_head sample_uncertain"
    by (simp add: sample_swapped_simps) (simp add: sample_uncertain_def hex64_def)
  moreover from this have "resolves sample_engine sample_job sample_final (hex64 (CHR ''e''))"
    using resolution_actions_guarded [OF fresh_sample f(1) f(2) [symmetric]]
    by (auto simp: sample_swapped_simps) (auto simp: sample_uncertain_def)
  ultimately show ?thesis using f by auto
qed


section \<open>What the engine forgets\<close>

text \<open>
  The answer of the swap is lost: the head has moved, but the journal is gone and the record active again; no recovery will look at
  it, and every further attempt finds the head changed.
\<close>

lemma lost_reply_forgotten:
  "\<exists>w'. run (sample_apply SwapReplyLost) (with_record sample_submitted sample_world) = (Inl SwapFailed, w')
     \<and> rw_head w' = Some (hex64 (CHR ''e'')) \<and> rw_journals w' = [] \<and> rs_jobs (rw_store w') = [sample_submitted]"
proof -
  have attempts: "map f [0..<resolution_max_apply_revalidations] = f 0 # map f [1..<3]" for f :: "nat \<Rightarrow> res_io"
    by (simp add: resolution_max_apply_revalidations_def upt_conv_Cons)
  let ?planned = "\<lparr>pp_expected_head = hex64 (CHR ''a''), pp_candidate_id = hex64 (CHR ''e'')\<rparr>"
  have swap: "commit_resolution_publication (steady SwapReplyLost) ?planned sample_uncertain = (Inl SwapFailed, sample_swapped)"
    by (simp add: commit_resolution_publication_def sample_uncertain_def sample_swapped_def)
  let ?w = "with_record (sample_submitted\<lparr>ps_state := RsUncertain\<rparr>) (swap_to (hex64 (CHR ''e'')) sample_world)"
  have drop: "drop_journal True ''fedcba9876543210fedcba9876543210'' sample_swapped = (Inr (), ?w)"
    by (simp add: drop_journal_def remove_journal_def sample_swapped_def swap_to_def sample_uncertain_def with_record_def sample_world_def)
  have "sample_submitted\<lparr>ps_state := RsActive\<rparr> = sample_submitted" by (simp add: sample_submitted_def with_result_def active_record_def)
  then have mark: "mark_state sample_engine Replaced ''fedcba9876543210fedcba9876543210'' RsActive ?w
      = (Inr (), with_record sample_submitted (swap_to (hex64 (CHR ''e'')) sample_world))"
    unfolding mark_state_def sample_engine_simps
    by (intro sample_write) (simp_all add: set_state_def assert_state_transition_def)
  have "run (publish_once sample_engine (steady SwapReplyLost) ''fedcba9876543210fedcba9876543210'') (with_record sample_submitted sample_world)
     = (Inl SwapFailed, with_record sample_submitted (swap_to (hex64 (CHR ''e'')) sample_world))"
    by (simp add: publish_once_def sample_publish_check sample_plan sample_journal_written sample_marked commit_planned_def swap
        revert_publication_def drop mark)
  then show ?thesis
    unfolding void_def apply_locked_def attempts apply_attempts.simps
    by (simp add: sample_applicable) (simp add: swap_to_def)
qed

text \<open>
  Recovery asks only whether the head is still the planned snapshot: when another machine builds on the publication before recovery runs, the record
  becomes stale although its snapshot was the head.
\<close>

lemma published_declared_stale:
  "\<exists>w w'. reachable (resolution_ops sample_engine) (res_rely sample_engine) sample_world None w
     \<and> resolves sample_engine sample_job sample_final (hex64 (CHR ''e'')) \<and> hex64 (CHR ''e'') \<in> set (rw_head_log w)
     \<and> run (recover_uncertain_publications sample_engine (\<lambda>_. steady SwapAnswered)) w = (Inr (), w')
     \<and> map ps_state (rs_jobs (rw_store w')) = [RsStale]"
proof -
  let ?w = "swap_to (hex64 (CHR ''f'')) sample_swapped"
  have "res_rely sample_engine sample_swapped ?w" by (auto simp: res_rely_def swap_to_def)
  with reachable.others [OF sample_crash] have r: "reachable (resolution_ops sample_engine) (res_rely sample_engine) sample_world None ?w" by blast
  note i = resolution.reachable_invariant [OF fresh_world_inv [OF fresh_sample] r]
  have st: "rw_store ?w = rw_store sample_swapped" by (simp add: swap_to_def)
  have "hex64 (CHR ''f'') \<noteq> hex64 (CHR ''e'')" by (simp add: hex64_def)
  then have np: "\<not> swap_proved ''fedcba9876543210fedcba9876543210'' ?w"
    by (simp add: swap_proved_def swap_to_def sample_swapped_def sample_uncertain_def sample_journal_def)
  from recovery_run [where ios = "\<lambda>_. steady SwapAnswered", OF _ i] obtain w' where
    w': "run (recover_uncertain_publications sample_engine (\<lambda>_. steady SwapAnswered)) ?w = (Inr (), w')"
    "judges (job_ids (\<lambda>r. ps_state r = RsUncertain) (rs_jobs (rw_store ?w))) ?w (rs_jobs (rw_store ?w)) (rs_jobs (rw_store w'))"
    by (auto simp: steady_reliable)
  have "run (recover_uncertain_publications sample_engine (\<lambda>_. steady SwapAnswered)) ?w = (Inr (), w')" "map ps_state (rs_jobs (rw_store w')) = [RsStale]"
    using w'(1) judges_uncertain(4) [OF _ w'(2)] np by (simp_all add: st sample_swapped_simps verdict_def resolution_max_jobs_def ids_of_def)
  moreover have "record_inv sample_engine (rw_journals ?w) (rw_head_log ?w) (sample_submitted\<lparr>ps_state := RsUncertain\<rparr>)"
    using i by (simp add: res_inv_def st sample_swapped_simps)
  then have "resolves sample_engine sample_job sample_final (hex64 (CHR ''e''))"
    by (simp add: record_inv_def swap_to_def sample_swapped_def sample_uncertain_def sample_journal_def)
  ultimately show ?thesis using r by (intro exI [of _ ?w] exI [of _ w']) (simp add: swap_to_def sample_swapped_simps)
qed

text \<open>
  Recovery reads its list of settled jobs before it has the lock. When another process publishes such a job in between and dies, the sweep
  removes the journal of the uncertain record, and the next recovery declares the publication stale although its snapshot is the head.
\<close>

lemma stale_list_drops_journal:
  "\<exists>w w'. reachable (resolution_ops sample_engine) (res_rely sample_engine) sample_world None w
     \<and> rw_head w = Some (hex64 (CHR ''e'')) \<and> map ps_state (rs_jobs (rw_store w)) = [RsUncertain]
     \<and> swap_proved ''fedcba9876543210fedcba9876543210'' sample_swapped \<and> rw_journals w = []
     \<and> run (recover_uncertain_publications sample_engine (\<lambda>_. steady SwapAnswered)) w = (Inr (), w')
     \<and> map ps_state (rs_jobs (rw_store w')) = [RsStale]"
proof -
  let ?id = "''fedcba9876543210fedcba9876543210''"
  let ?p = "recover_locked sample_engine (\<lambda>_. steady SwapAnswered) [] [?id]"
  let ?w = "remove_journal ?id sample_swapped"
  have "load_job const_prims ?id (rw_store sample_swapped) = Inr (sample_submitted\<lparr>ps_state := RsUncertain\<rparr>)"
    by (simp add: load_job_def sample_swapped_simps find_job_def)
  moreover have "map_of (rw_journals sample_swapped) ?id \<noteq> None"
    using sample_swapped_simps(2) by (auto simp: swap_proved_def split: option.splits)
  ultimately have run: "run ?p sample_swapped = (Inr (), ?w)"
    by (auto simp: recover_locked_def sweep_one_def sample_engine_simps drop_journal_def steady_def)
  have "reachable (resolution_ops sample_engine) (res_rely sample_engine) sample_world (Some ?p) sample_swapped"
    by (intro reachable.start sample_crash resolution_ops.op_recover_locked)
  from reachable_run [OF this] have r: "reachable (resolution_ops sample_engine) (res_rely sample_engine) sample_world None ?w"
    by (simp add: run)
  note i = resolution.reachable_invariant [OF fresh_world_inv [OF fresh_sample] r]
  have w: "rw_store ?w = rw_store sample_swapped" "rw_head ?w = rw_head sample_swapped" "rw_journals ?w = []"
    by (simp_all add: remove_journal_def sample_swapped_def swap_to_def sample_uncertain_def sample_world_def)
  from recovery_run [where ios = "\<lambda>_. steady SwapAnswered", OF _ i] obtain w' where
    w': "run (recover_uncertain_publications sample_engine (\<lambda>_. steady SwapAnswered)) ?w = (Inr (), w')"
    "judges (job_ids (\<lambda>r. ps_state r = RsUncertain) (rs_jobs (rw_store ?w))) ?w (rs_jobs (rw_store ?w)) (rs_jobs (rw_store w'))"
    by (auto simp: steady_reliable)
  have "\<not> swap_proved ?id ?w" by (simp add: swap_proved_def w(3) split: option.split)
  then have "map ps_state (rs_jobs (rw_store w')) = [RsStale]"
    using judges_uncertain(4) [OF _ w'(2)] by (simp add: w sample_swapped_simps verdict_def resolution_max_jobs_def ids_of_def)
  with w'(1) r show ?thesis by (intro exI [of _ ?w] exI [of _ w']) (simp add: w sample_swapped_simps)
qed

end
