(* ===== verification/Resolution_Protocol.thy ===== *)
theory Resolution_Protocol
  imports Resolution_Run Work_Reducer Ordered_Map Stable_Sort
begin

text \<open>
  The \<^verbatim>\<open>ffres1\<close> protocol between machines (\<^verbatim>\<open>agent-core/src/resolution_protocol.rs\<close>): the reducer that projects the
  assignments, results, revocations and answers of the signal stream, profiles held until what they refer to is known, the durable projection
  with its checks, and the messages a machine sends. Reading the inbox and sending are parameters; JSON is the one of the contract.

  The theorems: what a batch keeps of the projection and exactly when the result can be stored, that an assignment and its result may come in
  either order, and that the result that follows a human's answer can never be stored.
\<close>

section \<open>The projection\<close>

definition resolution_protocol_schema_version :: u32 where "resolution_protocol_schema_version = 1"
definition resolution_protocol_max_entries :: nat where "resolution_protocol_max_entries = 64"
definition resolution_protocol_max_applied :: nat where "resolution_protocol_max_applied = 4096"
definition resolution_protocol_max_pending_per_fingerprint :: nat where "resolution_protocol_max_pending_per_fingerprint = 8"
definition resolution_protocol_max_pending_fingerprints :: nat where "resolution_protocol_max_pending_fingerprints = 64"
definition resolution_protocol_observe_limit :: nat where "resolution_protocol_observe_limit = 1000"

datatype protocol_assignment_state = PaAssigned | PaResultReceived | PaHumanAnswered | PaRevoked

fun protocol_state_str :: "protocol_assignment_state \<Rightarrow> string" where
  "protocol_state_str PaAssigned = ''assigned''"
| "protocol_state_str PaResultReceived = ''result_received''"
| "protocol_state_str PaHumanAnswered = ''human_answered''"
| "protocol_state_str PaRevoked = ''revoked''"

record protocol_entry =
  pe_conflict_fingerprint :: string
  pe_job_id :: string
  pe_assignment_id :: string
  pe_attempt :: u32
  pe_owner :: string
  pe_job :: "resolution_job option"
  pe_state :: protocol_assignment_state
  pe_question_generation :: u32
  pe_result :: "resolution_result option"
  pe_answer :: "human_resolution_answer option"
  pe_revoke_reason :: "resolution_revoke_reason option"
  pe_observed_message_id :: string

type_synonym held_profile = "agent_message \<times> resolution_profile"

record protocol_state =
  pt_schema_version :: u32
  pt_cursor :: "string option"
  pt_incomplete :: bool
  pt_applied :: "string list"
  pt_entries :: "(string \<times> protocol_entry) list"
  pt_pending :: "(string \<times> held_profile list) list"

definition protocol_fresh :: protocol_state where
  "protocol_fresh = \<lparr>pt_schema_version = resolution_protocol_schema_version, pt_cursor = None, pt_incomplete = False, pt_applied = [],
     pt_entries = [], pt_pending = []\<rparr>"

datatype protocol_error =
    ProtocolSchema
  | EntryBound
  | AppliedBound
  | EntryInvalid string
  | EntryContract resolution_error
  | PendingBound
  | PendingInvalid
  | FingerprintCollision
  | ResultNotCanonical
  | AnswerNotCanonical
  | EntryVanished
  | ProtocolNoJob
  | ProtocolNoResult
  | ProtocolEngine engine_error
  | ProtocolIo

definition matches_job :: "protocol_entry \<Rightarrow> resolution_job \<Rightarrow> bool" where
  "matches_job entry job =
     (rj_job_id job = pe_job_id entry \<and> rj_assignment_id job = pe_assignment_id entry \<and> rj_attempt job = pe_attempt entry
      \<and> rj_owner job = pe_owner entry \<and> rj_conflict_fingerprint job = pe_conflict_fingerprint entry)"

definition matches_result :: "protocol_entry \<Rightarrow> resolution_result \<Rightarrow> bool" where
  "matches_result entry result =
     (rr_job_id result = pe_job_id entry \<and> rr_assignment_id result = pe_assignment_id entry \<and> rr_attempt result = pe_attempt entry
      \<and> rr_conflict_fingerprint result = pe_conflict_fingerprint entry)"

definition matches_answer :: "protocol_entry \<Rightarrow> human_resolution_answer \<Rightarrow> bool" where
  "matches_answer entry answer =
     (ha_job_id answer = pe_job_id entry \<and> ha_assignment_id answer = pe_assignment_id entry \<and> ha_attempt answer = pe_attempt entry
      \<and> ha_conflict_fingerprint answer = pe_conflict_fingerprint entry)"

definition check_pending :: "prims \<Rightarrow> (string \<times> held_profile list) list \<Rightarrow> protocol_error + unit" where
  "check_pending P pending =
     rbind (ensure (length pending \<le> resolution_protocol_max_pending_fingerprints) PendingBound) (\<lambda>_.
     for_each (\<lambda>(fingerprint, held).
       rbind (ensure (is_valid_hash fingerprint) PendingInvalid) (\<lambda>_.
       rbind (ensure (length held \<le> resolution_protocol_max_pending_per_fingerprint) PendingBound) (\<lambda>_.
       for_each (\<lambda>(message, profile).
         rbind (ensure (is_valid_hash (am_message_id message)) PendingInvalid) (\<lambda>_.
         ensure (is_ok (validate_resolution_profile P profile)) PendingInvalid)) held))) pending)"

text \<open>One entry of the loop; the pending profiles are checked inside it.\<close>

definition check_entry ::
  "prims \<Rightarrow> (string \<times> held_profile list) list \<Rightarrow> string \<times> protocol_entry \<Rightarrow> protocol_error + unit" where
  "check_entry P pending fe =
     (let (fingerprint, entry) = fe in
      rbind (ensure (pe_conflict_fingerprint entry = fingerprint \<and> is_valid_hash fingerprint) (EntryInvalid ''fingerprint'')) (\<lambda>_.
      rbind (ensure (is_valid_hex_id (pe_job_id entry) 32 \<and> is_valid_hex_id (pe_assignment_id entry) 32) (EntryInvalid ''ids'')) (\<lambda>_.
      rbind (ensure (is_valid_agent_name (pe_owner entry)) (EntryInvalid ''owner'')) (\<lambda>_.
      rbind (ensure (is_valid_hash (pe_observed_message_id entry)) (EntryInvalid ''observed message'')) (\<lambda>_.
      rbind (case pe_job entry of
               None \<Rightarrow> Inr ()
             | Some job \<Rightarrow> rbind (map_err EntryContract (validate_resolution_job P job)) (\<lambda>_.
                 ensure (matches_job entry job) (EntryInvalid ''job''))) (\<lambda>_.
      rbind (case pe_result entry of
               None \<Rightarrow> Inr ()
             | Some result \<Rightarrow> rbind (map_err EntryContract (validate_resolution_result P result)) (\<lambda>_.
                 ensure (matches_result entry result) (EntryInvalid ''result''))) (\<lambda>_.
      rbind (check_pending P pending) (\<lambda>_.
      (case pe_answer entry of
         None \<Rightarrow> Inr ()
       | Some answer \<Rightarrow> rbind (map_err EntryContract (validate_human_resolution_answer P answer)) (\<lambda>_.
           ensure (matches_answer entry answer \<and> ha_question_generation answer = pe_question_generation entry)
             (EntryInvalid ''answer'')))))))))))"

definition validate_protocol_state :: "prims \<Rightarrow> protocol_state \<Rightarrow> protocol_error + unit" where
  "validate_protocol_state P state =
     rbind (ensure (length (pt_entries state) \<le> resolution_protocol_max_entries) EntryBound) (\<lambda>_.
     rbind (ensure (length (pt_applied state) \<le> resolution_protocol_max_applied) AppliedBound) (\<lambda>_.
     for_each (check_entry P (pt_pending state)) (pt_entries state)))"

section \<open>The reducer\<close>

text \<open>On a sorted list \<^verbatim>\<open>binary_search\<close> is membership, and inserting at the index it gives keeps the order.\<close>

definition register_applied :: "string \<Rightarrow> protocol_state \<Rightarrow> protocol_state" where
  "register_applied message_id state =
     (if message_id \<in> set (pt_applied state) then state
      else
        let state = (if length (pt_applied state) \<ge> resolution_protocol_max_applied
              then state\<lparr>pt_incomplete := True, pt_applied := drop (resolution_protocol_max_applied div 2) (pt_applied state)\<rparr>
              else state)
        in state\<lparr>pt_applied := insort message_id (pt_applied state)\<rparr>)"

datatype apply_result = Applied "resolution_job option" | HoldForLater

definition assigned_entry :: "resolution_job \<Rightarrow> u32 option \<Rightarrow> string \<Rightarrow> protocol_entry" where
  "assigned_entry job question_generation message_id =
     \<lparr>pe_conflict_fingerprint = rj_conflict_fingerprint job, pe_job_id = rj_job_id job, pe_assignment_id = rj_assignment_id job,
      pe_attempt = rj_attempt job, pe_owner = rj_owner job, pe_job = Some job, pe_state = PaAssigned,
      pe_question_generation = (case question_generation of Some g \<Rightarrow> g | None \<Rightarrow> 0), pe_result = None, pe_answer = None,
      pe_revoke_reason = None, pe_observed_message_id = message_id\<rparr>"

definition apply_assignment ::
  "resolution_assignment_profile \<Rightarrow> string \<Rightarrow> protocol_entry \<Rightarrow> protocol_error + apply_result \<times> protocol_entry" where
  "apply_assignment profile message_id entry =
     (let job = ap_job profile in
      if pe_job_id entry = rj_job_id job \<and> pe_assignment_id entry = rj_assignment_id job then Inr (Applied None, entry)
      else
        rbind (ensure (pe_assignment_id entry = rj_assignment_id job \<and> pe_attempt entry = rj_attempt job) FingerprintCollision) (\<lambda>_.
        Inr (Applied (Some job), assigned_entry job (ap_question_generation profile) message_id)))"

definition apply_result_profile ::
  "resolution_result \<Rightarrow> string \<Rightarrow> string \<Rightarrow> protocol_entry \<Rightarrow> protocol_error + apply_result \<times> protocol_entry" where
  "apply_result_profile result message_id sender entry =
     (if \<not> (matches_result entry result \<and> sender = pe_owner entry) then Inr (HoldForLater, entry)
      else if pe_state entry = PaRevoked then Inr (Applied None, entry)
      else if pe_result entry = Some result then Inr (Applied None, entry)
      else
        rbind (ensure (pe_result entry = None \<or> message_id < pe_observed_message_id entry) ResultNotCanonical) (\<lambda>_.
        Inr (Applied None, entry\<lparr>pe_state := PaResultReceived, pe_question_generation := rr_question_generation result,
          pe_result := Some result, pe_observed_message_id := message_id\<rparr>)))"

definition apply_revoke ::
  "resolution_revoke_profile \<Rightarrow> string \<Rightarrow> protocol_entry \<Rightarrow> apply_result \<times> protocol_entry" where
  "apply_revoke profile message_id entry =
     (if \<not> (rv_job_id profile = pe_job_id entry \<and> rv_assignment_id profile = pe_assignment_id entry
           \<and> rv_conflict_fingerprint profile = pe_conflict_fingerprint entry \<and> rv_attempt profile \<ge> pe_attempt entry)
      then (HoldForLater, entry)
      else if pe_state entry = PaRevoked then (Applied None, entry)
      else (Applied None, entry\<lparr>pe_state := PaRevoked, pe_revoke_reason := Some (rv_reason profile), pe_observed_message_id := message_id\<rparr>))"

definition apply_answer ::
  "human_resolution_answer \<Rightarrow> string \<Rightarrow> protocol_entry \<Rightarrow> protocol_error + apply_result \<times> protocol_entry" where
  "apply_answer answer message_id entry =
     (if \<not> (matches_answer entry answer \<and> ha_question_generation answer = pe_question_generation entry) then Inr (HoldForLater, entry)
      else if pe_state entry = PaRevoked then Inr (Applied None, entry)
      else if pe_answer entry = Some answer then Inr (Applied None, entry)
      else
        rbind (ensure (pe_answer entry = None \<or> message_id < pe_observed_message_id entry) AnswerNotCanonical) (\<lambda>_.
        Inr (Applied None, entry\<lparr>pe_state := PaHumanAnswered, pe_answer := Some answer, pe_observed_message_id := message_id\<rparr>)))"

definition apply_profile_to_entry ::
  "resolution_profile \<Rightarrow> string \<Rightarrow> string \<Rightarrow> protocol_entry \<Rightarrow> protocol_error + apply_result \<times> protocol_entry" where
  "apply_profile_to_entry profile message_id sender entry =
     (case profile of
        RpAssignment a \<Rightarrow> apply_assignment a message_id entry
      | RpResult result \<Rightarrow> apply_result_profile result message_id sender entry
      | RpRevoke r \<Rightarrow> Inr (apply_revoke r message_id entry)
      | RpHumanAnswer answer \<Rightarrow> apply_answer answer message_id entry)"

definition held_le :: "held_profile \<Rightarrow> held_profile \<Rightarrow> bool" where
  "held_le l r = (am_message_id (fst l) \<le> am_message_id (fst r))"

definition held_for :: "string \<Rightarrow> protocol_state \<Rightarrow> held_profile list" where
  "held_for fingerprint state = (case map_of (pt_pending state) fingerprint of Some held \<Rightarrow> held | None \<Rightarrow> [])"

definition push_held :: "string \<Rightarrow> held_profile \<Rightarrow> protocol_state \<Rightarrow> protocol_state" where
  "push_held fingerprint h state =
     state\<lparr>pt_pending := btree_insert fingerprint (sort_by held_le (held_for fingerprint state @ [h])) (pt_pending state)\<rparr>"

text \<open>One held profile is tried again; the entry is there, or the code panics.\<close>

definition retry_held ::
  "string \<Rightarrow> held_profile \<Rightarrow> protocol_state \<times> resolution_job list \<Rightarrow> protocol_error + protocol_state \<times> resolution_job list" where
  "retry_held fingerprint h si =
     (let (state, imports) = si; (message, profile) = h in
      rbind (ok_or (map_of (pt_entries state) fingerprint) EntryVanished) (\<lambda>entry.
      rbind (apply_profile_to_entry profile (am_message_id message) (am_from message) entry) (\<lambda>(outcome, entry).
      let state = state\<lparr>pt_entries := btree_insert fingerprint entry (pt_entries state)\<rparr> in
      (case outcome of
         Applied import \<Rightarrow> Inr (register_applied (am_message_id message) state,
           imports @ (case import of Some job \<Rightarrow> [job] | None \<Rightarrow> []))
       | HoldForLater \<Rightarrow> Inr (push_held fingerprint h state, imports)))))"

definition drain_pending ::
  "string \<Rightarrow> protocol_state \<times> resolution_job list \<Rightarrow> protocol_error + protocol_state \<times> resolution_job list" where
  "drain_pending fingerprint si =
     (case map_of (pt_pending (fst si)) fingerprint of
        None \<Rightarrow> Inr si
      | Some held \<Rightarrow> fold_result (retry_held fingerprint) held
          ((fst si)\<lparr>pt_pending := btree_remove fingerprint (pt_pending (fst si))\<rparr>, snd si))"

text \<open>A profile is held; over a bound the projection is marked, and the profile is held all the same.\<close>

definition hold_profile :: "string \<Rightarrow> held_profile \<Rightarrow> protocol_state \<Rightarrow> protocol_state" where
  "hold_profile fingerprint h state =
     (let held = held_for fingerprint state;
          known = map_of (pt_pending state) fingerprint \<noteq> None
      in if list_ex (\<lambda>(m, _). am_message_id m = am_message_id (fst h)) held then state
         else
           let state = (if length held \<ge> resolution_protocol_max_pending_per_fingerprint
                  \<or> length (pt_pending state) \<ge> resolution_protocol_max_pending_fingerprints \<and> \<not> known
                then state\<lparr>pt_incomplete := True\<rparr> else state)
           in push_held fingerprint h state)"

definition profile_fingerprint :: "resolution_profile \<Rightarrow> string" where
  "profile_fingerprint profile =
     (case profile of
        RpAssignment a \<Rightarrow> rj_conflict_fingerprint (ap_job a)
      | RpResult result \<Rightarrow> rr_conflict_fingerprint result
      | RpRevoke r \<Rightarrow> rv_conflict_fingerprint r
      | RpHumanAnswer answer \<Rightarrow> ha_conflict_fingerprint answer)"

text \<open>Room for a new entry: the first revoked one goes, or the projection is marked.\<close>

definition make_room :: "protocol_state \<Rightarrow> protocol_state" where
  "make_room state =
     (if length (pt_entries state) \<ge> resolution_protocol_max_entries
      then case find (\<lambda>(_, entry). pe_state entry = PaRevoked) (pt_entries state) of
             Some (key, _) \<Rightarrow> state\<lparr>pt_entries := btree_remove key (pt_entries state)\<rparr>
           | None \<Rightarrow> state\<lparr>pt_incomplete := True\<rparr>
      else state)"

definition first_assignment ::
  "resolution_assignment_profile \<Rightarrow> string \<Rightarrow> protocol_state \<times> resolution_job list
   \<Rightarrow> protocol_error + protocol_state \<times> resolution_job list" where
  "first_assignment a message_id si =
     (let state = make_room (fst si); job = ap_job a; fingerprint = rj_conflict_fingerprint job in
      if length (pt_entries state) < resolution_protocol_max_entries
      then
        let state = register_applied message_id state in
        drain_pending fingerprint
          (state\<lparr>pt_entries := btree_insert fingerprint (assigned_entry job (ap_question_generation a) message_id) (pt_entries state)\<rparr>,
           snd si @ [job])
      else Inr (state, snd si))"

definition apply_protocol_message ::
  "prims \<Rightarrow> resolution_json \<Rightarrow> agent_message \<Rightarrow> protocol_state \<times> resolution_job list
   \<Rightarrow> protocol_error + protocol_state \<times> resolution_job list" where
  "apply_protocol_message P J message si =
     (case parse_resolution_profile P J (am_body message) of
        None \<Rightarrow> Inr si
      | Some profile \<Rightarrow>
          let (state, imports) = si; fingerprint = profile_fingerprint profile; message_id = am_message_id message in
          (case map_of (pt_entries state) fingerprint of
             Some entry \<Rightarrow>
               rbind (apply_profile_to_entry profile message_id (am_from message) entry) (\<lambda>(outcome, entry).
               let state = state\<lparr>pt_entries := btree_insert fingerprint entry (pt_entries state)\<rparr> in
               (case outcome of
                  Applied import \<Rightarrow> drain_pending fingerprint (register_applied message_id state,
                    imports @ (case import of Some job \<Rightarrow> [job] | None \<Rightarrow> []))
                | HoldForLater \<Rightarrow> Inr (hold_profile fingerprint (message, profile) state, imports)))
           | None \<Rightarrow>
               (case profile of
                  RpAssignment a \<Rightarrow> first_assignment a message_id (state, imports)
                | _ \<Rightarrow> if message_id \<in> set (pt_applied state) then Inr (state, imports)
                       else Inr (hold_profile fingerprint (message, profile) state, imports))))"

definition message_le :: "agent_message \<Rightarrow> agent_message \<Rightarrow> bool" where
  "message_le l r = (am_message_id l \<le> am_message_id r)"

definition apply_protocol_batch ::
  "prims \<Rightarrow> resolution_json \<Rightarrow> agent_message list \<Rightarrow> protocol_state \<Rightarrow> protocol_error + protocol_state \<times> resolution_job list" where
  "apply_protocol_batch P J messages state =
     fold_result (apply_protocol_message P J) (sort_by message_le messages) (state, [])"

section \<open>Observation\<close>

definition protocol_open :: "prims \<Rightarrow> protocol_state \<Rightarrow> protocol_error + protocol_state" where
  "protocol_open P saved =
     rbind (ensure (pt_schema_version saved = resolution_protocol_schema_version) ProtocolSchema) (\<lambda>_.
     rbind (validate_protocol_state P saved) (\<lambda>_. Inr saved))"

text \<open>What \<^verbatim>\<open>update\<close> is to write in place of the stored state.\<close>

definition protocol_replaced :: "prims \<Rightarrow> protocol_state \<Rightarrow> protocol_state \<Rightarrow> protocol_error + protocol_state" where
  "protocol_replaced P state saved =
     rbind (ensure (pt_schema_version saved = resolution_protocol_schema_version) ProtocolSchema) (\<lambda>_.
     rbind (validate_protocol_state P state) (\<lambda>_. Inr state))"

record signal_inbox =
  sg_messages :: "agent_message list"
  sg_cursor :: string
  sg_cursor_reset :: bool

record protocol_entry_status =
  es_conflict_fingerprint :: string
  es_job_id :: string
  es_assignment_id :: string
  es_attempt :: u32
  es_owner :: string
  es_state :: protocol_assignment_state
  es_question_generation :: u32
  es_outcome :: "resolution_outcome option"
  es_question :: "string option"

definition entry_status :: "protocol_entry \<Rightarrow> protocol_entry_status" where
  "entry_status entry =
     \<lparr>es_conflict_fingerprint = pe_conflict_fingerprint entry, es_job_id = pe_job_id entry, es_assignment_id = pe_assignment_id entry,
      es_attempt = pe_attempt entry, es_owner = pe_owner entry, es_state = pe_state entry,
      es_question_generation = pe_question_generation entry, es_outcome = map_option rr_outcome (pe_result entry),
      es_question = (case pe_result entry of
         Some result \<Rightarrow> if rr_outcome result = RequiresHuman then rr_question result else None
       | None \<Rightarrow> None)\<rparr>"

record protocol_status =
  st_schema_version :: u32
  st_cursor :: "string option"
  st_projection_incomplete :: bool
  st_entries :: "protocol_entry_status list"

definition entry_status_le :: "protocol_entry_status \<Rightarrow> protocol_entry_status \<Rightarrow> bool" where
  "entry_status_le l r = (es_conflict_fingerprint l \<le> es_conflict_fingerprint r)"

definition protocol_status_of :: "protocol_state \<Rightarrow> protocol_status" where
  "protocol_status_of state =
     \<lparr>st_schema_version = resolution_protocol_schema_version, st_cursor = pt_cursor state, st_projection_incomplete = pt_incomplete state,
      st_entries = sort_by entry_status_le (map (\<lambda>(_, entry). entry_status entry) (pt_entries state))\<rparr>"

text \<open>
  \<open>since\<close> reads the inbox, \<open>ios\<close> are the writes of the imports, \<open>c\<close> is the one of the projection. The imports come before
  the projection is saved.
\<close>

definition resolution_protocol_status ::
  "res_engine \<Rightarrow> resolution_json \<Rightarrow> (string \<Rightarrow> res_io) \<Rightarrow> commit_outcome \<Rightarrow> (string option \<Rightarrow> nat \<Rightarrow> signal_inbox option) \<Rightarrow> bool
   \<Rightarrow> protocol_state \<Rightarrow> 'v res_world \<Rightarrow> (protocol_error + protocol_status) \<times> protocol_state \<times> 'v res_world" where
  "resolution_protocol_status E J ios c since rebuild saved w =
     (case protocol_open (eg_prims E) saved of
        Inl e \<Rightarrow> (Inl e, saved, w)
      | Inr loaded \<Rightarrow>
         let state = (if rebuild then protocol_fresh else loaded) in
         (case since (pt_cursor state) resolution_protocol_observe_limit of
            None \<Rightarrow> (Inl ProtocolIo, saved, w)
          | Some inbox \<Rightarrow>
             let state = (if rebuild then state\<lparr>pt_incomplete := False\<rparr> else state);
                 state = (if sg_cursor_reset inbox then state\<lparr>pt_incomplete := True\<rparr> else state) in
             (case apply_protocol_batch (eg_prims E) J (sort_by message_le (sg_messages inbox)) state of
                Inl e \<Rightarrow> (Inl e, saved, w)
              | Inr (state, imports) \<Rightarrow>
                 (case run (pfor (\<lambda>job. import_resolution_job E (ios (rj_job_id job)) job) imports) w of
                    (Inl e, w) \<Rightarrow> (Inl (ProtocolEngine e), saved, w)
                  | (Inr _, w) \<Rightarrow>
                     let state = state\<lparr>pt_cursor := Some (sg_cursor inbox)\<rparr> in
                     (case protocol_replaced (eg_prims E) state saved of
                        Inl e \<Rightarrow> (Inl e, saved, w)
                      | Inr state \<Rightarrow>
                          (case c of
                             Replaced \<Rightarrow> (Inr (protocol_status_of state), state, w)
                           | NotReplaced \<Rightarrow> (Inl ProtocolIo, saved, w)
                           | ReplacedUncertain \<Rightarrow> (Inl ProtocolIo, state, w)))))))"

section \<open>Sending\<close>

record message_input =
  mi_to :: string
  mi_kind :: agent_message_kind
  mi_body :: string
  mi_about_snapshot :: "string option"
  mi_reply_to :: "string option"
  mi_from :: "string option"

type_synonym send_message = "message_input \<Rightarrow> string option"

definition send_profile ::
  "prims \<Rightarrow> resolution_json \<Rightarrow> send_message \<Rightarrow> resolution_profile \<Rightarrow> string \<Rightarrow> string option \<Rightarrow> protocol_error + string" where
  "send_profile P J send profile to from =
     rbind (map_err EntryContract (encode_resolution_profile P J profile)) (\<lambda>body.
     ok_or (send \<lparr>mi_to = to, mi_kind = MsgStatus, mi_body = body, mi_about_snapshot = None, mi_reply_to = None, mi_from = from\<rparr>) ProtocolIo)"

definition load_valid_job :: "prims \<Rightarrow> string \<Rightarrow> resolution_state_file \<Rightarrow> protocol_error + resolution_job" where
  "load_valid_job P job_id store =
     rbind (map_err ProtocolEngine (resolution_load P store)) (\<lambda>store.
     rbind (ok_or (find_job job_id (rs_jobs store)) ProtocolNoJob) (\<lambda>r.
     rbind (map_err EntryContract (validate_resolution_job P (ps_job r))) (\<lambda>_. Inr (ps_job r))))"

definition send_resolution_assignment ::
  "prims \<Rightarrow> resolution_json \<Rightarrow> send_message \<Rightarrow> string \<Rightarrow> resolution_state_file \<Rightarrow> protocol_error + string" where
  "send_resolution_assignment P J send job_id store =
     rbind (load_valid_job P job_id store) (\<lambda>job.
     send_profile P J send (RpAssignment \<lparr>ap_schema_version = resolution_schema_version, ap_job = job, ap_question_generation = None\<rparr>)
       (rj_owner job) None)"

definition send_resolution_result ::
  "prims \<Rightarrow> resolution_json \<Rightarrow> send_message \<Rightarrow> string \<Rightarrow> resolution_state_file \<Rightarrow> protocol_error + string" where
  "send_resolution_result P J send job_id store =
     rbind (map_err ProtocolEngine (resolution_load P store)) (\<lambda>store.
     rbind (ok_or (Option.bind (find_job job_id (rs_jobs store)) ps_result) ProtocolNoResult) (\<lambda>result.
     rbind (map_err EntryContract (validate_resolution_result P result)) (\<lambda>_.
     send_profile P J send (RpResult result) ''*'' (Some (rr_owner result)))))"

definition send_resolution_revoke ::
  "prims \<Rightarrow> resolution_json \<Rightarrow> send_message \<Rightarrow> string \<Rightarrow> bool \<Rightarrow> resolution_state_file \<Rightarrow> protocol_error + string" where
  "send_resolution_revoke P J send job_id replaced store =
     rbind (load_valid_job P job_id store) (\<lambda>job.
     send_profile P J send (RpRevoke \<lparr>rv_schema_version = resolution_schema_version, rv_job_id = rj_job_id job,
       rv_assignment_id = rj_assignment_id job, rv_attempt = rj_attempt job, rv_conflict_fingerprint = rj_conflict_fingerprint job,
       rv_reason = (if replaced then RevokeSuperseded else RevokeCancelled)\<rparr>) ''*'' None)"

definition send_human_answer ::
  "prims \<Rightarrow> resolution_json \<Rightarrow> send_message \<Rightarrow> human_resolution_answer \<Rightarrow> protocol_error + string" where
  "send_human_answer P J send answer =
     rbind (map_err EntryContract (validate_human_resolution_answer P answer)) (\<lambda>_.
     send_profile P J send (RpHumanAnswer answer) ''*'' None)"

section \<open>What a batch keeps\<close>

definition entry_inv :: "prims \<Rightarrow> string \<Rightarrow> protocol_entry \<Rightarrow> bool" where
  "entry_inv P fingerprint e \<longleftrightarrow> pe_conflict_fingerprint e = fingerprint \<and> is_valid_hash fingerprint
     \<and> is_valid_hex_id (pe_job_id e) 32 \<and> is_valid_hex_id (pe_assignment_id e) 32 \<and> is_valid_agent_name (pe_owner e)
     \<and> is_valid_hash (pe_observed_message_id e)
     \<and> (\<forall>job. pe_job e = Some job \<longrightarrow> validate_resolution_job P job = Inr () \<and> matches_job e job)
     \<and> (\<forall>result. pe_result e = Some result \<longrightarrow> validate_resolution_result P result = Inr () \<and> matches_result e result)
     \<and> (\<forall>answer. pe_answer e = Some answer \<longrightarrow> validate_human_resolution_answer P answer = Inr () \<and> matches_answer e answer)"

definition held_inv :: "prims \<Rightarrow> string \<Rightarrow> held_profile \<Rightarrow> bool" where
  "held_inv P fingerprint h \<longleftrightarrow> is_valid_hash (am_message_id (fst h)) \<and> validate_resolution_profile P (snd h) = Inr ()
     \<and> profile_fingerprint (snd h) = fingerprint"

definition protocol_inv :: "prims \<Rightarrow> protocol_state \<Rightarrow> bool" where
  "protocol_inv P st \<longleftrightarrow> pt_schema_version st = resolution_protocol_schema_version \<and> btree (pt_entries st) \<and> length (pt_entries st) \<le> resolution_protocol_max_entries
     \<and> sorted_wrt (<) (pt_applied st) \<and> length (pt_applied st) \<le> resolution_protocol_max_applied
     \<and> (\<forall>(f, e)\<in>set (pt_entries st). entry_inv P f e)
     \<and> btree (pt_pending st) \<and> (\<forall>(f, held)\<in>set (pt_pending st). is_valid_hash f \<and> (\<forall>h\<in>set held. held_inv P f h))"

text \<open>
  Exactly when a projection with the invariant can be stored: every answer is to the current question, and the bounds on held profiles hold or
  there is no entry (the code checks those bounds once per entry, inside the loop over the entries).
\<close>

definition pending_bounded :: "protocol_state \<Rightarrow> bool" where
  "pending_bounded st \<longleftrightarrow> length (pt_pending st) \<le> resolution_protocol_max_pending_fingerprints
     \<and> (\<forall>(f, held)\<in>set (pt_pending st). length held \<le> resolution_protocol_max_pending_per_fingerprint)"

definition answers_current :: "protocol_state \<Rightarrow> bool" where
  "answers_current st \<longleftrightarrow>
     (\<forall>(f, e)\<in>set (pt_entries st). \<forall>a. pe_answer e = Some a \<longrightarrow> ha_question_generation a = pe_question_generation e)"

definition storable :: "protocol_state \<Rightarrow> bool" where
  "storable st \<longleftrightarrow> (pt_entries st = [] \<or> pending_bounded st) \<and> answers_current st"

lemmas storable_defs = storable_def pending_bounded_def answers_current_def

lemma check_pending_Inr:
  assumes "\<forall>(f, held)\<in>set pending. is_valid_hash f \<and> (\<forall>h\<in>set held. held_inv P f h)"
  shows "check_pending P pending = Inr () \<longleftrightarrow> length pending \<le> resolution_protocol_max_pending_fingerprints
     \<and> (\<forall>(f, held)\<in>set pending. length held \<le> resolution_protocol_max_pending_per_fingerprint)"
proof -
  have "is_valid_hash f \<and> (\<forall>(m, p)\<in>set held. is_valid_hash (am_message_id m) \<and> is_ok (validate_resolution_profile P p))"
    if "(f, held) \<in> set pending" for f held
    using assms that by (fastforce simp: held_inv_def is_ok_iff)
  then show ?thesis
    by (fastforce simp: check_pending_def rbind_eq_Inr for_each_eq_Inr split: prod.splits)
qed

lemma check_entry_Inr:
  assumes "entry_inv P f e"
  shows "check_entry P pending (f, e) = Inr () \<longleftrightarrow> check_pending P pending = Inr ()
     \<and> (\<forall>a. pe_answer e = Some a \<longrightarrow> ha_question_generation a = pe_question_generation e)"
  using assms by (auto simp: check_entry_def entry_inv_def rbind_eq_Inr split: option.splits)

lemma validate_protocol_Inr:
  assumes "protocol_inv P st"
  shows "validate_protocol_state P st = Inr () \<longleftrightarrow> storable st"
proof -
  have e: "entry_inv P f e" if "(f, e) \<in> set (pt_entries st)" for f e using assms that by (auto simp: protocol_inv_def)
  have p: "\<forall>(f, held)\<in>set (pt_pending st). is_valid_hash f \<and> (\<forall>h\<in>set held. held_inv P f h)" using assms by (simp add: protocol_inv_def)
  have "validate_protocol_state P st = Inr () \<longleftrightarrow> (\<forall>(f, e)\<in>set (pt_entries st). check_entry P (pt_pending st) (f, e) = Inr ())"
    using assms by (auto simp: validate_protocol_state_def protocol_inv_def rbind_eq_Inr for_each_eq_Inr)
  also have "\<dots> \<longleftrightarrow> (\<forall>(f, e)\<in>set (pt_entries st). check_pending P (pt_pending st) = Inr ()
      \<and> (\<forall>a. pe_answer e = Some a \<longrightarrow> ha_question_generation a = pe_question_generation e))"
    using check_entry_Inr [OF e] by blast
  also have "\<dots> \<longleftrightarrow> storable st"
    unfolding check_pending_Inr [OF p] storable_defs by (cases "pt_entries st") auto
  finally show ?thesis .
qed

lemma assigned_entry_inv:
  assumes "validate_resolution_job P job = Inr ()" and "is_valid_hash message_id"
  shows "entry_inv P (rj_conflict_fingerprint job) (assigned_entry job g message_id)"
  using validate_job_Inr [OF assms(1)] assms by (simp add: entry_inv_def assigned_entry_def matches_job_def)

lemma apply_profile_inv:
  assumes "validate_resolution_profile P profile = Inr ()" and "profile_fingerprint profile = f" and "is_valid_hash message_id"
    and "entry_inv P f e" and "apply_profile_to_entry profile message_id sender e = Inr (outcome, e')"
  shows "entry_inv P f e' \<and> (\<forall>job. outcome = Applied (Some job) \<longrightarrow> validate_resolution_job P job = Inr ())"
proof (cases profile)
  case (RpAssignment a)
  then have "validate_resolution_job P (ap_job a) = Inr ()" using assms(1) by (auto simp: validate_resolution_profile_def rbind_eq_Inr)
  with RpAssignment assms assigned_entry_inv [OF this assms(3)] show ?thesis
    by (auto simp: apply_profile_to_entry_def apply_assignment_def Let_def profile_fingerprint_def rbind_eq_Inr split: if_splits)
next
  case (RpResult result)
  with assms show ?thesis
    by (auto simp: apply_profile_to_entry_def apply_result_profile_def rbind_eq_Inr entry_inv_def matches_job_def matches_result_def
        matches_answer_def validate_resolution_profile_def split: if_splits)
next
  case (RpRevoke r)
  with assms show ?thesis
    by (auto simp: apply_profile_to_entry_def apply_revoke_def entry_inv_def matches_job_def matches_result_def matches_answer_def
        split: if_splits)
next
  case (RpHumanAnswer answer)
  with assms show ?thesis
    by (auto simp: apply_profile_to_entry_def apply_answer_def rbind_eq_Inr entry_inv_def matches_job_def matches_result_def
        matches_answer_def validate_resolution_profile_def split: if_splits)
qed

lemma insort_strict: "sorted_wrt (<) xs \<Longrightarrow> x \<notin> set xs \<Longrightarrow> sorted_wrt (<) (insort x xs)" for x :: "'a :: linorder"
  by (simp add: strict_sorted_iff sorted_insort distinct_insort)

lemma register_applied_inv: "protocol_inv P st \<Longrightarrow> protocol_inv P (register_applied m st)"
  by (auto simp: protocol_inv_def register_applied_def Let_def resolution_protocol_max_applied_def
      intro!: insort_strict sorted_wrt_drop dest: in_set_dropD)

lemma register_applied_other [simp]:
  "pt_entries (register_applied m st) = pt_entries st" "pt_pending (register_applied m st) = pt_pending st"
  by (simp_all add: register_applied_def Let_def)

lemma lookup_inv: "protocol_inv P st \<Longrightarrow> map_of (pt_entries st) f = Some e \<Longrightarrow> entry_inv P f e"
  by (auto simp: protocol_inv_def dest: map_of_SomeD)

lemma held_for_inv: "protocol_inv P st \<Longrightarrow> h \<in> set (held_for f st) \<Longrightarrow> held_inv P f h"
  by (cases "map_of (pt_pending st) f") (auto simp: protocol_inv_def held_for_def dest!: map_of_SomeD)

lemma length_btree_insert_known: "map_of m k \<noteq> None \<Longrightarrow> btree m \<Longrightarrow> length (btree_insert k v m) = length m"
proof (induction m)
  case (Cons a m)
  obtain k' v' where a: "a = (k', v')" by (cases a)
  have "k' < k" if "k' \<noteq> k"
    using Cons.prems that by (auto simp: a dest!: map_of_SomeD)
  with Cons a show ?case by auto
qed simp

lemma length_btree_insert: "length (btree_insert k v m) \<le> Suc (length m)"
  by (induction m) auto

lemma put_entry_inv:
  assumes "protocol_inv P st" and "entry_inv P f e"
    and "map_of (pt_entries st) f \<noteq> None \<or> length (pt_entries st) < resolution_protocol_max_entries"
  shows "protocol_inv P (st\<lparr>pt_entries := btree_insert f e (pt_entries st)\<rparr>)"
proof -
  have "length (btree_insert f e (pt_entries st)) \<le> resolution_protocol_max_entries"
    using assms(1,3) length_btree_insert_known [of "pt_entries st" f e] length_btree_insert [of f e "pt_entries st"]
    by (auto simp: protocol_inv_def)
  with assms(1,2) set_btree_insert_pairs [of f e "pt_entries st"] show ?thesis
    by (auto simp: protocol_inv_def btree_insert_sorted)
qed

lemma push_held_inv:
  assumes "protocol_inv P st" and "held_inv P f h" and "is_valid_hash f"
  shows "protocol_inv P (push_held f h st)"
proof -
  let ?held = "sort_by held_le (held_for f st @ [h])"
  have *: "\<forall>x\<in>set ?held. held_inv P f x" using held_for_inv [OF assms(1), of _ f] assms(2) by auto
  have "is_valid_hash g \<and> (\<forall>x\<in>set held. held_inv P g x)" if "(g, held) \<in> set (btree_insert f ?held (pt_pending st))" for g held
  proof -
    from that set_btree_insert_pairs [of f ?held "pt_pending st"] consider "g = f" "held = ?held" | "(g, held) \<in> set (pt_pending st)" by blast
    then show ?thesis using * assms(1,3) by cases (auto simp: protocol_inv_def)
  qed
  with assms(1) show ?thesis by (auto simp: protocol_inv_def push_held_def btree_insert_sorted)
qed

lemma hold_profile_inv:
  assumes "protocol_inv P st" and "held_inv P f h" and "is_valid_hash f"
  shows "protocol_inv P (hold_profile f h st)"
proof -
  have "protocol_inv P (st\<lparr>pt_incomplete := True\<rparr>)" using assms(1) by (simp add: protocol_inv_def)
  with assms show ?thesis by (simp add: hold_profile_def Let_def push_held_inv)
qed

text \<open>A state under reduction, for a fingerprint that has an entry.\<close>

definition reducing :: "prims \<Rightarrow> protocol_state \<times> resolution_job list \<Rightarrow> bool" where
  "reducing P si \<longleftrightarrow> protocol_inv P (fst si) \<and> (\<forall>job\<in>set (snd si). validate_resolution_job P job = Inr ())"

lemma profile_fingerprint_valid: "validate_resolution_profile P p = Inr () \<Longrightarrow> is_valid_hash (profile_fingerprint p)"
  by (cases p) (auto simp: validate_resolution_profile_def profile_fingerprint_def rbind_eq_Inr validate_resolution_result_def
      validate_human_resolution_answer_def dest: validate_job_Inr(11))

lemma retry_held_inv:
  assumes "reducing P si" and "held_inv P f h" and "map_of (pt_entries (fst si)) f \<noteq> None" and "retry_held f h si = Inr si'"
  shows "reducing P si' \<and> map_of (pt_entries (fst si')) f \<noteq> None"
proof -
  obtain st js where si: "si = (st, js)" by (cases si)
  obtain m p where h: "h = (m, p)" by (cases h)
  from assms(3) si obtain e where e: "map_of (pt_entries st) f = Some e" by auto
  have st: "protocol_inv P st" "\<forall>job\<in>set js. validate_resolution_job P job = Inr ()" using assms(1) by (simp_all add: reducing_def si)
  have v: "validate_resolution_profile P p = Inr ()" "profile_fingerprint p = f" "is_valid_hash (am_message_id m)"
    using assms(2) by (simp_all add: held_inv_def h)
  from assms(4) e obtain outcome e' where a: "apply_profile_to_entry p (am_message_id m) (am_from m) e = Inr (outcome, e')"
    and si': "(case outcome of
         Applied import \<Rightarrow> Inr (register_applied (am_message_id m) (st\<lparr>pt_entries := btree_insert f e' (pt_entries st)\<rparr>),
           js @ (case import of Some job \<Rightarrow> [job] | None \<Rightarrow> []))
       | HoldForLater \<Rightarrow> Inr (push_held f (m, p) (st\<lparr>pt_entries := btree_insert f e' (pt_entries st)\<rparr>), js))
      = (Inr si' :: protocol_error + protocol_state \<times> resolution_job list)"
    by (auto simp: retry_held_def si h rbind_eq_Inr Let_def)
  note keep = apply_profile_inv [OF v lookup_inv [OF st(1) e] a]
  have put: "protocol_inv P (st\<lparr>pt_entries := btree_insert f e' (pt_entries st)\<rparr>)"
    by (rule put_entry_inv [OF st(1)]) (use keep e in simp_all)
  have "map_of (btree_insert f e' (pt_entries st)) f = Some e'" using st(1) by (simp add: protocol_inv_def btree_insert_lookup)
  moreover have "is_valid_hash f" using profile_fingerprint_valid [OF v(1)] v(2) by simp
  ultimately show ?thesis
    using si' st(2) keep put push_held_inv [OF put assms(2)] register_applied_inv [OF put]
    by (auto simp: reducing_def h push_held_def split: apply_result.splits option.splits)
qed

lemma drain_pending_inv:
  assumes "reducing P si" and "map_of (pt_entries (fst si)) f \<noteq> None"
  shows "drain_pending f si = Inr si' \<Longrightarrow> reducing P si'" and "drain_pending f si \<noteq> Inl EntryVanished"
proof -
  have *: "(fold_result (retry_held f) held x = Inr si' \<longrightarrow> reducing P si') \<and> fold_result (retry_held f) held x \<noteq> Inl EntryVanished"
    if "reducing P x" "map_of (pt_entries (fst x)) f \<noteq> None" "\<forall>h\<in>set held. held_inv P f h" for held x
    using that
  proof (induction held arbitrary: x)
    case (Cons h held)
    show ?case
    proof (cases "retry_held f h x")
      case (Inl err)
      have "apply_profile_to_entry p i s e \<noteq> Inl EntryVanished" for p i s e
        by (cases p) (auto simp: apply_profile_to_entry_def apply_assignment_def apply_result_profile_def apply_answer_def Let_def ensure_def)
      then have "retry_held f h x \<noteq> Inl EntryVanished"
        using Cons.prems(2) by (cases x; cases h) (auto simp: retry_held_def Let_def rbind_def split: sum.splits apply_result.splits prod.splits)
      with Inl show ?thesis by simp
    next
      case (Inr y)
      with retry_held_inv [OF Cons.prems(1) _ Cons.prems(2) Inr] Cons.prems(3) Cons.IH [of y] show ?thesis by simp
    qed
  qed auto
  have r: "reducing P ((fst si)\<lparr>pt_pending := btree_remove f (pt_pending (fst si))\<rparr>, snd si)"
    using assms(1) by (auto simp: reducing_def protocol_inv_def btree_remove_sorted set_btree_remove)
  have h: "\<forall>h\<in>set held. held_inv P f h" if "map_of (pt_pending (fst si)) f = Some held" for held
    using assms(1) that by (auto simp: reducing_def protocol_inv_def dest!: map_of_SomeD)
  show "drain_pending f si = Inr si' \<Longrightarrow> reducing P si'" and "drain_pending f si \<noteq> Inl EntryVanished"
    using assms(1) * [OF r] assms(2) h by (auto simp: drain_pending_def split: option.splits)
qed

lemma make_room_inv: "protocol_inv P st \<Longrightarrow> protocol_inv P (make_room st)"
proof -
  assume i: "protocol_inv P st"
  have "protocol_inv P (st\<lparr>pt_entries := btree_remove key (pt_entries st)\<rparr>)" for key
  proof -
    have "length (btree_remove key (pt_entries st)) \<le> length (pt_entries st)" by (simp add: btree_remove_def)
    with i show ?thesis by (auto simp: protocol_inv_def btree_remove_sorted set_btree_remove)
  qed
  moreover have "protocol_inv P (st\<lparr>pt_incomplete := True\<rparr>)" using i by (simp add: protocol_inv_def)
  ultimately show ?thesis using i by (auto simp: make_room_def split: option.splits)
qed

lemma first_assignment_inv:
  assumes "reducing P si" and "validate_resolution_job P (ap_job a) = Inr ()" and "is_valid_hash message_id"
  shows "first_assignment a message_id si = Inr si' \<Longrightarrow> reducing P si'" and "first_assignment a message_id si \<noteq> Inl EntryVanished"
proof -
  let ?st = "make_room (fst si)" and ?f = "rj_conflict_fingerprint (ap_job a)"
  let ?e = "assigned_entry (ap_job a) (ap_question_generation a) message_id"
  let ?n = "((register_applied message_id ?st)\<lparr>pt_entries := btree_insert ?f ?e (pt_entries ?st)\<rparr>, snd si @ [ap_job a])"
  have i: "protocol_inv P ?st" "\<forall>job\<in>set (snd si). validate_resolution_job P job = Inr ()"
    using assms(1) make_room_inv by (simp_all add: reducing_def)
  have nxt: "reducing P ?n \<and> map_of (pt_entries (fst ?n)) ?f \<noteq> None" if "length (pt_entries ?st) < resolution_protocol_max_entries"
    using put_entry_inv [OF register_applied_inv [OF i(1)] assigned_entry_inv [OF assms(2,3)], of message_id "ap_question_generation a"]
      that assms(2) i by (simp add: reducing_def protocol_inv_def btree_insert_lookup)
  show "first_assignment a message_id si = Inr si' \<Longrightarrow> reducing P si'"
    using nxt drain_pending_inv(1) [of P ?n ?f si'] i by (auto simp: first_assignment_def Let_def reducing_def split: if_splits)
  show "first_assignment a message_id si \<noteq> Inl EntryVanished"
    using nxt drain_pending_inv(2) [of P ?n ?f] by (auto simp: first_assignment_def Let_def)
qed

lemma apply_profile_no_panic: "apply_profile_to_entry p i s e \<noteq> Inl EntryVanished"
  by (cases p) (auto simp: apply_profile_to_entry_def apply_assignment_def apply_result_profile_def apply_answer_def Let_def ensure_def)

lemma parsed_valid: "parse_resolution_profile P J body = Some profile \<Longrightarrow> validate_resolution_profile P profile = Inr ()"
  by (auto simp: parse_resolution_profile_Some)

lemma apply_message_inv:
  assumes "reducing P si" and "is_valid_hash (am_message_id m)"
  shows "(\<forall>si'. apply_protocol_message P J m si = Inr si' \<longrightarrow> reducing P si') \<and> apply_protocol_message P J m si \<noteq> Inl EntryVanished"
proof (cases "parse_resolution_profile P J (am_body m)")
  case None
  with assms(1) show ?thesis by (simp add: apply_protocol_message_def)
next
  case (Some p)
  obtain st js where si: "si = (st, js)" by (cases si)
  let ?f = "profile_fingerprint p"
  note v = parsed_valid [OF Some]
  have st: "protocol_inv P st" "\<forall>job\<in>set js. validate_resolution_job P job = Inr ()" using assms(1) by (simp_all add: reducing_def si)
  have h: "held_inv P ?f (m, p)" "is_valid_hash ?f" using v assms(2) profile_fingerprint_valid by (simp_all add: held_inv_def)
  show ?thesis
  proof (cases "map_of (pt_entries st) ?f")
    case None
    have hold: "reducing P (hold_profile ?f (m, p) st, js)" using hold_profile_inv [OF st(1) h] st(2) by (simp add: reducing_def)
    show ?thesis
    proof (cases "\<exists>a. p = RpAssignment a")
      case True
      then obtain a where a: "p = RpAssignment a" by blast
      have "validate_resolution_job P (ap_job a) = Inr ()" using v by (auto simp: a validate_resolution_profile_def rbind_eq_Inr)
      with first_assignment_inv [OF assms(1) this assms(2)] Some None show ?thesis by (simp add: apply_protocol_message_def si a)
    next
      case False
      with Some None hold assms(1) show ?thesis
        by (cases p) (auto simp: apply_protocol_message_def si Let_def)
    qed
  next
    case (Some e)
    note e = Some
    show ?thesis
    proof (cases "apply_profile_to_entry p (am_message_id m) (am_from m) e")
      case (Inl err)
      with apply_profile_no_panic [of p "am_message_id m" "am_from m" e] e \<open>parse_resolution_profile P J (am_body m) = Some p\<close>
      show ?thesis by (auto simp: apply_protocol_message_def si)
    next
      case (Inr oe)
      obtain outcome e' where oe: "oe = (outcome, e')" by (cases oe)
      let ?st = "st\<lparr>pt_entries := btree_insert ?f e' (pt_entries st)\<rparr>"
      note keep = apply_profile_inv [OF v refl assms(2) lookup_inv [OF st(1) e] Inr [unfolded oe]]
      have put: "protocol_inv P ?st" by (rule put_entry_inv [OF st(1)]) (use keep e in simp_all)
      have found: "map_of (btree_insert ?f e' (pt_entries st)) ?f \<noteq> None" using st(1) by (simp add: protocol_inv_def btree_insert_lookup)
      show ?thesis
      proof (cases outcome)
        case HoldForLater
        with Inr oe e hold_profile_inv [OF put h] st(2) \<open>parse_resolution_profile P J (am_body m) = Some p\<close>
        show ?thesis by (simp add: apply_protocol_message_def si reducing_def Let_def)
      next
        case (Applied import)
        let ?n = "(register_applied (am_message_id m) ?st, js @ (case import of Some job \<Rightarrow> [job] | None \<Rightarrow> []))"
        have "reducing P ?n"
          using register_applied_inv [OF put] st(2) keep Applied by (auto simp: reducing_def split: option.splits)
        with drain_pending_inv [of P ?n ?f] found Applied Inr oe e \<open>parse_resolution_profile P J (am_body m) = Some p\<close>
        show ?thesis by (simp add: apply_protocol_message_def si Let_def)
      qed
    qed
  qed
qed

lemma apply_batch_inv:
  assumes "protocol_inv P st" and "\<forall>m\<in>set messages. is_valid_hash (am_message_id m)"
  shows "(\<forall>si'. apply_protocol_batch P J messages st = Inr si' \<longrightarrow> reducing P si') \<and> apply_protocol_batch P J messages st \<noteq> Inl EntryVanished"
proof -
  have *: "(\<forall>si'. fold_result (apply_protocol_message P J) ms si = Inr si' \<longrightarrow> reducing P si')
      \<and> fold_result (apply_protocol_message P J) ms si \<noteq> Inl EntryVanished"
    if "reducing P si" "\<forall>m\<in>set ms. is_valid_hash (am_message_id m)" for ms si
    using that
  proof (induction ms arbitrary: si)
    case (Cons m ms)
    have m: "is_valid_hash (am_message_id m)" using Cons.prems(2) by simp
    note step = apply_message_inv [OF Cons.prems(1) m, of J]
    show ?case
    proof (cases "apply_protocol_message P J m si")
      case (Inr x)
      with step have "reducing P x" by blast
      with Inr Cons.IH [of x] Cons.prems(2) show ?thesis by simp
    qed (use step in simp)
  qed simp
  show ?thesis unfolding apply_protocol_batch_def by (rule *) (use assms in \<open>simp_all add: reducing_def\<close>)
qed


lemma fresh_protocol_inv: "protocol_inv P protocol_fresh"
  by (simp add: protocol_inv_def protocol_fresh_def)

section \<open>An assignment and its result, in any order\<close>

text \<open>Batches that are observed one after the other.\<close>

definition deliver ::
  "prims \<Rightarrow> resolution_json \<Rightarrow> agent_message list list \<Rightarrow> protocol_state \<Rightarrow> protocol_error + protocol_state \<times> resolution_job list" where
  "deliver P J batches st = fold_result (\<lambda>batch (st, js).
     rbind (apply_protocol_batch P J batch st) (\<lambda>(st', js'). Inr (st', js @ js'))) batches (st, [])"

lemma btree_insert_twice: "btree m \<Longrightarrow> btree_insert k v' (btree_insert k v m) = btree_insert k v' m"
  by (induction m) (auto simp: not_less_iff_gr_or_eq)

lemma btree_remove_insert: "map_of m k = None \<Longrightarrow> btree_remove k (btree_insert k v m) = m"
proof (induction m)
  case (Cons a m)
  then have "filter (\<lambda>(k', _). k' \<noteq> k) m = m" by (force simp: map_of_eq_None_iff filter_id_conv split: if_splits)
  with Cons show ?case by (cases a) (auto simp: btree_remove_def split: if_splits)
qed (simp add: btree_remove_def)

lemma register_applied_entries: "register_applied i (st\<lparr>pt_entries := x\<rparr>) = (register_applied i st)\<lparr>pt_entries := x\<rparr>"
  by (simp add: register_applied_def Let_def)

lemma register_applied_pending: "register_applied i (st\<lparr>pt_pending := x\<rparr>) = (register_applied i st)\<lparr>pt_pending := x\<rparr>"
  by (simp add: register_applied_def Let_def)

text \<open>A result for a job, from its owner.\<close>

definition result_of :: "resolution_job \<Rightarrow> resolution_result \<Rightarrow> agent_message \<Rightarrow> bool" where
  "result_of job result m \<longleftrightarrow> rr_job_id result = rj_job_id job \<and> rr_assignment_id result = rj_assignment_id job
     \<and> rr_attempt result = rj_attempt job \<and> rr_conflict_fingerprint result = rj_conflict_fingerprint job \<and> am_from m = rj_owner job"

definition resulted_entry :: "resolution_assignment_profile \<Rightarrow> agent_message \<Rightarrow> resolution_result \<Rightarrow> agent_message \<Rightarrow> protocol_entry" where
  "resulted_entry a ma result mr = (assigned_entry (ap_job a) (ap_question_generation a) (am_message_id ma))\<lparr>pe_state := PaResultReceived,
     pe_question_generation := rr_question_generation result, pe_result := Some result, pe_observed_message_id := am_message_id mr\<rparr>"

lemma result_applies:
  "result_of (ap_job a) result mr \<Longrightarrow>
     apply_profile_to_entry (RpResult result) (am_message_id mr) (am_from mr) (assigned_entry (ap_job a) (ap_question_generation a) (am_message_id ma))
       = Inr (Applied None, resulted_entry a ma result mr)"
  by (simp add: apply_profile_to_entry_def apply_result_profile_def matches_result_def result_of_def assigned_entry_def resulted_entry_def)

text \<open>A projection that has room and knows nothing of the job yet, and the two messages.\<close>

definition expecting ::
  "prims \<Rightarrow> resolution_json \<Rightarrow> protocol_state \<Rightarrow> resolution_assignment_profile \<Rightarrow> agent_message \<Rightarrow> resolution_result \<Rightarrow> agent_message \<Rightarrow> bool" where
  "expecting P J st a ma result mr \<longleftrightarrow> protocol_inv P st \<and> length (pt_entries st) < resolution_protocol_max_entries
     \<and> length (pt_pending st) < resolution_protocol_max_pending_fingerprints \<and> am_message_id mr \<notin> set (pt_applied st)
     \<and> map_of (pt_entries st) (rj_conflict_fingerprint (ap_job a)) = None \<and> map_of (pt_pending st) (rj_conflict_fingerprint (ap_job a)) = None
     \<and> parse_resolution_profile P J (am_body ma) = Some (RpAssignment a)
     \<and> parse_resolution_profile P J (am_body mr) = Some (RpResult result) \<and> result_of (ap_job a) result mr"

definition assigned :: "protocol_state \<Rightarrow> resolution_assignment_profile \<Rightarrow> agent_message \<Rightarrow> protocol_state" where
  "assigned st a ma = (register_applied (am_message_id ma) st)\<lparr>pt_entries := btree_insert (rj_conflict_fingerprint (ap_job a))
     (assigned_entry (ap_job a) (ap_question_generation a) (am_message_id ma)) (pt_entries st)\<rparr>"

definition resulted ::
  "protocol_state \<Rightarrow> resolution_assignment_profile \<Rightarrow> agent_message \<Rightarrow> resolution_result \<Rightarrow> agent_message \<Rightarrow> protocol_state" where
  "resulted st a ma result mr = (register_applied (am_message_id mr) (register_applied (am_message_id ma) st))\<lparr>pt_entries :=
     btree_insert (rj_conflict_fingerprint (ap_job a)) (resulted_entry a ma result mr) (pt_entries st)\<rparr>"

definition holding :: "protocol_state \<Rightarrow> resolution_assignment_profile \<Rightarrow> resolution_result \<Rightarrow> agent_message \<Rightarrow> protocol_state" where
  "holding st a result mr = st\<lparr>pt_pending := btree_insert (rj_conflict_fingerprint (ap_job a)) [(mr, RpResult result)] (pt_pending st)\<rparr>"

lemma expecting_sorted: "expecting P J st a ma result mr \<Longrightarrow> btree (pt_entries st) \<and> btree (pt_pending st)"
  by (simp add: expecting_def protocol_inv_def)

lemma expecting_fingerprint:
  "expecting P J st a ma result mr \<Longrightarrow> profile_fingerprint (RpResult result) = rj_conflict_fingerprint (ap_job a)"
  by (simp add: expecting_def profile_fingerprint_def result_of_def)

lemma assignment_first:
  "expecting P J st a ma result mr \<Longrightarrow> apply_protocol_message P J ma (st, js) = Inr (assigned st a ma, js @ [ap_job a])"
  by (simp add: expecting_def apply_protocol_message_def profile_fingerprint_def first_assignment_def make_room_def Let_def
      drain_pending_def assigned_def)

lemma assigned_lookup:
  "expecting P J st a ma result mr \<Longrightarrow> map_of (btree_insert (rj_conflict_fingerprint (ap_job a)) e (pt_entries st)) (rj_conflict_fingerprint (ap_job a)) = Some e"
  by (simp add: expecting_sorted btree_insert_lookup)

lemma result_second:
  assumes "expecting P J st a ma result mr"
  shows "apply_protocol_message P J mr (assigned st a ma, js) = Inr (resulted st a ma result mr, js)"
proof -
  have b: "result_of (ap_job a) result mr" "parse_resolution_profile P J (am_body mr) = Some (RpResult result)"
    "map_of (pt_pending st) (rj_conflict_fingerprint (ap_job a)) = None" using assms by (simp_all add: expecting_def)
  have "map_of (pt_entries (assigned st a ma)) (rj_conflict_fingerprint (ap_job a))
      = Some (assigned_entry (ap_job a) (ap_question_generation a) (am_message_id ma))"
    using assigned_lookup [OF assms] by (simp add: assigned_def)
  then show ?thesis
    using b expecting_sorted [OF assms]
    by (simp add: apply_protocol_message_def expecting_fingerprint [OF assms] Let_def result_applies drain_pending_def)
      (simp add: assigned_def resulted_def register_applied_entries btree_insert_twice)
qed

lemma result_first:
  assumes "expecting P J st a ma result mr"
  shows "apply_protocol_message P J mr (st, js) = Inr (holding st a result mr, js)"
  using assms expecting_fingerprint [OF assms]
  by (simp add: expecting_def apply_protocol_message_def Let_def hold_profile_def held_for_def push_held_def holding_def sort_by_def
      resolution_protocol_max_pending_per_fingerprint_def)

lemma assignment_second:
  assumes "expecting P J st a ma result mr"
  shows "apply_protocol_message P J ma (holding st a result mr, js) = Inr (resulted st a ma result mr, js @ [ap_job a])"
proof -
  let ?f = "rj_conflict_fingerprint (ap_job a)"
  have b: "result_of (ap_job a) result mr" "parse_resolution_profile P J (am_body ma) = Some (RpAssignment a)"
    "map_of (pt_entries st) ?f = None" "length (pt_entries st) < resolution_protocol_max_entries" using assms by (simp_all add: expecting_def)
  have pending: "map_of (pt_pending (holding st a result mr)) ?f = Some [(mr, RpResult result)]"
    "btree_remove ?f (pt_pending (holding st a result mr)) = pt_pending st"
    using assms expecting_sorted [OF assms] by (simp_all add: expecting_def holding_def btree_insert_lookup btree_remove_insert)
  have "pt_entries (holding st a result mr) = pt_entries st" by (simp add: holding_def)
  then show ?thesis
    using b pending expecting_sorted [OF assms] assigned_lookup [OF assms]
    by (simp add: apply_protocol_message_def profile_fingerprint_def first_assignment_def make_room_def Let_def drain_pending_def
        retry_held_def result_applies btree_insert_twice register_applied_entries)
      (simp add: resulted_def holding_def register_applied_pending)
qed

lemma batch_one: "apply_protocol_batch P J [m] s = apply_protocol_message P J m (s, [])"
  by (cases "apply_protocol_message P J m (s, [])") (simp_all add: apply_protocol_batch_def sort_by_def)

lemma batch_two:
  "apply_protocol_batch P J [x, y] st = (if message_le x y then rbind (apply_protocol_message P J x (st, [])) (apply_protocol_message P J y)
     else rbind (apply_protocol_message P J y (st, [])) (apply_protocol_message P J x))"
proof -
  have "rbind r Inr = r" for r :: "protocol_error + protocol_state \<times> resolution_job list" by (cases r) simp_all
  moreover have "fold_result f [u, v] s = rbind (f u s) (\<lambda>t. rbind (f v t) Inr)"
    for f :: "agent_message \<Rightarrow> _ \<Rightarrow> protocol_error + protocol_state \<times> resolution_job list" and u v s
  proof -
    have "fold_result f [] = Inr" by (simp add: fun_eq_iff)
    then show ?thesis by (cases "f u s") simp_all
  qed
  ultimately show ?thesis by (simp add: apply_protocol_batch_def sort_by_def)
qed

lemma any_order:
  assumes "expecting P J st a ma result mr" and "batches \<in> {[[ma, mr]], [[mr, ma]], [[ma], [mr]], [[mr], [ma]]}"
  shows "deliver P J batches st = Inr (resulted st a ma result mr, [ap_job a])"
  using assms(2) assignment_first [OF assms(1)] result_second [OF assms(1)] result_first [OF assms(1)] assignment_second [OF assms(1)]
  by (auto simp: deliver_def batch_one batch_two)

text \<open>
  C29: an assignment and the result for it may be observed in either order, in one batch or in two: the projection is the same, the job is
  imported once, and its entry has the result. Nothing is left on hold.
\<close>

theorem assignment_result_any_order:
  assumes "expecting P J st a ma result mr"
  shows "\<exists>st'. (\<forall>batches\<in>{[[ma, mr]], [[mr, ma]], [[ma], [mr]], [[mr], [ma]]}. deliver P J batches st = Inr (st', [ap_job a]))
     \<and> map_of (pt_entries st') (rj_conflict_fingerprint (ap_job a)) = Some (resulted_entry a ma result mr)
     \<and> pe_result (resulted_entry a ma result mr) = Some result \<and> pt_pending st' = pt_pending st"
proof -
  have "map_of (pt_entries (resulted st a ma result mr)) (rj_conflict_fingerprint (ap_job a)) = Some (resulted_entry a ma result mr)"
    using assigned_lookup [OF assms] by (simp add: resulted_def)
  moreover have "pe_result (resulted_entry a ma result mr) = Some result" "pt_pending (resulted st a ma result mr) = pt_pending st"
    by (simp_all add: resulted_entry_def resulted_def)
  ultimately show ?thesis using any_order [OF assms] by blast
qed

section \<open>An example\<close>

definition sample_assignment :: resolution_assignment_profile where
  "sample_assignment = \<lparr>ap_schema_version = 1, ap_job = sample_job, ap_question_generation = None\<rparr>"

definition sample_revoke :: resolution_revoke_profile where
  "sample_revoke = \<lparr>rv_schema_version = 1, rv_job_id = rj_job_id sample_job, rv_assignment_id = rj_assignment_id sample_job, rv_attempt = 0,
     rv_conflict_fingerprint = rj_conflict_fingerprint sample_job, rv_reason = RevokeCancelled\<rparr>"

definition ffres_json :: resolution_json where
  "ffres_json = \<lparr>rp_to_json = (\<lambda>_. []), rp_from_json = (\<lambda>s.
     if s = ''a'' then Some (RpAssignment sample_assignment) else if s = ''r'' then Some (RpResult sample_result)
     else if s = ''v'' then Some (RpRevoke sample_revoke) else None)\<rparr>"

definition sample_message :: "char \<Rightarrow> string \<Rightarrow> agent_message" where
  "sample_message c body = \<lparr>am_message_id = hex64 c, am_from = ''agent-b'', am_to = ''*'', am_kind = MsgStatus, am_body = ''ffres1:'' @ body,
     am_about_snapshot = [], am_reply_to = None, am_created_at_ms = 0\<rparr>"

lemma sample_parse:
  "parse_resolution_profile const_prims ffres_json (''ffres1:'' @ ''a'') = Some (RpAssignment sample_assignment)"
  "parse_resolution_profile const_prims ffres_json (''ffres1:'' @ ''r'') = Some (RpResult sample_result)"
  "parse_resolution_profile const_prims ffres_json (''ffres1:'' @ ''v'') = Some (RpRevoke sample_revoke)"
  by (simp_all add: parse_resolution_profile_Some resolution_job_discriminator_def ffres_json_def resolution_max_profile_bytes_def
      validate_resolution_profile_def sample_assignment_def sample_revoke_def sample_job_valid sample_result_valid check_opt_def sample_valid)

lemma sample_assignment_simps [simp]: "ap_job sample_assignment = sample_job" "ap_question_generation sample_assignment = None"
  by (simp_all add: sample_assignment_def)

lemma sample_message_simps [simp]:
  "am_message_id (sample_message c b) = hex64 c" "am_from (sample_message c b) = ''agent-b''" "am_body (sample_message c b) = ''ffres1:'' @ b"
  by (simp_all add: sample_message_def)

lemma sample_expecting:
  "expecting const_prims ffres_json protocol_fresh sample_assignment (sample_message c ''a'') sample_result (sample_message d ''r'')"
  using sample_parse unfolding expecting_def
  by (simp add: fresh_protocol_inv sample_message_def)
    (simp add: protocol_fresh_def resolution_protocol_max_entries_def resolution_protocol_max_pending_fingerprints_def result_of_def
      sample_assignment_def sample_result_def)

theorem assignment_result_any_order_witness:
  "\<exists>st'. deliver const_prims ffres_json [[sample_message (CHR ''2'') ''r''], [sample_message (CHR ''1'') ''a'']] protocol_fresh = Inr (st', [sample_job])
     \<and> deliver const_prims ffres_json [[sample_message (CHR ''1'') ''a'', sample_message (CHR ''2'') ''r'']] protocol_fresh = Inr (st', [sample_job])
     \<and> pt_pending st' = []"
  using assignment_result_any_order [OF sample_expecting, of "CHR ''1''" "CHR ''2''"]
  by (auto simp: sample_assignment_def protocol_fresh_def)


section \<open>Where machines disagree or stop\<close>

text \<open>
  A result is dropped when the revocation came first, and kept when it came before it: two machines that read the same messages in different
  batches have different projections.
\<close>

lemma revocation_order_shows:
  "\<exists>st st' js js'. deliver const_prims ffres_json [[sample_message (CHR ''1'') ''a'', sample_message (CHR ''3'') ''r''], [sample_message (CHR ''2'') ''v'']]
       protocol_fresh = Inr (st, js)
     \<and> deliver const_prims ffres_json [[sample_message (CHR ''1'') ''a'', sample_message (CHR ''3'') ''r'', sample_message (CHR ''2'') ''v'']]
       protocol_fresh = Inr (st', js')
     \<and> map es_outcome (st_entries (protocol_status_of st)) \<noteq> map es_outcome (st_entries (protocol_status_of st'))"
proof -
  let ?a = "sample_message (CHR ''1'') ''a''" and ?r = "sample_message (CHR ''3'') ''r''" and ?v = "sample_message (CHR ''2'') ''v''"
  let ?e = "assigned_entry sample_job None (hex64 (CHR ''1''))"
  let ?revoked = "\<lambda>e. e\<lparr>pe_state := PaRevoked, pe_revoke_reason := Some RevokeCancelled, pe_observed_message_id := hex64 (CHR ''2'')\<rparr>"
  have order: "message_le ?a ?r" "message_le ?a ?v" "message_le ?v ?r" "\<not> message_le ?r ?v"
    using less_imp_le [OF hex64_less, of "CHR ''1''" "CHR ''3''"] less_imp_le [OF hex64_less, of "CHR ''1''" "CHR ''2''"]
      hex64_less [of "CHR ''2''" "CHR ''3''"] by (auto simp: message_le_def)
  have revoke: "apply_protocol_message const_prims ffres_json ?v (st, js)
      = Inr (register_applied (hex64 (CHR ''2'')) (st\<lparr>pt_entries := [(hex64 (CHR ''e''), ?revoked e)]\<rparr>), js)"
    if "pt_entries st = [(hex64 (CHR ''e''), e)]" "pt_pending st = []" "pe_job_id e = rj_job_id sample_job"
      "pe_assignment_id e = rj_assignment_id sample_job" "pe_attempt e = 0" "pe_conflict_fingerprint e = hex64 (CHR ''e'')" "pe_state e \<noteq> PaRevoked"
    for st js e
    using that sample_parse(3)
    by (simp add: apply_protocol_message_def profile_fingerprint_def sample_revoke_def apply_profile_to_entry_def apply_revoke_def
        drain_pending_def Let_def)
  have late: "apply_protocol_message const_prims ffres_json ?r (st, js) 
      = Inr (register_applied (hex64 (CHR ''3'')) (st\<lparr>pt_entries := [(hex64 (CHR ''e''), ?revoked ?e)]\<rparr>), js)"
    if "pt_entries st = [(hex64 (CHR ''e''), ?revoked ?e)]" "pt_pending st = []" for st js
    using that sample_parse(2)
    by (simp add: apply_protocol_message_def profile_fingerprint_def apply_profile_to_entry_def apply_result_profile_def
        drain_pending_def Let_def matches_result_def assigned_entry_def sample_result_def)
  note first = assignment_first [OF sample_expecting, of "CHR ''1''" "[]"] and second = result_second [OF sample_expecting [of "CHR ''1''" "CHR ''3''"]]
  let ?as = "assigned protocol_fresh sample_assignment ?a" and ?rs = "resulted protocol_fresh sample_assignment ?a sample_result ?r"
  have as: "pt_entries ?as = [(hex64 (CHR ''e''), ?e)]" "pt_pending ?as = []"
    by (simp_all add: assigned_def protocol_fresh_def sample_assignment_def)
  have rs: "pt_entries ?rs = [(hex64 (CHR ''e''), resulted_entry sample_assignment ?a sample_result ?r)]" "pt_pending ?rs = []"
    by (simp_all add: resulted_def protocol_fresh_def sample_assignment_def)
  have one: "deliver const_prims ffres_json [[?a, ?r], [?v]] protocol_fresh
      = Inr (register_applied (hex64 (CHR ''2'')) (?rs\<lparr>pt_entries := [(hex64 (CHR ''e''), ?revoked (resulted_entry sample_assignment ?a sample_result ?r))]\<rparr>), [sample_job])"
    using order first second [of "[sample_job]"] revoke [OF rs, of "[]"]
    by (simp add: deliver_def batch_one batch_two resulted_entry_def assigned_entry_def)
  have two: "deliver const_prims ffres_json [[?a, ?r, ?v]] protocol_fresh
      = Inr (register_applied (hex64 (CHR ''3'')) (register_applied (hex64 (CHR ''2'')) (?as\<lparr>pt_entries := [(hex64 (CHR ''e''), ?revoked ?e)]\<rparr>)), [sample_job])"
  proof -
    let ?st = "register_applied (hex64 (CHR ''2'')) (?as\<lparr>pt_entries := [(hex64 (CHR ''e''), ?revoked ?e)]\<rparr>)"
    have "apply_protocol_message const_prims ffres_json ?v (?as, [sample_job]) = Inr (?st, [sample_job])"
      by (rule revoke [OF as]) (simp_all add: assigned_entry_def)
    moreover have "apply_protocol_message const_prims ffres_json ?r (?st, [sample_job]) = Inr (register_applied (hex64 (CHR ''3'')) ?st, [sample_job])"
      using late [of ?st "[sample_job]"] as(2) by (simp add: register_applied_entries)
    ultimately show ?thesis using order first by (simp add: deliver_def apply_protocol_batch_def sort_by_def)
  qed
  show ?thesis
    by (intro exI conjI, rule one, rule two)
      (simp add: protocol_status_of_def sort_by_def entry_status_def resulted_entry_def assigned_entry_def)
qed

text \<open>
  A human answered the owner's question, and the owner sends the result that follows. Its content differs from the question, so it needs an
  earlier message id than the answer; and when it has one, the entry keeps the answer to a question that is no longer the current one, and the
  projection cannot be stored. In both cases the observation fails, and fails again each time it is tried.
\<close>

lemma answered_result_never_stored:
  assumes "protocol_inv P st" and "map_of (pt_entries st) f = Some e" and "map_of (pt_pending st) f = None"
    and "parse_resolution_profile P J (am_body m) = Some (RpResult result)" and "rr_conflict_fingerprint result = f" and "is_valid_hash (am_message_id m)"
    and "matches_result e result" and "am_from m = pe_owner e" and "pe_state e = PaHumanAnswered"
    and "pe_result e = Some question" and "question \<noteq> result" and "pe_answer e = Some answer"
    and "rr_question_generation result \<noteq> ha_question_generation answer"
  shows "case apply_protocol_batch P J [m] st of Inl _ \<Rightarrow> True | Inr (st', _) \<Rightarrow> validate_protocol_state P st' \<noteq> Inr ()"
proof (cases "am_message_id m < pe_observed_message_id e")
  case True
  let ?e = "e\<lparr>pe_state := PaResultReceived, pe_question_generation := rr_question_generation result, pe_result := Some result,
    pe_observed_message_id := am_message_id m\<rparr>"
  let ?st = "register_applied (am_message_id m) (st\<lparr>pt_entries := btree_insert f ?e (pt_entries st)\<rparr>)"
  have "apply_profile_to_entry (RpResult result) (am_message_id m) (am_from m) e = Inr (Applied None, ?e)"
    using assms(7-13) True by (simp add: apply_profile_to_entry_def apply_result_profile_def)
  then have b: "apply_protocol_batch P J [m] st = Inr (?st, [])"
    using assms(2-5) by (simp add: batch_one apply_protocol_message_def profile_fingerprint_def Let_def drain_pending_def)
  have "(f, ?e) \<in> set (pt_entries ?st)"
    using assms(1) map_of_SomeD [of "btree_insert f ?e (pt_entries st)" f ?e] by (simp add: protocol_inv_def btree_insert_lookup)
  then have "\<not> storable ?st" using assms(12,13) by (fastforce simp: storable_defs)
  moreover have "protocol_inv P ?st" using apply_batch_inv [OF assms(1), of "[m]" J] b assms(6) by (simp add: reducing_def)
  ultimately show ?thesis using b validate_protocol_Inr by simp
next
  case False
  with assms(7-13) have "apply_profile_to_entry (RpResult result) (am_message_id m) (am_from m) e = Inl ResultNotCanonical"
    by (simp add: apply_profile_to_entry_def apply_result_profile_def)
  with assms(2-5) show ?thesis by (simp add: batch_one apply_protocol_message_def profile_fingerprint_def)
qed

text \<open>Over the bound a profile is held all the same, and the projection is refused when it is to be stored.\<close>

lemma held_overflow_never_stored:
  assumes "protocol_inv P st" and "pt_entries st \<noteq> []" and "resolution_protocol_max_pending_per_fingerprint \<le> length (held_for f st)"
    and "\<forall>(m, p)\<in>set (held_for f st). am_message_id m \<noteq> am_message_id (fst h)"
  shows "\<not> storable (hold_profile f h st)"
proof -
  let ?held = "sort_by held_le (held_for f st @ [h])"
  have "pt_pending (hold_profile f h st) = btree_insert f ?held (pt_pending st)" "pt_entries (hold_profile f h st) = pt_entries st"
    using assms(3,4) by (auto simp: hold_profile_def Let_def push_held_def held_for_def list_ex_iff)
  moreover have "(f, ?held) \<in> set (btree_insert f ?held (pt_pending st))"
    using assms(1) map_of_SomeD [of "btree_insert f ?held (pt_pending st)" f ?held] by (simp add: protocol_inv_def btree_insert_lookup)
  moreover have "\<not> length ?held \<le> resolution_protocol_max_pending_per_fingerprint" using assms(3) by simp
  ultimately show ?thesis using assms(2) unfolding storable_defs by fastforce
qed

text \<open>Without an entry the bounds on held profiles are not checked: a projection over them is stored.\<close>

lemma unbounded_pending_stored:
  assumes "protocol_inv P (hold_profile f h st)" and "protocol_inv P st" "pt_entries st = []"
    and "resolution_protocol_max_pending_per_fingerprint \<le> length (held_for f st)"
    and "\<forall>(m, p)\<in>set (held_for f st). am_message_id m \<noteq> am_message_id (fst h)"
  shows "validate_protocol_state P (hold_profile f h st) = Inr () \<and> \<not> pending_bounded (hold_profile f h st)"
proof -
  let ?held = "sort_by held_le (held_for f st @ [h])"
  have st: "pt_pending (hold_profile f h st) = btree_insert f ?held (pt_pending st)" "pt_entries (hold_profile f h st) = []"
    using assms(3-5) by (auto simp: hold_profile_def Let_def push_held_def held_for_def list_ex_iff)
  have "map_of (pt_pending (hold_profile f h st)) f = Some ?held"
    using assms(2) by (simp add: st(1) protocol_inv_def btree_insert_lookup)
  then have "(f, ?held) \<in> set (pt_pending (hold_profile f h st))" by (rule map_of_SomeD)
  then have "\<not> pending_bounded (hold_profile f h st)" using assms(4) by (fastforce simp: pending_bounded_def)
  then show ?thesis using validate_protocol_Inr [OF assms(1)] st(2) by (simp add: storable_def answers_current_def)
qed

end
