(* ===== verification/Spec2Isabelle.thy ===== *)
theory Spec2Isabelle
  imports Tree_Build Tree_Diff Sync_Delta Plan_Checks Copy_Names Hub_Parity Work_Safety Integrator
    Resolution_Protocol
begin

text \<open>
  FeanorFS keeps a workspace of files in step between machines and agents. A client scans its worktree into a flat
  view, builds canonical trees out of it, compares base, local and remote, and publishes snapshots to a hub,
  which stores opaque objects, reachability manifests and one head per workspace. Agents that share a
  workspace coordinate by typed messages, from which every participant projects the same work state. This
  development models the parts of it that decide what is kept, merged, published and collected.

  \<^bold>\<open>Parts and their theories.\<close> All paths are under \<^verbatim>\<open>src/\<close>.

  \<^item> \<open>Prelude\<close>, \<open>Ordered_Map\<close>, \<open>Stable_Sort\<close>: machine types, results, UTF-8 and the library structures of
    Rust. A string is the list of its bytes; \<^verbatim>\<open>BTreeMap\<close> is a sorted association list; a \<^verbatim>\<open>HashMap\<close> is an
    association list whose order the theorems do not depend on.
  \<^item> \<open>Portable\<close> (\<^verbatim>\<open>common/src/lib.rs\<close>, \<^verbatim>\<open>hub_contract.rs\<close>): paths, identifiers, manifests, sizes.
  \<^item> \<open>Tree_Codec\<close> (\<^verbatim>\<open>common/src/tree.rs\<close>, \<^verbatim>\<open>tree_codec.rs\<close>): canonical bytes of trees and snapshots. C1 and C2:
    encoding and decoding are inverse, and the decoder accepts canonical bytes only. The locale \<open>wire\<close>
    is the contract of one field, interpreted for every field of the format.
  \<^item> \<open>Traversal\<close>, \<open>Tree_Flatten\<close>, \<open>Tree_Build\<close> (\<^verbatim>\<open>tree_convert.rs\<close>), \<open>Tree_Diff\<close> (\<^verbatim>\<open>tree_diff.rs\<close>): the iterative
    expansion, construction and comparison of trees with their bounds on depth, work and output. C4 to C10: they
    end, never meet their internal errors, refuse exactly the cyclic graphs, and compute the leaves, their
    difference and their trees. The locale \<open>worklist\<close> is a loop with a budget of work items, interpreted
    for both traversals; \<open>arena_insertion\<close> is the insertion of one path, interpreted for files and conflicts.
  \<^item> \<open>Three_Way\<close> (\<^verbatim>\<open>three_way.rs\<close>), \<open>Sync_Delta\<close> (\<^verbatim>\<open>sync_delta.rs\<close>), \<open>Reconcile\<close>
    (\<^verbatim>\<open>agent-core/src/tree_reconcile.rs\<close>): C11 to C14, what is a conflict, and that no change of either side is
    overwritten or lost.
  \<^item> \<open>Local_State\<close> (\<^verbatim>\<open>agent-core/src/state.rs\<close>, \<^verbatim>\<open>state/durable.rs\<close>), \<open>Client_Db\<close> (\<^verbatim>\<open>local/\<close>): C16 to C19, the
    transactions on the state file and the client's cache, conflict registry, history and access log on
    top of them. The locale \<open>durable_store\<close> is what a store of transactions promises; it is interpreted for
    the client's state file and for the in-process hub's.
  \<^item> \<open>Conflict_Gate\<close>, \<open>Plan_Checks\<close>, \<open>Copy_Names\<close> (\<^verbatim>\<open>agent-core/src/conflicts.rs\<close>, \<^verbatim>\<open>sync_pass/negotiate.rs\<close>): C24,
    C25, C27 and C28, the composition of reconciliation, detection and the registry in a negotiated pass, the structural
    check of a plan, and the names of conflict copies.
  \<^item> \<open>Hub_Db\<close> (\<^verbatim>\<open>server/src/db.rs\<close>), \<open>Hub_Gc\<close> (\<^verbatim>\<open>gc.rs\<close>), \<open>Head_Wait\<close> (\<^verbatim>\<open>app/head_wait.rs\<close>), \<open>Hub_App\<close>
    (\<^verbatim>\<open>app/guards.rs\<close> and the routes), \<open>Hub_Run\<close>: the server. C31 and C32: what a collection keeps and removes. C33: no
    wake-up is lost. C34: in every interleaving that the publication lock admits, what is published can be
    downloaded.
  \<^item> \<open>Local_Hub\<close>, \<open>Hub_Parity\<close> (\<^verbatim>\<open>agent-core/src/hub.rs\<close>, \<^verbatim>\<open>hub/\<close>, \<^verbatim>\<open>hub_state/\<close>): the hub inside the client, and C40:
    it answers publication as the server does.
  \<^item> \<open>Work_Contract\<close> (\<^verbatim>\<open>common/src/work_contract.rs\<close>), \<open>Work_State\<close>, \<open>Work_Reducer\<close>, \<open>Work_Bounds\<close>, \<open>Work_Safety\<close>
    (\<^verbatim>\<open>agent-core/src/work.rs\<close>): profiles and scopes, and the projection of the messages. C35 to C39: overlaps,
    the typed bodies, retention, acyclic dependencies, and who may decide what.

  \<^item> \<open>Integrator_Contract\<close> (\<^verbatim>\<open>common/src/integrator_contract.rs\<close>), \<open>Integrator\<close> (\<^verbatim>\<open>agent-core/src/integrator.rs\<close>): the draw of an
    integrator and the dispatcher that offers the work. C21: the draw can be audited. C30: the life cycle of
    an assignment under crashes; the locale \<open>logged_writes\<close> has a rule per operation on the log of writes, and is
    interpreted for the invariant of the dispatcher's file.
  \<^item> \<open>Resolution_Contract\<close> (\<^verbatim>\<open>common/src/resolution_contract.rs\<close>): the identity of a conflict, jobs, results and answers. C23: the
    fingerprint determines the identity; the locale \<open>prefix_code\<close> is a field that can be read off in front of
    anything, interpreted for every field that is hashed.
  \<^item> \<open>Owner_Designation\<close> (\<^verbatim>\<open>agent-core/src/integrator.rs\<close>, \<^verbatim>\<open>designate_conflict_owner\<close>): who is to resolve a conflict. C22: from which roster, by
    bounded causal ancestry or by the ranking.
  \<^item> \<open>Durable_Process\<close>, \<open>Resolution_Store\<close>, \<open>Resolution_Engine\<close>, \<open>Resolution_Safety\<close>, \<open>Resolution_Recovery\<close>, \<open>Resolution_Run\<close>
    (\<^verbatim>\<open>agent-core/src/resolution.rs\<close>, \<^verbatim>\<open>snapshot.rs\<close>, \<^verbatim>\<open>conflict_artifacts.rs\<close>): the engine that publishes a resolved conflict. An operation is a
    process of atomic actions that may die after each of them while other machines move the head; the locale
    \<open>crash_safe\<close> is the rule that what every action keeps holds in every history, interpreted for all
    operations of the engine. C3: a job is completed only for a snapshot that was published and resolves exactly its conflict.
    C15: what one action may change. C20: recovery ends and settles every uncertain job.
  \<^item> \<open>Resolution_Protocol\<close> (\<^verbatim>\<open>agent-core/src/resolution_protocol.rs\<close>): the reducer of resolution messages. C26: the projection stays well
    formed, and when it can be stored. C29: an assignment and its result commute.

  \<^bold>\<open>State and steps.\<close> A structure is a record and an enumeration a datatype with the constructors of the source;
  an operation that mutates is a function to the new state; an error is the left of a sum. What
  happens between requests that run at the same time is an inductive step relation (\<open>wait_step\<close>, \<open>hub_step\<close>,
  \<open>work_reachable\<close>, \<open>dispatcher_reachable\<close>, \<open>reachable\<close>), and the properties of reachable states are shown by rule induction.

  \<^bold>\<open>Parameters.\<close> Code outside the repository is an argument: \<open>prims\<close> holds BLAKE3 in hexadecimal and the Unicode
  tables, the records \<open>json_codec\<close>, \<open>hub_codec\<close>, \<open>work_json\<close>, \<open>request_json\<close>, \<open>integrator_json\<close> and \<open>resolution_json\<close> the texts of
  \<^verbatim>\<open>serde_json\<close>, \<open>float_ops\<close> the floating-point operations, and the snapshot engine is what \<open>Reconcile\<close> takes. The
  outside of an operation is an argument too: the clock, \<open>store_io\<close> for a lock and a replacement of a file,
  \<open>blob_write\<close> for a blob, \<open>upload_io\<close> and the sweep's oracle, \<open>res_io\<close> for the requests, writes and swap of a resolution. \<open>res_engine\<close> holds
  what a resolution reads by content: snapshots, trees, sealed candidates; \<open>signal_inbox\<close> and \<open>send_message\<close> are the signal stream. A theorem that needs more of a parameter than its
  type says so in its hypotheses, and its witness instantiates the parameter.

  \<^bold>\<open>Loops and bounds.\<close> The loops of the source are total functions with measures; where the code has a budget
  (work items, depth, output paths, pages of 512, batches of 500, copies, evidence) the model keeps the
  number. The traversals of trees run on the budget of the code itself, so no fuel is added. The reducer's
  eviction may index out of range, where the code panics; there the model returns \<open>None\<close>, and C37 says when it
  does not.

  \<^bold>\<open>Not modelled.\<close> Sealing and key derivation, object transfer and the object cache, the materialisation of a
  plan in the worktree with its rollback journal, the runner and the agent
  processes, scanning and configuration, the mesh, tunnels and relays, TLS and process start, the command line,
  the tray and the bindings: they are I/O, platform access or calls of other libraries around the logic
  above, or state machines not taken up (the signal index and the rollback journal). Failures of SQLite itself, the extraction of requests by the
  web framework, the sending of work messages and the report of the work status are also left out.
\<close>

end
